(* ===== verification/Prelude.thy ===== *)
theory Prelude
  imports Main "HOL-Library.Word"
begin

text \<open>
  Shared vocabulary of the development: bytes, the outcome type of C code that can fail,
  C strings, byte stores, and the list version of the loop that feeds bytes to a parser
  until the parser is done.

  An operation of the model returns \<open>Inr\<close> of its result, or \<open>Inl\<close> of the way the C code
  stops: a failed \<open>assert\<close>, a call of \<open>abort()\<close> or \<open>exit()\<close>, or an access outside an
  object (undefined behaviour).
\<close>

section \<open>Bytes, words and outcomes\<close>

type_synonym byte = "8 word"

datatype fault = Assertion_failed | Aborted | Exited | Undefined

type_synonym 'a res = "fault + 'a"

named_theorems res_simps \<open>unfolding of the outcome combinators\<close>
named_theorems inv_intros \<open>preservation of the component invariants\<close>

definition bind_res :: "'a res \<Rightarrow> ('a \<Rightarrow> 'b res) \<Rightarrow> 'b res" where
  "bind_res m f = (case m of Inl e \<Rightarrow> Inl e | Inr x \<Rightarrow> f x)"

lemma bind_res_Inl [simp, res_simps]: "bind_res (Inl e) f = Inl e"
  by (simp add: bind_res_def)

lemma bind_res_Inr [simp, res_simps]: "bind_res (Inr x) f = f x"
  by (simp add: bind_res_def)

lemma bind_res_Inr_right [simp]: "bind_res m Inr = m"
  by (cases m) auto

lemma bind_res_eq_Inr: "bind_res m f = Inr y \<longleftrightarrow> (\<exists>x. m = Inr x \<and> f x = Inr y)"
  by (cases m) auto

lemma bind_res_eq_Inl: "bind_res m f = Inl e \<longleftrightarrow> m = Inl e \<or> (\<exists>x. m = Inr x \<and> f x = Inl e)"
  by (cases m) auto

lemma bind_res_cong [fundef_cong]:
  "m = m' \<Longrightarrow> (\<And>x. m' = Inr x \<Longrightarrow> f x = g x) \<Longrightarrow> bind_res m f = bind_res m' g"
  by (cases m') auto

lemma bind_res_assoc: "bind_res (bind_res m f) g = bind_res m (\<lambda>x. bind_res (f x) g)"
  by (cases m) auto

definition ok_res :: "'a res \<Rightarrow> bool" where
  "ok_res m \<longleftrightarrow> (\<exists>x. m = Inr x)"

lemma ok_res_simps [simp]: "ok_res (Inr x)" "\<not> ok_res (Inl e)"
  by (simp_all add: ok_res_def)

lemma unat_byte_less [simp]: "unat (i :: byte) < 256"
  using unsigned_less [of i] by simp

lemma unat_byte_Suc: "unat (i :: byte) + 1 < 256 \<Longrightarrow> unat (i + 1) = unat i + 1"
  by (simp add: unat_word_ariths)

lemma unat_of_nat_byte [simp]: "n < 256 \<Longrightarrow> unat (of_nat n :: byte) = n"
  by (simp add: unat_of_nat)

lemma unat_byte_eq_1: "unat (i :: byte) = 1 \<Longrightarrow> i = 1"
  by (rule word_unat_eq_iff [THEN iffD2]) simp

section \<open>C strings and byte stores\<close>

definition cstr :: "byte list \<Rightarrow> byte list" where
  "cstr m = takeWhile (\<lambda>c. c \<noteq> 0) m"

lemma cstr_terminated [simp]: "0 \<notin> set s \<Longrightarrow> cstr (s @ 0 # m) = s"
  by (induction s) (auto simp: cstr_def)

lemma cstr_append_zero [simp]: "cstr (s @ 0 # m) = cstr s"
  by (induction s) (auto simp: cstr_def)

lemma cstr_idem [simp]: "0 \<notin> set s \<Longrightarrow> cstr s = s"
  by (induction s) (auto simp: cstr_def)

lemma zero_notin_cstr [simp]: "0 \<notin> set (cstr m)"
  by (auto simp: cstr_def dest: set_takeWhileD)

definition store_bytes :: "nat \<Rightarrow> byte list \<Rightarrow> byte list \<Rightarrow> byte list" where
  "store_bytes i xs m = take i m @ xs @ drop (i + length xs) m"

lemma length_store_bytes [simp]:
  "i + length xs \<le> length m \<Longrightarrow> length (store_bytes i xs m) = length m"
  by (simp add: store_bytes_def)

lemma take_drop_store_bytes:
  assumes "r \<le> i" and "i + length xs \<le> length m"
  shows "take (i + length xs - r) (drop r (store_bytes i xs m)) = take (i - r) (drop r m) @ xs"
proof -
  have 1: "drop r (store_bytes i xs m) = take (i - r) (drop r m) @ xs @ drop (i + length xs) m"
    using assms by (simp add: store_bytes_def drop_take)
  have 2: "i + length xs - r = length (take (i - r) (drop r m) @ xs)"
    using assms by simp
  show ?thesis unfolding 1 2 by (metis append.assoc append_eq_conv_conj)
qed

text \<open>A store into a block of memory, undefined past its end.\<close>

definition put_at :: "nat \<Rightarrow> byte list \<Rightarrow> byte list \<Rightarrow> byte list res" where
  "put_at i xs m = (if i + length xs \<le> length m then Inr (store_bytes i xs m) else Inl Undefined)"

lemma put_at_simp [simp]: "i + length xs \<le> length m \<Longrightarrow> put_at i xs m = Inr (store_bytes i xs m)"
  by (simp add: put_at_def)

lemma take_drop_Suc:
  "r < w \<Longrightarrow> w \<le> length m \<Longrightarrow> take (w - r) (drop r m) = m ! r # take (w - Suc r) (drop (Suc r) m)"
  by (simp add: Cons_nth_drop_Suc [symmetric] take_Cons' Suc_diff_Suc)

section \<open>Feeding a list of bytes to a parser\<close>

text \<open>
  The reference of the three consume loops of the program: bytes are taken one by one and
  the loop leaves as soon as the parser reports that it is done; the rest stays unread.
\<close>

fun feed_bytes :: "('p \<Rightarrow> byte \<Rightarrow> 'p res) \<Rightarrow> ('p \<Rightarrow> bool) \<Rightarrow> byte list \<Rightarrow> 'p
    \<Rightarrow> ('p \<times> byte list) res" where
  "feed_bytes f stop [] p = Inr (p, [])"
| "feed_bytes f stop (x # xs) p =
     (case f p x of
        Inl e \<Rightarrow> Inl e
      | Inr p' \<Rightarrow> if stop p' then Inr (p', xs) else feed_bytes f stop xs p')"

lemma feed_bytes_all_read:
  "feed_bytes f stop xs p = Inr (p', rest) \<Longrightarrow> \<not> stop p' \<Longrightarrow> rest = []"
  by (induction xs arbitrary: p) (auto split: sum.splits if_splits)

lemma feed_bytes_append:
  "feed_bytes f stop xs p = Inr (p', []) \<Longrightarrow> \<not> stop p' \<Longrightarrow>
     feed_bytes f stop (xs @ ys) p = feed_bytes f stop ys p'"
  by (induction xs arbitrary: p) (auto split: sum.splits if_splits)

lemma feed_bytes_append_stop:
  "feed_bytes f stop xs p = Inr (p', rest) \<Longrightarrow> xs \<noteq> [] \<Longrightarrow> stop p' \<Longrightarrow>
     feed_bytes f stop (xs @ ys) p = Inr (p', rest @ ys)"
proof (induction xs arbitrary: p)
  case Nil
  then show ?case by simp
next
  case (Cons x xs)
  from Cons.prems(1) obtain p1 where p1: "f p x = Inr p1"
    by (auto split: sum.splits)
  show ?case
  proof (cases "stop p1")
    case True
    then show ?thesis using Cons.prems p1 by auto
  next
    case False
    with Cons.prems p1 have "feed_bytes f stop xs p1 = Inr (p', rest)" "xs \<noteq> []"
      by auto
    with Cons.IH False p1 Cons.prems(3) show ?thesis by simp
  qed
qed

lemma feed_bytes_rest:
  "feed_bytes f stop xs p = Inr (p', rest) \<Longrightarrow> \<exists>used. xs = used @ rest"
  by (induction xs arbitrary: p) (force split: sum.splits if_splits)+

lemma feed_bytes_fault: "feed_bytes f stop xs p = Inl e \<Longrightarrow> feed_bytes f stop (xs @ ys) p = Inl e"
  by (induction xs arbitrary: p) (auto split: sum.splits if_splits)

text \<open>A first part that does not reach the end of the message is read as a whole.\<close>

lemma feed_bytes_first_part:
  assumes "feed_bytes f stop (xs @ ys) p = Inr (q, rest)" and "xs \<noteq> []" and "length rest < length ys"
  shows "\<exists>p'. feed_bytes f stop xs p = Inr (p', []) \<and> \<not> stop p' \<and> feed_bytes f stop ys p' = Inr (q, rest)"
proof (cases "feed_bytes f stop xs p")
  case (Inl e)
  then show ?thesis using feed_bytes_fault [OF Inl, of ys] assms(1) by simp
next
  case (Inr r)
  obtain p' zs where f: "feed_bytes f stop xs p = Inr (p', zs)" using Inr by (cases r) simp
  show ?thesis
  proof (cases "stop p'")
    case True
    then show ?thesis using feed_bytes_append_stop [OF f assms(2) True, of ys] assms(1,3) by simp
  next
    case False
    then have "zs = []" using feed_bytes_all_read [OF f] by simp
    with f False feed_bytes_append [of f stop xs p p' ys] assms(1) show ?thesis by simp
  qed
qed

text \<open>An invariant of the single step is an invariant of the loop.\<close>

lemma feed_bytes_invariant:
  assumes "\<And>p x p'. I p \<Longrightarrow> f p x = Inr p' \<Longrightarrow> I p'"
  shows "I p \<Longrightarrow> feed_bytes f stop xs p = Inr (p', rest) \<Longrightarrow> I p'"
  using assms by (induction xs arbitrary: p) (auto split: sum.splits if_splits)

lemma feed_bytes_total:
  assumes "\<And>p x. I p \<Longrightarrow> \<exists>p'. f p x = Inr p' \<and> I p'"
  shows "I p \<Longrightarrow> \<exists>p' rest. feed_bytes f stop xs p = Inr (p', rest) \<and> I p'"
proof (induction xs arbitrary: p)
  case Nil
  then show ?case by simp
next
  case (Cons x xs)
  from assms [OF Cons.prems] obtain p1 where "f p x = Inr p1" "I p1" by blast
  with Cons.IH [of p1] show ?case by auto
qed

section \<open>Interfaces: byte queues and consume loops\<close>

text \<open>
  What the consume loops need of a buffer: whether a byte can be read, and a read that
  takes the first byte of the content.
\<close>

locale byte_queue =
  fixes q_inv :: "'b \<Rightarrow> bool"
    and q_content :: "'b \<Rightarrow> byte list"
    and q_can_read :: "'b \<Rightarrow> bool"
    and q_read :: "'b \<Rightarrow> (byte \<times> 'b) res"
  assumes can_read_iff: "q_inv b \<Longrightarrow> q_can_read b \<longleftrightarrow> q_content b \<noteq> []"
    and read_first: "q_inv b \<Longrightarrow> q_content b = x # xs \<Longrightarrow>
           \<exists>b'. q_read b = Inr (x, b') \<and> q_inv b' \<and> q_content b' = xs"
begin

lemma empty_cannot_read: "q_inv b \<Longrightarrow> q_content b = [] \<Longrightarrow> \<not> q_can_read b"
  by (simp add: can_read_iff)

end

text \<open>
  A consume loop over such a queue: while a byte can be read, read it, feed it, leave when
  the parser is done. Every loop with this equation agrees with \<open>feed_bytes\<close> on the
  content of the queue, and leaves the rest of the content unread.
\<close>

locale consume_loop = byte_queue +
  fixes feed :: "'p \<Rightarrow> byte \<Rightarrow> 'p res"
    and stop :: "'p \<Rightarrow> bool"
    and loop :: "'a \<Rightarrow> 'p \<Rightarrow> ('p \<times> 'a) res"
  assumes loop_unfold: "loop b p =
     (if q_can_read b
      then bind_res (q_read b) (\<lambda>(x, b'). bind_res (feed p x) (\<lambda>p'.
             if stop p' then Inr (p', b') else loop b' p'))
      else Inr (p, b))"
begin

lemma loop_refines_feed_bytes:
  "q_inv b \<Longrightarrow>
     (case feed_bytes feed stop (q_content b) p of
        Inl e \<Rightarrow> loop b p = Inl e
      | Inr (p', rest) \<Rightarrow> \<exists>b'. loop b p = Inr (p', b') \<and> q_inv b' \<and> q_content b' = rest)"
proof (induction "q_content b" arbitrary: b p)
  case Nil
  then have "\<not> q_can_read b" by (metis empty_cannot_read)
  then have "loop b p = Inr (p, b)" by (subst loop_unfold) simp
  then show ?case using Nil.hyps [symmetric] Nil.prems by simp
next
  case (Cons x xs)
  from read_first [OF Cons.prems Cons.hyps(2) [symmetric]]
  obtain b' where b': "q_read b = Inr (x, b')" "q_inv b'" "q_content b' = xs" by blast
  have can: "q_can_read b"
    using can_read_iff [OF Cons.prems] Cons.hyps(2) [symmetric] by simp
  show ?case
  proof (cases "feed p x")
    case (Inl e)
    have "loop b p = Inl e" by (subst loop_unfold) (simp add: can b' Inl)
    then show ?thesis by (simp add: Cons.hyps(2) [symmetric] Inl)
  next
    case (Inr p1)
    have step: "loop b p = (if stop p1 then Inr (p1, b') else loop b' p1)"
      by (subst loop_unfold) (simp add: can b' Inr)
    show ?thesis
    proof (cases "stop p1")
      case True
      then show ?thesis by (simp add: step Inr b' Cons.hyps(2) [symmetric])
    next
      case False
      have "feed_bytes feed stop (q_content b) p = feed_bytes feed stop (q_content b') p1"
        using False by (simp add: Inr b' Cons.hyps(2) [symmetric])
      moreover have "loop b p = loop b' p1" using False by (simp add: step)
      ultimately show ?thesis
        using Cons.hyps(1) [of b' p1] b' by (auto split: sum.splits)
    qed
  qed
qed

lemma loop_Inr:
  assumes "q_inv b" and "feed_bytes feed stop (q_content b) p = Inr (p', rest)"
  shows "\<exists>b'. loop b p = Inr (p', b') \<and> q_inv b' \<and> q_content b' = rest"
  using loop_refines_feed_bytes [OF assms(1), of p] assms(2) by simp

lemma loop_inv:
  assumes "q_inv b" and "loop b p = Inr (p', b')"
  shows "q_inv b'"
  using loop_refines_feed_bytes [OF assms(1), of p] assms(2) by (auto split: sum.splits)

lemma loop_keeps:
  assumes read: "\<And>b x b'. J b \<Longrightarrow> q_read b = Inr (x, b') \<Longrightarrow> J b'"
  shows "q_inv b \<Longrightarrow> J b \<Longrightarrow> loop b p = Inr (p', b') \<Longrightarrow> J b'"
proof (induction "q_content b" arbitrary: b p)
  case Nil
  then have "\<not> q_can_read b" by (metis empty_cannot_read)
  then have "loop b p = Inr (p, b)" by (subst loop_unfold) simp
  then show ?case using Nil.prems by simp
next
  case (Cons x xs)
  from read_first [OF Cons.prems(1) Cons.hyps(2) [symmetric]]
  obtain b1 where b1: "q_read b = Inr (x, b1)" "q_inv b1" "q_content b1 = xs" by blast
  have can: "q_can_read b" using can_read_iff [OF Cons.prems(1)] Cons.hyps(2) [symmetric] by simp
  have "loop b p = bind_res (feed p x) (\<lambda>p'. if stop p' then Inr (p', b1) else loop b1 p')"
    by (subst loop_unfold) (simp add: can b1)
  with Cons.prems(3) obtain p1 where
    p1: "(if stop p1 then Inr (p1, b1) else loop b1 p1) = Inr (p', b')"
    by (auto simp: bind_res_eq_Inr simp del: split_paired_Ex)
  then show ?case
    using Cons.hyps(1) [of b1 p1] b1 read [OF Cons.prems(2) b1(1)] by (auto split: if_splits)
qed

text \<open>A stream that arrives in two segments: the second run goes on where the first one stopped.\<close>

lemma loop_segments:
  assumes "q_inv b" and "loop b p = Inr (p1, b1)" and "\<not> stop p1"
    and "q_inv b2" and "q_inv b3" and "q_content b3 = q_content b @ q_content b2"
  shows "q_content b1 = [] \<and>
     (case loop b2 p1 of
        Inl e \<Rightarrow> loop b3 p = Inl e
      | Inr (p2, b4) \<Rightarrow> \<exists>b5. loop b3 p = Inr (p2, b5) \<and> q_inv b5 \<and> q_content b5 = q_content b4)"
proof -
  obtain rest where f: "feed_bytes feed stop (q_content b) p = Inr (p1, rest)" and r: "q_content b1 = rest"
    using loop_refines_feed_bytes [OF assms(1), of p] assms(2) by (auto split: sum.splits)
  have "rest = []" using feed_bytes_all_read [OF f assms(3)] .
  with f have "feed_bytes feed stop (q_content b3) p = feed_bytes feed stop (q_content b2) p1"
    using feed_bytes_append [of feed stop "q_content b" p p1 "q_content b2"] assms(3,6) by simp
  with loop_refines_feed_bytes [OF assms(4), of p1] loop_refines_feed_bytes [OF assms(5), of p] r \<open>rest = []\<close>
  show ?thesis by (auto split: sum.splits)
qed

lemma loop_Inl:
  assumes "q_inv b" and "feed_bytes feed stop (q_content b) p = Inl e"
  shows "loop b p = Inl e"
  using loop_refines_feed_bytes [OF assms(1), of p] assms(2) by simp

end

section \<open>Messages in segments\<close>

text \<open>The events of a list of keys, with what their handler returns.\<close>

fun event_results :: "('k \<Rightarrow> 'w \<Rightarrow> ('r \<times> 'w) res) \<Rightarrow> 'k list \<Rightarrow> 'w \<Rightarrow> ('r list \<times> 'w) res" where
  "event_results f [] w = Inr ([], w)"
| "event_results f (k # ks) w = bind_res (f k w) (\<lambda>(r, w1).
     bind_res (event_results f ks w1) (\<lambda>(rs, w2). Inr (r # rs, w2)))"

lemma event_results_snoc:
  "event_results f ks w = Inr (rs, w1) \<Longrightarrow> f k w1 = Inr (r, w2) \<Longrightarrow>
     event_results f (ks @ [k]) w = Inr (rs @ [r], w2)"
  by (induction ks arbitrary: w rs) (auto simp: bind_res_eq_Inr)

text \<open>
  A read handler that stays in its state as long as its parser waits for more: \<open>waits c w p q n\<close> tells
  that the world \<open>w\<close> holds the parser \<open>p\<close>, the unread bytes \<open>q\<close> and room for \<open>n\<close> more; the room is
  \<open>room c\<close> when all has been read. Such a handler brings the parser, over any events, to the point where
  the segment with the end of the message arrives.
\<close>

locale segmented =
  fixes feed :: "'p \<Rightarrow> byte \<Rightarrow> 'p res"
    and stop :: "'p \<Rightarrow> bool"
    and read :: "'k \<Rightarrow> 'w \<Rightarrow> (nat \<times> 'w) res"
    and code :: nat
    and waits :: "'c \<Rightarrow> 'w \<Rightarrow> 'p \<Rightarrow> byte list \<Rightarrow> nat \<Rightarrow> bool"
    and arrives :: "'c \<Rightarrow> byte list \<Rightarrow> 'k \<Rightarrow> bool"
    and room :: "'c \<Rightarrow> nat"
  assumes nonempty: "arrives c xs k \<Longrightarrow> xs \<noteq> []"
    and partial: "waits c w p q n \<Longrightarrow> arrives c xs k \<Longrightarrow> length xs \<le> n \<Longrightarrow>
      feed_bytes feed stop (q @ xs) p = Inr (p', []) \<Longrightarrow> \<not> stop p' \<Longrightarrow>
      \<exists>w'. read k w = Inr (code, w') \<and> waits c w' p' [] (room c)"
begin

lemma before_last:
  assumes "list_all2 (arrives c) xss ks" and "waits c w p q n"
    and "\<forall>ys \<in> set (xss @ [xs]). length ys \<le> room c" and "length (hd (xss @ [xs])) \<le> n"
    and "feed_bytes feed stop (q @ concat xss @ xs) p = Inr (r, rest)" and "length rest < length xs"
  shows "\<exists>w' p' q' n'. event_results read ks w = Inr (replicate (length xss) code, w') \<and> waits c w' p' q' n' \<and>
    length xs \<le> n' \<and> feed_bytes feed stop (q' @ xs) p' = Inr (r, rest)"
  using assms
proof (induction xss arbitrary: ks w p q n)
  case Nil
  then show ?case by auto
next
  case (Cons ys yss)
  obtain k ks' where ks: "ks = k # ks'" "arrives c ys k" "list_all2 (arrives c) yss ks'"
    using Cons.prems(1) by (auto simp: list_all2_Cons1)
  have len: "length rest < length (concat yss @ xs)" and ne: "q @ ys \<noteq> []"
    using Cons.prems(6) nonempty [OF ks(2)] by auto
  from feed_bytes_first_part [OF _ ne len, of feed stop p r] Cons.prems(5) obtain p' where
    p': "feed_bytes feed stop (q @ ys) p = Inr (p', [])" "\<not> stop p'" "feed_bytes feed stop (concat yss @ xs) p' = Inr (r, rest)"
    by auto
  from partial [OF Cons.prems(2) ks(2) _ p'(1,2)] Cons.prems(4) obtain w' where
    w': "read k w = Inr (code, w')" "waits c w' p' [] (room c)" by auto
  have fits: "\<forall>zs \<in> set (yss @ [xs]). length zs \<le> room c" using Cons.prems(3) by simp
  then have "length (hd (yss @ [xs])) \<le> room c" by (cases yss) auto
  from Cons.IH [OF ks(3) w'(2) fits this _ Cons.prems(6)] p'(3) obtain v p1 q1 n1 where
    "event_results read ks' w' = Inr (replicate (length yss) code, v)" "waits c v p1 q1 n1" "length xs \<le> n1"
    "feed_bytes feed stop (q1 @ xs) p1 = Inr (r, rest)" by auto
  with w'(1) have "event_results read ks w = Inr (replicate (length (ys # yss)) code, v)" by (simp add: ks(1))
  with \<open>waits c v p1 q1 n1\<close> \<open>length xs \<le> n1\<close> \<open>feed_bytes feed stop (q1 @ xs) p1 = Inr (r, rest)\<close>
  show ?case by blast
qed

end

end
