(* ===== verification/Stm.thy ===== *)
theory Stm
  imports Prelude
begin

text \<open>
  \<open>src/src/stm.c\<close>: the state machine engine. A machine points into a table of state
  definitions; the table (\<open>stm->states\<close>) is an argument of the operations, \<open>current\<close> is an
  index into it (\<open>None\<close> for NULL). The callbacks act on a world \<open>'w\<close> that does not contain
  the machine (no callback of the program touches \<open>stm\<close>). A read of the table out of range is
  \<open>Inl Undefined\<close>, a call of \<open>abort()\<close> is \<open>Inl Aborted\<close>.
\<close>

section \<open>Structures\<close>

record ('k, 'w) state_definition =
  sd_state :: nat
  on_arrival :: "(nat \<Rightarrow> 'k \<Rightarrow> 'w \<Rightarrow> 'w res) option"
  on_departure :: "(nat \<Rightarrow> 'k \<Rightarrow> 'w \<Rightarrow> 'w res) option"
  on_read_ready :: "('k \<Rightarrow> 'w \<Rightarrow> (nat \<times> 'w) res) option"
  on_write_ready :: "('k \<Rightarrow> 'w \<Rightarrow> (nat \<times> 'w) res) option"
  on_block_ready :: "('k \<Rightarrow> 'w \<Rightarrow> (nat \<times> 'w) res) option"

record state_machine =
  stm_initial :: nat
  stm_max_state :: nat
  stm_current :: "nat option"

type_synonym ('k, 'w) state_table = "('k, 'w) state_definition list"

section \<open>Operations\<close>

definition state_at :: "('k, 'w) state_table \<Rightarrow> nat \<Rightarrow> ('k, 'w) state_definition res" where
  "state_at tbl i = (if i < length tbl then Inr (tbl ! i) else Inl Undefined)"

function stm_check_states :: "('k, 'w) state_table \<Rightarrow> nat \<Rightarrow> nat \<Rightarrow> unit res" where
  "stm_check_states tbl i mx =
     (if i \<le> mx
      then bind_res (state_at tbl i) (\<lambda>s.
             if i \<noteq> sd_state s then Inl Aborted else stm_check_states tbl (Suc i) mx)
      else Inr ())"
  by pat_completeness auto
termination
  by (relation "measure (\<lambda>(tbl, i, mx). Suc mx - i)") auto

declare stm_check_states.simps [simp del]

definition stm_init :: "('k, 'w) state_table \<Rightarrow> state_machine \<Rightarrow> state_machine res" where
  "stm_init tbl m =
     bind_res (stm_check_states tbl 0 (stm_max_state m)) (\<lambda>_.
       if stm_initial m < stm_max_state m then Inr (m\<lparr>stm_current := None\<rparr>) else Inl Aborted)"

definition run_hook :: "(nat \<Rightarrow> 'k \<Rightarrow> 'w \<Rightarrow> 'w res) option \<Rightarrow> nat \<Rightarrow> 'k \<Rightarrow> 'w \<Rightarrow> 'w res" where
  "run_hook h st key w = (case h of None \<Rightarrow> Inr w | Some f \<Rightarrow> f st key w)"

definition handle_first ::
    "('k, 'w) state_table \<Rightarrow> state_machine \<Rightarrow> 'k \<Rightarrow> 'w \<Rightarrow> (state_machine \<times> 'w) res" where
  "handle_first tbl m key w =
     (case stm_current m of
        None \<Rightarrow>
          bind_res (state_at tbl (stm_initial m)) (\<lambda>s.
          bind_res (run_hook (on_arrival s) (sd_state s) key w) (\<lambda>w1.
            Inr (m\<lparr>stm_current := Some (stm_initial m)\<rparr>, w1)))
      | Some _ \<Rightarrow> Inr (m, w))"

definition jump ::
    "('k, 'w) state_table \<Rightarrow> state_machine \<Rightarrow> nat \<Rightarrow> 'k \<Rightarrow> 'w \<Rightarrow> (state_machine \<times> 'w) res" where
  "jump tbl m next key w =
     (if next > stm_max_state m then Inl Aborted
      else if stm_current m \<noteq> Some next
      then bind_res (case stm_current m of
                       None \<Rightarrow> Inr w
                     | Some c \<Rightarrow> bind_res (state_at tbl c) (\<lambda>s.
                                   run_hook (on_departure s) (sd_state s) key w)) (\<lambda>w1.
           bind_res (state_at tbl next) (\<lambda>s.
           bind_res (run_hook (on_arrival s) (sd_state s) key w1) (\<lambda>w2.
             Inr (m\<lparr>stm_current := Some next\<rparr>, w2))))
      else Inr (m, w))"

text \<open>
  The three event handlers differ in the callback they pick; \<open>stm_dispatch\<close> is their
  common body.
\<close>

definition stm_dispatch ::
    "(('k, 'w) state_definition \<Rightarrow> ('k \<Rightarrow> 'w \<Rightarrow> (nat \<times> 'w) res) option) \<Rightarrow>
     ('k, 'w) state_table \<Rightarrow> state_machine \<Rightarrow> 'k \<Rightarrow> 'w \<Rightarrow> (nat \<times> state_machine \<times> 'w) res" where
  "stm_dispatch ready tbl m key w =
     bind_res (handle_first tbl m key w) (\<lambda>(m1, w1).
     bind_res (case stm_current m1 of None \<Rightarrow> Inl Undefined | Some c \<Rightarrow> state_at tbl c) (\<lambda>s.
     case ready s of
       None \<Rightarrow> Inl Aborted
     | Some f \<Rightarrow> bind_res (f key w1) (\<lambda>(ret, w2).
                 bind_res (jump tbl m1 ret key w2) (\<lambda>(m2, w3). Inr (ret, m2, w3)))))"

definition stm_handler_read ::
    "('k, 'w) state_table \<Rightarrow> state_machine \<Rightarrow> 'k \<Rightarrow> 'w \<Rightarrow> (nat \<times> state_machine \<times> 'w) res" where
  "stm_handler_read = stm_dispatch on_read_ready"

definition stm_handler_write ::
    "('k, 'w) state_table \<Rightarrow> state_machine \<Rightarrow> 'k \<Rightarrow> 'w \<Rightarrow> (nat \<times> state_machine \<times> 'w) res" where
  "stm_handler_write = stm_dispatch on_write_ready"

definition stm_handler_block ::
    "('k, 'w) state_table \<Rightarrow> state_machine \<Rightarrow> 'k \<Rightarrow> 'w \<Rightarrow> (nat \<times> state_machine \<times> 'w) res" where
  "stm_handler_block = stm_dispatch on_block_ready"

definition stm_handler_close ::
    "('k, 'w) state_table \<Rightarrow> state_machine \<Rightarrow> 'k \<Rightarrow> 'w \<Rightarrow> 'w res" where
  "stm_handler_close tbl m key w =
     (case stm_current m of
        None \<Rightarrow> Inr w
      | Some c \<Rightarrow> bind_res (state_at tbl c) (\<lambda>s. run_hook (on_departure s) (sd_state s) key w))"

definition stm_state :: "('k, 'w) state_table \<Rightarrow> state_machine \<Rightarrow> nat res" where
  "stm_state tbl m =
     (case stm_current m of
        None \<Rightarrow> Inr (stm_initial m)
      | Some c \<Rightarrow> bind_res (state_at tbl c) (\<lambda>s. Inr (sd_state s)))"

section \<open>Well-formed machines\<close>

definition table_ok :: "('k, 'w) state_table \<Rightarrow> nat \<Rightarrow> bool" where
  "table_ok tbl mx \<longleftrightarrow> mx < length tbl \<and> (\<forall>i \<le> mx. sd_state (tbl ! i) = i)"

definition stm_inv :: "('k, 'w) state_table \<Rightarrow> state_machine \<Rightarrow> bool" where
  "stm_inv tbl m \<longleftrightarrow> table_ok tbl (stm_max_state m) \<and> stm_initial m < stm_max_state m \<and>
     (case stm_current m of None \<Rightarrow> True | Some c \<Rightarrow> c \<le> stm_max_state m)"

lemma state_at_ok:
  "table_ok tbl mx \<Longrightarrow> i \<le> mx \<Longrightarrow> state_at tbl i = Inr (tbl ! i) \<and> sd_state (tbl ! i) = i"
  by (auto simp: table_ok_def state_at_def)

lemma stm_check_states_iff:
  "stm_check_states tbl i mx = Inr () \<longleftrightarrow>
     (\<forall>j \<in> {i..mx}. j < length tbl \<and> sd_state (tbl ! j) = j)"
proof (induction tbl i mx rule: stm_check_states.induct)
  case (1 tbl i mx)
  show ?case
  proof (cases "i \<le> mx \<and> i < length tbl \<and> sd_state (tbl ! i) = i")
    case True
    then have le: "i \<le> mx" and at: "state_at tbl i = Inr (tbl ! i)" and st: "\<not> i \<noteq> sd_state (tbl ! i)"
      by (simp_all add: state_at_def)
    have eq: "stm_check_states tbl i mx = stm_check_states tbl (Suc i) mx"
      using le at st by (subst stm_check_states.simps) simp
    have "{i..mx} = insert i {Suc i..mx}" using le by auto
    then show ?thesis
      using True eq "1.IH" [OF le at st] by simp
  next
    case False
    then show ?thesis
      by (subst stm_check_states.simps) (auto simp: state_at_def)
  qed
qed

lemma stm_init_inv:
  "stm_init tbl m = Inr m' \<longleftrightarrow>
     stm_inv tbl m' \<and> m' = m\<lparr>stm_current := None\<rparr>"
proof (cases "stm_check_states tbl 0 (stm_max_state m)")
  case (Inl e)
  then have "\<not> table_ok tbl (stm_max_state m)"
    using stm_check_states_iff [of tbl 0 "stm_max_state m"] by (auto simp: table_ok_def)
  with Inl show ?thesis by (auto simp: stm_init_def stm_inv_def)
next
  case (Inr u)
  then have "table_ok tbl (stm_max_state m)"
    using stm_check_states_iff [of tbl 0 "stm_max_state m"] by (auto simp: table_ok_def)
  with Inr show ?thesis by (auto simp: stm_init_def stm_inv_def)
qed

lemma jump_self: "next \<le> stm_max_state m \<Longrightarrow> stm_current m = Some next \<Longrightarrow> jump tbl m next key w = Inr (m, w)"
  by (simp add: jump_def)

lemma jump_Inr_current:
  "jump tbl m next key w = Inr (m', w') \<Longrightarrow> m' = m\<lparr>stm_current := Some next\<rparr>"
  by (auto simp: jump_def bind_res_eq_Inr split: if_splits)

lemma jump_in_range: "jump tbl m next key w = Inr r \<Longrightarrow> next \<le> stm_max_state m"
  by (auto simp: jump_def split: if_splits)

lemma handle_first_inv:
  "stm_inv tbl m \<Longrightarrow> handle_first tbl m key w = Inr (m', w') \<Longrightarrow>
     stm_inv tbl m' \<and> stm_max_state m' = stm_max_state m \<and> stm_initial m' = stm_initial m \<and>
     stm_current m' = Some (case stm_current m of None \<Rightarrow> stm_initial m | Some c \<Rightarrow> c)"
  by (auto simp: handle_first_def stm_inv_def bind_res_eq_Inr split: option.splits)

text \<open>An event leaves the machine in the state its callback returned.\<close>

lemma stm_dispatch_spec:
  assumes "stm_inv tbl m" and "stm_dispatch ready tbl m key w = Inr (ret, m', w')"
  shows "stm_inv tbl m' \<and> stm_current m' = Some ret \<and> stm_max_state m' = stm_max_state m \<and>
     stm_initial m' = stm_initial m \<and> ret \<le> stm_max_state m"
proof -
  from assms(2) obtain m1 w1 w2 where
    hf: "handle_first tbl m key w = Inr (m1, w1)" and
    j: "jump tbl m1 ret key w2 = Inr (m', w')"
    by (auto simp: stm_dispatch_def bind_res_eq_Inr split: option.splits prod.splits)
  from handle_first_inv [OF assms(1) hf] jump_Inr_current [OF j] jump_in_range [OF j]
  show ?thesis by (auto simp: stm_inv_def)
qed

lemma stm_state_current:
  "stm_inv tbl m \<Longrightarrow> stm_current m = Some c \<Longrightarrow> stm_state tbl m = Inr c"
  using state_at_ok [of tbl "stm_max_state m" c] by (simp add: stm_inv_def stm_state_def)

text \<open>The dispatch of a started machine, with the order of the hooks written out.\<close>

lemma stm_dispatch_started:
  assumes "stm_inv tbl m" and "stm_current m = Some c" and "ready (tbl ! c) = Some f"
    and "f key w = Inr (ret, w1)" and "ret \<le> stm_max_state m"
  shows "stm_dispatch ready tbl m key w =
    (if ret = c then Inr (ret, m, w1)
     else bind_res (run_hook (on_departure (tbl ! c)) c key w1) (\<lambda>w2.
          bind_res (run_hook (on_arrival (tbl ! ret)) ret key w2) (\<lambda>w3.
            Inr (ret, m\<lparr>stm_current := Some ret\<rparr>, w3))))"
proof -
  have c: "state_at tbl c = Inr (tbl ! c)" "sd_state (tbl ! c) = c"
    and r: "state_at tbl ret = Inr (tbl ! ret)" "sd_state (tbl ! ret) = ret"
    using assms state_at_ok [of tbl "stm_max_state m"] by (auto simp: stm_inv_def)
  show ?thesis
    using assms c r
    by (auto simp: stm_dispatch_def handle_first_def jump_def bind_res_assoc)
qed

text \<open>A successful dispatch has run the callback of the current state.\<close>

lemma stm_dispatch_runs:
  assumes "stm_inv tbl m" and "stm_current m = Some c" and "stm_dispatch ready tbl m key w = Inr (ret, m', w')"
  shows "\<exists>f w1. ready (tbl ! c) = Some f \<and> f key w = Inr (ret, w1)"
  using assms state_at_ok [of tbl "stm_max_state m" c]
  by (auto simp: stm_dispatch_def handle_first_def stm_inv_def bind_res_eq_Inr split: option.splits prod.splits)

text \<open>The first event of a machine enters the initial state.\<close>

lemma stm_dispatch_first:
  assumes "stm_inv tbl m" and "stm_current m = None"
  shows "stm_dispatch ready tbl m key w =
    bind_res (run_hook (on_arrival (tbl ! stm_initial m)) (stm_initial m) key w) (\<lambda>w1.
      stm_dispatch ready tbl (m\<lparr>stm_current := Some (stm_initial m)\<rparr>) key w1)"
  using assms state_at_ok [of tbl "stm_max_state m" "stm_initial m"]
  by (simp add: stm_dispatch_def handle_first_def stm_inv_def bind_res_assoc)

lemma stm_dispatch_missing:
  assumes "stm_inv tbl m" and "stm_current m = Some c" and "ready (tbl ! c) = None"
  shows "stm_dispatch ready tbl m key w = Inl Aborted"
  using assms state_at_ok [of tbl "stm_max_state m" c]
  by (auto simp: stm_dispatch_def handle_first_def stm_inv_def)

lemmas stm_handler_defs = stm_handler_read_def stm_handler_write_def stm_handler_block_def

end
