(* ===== verification/Selector.thy ===== *)
theory Selector
  imports Prelude
begin

unbundle bit_operations_syntax

text \<open>
  \<open>src/src/selector.c\<close>: the table of registered file descriptors behind \<open>pselect\<close>. The
  type \<open>'h\<close> names handler tables (\<open>fd_handler *\<close>) and \<open>'d\<close> the attachment; the close
  callback of a handler acts on the rest of the program's state \<open>'w\<close>. An \<open>fd_set\<close> is the set
  of its members. \<open>fds == NULL\<close> is the empty list (an allocated table has at least two
  items). Timeouts, the signal set-up and the mutex are not part of the model.
\<close>

section \<open>Statuses and interests\<close>

datatype selector_status =
    SELECTOR_SUCCESS | SELECTOR_ENOMEM | SELECTOR_MAXFD | SELECTOR_IARGS | SELECTOR_FDINUSE | SELECTOR_IO

fun status_code :: "selector_status \<Rightarrow> 32 word" where
  "status_code SELECTOR_SUCCESS = 0"
| "status_code SELECTOR_ENOMEM = 1"
| "status_code SELECTOR_MAXFD = 2"
| "status_code SELECTOR_IARGS = 3"
| "status_code SELECTOR_FDINUSE = 4"
| "status_code SELECTOR_IO = 5"

fun selector_error :: "selector_status \<Rightarrow> string" where
  "selector_error SELECTOR_SUCCESS = ''Success''"
| "selector_error SELECTOR_ENOMEM = ''Not enough memory''"
| "selector_error SELECTOR_MAXFD = ''Can't handle any more file descriptors''"
| "selector_error SELECTOR_IARGS = ''Illegal argument''"
| "selector_error SELECTOR_IO = ''I/O error''"
| "selector_error _ = ''something failed''"

type_synonym fd_interest = "32 word"

definition OP_NOOP :: fd_interest where "OP_NOOP = 0"
definition OP_READ :: fd_interest where "OP_READ = push_bit 0 1"
definition OP_WRITE :: fd_interest where "OP_WRITE = push_bit 2 1"

lemma OP_values [simp]: "OP_NOOP = 0" "OP_READ = 1" "OP_WRITE = 4"
  by (simp_all add: OP_NOOP_def OP_READ_def OP_WRITE_def push_bit_eq_mult)

definition wants_read :: "fd_interest \<Rightarrow> bool" where
  "wants_read i \<longleftrightarrow> i AND OP_READ \<noteq> 0"

definition wants_write :: "fd_interest \<Rightarrow> bool" where
  "wants_write i \<longleftrightarrow> i AND OP_WRITE \<noteq> 0"

lemma wants_simps [simp]:
  "\<not> wants_read 0" "\<not> wants_write 0" "wants_read 1" "\<not> wants_write 1"
  "\<not> wants_read 4" "wants_write 4" "wants_read 5" "wants_write 5"
  by (simp_all add: wants_read_def wants_write_def)

section \<open>The selector\<close>

record ('h, 'd) item =
  item_fd :: int
  item_interest :: fd_interest
  item_handler :: "'h option"
  item_data :: "'d option"

record ('h, 'd) fdselector =
  fds :: "('h, 'd) item list"
  fd_size :: nat
  max_fd :: int
  master_r :: "int set"
  master_w :: "int set"
  slave_r :: "int set"
  slave_w :: "int set"
  resolution_jobs :: "int list"

definition FD_UNUSED :: int where "FD_UNUSED = -1"

definition ITEM_USED :: "('h, 'd) item \<Rightarrow> bool" where
  "ITEM_USED i \<longleftrightarrow> FD_UNUSED \<noteq> item_fd i"

definition ITEMS_MAX_SIZE :: nat where "ITEMS_MAX_SIZE = 1024"

definition INVALID_FD :: "int \<Rightarrow> bool" where
  "INVALID_FD fd \<longleftrightarrow> fd < 0 \<or> fd \<ge> int ITEMS_MAX_SIZE"

definition zero_item :: "('h, 'd) item" where
  "zero_item = \<lparr>item_fd = 0, item_interest = 0, item_handler = None, item_data = None\<rparr>"

definition item_init :: "('h, 'd) item \<Rightarrow> ('h, 'd) item" where
  "item_init i = i\<lparr>item_fd := FD_UNUSED\<rparr>"

subsection \<open>Capacity\<close>

fun count_bits :: "nat \<Rightarrow> nat \<Rightarrow> nat" where
  "count_bits tmp bits = (if tmp \<noteq> 0 then count_bits (tmp div 2) (Suc bits) else bits)"

declare count_bits.simps [simp del]

text \<open>\<open>1UL << bits\<close> is undefined for \<open>bits \<ge> 64\<close>.\<close>

definition next_capacity :: "nat \<Rightarrow> nat res" where
  "next_capacity n =
     (let bits = count_bits n 0
      in if bits \<ge> 64 then Inl Undefined
         else let tmp = 2 ^ bits
              in if tmp < n then Inl Assertion_failed
                 else Inr ((if tmp > ITEMS_MAX_SIZE then ITEMS_MAX_SIZE else tmp) + 1))"

definition items_init :: "('h, 'd) fdselector \<Rightarrow> nat \<Rightarrow> ('h, 'd) fdselector res" where
  "items_init s prev =
     (if prev \<le> fd_size s
      then Inr (s\<lparr>fds := take prev (fds s) @ map item_init (drop prev (fds s))\<rparr>)
      else Inl Assertion_failed)"

text \<open>The size of a \<open>struct item\<close> (two 4-byte fields, two pointers) and \<open>SIZE_MAX\<close>, LP64.\<close>

definition element_size :: nat where "element_size = 24"
definition SIZE_MAX :: nat where "SIZE_MAX = 2 ^ 64 - 1"

text \<open>\<open>alloc\<close>: whether the \<open>calloc\<close> or \<open>realloc\<close> of the call succeeds.\<close>

text \<open>\<open>masked\<close> and \<open>installed\<close>: \<open>sigprocmask\<close> and \<open>sigaction\<close> did not fail.\<close>

definition selector_init :: "bool \<Rightarrow> bool \<Rightarrow> selector_status" where
  "selector_init masked installed =
     (if \<not> masked then SELECTOR_IO else if \<not> installed then SELECTOR_IO else SELECTOR_SUCCESS)"

definition selector_close :: selector_status where "selector_close = SELECTOR_SUCCESS"

definition ensure_capacity ::
    "bool \<Rightarrow> ('h, 'd) fdselector \<Rightarrow> nat \<Rightarrow> (selector_status \<times> ('h, 'd) fdselector) res" where
  "ensure_capacity alloc s n =
     (if n < fd_size s then Inr (SELECTOR_SUCCESS, s)
      else if n > ITEMS_MAX_SIZE then Inr (SELECTOR_MAXFD, s)
      else if fds s = []
      then bind_res (next_capacity n) (\<lambda>new_size.
             if \<not> alloc then Inr (SELECTOR_ENOMEM, s)
             else bind_res (items_init (s\<lparr>fds := replicate new_size zero_item, fd_size := new_size\<rparr>) 0)
                    (\<lambda>s'. Inr (SELECTOR_SUCCESS, s')))
      else bind_res (next_capacity n) (\<lambda>new_size.
             if new_size > SIZE_MAX div element_size then Inr (SELECTOR_ENOMEM, s)
             else if \<not> alloc then Inr (SELECTOR_ENOMEM, s)
             else let old_size = fd_size s;
                      tmp = take new_size (fds s) @ replicate (new_size - length (fds s)) zero_item
                  in bind_res (items_init (s\<lparr>fds := tmp, fd_size := new_size\<rparr>) old_size)
                       (\<lambda>s'. Inr (SELECTOR_SUCCESS, s'))))"

subsection \<open>Descriptor sets and the greatest descriptor\<close>

definition items_max_fd :: "('h, 'd) fdselector \<Rightarrow> int res" where
  "items_max_fd s =
     (if nat (max_fd s + 1) \<le> length (fds s)
      then Inr (fold (\<lambda>it mx. if ITEM_USED it then (if item_fd it > mx then item_fd it else mx) else mx)
                  (take (nat (max_fd s + 1)) (fds s)) 0)
      else Inl Undefined)"

definition items_update_fdset_for_fd ::
    "('h, 'd) fdselector \<Rightarrow> ('h, 'd) item \<Rightarrow> ('h, 'd) fdselector" where
  "items_update_fdset_for_fd s it =
     (let r = master_r s - {item_fd it};
          w = master_w s - {item_fd it}
      in if ITEM_USED it
         then s\<lparr>master_r := (if item_interest it AND OP_READ \<noteq> 0 then insert (item_fd it) r else r),
                master_w := (if item_interest it AND OP_WRITE \<noteq> 0 then insert (item_fd it) w else w)\<rparr>
         else s\<lparr>master_r := r, master_w := w\<rparr>)"

subsection \<open>Registration\<close>

definition selector_register ::
    "bool \<Rightarrow> ('h, 'd) fdselector \<Rightarrow> int \<Rightarrow> 'h option \<Rightarrow> fd_interest \<Rightarrow> 'd option
     \<Rightarrow> (selector_status \<times> ('h, 'd) fdselector) res" where
  "selector_register alloc s fd handler interest data =
     (if INVALID_FD fd \<or> handler = None then Inr (SELECTOR_IARGS, s)
      else let ufd = nat fd
           in bind_res (if ufd > fd_size s then ensure_capacity alloc s ufd
                        else Inr (SELECTOR_SUCCESS, s)) (\<lambda>(ret, s1).
              if ret \<noteq> SELECTOR_SUCCESS then Inr (ret, s1)
              else if ufd \<ge> length (fds s1) then Inl Undefined
              else if ITEM_USED (fds s1 ! ufd) then Inr (SELECTOR_FDINUSE, s1)
              else let it = \<lparr>item_fd = fd, item_interest = interest,
                             item_handler = handler, item_data = data\<rparr>;
                       s2 = s1\<lparr>fds := (fds s1)[ufd := it],
                              max_fd := (if fd > max_fd s1 then fd else max_fd s1)\<rparr>
                   in Inr (SELECTOR_SUCCESS, items_update_fdset_for_fd s2 it)))"

text \<open>\<open>close_cb h\<close> is the \<open>handle_close\<close> member of the handler table \<open>h\<close>.\<close>

definition selector_unregister_fd ::
    "('h \<Rightarrow> (int \<Rightarrow> 'd option \<Rightarrow> 'w \<Rightarrow> 'w res) option) \<Rightarrow> ('h, 'd) fdselector \<Rightarrow> int \<Rightarrow> 'w
     \<Rightarrow> (selector_status \<times> ('h, 'd) fdselector \<times> 'w) res" where
  "selector_unregister_fd close_cb s fd w =
     (if INVALID_FD fd then Inr (SELECTOR_IARGS, s, w)
      else if nat fd \<ge> length (fds s) then Inl Undefined
      else let it = fds s ! nat fd
           in if \<not> ITEM_USED it then Inr (SELECTOR_IARGS, s, w)
              else case item_handler it of
                     None \<Rightarrow> Inl Undefined
                   | Some h \<Rightarrow>
                       bind_res (case close_cb h of
                                   None \<Rightarrow> Inr w
                                 | Some f \<Rightarrow> f (item_fd it) (item_data it) w) (\<lambda>w'.
                       let s1 = items_update_fdset_for_fd s (it\<lparr>item_interest := OP_NOOP\<rparr>);
                           s2 = s1\<lparr>fds := (fds s1)[nat fd := item_init zero_item]\<rparr>
                       in bind_res (items_max_fd s2) (\<lambda>mx.
                            Inr (SELECTOR_SUCCESS, s2\<lparr>max_fd := mx\<rparr>, w'))))"

definition selector_set_interest ::
    "('h, 'd) fdselector \<Rightarrow> int \<Rightarrow> fd_interest \<Rightarrow> (selector_status \<times> ('h, 'd) fdselector) res" where
  "selector_set_interest s fd i =
     (if INVALID_FD fd then Inr (SELECTOR_IARGS, s)
      else if nat fd \<ge> length (fds s) then Inl Undefined
      else let it = fds s ! nat fd
           in if \<not> ITEM_USED it then Inr (SELECTOR_IARGS, s)
              else let it' = it\<lparr>item_interest := i\<rparr>
                   in Inr (SELECTOR_SUCCESS,
                           items_update_fdset_for_fd (s\<lparr>fds := (fds s)[nat fd := it']\<rparr>) it'))"

definition selector_set_interest_key ::
    "('h, 'd) fdselector \<Rightarrow> int \<Rightarrow> fd_interest \<Rightarrow> (selector_status \<times> ('h, 'd) fdselector) res" where
  "selector_set_interest_key s key_fd i =
     (if INVALID_FD key_fd then Inr (SELECTOR_IARGS, s) else selector_set_interest s key_fd i)"

definition selector_notify_block ::
    "bool \<Rightarrow> ('h, 'd) fdselector \<Rightarrow> int \<Rightarrow> selector_status \<times> ('h, 'd) fdselector" where
  "selector_notify_block alloc s fd =
     (if \<not> alloc then (SELECTOR_ENOMEM, s)
      else (SELECTOR_SUCCESS, s\<lparr>resolution_jobs := fd # resolution_jobs s\<rparr>))"

subsection \<open>Creation and destruction\<close>

definition empty_selector :: "('h, 'd) fdselector" where
  "empty_selector = \<lparr>fds = [], fd_size = 0, max_fd = 0, master_r = {}, master_w = {},
     slave_r = {}, slave_w = {}, resolution_jobs = []\<rparr>"

text \<open>\<open>None\<close> is the NULL of a failed creation.\<close>

definition selector_new :: "bool \<Rightarrow> bool \<Rightarrow> nat \<Rightarrow> ('h, 'd) fdselector option res" where
  "selector_new alloc_sel alloc_fds initial_elements =
     (if \<not> alloc_sel then Inr None
      else bind_res (ensure_capacity alloc_fds empty_selector initial_elements) (\<lambda>(ret, s).
             if ret \<noteq> SELECTOR_SUCCESS then Inr None else Inr (Some s)))"

fun unregister_used ::
    "('h \<Rightarrow> (int \<Rightarrow> 'd option \<Rightarrow> 'w \<Rightarrow> 'w res) option) \<Rightarrow> nat list \<Rightarrow> ('h, 'd) fdselector \<Rightarrow> 'w
     \<Rightarrow> (('h, 'd) fdselector \<times> 'w) res" where
  "unregister_used close_cb [] s w = Inr (s, w)"
| "unregister_used close_cb (i # is) s w =
     (if i \<ge> length (fds s) then Inl Undefined
      else if ITEM_USED (fds s ! i)
      then bind_res (selector_unregister_fd close_cb s (int i) w) (\<lambda>(ret, s', w').
             unregister_used close_cb is s' w')
      else unregister_used close_cb is s w)"

definition selector_destroy ::
    "('h \<Rightarrow> (int \<Rightarrow> 'd option \<Rightarrow> 'w \<Rightarrow> 'w res) option) \<Rightarrow> ('h, 'd) fdselector \<Rightarrow> 'w \<Rightarrow> 'w res" where
  "selector_destroy close_cb s w =
     (if fds s \<noteq> []
      then bind_res (unregister_used close_cb [0..<fd_size s] s w) (\<lambda>(s', w'). Inr w')
      else Inr w)"

text \<open>
  \<open>fcntl_getfd\<close> and \<open>fcntl_setfl flags\<close> are the answers of the two \<open>fcntl\<close> calls; the
  second one receives \<open>flags | O_NONBLOCK\<close>.
\<close>

definition O_NONBLOCK :: "32 word" where "O_NONBLOCK = 2048"

definition selector_fd_set_nio :: "int \<Rightarrow> (32 word \<Rightarrow> int) \<Rightarrow> int" where
  "selector_fd_set_nio fcntl_getfd fcntl_setfl =
     (let flags = fcntl_getfd
      in if flags = -1 then -1
         else if fcntl_setfl (word_of_int flags OR O_NONBLOCK) = -1 then -1 else 0)"

section \<open>Invariant and the map view\<close>

definition sel_lookup :: "('h, 'd) fdselector \<Rightarrow> int \<Rightarrow> ('h, 'd) item option" where
  "sel_lookup s fd =
     (if 0 \<le> fd \<and> nat fd < length (fds s) \<and> ITEM_USED (fds s ! nat fd)
      then Some (fds s ! nat fd) else None)"

definition sel_inv :: "('h, 'd) fdselector \<Rightarrow> bool" where
  "sel_inv s \<longleftrightarrow> fd_size s = length (fds s) \<and> 0 \<le> max_fd s \<and>
     (if fds s = [] then max_fd s = 0 else max_fd s < int (length (fds s))) \<and>
     (\<forall>fd it. sel_lookup s fd = Some it \<longrightarrow>
        item_fd it = fd \<and> fd \<le> max_fd s \<and> fd < int ITEMS_MAX_SIZE \<and> item_handler it \<noteq> None) \<and>
     master_r s = {fd. \<exists>it. sel_lookup s fd = Some it \<and> wants_read (item_interest it)} \<and>
     master_w s = {fd. \<exists>it. sel_lookup s fd = Some it \<and> wants_write (item_interest it)}"

text \<open>The table every descriptor of the platform fits in.\<close>

definition sel_full :: "('h, 'd) fdselector \<Rightarrow> bool" where
  "sel_full s \<longleftrightarrow> sel_inv s \<and> length (fds s) = ITEMS_MAX_SIZE + 1"

text \<open>The items without a descriptor have no interest either.\<close>

definition blank_items :: "('h, 'd) fdselector \<Rightarrow> bool" where
  "blank_items s \<longleftrightarrow> (\<forall>it \<in> set (fds s). \<not> ITEM_USED it \<longrightarrow> item_interest it = 0)"

lemma unused_zero_item [simp]: "\<not> ITEM_USED (item_init it)"
  by (simp add: ITEM_USED_def item_init_def)

lemma FD_UNUSED_less [simp]: "0 \<le> fd \<Longrightarrow> FD_UNUSED \<noteq> fd"
  by (simp add: FD_UNUSED_def)

lemma sel_lookup_update:
  assumes "0 \<le> fd" and "nat fd < length (fds s)"
  shows "sel_lookup (s\<lparr>fds := (fds s)[nat fd := it]\<rparr>) =
     (sel_lookup s)(fd := (if ITEM_USED it then Some it else None))"
  using assms by (auto simp: sel_lookup_def fun_eq_iff nth_list_update eq_nat_nat_iff)

lemma sel_lookup_fds: "fds s = fds s' \<Longrightarrow> sel_lookup s = sel_lookup s'"
  by (simp add: sel_lookup_def fun_eq_iff)

lemma sel_lookup_simps [simp]:
  "sel_lookup (s\<lparr>max_fd := m\<rparr>) = sel_lookup s"
  "sel_lookup (s\<lparr>master_r := r\<rparr>) = sel_lookup s"
  "sel_lookup (s\<lparr>master_w := w\<rparr>) = sel_lookup s"
  "sel_lookup (s\<lparr>slave_r := r\<rparr>) = sel_lookup s"
  "sel_lookup (s\<lparr>slave_w := w\<rparr>) = sel_lookup s"
  "sel_lookup (s\<lparr>resolution_jobs := j\<rparr>) = sel_lookup s"
  by (rule sel_lookup_fds, simp)+

lemma sel_lookup_Some:
  "sel_lookup s fd = Some it \<longleftrightarrow>
     0 \<le> fd \<and> nat fd < length (fds s) \<and> ITEM_USED (fds s ! nat fd) \<and> it = fds s ! nat fd"
  by (auto simp: sel_lookup_def)

text \<open>The update of the two prototype sets, as a whole.\<close>

lemma items_update_fdset_eq:
  "items_update_fdset_for_fd s it =
     s\<lparr>master_r := (if ITEM_USED it \<and> wants_read (item_interest it)
                   then insert (item_fd it) (master_r s) else master_r s - {item_fd it}),
       master_w := (if ITEM_USED it \<and> wants_write (item_interest it)
                   then insert (item_fd it) (master_w s) else master_w s - {item_fd it})\<rparr>"
  by (auto simp: items_update_fdset_for_fd_def wants_read_def wants_write_def Let_def)

lemma items_update_fdset_simps [simp]:
  "fds (items_update_fdset_for_fd s it) = fds s"
  "fd_size (items_update_fdset_for_fd s it) = fd_size s"
  "max_fd (items_update_fdset_for_fd s it) = max_fd s"
  "resolution_jobs (items_update_fdset_for_fd s it) = resolution_jobs s"
  "sel_lookup (items_update_fdset_for_fd s it) = sel_lookup s"
  by (simp_all add: items_update_fdset_eq)

lemma fold_max_fd:
  defines "f \<equiv> \<lambda>it mx. if ITEM_USED it then (if item_fd it > mx then item_fd it else mx) else (mx::int)"
  shows "a \<le> fold f xs a"
    and "it \<in> set xs \<Longrightarrow> ITEM_USED it \<Longrightarrow> item_fd it \<le> fold f xs a"
    and "fold f xs a = a \<or> (\<exists>it \<in> set xs. ITEM_USED it \<and> item_fd it = fold f xs a)"
proof -
  have ge: "a \<le> fold f xs a" for xs a
  proof (induction xs arbitrary: a)
    case Nil
    then show ?case by simp
  next
    case (Cons y ys)
    have "a \<le> f y a" by (simp add: f_def)
    with Cons.IH [of "f y a"] show ?case by simp
  qed
  show "a \<le> fold f xs a" by (rule ge)
  show "it \<in> set xs \<Longrightarrow> ITEM_USED it \<Longrightarrow> item_fd it \<le> fold f xs a"
  proof (induction xs arbitrary: a)
    case Nil
    then show ?case by simp
  next
    case (Cons y ys)
    show ?case
    proof (cases "it = y")
      case True
      then have "item_fd it \<le> f y a" using Cons.prems by (simp add: f_def)
      with ge [of "f y a" ys] show ?thesis by simp
    next
      case False
      with Cons show ?thesis by simp
    qed
  qed
  show "fold f xs a = a \<or> (\<exists>it \<in> set xs. ITEM_USED it \<and> item_fd it = fold f xs a)"
  proof (induction xs arbitrary: a)
    case Nil
    then show ?case by simp
  next
    case (Cons y ys)
    from Cons.IH [of "f y a"] show ?case by (auto simp: f_def split: if_splits)
  qed
qed

lemma sel_inv_max:
  "sel_inv s \<Longrightarrow> 0 \<le> max_fd s"
  "sel_inv s \<Longrightarrow> k < length (fds s) \<Longrightarrow> max_fd s < int (length (fds s))"
  "sel_inv s \<Longrightarrow> length (fds s) < c \<Longrightarrow> max_fd s < int c"
  by (auto simp: sel_inv_def split: if_splits)

lemma sel_inv_lookup:
  "sel_inv s \<Longrightarrow> sel_lookup s fd = Some it \<Longrightarrow>
     item_fd it = fd \<and> fd \<le> max_fd s \<and> fd < int ITEMS_MAX_SIZE \<and> item_handler it \<noteq> None"
  unfolding sel_inv_def by blast

text \<open>One entry of the map view changes: what has to be shown for the invariant.\<close>

lemma sel_inv_fun_upd:
  assumes "sel_inv s" and "length (fds s') = length (fds s)" and "fd_size s' = fd_size s"
    and lk: "sel_lookup s' = (sel_lookup s)(fd := e)"
    and mx: "0 \<le> max_fd s'" "max_fd s' < int (length (fds s))"
      "\<And>f it. sel_lookup s' f = Some it \<Longrightarrow> f \<le> max_fd s'"
    and e: "\<And>it. e = Some it \<Longrightarrow> item_fd it = fd \<and> fd < int ITEMS_MAX_SIZE \<and> item_handler it \<noteq> None"
    and r: "master_r s' = (if \<exists>it. e = Some it \<and> wants_read (item_interest it)
       then insert fd (master_r s) else master_r s - {fd})"
    and w: "master_w s' = (if \<exists>it. e = Some it \<and> wants_write (item_interest it)
       then insert fd (master_w s) else master_w s - {fd})"
  shows "sel_inv s'"
proof -
  have ids: "item_fd it = f \<and> f < int ITEMS_MAX_SIZE \<and> item_handler it \<noteq> None"
    if "sel_lookup s' f = Some it" for f it
    using that e sel_inv_lookup [OF assms(1), of f it] by (auto simp: lk split: if_splits)
  have mr: "master_r s = {fd. \<exists>it. sel_lookup s fd = Some it \<and> wants_read (item_interest it)}"
    and mw: "master_w s = {fd. \<exists>it. sel_lookup s fd = Some it \<and> wants_write (item_interest it)}"
    and sz: "fd_size s = length (fds s)"
    using assms(1) by (simp_all add: sel_inv_def)
  have r': "master_r s' = {fd. \<exists>it. sel_lookup s' fd = Some it \<and> wants_read (item_interest it)}"
    unfolding r mr lk by (cases e) (auto split: if_splits)
  have w': "master_w s' = {fd. \<exists>it. sel_lookup s' fd = Some it \<and> wants_write (item_interest it)}"
    unfolding w mw lk by (cases e) (auto split: if_splits)
  have all: "\<forall>f it. sel_lookup s' f = Some it \<longrightarrow>
      item_fd it = f \<and> f \<le> max_fd s' \<and> f < int ITEMS_MAX_SIZE \<and> item_handler it \<noteq> None"
    using ids mx(3) by blast
  show ?thesis
    unfolding sel_inv_def using all r' w' assms(2,3) mx(1,2) sz by auto
qed

section \<open>Correctness of the operations\<close>

lemma sel_inv_empty [simp, inv_intros]: "sel_inv empty_selector"
  by (simp add: sel_inv_def empty_selector_def sel_lookup_def)

lemma selector_register_spec:
  assumes inv: "sel_inv s" and fd: "\<not> INVALID_FD fd" "nat fd < length (fds s)"
    and free: "sel_lookup s fd = None"
  shows "\<exists>s'. selector_register al s fd (Some h) i d = Inr (SELECTOR_SUCCESS, s') \<and> sel_inv s' \<and>
     length (fds s') = length (fds s) \<and>
     sel_lookup s' = (sel_lookup s)(fd \<mapsto>
        \<lparr>item_fd = fd, item_interest = i, item_handler = Some h, item_data = d\<rparr>)"
proof -
  let ?it = "\<lparr>item_fd = fd, item_interest = i, item_handler = Some h, item_data = d\<rparr>"
  let ?s1 = "s\<lparr>fds := (fds s)[nat fd := ?it]\<rparr>"
  let ?s2 = "?s1\<lparr>max_fd := (if fd > max_fd s then fd else max_fd s)\<rparr>"
  let ?s' = "items_update_fdset_for_fd ?s2 ?it"
  have fd0: "0 \<le> fd" "fd < int ITEMS_MAX_SIZE" using fd by (auto simp: INVALID_FD_def)
  have used: "ITEM_USED ?it" using fd0 by (simp add: ITEM_USED_def)
  have not_used: "\<not> ITEM_USED (fds s ! nat fd)"
    using free fd fd0 by (auto simp: sel_lookup_def split: if_splits)
  have size: "\<not> nat fd > fd_size s" using inv fd by (simp add: sel_inv_def)
  have eq: "selector_register al s fd (Some h) i d = Inr (SELECTOR_SUCCESS, ?s')"
    using fd not_used size by (simp add: selector_register_def Let_def)
  have lk: "sel_lookup ?s' = (sel_lookup s)(fd \<mapsto> ?it)"
    using sel_lookup_update [OF fd0(1) fd(2), of ?it] used by (simp add: items_update_fdset_eq)
  have len: "length (fds ?s') = length (fds s)" "fd_size ?s' = fd_size s"
    and mx: "max_fd ?s' = max fd (max_fd s)"
    by (simp_all add: items_update_fdset_eq max_def)
  have rng: "0 \<le> max_fd s" "max_fd s < int (length (fds s))"
    using sel_inv_max(1,2) [OF inv] fd(2) by auto
  have "sel_inv ?s'"
  proof (rule sel_inv_fun_upd [OF inv len lk])
    show "f \<le> max_fd ?s'" if "sel_lookup ?s' f = Some it" for f it
      using that sel_inv_lookup [OF inv, of f it] unfolding lk mx by (auto split: if_splits)
    show "0 \<le> max_fd ?s'" "max_fd ?s' < int (length (fds s))"
      unfolding mx using rng fd fd0 by auto
  qed (use used fd0 in \<open>auto simp: items_update_fdset_eq\<close>)
  with eq lk len(1) show ?thesis by blast
qed

lemma selector_register_in_use:
  assumes "sel_inv s" and "sel_lookup s fd = Some it"
  shows "selector_register al s fd (Some h) i d = Inr (SELECTOR_FDINUSE, s)"
proof -
  have "0 \<le> fd" "nat fd < length (fds s)" "ITEM_USED (fds s ! nat fd)"
    using assms(2) by (auto simp: sel_lookup_Some)
  moreover have "\<not> INVALID_FD fd"
    using sel_inv_lookup [OF assms] calculation by (simp add: INVALID_FD_def)
  moreover have "fd_size s = length (fds s)" using assms(1) by (simp add: sel_inv_def)
  ultimately show ?thesis by (simp add: selector_register_def Let_def)
qed

lemma selector_set_interest_spec:
  assumes inv: "sel_inv s" and lkp: "sel_lookup s fd = Some it"
  shows "\<exists>s'. selector_set_interest s fd i = Inr (SELECTOR_SUCCESS, s') \<and> sel_inv s' \<and>
     length (fds s') = length (fds s) \<and>
     sel_lookup s' = (sel_lookup s)(fd \<mapsto> it\<lparr>item_interest := i\<rparr>)"
proof -
  let ?it = "it\<lparr>item_interest := i\<rparr>"
  let ?s1 = "s\<lparr>fds := (fds s)[nat fd := ?it]\<rparr>"
  let ?s' = "items_update_fdset_for_fd ?s1 ?it"
  have fd0: "0 \<le> fd" "nat fd < length (fds s)" "ITEM_USED (fds s ! nat fd)" "it = fds s ! nat fd"
    using lkp by (auto simp: sel_lookup_Some)
  have it: "item_fd it = fd" "fd < int ITEMS_MAX_SIZE" "fd \<le> max_fd s" "item_handler it \<noteq> None"
    using sel_inv_lookup [OF inv lkp] by simp_all
  have used: "ITEM_USED ?it" using fd0 by (simp add: ITEM_USED_def)
  have eq: "selector_set_interest s fd i = Inr (SELECTOR_SUCCESS, ?s')"
    using fd0 it by (simp add: selector_set_interest_def INVALID_FD_def Let_def)
  have lk: "sel_lookup ?s' = (sel_lookup s)(fd \<mapsto> ?it)"
    using sel_lookup_update [OF fd0(1,2), of ?it] used by (simp add: items_update_fdset_eq)
  have len: "length (fds ?s') = length (fds s)" "fd_size ?s' = fd_size s"
    and mx: "max_fd ?s' = max_fd s"
    by (simp_all add: items_update_fdset_eq)
  have rng: "0 \<le> max_fd s" "max_fd s < int (length (fds s))"
    using sel_inv_max(1,2) [OF inv] fd0(2) by auto
  have "sel_inv ?s'"
  proof (rule sel_inv_fun_upd [OF inv len lk])
    show "f \<le> max_fd ?s'" if "sel_lookup ?s' f = Some it'" for f it'
      using that sel_inv_lookup [OF inv, of f it'] it unfolding lk mx by (auto split: if_splits)
    show "0 \<le> max_fd ?s'" "max_fd ?s' < int (length (fds s))"
      unfolding mx by (rule rng)+
  qed (use used it in \<open>auto simp: items_update_fdset_eq\<close>)
  with eq lk len(1) show ?thesis by blast
qed

lemma selector_set_interest_unknown:
  assumes "sel_lookup s fd = None" and "INVALID_FD fd \<or> nat fd < length (fds s)"
  shows "selector_set_interest s fd i = Inr (SELECTOR_IARGS, s)"
  using assms by (auto simp: selector_set_interest_def sel_lookup_def INVALID_FD_def split: if_splits)

lemma selector_set_interest_key_eq: "selector_set_interest_key s fd i = selector_set_interest s fd i"
  by (simp add: selector_set_interest_key_def selector_set_interest_def)

lemma items_max_fd_spec:
  assumes ids: "\<And>fd it. sel_lookup s fd = Some it \<Longrightarrow> item_fd it = fd \<and> fd \<le> max_fd s"
    and rng: "0 \<le> max_fd s" "max_fd s < int (length (fds s))"
  shows "\<exists>mx. items_max_fd s = Inr mx \<and> 0 \<le> mx \<and> mx < int (length (fds s)) \<and>
     (\<forall>fd it. sel_lookup s fd = Some it \<longrightarrow> fd \<le> mx)"
proof -
  let ?f = "\<lambda>it mx. if ITEM_USED it then (if item_fd it > mx then item_fd it else mx) else mx"
  let ?n = "nat (max_fd s + 1)"
  let ?mx = "fold ?f (take ?n (fds s)) 0"
  have n: "?n \<le> length (fds s)" using rng by simp
  have in_take: "fds s ! nat fd \<in> set (take ?n (fds s))" if "sel_lookup s fd = Some it" for fd it
  proof -
    from that have "0 \<le> fd" "nat fd < length (fds s)" by (auto simp: sel_lookup_Some)
    moreover from ids [OF that] have "nat fd < ?n" using calculation by simp
    ultimately show ?thesis by (auto simp: in_set_conv_nth)
  qed
  have upper: "fd \<le> ?mx" if "sel_lookup s fd = Some it" for fd it
    using fold_max_fd(2) [OF in_take [OF that], of 0] that ids [OF that] by (simp add: sel_lookup_Some)
  have "?mx < int (length (fds s))"
  proof (cases "?mx = 0")
    case True
    then show ?thesis using rng by linarith
  next
    case False
    then obtain it where it: "it \<in> set (take ?n (fds s))" "ITEM_USED it" "item_fd it = ?mx"
      using fold_max_fd(3) [of "take ?n (fds s)" 0] by auto
    then obtain k where k: "k < length (fds s)" "fds s ! k = it"
      by (auto simp: in_set_conv_nth)
    then have "sel_lookup s (int k) = Some it" using it by (simp add: sel_lookup_Some)
    from ids [OF this] it k show ?thesis by simp
  qed
  moreover have "0 \<le> ?mx" by (rule fold_max_fd(1))
  moreover have "items_max_fd s = Inr ?mx" using n by (simp add: items_max_fd_def)
  ultimately show ?thesis using upper by blast
qed

lemma selector_unregister_spec:
  assumes inv: "sel_inv s" and lkp: "sel_lookup s fd = Some it" and h: "item_handler it = Some h"
    and cb: "(case close_cb h of None \<Rightarrow> Inr w | Some f \<Rightarrow> f fd (item_data it) w) = Inr w'"
  shows "\<exists>s'. selector_unregister_fd close_cb s fd w = Inr (SELECTOR_SUCCESS, s', w') \<and> sel_inv s' \<and>
     length (fds s') = length (fds s) \<and> sel_lookup s' = (sel_lookup s)(fd := None)"
proof -
  let ?s1 = "items_update_fdset_for_fd s (it\<lparr>item_interest := OP_NOOP\<rparr>)"
  let ?s2 = "?s1\<lparr>fds := (fds ?s1)[nat fd := item_init zero_item]\<rparr>"
  have fd0: "0 \<le> fd" "nat fd < length (fds s)" "ITEM_USED (fds s ! nat fd)" "it = fds s ! nat fd"
    using lkp by (auto simp: sel_lookup_Some)
  have it: "item_fd it = fd" "fd < int ITEMS_MAX_SIZE" using sel_inv_lookup [OF inv lkp] by simp_all
  have lk: "sel_lookup ?s2 = (sel_lookup s)(fd := None)"
    using sel_lookup_update [of fd ?s1 "item_init zero_item"] fd0 by simp
  have rng: "0 \<le> max_fd s" "max_fd s < int (length (fds s))"
    using sel_inv_max(1,2) [OF inv] fd0(2) by auto
  have f2: "max_fd ?s2 = max_fd s" "length (fds ?s2) = length (fds s)" by simp_all
  have ids: "item_fd it' = fd' \<and> fd' \<le> max_fd ?s2" if "sel_lookup ?s2 fd' = Some it'" for fd' it'
    using that sel_inv_lookup [OF inv, of fd' it'] unfolding lk f2 by (auto split: if_splits)
  obtain mx where mx: "items_max_fd ?s2 = Inr mx" "0 \<le> mx" "mx < int (length (fds s))"
      "\<forall>fd' it'. sel_lookup ?s2 fd' = Some it' \<longrightarrow> fd' \<le> mx"
    using items_max_fd_spec [OF ids] rng unfolding f2 by blast
  let ?s' = "?s2\<lparr>max_fd := mx\<rparr>"
  have eq: "selector_unregister_fd close_cb s fd w = Inr (SELECTOR_SUCCESS, ?s', w')"
    using fd0 it h cb [unfolded fd0(4)] mx(1)
    by (cases "close_cb h") (simp_all add: selector_unregister_fd_def INVALID_FD_def Let_def)
  have lk': "sel_lookup ?s' = (sel_lookup s)(fd := None)" using lk by simp
  have len: "length (fds ?s') = length (fds s)" "fd_size ?s' = fd_size s"
    by simp_all
  have "sel_inv ?s'"
  proof (rule sel_inv_fun_upd [OF inv len lk'])
    show "f \<le> max_fd ?s'" if "sel_lookup ?s' f = Some it'" for f it'
      using that mx(4) by simp
    show "0 \<le> max_fd ?s'" "max_fd ?s' < int (length (fds s))" using mx by simp_all
  qed (use it in \<open>auto simp: items_update_fdset_eq\<close>)
  with eq lk' len(1) show ?thesis by blast
qed

lemma selector_unregister_unknown:
  assumes "sel_lookup s fd = None" and "INVALID_FD fd \<or> nat fd < length (fds s)"
  shows "selector_unregister_fd close_cb s fd w = Inr (SELECTOR_IARGS, s, w)"
  using assms by (auto simp: selector_unregister_fd_def sel_lookup_def INVALID_FD_def split: if_splits)

section \<open>Growing the table\<close>

lemma count_bits_bounds: "n < 2 ^ (count_bits n b - b) \<and> b \<le> count_bits n b \<and>
    (n \<noteq> 0 \<longrightarrow> 2 ^ (count_bits n b - b) \<le> 2 * n)"
proof (induction n b rule: count_bits.induct)
  case (1 tmp bits)
  show ?case
  proof (cases "tmp = 0")
    case True
    then show ?thesis by (subst (1 2 3) count_bits.simps) simp
  next
    case False
    let ?c = "count_bits (tmp div 2) (Suc bits)"
    have eq: "count_bits tmp bits = ?c" using False by (subst count_bits.simps) simp
    have IH: "tmp div 2 < 2 ^ (?c - Suc bits)" "Suc bits \<le> ?c"
      "tmp div 2 \<noteq> 0 \<longrightarrow> 2 ^ (?c - Suc bits) \<le> 2 * (tmp div 2)"
      using "1.IH" False by auto
    have pow: "2 ^ (?c - bits) = 2 * (2::nat) ^ (?c - Suc bits)"
      using IH(2) by (metis Suc_diff_Suc Suc_le_lessD power_Suc)
    have "2 ^ (?c - Suc bits) \<le> (tmp :: nat)"
    proof (cases "tmp div 2 = 0")
      case True
      then have "count_bits 0 (Suc bits) = Suc bits" by (subst count_bits.simps) simp
      then show ?thesis using True False by simp
    next
      case False
      then show ?thesis using IH(3) by (metis le_trans div_times_less_eq_dividend mult.commute)
    qed
    then show ?thesis using IH unfolding eq pow by auto
  qed
qed

lemma next_capacity_bounds:
  assumes "n \<le> ITEMS_MAX_SIZE"
  shows "\<exists>c. next_capacity n = Inr c \<and> n < c \<and> 2 \<le> c \<and> c \<le> ITEMS_MAX_SIZE + 1"
proof -
  let ?b = "count_bits n 0"
  have b: "n < 2 ^ ?b" using count_bits_bounds [of n 0] by simp
  have small: "?b < 64"
  proof (cases "n = 0")
    case True
    then show ?thesis by (simp add: count_bits.simps)
  next
    case False
    then have "2 ^ ?b \<le> 2 * n" using count_bits_bounds [of n 0] by simp
    also have "\<dots> < (2::nat) ^ 64" using assms by (simp add: ITEMS_MAX_SIZE_def)
    finally show ?thesis by (rule power_less_imp_less_exp [rotated]) simp
  qed
  have "1 \<le> (2::nat) ^ ?b" by simp
  then show ?thesis
    using b small assms by (auto simp: next_capacity_def Let_def ITEMS_MAX_SIZE_def)
qed

lemma sel_lookup_grow:
  assumes "length (fds s') = m" and "m \<ge> length (fds s)"
    and "\<And>i. i < length (fds s) \<Longrightarrow> fds s' ! i = fds s ! i"
    and "\<And>i. length (fds s) \<le> i \<Longrightarrow> i < m \<Longrightarrow> \<not> ITEM_USED (fds s' ! i)"
  shows "sel_lookup s' = sel_lookup s"
proof
  fix fd
  show "sel_lookup s' fd = sel_lookup s fd"
    using assms by (cases "nat fd < length (fds s)") (auto simp: sel_lookup_def)
qed

lemma ensure_capacity_spec:
  assumes inv: "sel_inv s"
  shows "\<exists>st s'. ensure_capacity al s n = Inr (st, s') \<and> sel_inv s' \<and>
     sel_lookup s' = sel_lookup s \<and> length (fds s) \<le> length (fds s') \<and>
     (st = SELECTOR_SUCCESS \<longrightarrow> n < length (fds s')) \<and>
     (st \<noteq> SELECTOR_SUCCESS \<longrightarrow> s' = s) \<and>
     (n \<le> ITEMS_MAX_SIZE \<and> al \<longrightarrow> st = SELECTOR_SUCCESS) \<and>
     (n > ITEMS_MAX_SIZE \<and> n \<ge> fd_size s \<longrightarrow> st = SELECTOR_MAXFD)"
proof -
  have sz: "fd_size s = length (fds s)" using inv by (simp add: sel_inv_def)
  consider "n < fd_size s" | "n \<ge> fd_size s" "n > ITEMS_MAX_SIZE"
    | "n \<ge> fd_size s" "n \<le> ITEMS_MAX_SIZE" by linarith
  then show ?thesis
  proof cases
    case 1
    then show ?thesis using inv sz by (simp add: ensure_capacity_def)
  next
    case 2
    then show ?thesis using inv by (simp add: ensure_capacity_def)
  next
    case 3
    obtain c where c: "next_capacity n = Inr c" "n < c" "c \<le> ITEMS_MAX_SIZE + 1"
      using next_capacity_bounds [OF 3(2)] by blast
    have szm: "\<not> c > SIZE_MAX div element_size"
      using c(3) by (simp add: SIZE_MAX_def element_size_def ITEMS_MAX_SIZE_def)
    let ?tmp = "take c (fds s) @ replicate (c - length (fds s)) zero_item"
    let ?s' = "s\<lparr>fds := take (fd_size s) ?tmp @ map item_init (drop (fd_size s) ?tmp), fd_size := c\<rparr>"
    show ?thesis
    proof (cases al)
      case False
      then show ?thesis using 3 c szm inv by (auto simp: ensure_capacity_def)
    next
      case True
      have lc: "length (fds s) < c" using 3(1) c(2) sz by simp
      have eq: "ensure_capacity al s n = Inr (SELECTOR_SUCCESS, ?s')"
        using True 3 c szm sz lc by (cases "fds s = []") (auto simp: ensure_capacity_def items_init_def Let_def)
      have len: "length (fds ?s') = c" using lc sz by simp
      have lk: "sel_lookup ?s' = sel_lookup s"
        by (rule sel_lookup_grow [OF len]) (use lc sz in \<open>auto simp: nth_append\<close>)
      have "sel_inv ?s'"
        unfolding sel_inv_def lk
        using inv len lc sel_inv_max(3) [OF inv lc] by (auto simp: sel_inv_def split: if_splits)
      then show ?thesis using eq lk len lc c(2) True 3(2) by (intro exI) auto
    qed
  qed
qed

lemma selector_new_full:
  "\<exists>s. selector_new True True ITEMS_MAX_SIZE = Inr (Some s) \<and> sel_full s \<and> sel_lookup s = Map.empty \<and> blank_items s \<and>
     resolution_jobs s = []"
proof -
  have b: "count_bits 1024 0 = 11" by (simp add: count_bits.simps)
  have nc: "next_capacity 1024 = Inr 1025"
    by (simp add: next_capacity_def b ITEMS_MAX_SIZE_def Let_def)
  let ?s = "empty_selector\<lparr>fds := map item_init (replicate 1025 zero_item), fd_size := 1025\<rparr>"
  have eq: "selector_new True True ITEMS_MAX_SIZE = Inr (Some ?s)"
    by (simp add: selector_new_def ensure_capacity_def items_init_def nc empty_selector_def
        ITEMS_MAX_SIZE_def Let_def)
  have lk: "sel_lookup ?s = Map.empty" by (auto simp: sel_lookup_def)
  have "sel_full ?s"
    unfolding sel_full_def sel_inv_def lk by (simp add: empty_selector_def ITEMS_MAX_SIZE_def)
  moreover have "blank_items ?s" by (simp add: blank_items_def item_init_def zero_item_def)
  moreover have "resolution_jobs ?s = []" by (simp add: empty_selector_def)
  ultimately show ?thesis using eq lk by blast
qed

section \<open>Unused items\<close>

lemma blank_items_fds: "fds s' = fds s \<Longrightarrow> blank_items s' = blank_items s"
  by (simp add: blank_items_def)

lemma blank_items_simps [simp]:
  "blank_items (s\<lparr>max_fd := m\<rparr>) = blank_items s" "blank_items (s\<lparr>resolution_jobs := j\<rparr>) = blank_items s"
  "blank_items (s\<lparr>slave_r := r, slave_w := q\<rparr>) = blank_items s"
  "blank_items (items_update_fdset_for_fd s it) = blank_items s"
  by (rule blank_items_fds, simp)+

lemma blank_items_update:
  "blank_items s \<Longrightarrow> ITEM_USED it \<or> item_interest it = 0 \<Longrightarrow> blank_items (s\<lparr>fds := (fds s)[n := it]\<rparr>)"
  by (auto simp: blank_items_def dest!: set_update_subset_insert [THEN subsetD])

lemma full_register_room: "sel_full s \<Longrightarrow> \<not> INVALID_FD fd \<Longrightarrow> nat fd \<le> fd_size s"
  by (auto simp: INVALID_FD_def sel_full_def sel_inv_def ITEMS_MAX_SIZE_def)

lemma blank_items_register:
  assumes "sel_full s" and "blank_items s" and "selector_register al s fd h i x = Inr (st, s')"
  shows "blank_items s'"
proof -
  have "ITEM_USED \<lparr>item_fd = fd, item_interest = i, item_handler = h, item_data = x\<rparr>" if "\<not> INVALID_FD fd"
    using that by (auto simp: ITEM_USED_def INVALID_FD_def FD_UNUSED_def)
  with assms blank_items_update [OF assms(2)] full_register_room [OF assms(1)] show ?thesis
    by (fastforce simp: selector_register_def Let_def blank_items_def split: if_splits)
qed

lemma blank_items_interest:
  "blank_items s \<Longrightarrow> selector_set_interest s fd i = Inr (st, s') \<Longrightarrow> blank_items s'"
  by (auto simp: selector_set_interest_def Let_def ITEM_USED_def split: if_splits intro!: blank_items_update)

lemma blank_items_unregister:
  assumes "blank_items s" and "selector_unregister_fd cb s fd w = Inr (st, s', w')"
  shows "blank_items s'"
  using assms blank_items_update [OF assms(1), of "item_init zero_item" "nat fd"]
  by (auto simp: selector_unregister_fd_def Let_def bind_res_eq_Inr item_init_def zero_item_def
      blank_items_def split: if_splits option.splits)

section \<open>The end of the table\<close>

text \<open>
  The growth is asked for descriptors greater than the size only: the descriptor equal to the
  size is stored behind the end of the block.
\<close>

lemma selector_register_past_end:
  assumes "sel_inv s" and "fd_size s < ITEMS_MAX_SIZE"
  shows "selector_register al s (int (fd_size s)) (Some h) i d = Inl Undefined"
  using assms by (auto simp: selector_register_def INVALID_FD_def sel_inv_def)

lemma selector_new_small:
  "\<exists>s. selector_new True True 3 = Inr (Some s) \<and> sel_inv s \<and> fd_size s = 5"
proof -
  have b: "count_bits 3 0 = 2" by (simp add: count_bits.simps)
  have nc: "next_capacity 3 = Inr 5" by (simp add: next_capacity_def b ITEMS_MAX_SIZE_def Let_def)
  let ?s = "empty_selector\<lparr>fds := map item_init (replicate 5 zero_item), fd_size := 5\<rparr>"
  have eq: "selector_new True True 3 = Inr (Some ?s)"
    by (simp add: selector_new_def ensure_capacity_def items_init_def nc empty_selector_def
        ITEMS_MAX_SIZE_def Let_def)
  have lk: "sel_lookup ?s = Map.empty" by (auto simp: sel_lookup_def)
  have "sel_inv ?s" unfolding sel_inv_def lk by (simp add: empty_selector_def)
  with eq show ?thesis by auto
qed

section \<open>The registry interface\<close>

text \<open>
  What the connection handlers rely on: the selector is a map from descriptors to entries;
  registering a free valid descriptor adds it, registering a used one is refused and changes
  nothing, unregistering removes it, a new interest replaces the old one.
\<close>

datatype 'e reg_op = Reg int 'e | Unreg int | Interest int fd_interest

locale fd_registry =
  fixes r_inv :: "'s \<Rightarrow> bool"
    and r_lookup :: "'s \<Rightarrow> int \<Rightarrow> 'e option"
    and r_valid :: "int \<Rightarrow> bool"
    and r_set :: "fd_interest \<Rightarrow> 'e \<Rightarrow> 'e"
    and r_add :: "'s \<Rightarrow> int \<Rightarrow> 'e \<Rightarrow> (selector_status \<times> 's) res"
    and r_del :: "'s \<Rightarrow> int \<Rightarrow> (selector_status \<times> 's) res"
    and r_upd :: "'s \<Rightarrow> int \<Rightarrow> fd_interest \<Rightarrow> (selector_status \<times> 's) res"
  assumes lookup_valid: "r_inv s \<Longrightarrow> r_lookup s fd = Some e \<Longrightarrow> r_valid fd"
    and add_invalid: "r_inv s \<Longrightarrow> \<not> r_valid fd \<Longrightarrow> r_add s fd e = Inr (SELECTOR_IARGS, s)"
    and add_free: "r_inv s \<Longrightarrow> r_valid fd \<Longrightarrow> r_lookup s fd = None \<Longrightarrow>
        \<exists>s'. r_add s fd e = Inr (SELECTOR_SUCCESS, s') \<and> r_inv s' \<and>
             r_lookup s' = (r_lookup s)(fd \<mapsto> e)"
    and add_used: "r_inv s \<Longrightarrow> r_lookup s fd = Some e' \<Longrightarrow> r_add s fd e = Inr (SELECTOR_FDINUSE, s)"
    and del_used: "r_inv s \<Longrightarrow> r_lookup s fd = Some e' \<Longrightarrow>
        \<exists>s'. r_del s fd = Inr (SELECTOR_SUCCESS, s') \<and> r_inv s' \<and>
             r_lookup s' = (r_lookup s)(fd := None)"
    and del_unknown: "r_inv s \<Longrightarrow> r_lookup s fd = None \<Longrightarrow> r_del s fd = Inr (SELECTOR_IARGS, s)"
    and upd_used: "r_inv s \<Longrightarrow> r_lookup s fd = Some e' \<Longrightarrow>
        \<exists>s'. r_upd s fd i = Inr (SELECTOR_SUCCESS, s') \<and> r_inv s' \<and>
             r_lookup s' = (r_lookup s)(fd \<mapsto> r_set i e')"
    and upd_unknown: "r_inv s \<Longrightarrow> r_lookup s fd = None \<Longrightarrow> r_upd s fd i = Inr (SELECTOR_IARGS, s)"
begin

definition step_op :: "'s \<Rightarrow> 'e reg_op \<Rightarrow> (selector_status \<times> 's) res" where
  "step_op s p = (case p of Reg fd e \<Rightarrow> r_add s fd e | Unreg fd \<Rightarrow> r_del s fd | Interest fd i \<Rightarrow> r_upd s fd i)"

definition step_map :: "(int \<Rightarrow> 'e option) \<Rightarrow> 'e reg_op \<Rightarrow> selector_status \<times> (int \<Rightarrow> 'e option)" where
  "step_map m p =
     (case p of
        Reg fd e \<Rightarrow> if \<not> r_valid fd then (SELECTOR_IARGS, m)
                   else if m fd = None then (SELECTOR_SUCCESS, m(fd \<mapsto> e)) else (SELECTOR_FDINUSE, m)
      | Unreg fd \<Rightarrow> if m fd = None then (SELECTOR_IARGS, m) else (SELECTOR_SUCCESS, m(fd := None))
      | Interest fd i \<Rightarrow> (case m fd of None \<Rightarrow> (SELECTOR_IARGS, m)
                         | Some e \<Rightarrow> (SELECTOR_SUCCESS, m(fd \<mapsto> r_set i e))))"

lemma step_op_refines:
  assumes "r_inv s"
  shows "\<exists>s'. step_op s p = Inr (fst (step_map (r_lookup s) p), s') \<and> r_inv s' \<and>
           r_lookup s' = snd (step_map (r_lookup s) p)"
proof (cases p)
  case (Reg fd e)
  show ?thesis
  proof (cases "r_valid fd")
    case True
    then show ?thesis
      using add_free [OF assms True, of e] add_used [OF assms, of fd _ e] assms
      by (cases "r_lookup s fd") (auto simp: Reg step_op_def step_map_def)
  next
    case False
    then show ?thesis
      using add_invalid [OF assms False] assms by (simp add: Reg step_op_def step_map_def)
  qed
next
  case (Unreg fd)
  then show ?thesis
    using del_used [OF assms, of fd] del_unknown [OF assms, of fd] assms
    by (cases "r_lookup s fd") (auto simp: step_op_def step_map_def)
next
  case (Interest fd i)
  then show ?thesis
    using upd_used [OF assms, of fd _ i] upd_unknown [OF assms, of fd i] assms
    by (cases "r_lookup s fd") (auto simp: step_op_def step_map_def)
qed

end

text \<open>The entries of the map view, and the registry operations on a full table.\<close>

type_synonym ('h, 'd) entry = "fd_interest \<times> 'h \<times> 'd option"

definition sel_entries :: "('h, 'd) fdselector \<Rightarrow> int \<Rightarrow> ('h, 'd) entry option" where
  "sel_entries s fd =
     map_option (\<lambda>it. (item_interest it, the (item_handler it), item_data it)) (sel_lookup s fd)"

definition reg_add :: "('h, 'd) fdselector \<Rightarrow> int \<Rightarrow> ('h, 'd) entry
    \<Rightarrow> (selector_status \<times> ('h, 'd) fdselector) res" where
  "reg_add s fd e = (case e of (i, h, d) \<Rightarrow> selector_register True s fd (Some h) i d)"

definition reg_del :: "('h, 'd) fdselector \<Rightarrow> int \<Rightarrow> (selector_status \<times> ('h, 'd) fdselector) res" where
  "reg_del s fd =
     bind_res (selector_unregister_fd (\<lambda>_. None) s fd ()) (\<lambda>(st, s', _). Inr (st, s'))"

lemma sel_full_inv: "sel_full s \<Longrightarrow> sel_inv s"
  by (simp add: sel_full_def)

lemma sel_full_room: "sel_full s \<Longrightarrow> INVALID_FD fd \<or> nat fd < length (fds s)"
  by (auto simp: sel_full_def INVALID_FD_def)

lemma sel_entries_None [simp]: "sel_entries s fd = None \<longleftrightarrow> sel_lookup s fd = None"
  by (simp add: sel_entries_def)

lemma sel_entries_upd:
  "sel_lookup s' = (sel_lookup s)(fd \<mapsto> it) \<Longrightarrow>
     sel_entries s' = (sel_entries s)(fd \<mapsto> (item_interest it, the (item_handler it), item_data it))"
  "sel_lookup s' = (sel_lookup s)(fd := None) \<Longrightarrow> sel_entries s' = (sel_entries s)(fd := None)"
  by (auto simp: sel_entries_def fun_eq_iff)

interpretation reg: fd_registry sel_full sel_entries "\<lambda>fd. \<not> INVALID_FD fd"
  "\<lambda>i (_, e). (i, e)" reg_add reg_del selector_set_interest
proof unfold_locales
  fix s :: "('h, 'd) fdselector" and fd :: int and e e' :: "('h, 'd) entry" and i :: fd_interest
  note [simp] = reg_add_def reg_del_def
  show "sel_full s \<Longrightarrow> sel_entries s fd = Some e \<Longrightarrow> \<not> INVALID_FD fd"
    using sel_inv_lookup [OF sel_full_inv, of s fd]
    by (auto simp: sel_entries_def INVALID_FD_def sel_lookup_Some)
  show "sel_full s \<Longrightarrow> \<not> \<not> INVALID_FD fd \<Longrightarrow> reg_add s fd e = Inr (SELECTOR_IARGS, s)"
    by (simp add: selector_register_def split: prod.split)
  show "\<exists>s'. reg_add s fd e = Inr (SELECTOR_SUCCESS, s') \<and> sel_full s' \<and>
      sel_entries s' = (sel_entries s)(fd \<mapsto> e)"
    if "sel_full s" "\<not> INVALID_FD fd" "sel_entries s fd = None"
  proof (cases e)
    case (fields j h d)
    have "nat fd < length (fds s)" using that sel_full_room [of s fd] by simp
    from selector_register_spec [OF sel_full_inv [OF that(1)] that(2) this, of True h j d] that(3)
    show ?thesis using that(1) by (auto simp: fields sel_full_def dest: sel_entries_upd(1))
  qed
  show "sel_full s \<Longrightarrow> sel_entries s fd = Some e' \<Longrightarrow> reg_add s fd e = Inr (SELECTOR_FDINUSE, s)"
    using selector_register_in_use [OF sel_full_inv, of s fd]
    by (auto simp: sel_entries_def split: prod.split)
  show "\<exists>s'. reg_del s fd = Inr (SELECTOR_SUCCESS, s') \<and> sel_full s' \<and>
      sel_entries s' = (sel_entries s)(fd := None)"
    if "sel_full s" "sel_entries s fd = Some e'"
  proof -
    note full = that(1)
    from that(2) obtain it where it: "sel_lookup s fd = Some it" by (auto simp: sel_entries_def)
    then obtain h where h: "item_handler it = Some h"
      using sel_inv_lookup [OF sel_full_inv [OF full] it] by auto
    show ?thesis
      using selector_unregister_spec [OF sel_full_inv [OF full] it h,
          where close_cb = "\<lambda>_. None" and w = "()" and w' = "()"] full
      by (auto simp: sel_full_def dest: sel_entries_upd(2))
  qed
  show "sel_full s \<Longrightarrow> sel_entries s fd = None \<Longrightarrow> reg_del s fd = Inr (SELECTOR_IARGS, s)"
    using selector_unregister_unknown [OF _ sel_full_room, of s fd "\<lambda>_. None" "()"] by simp
  show "\<exists>s'. selector_set_interest s fd i = Inr (SELECTOR_SUCCESS, s') \<and> sel_full s' \<and>
      sel_entries s' = (sel_entries s)(fd \<mapsto> (case e' of (_, e) \<Rightarrow> (i, e)))"
    if "sel_full s" "sel_entries s fd = Some e'"
  proof -
    note full = that
    from that(2) obtain it where it: "sel_lookup s fd = Some it" by (auto simp: sel_entries_def)
    show ?thesis
      using selector_set_interest_spec [OF sel_full_inv [OF full(1)] it, of i] full it
      by (auto simp: sel_full_def sel_entries_def dest!: sel_entries_upd(1))
  qed
  show "sel_full s \<Longrightarrow> sel_entries s fd = None \<Longrightarrow> selector_set_interest s fd i = Inr (SELECTOR_IARGS, s)"
    using selector_set_interest_unknown [OF _ sel_full_room] by simp
qed

text \<open>Sequences of operations on the selector and on the map.\<close>

fun selector_run :: "('h, 'd) fdselector \<Rightarrow> ('h, 'd) entry reg_op list \<Rightarrow>
    (selector_status list \<times> ('h, 'd) fdselector) res" where
  "selector_run s [] = Inr ([], s)"
| "selector_run s (p # ps) =
     bind_res (case p of Reg fd e \<Rightarrow> reg_add s fd e | Unreg fd \<Rightarrow> reg_del s fd
               | Interest fd i \<Rightarrow> selector_set_interest s fd i) (\<lambda>(st, s1).
     bind_res (selector_run s1 ps) (\<lambda>(sts, s2). Inr (st # sts, s2)))"

fun map_run :: "(int \<Rightarrow> ('h, 'd) entry option) \<Rightarrow> ('h, 'd) entry reg_op list \<Rightarrow>
    selector_status list \<times> (int \<Rightarrow> ('h, 'd) entry option)" where
  "map_run m [] = ([], m)"
| "map_run m (p # ps) =
     (let (st, m1) = (case p of
          Reg fd e \<Rightarrow> if INVALID_FD fd then (SELECTOR_IARGS, m)
                     else if m fd = None then (SELECTOR_SUCCESS, m(fd \<mapsto> e)) else (SELECTOR_FDINUSE, m)
        | Unreg fd \<Rightarrow> if m fd = None then (SELECTOR_IARGS, m) else (SELECTOR_SUCCESS, m(fd := None))
        | Interest fd i \<Rightarrow> (case m fd of None \<Rightarrow> (SELECTOR_IARGS, m)
                           | Some (_, e) \<Rightarrow> (SELECTOR_SUCCESS, m(fd \<mapsto> (i, e)))));
          (sts, m2) = map_run m1 ps
      in (st # sts, m2))"

lemma selector_run_refines:
  "sel_full s \<Longrightarrow> \<exists>s'. selector_run s ps = Inr (fst (map_run (sel_entries s) ps), s') \<and> sel_full s' \<and>
     sel_entries s' = snd (map_run (sel_entries s) ps)"
proof (induction ps arbitrary: s)
  case Nil
  then show ?case by simp
next
  case (Cons p ps)
  let ?r = "reg.step_map (sel_entries s) p"
  from reg.step_op_refines [OF Cons.prems, of p] obtain s1 where
    s1: "reg.step_op s p = Inr (fst ?r, s1)" "sel_full s1" "sel_entries s1 = snd ?r" by blast
  have op: "selector_run s (p # ps) = bind_res (reg.step_op s p) (\<lambda>(st, s1).
     bind_res (selector_run s1 ps) (\<lambda>(sts, s2). Inr (st # sts, s2)))"
    by (simp add: reg.step_op_def)
  have mp: "map_run (sel_entries s) (p # ps) =
     (fst ?r # fst (map_run (snd ?r) ps), snd (map_run (snd ?r) ps))"
    by (auto simp: reg.step_map_def Let_def simp del: sel_entries_None split: reg_op.split prod.split option.split)
  from Cons.IH [OF s1(2)] s1 show ?case unfolding op mp by auto
qed

text \<open>The two sets that \<open>pselect\<close> gets are the ones of the entries.\<close>

lemma sel_masters:
  assumes "sel_full s"
  shows "master_r s = {fd. \<exists>i e. sel_entries s fd = Some (i, e) \<and> wants_read i}"
    and "master_w s = {fd. \<exists>i e. sel_entries s fd = Some (i, e) \<and> wants_write i}"
  using sel_full_inv [OF assms] by (auto simp: sel_inv_def sel_entries_def)

end
