(* ===== verification/Buffer.thy ===== *)
theory Buffer
  imports Prelude
begin

text \<open>
  \<open>src/src/buffer.c\<close>: the direct-access I/O buffer with a read and a write pointer. The
  pointers are offsets from \<open>data\<close>; \<open>buf_data\<close> is the memory that \<open>data\<close> points at. A
  failed \<open>assert\<close> is \<open>Inl Assertion_failed\<close>. The abstract view is the list of bytes
  between the two pointers (\<open>buffer_content\<close>).
\<close>

section \<open>The structure and its operations\<close>

record buffer =
  buf_data :: "byte list"
  buf_limit :: nat
  buf_read :: nat
  buf_write :: nat

definition buffer_reset :: "buffer \<Rightarrow> buffer" where
  "buffer_reset b = b\<lparr>buf_read := 0, buf_write := 0\<rparr>"

definition buffer_init :: "nat \<Rightarrow> byte list \<Rightarrow> buffer" where
  "buffer_init n data = buffer_reset \<lparr>buf_data = data, buf_limit = n, buf_read = 0, buf_write = 0\<rparr>"

definition buffer_can_write :: "buffer \<Rightarrow> bool" where
  "buffer_can_write b \<longleftrightarrow> int (buf_limit b) - int (buf_write b) > 0"

definition buffer_write_ptr :: "buffer \<Rightarrow> (nat \<times> nat) res" where
  "buffer_write_ptr b =
     (if buf_write b \<le> buf_limit b then Inr (buf_write b, buf_limit b - buf_write b)
      else Inl Assertion_failed)"

definition buffer_can_read :: "buffer \<Rightarrow> bool" where
  "buffer_can_read b \<longleftrightarrow> int (buf_write b) - int (buf_read b) > 0"

definition buffer_read_ptr :: "buffer \<Rightarrow> (nat \<times> nat) res" where
  "buffer_read_ptr b =
     (if buf_read b \<le> buf_write b then Inr (buf_read b, buf_write b - buf_read b)
      else Inl Assertion_failed)"

definition buffer_write_adv :: "buffer \<Rightarrow> int \<Rightarrow> buffer res" where
  "buffer_write_adv b bytes =
     (if bytes > -1
      then (let w = buf_write b + nat bytes
            in if w \<le> buf_limit b then Inr (b\<lparr>buf_write := w\<rparr>) else Inl Assertion_failed)
      else Inr b)"

definition buffer_compact :: "buffer \<Rightarrow> buffer" where
  "buffer_compact b =
     (if buf_read b = 0 then b
      else if buf_read b = buf_write b then b\<lparr>buf_read := 0, buf_write := 0\<rparr>
      else (let n = buf_write b - buf_read b
            in b\<lparr>buf_data := store_bytes 0 (take n (drop (buf_read b) (buf_data b))) (buf_data b),
                 buf_read := 0, buf_write := n\<rparr>))"

definition buffer_read_adv :: "buffer \<Rightarrow> int \<Rightarrow> buffer res" where
  "buffer_read_adv b bytes =
     (if bytes > -1
      then (let r = buf_read b + nat bytes; b' = b\<lparr>buf_read := r\<rparr>
            in if r \<le> buf_write b
               then Inr (if r = buf_write b then buffer_compact b' else b')
               else Inl Assertion_failed)
      else Inr b)"

definition buffer_read :: "buffer \<Rightarrow> (byte \<times> buffer) res" where
  "buffer_read b =
     (if buffer_can_read b
      then bind_res (buffer_read_adv b 1) (\<lambda>b'. Inr (buf_data b ! buf_read b, b'))
      else Inr (0, b))"

definition buffer_write :: "buffer \<Rightarrow> byte \<Rightarrow> buffer res" where
  "buffer_write b c =
     (if buffer_can_write b
      then buffer_write_adv (b\<lparr>buf_data := (buf_data b)[buf_write b := c]\<rparr>) 1
      else Inr b)"

text \<open>
  Idioms of the callers. \<open>buffer_store\<close>: take the write pointer, let the caller (or \<open>recv\<close>) store
  bytes through it, then \<open>buffer_write_adv\<close> by what was returned; a store past the memory of the
  buffer is undefined. \<open>buffer_put\<close>: the same with all of the bytes. \<open>buffer_pending\<close>: the bytes a
  caller finds behind the read pointer.
\<close>

definition buffer_store :: "buffer \<Rightarrow> byte list \<Rightarrow> int \<Rightarrow> buffer res" where
  "buffer_store b xs bytes =
     bind_res (buffer_write_ptr b) (\<lambda>(p, n).
       if p + length xs \<le> length (buf_data b)
       then buffer_write_adv (b\<lparr>buf_data := store_bytes p xs (buf_data b)\<rparr>) bytes
       else Inl Undefined)"

definition buffer_put :: "buffer \<Rightarrow> byte list \<Rightarrow> buffer res" where
  "buffer_put b xs = buffer_store b xs (int (length xs))"

definition buffer_pending :: "buffer \<Rightarrow> byte list res" where
  "buffer_pending b = bind_res (buffer_read_ptr b) (\<lambda>(p, n). Inr (take n (drop p (buf_data b))))"

section \<open>Invariant and abstraction\<close>

definition buffer_bounds :: "buffer \<Rightarrow> bool" where
  "buffer_bounds b \<longleftrightarrow> buf_read b \<le> buf_write b \<and> buf_write b \<le> buf_limit b \<and>
     buf_limit b \<le> length (buf_data b)"

text \<open>Besides, the pointers of an empty buffer are at its start: all of its room is free.\<close>

definition buffer_inv :: "buffer \<Rightarrow> bool" where
  "buffer_inv b \<longleftrightarrow> buf_read b \<le> buf_write b \<and> buf_write b \<le> buf_limit b \<and>
     buf_limit b \<le> length (buf_data b) \<and> (buf_read b = buf_write b \<longrightarrow> buf_write b = 0)"

definition buffer_content :: "buffer \<Rightarrow> byte list" where
  "buffer_content b = take (buf_write b - buf_read b) (drop (buf_read b) (buf_data b))"

definition buffer_free :: "buffer \<Rightarrow> nat" where
  "buffer_free b = buf_limit b - buf_write b"

lemma length_buffer_content [simp]:
  "buffer_inv b \<Longrightarrow> length (buffer_content b) = buf_write b - buf_read b"
  by (auto simp: buffer_inv_def buffer_content_def)

lemma buffer_inv_bounds: "buffer_inv b \<Longrightarrow> buffer_bounds b"
  by (simp add: buffer_inv_def buffer_bounds_def)

lemma buffer_free_empty:
  assumes "buffer_inv b" and "buffer_content b = []"
  shows "buffer_free b = buf_limit b"
proof -
  have "buf_write b - buf_read b = 0" using length_buffer_content [OF assms(1)] assms(2) by simp
  then show ?thesis using assms(1) by (auto simp: buffer_inv_def buffer_free_def)
qed

lemma buffer_inv_init [simp, inv_intros]: "n \<le> length data \<Longrightarrow> buffer_inv (buffer_init n data)"
  by (simp add: buffer_inv_def buffer_init_def buffer_reset_def)

lemma buffer_content_init [simp]: "buffer_content (buffer_init n data) = []"
  by (simp add: buffer_content_def buffer_init_def buffer_reset_def)

lemma buffer_free_init [simp]: "buffer_free (buffer_init n data) = n"
  by (simp add: buffer_free_def buffer_init_def buffer_reset_def)

lemma buffer_limit_init [simp]: "buf_limit (buffer_init n data) = n"
  by (simp add: buffer_init_def buffer_reset_def)

lemma buffer_can_read_iff: "buffer_inv b \<Longrightarrow> buffer_can_read b \<longleftrightarrow> buffer_content b \<noteq> []"
  by (auto simp: buffer_can_read_def buffer_content_def buffer_inv_def)

lemma buffer_can_write_iff: "buffer_inv b \<Longrightarrow> buffer_can_write b \<longleftrightarrow> 0 < buffer_free b"
  by (auto simp: buffer_can_write_def buffer_free_def buffer_inv_def)

lemma buffer_write_ptr_ok [simp]:
  "buffer_inv b \<Longrightarrow> buffer_write_ptr b = Inr (buf_write b, buffer_free b)"
  by (simp add: buffer_write_ptr_def buffer_inv_def buffer_free_def)

lemma buffer_pending_ok [simp]: "buffer_inv b \<Longrightarrow> buffer_pending b = Inr (buffer_content b)"
  by (simp add: buffer_pending_def buffer_read_ptr_def buffer_inv_def buffer_content_def)

lemma buffer_reset_spec:
  "buffer_inv b \<Longrightarrow> buffer_inv (buffer_reset b) \<and> buffer_content (buffer_reset b) = [] \<and>
     buf_limit (buffer_reset b) = buf_limit b"
  by (simp add: buffer_inv_def buffer_reset_def buffer_content_def)

lemma buffer_compact_spec:
  assumes "buffer_bounds b"
  shows "buffer_inv (buffer_compact b)"
    and "buffer_content (buffer_compact b) = buffer_content b"
    and "buf_limit (buffer_compact b) = buf_limit b"
    and "buf_read (buffer_compact b) = 0"
    and "buffer_free (buffer_compact b) = buf_limit b - length (buffer_content b)"
  using assms
  by (auto simp: buffer_compact_def buffer_inv_def buffer_bounds_def buffer_content_def buffer_free_def
      store_bytes_def Let_def)

lemma buffer_read_adv_spec:
  assumes "buffer_inv b" and "0 \<le> n" and "n \<le> int (length (buffer_content b))"
  shows "\<exists>b'. buffer_read_adv b n = Inr b' \<and> buffer_inv b' \<and>
           buffer_content b' = drop (nat n) (buffer_content b) \<and> buf_limit b' = buf_limit b"
proof -
  let ?b = "b\<lparr>buf_read := buf_read b + nat n\<rparr>"
  have le: "buf_read b + nat n \<le> buf_write b" and inv: "buffer_bounds ?b"
    and cont: "buffer_content ?b = drop (nat n) (buffer_content b)"
    using assms by (auto simp: buffer_inv_def buffer_bounds_def buffer_content_def drop_take add.commute)
  have more: "buffer_inv ?b" if "buf_read b + nat n \<noteq> buf_write b"
    using that inv by (simp add: buffer_inv_def buffer_bounds_def)
  have "buffer_read_adv b n =
      Inr (if buf_read b + nat n = buf_write b then buffer_compact ?b else ?b)"
    using le assms(2) by (simp add: buffer_read_adv_def Let_def)
  then show ?thesis
    using more cont buffer_compact_spec [OF inv] by auto
qed

lemma buffer_put_spec:
  assumes "buffer_inv b" and "length xs \<le> buffer_free b"
  shows "\<exists>b'. buffer_put b xs = Inr b' \<and> buffer_inv b' \<and>
           buffer_content b' = buffer_content b @ xs \<and> buf_limit b' = buf_limit b \<and>
           buffer_free b' = buffer_free b - length xs \<and> buf_read b' = buf_read b"
proof -
  let ?d = "store_bytes (buf_write b) xs (buf_data b)"
  let ?b = "b\<lparr>buf_data := ?d, buf_write := buf_write b + length xs\<rparr>"
  have fits: "buf_write b + length xs \<le> buf_limit b" "buf_limit b \<le> length (buf_data b)"
      "buf_read b \<le> buf_write b" "buf_write b \<le> buf_limit b"
    using assms by (auto simp: buffer_inv_def buffer_free_def)
  then have "buffer_put b xs = Inr ?b"
    using assms(1) by (simp add: buffer_put_def buffer_store_def buffer_write_adv_def Let_def)
  moreover have "buffer_content ?b = buffer_content b @ xs"
    using fits take_drop_store_bytes [of "buf_read b" "buf_write b" xs "buf_data b"]
    by (simp add: buffer_content_def)
  moreover have "buffer_inv ?b"
    using fits assms(1) by (auto simp: buffer_inv_def)
  ultimately show ?thesis by (simp add: buffer_free_def)
qed

lemma buffer_read_spec:
  assumes "buffer_inv b" and "buffer_content b = x # xs"
  shows "\<exists>b'. buffer_read b = Inr (x, b') \<and> buffer_inv b' \<and> buffer_content b' = xs \<and>
           buf_limit b' = buf_limit b"
proof -
  have lt: "buf_read b < buf_write b" "buf_write b \<le> length (buf_data b)"
    using assms by (auto simp: buffer_inv_def buffer_content_def intro: Suc_leI ccontr)
  then have x: "buf_data b ! buf_read b = x"
    using assms(2) by (simp add: buffer_content_def take_drop_Suc)
  have can: "buffer_can_read b" using lt by (simp add: buffer_can_read_def)
  have "1 \<le> int (length (buffer_content b))" using assms(2) by simp
  then obtain b' where "buffer_read_adv b 1 = Inr b'" "buffer_inv b'"
      "buffer_content b' = drop 1 (buffer_content b)" "buf_limit b' = buf_limit b"
    using buffer_read_adv_spec [OF assms(1), of 1] by auto
  then show ?thesis using can x assms(2) by (simp add: buffer_read_def)
qed

lemma buffer_write_spec:
  assumes "buffer_inv b"
  shows "\<exists>b'. buffer_write b c = Inr b' \<and> buffer_inv b' \<and> buf_limit b' = buf_limit b \<and>
     buffer_content b' = (if 0 < buffer_free b then buffer_content b @ [c] else buffer_content b)"
proof (cases "0 < buffer_free b")
  case True
  then have w: "buf_write b < length (buf_data b)"
    using assms by (simp add: buffer_inv_def buffer_free_def)
  then have upd: "(buf_data b)[buf_write b := c] = store_bytes (buf_write b) [c] (buf_data b)"
    by (simp add: store_bytes_def upd_conv_take_nth_drop)
  have "buffer_write b c = buffer_put b [c]"
    using True assms w by (simp add: buffer_write_def buffer_can_write_iff buffer_put_def buffer_store_def upd)
  then show ?thesis
    using buffer_put_spec [OF assms, of "[c]"] True by auto
next
  case False
  then show ?thesis using assms by (simp add: buffer_write_def buffer_can_write_iff)
qed

text \<open>A successful read makes the distance between the pointers smaller (loop termination).\<close>

lemma buffer_read_decreases:
  assumes "buffer_can_read b" and "buffer_read b = Inr (x, b')"
  shows "buf_write b' - buf_read b' < buf_write b - buf_read b"
  using assms
  by (auto simp: buffer_read_def buffer_can_read_def buffer_read_adv_def buffer_compact_def
      Let_def split: if_splits)

lemma buffer_read_limit:
  assumes "buffer_inv b \<and> buf_limit b = n" and "buffer_read b = Inr (x, b')"
  shows "buffer_inv b' \<and> buf_limit b' = n"
proof (cases "buffer_content b")
  case Nil
  then show ?thesis using assms by (simp add: buffer_read_def buffer_can_read_iff)
next
  case (Cons y ys)
  then show ?thesis using buffer_read_spec [of b y ys] assms by auto
qed

interpretation bq: byte_queue buffer_inv buffer_content buffer_can_read buffer_read
  by unfold_locales (use buffer_read_spec in \<open>fastforce simp: buffer_can_read_iff\<close>)+

section \<open>The buffer as a bounded queue\<close>

text \<open>
  Sequences of all the operations, with what they return, on the buffer and on its abstraction: the
  queued bytes and the room behind them. The room comes back when the queue gets empty, or by an
  explicit compaction. \<open>Put_bytes xs n\<close> stores \<open>xs\<close> through the write pointer and advances it by \<open>n\<close>
  (negative after a failed \<open>recv\<close>); \<open>Room\<close> and \<open>Peek\<close> are what the two pointers show.
\<close>

datatype buffer_op = Put_byte byte | Put_bytes "byte list" int | Can_put | Room | Get_byte | Can_get | Peek | Skip int
  | Compact | Reset

datatype buffer_out = Out_byte byte | Out_bytes "byte list" | Out_size nat | Out_flag bool

fun buffer_step :: "buffer_op \<Rightarrow> buffer \<Rightarrow> (buffer_out list \<times> buffer) res" where
  "buffer_step (Put_byte c) b = bind_res (buffer_write b c) (\<lambda>b'. Inr ([], b'))"
| "buffer_step (Put_bytes xs n) b = bind_res (buffer_store b xs n) (\<lambda>b'. Inr ([], b'))"
| "buffer_step Can_put b = Inr ([Out_flag (buffer_can_write b)], b)"
| "buffer_step Room b = bind_res (buffer_write_ptr b) (\<lambda>(p, n). Inr ([Out_size n], b))"
| "buffer_step Get_byte b = bind_res (buffer_read b) (\<lambda>(x, b'). Inr ([Out_byte x], b'))"
| "buffer_step Can_get b = Inr ([Out_flag (buffer_can_read b)], b)"
| "buffer_step Peek b = bind_res (buffer_pending b) (\<lambda>xs. Inr ([Out_bytes xs], b))"
| "buffer_step (Skip n) b = bind_res (buffer_read_adv b n) (\<lambda>b'. Inr ([], b'))"
| "buffer_step Compact b = Inr ([], buffer_compact b)"
| "buffer_step Reset b = Inr ([], buffer_reset b)"

text \<open>The same on the queue, for the limit \<open>L\<close> and the memory \<open>M\<close> of the buffer.\<close>

fun queue_step :: "nat \<Rightarrow> nat \<Rightarrow> buffer_op \<Rightarrow> byte list \<times> nat \<Rightarrow> (buffer_out list \<times> byte list \<times> nat) res" where
  "queue_step L M (Put_byte c) (q, r) = Inr ([], if 0 < r then (q @ [c], r - 1) else (q, r))"
| "queue_step L M (Put_bytes xs n) (q, r) =
     (if L - r + length xs > M then Inl Undefined
      else if n < 0 then Inr ([], q, r)
      else if n > int r then Inl Assertion_failed
      else Inr ([], q @ take (nat n) xs, r - nat n))"
| "queue_step L M Can_put (q, r) = Inr ([Out_flag (0 < r)], q, r)"
| "queue_step L M Room (q, r) = Inr ([Out_size r], q, r)"
| "queue_step L M Get_byte (q, r) =
     (case q of [] \<Rightarrow> Inr ([Out_byte 0], q, r) | x # xs \<Rightarrow> Inr ([Out_byte x], xs, if xs = [] then L else r))"
| "queue_step L M Can_get (q, r) = Inr ([Out_flag (q \<noteq> [])], q, r)"
| "queue_step L M Peek (q, r) = Inr ([Out_bytes q], q, r)"
| "queue_step L M (Skip n) (q, r) =
     (if n < 0 then Inr ([], q, r)
      else if n > int (length q) then Inl Assertion_failed
      else let q' = drop (nat n) q in Inr ([], q', if q' = [] then L else r))"
| "queue_step L M Compact (q, r) = Inr ([], q, L - length q)"
| "queue_step L M Reset (q, r) = Inr ([], [], L)"

text \<open>No more bytes are made visible than have been stored.\<close>

definition stored :: "buffer_op \<Rightarrow> bool" where
  "stored p \<longleftrightarrow> (case p of Put_bytes xs n \<Rightarrow> n \<le> int (length xs) | _ \<Rightarrow> True)"

fun buffer_run :: "buffer_op list \<Rightarrow> buffer \<Rightarrow> (buffer_out list \<times> buffer) res" where
  "buffer_run [] b = Inr ([], b)"
| "buffer_run (p # ps) b = bind_res (buffer_step p b) (\<lambda>(out, b').
     bind_res (buffer_run ps b') (\<lambda>(outs, b''). Inr (out @ outs, b'')))"

fun queue_run :: "nat \<Rightarrow> nat \<Rightarrow> buffer_op list \<Rightarrow> byte list \<times> nat \<Rightarrow> (buffer_out list \<times> byte list \<times> nat) res" where
  "queue_run L M [] s = Inr ([], s)"
| "queue_run L M (p # ps) s = bind_res (queue_step L M p s) (\<lambda>(out, s').
     bind_res (queue_run L M ps s') (\<lambda>(outs, s''). Inr (out @ outs, s'')))"

definition buffer_view :: "buffer \<Rightarrow> byte list \<times> nat" where
  "buffer_view b = (buffer_content b, buffer_free b)"

text \<open>The two results agree: the same fault, or the same output and related states.\<close>

definition same_queue ::
    "nat \<Rightarrow> nat \<Rightarrow> (buffer_out list \<times> buffer) res \<Rightarrow> (buffer_out list \<times> byte list \<times> nat) res \<Rightarrow> bool" where
  "same_queue L M r s \<longleftrightarrow> (case r of
     Inl e \<Rightarrow> s = Inl e
   | Inr (out, b) \<Rightarrow> s = Inr (out, buffer_view b) \<and> buffer_inv b \<and> buf_limit b = L \<and> length (buf_data b) = M)"

lemma buffer_read_adv_room:
  assumes "buffer_inv b" and "0 \<le> n" and "n \<le> int (length (buffer_content b))" and "buffer_read_adv b n = Inr b'"
  shows "buffer_free b' = (if buffer_content b' = [] then buf_limit b else buffer_free b)"
proof -
  have len: "length (buffer_content b) = buf_write b - buf_read b" using assms(1) by simp
  from buffer_read_adv_spec [OF assms(1-3)] assms(4) have "length (buffer_content b') = buf_write b - buf_read b - nat n"
    using len by simp
  then have e: "buffer_content b' = [] \<longleftrightarrow> buf_read b + nat n = buf_write b"
    using assms(1-3) len by (auto simp: buffer_inv_def)
  show ?thesis
    using assms(1,2,4) unfolding e
    by (auto simp: buffer_read_adv_def buffer_compact_def buffer_free_def Let_def split: if_splits)
qed

lemma buffer_write_room:
  assumes "buffer_inv b" and "buffer_write b c = Inr b'"
  shows "buffer_free b' = (if 0 < buffer_free b then buffer_free b - 1 else buffer_free b)"
  using assms(2)
  by (auto simp: buffer_write_def buffer_can_write_def buffer_write_adv_def buffer_free_def Let_def split: if_splits)

text \<open>No operation changes the memory that the buffer has.\<close>

lemma buffer_compact_memory: "buffer_bounds b \<Longrightarrow> length (buf_data (buffer_compact b)) = length (buf_data b)"
  by (auto simp: buffer_compact_def buffer_bounds_def Let_def)

lemma buffer_read_adv_memory:
  "buffer_read_adv b n = Inr b' \<Longrightarrow> buffer_inv b \<Longrightarrow> length (buf_data b') = length (buf_data b)"
  by (auto simp: buffer_read_adv_def buffer_inv_def buffer_compact_def Let_def split: if_splits)

lemma buffer_store_queue:
  assumes "buffer_inv b" and "n \<le> int (length xs)"
  shows "same_queue (buf_limit b) (length (buf_data b)) (buffer_step (Put_bytes xs n) b)
    (queue_step (buf_limit b) (length (buf_data b)) (Put_bytes xs n) (buffer_view b))"
proof -
  have w: "buf_limit b - buffer_free b = buf_write b" "buf_read b \<le> buf_write b" "buf_write b \<le> buf_limit b"
      "buf_limit b \<le> length (buf_data b)"
    using assms(1) by (auto simp: buffer_inv_def buffer_free_def)
  let ?d = "store_bytes (buf_write b) xs (buf_data b)"
  consider "buf_write b + length xs > length (buf_data b)"
    | "buf_write b + length xs \<le> length (buf_data b)" "n < 0"
    | "buf_write b + length xs \<le> length (buf_data b)" "n > int (buffer_free b)"
    | "buf_write b + length xs \<le> length (buf_data b)" "0 \<le> n" "n \<le> int (buffer_free b)" by linarith
  then show ?thesis
  proof cases
    case 1
    then show ?thesis using assms(1) w(1) by (simp add: buffer_store_def same_queue_def buffer_view_def)
  next
    case 2
    have "drop (buf_read b) ?d = take (buf_write b - buf_read b) (drop (buf_read b) (buf_data b)) @ xs @ drop (buf_write b + length xs) (buf_data b)"
      using 2(1) w by (simp add: store_bytes_def drop_take)
    then have "buffer_content (b\<lparr>buf_data := ?d\<rparr>) = buffer_content b"
      using w by (simp add: buffer_content_def)
    moreover have "buffer_inv (b\<lparr>buf_data := ?d\<rparr>)" using 2(1) assms(1) by (simp add: buffer_inv_def)
    ultimately show ?thesis
      using 2 assms(1) w(1)
      by (simp add: buffer_store_def buffer_write_adv_def same_queue_def buffer_view_def buffer_free_def)
  next
    case 3
    then show ?thesis
      using assms(1) w
      by (auto simp: buffer_store_def buffer_write_adv_def same_queue_def buffer_view_def buffer_free_def Let_def)
  next
    case 4
    let ?b = "b\<lparr>buf_data := ?d, buf_write := buf_write b + nat n\<rparr>"
    have fits: "buf_write b + nat n \<le> buf_limit b" using 4(3) w by (simp add: buffer_free_def)
    have len: "nat n \<le> length xs" using assms(2) 4(2) by simp
    have "drop (buf_read b) ?d = take (buf_write b - buf_read b) (drop (buf_read b) (buf_data b)) @ xs @ drop (buf_write b + length xs) (buf_data b)"
      using 4(1) w by (simp add: store_bytes_def drop_take)
    moreover have "buf_write b + nat n - buf_read b = (buf_write b - buf_read b) + nat n" using w(2) by simp
    moreover have "min (length (buf_data b) - buf_read b) (buf_write b - buf_read b) = buf_write b - buf_read b" using w by simp
    ultimately have "buffer_content ?b = buffer_content b @ take (nat n) xs"
      using len by (simp add: buffer_content_def)
    moreover have "buffer_inv ?b" using 4(1) fits assms(1) by (auto simp: buffer_inv_def)
    moreover have "buffer_store b xs n = Inr ?b"
      using 4 fits assms(1) by (simp add: buffer_store_def buffer_write_adv_def Let_def)
    ultimately show ?thesis
      using 4 w(1) by (simp add: same_queue_def buffer_view_def buffer_free_def)
  qed
qed

lemma buffer_step_refines:
  assumes "buffer_inv b" and "stored p"
  shows "same_queue (buf_limit b) (length (buf_data b)) (buffer_step p b)
    (queue_step (buf_limit b) (length (buf_data b)) p (buffer_view b))"
proof (cases p)
  case (Put_byte c)
  from buffer_write_spec [OF assms(1), of c] obtain b' where b': "buffer_write b c = Inr b'" "buffer_inv b'"
    "buf_limit b' = buf_limit b"
    "buffer_content b' = (if 0 < buffer_free b then buffer_content b @ [c] else buffer_content b)" by blast
  then have "length (buf_data b') = length (buf_data b)"
    by (auto simp: buffer_write_def buffer_write_adv_def Let_def split: if_splits)
  with buffer_write_room [OF assms(1) b'(1)] b' show ?thesis by (simp add: Put_byte same_queue_def buffer_view_def)
next
  case (Put_bytes xs n)
  then show ?thesis using buffer_store_queue [OF assms(1)] assms(2) by (simp add: stored_def del: buffer_step.simps queue_step.simps)
next
  case Get_byte
  show ?thesis
  proof (cases "buffer_content b")
    case Nil
    then show ?thesis
      using assms(1) by (simp add: Get_byte same_queue_def buffer_view_def buffer_read_def buffer_can_read_iff)
  next
    case (Cons x xs)
    from buffer_read_spec [OF assms(1) Cons] obtain b' where b': "buffer_read b = Inr (x, b')" "buffer_inv b'"
      "buffer_content b' = xs" "buf_limit b' = buf_limit b" by blast
    then have adv: "buffer_read_adv b 1 = Inr b'"
      using assms(1) Cons by (auto simp: buffer_read_def buffer_can_read_iff bind_res_eq_Inr)
    from buffer_read_adv_room [OF assms(1) _ _ adv] buffer_read_adv_memory [OF adv assms(1)] b' Cons show ?thesis
      by (simp add: Get_byte same_queue_def buffer_view_def)
  qed
next
  case (Skip n)
  consider "n < 0" | "n > int (length (buffer_content b))" | "0 \<le> n" "n \<le> int (length (buffer_content b))"
    by linarith
  then show ?thesis
  proof cases
    case 1
    then show ?thesis using assms(1) by (simp add: Skip same_queue_def buffer_view_def buffer_read_adv_def)
  next
    case 2
    then have "buffer_read_adv b n = Inl Assertion_failed"
      using assms(1) by (auto simp: buffer_read_adv_def buffer_inv_def Let_def)
    then show ?thesis using 2 assms(1) by (simp add: Skip same_queue_def buffer_view_def)
  next
    case 3
    from buffer_read_adv_spec [OF assms(1) 3] obtain b' where b': "buffer_read_adv b n = Inr b'" "buffer_inv b'"
      "buffer_content b' = drop (nat n) (buffer_content b)" "buf_limit b' = buf_limit b" by blast
    from buffer_read_adv_room [OF assms(1) 3 b'(1)] buffer_read_adv_memory [OF b'(1) assms(1)] b' 3 assms(1) show ?thesis
      by (simp add: Skip same_queue_def buffer_view_def Let_def)
  qed
next
  case Compact
  then show ?thesis
    using buffer_compact_spec [OF buffer_inv_bounds [OF assms(1)]] buffer_compact_memory [OF buffer_inv_bounds [OF assms(1)]]
      assms(1) by (simp add: same_queue_def buffer_view_def)
next
  case Reset
  then show ?thesis
    using buffer_reset_spec [OF assms(1)] by (simp add: same_queue_def buffer_view_def buffer_free_def buffer_reset_def)
qed (use assms(1) in \<open>simp_all add: same_queue_def buffer_view_def buffer_can_write_iff buffer_can_read_iff\<close>)

lemma buffer_run_refines:
  "buffer_inv b \<Longrightarrow> \<forall>p \<in> set ps. stored p \<Longrightarrow> same_queue (buf_limit b) (length (buf_data b)) (buffer_run ps b)
     (queue_run (buf_limit b) (length (buf_data b)) ps (buffer_view b))"
proof (induction ps arbitrary: b)
  case Nil
  then show ?case by (simp add: same_queue_def)
next
  case (Cons p ps)
  have p: "stored p" using Cons.prems(2) by simp
  show ?case
  proof (cases "buffer_step p b")
    case (Inl e)
    then show ?thesis using buffer_step_refines [OF Cons.prems(1) p] by (simp add: same_queue_def)
  next
    case (Inr r)
    obtain out b' where r: "r = (out, b')" by (cases r)
    then have s: "queue_step (buf_limit b) (length (buf_data b)) p (buffer_view b) = Inr (out, buffer_view b')" "buffer_inv b'"
        "buf_limit b' = buf_limit b" "length (buf_data b') = length (buf_data b)"
      using buffer_step_refines [OF Cons.prems(1) p] Inr by (auto simp: same_queue_def)
    show ?thesis
      using Cons.IH [OF s(2)] Cons.prems(2) Inr r s by (cases "buffer_run ps b'") (auto simp: same_queue_def)
  qed
qed

end
