(* ===== verification/MyParser.thy ===== *)
theory MyParser
  imports Buffer
begin

text \<open>
  \<open>src/src/myParser.c\<close>: the table-driven byte parser of the username/password negotiation
  and of the management requests. A block of memory is a byte list, NULL is \<open>None\<close>; an access
  outside a block or through NULL is \<open>Inl Undefined\<close>. Members the code leaves uninitialised
  and writes before it reads are \<open>None\<close> or 0. \<open>alloc i n\<close> is the answer of the \<open>malloc(n)\<close> that
  \<open>parser_feed\<close> issues for the state of index \<open>i\<close>: NULL or a block with any contents.
\<close>

section \<open>Structures\<close>

datatype parser_state = single_read | read_N | long_read | done_read | error_read

type_synonym check = "byte list \<Rightarrow> byte \<Rightarrow> byte \<Rightarrow> bool \<times> byte"

record parser_substate =
  ps_state :: parser_state
  ps_result :: "byte list option"
  ps_check :: "check option"
  ps_size :: byte
  ps_remaining :: byte

record parser =
  p_index :: byte
  p_size :: byte
  p_current :: parser_state
  p_states :: "parser_substate list"
  p_error :: byte

type_synonym allocator = "byte \<Rightarrow> nat \<Rightarrow> byte list option"

text \<open>What \<open>malloc\<close> promises: a block of the requested size.\<close>

definition allocator_ok :: "allocator \<Rightarrow> bool" where
  "allocator_ok alloc \<longleftrightarrow> (\<forall>i n m. alloc i n = Some m \<longrightarrow> length m = n)"

section \<open>Operations\<close>

definition substate_at :: "parser \<Rightarrow> byte \<Rightarrow> parser_substate res" where
  "substate_at p i =
     (if unat i < length (p_states p) then Inr (p_states p ! unat i) else Inl Undefined)"

definition put_substate :: "byte \<Rightarrow> parser_substate \<Rightarrow> parser \<Rightarrow> parser" where
  "put_substate i s p = p\<lparr>p_states := (p_states p)[unat i := s]\<rparr>"

definition store_at :: "int \<Rightarrow> byte \<Rightarrow> byte list option \<Rightarrow> byte list res" where
  "store_at i b r =
     (case r of
        None \<Rightarrow> Inl Undefined
      | Some m \<Rightarrow> if 0 \<le> i \<and> nat i < length m then Inr (m[nat i := b]) else Inl Undefined)"

definition parser_init :: "parser \<Rightarrow> parser res" where
  "parser_init p =
     bind_res (substate_at p 0) (\<lambda>s. Inr (p\<lparr>p_current := ps_state s, p_index := 0, p_error := 0\<rparr>))"

text \<open>The step to the next state: the range check comes before the load of the state.\<close>

definition next_state :: "parser \<Rightarrow> parser res" where
  "next_state p =
     (let p1 = p\<lparr>p_index := p_index p + 1\<rparr>
      in if p_index p1 \<ge> p_size p1 then Inr (p1\<lparr>p_current := done_read\<rparr>)
         else bind_res (substate_at p1 (p_index p1)) (\<lambda>s. Inr (p1\<lparr>p_current := ps_state s\<rparr>)))"

text \<open>In the case \<open>single_read\<close> the load comes first, and also happens past the last state.\<close>

definition next_state_single :: "parser \<Rightarrow> parser res" where
  "next_state_single p =
     (let p1 = p\<lparr>p_index := p_index p + 1\<rparr>
      in bind_res (substate_at p1 (p_index p1)) (\<lambda>s.
           Inr (p1\<lparr>p_current := (if p_index p1 \<ge> p_size p1 then done_read else ps_state s)\<rparr>)))"

definition feed_single_read :: "parser \<Rightarrow> parser_substate \<Rightarrow> byte \<Rightarrow> parser res" where
  "feed_single_read p s b =
     bind_res (store_at 0 b (ps_result s)) (\<lambda>m.
     let s1 = s\<lparr>ps_result := Some m\<rparr>; p1 = put_substate (p_index p) s1 p
     in case ps_check s of
          None \<Rightarrow> next_state_single p1
        | Some chk \<Rightarrow>
            (let (ok, err) = chk m 1 (p_error p); p2 = p1\<lparr>p_error := err\<rparr>
             in if ok then next_state_single p2
                else Inr (put_substate (p_index p) (s1\<lparr>ps_state := error_read\<rparr>) p2)))"

definition feed_read_N :: "allocator \<Rightarrow> parser \<Rightarrow> byte \<Rightarrow> parser res" where
  "feed_read_N alloc p b =
     (let p1 = p\<lparr>p_index := p_index p + 1\<rparr>; i = p_index p1
      in if i \<ge> p_size p1 then Inr (p1\<lparr>p_current := error_read\<rparr>)
         else bind_res (substate_at p1 i) (\<lambda>s.
              let s1 = s\<lparr>ps_remaining := b, ps_size := b\<rparr>;
                  p2 = p1\<lparr>p_current := ps_state s\<rparr>
              in if ps_remaining s1 \<le> 0
                 then bind_res (store_at 0 0 (alloc i 1)) (\<lambda>m.
                        next_state (put_substate i (s1\<lparr>ps_result := Some m\<rparr>) p2))
                 else Inr (put_substate i (s1\<lparr>ps_result := alloc i (unat (ps_size s1) + 1)\<rparr>) p2)))"

definition feed_long_read :: "parser \<Rightarrow> parser_substate \<Rightarrow> byte \<Rightarrow> parser res" where
  "feed_long_read p s b =
     bind_res (store_at (uint (ps_size s) - uint (ps_remaining s)) b (ps_result s)) (\<lambda>m.
     let s1 = s\<lparr>ps_result := Some m, ps_remaining := ps_remaining s - 1\<rparr>
     in if ps_remaining s1 \<le> 0
        then bind_res (store_at (uint (ps_size s)) 0 (Some m)) (\<lambda>m'.
             let s2 = s1\<lparr>ps_result := Some m'\<rparr>; p1 = put_substate (p_index p) s2 p
             in case ps_check s of
                  None \<Rightarrow> next_state p1
                | Some chk \<Rightarrow>
                    (let (ok, err) = chk m' (ps_size s) (p_error p); p2 = p1\<lparr>p_error := err\<rparr>
                     in if ok then next_state p2 else Inr (p2\<lparr>p_current := error_read\<rparr>)))
        else Inr (put_substate (p_index p) s1 p))"

definition parser_feed :: "allocator \<Rightarrow> parser \<Rightarrow> byte \<Rightarrow> (parser_state \<times> parser) res" where
  "parser_feed alloc p b =
     bind_res (substate_at p (p_index p)) (\<lambda>s.
     bind_res (case p_current p of
                 single_read \<Rightarrow> feed_single_read p s b
               | read_N \<Rightarrow> feed_read_N alloc p b
               | long_read \<Rightarrow> feed_long_read p s b
               | done_read \<Rightarrow> Inr p
               | error_read \<Rightarrow> Inr p) (\<lambda>p'. Inr (p_current p', p')))"

text \<open>\<open>is_done(st, error)\<close>: the returned flag, and what it leaves in \<open>*error\<close>.\<close>

definition is_done :: "parser_state \<Rightarrow> bool" where
  "is_done st \<longleftrightarrow> st = error_read \<or> st = done_read"

definition is_done_error :: "parser_state \<Rightarrow> bool \<Rightarrow> bool" where
  "is_done_error st error \<longleftrightarrow> (if st = error_read then True else error)"

type_synonym consume_state = "parser \<times> parser_state \<times> bool"

function consume_from :: "allocator \<Rightarrow> buffer \<Rightarrow> consume_state \<Rightarrow> (consume_state \<times> buffer) res" where
  "consume_from alloc b (p, st, error) =
     (if buffer_can_read b
      then bind_res (buffer_read b) (\<lambda>(x, b').
           bind_res (parser_feed alloc p x) (\<lambda>(st', p').
             let error' = is_done_error st' error
             in if is_done st' then Inr ((p', st', error'), b')
                else consume_from alloc b' (p', st', error')))
      else Inr ((p, st, error), b))"
  by pat_completeness auto
termination
  by (relation "measure (\<lambda>(alloc, b, c). buf_write b - buf_read b)") (auto dest: buffer_read_decreases)

declare consume_from.simps [simp del]

definition consume :: "allocator \<Rightarrow> buffer \<Rightarrow> parser \<Rightarrow> bool \<Rightarrow> (consume_state \<times> buffer) res" where
  "consume alloc b p error =
     bind_res (substate_at p 0) (\<lambda>s. consume_from alloc b (p, ps_state s, error))"

text \<open>The same loop as an instance of the interface.\<close>

definition consume_feed :: "allocator \<Rightarrow> consume_state \<Rightarrow> byte \<Rightarrow> consume_state res" where
  "consume_feed alloc c x =
     (case c of (p, st, error) \<Rightarrow>
        bind_res (parser_feed alloc p x) (\<lambda>(st', p'). Inr (p', st', is_done_error st' error)))"

definition consume_stop :: "consume_state \<Rightarrow> bool" where
  "consume_stop c = (case c of (p, st, error) \<Rightarrow> is_done st)"

interpretation mp: consume_loop buffer_inv buffer_content buffer_can_read buffer_read
  "consume_feed alloc" consume_stop "consume_from alloc" for alloc
proof unfold_locales
  fix b :: buffer and c :: consume_state
  obtain p st error where c: "c = (p, st, error)" by (cases c)
  show "consume_from alloc b c =
     (if buffer_can_read b
      then bind_res (buffer_read b) (\<lambda>(x, b'). bind_res (consume_feed alloc c x) (\<lambda>c'.
             if consume_stop c' then Inr (c', b') else consume_from alloc b' c'))
      else Inr (c, b))"
    unfolding c
    by (subst consume_from.simps)
      (auto simp: consume_feed_def consume_stop_def bind_res_assoc Let_def split_def)
qed

section \<open>Reading a whole field\<close>

definition parser_wf :: "parser \<Rightarrow> bool" where
  "parser_wf p \<longleftrightarrow> length (p_states p) = unat (p_size p)"

lemma parser_wf_put [simp]: "parser_wf (put_substate i s p) = parser_wf p"
  by (simp add: parser_wf_def put_substate_def)

lemma put_substate_simps [simp]:
  "p_index (put_substate i s p) = p_index p"
  "p_size (put_substate i s p) = p_size p"
  "p_current (put_substate i s p) = p_current p"
  "p_error (put_substate i s p) = p_error p"
  "put_substate i s' (put_substate i s p) = put_substate i s' p"
  "length (p_states (put_substate i s p)) = length (p_states p)"
  by (simp_all add: put_substate_def)

lemma substate_at_put [simp]:
  "unat i < length (p_states p) \<Longrightarrow> substate_at (put_substate i s p) i = Inr s"
  by (simp add: substate_at_def put_substate_def)

lemma store_at_Some [simp]:
  "0 \<le> i \<Longrightarrow> nat i < length m \<Longrightarrow> store_at i b (Some m) = Inr (m[nat i := b])"
  by (simp add: store_at_def)

lemma byte_le_0 [simp]: "(r :: byte) \<le> 0 \<longleftrightarrow> r = 0"
  by (simp add: word_le_nat_alt unat_eq_0)

lemma unat_minus_1_byte: "(r :: byte) \<noteq> 0 \<Longrightarrow> unat (r - 1) = unat r - 1"
  by (simp add: unat_minus_one)

lemma uint_diff_nat:
  "unat (r :: byte) \<le> unat (q :: byte) \<Longrightarrow>
     0 \<le> uint q - uint r \<and> nat (uint q - uint r) = unat q - unat r"
  unfolding uint_nat by linarith

text \<open>What the last byte of a long read does: store the terminator, run the check, go on.\<close>

definition field_end :: "parser \<Rightarrow> parser_substate \<Rightarrow> byte list \<Rightarrow> parser res" where
  "field_end p s m =
     (let p1 = put_substate (p_index p) (s\<lparr>ps_remaining := 0, ps_result := Some m\<rparr>) p
      in case ps_check s of
           None \<Rightarrow> next_state p1
         | Some chk \<Rightarrow>
             (let (ok, err) = chk m (ps_size s) (p_error p); p2 = p1\<lparr>p_error := err\<rparr>
              in if ok then next_state p2 else Inr (p2\<lparr>p_current := error_read\<rparr>)))"

text \<open>The rest of the loop after a step that led to the parser \<open>p\<close>.\<close>

definition consume_rest :: "allocator \<Rightarrow> byte list \<Rightarrow> bool \<Rightarrow> parser \<Rightarrow> (consume_state \<times> byte list) res" where
  "consume_rest alloc ys error p =
     (let c = (p, p_current p, is_done_error (p_current p) error)
      in if is_done (p_current p) then Inr (c, ys)
         else feed_bytes (consume_feed alloc) consume_stop ys c)"

lemma feed_bytes_consume:
  "parser_feed alloc p x = bind_res m (\<lambda>p'. Inr (p_current p', p')) \<Longrightarrow>
     feed_bytes (consume_feed alloc) consume_stop (x # ys) (p, st, error) =
     bind_res m (consume_rest alloc ys error)"
  by (cases m) (simp_all add: consume_feed_def consume_stop_def consume_rest_def Let_def)

lemma parser_feed_long_read:
  "p_current p = long_read \<Longrightarrow> substate_at p (p_index p) = Inr s \<Longrightarrow>
     parser_feed alloc p x = bind_res (feed_long_read p s x) (\<lambda>p'. Inr (p_current p', p'))"
  by (simp add: parser_feed_def)

lemma feed_long_read_last:
  assumes "ps_result s = Some m" and "length m = unat (ps_size s) + 1" and "ps_remaining s = 1"
    and "1 \<le> unat (ps_size s)"
  shows "feed_long_read p s x = field_end p s (take (unat (ps_size s) - 1) m @ [x, 0])"
proof -
  let ?n = "unat (ps_size s)"
  have i: "0 \<le> uint (ps_size s) - uint (1 :: byte)" "nat (uint (ps_size s) - uint (1 :: byte)) = ?n - 1"
    using uint_diff_nat [of 1 "ps_size s"] assms(4) by simp_all
  have "m[?n - 1 := x, ?n := 0] = take (?n - 1) m @ [x, 0]"
    using assms(2,4) by (intro nth_equalityI) (auto simp: nth_list_update nth_append nth_Cons')
  then show ?thesis
    using assms i by (simp add: feed_long_read_def field_end_def Let_def unat_eq_nat_uint [symmetric])
qed

lemma feed_long_read_more:
  assumes "ps_result s = Some m" and "length m = unat (ps_size s) + 1"
    and "1 < unat (ps_remaining s)" and "unat (ps_remaining s) \<le> unat (ps_size s)"
  shows "feed_long_read p s x = Inr (put_substate (p_index p)
     (s\<lparr>ps_result := Some (m[unat (ps_size s) - unat (ps_remaining s) := x]),
        ps_remaining := ps_remaining s - 1\<rparr>) p)"
proof -
  have "ps_remaining s - 1 \<noteq> 0"
    using assms(3) unat_minus_1_byte [of "ps_remaining s"] by (auto simp: unat_eq_0 [symmetric])
  then show ?thesis
    using assms uint_diff_nat [OF assms(4)] by (simp add: feed_long_read_def Let_def)
qed

lemma field_end_put:
  "field_end (put_substate (p_index p) t p) (s\<lparr>ps_result := r, ps_remaining := q\<rparr>) m = field_end p s m"
  by (cases "ps_check s") (simp_all add: field_end_def Let_def)

lemma substate_at_index: "substate_at p i = Inr s \<Longrightarrow> unat i < length (p_states p)"
  by (simp add: substate_at_def split: if_splits)

lemma consume_long_read:
  assumes "p_current p = long_read" and "substate_at p (p_index p) = Inr s"
    and "ps_result s = Some m" and "length m = unat (ps_size s) + 1"
    and "unat (ps_remaining s) = length xs" and "xs \<noteq> []" and "length xs \<le> unat (ps_size s)"
  shows "feed_bytes (consume_feed alloc) consume_stop (xs @ ys) (p, st, error) =
     bind_res (field_end p s (take (unat (ps_size s) - length xs) m @ xs @ [0]))
       (consume_rest alloc ys error)"
  using assms
proof (induction xs arbitrary: p s m st)
  case Nil
  then show ?case by simp
next
  case (Cons x xs)
  let ?n = "unat (ps_size s)"
  have feed: "parser_feed alloc p x = bind_res (feed_long_read p s x) (\<lambda>p'. Inr (p_current p', p'))"
    using Cons.prems by (simp add: parser_feed_long_read)
  show ?case
  proof (cases "xs = []")
    case True
    have "ps_remaining s = 1"
      using Cons.prems(5) True by (simp add: unat_byte_eq_1)
    then have "feed_long_read p s x = field_end p s (take (?n - 1) m @ [x, 0])"
      using Cons.prems True by (intro feed_long_read_last) auto
    then show ?thesis
      using feed_bytes_consume [OF feed, of ys st error] True by simp
  next
    case False
    then have rem: "1 < unat (ps_remaining s)" "unat (ps_remaining s) \<le> ?n"
      using Cons.prems(5,7) by (cases xs; simp)+
    define s' where "s' = s\<lparr>ps_result := Some (m[?n - length (x # xs) := x]), ps_remaining := ps_remaining s - 1\<rparr>"
    define p' where "p' = put_substate (p_index p) s' p"
    have step: "feed_long_read p s x = Inr p'"
      using feed_long_read_more [OF Cons.prems(3,4) rem] Cons.prems(5) by (simp add: p'_def s'_def)
    have cur: "p_current p' = long_read" using Cons.prems(1) by (simp add: p'_def)
    have sub: "substate_at p' (p_index p') = Inr s'"
      using substate_at_index [OF Cons.prems(2)] by (simp add: p'_def)
    have nz: "ps_remaining s \<noteq> 0" using rem by (auto simp: unat_eq_0 [symmetric])
    have rem': "unat (ps_remaining s') = length xs"
      using Cons.prems(5) by (simp add: s'_def unat_minus_1_byte [OF nz])
    have mem: "take (?n - length xs) (m[?n - length (x # xs) := x]) = take (?n - length (x # xs)) m @ [x]"
    proof -
      have e: "?n - length xs = Suc (?n - length (x # xs))" using Cons.prems(7) by simp
      show ?thesis unfolding e
        using Cons.prems(4,7) by (subst take_Suc_conv_app_nth) simp_all
    qed
    have "feed_bytes (consume_feed alloc) consume_stop ((x # xs) @ ys) (p, st, error) =
        consume_rest alloc (xs @ ys) error p'"
      using feed_bytes_consume [OF feed, of "xs @ ys" st error] step by simp
    also have "\<dots> = feed_bytes (consume_feed alloc) consume_stop (xs @ ys) (p', long_read, error)"
      by (simp add: consume_rest_def cur is_done_def is_done_error_def)
    also have "\<dots> = bind_res (field_end p' s' (take (?n - length xs) (m[?n - length (x # xs) := x]) @ xs @ [0]))
         (consume_rest alloc ys error)"
      by (subst Cons.IH [OF cur sub _ _ rem' False])
        (use Cons.prems in \<open>simp_all add: s'_def\<close>)
    also have "field_end p' s' (take (?n - length xs) (m[?n - length (x # xs) := x]) @ xs @ [0]) =
        field_end p s (take (?n - length (x # xs)) m @ (x # xs) @ [0])"
      using field_end_put [where p = p and t = s' and s = s] mem by (simp add: p'_def s'_def)
    finally show ?thesis .
  qed
qed

lemma substate_update_order:
  "s\<lparr>ps_size := a, ps_remaining := b\<rparr> = s\<lparr>ps_remaining := b, ps_size := a\<rparr>"
  by (cases s) simp

text \<open>
  A length byte and the field it announces, for a field without a check: the parser stores
  the field with a terminator and goes on, whatever the contents of the allocated block.
\<close>

definition field_stored :: "parser \<Rightarrow> byte \<Rightarrow> byte list \<Rightarrow> parser" where
  "field_stored p i xs =
     put_substate i ((p_states p ! unat i)\<lparr>ps_remaining := 0, ps_size := of_nat (length xs),
         ps_result := Some (xs @ [0])\<rparr>) (p\<lparr>p_index := i, p_current := long_read\<rparr>)"

lemma consume_counted_field:
  fixes p :: parser
  defines "i \<equiv> p_index p + 1"
  assumes "parser_wf p" and "p_current p = read_N" and "unat (p_index p) + 1 < length (p_states p)"
    and "ps_state (p_states p ! unat i) = long_read" and "ps_check (p_states p ! unat i) = None"
    and "allocator_ok alloc" and "alloc i (length xs + 1) \<noteq> None" and "length xs < 256"
  shows "feed_bytes (consume_feed alloc) consume_stop (of_nat (length xs) # xs @ ys) (p, st, error) =
     bind_res (next_state (field_stored p i xs)) (consume_rest alloc ys error)"
proof -
  let ?b = "of_nat (length xs) :: byte" and ?s = "p_states p ! unat i"
  have ui: "unat i = unat (p_index p) + 1"
    using assms(4) unat_byte_less [of "p_size p"] \<open>parser_wf p\<close>
    unfolding i_def parser_wf_def by (intro unat_byte_Suc) linarith
  then have lt: "unat i < length (p_states p)" and nge: "\<not> p_size p \<le> i"
    using assms(4) \<open>parser_wf p\<close> by (simp_all add: parser_wf_def word_le_nat_alt)
  have ub: "unat ?b = length xs" using assms(9) by (simp add: unat_of_nat)
  obtain m where m: "alloc i (length xs + 1) = Some m" "length m = length xs + 1"
    using assms(7,8) by (auto simp: allocator_ok_def)
  define s1 where "s1 = ?s\<lparr>ps_remaining := ?b, ps_size := ?b\<rparr>"
  define p2 where "p2 = p\<lparr>p_index := i, p_current := long_read\<rparr>"
  have sub0: "substate_at p (p_index p) = Inr (p_states p ! unat (p_index p))"
    using assms(4) by (simp add: substate_at_def)
  have subi: "substate_at (p\<lparr>p_index := i\<rparr>) i = Inr ?s" using lt by (simp add: substate_at_def)
  have feed: "parser_feed alloc p ?b = bind_res (feed_read_N alloc p ?b) (\<lambda>p'. Inr (p_current p', p'))"
    using assms(3) sub0 by (simp add: parser_feed_def)
  show ?thesis
  proof (cases "xs = []")
    case True
    then have m0: "alloc i 1 = Some m" "length m = 1" using m by simp_all
    then have "store_at 0 0 (alloc i 1) = Inr [0]" by (cases m) (auto simp: store_at_def)
    then have "feed_read_N alloc p ?b = next_state (field_stored p i xs)"
      using nge subi True assms(5)
      by (simp add: feed_read_N_def field_stored_def Let_def i_def [symmetric])
    then show ?thesis
      using feed_bytes_consume [OF feed, of "xs @ ys" st error] True by simp
  next
    case False
    then have nb: "?b \<noteq> 0" using ub by (auto simp: unat_eq_0 [symmetric])
    define p3 where "p3 = put_substate i (s1\<lparr>ps_result := Some m\<rparr>) p2"
    have "feed_read_N alloc p ?b = Inr p3"
      using nge subi nb assms(5) ub m(1)
      by (simp add: feed_read_N_def Let_def i_def [symmetric] p3_def s1_def p2_def)
    then have "feed_bytes (consume_feed alloc) consume_stop (?b # xs @ ys) (p, st, error) =
        consume_rest alloc (xs @ ys) error p3"
      using feed_bytes_consume [OF feed, of "xs @ ys" st error] by simp
    also have "\<dots> = feed_bytes (consume_feed alloc) consume_stop (xs @ ys) (p3, long_read, error)"
      by (simp add: consume_rest_def p3_def p2_def is_done_def is_done_error_def)
    also have "\<dots> = bind_res (field_end p3 (s1\<lparr>ps_result := Some m\<rparr>) (xs @ [0])) (consume_rest alloc ys error)"
      by (subst consume_long_read [where s = "s1\<lparr>ps_result := Some m\<rparr>" and m = m])
        (use False lt m(2) ub in \<open>simp_all add: p3_def p2_def s1_def\<close>)
    also have "field_end p3 (s1\<lparr>ps_result := Some m\<rparr>) (xs @ [0]) = next_state (field_stored p i xs)"
      using assms(6) by (simp add: field_end_def p3_def p2_def s1_def field_stored_def substate_update_order)
    finally show ?thesis .
  qed
qed

end
