(* ===== verification/Hello_Parser.thy ===== *)
theory Hello_Parser
  imports Buffer
begin

text \<open>
  The parser and the reply of the HELLO stage (\<open>src/src/Etapas/hello.c\<close>,
  \<open>src/include/hello.h\<close>). The cell that the parser's \<open>data\<close> pointer designates (the member
  \<open>method\<close> of the stage) travels beside the parser. The callback receives the parser's
  preferred method, the offered method and the cell.
\<close>

section \<open>The parser\<close>

definition SOCKS_VERSION :: byte where "SOCKS_VERSION = 0x05"
definition MNG_VERSION :: byte where "MNG_VERSION = 0x01"
definition MNG_AUTH_METHOD :: byte where "MNG_AUTH_METHOD = 0x02"
definition METHOD_NO_AUTHENTICATION_REQUIRED :: byte where "METHOD_NO_AUTHENTICATION_REQUIRED = 0x00"
definition METHOD_NO_ACCEPTABLE_METHODS :: byte where "METHOD_NO_ACCEPTABLE_METHODS = 0xFF"
definition METHOD_USERNAME_PASSWORD :: byte where "METHOD_USERNAME_PASSWORD = 0x02"

lemmas hello_constants =
  SOCKS_VERSION_def MNG_VERSION_def MNG_AUTH_METHOD_def METHOD_NO_AUTHENTICATION_REQUIRED_def
  METHOD_NO_ACCEPTABLE_METHODS_def METHOD_USERNAME_PASSWORD_def

datatype hello_state =
  hello_version | hello_nmethods | hello_methods | hello_done | hello_error_unsupported_version

record hello_parser =
  hp_on_method :: "(byte \<Rightarrow> byte \<Rightarrow> byte \<Rightarrow> byte) option"
  hp_version :: byte
  hp_method :: byte
  hp_state :: hello_state
  hp_remaining :: byte

definition hello_parser_init :: "hello_parser \<Rightarrow> hello_parser" where
  "hello_parser_init p = p\<lparr>hp_state := hello_version, hp_remaining := 0\<rparr>"

definition on_hello_method :: "byte \<Rightarrow> byte \<Rightarrow> byte \<Rightarrow> byte" where
  "on_hello_method preferred method cell = (if preferred = method then method else cell)"

definition hello_parser_feed ::
    "hello_parser \<Rightarrow> byte \<Rightarrow> byte \<Rightarrow> hello_state \<times> hello_parser \<times> byte" where
  "hello_parser_feed p cell b =
     (case hp_state p of
        hello_version \<Rightarrow>
          (let st = (if b = hp_version p then hello_nmethods else hello_error_unsupported_version)
           in (st, p\<lparr>hp_state := st\<rparr>, cell))
      | hello_nmethods \<Rightarrow>
          (let st = (if b \<le> 0 then hello_done else hello_methods)
           in (st, p\<lparr>hp_remaining := b, hp_state := st\<rparr>, cell))
      | hello_methods \<Rightarrow>
          (let cell' = (case hp_on_method p of None \<Rightarrow> cell | Some f \<Rightarrow> f (hp_method p) b cell);
               r = hp_remaining p - 1;
               st = (if r \<le> 0 then hello_done else hello_methods)
           in (st, p\<lparr>hp_remaining := r, hp_state := st\<rparr>, cell'))
      | hello_done \<Rightarrow> (hello_done, p, cell)
      | hello_error_unsupported_version \<Rightarrow> (hello_error_unsupported_version, p, cell))"

definition hello_is_done :: "hello_state \<Rightarrow> bool" where
  "hello_is_done st \<longleftrightarrow> st = hello_error_unsupported_version \<or> st = hello_done"

definition hello_is_done_error :: "hello_state \<Rightarrow> bool \<Rightarrow> bool" where
  "hello_is_done_error st error \<longleftrightarrow> (if st = hello_error_unsupported_version then True else error)"

text \<open>The loop state: parser, cell, \<open>st\<close> and \<open>*error\<close>.\<close>

type_synonym hello_consume_state = "hello_parser \<times> byte \<times> hello_state \<times> bool"

function hello_consume_from ::
    "buffer \<Rightarrow> hello_consume_state \<Rightarrow> (hello_consume_state \<times> buffer) res" where
  "hello_consume_from b (p, cell, st, error) =
     (if buffer_can_read b
      then bind_res (buffer_read b) (\<lambda>(x, b').
             case hello_parser_feed p cell x of (st', p', cell') \<Rightarrow>
             let error' = hello_is_done_error st' error
             in if hello_is_done st' then Inr ((p', cell', st', error'), b')
                else hello_consume_from b' (p', cell', st', error'))
      else Inr ((p, cell, st, error), b))"
  by pat_completeness auto
termination
  by (relation "measure (\<lambda>(b, c). buf_write b - buf_read b)") (auto dest: buffer_read_decreases)

declare hello_consume_from.simps [simp del]

definition hello_consume ::
    "buffer \<Rightarrow> hello_parser \<Rightarrow> byte \<Rightarrow> bool \<Rightarrow> (hello_consume_state \<times> buffer) res" where
  "hello_consume b p cell error = hello_consume_from b (p, cell, hp_state p, error)"

definition hello_feed :: "hello_consume_state \<Rightarrow> byte \<Rightarrow> hello_consume_state res" where
  "hello_feed c x =
     (case c of (p, cell, st, error) \<Rightarrow>
        case hello_parser_feed p cell x of (st', p', cell') \<Rightarrow>
          Inr (p', cell', st', hello_is_done_error st' error))"

definition hello_stop :: "hello_consume_state \<Rightarrow> bool" where
  "hello_stop c = (case c of (p, cell, st, error) \<Rightarrow> hello_is_done st)"

interpretation hp: consume_loop buffer_inv buffer_content buffer_can_read buffer_read
  hello_feed hello_stop hello_consume_from
proof unfold_locales
  fix b :: buffer and c :: hello_consume_state
  obtain p cell st error where c: "c = (p, cell, st, error)" by (cases c)
  show "hello_consume_from b c =
     (if buffer_can_read b
      then bind_res (buffer_read b) (\<lambda>(x, b'). bind_res (hello_feed c x) (\<lambda>c'.
             if hello_stop c' then Inr (c', b') else hello_consume_from b' c'))
      else Inr (c, b))"
    unfolding c
    by (subst hello_consume_from.simps)
      (auto simp: hello_feed_def hello_stop_def Let_def split_def)
qed

section \<open>The reply\<close>

definition hello_marshal :: "buffer \<Rightarrow> byte \<Rightarrow> byte \<Rightarrow> (int \<times> buffer) res" where
  "hello_marshal b method version =
     bind_res (buffer_write_ptr b) (\<lambda>(p, n).
       if n < 2 then Inr (-1, b)
       else bind_res (buffer_put b [version, method]) (\<lambda>b'. Inr (2, b')))"

lemma hello_marshal_spec:
  assumes "buffer_inv b"
  shows "buffer_free b < 2 \<Longrightarrow> hello_marshal b m v = Inr (-1, b)"
    and "2 \<le> buffer_free b \<Longrightarrow> \<exists>b'. hello_marshal b m v = Inr (2, b') \<and> buffer_inv b' \<and>
           buffer_content b' = buffer_content b @ [v, m]"
  using assms buffer_put_spec [OF assms, of "[v, m]"] by (auto simp: hello_marshal_def)

section \<open>The negotiation as a function of the whole message\<close>

text \<open>What the callback of the list of methods leaves in the cell.\<close>

definition choose_method :: "byte \<Rightarrow> byte list \<Rightarrow> byte \<Rightarrow> byte" where
  "choose_method preferred ms cell = (if preferred \<in> set ms then preferred else cell)"

definition hello_ready :: "byte \<Rightarrow> byte \<Rightarrow> hello_parser" where
  "hello_ready v m = \<lparr>hp_on_method = Some on_hello_method, hp_version = v, hp_method = m,
     hp_state = hello_version, hp_remaining = 0\<rparr>"

lemma choose_method_Cons:
  "choose_method m (x # xs) cell = choose_method m xs (on_hello_method m x cell)"
  by (auto simp: choose_method_def on_hello_method_def)

lemma hello_feed_methods:
  assumes "hp_state p = hello_methods" and "hp_on_method p = Some on_hello_method"
    and "unat (hp_remaining p) = length ms" and "ms \<noteq> []"
  shows "feed_bytes hello_feed hello_stop (ms @ rest) (p, cell, st, error) =
    Inr ((p\<lparr>hp_remaining := 0, hp_state := hello_done\<rparr>, choose_method (hp_method p) ms cell,
          hello_done, error), rest)"
  using assms
proof (induction ms arbitrary: p cell st)
  case Nil
  then show ?case by simp
next
  case (Cons x xs)
  have r: "unat (hp_remaining p - 1) = length xs"
    using Cons.prems(3) by (subst unat_minus_one) auto
  show ?case
  proof (cases "xs = []")
    case True
    then have z: "hp_remaining p - 1 = 0" using r by (simp add: unat_eq_0)
    show ?thesis
      using Cons.prems True z
      by (simp add: hello_feed_def hello_parser_feed_def hello_stop_def hello_is_done_def
          hello_is_done_error_def Let_def choose_method_def on_hello_method_def)
  next
    case False
    then have z: "hp_remaining p - 1 \<noteq> 0" using r by (auto simp: unat_eq_0 [symmetric])
    let ?p = "p\<lparr>hp_remaining := hp_remaining p - 1, hp_state := hello_methods\<rparr>"
    have "hello_feed (p, cell, st, error) x =
        Inr (?p, on_hello_method (hp_method p) x cell, hello_methods, error)"
      using Cons.prems z
      by (simp add: hello_feed_def hello_parser_feed_def hello_is_done_error_def Let_def word_le_nat_alt unat_eq_0)
    then show ?thesis
      using Cons.IH [of ?p "on_hello_method (hp_method p) x cell" hello_methods] Cons.prems r False
      by (simp add: hello_stop_def hello_is_done_def choose_method_Cons)
  qed
qed

lemma hello_feed_message:
  assumes "length ms < 256"
  shows "feed_bytes hello_feed hello_stop (v # of_nat (length ms) # ms @ rest)
      (hello_ready v m, cell, st, error) =
    Inr (((hello_ready v m)\<lparr>hp_state := hello_done\<rparr>, choose_method m ms cell, hello_done, error), rest)"
proof (cases "ms = []")
  case True
  then show ?thesis
    by (simp add: hello_feed_def hello_parser_feed_def hello_stop_def hello_is_done_def
        hello_is_done_error_def hello_ready_def choose_method_def)
next
  case False
  let ?n = "of_nat (length ms) :: byte"
  let ?p = "(hello_ready v m)\<lparr>hp_remaining := ?n, hp_state := hello_methods\<rparr>"
  have nz: "\<not> ?n \<le> 0" using assms False by (simp add: word_le_nat_alt)
  have "feed_bytes hello_feed hello_stop (ms @ rest) (?p, cell, hello_methods, error) =
    Inr ((?p\<lparr>hp_remaining := 0, hp_state := hello_done\<rparr>, choose_method m ms cell, hello_done, error), rest)"
    using hello_feed_methods [of ?p ms rest cell hello_methods error] assms False
    by (simp add: hello_ready_def)
  then show ?thesis
    using nz by (simp add: hello_feed_def hello_parser_feed_def hello_stop_def hello_is_done_def
        hello_is_done_error_def hello_ready_def)
qed

lemma hello_feed_bad_version:
  assumes "x \<noteq> v"
  shows "feed_bytes hello_feed hello_stop (x # rest) (hello_ready v m, cell, st, error) =
    Inr (((hello_ready v m)\<lparr>hp_state := hello_error_unsupported_version\<rparr>, cell,
      hello_error_unsupported_version, True), rest)"
  using assms by (simp add: hello_feed_def hello_parser_feed_def hello_stop_def hello_is_done_def
        hello_is_done_error_def hello_ready_def)

lemma hello_feed_error:
  "feed_bytes hello_feed hello_stop xs (p, cell, st0, error) = Inr ((p', cell', st, e), rest) \<Longrightarrow>
     e \<longrightarrow> error \<or> hello_is_done st"
proof (induction xs arbitrary: p cell st0)
  case Nil
  then show ?case by simp
next
  case (Cons x xs)
  obtain st1 p1 c1 where f: "hello_parser_feed p cell x = (st1, p1, c1)" by (cases "hello_parser_feed p cell x")
  show ?case
  proof (cases "hello_is_done st1")
    case True
    then show ?thesis using Cons.prems f by (auto simp: hello_feed_def hello_stop_def)
  next
    case False
    then have "hello_is_done_error st1 error = error"
      by (auto simp: hello_is_done_def hello_is_done_error_def)
    then show ?thesis
      using Cons.prems Cons.IH [of p1 c1 st1] f False by (simp add: hello_feed_def hello_stop_def)
  qed
qed

end
