(* ===== verification/Request_Parser.thy ===== *)
theory Request_Parser
  imports Buffer
begin

text \<open>
  \<open>src/src/Etapas/request_parser.c\<close> and the consume loop of \<open>src/src/Etapas/request.c\<close>: the
  parser of the SOCKS request. The union of \<open>struct request\<close> is a datatype with one
  constructor per view; fresh memory is the view \<open>Dest_fqdn\<close> with any contents. Addresses and
  ports are kept as the bytes of the wire. An index outside an array is \<open>Inl Undefined\<close>, and so
  is every use of a NULL \<open>request\<close>.
\<close>

section \<open>Structures\<close>

definition IPV4_LEN :: byte where "IPV4_LEN = 4"
definition IPV6_LEN :: byte where "IPV6_LEN = 16"
definition MAX_FQDN_SIZE :: nat where "MAX_FQDN_SIZE = 255"

definition AF_UNSPEC :: int where "AF_UNSPEC = 0"
definition AF_INET :: int where "AF_INET = 2"
definition AF_INET6 :: int where "AF_INET6 = 10"

definition socks_req_cmd_connect :: byte where "socks_req_cmd_connect = 0x01"
definition socks_req_addrtype_ipv4 :: byte where "socks_req_addrtype_ipv4 = 0x01"
definition socks_req_addrtype_domain :: byte where "socks_req_addrtype_domain = 0x03"
definition socks_req_addrtype_ipv6 :: byte where "socks_req_addrtype_ipv6 = 0x04"

lemmas request_constants =
  IPV4_LEN_def IPV6_LEN_def MAX_FQDN_SIZE_def socks_req_cmd_connect_def
  socks_req_addrtype_ipv4_def socks_req_addrtype_domain_def socks_req_addrtype_ipv6_def

datatype request_state =
    request_version | request_cmd | request_rsv | request_atyp | request_dest_addr
  | request_dest_addr_fqdn | request_dest_port
  | request_done
  | request_error | request_error_unsupported_cmd | request_error_unsupported_type
  | request_error_unsupported_version

record sockaddr =
  sa_family :: int
  sa_port :: "byte list"
  sa_addr :: "byte list"

datatype request_dest = Dest_addr sockaddr | Dest_fqdn "byte list" int

record request =
  req_cmd :: byte
  req_atyp :: byte
  req_dest :: request_dest
  req_port :: "byte list"

record request_parser =
  rp_request :: "request option"
  rp_state :: request_state
  rp_remaining :: byte
  rp_read :: byte

section \<open>Operations\<close>

text \<open>\<open>block\<close> is the answer of \<open>malloc(sizeof(struct request))\<close>.\<close>

definition request_parser_init :: "request option \<Rightarrow> request_parser \<Rightarrow> int \<times> request_parser" where
  "request_parser_init block p =
     ((if block = None then -1 else 0),
      p\<lparr>rp_state := request_version, rp_read := 0, rp_remaining := 0, rp_request := block\<rparr>)"

definition request_parser_close :: "request_parser \<Rightarrow> request_parser" where
  "request_parser_close p = p\<lparr>rp_request := None\<rparr>"

definition remaining_set :: "request_parser \<Rightarrow> byte \<Rightarrow> request_parser" where
  "remaining_set p n = p\<lparr>rp_remaining := n, rp_read := 0\<rparr>"

definition remaining_is_done :: "request_parser \<Rightarrow> bool" where
  "remaining_is_done p \<longleftrightarrow> rp_read p \<ge> rp_remaining p"

definition with_request :: "request_parser \<Rightarrow> (request \<Rightarrow> 'a res) \<Rightarrow> 'a res" where
  "with_request p f = (case rp_request p of None \<Rightarrow> Inl Undefined | Some r \<Rightarrow> f r)"

definition put_request :: "request \<Rightarrow> request_parser \<Rightarrow> request_parser" where
  "put_request r p = p\<lparr>rp_request := Some r\<rparr>"

definition request_version_next :: "byte \<Rightarrow> request_state" where
  "request_version_next b = (if b = 0x05 then request_cmd else request_error_unsupported_version)"

definition request_cmd_next :: "request_parser \<Rightarrow> byte \<Rightarrow> (request_state \<times> request_parser) res" where
  "request_cmd_next p b =
     (if b = socks_req_cmd_connect
      then with_request p (\<lambda>r. Inr (request_rsv, put_request (r\<lparr>req_cmd := b\<rparr>) p))
      else Inr (request_error_unsupported_cmd, p))"

definition ipv4_address_init :: sockaddr where
  "ipv4_address_init = \<lparr>sa_family = AF_INET, sa_port = replicate 2 0, sa_addr = replicate 4 0\<rparr>"

definition ipv6_address_init :: sockaddr where
  "ipv6_address_init = \<lparr>sa_family = AF_INET6, sa_port = replicate 2 0, sa_addr = replicate 16 0\<rparr>"

definition address_type :: "request_parser \<Rightarrow> byte \<Rightarrow> (request_state \<times> request_parser) res" where
  "address_type p b =
     with_request p (\<lambda>r.
       let r1 = r\<lparr>req_atyp := b\<rparr>
       in if b = socks_req_addrtype_ipv4
          then Inr (request_dest_addr,
                 put_request (r1\<lparr>req_dest := Dest_addr ipv4_address_init\<rparr>) (remaining_set p IPV4_LEN))
          else if b = socks_req_addrtype_domain
          then Inr (request_dest_addr_fqdn, put_request r1 p)
          else if b = socks_req_addrtype_ipv6
          then Inr (request_dest_addr,
                 put_request (r1\<lparr>req_dest := Dest_addr ipv6_address_init\<rparr>) (remaining_set p IPV6_LEN))
          else Inr (request_error_unsupported_type, put_request r1 p))"

text \<open>The bytes of the \<open>host\<close> view; the address views are never read through it.\<close>

definition fqdn_host :: "request_dest \<Rightarrow> byte list" where
  "fqdn_host d = (case d of Dest_fqdn h n \<Rightarrow> h | Dest_addr a \<Rightarrow> replicate MAX_FQDN_SIZE 0)"

definition dest_address_fqdn :: "request_parser \<Rightarrow> byte \<Rightarrow> (request_state \<times> request_parser) res" where
  "dest_address_fqdn p b =
     (if unat b > MAX_FQDN_SIZE - 1 then Inr (request_error, p)
      else let p1 = remaining_set p b
           in with_request p1 (\<lambda>r.
                let h = fqdn_host (req_dest r); i = uint (rp_remaining p1) - 1
                in if 0 \<le> i \<and> nat i < length h
                   then Inr (request_dest_addr,
                          put_request (r\<lparr>req_dest := Dest_fqdn (h[nat i := 0]) (uint b)\<rparr>) p1)
                   else Inl Undefined))"

text \<open>The store of one address byte, by the type of the address.\<close>

definition dest_store :: "request \<Rightarrow> nat \<Rightarrow> byte \<Rightarrow> request res" where
  "dest_store r i b =
     (if req_atyp r = socks_req_addrtype_ipv4 \<or> req_atyp r = socks_req_addrtype_ipv6
      then (case req_dest r of
              Dest_addr a \<Rightarrow>
                if i < length (sa_addr a)
                then Inr (r\<lparr>req_dest := Dest_addr (a\<lparr>sa_addr := (sa_addr a)[i := b]\<rparr>)\<rparr>)
                else Inl Undefined
            | _ \<Rightarrow> Inl Undefined)
      else (case req_dest r of
              Dest_fqdn h n \<Rightarrow>
                if i < length h then Inr (r\<lparr>req_dest := Dest_fqdn (h[i := b]) n\<rparr>) else Inl Undefined
            | _ \<Rightarrow> Inl Undefined))"

definition request_dest_addr_step :: "request_parser \<Rightarrow> byte \<Rightarrow> (request_state \<times> request_parser) res" where
  "request_dest_addr_step p b =
     with_request p (\<lambda>r.
     bind_res (if req_atyp r \<in> {socks_req_addrtype_ipv4, socks_req_addrtype_domain, socks_req_addrtype_ipv6}
               then bind_res (dest_store r (unat (rp_read p)) b) (\<lambda>r1.
                      Inr (r1, put_request r1 (p\<lparr>rp_read := rp_read p + 1\<rparr>)))
               else Inr (r, p)) (\<lambda>(r1, p1).
     if remaining_is_done p1
     then Inr (request_dest_port, put_request (r1\<lparr>req_port := [0, 0]\<rparr>) (remaining_set p1 2))
     else Inr (request_dest_addr, p1)))"

definition set_port :: "request \<Rightarrow> request res" where
  "set_port r =
     (if req_atyp r = socks_req_addrtype_ipv4 \<or> req_atyp r = socks_req_addrtype_ipv6
      then (case req_dest r of
              Dest_addr a \<Rightarrow> Inr (r\<lparr>req_dest := Dest_addr (a\<lparr>sa_port := req_port r\<rparr>)\<rparr>)
            | _ \<Rightarrow> Inl Undefined)
      else Inr r)"

definition dest_port :: "request_parser \<Rightarrow> byte \<Rightarrow> (request_state \<times> request_parser) res" where
  "dest_port p b =
     with_request p (\<lambda>r.
       if unat (rp_read p) < length (req_port r)
       then let r1 = r\<lparr>req_port := (req_port r)[unat (rp_read p) := b]\<rparr>;
                p1 = put_request r1 (p\<lparr>rp_read := rp_read p + 1\<rparr>)
            in if remaining_is_done p1
               then bind_res (set_port r1) (\<lambda>r2. Inr (request_done, put_request r2 p1))
               else Inr (request_dest_port, p1)
       else Inl Undefined)"

definition request_parser_feed :: "request_parser \<Rightarrow> byte \<Rightarrow> (request_state \<times> request_parser) res" where
  "request_parser_feed p b =
     bind_res (case rp_state p of
         request_version \<Rightarrow> Inr (request_version_next b, p)
       | request_cmd \<Rightarrow> request_cmd_next p b
       | request_rsv \<Rightarrow> Inr (request_atyp, p)
       | request_atyp \<Rightarrow> address_type p b
       | request_dest_addr \<Rightarrow> request_dest_addr_step p b
       | request_dest_addr_fqdn \<Rightarrow> dest_address_fqdn p b
       | request_dest_port \<Rightarrow> dest_port p b
       | request_done \<Rightarrow> Inr (request_done, p)
       | request_error_unsupported_version \<Rightarrow> Inr (request_error_unsupported_version, p)
       | request_error_unsupported_cmd \<Rightarrow> Inr (request_error_unsupported_cmd, p)
       | request_error_unsupported_type \<Rightarrow> Inr (request_error_unsupported_type, p)
       | request_error \<Rightarrow> Inr (request_error, p)) (\<lambda>(st, p1).
     Inr (st, p1\<lparr>rp_state := st\<rparr>))"

definition request_is_done :: "request_state \<Rightarrow> bool \<Rightarrow> bool" where
  "request_is_done st error \<longleftrightarrow> st = request_done \<and> \<not> error"

type_synonym request_consume_state = "request_parser \<times> request_state"

function request_consume_from ::
    "bool \<Rightarrow> buffer \<Rightarrow> request_consume_state \<Rightarrow> (request_consume_state \<times> buffer) res" where
  "request_consume_from error b (p, st) =
     (if buffer_can_read b
      then bind_res (buffer_read b) (\<lambda>(x, b').
           bind_res (request_parser_feed p x) (\<lambda>(st', p').
             if request_is_done st' error then Inr ((p', st'), b')
             else request_consume_from error b' (p', st')))
      else Inr ((p, st), b))"
  by pat_completeness auto
termination
  by (relation "measure (\<lambda>(e, b, c). buf_write b - buf_read b)") (auto dest: buffer_read_decreases)

declare request_consume_from.simps [simp del]

definition request_consume ::
    "buffer \<Rightarrow> request_parser \<Rightarrow> bool \<Rightarrow> (request_consume_state \<times> buffer) res" where
  "request_consume b p error = request_consume_from error b (p, rp_state p)"

definition request_feed :: "request_consume_state \<Rightarrow> byte \<Rightarrow> request_consume_state res" where
  "request_feed c x =
     (case c of (p, st) \<Rightarrow> bind_res (request_parser_feed p x) (\<lambda>(st', p'). Inr (p', st')))"

definition request_stop :: "bool \<Rightarrow> request_consume_state \<Rightarrow> bool" where
  "request_stop error c = (case c of (p, st) \<Rightarrow> request_is_done st error)"

interpretation rp: consume_loop buffer_inv buffer_content buffer_can_read buffer_read
  request_feed "request_stop error" "request_consume_from error" for error
proof unfold_locales
  fix b :: buffer and c :: request_consume_state
  obtain p st where c: "c = (p, st)" by (cases c)
  show "request_consume_from error b c =
     (if buffer_can_read b
      then bind_res (buffer_read b) (\<lambda>(x, b'). bind_res (request_feed c x) (\<lambda>c'.
             if request_stop error c' then Inr (c', b') else request_consume_from error b' c'))
      else Inr (c, b))"
    unfolding c
    by (subst request_consume_from.simps)
      (auto simp: request_feed_def request_stop_def bind_res_assoc split_def)
qed

section \<open>Parsing a whole request\<close>

definition dest_bytes :: "request \<Rightarrow> byte list" where
  "dest_bytes r = (case req_dest r of Dest_addr a \<Rightarrow> sa_addr a | Dest_fqdn h n \<Rightarrow> h)"

definition put_dest_bytes :: "byte list \<Rightarrow> request \<Rightarrow> request" where
  "put_dest_bytes m r = r\<lparr>req_dest :=
     (case req_dest r of Dest_addr a \<Rightarrow> Dest_addr (a\<lparr>sa_addr := m\<rparr>) | Dest_fqdn h n \<Rightarrow> Dest_fqdn m n)\<rparr>"

definition dest_view_ok :: "request \<Rightarrow> bool" where
  "dest_view_ok r \<longleftrightarrow>
     (case req_dest r of
        Dest_addr a \<Rightarrow> req_atyp r = socks_req_addrtype_ipv4 \<or> req_atyp r = socks_req_addrtype_ipv6
      | Dest_fqdn h n \<Rightarrow> req_atyp r = socks_req_addrtype_domain)"

lemma put_dest_bytes_simps [simp]:
  "dest_bytes (put_dest_bytes m r) = m"
  "put_dest_bytes m' (put_dest_bytes m r) = put_dest_bytes m' r"
  "dest_view_ok (put_dest_bytes m r) = dest_view_ok r"
  "req_atyp (put_dest_bytes m r) = req_atyp r"
  by (auto simp: dest_bytes_def put_dest_bytes_def dest_view_ok_def split: request_dest.splits)

lemma dest_store_ok:
  "dest_view_ok r \<Longrightarrow> i < length (dest_bytes r) \<Longrightarrow>
     dest_store r i b = Inr (put_dest_bytes ((dest_bytes r)[i := b]) r)"
  by (auto simp: dest_store_def dest_view_ok_def dest_bytes_def put_dest_bytes_def request_constants
      split: request_dest.splits)

definition port_ready :: "request \<Rightarrow> request_parser \<Rightarrow> request_parser" where
  "port_ready r p = p\<lparr>rp_remaining := 2, rp_read := 0, rp_request := Some (r\<lparr>req_port := [0, 0]\<rparr>),
     rp_state := request_dest_port\<rparr>"

lemma request_feed_dest:
  assumes "rp_state p = request_dest_addr" and "rp_request p = Some r" and "dest_view_ok r"
    and "unat (rp_read p) + length xs = unat (rp_remaining p)" and "xs \<noteq> []"
    and "unat (rp_remaining p) \<le> length (dest_bytes r)"
  shows "feed_bytes request_feed (request_stop e) (xs @ ys) (p, st) =
    feed_bytes request_feed (request_stop e) ys
      (port_ready (put_dest_bytes (take (unat (rp_read p)) (dest_bytes r) @ xs @
           drop (unat (rp_remaining p)) (dest_bytes r)) r) p, request_dest_port)"
  using assms
proof (induction xs arbitrary: p r st)
  case Nil
  then show ?case by simp
next
  case (Cons x xs)
  let ?i = "unat (rp_read p)" and ?m = "dest_bytes r"
  let ?r = "put_dest_bytes (?m[?i := x]) r"
  have i: "?i < length ?m" using Cons.prems(4,6) by simp
  have i1: "unat (rp_read p + 1) = ?i + 1"
    using Cons.prems(4) unat_byte_less [of "rp_remaining p"] by (intro unat_byte_Suc) (simp del: unat_byte_less)
  have atyp: "req_atyp r \<in> {socks_req_addrtype_ipv4, socks_req_addrtype_domain, socks_req_addrtype_ipv6}"
    using Cons.prems(3) by (auto simp: dest_view_ok_def split: request_dest.splits)
  have upd: "take (Suc ?i) (?m[?i := x]) = take ?i ?m @ [x]"
    using i by (simp add: take_Suc_conv_app_nth)
  have step: "request_dest_addr_step p x =
      (let p1 = put_request ?r (p\<lparr>rp_read := rp_read p + 1\<rparr>)
       in if remaining_is_done p1
          then Inr (request_dest_port, put_request (?r\<lparr>req_port := [0, 0]\<rparr>) (remaining_set p1 2))
          else Inr (request_dest_addr, p1))"
    using Cons.prems atyp i by (simp add: request_dest_addr_step_def with_request_def dest_store_ok)
  show ?case
  proof (cases "xs = []")
    case True
    then have "remaining_is_done (put_request ?r (p\<lparr>rp_read := rp_read p + 1\<rparr>))"
      using Cons.prems(4) i1 by (simp add: remaining_is_done_def put_request_def word_le_nat_alt)
    moreover have "?m[?i := x] = take ?i ?m @ x # drop (unat (rp_remaining p)) ?m"
      using i True Cons.prems(4) by (simp add: upd_conv_take_nth_drop)
    ultimately show ?thesis
      using Cons.prems(1) True step
      by (simp add: request_feed_def request_parser_feed_def Let_def request_stop_def
          request_is_done_def port_ready_def put_request_def remaining_set_def)
  next
    case False
    let ?p = "put_request ?r (p\<lparr>rp_read := rp_read p + 1\<rparr>)"
    have "\<not> remaining_is_done ?p"
      using Cons.prems(4) i1 False
      by (cases xs) (simp_all add: remaining_is_done_def put_request_def word_le_nat_alt)
    then have feed: "request_feed (p, st) x = Inr (?p\<lparr>rp_state := request_dest_addr\<rparr>, request_dest_addr)"
      using Cons.prems(1) step by (simp add: request_feed_def request_parser_feed_def Let_def)
    show ?thesis
      using Cons.IH [of "?p\<lparr>rp_state := request_dest_addr\<rparr>" ?r request_dest_addr] Cons.prems i1 False feed
      by (simp add: request_stop_def request_is_done_def put_request_def upd port_ready_def)
  qed
qed

lemma request_feed_port:
  assumes "rp_state p = request_dest_port" and "rp_request p = Some r" and "req_port r = [0, 0]"
    and "rp_read p = 0" and "rp_remaining p = 2" and "set_port (r\<lparr>req_port := [a, b]\<rparr>) = Inr r'"
  shows "feed_bytes request_feed (request_stop False) (a # b # ys) (p, st) =
    Inr ((p\<lparr>rp_request := Some r', rp_read := 2, rp_state := request_done\<rparr>, request_done), ys)"
  using assms
  by (simp add: request_feed_def request_parser_feed_def dest_port_def with_request_def Let_def
      put_request_def remaining_is_done_def request_stop_def request_is_done_def word_le_nat_alt)

text \<open>From the first address byte to the end of the request.\<close>

definition complete_request :: "byte list \<Rightarrow> byte list \<Rightarrow> request \<Rightarrow> request" where
  "complete_request m port r = (put_dest_bytes m r)\<lparr>req_port := port,
     req_dest := (case req_dest (put_dest_bytes m r) of
        Dest_addr x \<Rightarrow> Dest_addr (x\<lparr>sa_port := port\<rparr>) | Dest_fqdn h n \<Rightarrow> Dest_fqdn h n)\<rparr>"

lemma set_port_complete:
  "dest_view_ok r \<Longrightarrow> set_port ((put_dest_bytes m r)\<lparr>req_port := port\<rparr>) = Inr (complete_request m port r)"
  by (cases "req_dest r")
    (auto simp: set_port_def complete_request_def dest_view_ok_def put_dest_bytes_def request_constants)

lemma request_feed_tail:
  assumes "rp_state p = request_dest_addr" and "rp_request p = Some r" and "dest_view_ok r"
    and "rp_read p = 0" and "length xs = unat (rp_remaining p)" and "xs \<noteq> []"
    and "length xs \<le> length (dest_bytes r)"
  shows "feed_bytes request_feed (request_stop False) (xs @ a # b # ys) (p, st) =
    Inr ((p\<lparr>rp_request := Some (complete_request (xs @ drop (length xs) (dest_bytes r)) [a, b] r),
           rp_remaining := 2, rp_read := 2, rp_state := request_done\<rparr>, request_done), ys)"
proof -
  let ?m = "xs @ drop (length xs) (dest_bytes r)"
  let ?p = "port_ready (put_dest_bytes ?m r) p"
  have sp: "set_port ((put_dest_bytes ?m r)\<lparr>req_port := [0, 0], req_port := [a, b]\<rparr>) =
      Inr (complete_request ?m [a, b] r)"
    using set_port_complete [OF assms(3)] by simp
  have "feed_bytes request_feed (request_stop False) (xs @ a # b # ys) (p, st) =
      feed_bytes request_feed (request_stop False) (a # b # ys) (?p, request_dest_port)"
    using request_feed_dest [of p r xs False "a # b # ys" st] assms by (simp del: feed_bytes.simps)
  also have "\<dots> = Inr ((?p\<lparr>rp_request := Some (complete_request ?m [a, b] r), rp_read := 2,
        rp_state := request_done\<rparr>, request_done), ys)"
    by (rule request_feed_port [OF _ _ _ _ _ sp]) (simp_all add: port_ready_def)
  finally show ?thesis by (simp add: port_ready_def)
qed

text \<open>A parser that has just been initialised, over a block with any contents.\<close>

definition request_fresh :: "request \<Rightarrow> request_parser" where
  "request_fresh block = \<lparr>rp_request = Some block, rp_state = request_version, rp_remaining = 0, rp_read = 0\<rparr>"

lemmas request_feed_simps = request_feed_def request_parser_feed_def request_version_next_def
  request_cmd_next_def address_type_def with_request_def put_request_def remaining_set_def
  request_stop_def request_is_done_def Let_def

lemma request_feed_ipv4:
  assumes "length addr = 4"
  shows "\<exists>p. feed_bytes request_feed (request_stop False) (5 # 1 # rsv # 1 # addr @ a # b # ys)
        (request_fresh block, st) = Inr ((p, request_done), ys) \<and> rp_state p = request_done \<and>
      rp_request p = Some \<lparr>req_cmd = 1, req_atyp = 1,
        req_dest = Dest_addr \<lparr>sa_family = AF_INET, sa_port = [a, b], sa_addr = addr\<rparr>, req_port = [a, b]\<rparr>"
proof -
  define r0 where "r0 = block\<lparr>req_cmd := 1, req_atyp := 1, req_dest := Dest_addr ipv4_address_init\<rparr>"
  define p0 where "p0 = \<lparr>rp_request = Some r0, rp_state = request_dest_addr, rp_remaining = 4, rp_read = 0\<rparr>"
  have "feed_bytes request_feed (request_stop False) (5 # 1 # rsv # 1 # addr @ a # b # ys)
      (request_fresh block, st) =
      feed_bytes request_feed (request_stop False) (addr @ a # b # ys) (p0, request_dest_addr)"
    by (simp add: request_fresh_def request_feed_simps request_constants p0_def r0_def)
  also have "\<dots> = Inr ((p0\<lparr>rp_request := Some (complete_request (addr @ drop (length addr) (dest_bytes r0)) [a, b] r0),
           rp_remaining := 2, rp_read := 2, rp_state := request_done\<rparr>, request_done), ys)"
    using assms by (intro request_feed_tail)
      (auto simp: p0_def r0_def dest_view_ok_def dest_bytes_def ipv4_address_init_def request_constants)
  finally show ?thesis
    using assms by (simp add: p0_def complete_request_def put_dest_bytes_def dest_bytes_def r0_def ipv4_address_init_def)
qed

lemma request_feed_ipv6:
  assumes "length addr = 16"
  shows "\<exists>p. feed_bytes request_feed (request_stop False) (5 # 1 # rsv # 4 # addr @ a # b # ys)
        (request_fresh block, st) = Inr ((p, request_done), ys) \<and> rp_state p = request_done \<and>
      rp_request p = Some \<lparr>req_cmd = 1, req_atyp = 4,
        req_dest = Dest_addr \<lparr>sa_family = AF_INET6, sa_port = [a, b], sa_addr = addr\<rparr>, req_port = [a, b]\<rparr>"
proof -
  define r0 where "r0 = block\<lparr>req_cmd := 1, req_atyp := 4, req_dest := Dest_addr ipv6_address_init\<rparr>"
  define p0 where "p0 = \<lparr>rp_request = Some r0, rp_state = request_dest_addr, rp_remaining = 16, rp_read = 0\<rparr>"
  have "feed_bytes request_feed (request_stop False) (5 # 1 # rsv # 4 # addr @ a # b # ys)
      (request_fresh block, st) =
      feed_bytes request_feed (request_stop False) (addr @ a # b # ys) (p0, request_dest_addr)"
    by (simp add: request_fresh_def request_feed_simps request_constants p0_def r0_def)
  also have "\<dots> = Inr ((p0\<lparr>rp_request := Some (complete_request (addr @ drop (length addr) (dest_bytes r0)) [a, b] r0),
           rp_remaining := 2, rp_read := 2, rp_state := request_done\<rparr>, request_done), ys)"
    using assms by (intro request_feed_tail)
      (auto simp: p0_def r0_def dest_view_ok_def dest_bytes_def ipv6_address_init_def request_constants)
  finally show ?thesis
    using assms by (simp add: p0_def complete_request_def put_dest_bytes_def dest_bytes_def r0_def ipv6_address_init_def)
qed

text \<open>A domain name of 1 to 254 bytes.\<close>

lemma request_feed_fqdn:
  assumes "host \<noteq> []" and "length host \<le> 254" and "length (fqdn_host (req_dest block)) = 255"
  shows "\<exists>p h. feed_bytes request_feed (request_stop False)
        (5 # 1 # rsv # 3 # of_nat (length host) # host @ a # b # ys) (request_fresh block, st) =
        Inr ((p, request_done), ys) \<and> rp_state p = request_done \<and>
      rp_request p = Some \<lparr>req_cmd = 1, req_atyp = 3,
        req_dest = Dest_fqdn h (int (length host)), req_port = [a, b]\<rparr> \<and>
      length h = 255 \<and> take (length host) h = host"
proof -
  let ?n = "of_nat (length host) :: byte"
  have n: "unat ?n = length host" "uint ?n = int (length host)"
    using assms(2) by (simp_all add: uint_nat)
  have pos: "0 \<le> int (length host) - 1" using assms(1) by (cases host) simp_all
  define h where "h = (fqdn_host (req_dest block))[length host - 1 := 0]"
  define r0 where "r0 = block\<lparr>req_cmd := 1, req_atyp := 3, req_dest := Dest_fqdn h (int (length host))\<rparr>"
  define p0 where "p0 = \<lparr>rp_request = Some r0, rp_state = request_dest_addr, rp_remaining = ?n, rp_read = 0\<rparr>"
  have nat: "nat (int (length host) - 1) = length host - 1" using pos by simp
  have lt: "length host - Suc 0 < 255" using assms(2) by linarith
  have "feed_bytes request_feed (request_stop False)
        (5 # 1 # rsv # 3 # ?n # host @ a # b # ys) (request_fresh block, st) =
      feed_bytes request_feed (request_stop False) (host @ a # b # ys) (p0, request_dest_addr)"
    using assms n pos nat lt
    by (simp add: request_fresh_def request_feed_simps request_constants dest_address_fqdn_def p0_def r0_def h_def)
  also have "\<dots> = Inr ((p0\<lparr>rp_request := Some (complete_request (host @ drop (length host) (dest_bytes r0)) [a, b] r0),
           rp_remaining := 2, rp_read := 2, rp_state := request_done\<rparr>, request_done), ys)"
    using assms n by (intro request_feed_tail)
      (auto simp: p0_def r0_def dest_view_ok_def dest_bytes_def request_constants h_def)
  finally show ?thesis
    using assms(2,3)
    by (intro exI [of _ "_ :: request_parser"] exI [of _ "host @ drop (length host) h"])
      (auto simp: p0_def complete_request_def put_dest_bytes_def dest_bytes_def r0_def h_def)
qed

section \<open>Rejected requests\<close>

definition request_rejected :: "request_state \<Rightarrow> bool" where
  "request_rejected st \<longleftrightarrow> st \<in> {request_error, request_error_unsupported_cmd,
     request_error_unsupported_type, request_error_unsupported_version}"

text \<open>
  The error states absorb every later byte, and the loop does not count them as done: the
  reader of a rejected request is never told.
\<close>

lemma request_rejected_absorbs:
  "request_rejected (rp_state p) \<Longrightarrow>
     feed_bytes request_feed (request_stop False) xs (p, rp_state p) = Inr ((p, rp_state p), []) \<and>
     \<not> request_is_done (rp_state p) e"
proof (induction xs)
  case Nil
  then show ?case by (auto simp: request_rejected_def request_is_done_def)
next
  case (Cons x xs)
  then have "request_feed (p, rp_state p) x = Inr (p, rp_state p)"
    by (auto simp: request_rejected_def request_feed_def request_parser_feed_def)
  then show ?case
    using Cons by (auto simp: request_rejected_def request_stop_def request_is_done_def)
qed

text \<open>
  The length byte of a name is the index of the terminator plus one: a name without bytes puts
  it before the array. A name of 255 bytes is rejected.
\<close>

lemma request_feed_fqdn_length:
  shows "feed_bytes request_feed (request_stop False) (5 # 1 # rsv # 3 # 0 # ys) (request_fresh block, st) = Inl Undefined"
    and "\<exists>p. feed_bytes request_feed (request_stop False) (5 # 1 # rsv # 3 # 255 # ys) (request_fresh block, st) =
           Inr ((p, request_error), []) \<and> rp_state p = request_error"
proof -
  let ?f = "feed_bytes request_feed (request_stop False)"
  show "?f (5 # 1 # rsv # 3 # 0 # ys) (request_fresh block, st) = Inl Undefined"
    by (simp add: request_fresh_def request_feed_simps request_constants dest_address_fqdn_def)
  let ?p = "\<lparr>rp_request = Some (block\<lparr>req_cmd := 1, req_atyp := 3\<rparr>), rp_state = request_error,
      rp_remaining = 0, rp_read = 0\<rparr>"
  have "?f (5 # 1 # rsv # 3 # 255 # ys) (request_fresh block, st) = ?f ys (?p, request_error)"
    by (simp add: request_fresh_def request_feed_simps request_constants dest_address_fqdn_def)
  then show "\<exists>p. ?f (5 # 1 # rsv # 3 # 255 # ys) (request_fresh block, st) = Inr ((p, request_error), []) \<and>
      rp_state p = request_error"
    using request_rejected_absorbs [of ?p ys False] by (simp add: request_rejected_def)
qed

text \<open>The loop returns the state that the parser keeps.\<close>

lemma request_consume_state:
  assumes "buffer_inv b" and "request_consume b p error = Inr ((p1, st1), b1)"
  shows "st1 = rp_state p1"
proof -
  have "rp_state (fst c) = snd c" if "feed_bytes request_feed (request_stop error) xs (p, rp_state p) = Inr (c, rest)" for xs c rest
    by (rule feed_bytes_invariant [where I = "\<lambda>c. rp_state (fst c) = snd c", OF _ _ that])
      (auto simp: request_feed_def request_parser_feed_def bind_res_eq_Inr split_def)
  with rp.loop_refines_feed_bytes [OF assms(1), of error "(p, rp_state p)"] assms(2) show ?thesis
    by (fastforce simp: request_consume_def split: sum.splits)
qed

text \<open>Both kinds of numeric address.\<close>

lemma request_feed_address:
  assumes "t = 1 \<and> length addr = 4 \<and> fam = AF_INET \<or> t = 4 \<and> length addr = 16 \<and> fam = AF_INET6"
  shows "\<exists>p. feed_bytes request_feed (request_stop False) (5 # 1 # rsv # t # addr @ a # b # ys) (request_fresh block, st) =
      Inr ((p, request_done), ys) \<and>
    rp_request p = Some \<lparr>req_cmd = 1, req_atyp = t,
      req_dest = Dest_addr \<lparr>sa_family = fam, sa_port = [a, b], sa_addr = addr\<rparr>, req_port = [a, b]\<rparr>"
  using assms
proof (elim disjE conjE)
  assume "t = 1" "length addr = 4" "fam = AF_INET"
  then show ?thesis using request_feed_ipv4 [of addr rsv a b ys block st] by blast
next
  assume "t = 4" "length addr = 16" "fam = AF_INET6"
  then show ?thesis using request_feed_ipv6 [of addr rsv a b ys block st] by blast
qed

end
