(* ===== verification/Dissector.thy ===== *)
theory Dissector
  imports Prelude
begin

text \<open>
  \<open>src/src/password_dissector/dissec_parser.c\<close>: the POP3 credential sniffer. A pointer is
  NULL, freed, or the base of a block; freeing a freed block, using NULL or a freed block, and
  every access out of range are \<open>Inl Undefined\<close>. \<open>alloc n\<close> is the answer of \<open>malloc(n)\<close> or
  \<open>realloc(_, n)\<close>: NULL, or the contents of the new block. The line printed when a password is
  complete is the output \<open>Some (username, password)\<close>, as \<open>printf("%s")\<close> reads them.
\<close>

section \<open>Structures\<close>

datatype dissec_parser_state = user_word_search | user_read | pass_word_search | pass_read

datatype block = Null | Freed | Block "byte list"

record dissec_parser =
  dp_current :: dissec_parser_state
  dp_index :: nat
  dp_last :: bool
  dp_username :: block
  dp_password :: block

type_synonym dissec_alloc = "nat \<Rightarrow> byte list option"
type_synonym credential = "byte list \<times> byte list"

definition dissec_alloc_ok :: "dissec_alloc \<Rightarrow> bool" where
  "dissec_alloc_ok alloc \<longleftrightarrow> (\<forall>n. \<exists>m. alloc n = Some m \<and> length m = n)"

definition USER_L :: nat where "USER_L = 5"
definition PASS_L :: nat where "PASS_L = 10"
definition BUFFER_SIZE :: nat where "BUFFER_SIZE = 5"

definition user_reserved_pop3_word :: "byte list" where
  "user_reserved_pop3_word = [0x75, 0x73, 0x65, 0x72, 0x20]"

definition pass_reserved_pop3_word :: "byte list" where
  "pass_reserved_pop3_word = [0x2B, 0x4F, 0x4B, 0x0D, 0x0A, 0x70, 0x61, 0x73, 0x73, 0x20]"

lemmas dissec_constants = USER_L_def PASS_L_def BUFFER_SIZE_def user_reserved_pop3_word_def
  pass_reserved_pop3_word_def

section \<open>Operations\<close>

definition dissec_parser_init :: "dissec_parser \<Rightarrow> dissec_parser" where
  "dissec_parser_init p = p\<lparr>dp_index := 0, dp_current := user_word_search, dp_last := False\<rparr>"

definition isascii2 :: "byte \<Rightarrow> bool" where
  "isascii2 c \<longleftrightarrow> uint c \<ge> 0 \<and> uint c \<le> 127"

definition free_block :: "block \<Rightarrow> block res" where
  "free_block m = (case m of Null \<Rightarrow> Inr Null | Freed \<Rightarrow> Inl Undefined | Block xs \<Rightarrow> Inr Freed)"

definition malloc_block :: "dissec_alloc \<Rightarrow> nat \<Rightarrow> block" where
  "malloc_block alloc n = (case alloc n of None \<Rightarrow> Null | Some g \<Rightarrow> Block g)"

definition realloc_block :: "dissec_alloc \<Rightarrow> block \<Rightarrow> nat \<Rightarrow> block res" where
  "realloc_block alloc m n =
     (case m of
        Null \<Rightarrow> Inr (malloc_block alloc n)
      | Freed \<Rightarrow> Inl Undefined
      | Block xs \<Rightarrow> Inr (case alloc n of None \<Rightarrow> Null
                               | Some g \<Rightarrow> Block (take n xs @ drop (length xs) g)))"

definition checkSize :: "dissec_alloc \<Rightarrow> block \<Rightarrow> nat \<Rightarrow> block res" where
  "checkSize alloc m n =
     (if n mod BUFFER_SIZE = 0
      then (if n = 0 then Inr (malloc_block alloc (n + BUFFER_SIZE))
            else realloc_block alloc m (n + BUFFER_SIZE))
      else Inr m)"

definition store_block :: "block \<Rightarrow> nat \<Rightarrow> byte \<Rightarrow> block res" where
  "store_block m i b =
     (case m of
        Block xs \<Rightarrow> if i < length xs then Inr (Block (xs[i := b])) else Inl Undefined
      | _ \<Rightarrow> Inl Undefined)"

text \<open>\<open>buf = checkSize(buf, i); buf[i] = b;\<close> occurs four times.\<close>

definition put_byte :: "dissec_alloc \<Rightarrow> block \<Rightarrow> nat \<Rightarrow> byte \<Rightarrow> block res" where
  "put_byte alloc m i b = bind_res (checkSize alloc m i) (\<lambda>m'. store_block m' i b)"

definition read_string :: "block \<Rightarrow> byte list res" where
  "read_string m =
     (case m of
        Block xs \<Rightarrow> if 0 \<in> set xs then Inr (cstr xs) else Inl Undefined
      | _ \<Rightarrow> Inl Undefined)"

definition word_at :: "byte list \<Rightarrow> nat \<Rightarrow> byte res" where
  "word_at w i = (if i < length w then Inr (w ! i) else Inl Undefined)"

text \<open>The restart of the search: the byte may be the first one of the keyword.\<close>

definition restart :: "dissec_parser \<Rightarrow> byte \<Rightarrow> dissec_parser" where
  "restart p b = p\<lparr>dp_index := (if user_reserved_pop3_word ! 0 = b then 1 else 0), dp_last := False\<rparr>"

definition user_read_reset :: "dissec_parser \<Rightarrow> byte \<Rightarrow> (dissec_parser_state \<times> dissec_parser) res" where
  "user_read_reset p b =
     (let p1 = p\<lparr>dp_index := 0, dp_last := False\<rparr>
      in bind_res (if dp_index p1 \<noteq> 0 then free_block (dp_username p1) else Inr (dp_username p1)) (\<lambda>u.
           Inr (user_word_search, restart (p1\<lparr>dp_username := u\<rparr>) b)))"

definition user_read_handler ::
    "dissec_alloc \<Rightarrow> dissec_parser \<Rightarrow> byte \<Rightarrow> (dissec_parser_state \<times> dissec_parser) res" where
  "user_read_handler alloc p b =
     (if dp_index p \<ge> 255 then user_read_reset p b
      else if dp_last p \<and> b \<noteq> 0x0A then user_read_reset p b
      else if b = 0x0D then Inr (user_read, p\<lparr>dp_last := True\<rparr>)
      else if b = 0x0A
      then bind_res (put_byte alloc (dp_username p) (dp_index p) 0) (\<lambda>u.
             Inr (pass_word_search, p\<lparr>dp_index := 0, dp_last := False, dp_username := u\<rparr>))
      else if isascii2 b
      then bind_res (put_byte alloc (dp_username p) (dp_index p) b) (\<lambda>u.
             Inr (user_read, p\<lparr>dp_index := dp_index p + 1, dp_username := u\<rparr>))
      else user_read_reset p b)"

definition pass_read_reset :: "dissec_parser \<Rightarrow> byte \<Rightarrow> (dissec_parser_state \<times> dissec_parser) res" where
  "pass_read_reset p b =
     bind_res (if dp_index p \<noteq> 0 then free_block (dp_password p) else Inr (dp_password p)) (\<lambda>w.
     bind_res (free_block (dp_username p)) (\<lambda>u.
       Inr (user_word_search, restart (p\<lparr>dp_username := u, dp_password := w\<rparr>) b)))"

definition pass_read_handler ::
    "dissec_alloc \<Rightarrow> dissec_parser \<Rightarrow> byte \<Rightarrow>
     (dissec_parser_state \<times> dissec_parser \<times> credential option) res" where
  "pass_read_handler alloc p b =
     (let quiet = (\<lambda>(st, p'). Inr (st, p', None))
      in if dp_index p \<ge> 255 then bind_res (pass_read_reset p b) quiet
         else if dp_last p \<and> b \<noteq> 0x0A then bind_res (pass_read_reset p b) quiet
         else if b = 0x0D then Inr (pass_read, p\<lparr>dp_last := True\<rparr>, None)
         else if b = 0x0A
         then bind_res (put_byte alloc (dp_password p) (dp_index p) 0) (\<lambda>w.
              bind_res (read_string (dp_username p)) (\<lambda>us.
              bind_res (read_string w) (\<lambda>ps.
              bind_res (pass_read_reset (p\<lparr>dp_password := w\<rparr>) b) (\<lambda>(st, p').
                Inr (st, p', Some (us, ps))))))
         else if isascii2 b
         then bind_res (put_byte alloc (dp_password p) (dp_index p) b) (\<lambda>w.
                Inr (pass_read, p\<lparr>dp_index := dp_index p + 1, dp_password := w\<rparr>, None))
         else bind_res (user_read_reset p b) quiet)"

definition pass_word_search_handler ::
    "dissec_parser \<Rightarrow> byte \<Rightarrow> (dissec_parser_state \<times> dissec_parser) res" where
  "pass_word_search_handler p b =
     bind_res (word_at pass_reserved_pop3_word (dp_index p)) (\<lambda>c.
     let i = dp_index p + 1
     in if c = b
        then (if i = PASS_L then Inr (pass_read, p\<lparr>dp_index := 0\<rparr>)
              else Inr (pass_word_search, p\<lparr>dp_index := i\<rparr>))
        else bind_res (free_block (dp_username p)) (\<lambda>u.
               Inr (user_word_search, restart (p\<lparr>dp_username := u\<rparr>) b)))"

definition user_word_search_handler ::
    "dissec_parser \<Rightarrow> byte \<Rightarrow> (dissec_parser_state \<times> dissec_parser) res" where
  "user_word_search_handler p b =
     bind_res (word_at user_reserved_pop3_word (dp_index p)) (\<lambda>c.
     let i = dp_index p + 1
     in if c = b
        then (if i = USER_L then Inr (user_read, p\<lparr>dp_index := 0\<rparr>)
              else Inr (user_word_search, p\<lparr>dp_index := i\<rparr>))
        else Inr (user_word_search,
               p\<lparr>dp_index := (if user_reserved_pop3_word ! 0 = b then 1 else 0)\<rparr>))"

definition dissec_parser_feed ::
    "dissec_alloc \<Rightarrow> dissec_parser \<Rightarrow> byte \<Rightarrow>
     (dissec_parser_state \<times> dissec_parser \<times> credential option) res" where
  "dissec_parser_feed alloc p b =
     (let quiet = (\<lambda>(st, p'). Inr (st, p', None))
      in case dp_current p of
           user_word_search \<Rightarrow> bind_res (user_word_search_handler p b) quiet
         | user_read \<Rightarrow> bind_res (user_read_handler alloc p b) quiet
         | pass_word_search \<Rightarrow> bind_res (pass_word_search_handler p b) quiet
         | pass_read \<Rightarrow> pass_read_handler alloc p b)"

text \<open>\<open>dissec_consume\<close> returns the parser and the lines it printed, in order.\<close>

fun dissec_consume ::
    "dissec_alloc \<Rightarrow> byte list \<Rightarrow> dissec_parser \<Rightarrow> (dissec_parser \<times> credential list) res" where
  "dissec_consume alloc [] p = Inr (p, [])"
| "dissec_consume alloc (b # bs) p =
     bind_res (dissec_parser_feed alloc p b) (\<lambda>(st, p', out).
     bind_res (dissec_consume alloc bs (p'\<lparr>dp_current := st\<rparr>)) (\<lambda>(p2, outs).
       Inr (p2, (case out of None \<Rightarrow> [] | Some c \<Rightarrow> [c]) @ outs)))"

section \<open>The growing block\<close>

definition holds :: "block \<Rightarrow> byte list \<Rightarrow> bool" where
  "holds m xs \<longleftrightarrow> xs = [] \<or>
     (\<exists>ys. m = Block ys \<and> length ys = 5 * ((length xs + 4) div 5) \<and> take (length xs) ys = xs)"

lemma holds_Nil [simp]: "holds m []"
  by (simp add: holds_def)

lemma put_byte_holds:
  assumes "dissec_alloc_ok alloc" and "holds m xs"
  shows "\<exists>ys. put_byte alloc m (length xs) b = Inr (Block ys) \<and> holds (Block ys) (xs @ [b])"
proof -
  let ?n = "length xs"
  have "\<exists>ys. checkSize alloc m ?n = Inr (Block ys) \<and> length ys = 5 * ((?n + 5) div 5) \<and> take ?n ys = xs"
  proof (cases "?n mod 5 = 0")
    case True
    obtain g where g: "alloc (?n + 5) = Some g" "length g = ?n + 5"
      using assms(1) by (auto simp: dissec_alloc_ok_def)
    show ?thesis
    proof (cases "xs = []")
      case True
      then show ?thesis using g by (simp add: checkSize_def dissec_constants malloc_block_def)
    next
      case False
      then obtain ys where ys: "m = Block ys" "length ys = 5 * ((?n + 4) div 5)" "take ?n ys = xs"
        using assms(2) by (auto simp: holds_def)
      have len: "length ys = ?n" "5 * ((?n + 5) div 5) = ?n + 5" using ys(2) True by presburger+
      then have "ys = xs" using ys(3) by simp
      then show ?thesis
        using False True ys(1) g len by (auto simp: checkSize_def dissec_constants realloc_block_def)
    qed
  next
    case False
    then have ne: "xs \<noteq> []" by auto
    then obtain ys where ys: "m = Block ys" "length ys = 5 * ((?n + 4) div 5)" "take ?n ys = xs"
      using assms(2) by (auto simp: holds_def)
    have "(?n + 4) div 5 = (?n + 5) div 5" using False by presburger
    then show ?thesis using False ys by (auto simp: checkSize_def dissec_constants)
  qed
  then obtain ys where ys: "checkSize alloc m ?n = Inr (Block ys)"
      "length ys = 5 * ((?n + 5) div 5)" "take ?n ys = xs" by blast
  have lt: "?n < length ys" unfolding ys(2) by presburger
  have "take (Suc ?n) (ys[?n := b]) = xs @ [b]"
    using lt ys(3) by (simp add: take_Suc_conv_app_nth)
  then show ?thesis
    using ys lt by (simp add: put_byte_def store_block_def holds_def)
qed

lemma holds_string:
  assumes "holds (Block ys) (xs @ [0])" and "0 \<notin> set xs"
  shows "read_string (Block ys) = Inr xs"
proof -
  have "take (length xs + 1) ys = xs @ [0]" using assms(1) by (simp add: holds_def)
  then have "ys = xs @ 0 # drop (length xs + 1) ys"
    by (metis append.assoc append_Cons append_Nil append_take_drop_id)
  then obtain zs where "ys = xs @ 0 # zs" by blast
  then show ?thesis using assms(2) by (simp add: read_string_def)
qed

lemma holds_string_ok:
  assumes "holds (Block ys) (xs @ [0])"
  shows "\<exists>s. read_string (Block ys) = Inr s"
proof -
  have "0 \<in> set (take (length xs + 1) ys)" using assms by (simp add: holds_def)
  then show ?thesis by (auto simp: read_string_def dest: in_set_takeD)
qed

section \<open>Memory safety\<close>

definition dissec_inv :: "dissec_parser \<Rightarrow> bool" where
  "dissec_inv p \<longleftrightarrow>
     (case dp_current p of
        user_word_search \<Rightarrow> dp_index p < 5 \<and> \<not> dp_last p
      | user_read \<Rightarrow> (\<exists>xs. dp_index p = length xs \<and> holds (dp_username p) xs)
      | pass_word_search \<Rightarrow> dp_index p < 10 \<and> \<not> dp_last p \<and> (\<exists>xs. holds (dp_username p) (xs @ [0]))
      | pass_read \<Rightarrow> (\<exists>xs. holds (dp_username p) (xs @ [0])) \<and>
          (\<exists>xs. dp_index p = length xs \<and> holds (dp_password p) xs))"

lemma holds_Block: "holds m (xs @ [b]) \<Longrightarrow> \<exists>ys. m = Block ys"
  by (auto simp: holds_def)

lemma holds_nonempty_Block: "holds m xs \<Longrightarrow> xs \<noteq> [] \<Longrightarrow> \<exists>ys. m = Block ys"
  by (auto simp: holds_def)

lemma restart_inv: "dissec_inv ((restart p b)\<lparr>dp_current := user_word_search\<rparr>)"
  by (simp add: dissec_inv_def restart_def)

lemma user_read_reset_ok:
  "\<exists>p'. user_read_reset p b = Inr (user_word_search, p') \<and>
     dissec_inv (p'\<lparr>dp_current := user_word_search\<rparr>)"
  by (simp add: user_read_reset_def restart_inv)

lemma pass_read_reset_ok:
  assumes "\<exists>ys. dp_username p = Block ys" and "dp_index p = 0 \<or> (\<exists>zs. dp_password p = Block zs)"
  shows "\<exists>p'. pass_read_reset p b = Inr (user_word_search, p') \<and>
     dissec_inv (p'\<lparr>dp_current := user_word_search\<rparr>)"
  using assms restart_inv by (cases "dp_index p = 0") (auto simp: pass_read_reset_def free_block_def)

lemma user_read_handler_ok:
  assumes "dissec_alloc_ok alloc" and "dp_index p = length xs" and "holds (dp_username p) xs"
  shows "\<exists>st p'. user_read_handler alloc p b = Inr (st, p') \<and> dissec_inv (p'\<lparr>dp_current := st\<rparr>)"
proof -
  obtain ys where ys: "put_byte alloc (dp_username p) (dp_index p) 0 = Inr (Block ys)" "holds (Block ys) (xs @ [0])"
    using put_byte_holds [OF assms(1,3), of 0] assms(2) by auto
  obtain zs where zs: "put_byte alloc (dp_username p) (dp_index p) b = Inr (Block zs)" "holds (Block zs) (xs @ [b])"
    using put_byte_holds [OF assms(1,3), of b] assms(2) by auto
  have len: "length xs + 1 = length (xs @ [b])" by simp
  show ?thesis
    using user_read_reset_ok [of p b] ys zs assms(2,3) len
    by (auto simp: user_read_handler_def dissec_inv_def simp del: length_append)
qed

lemma pass_read_handler_ok:
  assumes "dissec_alloc_ok alloc" and "holds (dp_username p) (us @ [0])"
    and "dp_index p = length xs" and "holds (dp_password p) xs"
  shows "\<exists>st p' out. pass_read_handler alloc p b = Inr (st, p', out) \<and> dissec_inv (p'\<lparr>dp_current := st\<rparr>)"
proof -
  obtain vs where vs: "dp_username p = Block vs" using holds_Block [OF assms(2)] by blast
  obtain s where s: "read_string (dp_username p) = Inr s"
    using holds_string_ok [of vs us] assms(2) vs by auto
  obtain ys where ys: "put_byte alloc (dp_password p) (dp_index p) 0 = Inr (Block ys)" "holds (Block ys) (xs @ [0])"
    using put_byte_holds [OF assms(1,4), of 0] assms(3) by auto
  obtain t where t: "read_string (Block ys) = Inr t" using holds_string_ok [OF ys(2)] by blast
  obtain zs where zs: "put_byte alloc (dp_password p) (dp_index p) b = Inr (Block zs)" "holds (Block zs) (xs @ [b])"
    using put_byte_holds [OF assms(1,4), of b] assms(3) by auto
  obtain p1 where p1: "pass_read_reset p b = Inr (user_word_search, p1)"
      "dissec_inv (p1\<lparr>dp_current := user_word_search\<rparr>)"
    using pass_read_reset_ok [of p b] vs assms(3) holds_nonempty_Block [OF assms(4)] by auto
  obtain p2 where p2: "pass_read_reset (p\<lparr>dp_password := Block ys\<rparr>) b = Inr (user_word_search, p2)"
      "dissec_inv (p2\<lparr>dp_current := user_word_search\<rparr>)"
    using pass_read_reset_ok [of "p\<lparr>dp_password := Block ys\<rparr>" b] vs by auto
  obtain p3 where p3: "user_read_reset p b = Inr (user_word_search, p3)"
      "dissec_inv (p3\<lparr>dp_current := user_word_search\<rparr>)"
    using user_read_reset_ok by blast
  have step: "dissec_inv (p\<lparr>dp_index := dp_index p + 1, dp_password := Block zs, dp_current := pass_read\<rparr>)"
    using assms(2,3) zs(2) by (force simp: dissec_inv_def intro: exI [of _ "xs @ [b]"])
  have cr: "dissec_inv (p\<lparr>dp_last := True, dp_current := pass_read\<rparr>)"
    using assms by (auto simp: dissec_inv_def)
  show ?thesis
    using p1 p2 p3 ys(1) zs(1) s t step cr by (auto simp: pass_read_handler_def Let_def)
qed

lemma dissec_feed_ok:
  assumes "dissec_alloc_ok alloc" and "dissec_inv p"
  shows "\<exists>st p' out. dissec_parser_feed alloc p b = Inr (st, p', out) \<and> dissec_inv (p'\<lparr>dp_current := st\<rparr>)"
proof (cases "dp_current p")
  case user_word_search
  then show ?thesis
    using assms(2)
    by (auto simp: dissec_parser_feed_def user_word_search_handler_def word_at_def dissec_constants
        dissec_inv_def Let_def)
next
  case user_read
  then obtain xs where "dp_index p = length xs" "holds (dp_username p) xs"
    using assms(2) by (auto simp: dissec_inv_def)
  with user_read_handler_ok [OF assms(1) this, of b] user_read show ?thesis
    by (auto simp: dissec_parser_feed_def)
next
  case pass_word_search
  then obtain xs where xs: "holds (dp_username p) (xs @ [0])" and i: "dp_index p < 10" "\<not> dp_last p"
    using assms(2) by (auto simp: dissec_inv_def)
  obtain ys where ys: "dp_username p = Block ys" using holds_Block [OF xs] by blast
  have w: "word_at pass_reserved_pop3_word (dp_index p) = Inr (pass_reserved_pop3_word ! dp_index p)"
    using i by (simp add: word_at_def dissec_constants)
  show ?thesis
    using pass_word_search xs i ys w restart_inv [of "p\<lparr>dp_username := Freed\<rparr>" b]
    by (auto simp: dissec_parser_feed_def pass_word_search_handler_def free_block_def PASS_L_def
        dissec_inv_def Let_def)
next
  case pass_read
  then obtain us xs where "holds (dp_username p) (us @ [0])" "dp_index p = length xs" "holds (dp_password p) xs"
    using assms(2) by (auto simp: dissec_inv_def)
  from pass_read_handler_ok [OF assms(1) this, of b] pass_read show ?thesis
    by (auto simp: dissec_parser_feed_def)
qed

lemma dissec_consume_ok:
  "dissec_alloc_ok alloc \<Longrightarrow> dissec_inv p \<Longrightarrow>
     \<exists>p' outs. dissec_consume alloc bs p = Inr (p', outs) \<and> dissec_inv p'"
proof (induction bs arbitrary: p)
  case Nil
  then show ?case by simp
next
  case (Cons b bs)
  from dissec_feed_ok [OF Cons.prems, of b] obtain st p1 out where
    1: "dissec_parser_feed alloc p b = Inr (st, p1, out)" "dissec_inv (p1\<lparr>dp_current := st\<rparr>)" by blast
  with Cons.IH [OF Cons.prems(1) 1(2)] show ?case by auto
qed

section \<open>Allocations that fail\<close>

text \<open>
  What \<open>malloc\<close> and \<open>realloc\<close> promise: NULL, or a block of the size that was asked for. Nothing in the
  code tests for NULL. A refused block of at most 255 bytes is the only thing that can go wrong.
\<close>

definition dissec_alloc_sized :: "dissec_alloc \<Rightarrow> bool" where
  "dissec_alloc_sized alloc \<longleftrightarrow> (\<forall>n m. alloc n = Some m \<longrightarrow> length m = n)"

definition refuses_block :: "dissec_alloc \<Rightarrow> bool" where
  "refuses_block alloc \<longleftrightarrow> (\<exists>n \<le> 255. alloc n = None)"

text \<open>The allocator that gives zeros where \<open>alloc\<close> gives NULL.\<close>

definition never_null :: "dissec_alloc \<Rightarrow> dissec_alloc" where
  "never_null alloc n = Some (case alloc n of None \<Rightarrow> replicate n 0 | Some m \<Rightarrow> m)"

lemma never_null_ok: "dissec_alloc_sized alloc \<Longrightarrow> dissec_alloc_ok (never_null alloc)"
  by (auto simp: dissec_alloc_ok_def dissec_alloc_sized_def never_null_def split: option.splits)

lemma alloc_ok_sized: "dissec_alloc_ok alloc \<Longrightarrow> dissec_alloc_sized alloc \<and> \<not> refuses_block alloc"
  by (auto simp: dissec_alloc_ok_def dissec_alloc_sized_def refuses_block_def) (metis option.sel option.simps(3))+

lemma put_byte_null:
  assumes "i < 255"
  shows "put_byte alloc m i b = put_byte (never_null alloc) m i b \<or> put_byte alloc m i b = Inl Undefined \<and> refuses_block alloc"
proof (cases "i mod 5 = 0 \<and> alloc (i + 5) = None")
  case True
  then have "i mod 5 = 0" by blast
  then have "i + 5 \<le> 255" using assms by presburger
  with True have "refuses_block alloc" unfolding refuses_block_def by blast
  moreover have "put_byte alloc m i b = Inl Undefined"
    using True by (cases "i = 0"; cases m)
      (simp_all add: put_byte_def checkSize_def dissec_constants malloc_block_def realloc_block_def store_block_def)
  ultimately show ?thesis by blast
next
  case False
  then show ?thesis
    by (auto simp: put_byte_def checkSize_def dissec_constants malloc_block_def realloc_block_def never_null_def
        split: block.splits option.splits)
qed

lemma dissec_feed_null:
  "dissec_parser_feed alloc p b = dissec_parser_feed (never_null alloc) p b \<or>
   dissec_parser_feed alloc p b = Inl Undefined \<and> refuses_block alloc"
proof (cases "dp_index p \<ge> 255")
  case True
  then show ?thesis
    by (cases "dp_current p") (simp_all add: dissec_parser_feed_def user_read_handler_def pass_read_handler_def)
next
  case False
  then have i: "dp_index p < 255" by simp
  show ?thesis
    using put_byte_null [OF i, of alloc "dp_username p" b] put_byte_null [OF i, of alloc "dp_username p" 0]
      put_byte_null [OF i, of alloc "dp_password p" b] put_byte_null [OF i, of alloc "dp_password p" 0]
    by (cases "dp_current p") (auto simp: dissec_parser_feed_def user_read_handler_def pass_read_handler_def Let_def)
qed

lemma dissec_consume_null:
  "dissec_consume alloc bs p = dissec_consume (never_null alloc) bs p \<or>
   dissec_consume alloc bs p = Inl Undefined \<and> refuses_block alloc"
proof (induction bs arbitrary: p)
  case Nil
  show ?case by simp
next
  case (Cons b bs)
  show ?case
  proof (cases "dissec_parser_feed (never_null alloc) p b")
    case (Inl e)
    then show ?thesis using dissec_feed_null [of alloc p b] by auto
  next
    case (Inr r)
    obtain st p1 out where "r = (st, p1, out)" by (cases r)
    then show ?thesis using dissec_feed_null [of alloc p b] Cons.IH [of "p1\<lparr>dp_current := st\<rparr>"] Inr by auto
  qed
qed

lemma dissec_consume_sized:
  assumes "dissec_alloc_sized alloc" and "dissec_inv p"
  shows "(\<exists>p' outs. dissec_consume alloc bs p = Inr (p', outs) \<and> dissec_inv p') \<or>
    dissec_consume alloc bs p = Inl Undefined \<and> refuses_block alloc"
  using dissec_consume_null [of alloc bs p] dissec_consume_ok [OF never_null_ok [OF assms(1)] assms(2), of bs] by auto

text \<open>The first byte of a name is stored through the answer of \<open>malloc(5)\<close>.\<close>

lemma dissec_null_used:
  assumes "dp_current p = user_read" and "dp_index p = 0" and "\<not> dp_last p"
    and "alloc 5 = None" and "isascii2 b" and "b \<noteq> 0x0D"
  shows "dissec_consume alloc (b # bs) p = Inl Undefined"
proof -
  have "put_byte alloc m 0 c = Inl Undefined" for m c
    using assms(4) by (simp add: put_byte_def checkSize_def dissec_constants malloc_block_def store_block_def)
  then show ?thesis using assms by (simp add: dissec_parser_feed_def user_read_handler_def)
qed

lemma dissec_consume_append:
  "dissec_consume alloc (xs @ ys) p =
     bind_res (dissec_consume alloc xs p) (\<lambda>(p1, o1).
     bind_res (dissec_consume alloc ys p1) (\<lambda>(p2, o2). Inr (p2, o1 @ o2)))"
  by (induction xs arbitrary: p)
    (auto simp: bind_res_assoc split_def intro!: bind_res_cong)

section \<open>The credentials of a POP3 session\<close>

definition plain_text :: "byte list \<Rightarrow> bool" where
  "plain_text xs \<longleftrightarrow> (\<forall>c \<in> set xs. isascii2 c \<and> c \<noteq> 0 \<and> c \<noteq> 0x0A \<and> c \<noteq> 0x0D)"

definition crlf :: "byte list" where "crlf = [0x0D, 0x0A]"

text \<open>\<open>user <u> CRLF +OK CRLF pass <w> CRLF\<close>, as the two sides of the connection send it.\<close>

definition pop3_login :: "byte list \<Rightarrow> byte list \<Rightarrow> byte list" where
  "pop3_login u w = user_reserved_pop3_word @ u @ crlf @ pass_reserved_pop3_word @ w @ crlf"

lemma user_word_found:
  assumes "dp_current p = user_word_search" and "dissec_inv p"
  shows "\<exists>p'. dissec_consume alloc user_reserved_pop3_word p = Inr (p', []) \<and> dp_current p' = user_read \<and>
     dp_index p' = 0 \<and> \<not> dp_last p'"
proof -
  have i: "dp_index p = 0 \<or> dp_index p = 1 \<or> dp_index p = 2 \<or> dp_index p = 3 \<or> dp_index p = 4"
    and l: "\<not> dp_last p" using assms by (auto simp: dissec_inv_def)
  show ?thesis
    using i assms(1) l
    by (elim disjE) (simp_all add: dissec_parser_feed_def user_word_search_handler_def word_at_def
        dissec_constants Let_def)
qed

lemma user_text_read:
  assumes "dissec_alloc_ok alloc"
  shows "dp_current p = user_read \<Longrightarrow> \<not> dp_last p \<Longrightarrow> dp_index p = length xs \<Longrightarrow>
     holds (dp_username p) xs \<Longrightarrow> plain_text u \<Longrightarrow> length xs + length u \<le> 254 \<Longrightarrow>
     \<exists>p'. dissec_consume alloc u p = Inr (p', []) \<and> dp_current p' = user_read \<and> \<not> dp_last p' \<and>
        dp_index p' = length (xs @ u) \<and> holds (dp_username p') (xs @ u)"
proof (induction u arbitrary: p xs)
  case Nil
  then show ?case by simp
next
  case (Cons c u)
  obtain ys where ys: "put_byte alloc (dp_username p) (dp_index p) c = Inr (Block ys)" "holds (Block ys) (xs @ [c])"
    using put_byte_holds [OF assms Cons.prems(4), of c] Cons.prems(3) by auto
  let ?p = "p\<lparr>dp_index := dp_index p + 1, dp_username := Block ys, dp_current := user_read\<rparr>"
  have feed: "dissec_parser_feed alloc p c =
      Inr (user_read, p\<lparr>dp_index := dp_index p + 1, dp_username := Block ys\<rparr>, None)"
    using Cons.prems ys by (simp add: dissec_parser_feed_def user_read_handler_def plain_text_def)
  have "plain_text u" using Cons.prems(5) by (simp add: plain_text_def)
  from Cons.IH [OF _ _ _ _ this, of ?p "xs @ [c]"] Cons.prems ys(2) feed
  show ?case by auto
qed

lemma user_line_end:
  assumes "dissec_alloc_ok alloc" and "dp_current p = user_read" and "\<not> dp_last p"
    and "dp_index p = length u" and "holds (dp_username p) u" and "length u \<le> 254"
  shows "\<exists>p'. dissec_consume alloc crlf p = Inr (p', []) \<and> dp_current p' = pass_word_search \<and>
     dp_index p' = 0 \<and> \<not> dp_last p' \<and> holds (dp_username p') (u @ [0])"
proof -
  obtain ys where "put_byte alloc (dp_username p) (dp_index p) 0 = Inr (Block ys)" "holds (Block ys) (u @ [0])"
    using put_byte_holds [OF assms(1,5), of 0] assms(4) by auto
  then show ?thesis
    using assms by (simp add: crlf_def dissec_parser_feed_def user_read_handler_def)
qed

lemma pass_word_found:
  assumes "dp_current p = pass_word_search" and "dp_index p = 0"
  shows "dissec_consume alloc pass_reserved_pop3_word p =
     Inr (p\<lparr>dp_index := 0, dp_current := pass_read\<rparr>, [])"
  using assms
  by (simp add: dissec_parser_feed_def pass_word_search_handler_def word_at_def dissec_constants Let_def)

lemma pass_text_read:
  assumes "dissec_alloc_ok alloc"
  shows "dp_current p = pass_read \<Longrightarrow> \<not> dp_last p \<Longrightarrow> dp_index p = length xs \<Longrightarrow>
     holds (dp_password p) xs \<Longrightarrow> plain_text w \<Longrightarrow> length xs + length w \<le> 254 \<Longrightarrow>
     \<exists>p'. dissec_consume alloc w p = Inr (p', []) \<and> dp_current p' = pass_read \<and> \<not> dp_last p' \<and>
        dp_index p' = length (xs @ w) \<and> holds (dp_password p') (xs @ w) \<and> dp_username p' = dp_username p"
proof (induction w arbitrary: p xs)
  case Nil
  then show ?case by simp
next
  case (Cons c w)
  obtain ys where ys: "put_byte alloc (dp_password p) (dp_index p) c = Inr (Block ys)" "holds (Block ys) (xs @ [c])"
    using put_byte_holds [OF assms Cons.prems(4), of c] Cons.prems(3) by auto
  let ?p = "p\<lparr>dp_index := dp_index p + 1, dp_password := Block ys, dp_current := pass_read\<rparr>"
  have feed: "dissec_parser_feed alloc p c =
      Inr (pass_read, p\<lparr>dp_index := dp_index p + 1, dp_password := Block ys\<rparr>, None)"
    using Cons.prems ys by (simp add: dissec_parser_feed_def pass_read_handler_def plain_text_def Let_def)
  have "plain_text w" using Cons.prems(5) by (simp add: plain_text_def)
  from Cons.IH [OF _ _ _ _ this, of ?p "xs @ [c]"] Cons.prems ys(2) feed
  show ?case by auto
qed

lemma pass_line_end:
  assumes "dissec_alloc_ok alloc" and "dp_current p = pass_read" and "\<not> dp_last p"
    and "dp_index p = length w" and "holds (dp_password p) w" and "length w \<le> 254"
    and "holds (dp_username p) (u @ [0])" and "0 \<notin> set u" and "0 \<notin> set w"
  shows "\<exists>p'. dissec_consume alloc crlf p = Inr (p', [(u, w)]) \<and> dp_current p' = user_word_search \<and>
     dp_index p' = 0 \<and> \<not> dp_last p'"
proof -
  obtain ys where ys: "put_byte alloc (dp_password p) (dp_index p) 0 = Inr (Block ys)" "holds (Block ys) (w @ [0])"
    using put_byte_holds [OF assms(1,5), of 0] assms(4) by auto
  obtain us where us: "dp_username p = Block us" using holds_Block [OF assms(7)] by blast
  have "read_string (Block us) = Inr u" "read_string (Block ys) = Inr w"
    using holds_string assms(7,8,9) ys(2) us by auto
  then show ?thesis
    using assms ys us
    by (simp add: crlf_def dissec_parser_feed_def pass_read_handler_def pass_read_reset_def free_block_def
        restart_def dissec_constants Let_def)
qed

lemma plain_text_no_zero: "plain_text xs \<Longrightarrow> 0 \<notin> set xs"
  by (auto simp: plain_text_def)

lemma pop3_login_found:
  assumes "dissec_alloc_ok alloc" and "dissec_inv p" and "dp_current p = user_word_search"
    and "plain_text u" and "length u \<le> 254" and "plain_text w" and "length w \<le> 254"
  shows "\<exists>p'. dissec_consume alloc (pop3_login u w) p = Inr (p', [(u, w)]) \<and>
     dp_current p' = user_word_search \<and> dissec_inv p'"
proof -
  obtain p1 where p1: "dissec_consume alloc user_reserved_pop3_word p = Inr (p1, [])"
      "dp_current p1 = user_read" "dp_index p1 = 0" "\<not> dp_last p1"
    using user_word_found [OF assms(3,2)] by blast
  obtain p2 where p2: "dissec_consume alloc u p1 = Inr (p2, [])" "dp_current p2 = user_read"
      "\<not> dp_last p2" "dp_index p2 = length u" "holds (dp_username p2) u"
    using user_text_read [OF assms(1) p1(2,4), of "[]" u] p1(3) assms(4,5) by auto
  obtain p3 where p3: "dissec_consume alloc crlf p2 = Inr (p3, [])" "dp_current p3 = pass_word_search"
      "dp_index p3 = 0" "\<not> dp_last p3" "holds (dp_username p3) (u @ [0])"
    using user_line_end [OF assms(1) p2(2-5) assms(5)] by blast
  let ?p4 = "p3\<lparr>dp_index := 0, dp_current := pass_read\<rparr>"
  obtain p5 where p5: "dissec_consume alloc w ?p4 = Inr (p5, [])" "dp_current p5 = pass_read"
      "\<not> dp_last p5" "dp_index p5 = length w" "holds (dp_password p5) w" "dp_username p5 = dp_username p3"
    using pass_text_read [OF assms(1), of ?p4 "[]" w] p3(4) assms(6,7) by auto
  obtain p6 where p6: "dissec_consume alloc crlf p5 = Inr (p6, [(u, w)])"
      "dp_current p6 = user_word_search" "dp_index p6 = 0" "\<not> dp_last p6"
    using pass_line_end [OF assms(1) p5(2-5) assms(7)] p3(5) p5(6) assms(4,6) plain_text_no_zero by auto
  show ?thesis
    using p1(1) p2(1) p3(1) pass_word_found [OF p3(2,3)] p5(1) p6
    by (simp add: pop3_login_def dissec_consume_append dissec_inv_def)
qed

text \<open>The same, however the two sides of the session cut the bytes into segments.\<close>

fun dissec_segments :: "dissec_alloc \<Rightarrow> byte list list \<Rightarrow> dissec_parser \<Rightarrow> (dissec_parser \<times> credential list) res" where
  "dissec_segments alloc [] p = Inr (p, [])"
| "dissec_segments alloc (bs # bss) p =
     bind_res (dissec_consume alloc bs p) (\<lambda>(p1, o1).
     bind_res (dissec_segments alloc bss p1) (\<lambda>(p2, o2). Inr (p2, o1 @ o2)))"

lemma dissec_segments_concat: "dissec_segments alloc bss p = dissec_consume alloc (concat bss) p"
  by (induction bss arbitrary: p) (simp_all add: dissec_consume_append)

end
