(* ===== verification/Connection.thy ===== *)
theory Connection
  imports Stm Selector MyParser Hello_Parser Request_Parser Dissector
begin

text \<open>
  The state of the server and of one connection: \<open>src/include/socks5nio.h\<close>,
  \<open>src/include/mng_nio.h\<close>, \<open>src/include/states.h\<close> and the globals of \<open>src/src/main.c\<close>. The
  unions of \<open>struct socks5\<close> are datatypes with one constructor per member; reading another
  member than the one written last is \<open>Inl Undefined\<close>, except the all-zero union that
  \<open>memset\<close> leaves. Outside COPY the stage pointers \<open>rb\<close> and \<open>wb\<close> always are the connection's
  \<open>read_buffer\<close> and \<open>write_buffer\<close> and are read directly. \<open>debug\<close> output is left out.
\<close>

section \<open>Enumerations\<close>

datatype socks_v5state =
    HELLO_READ | HELLO_WRITE | USERPASS_READ | USERPASS_WRITE | REQUEST_READ | REQUEST_RESOLV
  | REQUEST_CONNECTING | REQUEST_WRITE | COPY | DONE | ERROR

fun socks_code :: "socks_v5state \<Rightarrow> nat" where
  "socks_code HELLO_READ = 0"
| "socks_code HELLO_WRITE = 1"
| "socks_code USERPASS_READ = 2"
| "socks_code USERPASS_WRITE = 3"
| "socks_code REQUEST_READ = 4"
| "socks_code REQUEST_RESOLV = 5"
| "socks_code REQUEST_CONNECTING = 6"
| "socks_code REQUEST_WRITE = 7"
| "socks_code COPY = 8"
| "socks_code DONE = 9"
| "socks_code ERROR = 10"

datatype mng_state =
    MNG_HELLO_READ | MNG_HELLO_WRITE | MNG_USERPASS_READ | MNG_USERPASS_WRITE
  | MNG_REQUEST_READ_INDEX | MNG_REQUEST_READ | MNG_REQUEST_WRITE | MNG_DONE | MNG_ERROR

fun mng_code :: "mng_state \<Rightarrow> nat" where
  "mng_code MNG_HELLO_READ = 0"
| "mng_code MNG_HELLO_WRITE = 1"
| "mng_code MNG_USERPASS_READ = 2"
| "mng_code MNG_USERPASS_WRITE = 3"
| "mng_code MNG_REQUEST_READ_INDEX = 4"
| "mng_code MNG_REQUEST_READ = 5"
| "mng_code MNG_REQUEST_WRITE = 6"
| "mng_code MNG_DONE = 7"
| "mng_code MNG_ERROR = 8"

datatype hello_status = HELLO_ERROR | HELLO_SUCCESS

datatype auth_status = AUTH_ERROR | AUTH_SUCCESS

datatype socks_reply_status =
    status_succeeded | status_general_socks_server_failure | status_connection_not_allowed_by_ruleset
  | status_network_unreachable | status_host_unreachable | status_connection_refused
  | status_ttl_expired | status_command_not_supported | status_address_type_not_supported

fun reply_code :: "socks_reply_status \<Rightarrow> byte" where
  "reply_code status_succeeded = 0x00"
| "reply_code status_general_socks_server_failure = 0x01"
| "reply_code status_connection_not_allowed_by_ruleset = 0x02"
| "reply_code status_network_unreachable = 0x03"
| "reply_code status_host_unreachable = 0x04"
| "reply_code status_connection_refused = 0x05"
| "reply_code status_ttl_expired = 0x06"
| "reply_code status_command_not_supported = 0x07"
| "reply_code status_address_type_not_supported = 0x08"

datatype mng_reply_status =
  mng_status_succeeded | mng_status_server_error | mng_status_index_not_supported | mng_status_max_users_reached

fun mng_reply_code :: "mng_reply_status \<Rightarrow> byte" where
  "mng_reply_code mng_status_succeeded = 0x00"
| "mng_reply_code mng_status_server_error = 0x01"
| "mng_reply_code mng_status_index_not_supported = 0x02"
| "mng_reply_code mng_status_max_users_reached = 0x03"

section \<open>Stages of a connection\<close>

text \<open>A pointer to memory that only this pointer owns.\<close>

datatype 'a ptr = Null_ptr | Freed_ptr | Ptr 'a

text \<open>
  A table-driven parser under construction: no parser, a parser whose \<open>states\<close> is NULL, a
  parser of which some state could not be allocated (the flag tells whether every
  \<open>states[i]\<close> has been assigned), a complete parser, a parser that has been freed.
\<close>

datatype parser_ptr = No_parser | Parser_bare | Parser_partial bool | Parser_ready parser | Parser_freed

record hello_st =
  hs_parser :: "hello_parser ptr"
  hs_method :: byte
  hs_status :: hello_status

record userpass_st =
  up_parser :: parser_ptr
  up_status :: auth_status

record request_st =
  rs_parser :: "request_parser ptr"
  rs_addr_family :: byte
  rs_status :: socks_reply_status

record mng_request_st =
  ms_parser :: parser_ptr
  ms_status :: mng_reply_status
  ms_index :: byte

record connecting =
  cn_client_fd :: int
  cn_origin_fd :: int
  cn_status :: socks_reply_status

datatype buffer_name = Read_buffer | Write_buffer
datatype side = Client_side | Origin_side

record copy_st =
  cp_fd :: int
  cp_rb :: buffer_name
  cp_wb :: buffer_name
  cp_interest :: fd_interest
  cp_other :: side

datatype client_stage =
    Client_zero | Client_hello hello_st | Client_userpass userpass_st | Client_request request_st
  | Client_mng mng_request_st | Client_copy copy_st

datatype origin_stage = Orig_zero | Orig_conn connecting | Orig_copy copy_st

record addrinfo =
  ai_family :: int
  ai_addrlen :: nat
  ai_addr :: sockaddr

record socks5 =
  client_fd :: int
  client_addr :: sockaddr
  origin_resolution :: "addrinfo list"
  origin_resolution_current :: "addrinfo list"
  origin_addr :: sockaddr
  origin_addr_len :: nat
  origin_domain :: int
  origin_fd :: int
  conn_stm :: state_machine
  error_state :: nat
  done_state :: nat
  isSocks :: bool
  client :: client_stage
  orig :: origin_stage
  read_buffer :: buffer
  write_buffer :: buffer
  references :: "32 word"
  authentication :: byte
  userIndex :: nat
  conn_dissec :: dissec_parser

section \<open>The server\<close>

text \<open>\<open>struct users\<close>; NULL is \<open>None\<close>.\<close>

record user =
  user_name :: "byte list option"
  user_pass :: "byte list option"

definition MAX_USERS :: nat where "MAX_USERS = 255"

record metrics =
  metrics_historic_connections :: "64 word"
  metrics_concurrent_connections :: "64 word"
  metrics_max_concurrent_connections :: "64 word"
  metrics_historic_byte_transfer :: "64 word"
  metrics_historic_auth_attempts :: "64 word"
  metrics_historic_connections_attempts :: "64 word"
  total_reads :: "64 word"
  metrics_average_bytes_per_read :: "64 word"
  total_writes :: "64 word"
  metrics_average_bytes_per_write :: "64 word"

text \<open>
  What the process does outside its memory, in order: socket calls (\<open>Received\<close> only in COPY),
  the access log and the sniffed credentials.
\<close>

datatype event =
    Sent int "byte list" | Received int "byte list" | Shut_rd int | Shut_wr int | Closed int
  | Access nat sockaddr sockaddr socks_reply_status
  | Sniffed nat credential

datatype handler_id = Socks5_handler | Mng_handler | Socks5_passive | Mng_passive

record server =
  sv_selector :: "(handler_id, nat) fdselector"
  sv_heap :: "nat \<Rightarrow> socks5 option"
  sv_next :: nat
  sv_pool :: "nat list"
  sv_pool_size :: nat
  sv_mng_pool :: "nat list"
  sv_mng_pool_size :: nat
  auth_method :: byte
  password_dissectors :: byte
  sv_users :: "user list"
  nusers :: nat
  sv_admins :: "user list"
  nadmins :: nat
  sv_metrics :: metrics
  sv_threads :: "(int \<times> nat) list"
  sv_log :: "event list"

text \<open>
  The answers of the C library and of the kernel during one handler call. They travel with
  the selector key. \<open>os_recv fd n\<close> is \<open>None\<close> for -1; \<open>os_connect\<close> is 0 or the \<open>errno\<close>;
  \<open>os_getaddrinfo\<close> is the result list, empty when the call fails.
\<close>

datatype alloc_site =
    Alloc_conn | Alloc_hello_parser | Alloc_parser | Alloc_states | Alloc_substate nat | Alloc_result nat
  | Alloc_request_parser | Alloc_key | Alloc_job | Alloc_items | Alloc_selector

record os =
  os_alloc :: "alloc_site \<Rightarrow> bool"
  os_block :: allocator
  os_sniff :: dissec_alloc
  os_request :: "nat \<Rightarrow> request option"
  os_recv :: "int \<Rightarrow> nat \<Rightarrow> byte list option"
  os_send :: "int \<Rightarrow> byte list \<Rightarrow> int"
  os_socket :: "int \<Rightarrow> int"
  os_connect :: "int \<Rightarrow> sockaddr \<Rightarrow> nat \<Rightarrow> int"
  os_sockopt :: "int \<Rightarrow> int option"
  os_getfd :: "int \<Rightarrow> int"
  os_setfl :: "int \<Rightarrow> 32 word \<Rightarrow> int"
  os_pthread_create :: int
  os_accept :: "int \<Rightarrow> (int \<times> sockaddr) option"
  os_getaddrinfo :: "byte list \<Rightarrow> byte list \<Rightarrow> addrinfo list"

text \<open>What the manuals of these calls promise.\<close>

definition os_ok :: "os \<Rightarrow> bool" where
  "os_ok k \<longleftrightarrow>
     (\<forall>fd n xs. os_recv k fd n = Some xs \<longrightarrow> length xs \<le> n) \<and>
     (\<forall>fd xs. -1 \<le> os_send k fd xs \<and> os_send k fd xs \<le> int (length xs)) \<and>
     allocator_ok (os_block k)"

record skey =
  key_fd :: int
  key_data :: nat
  key_os :: os

section \<open>Computations over the server\<close>

type_synonym 'a srv = "server \<Rightarrow> ('a \<times> server) res"

definition ret_sv :: "'a \<Rightarrow> 'a srv" where "ret_sv x = (\<lambda>w. Inr (x, w))"

definition fail_sv :: "fault \<Rightarrow> 'a srv" where "fail_sv e = (\<lambda>w. Inl e)"

definition bind_sv :: "'a srv \<Rightarrow> ('a \<Rightarrow> 'b srv) \<Rightarrow> 'b srv" where
  "bind_sv m f = (\<lambda>w. bind_res (m w) (\<lambda>(x, w'). f x w'))"

definition lift_sv :: "'a res \<Rightarrow> 'a srv" where
  "lift_sv m = (\<lambda>w. bind_res m (\<lambda>x. Inr (x, w)))"

definition get_sv :: "(server \<Rightarrow> 'a) \<Rightarrow> 'a srv" where "get_sv f = (\<lambda>w. Inr (f w, w))"

definition modify_sv :: "(server \<Rightarrow> server) \<Rightarrow> unit srv" where "modify_sv f = (\<lambda>w. Inr ((), f w))"

definition get_conn :: "skey \<Rightarrow> socks5 srv" where
  "get_conn k = (\<lambda>w. case sv_heap w (key_data k) of None \<Rightarrow> Inl Undefined | Some d \<Rightarrow> Inr (d, w))"

definition put_conn :: "skey \<Rightarrow> socks5 \<Rightarrow> unit srv" where
  "put_conn k d = modify_sv (\<lambda>w. w\<lparr>sv_heap := (sv_heap w)(key_data k \<mapsto> d)\<rparr>)"

definition emit :: "event \<Rightarrow> unit srv" where
  "emit e = modify_sv (\<lambda>w. w\<lparr>sv_log := sv_log w @ [e]\<rparr>)"

definition set_interest :: "int \<Rightarrow> fd_interest \<Rightarrow> selector_status srv" where
  "set_interest fd i = (\<lambda>w. bind_res (selector_set_interest (sv_selector w) fd i)
     (\<lambda>(st, s). Inr (st, w\<lparr>sv_selector := s\<rparr>)))"

definition set_interest_key :: "skey \<Rightarrow> fd_interest \<Rightarrow> selector_status srv" where
  "set_interest_key k i = (\<lambda>w. bind_res (selector_set_interest_key (sv_selector w) (key_fd k) i)
     (\<lambda>(st, s). Inr (st, w\<lparr>sv_selector := s\<rparr>)))"

definition modify_metrics :: "(metrics \<Rightarrow> metrics) \<Rightarrow> unit srv" where
  "modify_metrics f = modify_sv (\<lambda>w. w\<lparr>sv_metrics := f (sv_metrics w)\<rparr>)"

text \<open>
  The receiving idiom of the stages: \<open>buffer_write_ptr\<close>, \<open>recv\<close>, \<open>buffer_write_adv\<close>. \<open>None\<close>
  stands for \<open>n <= 0\<close>. The sending idiom: \<open>buffer_read_ptr\<close>, \<open>send\<close>, \<open>buffer_read_adv\<close>;
  \<open>None\<close> stands for \<open>n == -1\<close>.
\<close>

definition recv_into :: "skey \<Rightarrow> (nat \<Rightarrow> nat) \<Rightarrow> buffer \<Rightarrow> (byte list \<times> buffer) option res" where
  "recv_into k amount b =
     bind_res (buffer_write_ptr b) (\<lambda>(p, count).
     case os_recv (key_os k) (key_fd k) (amount count) of
       None \<Rightarrow> Inr None
     | Some xs \<Rightarrow> if xs = [] then Inr None
                 else bind_res (buffer_put b xs) (\<lambda>b'. Inr (Some (xs, b'))))"

definition send_from :: "skey \<Rightarrow> buffer \<Rightarrow> buffer option srv" where
  "send_from k b =
     bind_sv (lift_sv (buffer_pending b)) (\<lambda>xs.
     let n = os_send (key_os k) (key_fd k) xs
     in if n = -1 then ret_sv None
        else bind_sv (emit (Sent (key_fd k) (take (nat n) xs))) (\<lambda>_.
             bind_sv (lift_sv (buffer_read_adv b n)) (\<lambda>b'. ret_sv (Some b'))))"

text \<open>\<open>request_marshall\<close> of \<open>src/src/Etapas/request.c\<close>, used by several stages.\<close>

definition request_marshall :: "socks_reply_status \<Rightarrow> buffer \<Rightarrow> (int \<times> buffer) res" where
  "request_marshall status b =
     bind_res (buffer_write_ptr b) (\<lambda>(p, count).
       if count < 10 then Inr (-1, b)
       else bind_res (buffer_put b [0x05, reply_code status, 0x00, socks_req_addrtype_ipv4,
                                    0x00, 0x00, 0x00, 0x00, 0x00, 0x00]) (\<lambda>b'. Inr (10, b')))"

lemmas sv_simps = ret_sv_def fail_sv_def bind_sv_def lift_sv_def get_sv_def modify_sv_def get_conn_def
  put_conn_def emit_def set_interest_def set_interest_key_def modify_metrics_def

section \<open>What the idioms do\<close>

lemma recv_into_spec:
  assumes "os_ok (key_os k)" and "buffer_inv b"
  shows "recv_into k (\<lambda>n. n) b = Inr None \<or>
    (\<exists>xs b'. os_recv (key_os k) (key_fd k) (buffer_free b) = Some xs \<and> xs \<noteq> [] \<and>
       recv_into k (\<lambda>n. n) b = Inr (Some (xs, b')) \<and> buffer_inv b' \<and>
       buffer_content b' = buffer_content b @ xs \<and> buf_limit b' = buf_limit b)"
proof (cases "os_recv (key_os k) (key_fd k) (buffer_free b)")
  case None
  then show ?thesis using assms(2) by (simp add: recv_into_def)
next
  case (Some xs)
  then have "length xs \<le> buffer_free b" using assms(1) by (simp add: os_ok_def)
  from buffer_put_spec [OF assms(2) this] Some assms(2) show ?thesis
    by (auto simp: recv_into_def)
qed

lemma recv_into_data:
  assumes "buffer_inv b" and "os_recv (key_os k) (key_fd k) (buffer_free b) = Some xs" and "xs \<noteq> []"
    and "length xs \<le> buffer_free b"
  shows "\<exists>b'. recv_into k (\<lambda>n. n) b = Inr (Some (xs, b')) \<and> buffer_inv b' \<and>
     buffer_content b' = buffer_content b @ xs \<and> buf_limit b' = buf_limit b"
  using buffer_put_spec [OF assms(1,4)] assms by (auto simp: recv_into_def)

lemma send_from_spec:
  assumes "os_ok (key_os k)" and "buffer_inv b"
  shows "send_from k b w = Inr (None, w) \<or>
    (\<exists>n b'. n \<le> length (buffer_content b) \<and>
       os_send (key_os k) (key_fd k) (buffer_content b) = int n \<and>
       send_from k b w =
         Inr (Some b', w\<lparr>sv_log := sv_log w @ [Sent (key_fd k) (take n (buffer_content b))]\<rparr>) \<and>
       buffer_inv b' \<and> buffer_content b' = drop n (buffer_content b) \<and> buf_limit b' = buf_limit b)"
proof -
  let ?n = "os_send (key_os k) (key_fd k) (buffer_content b)"
  have n: "-1 \<le> ?n" "?n \<le> int (length (buffer_content b))"
    using assms(1) by (auto simp: os_ok_def)
  show ?thesis
  proof (cases "?n = -1")
    case True
    then show ?thesis using assms(2) by (simp add: send_from_def sv_simps)
  next
    case False
    then have n0: "0 \<le> ?n" using n by simp
    from buffer_read_adv_spec [OF assms(2) n0 n(2)] obtain b' where b':
      "buffer_read_adv b ?n = Inr b'" "buffer_inv b'"
      "buffer_content b' = drop (nat ?n) (buffer_content b)" "buf_limit b' = buf_limit b" by blast
    have "nat ?n \<le> length (buffer_content b)" "?n = int (nat ?n)" using n n0 by linarith+
    moreover have "send_from k b w =
        Inr (Some b', w\<lparr>sv_log := sv_log w @ [Sent (key_fd k) (take (nat ?n) (buffer_content b))]\<rparr>)"
      using False b' assms(2) by (simp add: send_from_def sv_simps Let_def)
    ultimately show ?thesis using b' by blast
  qed
qed

lemma request_marshall_spec:
  assumes "buffer_inv b"
  shows "buffer_free b < 10 \<Longrightarrow> request_marshall st b = Inr (-1, b)"
    and "10 \<le> buffer_free b \<Longrightarrow> \<exists>b'. request_marshall st b = Inr (10, b') \<and> buffer_inv b' \<and>
       buf_limit b' = buf_limit b \<and>
       buffer_content b' = buffer_content b @ [5, reply_code st, 0, 1, 0, 0, 0, 0, 0, 0]"
  using assms buffer_put_spec [OF assms, of "[5, reply_code st, 0, 1, 0, 0, 0, 0, 0, 0]"]
  by (auto simp: request_marshall_def request_constants)

definition registered :: "server \<Rightarrow> int \<Rightarrow> (handler_id, nat) item \<Rightarrow> bool" where
  "registered w fd it \<longleftrightarrow> sel_full (sv_selector w) \<and> sel_lookup (sv_selector w) fd = Some it"

lemma set_interest_ok:
  assumes "registered w fd it"
  shows "\<exists>s. set_interest fd i w = Inr (SELECTOR_SUCCESS, w\<lparr>sv_selector := s\<rparr>) \<and> sel_full s \<and>
    sel_lookup s = (sel_lookup (sv_selector w))(fd \<mapsto> it\<lparr>item_interest := i\<rparr>)"
  using assms selector_set_interest_spec [of "sv_selector w" fd it i] sel_full_inv [of "sv_selector w"]
  by (auto simp: registered_def set_interest_def sel_full_def)

lemma set_interest_lookup:
  assumes "registered w fd it" and "set_interest fd i w = Inr (st, w')"
  shows "sel_lookup (sv_selector w') = (sel_lookup (sv_selector w))(fd \<mapsto> it\<lparr>item_interest := i\<rparr>)"
  using set_interest_ok [OF assms(1), of i] assms(2) by auto

lemma set_interest_key_ok:
  assumes "registered w (key_fd k) it"
  shows "\<exists>s. set_interest_key k i w = Inr (SELECTOR_SUCCESS, w\<lparr>sv_selector := s\<rparr>) \<and> sel_full s \<and>
    sel_lookup s = (sel_lookup (sv_selector w))(key_fd k \<mapsto> it\<lparr>item_interest := i\<rparr>)"
  using set_interest_ok [OF assms, of i]
  by (simp add: set_interest_def set_interest_key_def selector_set_interest_key_eq)

lemma set_interest_unknown:
  assumes "sel_full (sv_selector w)" and "sel_lookup (sv_selector w) fd = None"
  shows "set_interest fd i w = Inr (SELECTOR_IARGS, w)"
  using selector_set_interest_unknown [OF assms(2) sel_full_room [OF assms(1)], of i]
  by (simp add: set_interest_def)

lemma set_interest_total:
  assumes "sel_full (sv_selector w)"
  shows "\<exists>ss s. set_interest fd i w = Inr (ss, w\<lparr>sv_selector := s\<rparr>) \<and> sel_full s"
proof (cases "sel_lookup (sv_selector w) fd")
  case None
  have "w = w\<lparr>sv_selector := sv_selector w\<rparr>" by (cases w) simp
  then show ?thesis using set_interest_unknown [OF assms None, of i] assms by metis
next
  case (Some it)
  then show ?thesis using set_interest_ok [of w fd it i] assms by (auto simp: registered_def)
qed

lemma registered_heap [simp]:
  "registered (w\<lparr>sv_heap := h\<rparr>) fd it = registered w fd it"
  "registered (w\<lparr>sv_log := l\<rparr>) fd it = registered w fd it"
  "registered (w\<lparr>sv_metrics := m\<rparr>) fd it = registered w fd it"
  by (simp_all add: registered_def)

text \<open>The connection of a key, with sound buffers.\<close>

definition at_conn :: "skey \<Rightarrow> server \<Rightarrow> socks5 \<Rightarrow> bool" where
  "at_conn k w d \<longleftrightarrow> sv_heap w (key_data k) = Some d \<and> buffer_inv (read_buffer d) \<and>
     buffer_inv (write_buffer d)"

lemma get_conn_at [simp]: "at_conn k w d \<Longrightarrow> get_conn k w = Inr (d, w)"
  by (simp add: at_conn_def get_conn_def)

text \<open>The server after an update of the connection of \<open>k\<close> and of the selector.\<close>

definition conn_update :: "skey \<Rightarrow> socks5 \<Rightarrow> (handler_id, nat) fdselector \<Rightarrow> server \<Rightarrow> server" where
  "conn_update k d s w = w\<lparr>sv_heap := (sv_heap w)(key_data k \<mapsto> d), sv_selector := s\<rparr>"

lemma conn_update_simps [simp]:
  "sv_heap (conn_update k d s w) = (sv_heap w)(key_data k \<mapsto> d)"
  "sv_selector (conn_update k d s w) = s"
  "sv_log (conn_update k d s w) = sv_log w"
  "sv_metrics (conn_update k d s w) = sv_metrics w"
  "sv_users (conn_update k d s w) = sv_users w"
  "nusers (conn_update k d s w) = nusers w"
  by (simp_all add: conn_update_def)

text \<open>
  What a handler has done to the world: it updated the connection of \<open>k\<close> (now \<open>d\<close>), the selector
  (whose entries now are \<open>L\<close>), the metrics, and wrote \<open>l\<close> to the log.
\<close>

definition same_rest :: "server \<Rightarrow> server \<Rightarrow> bool" where
  "same_rest w w' \<longleftrightarrow> sv_next w' = sv_next w \<and> sv_pool w' = sv_pool w \<and> sv_pool_size w' = sv_pool_size w \<and>
     sv_mng_pool w' = sv_mng_pool w \<and> sv_mng_pool_size w' = sv_mng_pool_size w \<and> auth_method w' = auth_method w \<and>
     password_dissectors w' = password_dissectors w \<and> sv_users w' = sv_users w \<and> nusers w' = nusers w \<and>
     sv_admins w' = sv_admins w \<and> nadmins w' = nadmins w \<and> sv_threads w' = sv_threads w"

definition moved :: "skey \<Rightarrow> server \<Rightarrow> (int \<Rightarrow> (handler_id, nat) item option) \<Rightarrow> socks5 \<Rightarrow> event list \<Rightarrow>
    server \<Rightarrow> bool" where
  "moved k w L d l w' \<longleftrightarrow> sv_heap w' = (sv_heap w)(key_data k \<mapsto> d) \<and> sv_log w' = sv_log w @ l \<and>
     sel_full (sv_selector w') \<and> sel_lookup (sv_selector w') = L \<and> same_rest w w'"

lemma same_rest_refl [simp]: "same_rest w w"
  by (simp add: same_rest_def)

lemma moved_trans:
  "moved k w L d l v \<Longrightarrow> moved k v L' d' l' w' \<Longrightarrow> moved k w L' d' (l @ l') w'"
  by (simp add: moved_def same_rest_def)

lemma moved_conn: "moved k w L d l v \<Longrightarrow> sv_heap v (key_data k) = Some d"
  by (simp add: moved_def)

lemma moved_put:
  "moved k w L d l v \<Longrightarrow> moved k w L d' l (v\<lparr>sv_heap := (sv_heap v)(key_data k \<mapsto> d')\<rparr>)"
  by (auto simp: moved_def same_rest_def)

lemma moved_from:
  "moved k (w\<lparr>sv_heap := (sv_heap w)(key_data k \<mapsto> x)\<rparr>) L d l v \<Longrightarrow> moved k w L d l v"
  by (auto simp: moved_def same_rest_def)

text \<open>A segment has arrived for the descriptor \<open>fd\<close> of the connection \<open>i\<close>: \<open>recv\<close> gives it when it has room for it.\<close>

definition arrives_at :: "nat \<Rightarrow> int \<Rightarrow> byte list \<Rightarrow> skey \<Rightarrow> bool" where
  "arrives_at i fd xs k \<longleftrightarrow> key_data k = i \<and> key_fd k = fd \<and> xs \<noteq> [] \<and>
     (\<forall>n \<ge> length xs. os_recv (key_os k) fd n = Some xs)"

end
