(* ===== verification/Hello_Stage.thy ===== *)
theory Hello_Stage
  imports Connection
begin

text \<open>
  The states HELLO_READ and HELLO_WRITE (\<open>src/src/Etapas/hello.c\<close>), shared by the SOCKS and
  the management connections: hooks and handlers over the state of the server.
\<close>

section \<open>Hooks and handlers\<close>

definition with_hello :: "skey \<Rightarrow> (socks5 \<Rightarrow> hello_st \<Rightarrow> 'a srv) \<Rightarrow> 'a srv" where
  "with_hello k f = bind_sv (get_conn k) (\<lambda>d.
     case client d of Client_hello h \<Rightarrow> f d h | _ \<Rightarrow> fail_sv Undefined)"

definition hello_read_init :: "nat \<Rightarrow> skey \<Rightarrow> server \<Rightarrow> server res" where
  "hello_read_init st k w =
     bind_res (bind_sv (get_conn k) (\<lambda>d.
       if \<not> os_alloc (key_os k) Alloc_hello_parser
       then put_conn k (d\<lparr>client := Client_hello
              \<lparr>hs_parser = Null_ptr, hs_method = 0xFF, hs_status = HELLO_ERROR\<rparr>\<rparr>)
       else bind_sv (get_sv auth_method) (\<lambda>am.
              let p = hello_parser_init \<lparr>hp_on_method = Some on_hello_method,
                    hp_version = (if isSocks d then SOCKS_VERSION else MNG_VERSION),
                    hp_method = (if isSocks d then am else MNG_AUTH_METHOD),
                    hp_state = hello_version, hp_remaining = 0\<rparr>
              in put_conn k (d\<lparr>client := Client_hello
                   \<lparr>hs_parser = Ptr p, hs_method = 0xFF, hs_status = HELLO_SUCCESS\<rparr>\<rparr>))) w)
     (\<lambda>(_, w'). Inr w')"

definition hello_write_init :: "nat \<Rightarrow> skey \<Rightarrow> server \<Rightarrow> server res" where
  "hello_write_init st k w = bind_res (with_hello k (\<lambda>d h. ret_sv ()) w) (\<lambda>(_, w'). Inr w')"

text \<open>\<open>hello_process\<close>: the next state, or \<open>None\<close> for -1, and the write buffer.\<close>

definition hello_process :: "hello_st \<Rightarrow> byte \<Rightarrow> buffer \<Rightarrow> (nat option \<times> buffer) res" where
  "hello_process h version wb =
     bind_res (hello_marshal wb (hs_method h) version) (\<lambda>(n, wb').
       Inr (if n = -1 then None else Some (socks_code HELLO_WRITE), wb'))"

definition hello_read :: "skey \<Rightarrow> nat srv" where
  "hello_read k = with_hello k (\<lambda>d h.
     if hs_status h = HELLO_ERROR then ret_sv (error_state d)
     else bind_sv (lift_sv (recv_into k (\<lambda>n. n) (read_buffer d))) (\<lambda>r.
       case r of
         None \<Rightarrow> ret_sv (error_state d)
       | Some (xs, rb) \<Rightarrow>
           (case hs_parser h of
              Ptr p \<Rightarrow>
                bind_sv (lift_sv (hello_consume rb p (hs_method h) False)) (\<lambda>((p', m', st, error), rb').
                let h' = h\<lparr>hs_parser := Ptr p', hs_method := m'\<rparr>;
                    d' = d\<lparr>client := Client_hello h', read_buffer := rb'\<rparr>
                in if hello_is_done st
                   then bind_sv (put_conn k d') (\<lambda>_.
                        bind_sv (set_interest_key k OP_WRITE) (\<lambda>ss.
                        if ss = SELECTOR_SUCCESS
                        then bind_sv (lift_sv (hello_process h'
                                (if isSocks d' then SOCKS_VERSION else MNG_VERSION) (write_buffer d'))) (\<lambda>(res, wb).
                             bind_sv (put_conn k (d'\<lparr>write_buffer := wb\<rparr>)) (\<lambda>_.
                             let ret = (case res of None \<Rightarrow> error_state d | Some n \<Rightarrow> n)
                             in ret_sv (if error then error_state d else ret)))
                        else ret_sv (error_state d)))
                   else bind_sv (put_conn k d') (\<lambda>_.
                        ret_sv (if error then error_state d else socks_code HELLO_READ)))
            | _ \<Rightarrow> fail_sv Undefined)))"

definition hello_read_close :: "nat \<Rightarrow> skey \<Rightarrow> server \<Rightarrow> server res" where
  "hello_read_close st k w =
     bind_res (with_hello k (\<lambda>d h.
       case hs_parser h of
         Null_ptr \<Rightarrow> ret_sv ()
       | Freed_ptr \<Rightarrow> fail_sv Undefined
       | Ptr p \<Rightarrow> put_conn k (d\<lparr>client := Client_hello (h\<lparr>hs_parser := Freed_ptr\<rparr>)\<rparr>)) w)
     (\<lambda>(_, w'). Inr w')"

definition hello_write_close :: "nat \<Rightarrow> skey \<Rightarrow> server \<Rightarrow> server res" where
  "hello_write_close st k w = Inr w"

definition hello_write :: "skey \<Rightarrow> nat srv" where
  "hello_write k = with_hello k (\<lambda>d h.
     bind_sv (send_from k (write_buffer d)) (\<lambda>r.
       case r of
         None \<Rightarrow> ret_sv (error_state d)
       | Some wb \<Rightarrow>
           bind_sv (put_conn k (d\<lparr>write_buffer := wb\<rparr>)) (\<lambda>_.
           if \<not> buffer_can_read wb
           then (if hs_method h = METHOD_NO_ACCEPTABLE_METHODS then ret_sv (done_state d)
                 else bind_sv (set_interest_key k OP_READ) (\<lambda>ss.
                   if ss = SELECTOR_SUCCESS
                   then ret_sv (let r1 = (if hs_method h = METHOD_NO_AUTHENTICATION_REQUIRED
                                          then socks_code REQUEST_READ else socks_code HELLO_WRITE)
                                in if hs_method h = METHOD_USERNAME_PASSWORD
                                   then socks_code USERPASS_READ else r1)
                   else ret_sv (error_state d)))
           else ret_sv (socks_code HELLO_WRITE))))"

section \<open>What the handlers do\<close>

text \<open>A read event hands the old and the new bytes to the parser.\<close>

lemma hello_read_feeds:
  assumes "at_conn k w d" and "client d = Client_hello h" and "hs_parser h = Ptr p"
    and "hs_status h = HELLO_SUCCESS"
    and "os_recv (key_os k) (key_fd k) (buffer_free (read_buffer d)) = Some xs" and "xs \<noteq> []"
    and "length xs \<le> buffer_free (read_buffer d)" and "registered w (key_fd k) it"
    and feed: "feed_bytes hello_feed hello_stop (buffer_content (read_buffer d) @ xs)
           (p, hs_method h, hp_state p, False) = Inr ((p', m, st, e), rest)"
    and "2 \<le> buffer_free (write_buffer d)"
  shows "\<exists>rb wb s.
    hello_read k w = Inr (if e then error_state d
                          else if hello_is_done st then socks_code HELLO_WRITE else socks_code HELLO_READ,
      conn_update k (d\<lparr>client := Client_hello (h\<lparr>hs_parser := Ptr p', hs_method := m\<rparr>),
                       read_buffer := rb, write_buffer := wb\<rparr>) s w) \<and>
    buffer_inv rb \<and> buffer_content rb = rest \<and> buffer_inv wb \<and> sel_full s \<and>
    (if hello_is_done st
     then buffer_content wb = buffer_content (write_buffer d) @ [if isSocks d then SOCKS_VERSION else MNG_VERSION, m] \<and>
       sel_lookup s = (sel_lookup (sv_selector w))(key_fd k \<mapsto> it\<lparr>item_interest := OP_WRITE\<rparr>)
     else wb = write_buffer d \<and> s = sv_selector w)"
proof -
  have bufs: "buffer_inv (read_buffer d)" "buffer_inv (write_buffer d)"
    using assms(1) by (auto simp: at_conn_def)
  obtain rb where rb: "recv_into k (\<lambda>n. n) (read_buffer d) = Inr (Some (xs, rb))" "buffer_inv rb"
      "buffer_content rb = buffer_content (read_buffer d) @ xs"
    using recv_into_data [OF bufs(1) assms(5,6,7)] by blast
  obtain rb' where rb': "hello_consume rb p (hs_method h) False = Inr ((p', m, st, e), rb')"
      "buffer_inv rb'" "buffer_content rb' = rest"
    using hp.loop_Inr [OF rb(2), of "(p, hs_method h, hp_state p, False)"] feed rb(3)
    by (auto simp: hello_consume_def)
  show ?thesis
  proof (cases "hello_is_done st")
    case True
    let ?v = "if isSocks d then SOCKS_VERSION else MNG_VERSION"
    obtain wb where wb: "hello_marshal (write_buffer d) m ?v = Inr (2, wb)" "buffer_inv wb"
        "buffer_content wb = buffer_content (write_buffer d) @ [?v, m]"
      using hello_marshal_spec(2) [OF bufs(2) assms(10), of m ?v] by blast
    let ?d = "d\<lparr>client := Client_hello (h\<lparr>hs_parser := Ptr p', hs_method := m\<rparr>), read_buffer := rb'\<rparr>"
    let ?w = "w\<lparr>sv_heap := (sv_heap w)(key_data k \<mapsto> ?d)\<rparr>"
    obtain s where s: "set_interest_key k OP_WRITE ?w = Inr (SELECTOR_SUCCESS, ?w\<lparr>sv_selector := s\<rparr>)"
        "sel_full s" "sel_lookup s = (sel_lookup (sv_selector w))(key_fd k \<mapsto> it\<lparr>item_interest := OP_WRITE\<rparr>)"
      using set_interest_key_ok [of ?w k it OP_WRITE] assms(8) by auto
    have "hello_read k w = Inr (if e then error_state d else socks_code HELLO_WRITE,
        conn_update k (?d\<lparr>write_buffer := wb\<rparr>) s w)"
      using assms(1-4) rb(1) rb'(1) True s(1) wb(1)
      by (simp add: hello_read_def with_hello_def bind_sv_def lift_sv_def ret_sv_def put_conn_def
          modify_sv_def hello_process_def conn_update_def Let_def del: OP_values)
    then show ?thesis using True rb' wb s(2,3) by (auto intro!: exI)
  next
    case False
    have "\<not> e" using feed False hello_feed_error [OF feed] by simp
    moreover have "hello_read k w = Inr (if e then error_state d else socks_code HELLO_READ,
        conn_update k (d\<lparr>client := Client_hello (h\<lparr>hs_parser := Ptr p', hs_method := m\<rparr>),
          read_buffer := rb'\<rparr>) (sv_selector w) w)"
      using assms(1-4) rb(1) rb'(1) False
      by (simp add: hello_read_def with_hello_def bind_sv_def lift_sv_def ret_sv_def put_conn_def
          modify_sv_def conn_update_def Let_def)
    moreover have "sel_full (sv_selector w)" using assms(8) by (simp add: registered_def)
    moreover have "d\<lparr>client := c, read_buffer := b, write_buffer := write_buffer d\<rparr> =
        d\<lparr>client := c, read_buffer := b\<rparr>" for c b by (cases d) simp
    ultimately show ?thesis
      using False rb' bufs
      by (intro exI [of _ rb'] exI [of _ "write_buffer d"] exI [of _ "sv_selector w"]) simp
  qed
qed

text \<open>
  A greeting in segments: the connection \<open>d\<close> of \<open>w0\<close> while its greeting arrives. Only the parser, the
  method and the read buffer change.
\<close>

definition hello_waits ::
    "server \<times> nat \<times> int \<times> socks5 \<times> hello_st \<Rightarrow> server \<Rightarrow> hello_consume_state \<Rightarrow> byte list \<Rightarrow> nat \<Rightarrow> bool" where
  "hello_waits c w s q n \<longleftrightarrow> (case c of (w0, i, fd, d, h) \<Rightarrow> case s of (p, m, st, e) \<Rightarrow>
     hs_status h = HELLO_SUCCESS \<and> buffer_inv (write_buffer d) \<and> st = hp_state p \<and> \<not> e \<and>
     (\<exists>rb. buffer_inv rb \<and> buffer_content rb = q \<and> buffer_free rb = n \<and> buf_limit rb = buf_limit (read_buffer d) \<and>
        w = w0\<lparr>sv_heap := (sv_heap w0)(i \<mapsto> d\<lparr>client := Client_hello (h\<lparr>hs_parser := Ptr p, hs_method := m\<rparr>),
          read_buffer := rb\<rparr>)\<rparr>))"

lemma hello_read_partial:
  assumes "at_conn k w d" and "client d = Client_hello h" and "hs_parser h = Ptr p" and "hs_status h = HELLO_SUCCESS"
    and "os_recv (key_os k) (key_fd k) (buffer_free (read_buffer d)) = Some xs" and "xs \<noteq> []"
    and "length xs \<le> buffer_free (read_buffer d)"
    and feed: "feed_bytes hello_feed hello_stop (buffer_content (read_buffer d) @ xs)
           (p, hs_method h, hp_state p, False) = Inr ((p', m, st, e), [])" and "\<not> hello_is_done st"
  shows "\<exists>rb. hello_read k w = Inr (socks_code HELLO_READ, w\<lparr>sv_heap := (sv_heap w)(key_data k \<mapsto>
      d\<lparr>client := Client_hello (h\<lparr>hs_parser := Ptr p', hs_method := m\<rparr>), read_buffer := rb\<rparr>)\<rparr>) \<and>
    buffer_inv rb \<and> buffer_content rb = [] \<and> buf_limit rb = buf_limit (read_buffer d) \<and> \<not> e \<and> st = hp_state p'"
proof -
  have inv: "buffer_inv (read_buffer d)" using assms(1) by (simp add: at_conn_def)
  obtain rb where rb: "recv_into k (\<lambda>n. n) (read_buffer d) = Inr (Some (xs, rb))" "buffer_inv rb"
      "buffer_content rb = buffer_content (read_buffer d) @ xs" "buf_limit rb = buf_limit (read_buffer d)"
    using recv_into_data [OF inv assms(5,6,7)] by blast
  obtain rb' where rb': "hello_consume_from rb (p, hs_method h, hp_state p, False) = Inr ((p', m, st, e), rb')"
      "buffer_inv rb'" "buffer_content rb' = []"
    using hp.loop_Inr [OF rb(2), of "(p, hs_method h, hp_state p, False)"] feed rb(3) by auto
  have "buffer_inv rb' \<and> buf_limit rb' = buf_limit (read_buffer d)"
  proof (rule hp.loop_keeps [where J = "\<lambda>b. buffer_inv b \<and> buf_limit b = buf_limit (read_buffer d)", OF _ rb(2) _ rb'(1)])
    show "buffer_inv b' \<and> buf_limit b' = buf_limit (read_buffer d)"
      if "buffer_inv b \<and> buf_limit b = buf_limit (read_buffer d)" "buffer_read b = Inr (x, b')" for b x b'
      by (rule buffer_read_limit [OF that])
    show "buffer_inv rb \<and> buf_limit rb = buf_limit (read_buffer d)" using rb(2,4) by simp
  qed
  then have lim: "buf_limit rb' = buf_limit (read_buffer d)" by simp
  have e: "\<not> e" using feed assms(9) hello_feed_error [OF feed] by simp
  have "case (p', m, st, e) of (p, m, st, e) \<Rightarrow> st = hp_state p"
    by (rule feed_bytes_invariant [where I = "\<lambda>(p, m, st, e). st = hp_state p", OF _ _ feed])
      (auto simp: hello_feed_def hello_parser_feed_def Let_def split: hello_state.splits)
  then have st: "st = hp_state p'" by simp
  have "hello_read k w = Inr (socks_code HELLO_READ, w\<lparr>sv_heap := (sv_heap w)(key_data k \<mapsto>
      d\<lparr>client := Client_hello (h\<lparr>hs_parser := Ptr p', hs_method := m\<rparr>), read_buffer := rb'\<rparr>)\<rparr>)"
    using assms(1-4,9) rb(1) rb'(1) e
    by (simp add: hello_read_def hello_consume_def with_hello_def bind_sv_def lift_sv_def ret_sv_def put_conn_def
        modify_sv_def Let_def)
  with rb' lim e st show ?thesis by blast
qed

interpretation hello_segments: segmented hello_feed hello_stop hello_read "socks_code HELLO_READ" hello_waits
  "\<lambda>(w, i, fd, d, h). arrives_at i fd" "\<lambda>(w, i, fd, d, h). buf_limit (read_buffer d)"
proof unfold_locales
  fix c :: "server \<times> nat \<times> int \<times> socks5 \<times> hello_st" and xs q n k w s s'
  obtain w0 i fd d h where c: "c = (w0, i, fd, d, h)" by (cases c)
  show "xs \<noteq> []" if "(case c of (w, i, fd, d, h) \<Rightarrow> arrives_at i fd) xs k"
    using that by (simp add: c arrives_at_def)
  assume w: "hello_waits c w s q n" and a: "(case c of (w, i, fd, d, h) \<Rightarrow> arrives_at i fd) xs k"
    and n: "length xs \<le> n" and f: "feed_bytes hello_feed hello_stop (q @ xs) s = Inr (s', [])" and ns: "\<not> hello_stop s'"
  obtain p m st e where s: "s = (p, m, st, e)" by (cases s)
  obtain p' m' st' e' where s': "s' = (p', m', st', e')" by (cases s')
  from w obtain rb where rb: "buffer_inv rb" "buffer_content rb = q" "buffer_free rb = n"
      "buf_limit rb = buf_limit (read_buffer d)" "hs_status h = HELLO_SUCCESS" "buffer_inv (write_buffer d)"
      "st = hp_state p" "\<not> e"
      "w = w0\<lparr>sv_heap := (sv_heap w0)(i \<mapsto> d\<lparr>client := Client_hello (h\<lparr>hs_parser := Ptr p, hs_method := m\<rparr>),
          read_buffer := rb\<rparr>)\<rparr>"
    by (auto simp: hello_waits_def c s)
  let ?d = "d\<lparr>client := Client_hello (h\<lparr>hs_parser := Ptr p, hs_method := m\<rparr>), read_buffer := rb\<rparr>"
  have k: "key_data k = i" "key_fd k = fd" "xs \<noteq> []" "os_recv (key_os k) fd n = Some xs"
    using a n by (auto simp: c arrives_at_def)
  have "at_conn k w ?d" using rb k(1) by (simp add: at_conn_def)
  from hello_read_partial [OF this, where h = "h\<lparr>hs_parser := Ptr p, hs_method := m\<rparr>" and xs = xs and p = p and
      p' = p' and m = m' and st = st' and e = e'] rb k n f ns s s'
  obtain rb' where rb': "hello_read k w = Inr (socks_code HELLO_READ, w\<lparr>sv_heap := (sv_heap w)(i \<mapsto>
      ?d\<lparr>client := Client_hello (h\<lparr>hs_parser := Ptr p', hs_method := m'\<rparr>), read_buffer := rb'\<rparr>)\<rparr>)"
      "buffer_inv rb'" "buffer_content rb' = []" "buf_limit rb' = buf_limit (read_buffer d)" "\<not> e'" "st' = hp_state p'"
    by (auto simp: hello_stop_def)
  have "buffer_free rb' = buf_limit (read_buffer d)" using buffer_free_empty [OF rb'(2,3)] rb'(4) by simp
  with rb' rb show "\<exists>w'. hello_read k w = Inr (socks_code HELLO_READ, w') \<and>
      hello_waits c w' s' [] (case c of (w, i, fd, d, h) \<Rightarrow> buf_limit (read_buffer d))"
    by (auto simp: c s' hello_waits_def)
qed

text \<open>A write event sends a prefix of the reply; the rest decides the next state.\<close>

definition hello_next :: "socks5 \<Rightarrow> hello_st \<Rightarrow> nat" where
  "hello_next d h =
     (if hs_method h = METHOD_NO_ACCEPTABLE_METHODS then done_state d
      else if hs_method h = METHOD_NO_AUTHENTICATION_REQUIRED then socks_code REQUEST_READ
      else if hs_method h = METHOD_USERNAME_PASSWORD then socks_code USERPASS_READ
      else socks_code HELLO_WRITE)"

lemma hello_write_sends:
  assumes "at_conn k w d" and "client d = Client_hello h" and "registered w (key_fd k) it"
    and "os_send (key_os k) (key_fd k) (buffer_content (write_buffer d)) = int n"
    and "n \<le> length (buffer_content (write_buffer d))"
  shows "\<exists>w' d'. hello_write k w =
      Inr (if n < length (buffer_content (write_buffer d)) then socks_code HELLO_WRITE else hello_next d h, w') \<and>
    moved k w ((sel_lookup (sv_selector w))(key_fd k \<mapsto> it\<lparr>item_interest :=
        if n < length (buffer_content (write_buffer d)) \<or> hs_method h = METHOD_NO_ACCEPTABLE_METHODS
        then item_interest it else OP_READ\<rparr>)) d'
      [Sent (key_fd k) (take n (buffer_content (write_buffer d)))] w' \<and>
    (\<exists>wb. d' = d\<lparr>write_buffer := wb\<rparr> \<and> buffer_inv wb \<and> buf_limit wb = buf_limit (write_buffer d) \<and>
      buffer_content wb = drop n (buffer_content (write_buffer d)))"
proof -
  let ?c = "buffer_content (write_buffer d)"
  have bufs: "buffer_inv (read_buffer d)" "buffer_inv (write_buffer d)"
    using assms(1) by (auto simp: at_conn_def)
  from buffer_read_adv_spec [OF bufs(2), of "int n"] assms(5) obtain wb where wb:
    "buffer_read_adv (write_buffer d) (int n) = Inr wb" "buffer_inv wb" "buffer_content wb = drop n ?c"
    "buf_limit wb = buf_limit (write_buffer d)"
    by auto
  let ?d = "d\<lparr>write_buffer := wb\<rparr>"
  let ?w = "w\<lparr>sv_log := sv_log w @ [Sent (key_fd k) (take n ?c)], sv_heap := (sv_heap w)(key_data k \<mapsto> ?d)\<rparr>"
  have send: "send_from k (write_buffer d) w = Inr (Some wb, w\<lparr>sv_log := sv_log w @ [Sent (key_fd k) (take n ?c)]\<rparr>)"
    using bufs assms(4) wb(1) by (simp add: send_from_def sv_simps)
  have can: "buffer_can_read wb \<longleftrightarrow> n < length ?c"
    using wb(2,3) assms(5) by (auto simp: buffer_can_read_iff)
  obtain s where s: "set_interest_key k OP_READ ?w = Inr (SELECTOR_SUCCESS, ?w\<lparr>sv_selector := s\<rparr>)"
      "sel_full s" "sel_lookup s = (sel_lookup (sv_selector w))(key_fd k \<mapsto> it\<lparr>item_interest := OP_READ\<rparr>)"
    using set_interest_key_ok [of ?w k it OP_READ] assms(3) by auto
  have same': "(sel_lookup (sv_selector w))(key_fd k \<mapsto> it\<lparr>item_interest := item_interest it\<rparr>) =
      sel_lookup (sv_selector w)"
    using assms(3) by (auto simp: registered_def)
  have run: "hello_write k w = (if n < length ?c then Inr (socks_code HELLO_WRITE, ?w)
      else if hs_method h = METHOD_NO_ACCEPTABLE_METHODS then Inr (done_state d, ?w)
      else Inr (hello_next d h, ?w\<lparr>sv_selector := s\<rparr>))"
    using assms(1,2) send can s(1)
    by (simp add: hello_write_def with_hello_def bind_sv_def ret_sv_def put_conn_def modify_sv_def
        hello_next_def hello_constants Let_def del: OP_values take_all take_all_iff)
  show ?thesis
  proof (cases "n < length ?c \<or> hs_method h = METHOD_NO_ACCEPTABLE_METHODS")
    case True
    then have "hello_write k w = Inr (if n < length ?c then socks_code HELLO_WRITE else hello_next d h, ?w)"
      unfolding run by (auto simp: hello_next_def simp del: socks_code.simps)
    moreover have "moved k w (sel_lookup (sv_selector w)) ?d [Sent (key_fd k) (take n ?c)] ?w"
      using assms(3) by (simp add: moved_def same_rest_def registered_def)
    ultimately show ?thesis
      using wb True same' by (intro exI [of _ ?w] exI [of _ ?d]) (simp only: if_True, blast)
  next
    case False
    moreover have "moved k w ((sel_lookup (sv_selector w))(key_fd k \<mapsto> it\<lparr>item_interest := OP_READ\<rparr>)) ?d
        [Sent (key_fd k) (take n ?c)] (?w\<lparr>sv_selector := s\<rparr>)"
      using s(2,3) by (simp add: moved_def same_rest_def)
    ultimately show ?thesis
      using run wb by (intro exI [of _ "?w\<lparr>sv_selector := s\<rparr>"] exI [of _ ?d]) (simp only: if_False, simp, blast)
  qed
qed

end
