(* ===== verification/Auth_Stage.thy ===== *)
theory Auth_Stage
  imports Connection
begin

text \<open>
  The states USERPASS_READ and USERPASS_WRITE (\<open>src/src/Etapas/authentication.c\<close>), shared by
  the SOCKS and the management connections. A user name or password is the list of its bytes
  before the terminator, so \<open>strcmp\<close> is equality of \<open>cstr\<close>; \<open>strcmp\<close> on NULL is
  \<open>Inl Undefined\<close>.
\<close>

section \<open>Construction of the table-driven parsers\<close>

text \<open>
  The constructors of the code allocate in a fixed order and stop at the first failure. A
  step is the outcome of one allocation, with whether every \<open>states[i]\<close> has been assigned
  by then.
\<close>

definition substate_read_N :: parser_substate where
  "substate_read_N = \<lparr>ps_state = read_N, ps_result = None, ps_check = None, ps_size = 0, ps_remaining = 0\<rparr>"

definition substate_long_read :: parser_substate where
  "substate_long_read = \<lparr>ps_state = long_read, ps_result = None, ps_check = None, ps_size = 0, ps_remaining = 0\<rparr>"

definition substate_one_byte :: "byte list option \<Rightarrow> check option \<Rightarrow> parser_substate" where
  "substate_one_byte m chk = \<lparr>ps_state = long_read, ps_result = m, ps_check = chk, ps_size = 1, ps_remaining = 1\<rparr>"

definition fresh_parser :: "parser_substate list \<Rightarrow> parser" where
  "fresh_parser ss = \<lparr>p_index = 0, p_size = of_nat (length ss), p_current = single_read, p_states = ss, p_error = 0\<rparr>"

definition build_parser :: "os \<Rightarrow> (bool \<times> bool) list \<Rightarrow> parser_substate list \<Rightarrow> (parser_ptr \<times> bool) res" where
  "build_parser k steps ss =
     (if \<not> os_alloc k Alloc_parser then Inr (No_parser, False)
      else if \<not> os_alloc k Alloc_states then Inr (Parser_bare, False)
      else case List.find (\<lambda>(ok, complete). \<not> ok) steps of
             Some (ok, complete) \<Rightarrow> Inr (Parser_partial complete, False)
           | None \<Rightarrow> bind_res (parser_init (fresh_parser ss)) (\<lambda>p. Inr (Parser_ready p, True)))"

text \<open>The close hooks walk over \<open>states\<close>; an element that was never assigned is garbage.\<close>

definition close_parser :: "parser_ptr \<Rightarrow> parser_ptr res" where
  "close_parser p =
     (case p of
        No_parser \<Rightarrow> Inr No_parser
      | Parser_bare \<Rightarrow> Inr Parser_freed
      | Parser_partial complete \<Rightarrow> if complete then Inr Parser_freed else Inl Undefined
      | Parser_ready q \<Rightarrow> Inr Parser_freed
      | Parser_freed \<Rightarrow> Inl Undefined)"

definition with_parser :: "parser_ptr \<Rightarrow> (parser \<Rightarrow> 'a srv) \<Rightarrow> 'a srv" where
  "with_parser p f = (case p of Parser_ready q \<Rightarrow> f q | _ \<Rightarrow> fail_sv Undefined)"

section \<open>Hooks and handlers\<close>

definition USERPASS_METHOD_VERSION :: byte where "USERPASS_METHOD_VERSION = 0x01"
definition VERSION_ERROR :: byte where "VERSION_ERROR = 32"

definition checkVersion :: check where
  "checkVersion ptr sz error =
     (if sz \<noteq> 1 \<or> ptr ! 0 \<noteq> USERPASS_METHOD_VERSION then (False, VERSION_ERROR) else (True, error))"

definition with_userpass :: "skey \<Rightarrow> (socks5 \<Rightarrow> userpass_st \<Rightarrow> 'a srv) \<Rightarrow> 'a srv" where
  "with_userpass k f = bind_sv (get_conn k) (\<lambda>d.
     case client d of Client_userpass u \<Rightarrow> f d u | _ \<Rightarrow> fail_sv Undefined)"

definition userpass_states :: "os \<Rightarrow> parser_substate list" where
  "userpass_states k =
     [substate_one_byte (os_block k 0 2) (Some checkVersion), substate_read_N, substate_long_read,
      substate_read_N, substate_long_read]"

definition userpass_steps :: "os \<Rightarrow> (bool \<times> bool) list" where
  "userpass_steps k =
     [(os_alloc k (Alloc_substate 0), False), (os_block k 0 2 \<noteq> None, False),
      (os_alloc k (Alloc_substate 1), False), (os_alloc k (Alloc_substate 2), False),
      (os_alloc k (Alloc_substate 3), False), (os_alloc k (Alloc_substate 4), True)]"

definition auth_read_init :: "nat \<Rightarrow> skey \<Rightarrow> server \<Rightarrow> server res" where
  "auth_read_init st k w =
     bind_res (bind_sv (get_conn k) (\<lambda>d.
       bind_sv (lift_sv (build_parser (key_os k) (userpass_steps (key_os k)) (userpass_states (key_os k)))) (\<lambda>(p, ok).
         put_conn k (d\<lparr>client := Client_userpass
            \<lparr>up_parser = p, up_status = (if ok then AUTH_SUCCESS else AUTH_ERROR)\<rparr>\<rparr>))) w)
     (\<lambda>(_, w'). Inr w')"

fun find_user ::
    "user list \<Rightarrow> nat \<Rightarrow> byte list option \<Rightarrow> byte list option \<Rightarrow> nat option res" where
  "find_user [] i username password = Inr None"
| "find_user (x # xs) i username password =
     (case (username, user_name x) of
        (Some u, Some n) \<Rightarrow>
          if cstr u = cstr n
          then (case (password, user_pass x) of
                  (Some p, Some q) \<Rightarrow>
                    if cstr p = cstr q then Inr (Some i) else find_user xs (Suc i) username password
                | _ \<Rightarrow> Inl Undefined)
          else find_user xs (Suc i) username password
      | _ \<Rightarrow> Inl Undefined)"

text \<open>The loop over the first \<open>n\<close> elements of a users array; NULL credentials reach \<open>strcmp\<close>.\<close>

definition search_users ::
    "user list \<Rightarrow> nat \<Rightarrow> byte list option \<Rightarrow> byte list option \<Rightarrow> nat option res" where
  "search_users arr n username password =
     (if n > length arr then Inl Undefined else find_user (take n arr) 0 username password)"

definition checkCredentials :: "byte list option \<Rightarrow> byte list option \<Rightarrow> skey \<Rightarrow> byte srv" where
  "checkCredentials username password k =
     bind_sv (get_sv sv_users) (\<lambda>us. bind_sv (get_sv nusers) (\<lambda>n.
     bind_sv (lift_sv (search_users us n username password)) (\<lambda>r.
       case r of
         None \<Rightarrow> ret_sv 0x01
       | Some i \<Rightarrow> bind_sv (get_conn k) (\<lambda>d. bind_sv (put_conn k (d\<lparr>userIndex := i\<rparr>)) (\<lambda>_. ret_sv 0x00)))))"

definition checkMngCredentials :: "byte list option \<Rightarrow> byte list option \<Rightarrow> byte srv" where
  "checkMngCredentials username password =
     bind_sv (get_sv sv_admins) (\<lambda>us. bind_sv (get_sv nadmins) (\<lambda>n.
     bind_sv (lift_sv (search_users us n username password)) (\<lambda>r.
       ret_sv (case r of None \<Rightarrow> 0x01 | Some i \<Rightarrow> 0x00))))"

definition auth_process :: "parser \<Rightarrow> skey \<Rightarrow> nat srv" where
  "auth_process p k =
     bind_sv (lift_sv (substate_at p 2)) (\<lambda>s2. bind_sv (lift_sv (substate_at p 4)) (\<lambda>s4.
     bind_sv (get_conn k) (\<lambda>d0.
     bind_sv (if isSocks d0 then checkCredentials (ps_result s2) (ps_result s4) k
              else checkMngCredentials (ps_result s2) (ps_result s4)) (\<lambda>a.
     bind_sv (get_conn k) (\<lambda>d.
     bind_sv (put_conn k (d\<lparr>authentication := a\<rparr>)) (\<lambda>_.
     bind_sv (modify_metrics (\<lambda>m. m\<lparr>metrics_historic_auth_attempts := metrics_historic_auth_attempts m + 1\<rparr>)) (\<lambda>_.
       ret_sv (socks_code USERPASS_WRITE))))))))"

definition auth_read :: "skey \<Rightarrow> nat srv" where
  "auth_read k = with_userpass k (\<lambda>d u.
     if up_status u = AUTH_ERROR then ret_sv (error_state d)
     else bind_sv (lift_sv (recv_into k (\<lambda>n. n) (read_buffer d))) (\<lambda>r.
       case r of
         None \<Rightarrow> ret_sv (error_state d)
       | Some (xs, rb) \<Rightarrow>
           with_parser (up_parser u) (\<lambda>p.
           bind_sv (lift_sv (consume (os_block (key_os k)) rb p False)) (\<lambda>((p', st, error), rb').
           bind_sv (put_conn k (d\<lparr>client := Client_userpass (u\<lparr>up_parser := Parser_ready p'\<rparr>),
                                  read_buffer := rb'\<rparr>)) (\<lambda>_.
           bind_sv (if is_done st
                    then bind_sv (set_interest_key k OP_WRITE) (\<lambda>ss.
                         if ss = SELECTOR_SUCCESS then auth_process p' k else ret_sv (error_state d))
                    else ret_sv (socks_code USERPASS_READ)) (\<lambda>ret.
             ret_sv (if error then error_state d else ret)))))))"

definition auth_reply :: "buffer \<Rightarrow> byte \<Rightarrow> (int \<times> buffer) res" where
  "auth_reply b result =
     bind_res (buffer_write_ptr b) (\<lambda>(p, n).
       if n < 2 then Inr (-1, b)
       else bind_res (buffer_put b [USERPASS_METHOD_VERSION, result]) (\<lambda>b'. Inr (2, b')))"

definition auth_read_close :: "nat \<Rightarrow> skey \<Rightarrow> server \<Rightarrow> server res" where
  "auth_read_close st k w =
     bind_res (with_userpass k (\<lambda>d u.
       bind_sv (lift_sv (close_parser (up_parser u))) (\<lambda>p.
         put_conn k (d\<lparr>client := Client_userpass (u\<lparr>up_parser := p\<rparr>)\<rparr>))) w) (\<lambda>(_, w'). Inr w')"

definition auth_write_init :: "nat \<Rightarrow> skey \<Rightarrow> server \<Rightarrow> server res" where
  "auth_write_init st k w = bind_res (with_userpass k (\<lambda>d u. ret_sv ()) w) (\<lambda>(_, w'). Inr w')"

definition auth_write :: "skey \<Rightarrow> nat srv" where
  "auth_write k = with_userpass k (\<lambda>d u.
     bind_sv (lift_sv (auth_reply (write_buffer d) (authentication d))) (\<lambda>(n, wb0).
     bind_sv (put_conn k (d\<lparr>write_buffer := wb0\<rparr>)) (\<lambda>_.
     bind_sv (send_from k wb0) (\<lambda>r.
       case r of
         None \<Rightarrow> ret_sv (error_state d)
       | Some wb \<Rightarrow>
           bind_sv (put_conn k (d\<lparr>write_buffer := wb\<rparr>)) (\<lambda>_.
           if \<not> buffer_can_read wb
           then (if authentication d \<noteq> 0x00 then ret_sv (done_state d)
                 else bind_sv (set_interest_key k OP_READ) (\<lambda>ss.
                   ret_sv (if ss = SELECTOR_SUCCESS then socks_code REQUEST_READ else error_state d)))
           else ret_sv (socks_code USERPASS_WRITE))))))"

definition auth_write_close :: "nat \<Rightarrow> skey \<Rightarrow> server \<Rightarrow> server res" where
  "auth_write_close st k w = Inr w"

section \<open>Parsing the credentials\<close>

lemmas parser_eval = field_end_def field_stored_def next_state_def put_substate_def substate_at_def
  consume_rest_def is_done_def is_done_error_def Let_def

definition userpass_message :: "byte list \<Rightarrow> byte list \<Rightarrow> byte list" where
  "userpass_message u p = 1 # of_nat (length u) # u @ of_nat (length p) # p"

definition userpass_parser :: "byte list \<Rightarrow> parser" where
  "userpass_parser m = \<lparr>p_index = 0, p_size = 5, p_current = long_read,
     p_states = [substate_one_byte (Some m) (Some checkVersion), substate_read_N, substate_long_read,
       substate_read_N, substate_long_read], p_error = 0\<rparr>"

lemma userpass_feed_version:
  assumes "length m = 2"
  shows "feed_bytes (consume_feed al) consume_stop (v # ys) (userpass_parser m, st, e) =
    (let q = \<lparr>ps_state = long_read, ps_result = Some [v, 0], ps_check = Some checkVersion, ps_size = 1,
           ps_remaining = 0\<rparr>;
         ss = [q, substate_read_N, substate_long_read, substate_read_N, substate_long_read]
     in if v = 1
        then feed_bytes (consume_feed al) consume_stop ys
               (\<lparr>p_index = 1, p_size = 5, p_current = read_N, p_states = ss, p_error = 0\<rparr>, read_N, e)
        else Inr ((\<lparr>p_index = 0, p_size = 5, p_current = error_read, p_states = ss, p_error = 32\<rparr>,
               error_read, True), ys))"
proof -
  have "feed_bytes (consume_feed al) consume_stop ([v] @ ys) (userpass_parser m, st, e) =
     bind_res (field_end (userpass_parser m) (substate_one_byte (Some m) (Some checkVersion)) [v, 0])
       (consume_rest al ys e)"
    by (subst consume_long_read [where s = "substate_one_byte (Some m) (Some checkVersion)" and m = m])
      (use assms in \<open>simp_all add: userpass_parser_def substate_at_def substate_one_byte_def\<close>)
  then show ?thesis
    by (simp add: parser_eval userpass_parser_def substate_one_byte_def checkVersion_def
        USERPASS_METHOD_VERSION_def VERSION_ERROR_def substate_read_N_def substate_long_read_def word_le_nat_alt)
qed

lemma userpass_feed:
  assumes "length m = 2" and "allocator_ok al" and "length u < 256" and "length p < 256"
    and "al 2 (length u + 1) \<noteq> None" and "al 4 (length p + 1) \<noteq> None"
  shows "\<exists>q. feed_bytes (consume_feed al) consume_stop (userpass_message u p @ rest)
        (userpass_parser m, st, e) = Inr ((q, done_read, e), rest) \<and>
      substate_at q 2 = Inr (substate_long_read\<lparr>ps_result := Some (u @ [0]), ps_size := of_nat (length u)\<rparr>) \<and>
      substate_at q 4 = Inr (substate_long_read\<lparr>ps_result := Some (p @ [0]), ps_size := of_nat (length p)\<rparr>)"
proof -
  define s0 where "s0 = \<lparr>ps_state = long_read, ps_result = Some [1, 0], ps_check = Some checkVersion,
    ps_size = 1, ps_remaining = 0\<rparr>"
  define s2 where "s2 = substate_long_read\<lparr>ps_result := Some (u @ [0]), ps_size := of_nat (length u)\<rparr>"
  define s4 where "s4 = substate_long_read\<lparr>ps_result := Some (p @ [0]), ps_size := of_nat (length p)\<rparr>"
  define q1 where "q1 = \<lparr>p_index = 1, p_size = 5, p_current = read_N, p_states =
      [s0, substate_read_N, substate_long_read, substate_read_N, substate_long_read], p_error = 0\<rparr>"
  define q3 where "q3 = \<lparr>p_index = 3, p_size = 5, p_current = read_N, p_states =
      [s0, substate_read_N, s2, substate_read_N, substate_long_read], p_error = 0\<rparr>"
  define q5 where "q5 = \<lparr>p_index = 5, p_size = 5, p_current = done_read, p_states =
      [s0, substate_read_N, s2, substate_read_N, s4], p_error = 0\<rparr>"
  let ?f = "feed_bytes (consume_feed al) consume_stop"
  have 1: "?f (userpass_message u p @ rest) (userpass_parser m, st, e) =
      ?f (of_nat (length u) # u @ of_nat (length p) # p @ rest) (q1, read_N, e)"
    using userpass_feed_version [OF assms(1), of al 1 "of_nat (length u) # u @ of_nat (length p) # p @ rest" st e]
    by (simp add: userpass_message_def q1_def s0_def Let_def del: feed_bytes.simps)
  have n1: "next_state (field_stored q1 2 u) = Inr q3"
    by (simp add: parser_eval q1_def q3_def s2_def substate_long_read_def substate_read_N_def word_le_nat_alt)
  have 2: "?f (of_nat (length u) # u @ of_nat (length p) # p @ rest) (q1, read_N, e) =
      ?f (of_nat (length p) # p @ rest) (q3, read_N, e)"
    using consume_counted_field [where p = q1 and xs = u and ys = "of_nat (length p) # p @ rest"
        and alloc = al and st = read_N and error = e] assms n1
    by (simp add: q1_def q3_def parser_wf_def substate_long_read_def consume_rest_def is_done_def
        is_done_error_def Let_def del: feed_bytes.simps)
  have n3: "next_state (field_stored q3 4 p) = Inr q5"
    by (simp add: parser_eval q3_def q5_def s4_def substate_long_read_def substate_read_N_def word_le_nat_alt)
  have 3: "?f (of_nat (length p) # p @ rest) (q3, read_N, e) = Inr ((q5, done_read, e), rest)"
    using consume_counted_field [where p = q3 and xs = p and ys = rest and alloc = al and st = read_N
        and error = e] assms n3
    by (simp add: q3_def q5_def parser_wf_def substate_long_read_def consume_rest_def is_done_def
        is_done_error_def Let_def del: feed_bytes.simps)
  show ?thesis
    by (rule exI [of _ q5]) (simp only: 1 2 3, simp add: q5_def substate_at_def s2_def s4_def)
qed

section \<open>Checking the credentials\<close>

definition users_wf :: "user list \<Rightarrow> bool" where
  "users_wf us \<longleftrightarrow> (\<forall>x \<in> set us. user_name x \<noteq> None \<and> user_pass x \<noteq> None)"

definition login_matches :: "byte list \<Rightarrow> byte list \<Rightarrow> user \<Rightarrow> bool" where
  "login_matches u p x \<longleftrightarrow> map_option cstr (user_name x) = Some (cstr u) \<and>
     map_option cstr (user_pass x) = Some (cstr p)"

text \<open>The index of the first entry with this name and this password.\<close>

fun first_login :: "byte list \<Rightarrow> byte list \<Rightarrow> user list \<Rightarrow> nat \<Rightarrow> nat option" where
  "first_login u p [] i = None"
| "first_login u p (x # xs) i = (if login_matches u p x then Some i else first_login u p xs (Suc i))"

lemma find_user_first_login:
  "users_wf us \<Longrightarrow> find_user us i (Some (u @ 0 # m)) (Some (p @ 0 # m')) = Inr (first_login u p us i)"
  by (induction us arbitrary: i) (auto simp: users_wf_def login_matches_def)

lemma first_login_None: "first_login u p us i = None \<longleftrightarrow> (\<forall>x \<in> set us. \<not> login_matches u p x)"
  by (induction us arbitrary: i) auto

lemma first_login_Some:
  "first_login u p us i = Some j \<Longrightarrow> i \<le> j \<and> j - i < length us \<and> login_matches u p (us ! (j - i))"
proof (induction us arbitrary: i)
  case Nil
  then show ?case by simp
next
  case (Cons x xs)
  show ?case
  proof (cases "login_matches u p x")
    case True
    then show ?thesis using Cons.prems by simp
  next
    case False
    with Cons.prems have "first_login u p xs (Suc i) = Some j" by simp
    from Cons.IH [OF this] show ?thesis by (auto simp: nth_Cons' Suc_le_eq)
  qed
qed

definition login_table :: "socks5 \<Rightarrow> server \<Rightarrow> user list" where
  "login_table d w = (if isSocks d then take (nusers w) (sv_users w) else take (nadmins w) (sv_admins w))"

definition tables_ok :: "server \<Rightarrow> bool" where
  "tables_ok w \<longleftrightarrow> nusers w \<le> length (sv_users w) \<and> nadmins w \<le> length (sv_admins w) \<and>
     users_wf (take (nusers w) (sv_users w)) \<and> users_wf (take (nadmins w) (sv_admins w))"

text \<open>The connection after the check of the credentials \<open>u\<close>, \<open>p\<close>.\<close>

definition authenticated :: "byte list \<Rightarrow> byte list \<Rightarrow> user list \<Rightarrow> socks5 \<Rightarrow> socks5" where
  "authenticated u p us d =
     (case first_login u p us 0 of
        None \<Rightarrow> d\<lparr>authentication := 0x01\<rparr>
      | Some i \<Rightarrow> (if isSocks d then d\<lparr>userIndex := i, authentication := 0x00\<rparr>
                   else d\<lparr>authentication := 0x00\<rparr>))"

lemma auth_process_spec:
  assumes "sv_heap w (key_data k) = Some d" and "tables_ok w"
    and "substate_at q 2 = Inr s2" and "ps_result s2 = Some (u @ [0])"
    and "substate_at q 4 = Inr s4" and "ps_result s4 = Some (p @ [0])"
  shows "auth_process q k w = Inr (socks_code USERPASS_WRITE,
    w\<lparr>sv_heap := (sv_heap w)(key_data k \<mapsto> authenticated u p (login_table d w) d),
      sv_metrics := (sv_metrics w)\<lparr>metrics_historic_auth_attempts :=
         metrics_historic_auth_attempts (sv_metrics w) + 1\<rparr>\<rparr>)"
proof -
  have s: "search_users (sv_users w) (nusers w) (Some (u @ [0])) (Some (p @ [0])) =
      Inr (first_login u p (take (nusers w) (sv_users w)) 0)"
    and a: "search_users (sv_admins w) (nadmins w) (Some (u @ [0])) (Some (p @ [0])) =
      Inr (first_login u p (take (nadmins w) (sv_admins w)) 0)"
    using assms(2) by (simp_all add: search_users_def tables_ok_def find_user_first_login)
  show ?thesis
    using assms s a
    by (cases "isSocks d"; cases "first_login u p (login_table d w) 0")
      (simp_all add: auth_process_def checkCredentials_def checkMngCredentials_def sv_simps
        authenticated_def login_table_def)
qed

text \<open>A read event that completes the message.\<close>

lemma auth_read_message:
  assumes "at_conn k w d" and "client d = Client_userpass up" and "up_parser up = Parser_ready (userpass_parser m)"
    and "up_status up = AUTH_SUCCESS" and "length m = 2"
    and "os_recv (key_os k) (key_fd k) (buffer_free (read_buffer d)) = Some xs" and "xs \<noteq> []"
    and "length xs \<le> buffer_free (read_buffer d)" and "registered w (key_fd k) it" and "tables_ok w"
    and "buffer_content (read_buffer d) @ xs = userpass_message u p @ rest"
    and "allocator_ok (os_block (key_os k))" and "length u < 256" and "length p < 256"
    and "os_block (key_os k) 2 (length u + 1) \<noteq> None" and "os_block (key_os k) 4 (length p + 1) \<noteq> None"
  shows "\<exists>w' d'. auth_read k w = Inr (socks_code USERPASS_WRITE, w') \<and> at_conn k w' d' \<and>
    (authentication d' = 0 \<longleftrightarrow> (\<exists>x \<in> set (login_table d w). login_matches u p x)) \<and>
    (isSocks d \<longrightarrow> authentication d' = 0 \<longrightarrow> login_matches u p (sv_users w ! userIndex d')) \<and>
    metrics_historic_auth_attempts (sv_metrics w') = metrics_historic_auth_attempts (sv_metrics w) + 1 \<and>
    buffer_content (read_buffer d') = rest \<and>
    moved k w ((sel_lookup (sv_selector w))(key_fd k \<mapsto> it\<lparr>item_interest := OP_WRITE\<rparr>)) d' [] w' \<and>
    (\<exists>q rb. d' = authenticated u p (login_table d w)
      (d\<lparr>client := Client_userpass (up\<lparr>up_parser := Parser_ready q\<rparr>), read_buffer := rb\<rparr>))"
proof -
  have bufs: "buffer_inv (read_buffer d)" "buffer_inv (write_buffer d)"
    using assms(1) by (auto simp: at_conn_def)
  obtain rb where rb: "recv_into k (\<lambda>n. n) (read_buffer d) = Inr (Some (xs, rb))" "buffer_inv rb"
      "buffer_content rb = userpass_message u p @ rest"
    using recv_into_data [OF bufs(1) assms(6,7,8)] assms(11) by auto
  let ?al = "os_block (key_os k)"
  obtain q where q: "feed_bytes (consume_feed ?al) consume_stop (userpass_message u p @ rest)
        (userpass_parser m, long_read, False) = Inr ((q, done_read, False), rest)"
      "substate_at q 2 = Inr (substate_long_read\<lparr>ps_result := Some (u @ [0]), ps_size := of_nat (length u)\<rparr>)"
      "substate_at q 4 = Inr (substate_long_read\<lparr>ps_result := Some (p @ [0]), ps_size := of_nat (length p)\<rparr>)"
    using userpass_feed [OF assms(5,12,13,14,15,16), of rest long_read False] by blast
  obtain rb' where rb': "consume ?al rb (userpass_parser m) False = Inr ((q, done_read, False), rb')"
      "buffer_inv rb'" "buffer_content rb' = rest"
    using mp.loop_Inr [OF rb(2), of ?al "(userpass_parser m, long_read, False)"] q(1) rb(3)
    by (auto simp: consume_def userpass_parser_def substate_at_def substate_one_byte_def)
  let ?d = "d\<lparr>client := Client_userpass (up\<lparr>up_parser := Parser_ready q\<rparr>), read_buffer := rb'\<rparr>"
  let ?w = "w\<lparr>sv_heap := (sv_heap w)(key_data k \<mapsto> ?d)\<rparr>"
  obtain s where s: "set_interest_key k OP_WRITE ?w = Inr (SELECTOR_SUCCESS, ?w\<lparr>sv_selector := s\<rparr>)"
      "sel_full s" "sel_lookup s = (sel_lookup (sv_selector w))(key_fd k \<mapsto> it\<lparr>item_interest := OP_WRITE\<rparr>)"
    using set_interest_key_ok [of ?w k it OP_WRITE] assms(9) by auto
  have tab: "login_table ?d (?w\<lparr>sv_selector := s\<rparr>) = login_table d w"
    by (simp add: login_table_def)
  have read: "auth_read k w = auth_process q k (?w\<lparr>sv_selector := s\<rparr>)"
    using assms(1-4) rb(1) rb'(1) s(1)
    by (simp add: auth_read_def with_userpass_def with_parser_def bind_sv_def lift_sv_def ret_sv_def
        put_conn_def modify_sv_def is_done_def del: OP_values)
  have proc: "auth_process q k (?w\<lparr>sv_selector := s\<rparr>) = Inr (socks_code USERPASS_WRITE,
    (?w\<lparr>sv_selector := s\<rparr>)\<lparr>sv_heap := (sv_heap (?w\<lparr>sv_selector := s\<rparr>))(key_data k \<mapsto>
         authenticated u p (login_table d w) ?d),
      sv_metrics := (sv_metrics w)\<lparr>metrics_historic_auth_attempts :=
         metrics_historic_auth_attempts (sv_metrics w) + 1\<rparr>\<rparr>)"
    using auth_process_spec [of "?w\<lparr>sv_selector := s\<rparr>" k ?d q _ u _ p] assms(10) q(2,3) tab
    by (simp add: tables_ok_def)
  have logged: "login_matches u p (sv_users w ! i)"
    if "isSocks d" "first_login u p (login_table d w) 0 = Some i" for i
    using first_login_Some [of u p "login_table d w" 0 i] that by (auto simp: login_table_def)
  let ?d' = "authenticated u p (login_table d w) ?d"
  have fields: "read_buffer ?d' = rb'" "write_buffer ?d' = write_buffer d"
    by (simp_all add: authenticated_def split: option.splits)
  show ?thesis
    unfolding read proc
    using logged rb'(2,3) bufs(2) s(2,3) first_login_None [of u p "login_table d w" 0]
    by (intro exI conjI refl)
      (auto simp: fields moved_def same_rest_def at_conn_def, auto simp: authenticated_def split: option.splits if_splits)
qed

text \<open>
  A message with another version byte: the handler still runs \<open>auth_process\<close>, on results that
  are NULL. With a user in the table the comparison dereferences NULL.
\<close>

lemma auth_process_null:
  assumes "sv_heap w (key_data k) = Some d" and "tables_ok w"
    and "substate_at q 2 = Inr s2" and "ps_result s2 = None"
    and "substate_at q 4 = Inr s4" and "login_table d w \<noteq> []"
  shows "auth_process q k w = Inl Undefined"
proof -
  have "find_user us i None p = Inl Undefined" if "us \<noteq> []" for us :: "user list" and i p
    using that by (cases us) auto
  then show ?thesis
    using assms by (cases "isSocks d")
      (auto simp: auth_process_def checkCredentials_def checkMngCredentials_def sv_simps
        login_table_def search_users_def tables_ok_def)
qed

lemma auth_read_bad_version:
  assumes "at_conn k w d" and "client d = Client_userpass up" and "up_parser up = Parser_ready (userpass_parser m)"
    and "up_status up = AUTH_SUCCESS" and "length m = 2"
    and "os_recv (key_os k) (key_fd k) (buffer_free (read_buffer d)) = Some (v # ys)"
    and "length (v # ys) \<le> buffer_free (read_buffer d)" and "registered w (key_fd k) it" and "tables_ok w"
    and "buffer_content (read_buffer d) = []" and "v \<noteq> 1" and "login_table d w \<noteq> []"
  shows "auth_read k w = Inl Undefined"
proof -
  have bufs: "buffer_inv (read_buffer d)" using assms(1) by (auto simp: at_conn_def)
  obtain rb where rb: "recv_into k (\<lambda>n. n) (read_buffer d) = Inr (Some (v # ys, rb))" "buffer_inv rb"
      "buffer_content rb = v # ys"
    using recv_into_data [OF bufs assms(6) _ assms(7)] assms(10) by auto
  let ?al = "os_block (key_os k)"
  let ?q = "\<lparr>p_index = 0, p_size = 5, p_current = error_read, p_states = [\<lparr>ps_state = long_read,
      ps_result = Some [v, 0], ps_check = Some checkVersion, ps_size = 1, ps_remaining = 0\<rparr>,
      substate_read_N, substate_long_read, substate_read_N, substate_long_read], p_error = 32\<rparr>"
  obtain rb' where rb': "consume ?al rb (userpass_parser m) False = Inr ((?q, error_read, True), rb')"
    using mp.loop_Inr [OF rb(2), of ?al "(userpass_parser m, long_read, False)" "(?q, error_read, True)" ys]
      userpass_feed_version [OF assms(5), of ?al v ys long_read False] rb(3) assms(11)
    by (auto simp: consume_def userpass_parser_def substate_at_def substate_one_byte_def)
  let ?d = "d\<lparr>client := Client_userpass (up\<lparr>up_parser := Parser_ready ?q\<rparr>), read_buffer := rb'\<rparr>"
  let ?w = "w\<lparr>sv_heap := (sv_heap w)(key_data k \<mapsto> ?d)\<rparr>"
  obtain s where s: "set_interest_key k OP_WRITE ?w = Inr (SELECTOR_SUCCESS, ?w\<lparr>sv_selector := s\<rparr>)"
    using set_interest_key_ok [of ?w k it OP_WRITE] assms(8) by auto
  have null: "auth_process ?q k (?w\<lparr>sv_selector := s\<rparr>) = Inl Undefined"
    by (rule auth_process_null [of _ k ?d _ substate_long_read substate_long_read])
      (use assms(9,12) in \<open>auto simp: tables_ok_def login_table_def substate_at_def substate_long_read_def split: if_splits\<close>)
  show ?thesis
    using assms(1-4) rb(1) rb'(1) s(1) null
    by (simp add: auth_read_def with_userpass_def with_parser_def bind_sv_def lift_sv_def ret_sv_def
        put_conn_def modify_sv_def is_done_def del: OP_values)
qed

text \<open>The reply of the sub-negotiation.\<close>

lemma auth_reply_spec:
  assumes "buffer_inv b" and "2 \<le> buffer_free b"
  shows "\<exists>b'. auth_reply b r = Inr (2, b') \<and> buffer_inv b' \<and> buffer_content b' = buffer_content b @ [1, r] \<and>
    buf_limit b' = buf_limit b"
  using assms buffer_put_spec [OF assms(1), of "[1, r]"]
  by (auto simp: auth_reply_def USERPASS_METHOD_VERSION_def)

lemma auth_write_sends:
  assumes "at_conn k w d" and "client d = Client_userpass up" and "registered w (key_fd k) it"
    and "2 \<le> buffer_free (write_buffer d)" and "buffer_content (write_buffer d) = []"
    and "os_send (key_os k) (key_fd k) [1, authentication d] = int n" and "n \<le> 2"
  shows "\<exists>w' d'. auth_write k w =
      Inr (if n < 2 then socks_code USERPASS_WRITE
           else if authentication d \<noteq> 0 then done_state d else socks_code REQUEST_READ, w') \<and>
    moved k w ((sel_lookup (sv_selector w))(key_fd k \<mapsto> it\<lparr>item_interest :=
        if n < 2 \<or> authentication d \<noteq> 0 then item_interest it else OP_READ\<rparr>)) d'
      [Sent (key_fd k) (take n [1, authentication d])] w' \<and>
    (\<exists>wb. d' = d\<lparr>write_buffer := wb\<rparr> \<and> buffer_inv wb \<and> buf_limit wb = buf_limit (write_buffer d) \<and>
      buffer_content wb = drop n [1, authentication d])"
proof -
  have bufs: "buffer_inv (read_buffer d)" "buffer_inv (write_buffer d)"
    using assms(1) by (auto simp: at_conn_def)
  obtain wb0 where wb0: "auth_reply (write_buffer d) (authentication d) = Inr (2, wb0)" "buffer_inv wb0"
      "buffer_content wb0 = [1, authentication d]" "buf_limit wb0 = buf_limit (write_buffer d)"
    using auth_reply_spec [OF bufs(2) assms(4)] assms(5) by auto
  from buffer_read_adv_spec [OF wb0(2), of "int n"] assms(7) wb0(3,4) obtain wb where wb:
    "buffer_read_adv wb0 (int n) = Inr wb" "buffer_inv wb" "buffer_content wb = drop n [1, authentication d]"
    "buf_limit wb = buf_limit (write_buffer d)"
    by auto
  let ?v = "w\<lparr>sv_heap := (sv_heap w)(key_data k \<mapsto> d\<lparr>write_buffer := wb0\<rparr>)\<rparr>"
  let ?l = "sv_log w @ [Sent (key_fd k) (take n [1, authentication d])]"
  let ?w = "w\<lparr>sv_log := ?l, sv_heap := (sv_heap w)(key_data k \<mapsto> d\<lparr>write_buffer := wb\<rparr>)\<rparr>"
  have send: "send_from k wb0 ?v = Inr (Some wb, ?v\<lparr>sv_log := ?l\<rparr>)"
    using wb0 assms(6) wb(1) by (auto simp: send_from_def sv_simps simp del: take_Suc_Cons)
  have can: "buffer_can_read wb \<longleftrightarrow> n < 2"
    using wb(2,3) by (auto simp: buffer_can_read_iff)
  obtain s where s: "set_interest_key k OP_READ ?w = Inr (SELECTOR_SUCCESS, ?w\<lparr>sv_selector := s\<rparr>)"
      "sel_full s" "sel_lookup s = (sel_lookup (sv_selector w))(key_fd k \<mapsto> it\<lparr>item_interest := OP_READ\<rparr>)"
    using set_interest_key_ok [of ?w k it OP_READ] assms(3) by auto
  have same: "(sel_lookup (sv_selector w))(key_fd k \<mapsto> it\<lparr>item_interest := item_interest it\<rparr>) =
      sel_lookup (sv_selector w)"
    using assms(3) by (auto simp: registered_def)
  have conn: "get_conn k w = Inr (d, w)" using assms(1) by simp
  have run: "auth_write k w = (if n < 2 then Inr (socks_code USERPASS_WRITE, ?w)
      else if authentication d \<noteq> 0 then Inr (done_state d, ?w)
      else Inr (socks_code REQUEST_READ, ?w\<lparr>sv_selector := s\<rparr>))"
    using conn assms(2) wb0(1) send can s(1)
    by (cases "n < 2"; cases "authentication d = 0")
      (simp_all add: auth_write_def with_userpass_def bind_sv_def lift_sv_def ret_sv_def put_conn_def
        modify_sv_def del: OP_values take_Suc_Cons take_all take_all_iff)
  show ?thesis
  proof (cases "n < 2 \<or> authentication d \<noteq> 0")
    case True
    then have "auth_write k w = Inr (if n < 2 then socks_code USERPASS_WRITE
           else if authentication d \<noteq> 0 then done_state d else socks_code REQUEST_READ, ?w)"
      unfolding run by (auto simp del: socks_code.simps)
    moreover have "moved k w (sel_lookup (sv_selector w)) (d\<lparr>write_buffer := wb\<rparr>)
        [Sent (key_fd k) (take n [1, authentication d])] ?w"
      using assms(3) by (simp add: moved_def same_rest_def registered_def)
    ultimately show ?thesis
      using wb True same by (intro exI [of _ ?w] exI [of _ "d\<lparr>write_buffer := wb\<rparr>"]) (simp only: if_True, blast)
  next
    case False
    moreover have "moved k w ((sel_lookup (sv_selector w))(key_fd k \<mapsto> it\<lparr>item_interest := OP_READ\<rparr>))
        (d\<lparr>write_buffer := wb\<rparr>) [Sent (key_fd k) (take n [1, authentication d])] (?w\<lparr>sv_selector := s\<rparr>)"
      using s(2,3) by (simp add: moved_def same_rest_def)
    ultimately show ?thesis
      using run wb by (intro exI [of _ "?w\<lparr>sv_selector := s\<rparr>"] exI [of _ "d\<lparr>write_buffer := wb\<rparr>"])
        (simp only: if_False, simp del: take_Suc_Cons drop_Suc_Cons, blast)
  qed
qed

text \<open>The access decision: a request is read only from an authenticated connection.\<close>

lemma auth_write_enforces:
  assumes "auth_write k w = Inr (socks_code REQUEST_READ, w')" and "sv_heap w (key_data k) = Some d"
    and "done_state d \<noteq> socks_code REQUEST_READ" and "error_state d \<noteq> socks_code REQUEST_READ"
  shows "authentication d = 0"
proof (rule ccontr)
  assume "authentication d \<noteq> 0"
  then show False
    using assms by (auto simp: auth_write_def with_userpass_def sv_simps bind_res_eq_Inr
        split: client_stage.splits option.splits if_splits)
qed

lemma auth_read_init_ready:
  assumes "sv_heap w (key_data k) = Some d" and "\<forall>a. os_alloc (key_os k) a"
    and "os_block (key_os k) 0 2 = Some m"
  shows "auth_read_init st k w = Inr (w\<lparr>sv_heap := (sv_heap w)(key_data k \<mapsto> d\<lparr>client := Client_userpass
     \<lparr>up_parser = Parser_ready (userpass_parser m), up_status = AUTH_SUCCESS\<rparr>\<rparr>)\<rparr>)"
  using assms
  by (simp add: auth_read_init_def sv_simps build_parser_def userpass_steps_def userpass_states_def
      parser_init_def fresh_parser_def substate_at_def userpass_parser_def substate_one_byte_def)

end
