(* ===== verification/Request_Stage.thy ===== *)
theory Request_Stage
  imports Connection
begin

text \<open>
  The states REQUEST_READ, REQUEST_RESOLV and REQUEST_WRITE
  (\<open>src/src/Etapas/request.c\<close>, \<open>src/src/Etapas/resolv.c\<close>). The resolver thread is an
  operation of its own on the state of the server; \<open>sv_threads\<close> holds the keys of the
  threads that have been started and have not finished.
\<close>

section \<open>Error replies\<close>

definition error_handler :: "socks_reply_status \<Rightarrow> skey \<Rightarrow> nat srv" where
  "error_handler status k =
     bind_sv (get_conn k) (\<lambda>d.
     bind_sv (lift_sv (request_marshall status (write_buffer d))) (\<lambda>(n, wb).
     bind_sv (put_conn k (d\<lparr>write_buffer := wb\<rparr>)) (\<lambda>_.
     bind_sv (set_interest_key k OP_WRITE) (\<lambda>ss. ret_sv (socks_code REQUEST_WRITE)))))"

definition error_handler_to_client :: "socks_reply_status \<Rightarrow> skey \<Rightarrow> nat srv" where
  "error_handler_to_client status k =
     bind_sv (get_conn k) (\<lambda>d.
     bind_sv (lift_sv (request_marshall status (write_buffer d))) (\<lambda>(n, wb).
     bind_sv (put_conn k (d\<lparr>write_buffer := wb\<rparr>)) (\<lambda>_.
     bind_sv (set_interest (client_fd d) OP_WRITE) (\<lambda>ss.
     bind_sv (if origin_fd d \<noteq> -1 then set_interest (origin_fd d) OP_NOOP else ret_sv SELECTOR_SUCCESS) (\<lambda>ss.
       ret_sv (socks_code REQUEST_WRITE))))))"

section \<open>REQUEST_READ\<close>

definition with_request_st :: "skey \<Rightarrow> (socks5 \<Rightarrow> request_st \<Rightarrow> 'a srv) \<Rightarrow> 'a srv" where
  "with_request_st k f = bind_sv (get_conn k) (\<lambda>d.
     case client d of Client_request r \<Rightarrow> f d r | _ \<Rightarrow> fail_sv Undefined)"

definition put_request_st :: "skey \<Rightarrow> (request_st \<Rightarrow> request_st) \<Rightarrow> unit srv" where
  "put_request_st k f = with_request_st k (\<lambda>d r. put_conn k (d\<lparr>client := Client_request (f r)\<rparr>))"

definition deref :: "'a ptr \<Rightarrow> ('a \<Rightarrow> 'b srv) \<Rightarrow> 'b srv" where
  "deref p f = (case p of Ptr x \<Rightarrow> f x | _ \<Rightarrow> fail_sv Undefined)"

definition request_failure :: "skey \<Rightarrow> nat srv" where
  "request_failure k =
     bind_sv (put_request_st k (\<lambda>r. r\<lparr>rs_status := status_general_socks_server_failure\<rparr>)) (\<lambda>_.
       error_handler status_general_socks_server_failure k)"

text \<open>
  The second allocation replaces the block of \<open>request_parser_init\<close>. A NULL parser is
  passed on to \<open>request_parser_init\<close>.
\<close>

definition request_init :: "nat \<Rightarrow> skey \<Rightarrow> server \<Rightarrow> server res" where
  "request_init st k w =
     bind_res (bind_sv (get_conn k) (\<lambda>d.
       bind_sv (put_conn k (d\<lparr>client := Client_request
          \<lparr>rs_parser = Null_ptr, rs_addr_family = 0, rs_status = status_succeeded\<rparr>\<rparr>)) (\<lambda>_.
       if \<not> os_alloc (key_os k) Alloc_request_parser
       then bind_sv (request_failure k) (\<lambda>_. fail_sv Undefined)
       else let (n, p) = request_parser_init (os_request (key_os k) 0)
                  \<lparr>rp_request = None, rp_state = request_version, rp_remaining = 0, rp_read = 0\<rparr>
            in bind_sv (put_request_st k (\<lambda>r. r\<lparr>rs_parser := Ptr p\<rparr>)) (\<lambda>_.
               bind_sv (if n < 0 then request_failure k else ret_sv 0) (\<lambda>_.
               bind_sv (put_request_st k (\<lambda>r. r\<lparr>rs_parser :=
                          Ptr (p\<lparr>rp_request := os_request (key_os k) 1\<rparr>)\<rparr>)) (\<lambda>_.
               bind_sv (if os_request (key_os k) 1 = None then request_failure k else ret_sv 0) (\<lambda>_.
                 ret_sv ())))))) w) (\<lambda>(_, w'). Inr w')"

definition request_close :: "nat \<Rightarrow> skey \<Rightarrow> server \<Rightarrow> server res" where
  "request_close st k w =
     bind_res (with_request_st k (\<lambda>d r. deref (rs_parser r) (\<lambda>p.
       case rp_request p of
         None \<Rightarrow> fail_sv Undefined
       | Some q \<Rightarrow> if req_atyp q \<noteq> socks_req_addrtype_domain
                   then put_conn k (d\<lparr>client := Client_request (r\<lparr>rs_parser := Null_ptr\<rparr>)\<rparr>)
                   else ret_sv ())) w) (\<lambda>(_, w'). Inr w')"

definition request_process :: "skey \<Rightarrow> nat srv" where
  "request_process k = with_request_st k (\<lambda>d r. deref (rs_parser r) (\<lambda>p.
     case rp_request p of
       None \<Rightarrow> fail_sv Undefined
     | Some q \<Rightarrow>
        let fail = (\<lambda>status. bind_sv (put_request_st k (\<lambda>r. r\<lparr>rs_status := status\<rparr>)) (\<lambda>_.
                                error_handler status k));
            family = (\<lambda>x. Client_request (r\<lparr>rs_addr_family := x\<rparr>))
        in if req_cmd q \<noteq> socks_req_cmd_connect then fail status_command_not_supported
           else if req_atyp q = socks_req_addrtype_ipv4
           then (case req_dest q of
                   Dest_addr a \<Rightarrow>
                     bind_sv (put_conn k (d\<lparr>client := family socks_req_addrtype_ipv4, origin_domain := AF_INET,
                                origin_addr_len := 16, origin_addr := a\<rparr>)) (\<lambda>_.
                       ret_sv (socks_code REQUEST_CONNECTING))
                 | _ \<Rightarrow> fail_sv Undefined)
           else if req_atyp q = socks_req_addrtype_ipv6
           then (case req_dest q of
                   Dest_addr a \<Rightarrow>
                     bind_sv (put_conn k (d\<lparr>client := family socks_req_addrtype_ipv6, origin_domain := AF_INET6,
                                origin_addr_len := 28, origin_addr := a\<rparr>)) (\<lambda>_.
                       ret_sv (socks_code REQUEST_CONNECTING))
                 | _ \<Rightarrow> fail_sv Undefined)
           else if req_atyp q = socks_req_addrtype_domain
           then bind_sv (put_conn k (d\<lparr>client := family socks_req_addrtype_domain\<rparr>)) (\<lambda>_.
                if \<not> os_alloc (key_os k) Alloc_key then fail status_general_socks_server_failure
                else if os_pthread_create (key_os k) = -1 then fail status_general_socks_server_failure
                else bind_sv (modify_sv (\<lambda>w. if os_pthread_create (key_os k) = 0
                        then w\<lparr>sv_threads := sv_threads w @ [(key_fd k, key_data k)]\<rparr> else w)) (\<lambda>_.
                     bind_sv (set_interest_key k OP_NOOP) (\<lambda>ss.
                       ret_sv (socks_code REQUEST_RESOLV))))
           else fail status_address_type_not_supported))"

definition request_read :: "skey \<Rightarrow> nat srv" where
  "request_read k = with_request_st k (\<lambda>d r.
     if rs_status r \<noteq> status_succeeded then ret_sv (socks_code REQUEST_WRITE)
     else bind_sv (lift_sv (recv_into k (\<lambda>n. n) (read_buffer d))) (\<lambda>x.
       case x of
         None \<Rightarrow> ret_sv (socks_code ERROR)
       | Some (xs, rb) \<Rightarrow> deref (rs_parser r) (\<lambda>p.
           bind_sv (lift_sv (request_consume rb p False)) (\<lambda>((p', st), rb').
           bind_sv (put_conn k (d\<lparr>client := Client_request (r\<lparr>rs_parser := Ptr p'\<rparr>), read_buffer := rb'\<rparr>)) (\<lambda>_.
             if request_is_done st False then request_process k
             else ret_sv (socks_code REQUEST_READ))))))"

section \<open>REQUEST_RESOLV\<close>

text \<open>\<open>snprintf("%d")\<close> of a 16-bit number, as bytes, and \<open>ntohs\<close> of the two bytes of a port.\<close>

fun decimal :: "nat \<Rightarrow> byte list" where
  "decimal n = (if n < 10 then [of_nat (48 + n)] else decimal (n div 10) @ [of_nat (48 + n mod 10)])"

declare decimal.simps [simp del]

definition ntohs :: "byte list \<Rightarrow> nat" where
  "ntohs port = unat (port ! 0) * 256 + unat (port ! 1)"

definition selector_notify :: "os \<Rightarrow> int \<Rightarrow> selector_status srv" where
  "selector_notify os fd = (\<lambda>w.
     let (st, s) = selector_notify_block (os_alloc os Alloc_job) (sv_selector w) fd
     in Inr (st, w\<lparr>sv_selector := s\<rparr>))"

definition request_resolv_blocking :: "skey \<Rightarrow> unit srv" where
  "request_resolv_blocking k = with_request_st k (\<lambda>d r. deref (rs_parser r) (\<lambda>p.
     case rp_request p of
       None \<Rightarrow> fail_sv Undefined
     | Some q \<Rightarrow>
        (case req_dest q of
           Dest_fqdn h n \<Rightarrow>
             if \<not> os_alloc (key_os k) (Alloc_result 0) \<or> n < 0 \<or> nat n > length h then fail_sv Undefined
             else let res = os_getaddrinfo (key_os k) (cstr (take (nat n) h)) (decimal (ntohs (req_port q)))
                  in bind_sv (put_conn k (d\<lparr>origin_resolution := res\<rparr>)) (\<lambda>_.
                     bind_sv (selector_notify (key_os k) (key_fd k)) (\<lambda>st.
                       modify_sv (\<lambda>w. w\<lparr>sv_threads := remove1 (key_fd k, key_data k) (sv_threads w)\<rparr>)))
         | _ \<Rightarrow> fail_sv Undefined)))"

text \<open>The block-ready handler: the result list, or an error reply.\<close>

definition request_resolv_done :: "skey \<Rightarrow> nat srv" where
  "request_resolv_done k =
     bind_sv (get_conn k) (\<lambda>d.
     case origin_resolution d of
       [] \<Rightarrow>
         bind_sv (put_conn k (d\<lparr>orig := Orig_conn
            (case orig d of Orig_conn c \<Rightarrow> c\<lparr>cn_status := status_general_socks_server_failure\<rparr>
                          | _ \<Rightarrow> \<lparr>cn_client_fd = 0, cn_origin_fd = 0,
                                  cn_status = status_general_socks_server_failure\<rparr>)\<rparr>)) (\<lambda>_.
           request_failure k)
     | a # rest \<Rightarrow>
         let d1 = d\<lparr>origin_resolution_current := a # rest\<rparr>;
             d2 = (if ai_family a = AF_INET
                   then d1\<lparr>origin_domain := AF_INET, origin_addr_len := 16, origin_addr := ai_addr a\<rparr> else d1);
             d3 = (if ai_family a = AF_INET6
                   then d2\<lparr>origin_domain := AF_INET6, origin_addr_len := 28, origin_addr := ai_addr a\<rparr> else d2)
         in bind_sv (put_conn k d3) (\<lambda>_. ret_sv (socks_code REQUEST_CONNECTING)))"

section \<open>REQUEST_WRITE\<close>

text \<open>\<open>orig.conn.status\<close>; the zeroed union reads as \<open>status_succeeded\<close>.\<close>

definition orig_status :: "socks5 \<Rightarrow> socks_reply_status res" where
  "orig_status d =
     (case orig d of
        Orig_zero \<Rightarrow> Inr status_succeeded
      | Orig_conn c \<Rightarrow> Inr (cn_status c)
      | Orig_copy c \<Rightarrow> Inl Undefined)"

definition request_write :: "skey \<Rightarrow> nat srv" where
  "request_write k = with_request_st k (\<lambda>d r.
     bind_sv (send_from k (write_buffer d)) (\<lambda>x.
       case x of
         None \<Rightarrow> ret_sv (socks_code ERROR)
       | Some wb \<Rightarrow>
           bind_sv (put_conn k (d\<lparr>write_buffer := wb\<rparr>)) (\<lambda>_.
           if \<not> buffer_can_read wb
           then bind_sv (lift_sv (orig_status d)) (\<lambda>status.
                if status = status_succeeded
                then bind_sv (set_interest (client_fd d) OP_READ) (\<lambda>_.
                     bind_sv (set_interest (origin_fd d) OP_READ) (\<lambda>_. ret_sv (socks_code COPY)))
                else bind_sv (set_interest (client_fd d) OP_NOOP) (\<lambda>_.
                     bind_sv (if -1 = origin_fd d then set_interest (origin_fd d) OP_NOOP
                              else ret_sv SELECTOR_SUCCESS) (\<lambda>_. ret_sv (socks_code DONE))))
           else ret_sv (socks_code REQUEST_WRITE))))"

section \<open>What the handlers do\<close>

text \<open>A read event hands the old and the new bytes to the request parser.\<close>

lemma request_read_feeds:
  assumes "at_conn k w d" and "client d = Client_request r" and "rs_parser r = Ptr p"
    and "rs_status r = status_succeeded"
    and "os_recv (key_os k) (key_fd k) (buffer_free (read_buffer d)) = Some xs" and "xs \<noteq> []"
    and "length xs \<le> buffer_free (read_buffer d)"
    and "feed_bytes request_feed (request_stop False) (buffer_content (read_buffer d) @ xs)
           (p, rp_state p) = Inr ((p', st), rest)"
  shows "\<exists>rb. buffer_inv rb \<and> buffer_content rb = rest \<and>
    (let d' = d\<lparr>client := Client_request (r\<lparr>rs_parser := Ptr p'\<rparr>), read_buffer := rb\<rparr>;
         w' = w\<lparr>sv_heap := (sv_heap w)(key_data k \<mapsto> d')\<rparr>
     in at_conn k w' d' \<and>
        request_read k w = (if request_is_done st False then request_process k w'
                            else Inr (socks_code REQUEST_READ, w')))"
proof -
  have bufs: "buffer_inv (read_buffer d)" "buffer_inv (write_buffer d)"
    using assms(1) by (auto simp: at_conn_def)
  obtain rb where rb: "recv_into k (\<lambda>n. n) (read_buffer d) = Inr (Some (xs, rb))" "buffer_inv rb"
      "buffer_content rb = buffer_content (read_buffer d) @ xs"
    using recv_into_data [OF bufs(1) assms(5,6,7)] by blast
  obtain rb' where rb': "request_consume rb p False = Inr ((p', st), rb')" "buffer_inv rb'"
      "buffer_content rb' = rest"
    using rp.loop_Inr [OF rb(2), of False "(p, rp_state p)" "(p', st)" rest] assms(8) rb(3)
    by (auto simp: request_consume_def)
  have conn: "get_conn k w = Inr (d, w)" using assms(1) by simp
  show ?thesis
    using conn assms(2-4) rb(1) rb' bufs
    by (intro exI [of _ rb']) (simp add: request_read_def with_request_st_def deref_def bind_sv_def
        lift_sv_def ret_sv_def put_conn_def modify_sv_def at_conn_def Let_def)
qed

text \<open>A request in segments: the connection \<open>d\<close> of \<open>w0\<close> while its request arrives.\<close>

definition request_waits ::
    "server \<times> nat \<times> int \<times> socks5 \<times> request_st \<Rightarrow> server \<Rightarrow> request_consume_state \<Rightarrow> byte list \<Rightarrow> nat \<Rightarrow> bool" where
  "request_waits c w s q n \<longleftrightarrow> (case c of (w0, i, fd, d, r) \<Rightarrow> case s of (p, st) \<Rightarrow>
     rs_status r = status_succeeded \<and> buffer_inv (write_buffer d) \<and> st = rp_state p \<and>
     (\<exists>rb. buffer_inv rb \<and> buffer_content rb = q \<and> buffer_free rb = n \<and> buf_limit rb = buf_limit (read_buffer d) \<and>
        w = w0\<lparr>sv_heap := (sv_heap w0)(i \<mapsto> d\<lparr>client := Client_request (r\<lparr>rs_parser := Ptr p\<rparr>), read_buffer := rb\<rparr>)\<rparr>))"

lemma request_read_partial:
  assumes "at_conn k w d" and "client d = Client_request r" and "rs_parser r = Ptr p"
    and "rs_status r = status_succeeded"
    and "os_recv (key_os k) (key_fd k) (buffer_free (read_buffer d)) = Some xs" and "xs \<noteq> []"
    and "length xs \<le> buffer_free (read_buffer d)"
    and feed: "feed_bytes request_feed (request_stop False) (buffer_content (read_buffer d) @ xs)
           (p, rp_state p) = Inr ((p', st), [])" and "\<not> request_is_done st False"
  shows "\<exists>rb. request_read k w = Inr (socks_code REQUEST_READ, w\<lparr>sv_heap := (sv_heap w)(key_data k \<mapsto>
      d\<lparr>client := Client_request (r\<lparr>rs_parser := Ptr p'\<rparr>), read_buffer := rb\<rparr>)\<rparr>) \<and>
    buffer_inv rb \<and> buffer_content rb = [] \<and> buf_limit rb = buf_limit (read_buffer d) \<and> st = rp_state p'"
proof -
  have inv: "buffer_inv (read_buffer d)" using assms(1) by (simp add: at_conn_def)
  obtain rb where rb: "recv_into k (\<lambda>n. n) (read_buffer d) = Inr (Some (xs, rb))" "buffer_inv rb"
      "buffer_content rb = buffer_content (read_buffer d) @ xs" "buf_limit rb = buf_limit (read_buffer d)"
    using recv_into_data [OF inv assms(5,6,7)] by blast
  obtain rb' where rb': "request_consume_from False rb (p, rp_state p) = Inr ((p', st), rb')" "buffer_inv rb'"
      "buffer_content rb' = []"
    using rp.loop_Inr [OF rb(2), of False "(p, rp_state p)"] feed rb(3) by auto
  have "buffer_inv rb' \<and> buf_limit rb' = buf_limit (read_buffer d)"
  proof (rule rp.loop_keeps [where J = "\<lambda>b. buffer_inv b \<and> buf_limit b = buf_limit (read_buffer d)", OF _ rb(2) _ rb'(1)])
    show "buffer_inv b' \<and> buf_limit b' = buf_limit (read_buffer d)"
      if "buffer_inv b \<and> buf_limit b = buf_limit (read_buffer d)" "buffer_read b = Inr (x, b')" for b x b'
      by (rule buffer_read_limit [OF that])
    show "buffer_inv rb \<and> buf_limit rb = buf_limit (read_buffer d)" using rb(2,4) by simp
  qed
  moreover have "st = rp_state p'"
    using request_consume_state [OF rb(2), of p False p' st rb'] rb'(1) by (simp add: request_consume_def)
  moreover have "request_read k w = Inr (socks_code REQUEST_READ, w\<lparr>sv_heap := (sv_heap w)(key_data k \<mapsto>
      d\<lparr>client := Client_request (r\<lparr>rs_parser := Ptr p'\<rparr>), read_buffer := rb'\<rparr>)\<rparr>)"
    using assms(1-4,9) rb(1) rb'(1)
    by (simp add: request_read_def request_consume_def with_request_st_def deref_def bind_sv_def
        lift_sv_def ret_sv_def put_conn_def modify_sv_def)
  ultimately show ?thesis using rb'(2,3) by blast
qed

interpretation request_segments: segmented request_feed "request_stop False" request_read "socks_code REQUEST_READ"
  request_waits "\<lambda>(w, i, fd, d, r). arrives_at i fd" "\<lambda>(w, i, fd, d, r). buf_limit (read_buffer d)"
proof unfold_locales
  fix c :: "server \<times> nat \<times> int \<times> socks5 \<times> request_st" and xs q n k w s s'
  obtain w0 i fd d r where c: "c = (w0, i, fd, d, r)" by (cases c)
  show "xs \<noteq> []" if "(case c of (w, i, fd, d, r) \<Rightarrow> arrives_at i fd) xs k"
    using that by (simp add: c arrives_at_def)
  assume w: "request_waits c w s q n" and a: "(case c of (w, i, fd, d, r) \<Rightarrow> arrives_at i fd) xs k"
    and n: "length xs \<le> n" and f: "feed_bytes request_feed (request_stop False) (q @ xs) s = Inr (s', [])"
    and ns: "\<not> request_stop False s'"
  obtain p st where s: "s = (p, st)" by (cases s)
  obtain p' st' where s': "s' = (p', st')" by (cases s')
  from w obtain rb where rb: "buffer_inv rb" "buffer_content rb = q" "buffer_free rb = n"
      "buf_limit rb = buf_limit (read_buffer d)" "rs_status r = status_succeeded" "buffer_inv (write_buffer d)"
      "st = rp_state p"
      "w = w0\<lparr>sv_heap := (sv_heap w0)(i \<mapsto> d\<lparr>client := Client_request (r\<lparr>rs_parser := Ptr p\<rparr>), read_buffer := rb\<rparr>)\<rparr>"
    by (auto simp: request_waits_def c s)
  let ?d = "d\<lparr>client := Client_request (r\<lparr>rs_parser := Ptr p\<rparr>), read_buffer := rb\<rparr>"
  have k: "key_data k = i" "key_fd k = fd" "xs \<noteq> []" "os_recv (key_os k) fd n = Some xs"
    using a n by (auto simp: c arrives_at_def)
  have "at_conn k w ?d" using rb k(1) by (simp add: at_conn_def)
  from request_read_partial [OF this, where r = "r\<lparr>rs_parser := Ptr p\<rparr>" and xs = xs and p = p and p' = p' and st = st']
    rb k n f ns s s'
  obtain rb' where rb': "request_read k w = Inr (socks_code REQUEST_READ, w\<lparr>sv_heap := (sv_heap w)(i \<mapsto>
      ?d\<lparr>client := Client_request (r\<lparr>rs_parser := Ptr p'\<rparr>), read_buffer := rb'\<rparr>)\<rparr>)"
      "buffer_inv rb'" "buffer_content rb' = []" "buf_limit rb' = buf_limit (read_buffer d)" "st' = rp_state p'"
    by (auto simp: request_stop_def)
  have "buffer_free rb' = buf_limit (read_buffer d)" using buffer_free_empty [OF rb'(2,3)] rb'(4) by simp
  with rb' rb show "\<exists>w'. request_read k w = Inr (socks_code REQUEST_READ, w') \<and>
      request_waits c w' s' [] (case c of (w, i, fd, d, r) \<Rightarrow> buf_limit (read_buffer d))"
    by (auto simp: c s' request_waits_def)
qed

lemma request_process_address:
  assumes "sv_heap w (key_data k) = Some d" and "client d = Client_request r" and "rs_parser r = Ptr p"
    and "rp_request p = Some q" and "req_cmd q = socks_req_cmd_connect" and "req_dest q = Dest_addr a"
    and "req_atyp q = t" and "t = socks_req_addrtype_ipv4 \<and> fam = AF_INET \<and> len = 16 \<or>
         t = socks_req_addrtype_ipv6 \<and> fam = AF_INET6 \<and> len = 28"
  shows "request_process k w = Inr (socks_code REQUEST_CONNECTING,
    w\<lparr>sv_heap := (sv_heap w)(key_data k \<mapsto> d\<lparr>client := Client_request (r\<lparr>rs_addr_family := t\<rparr>),
       origin_domain := fam, origin_addr_len := len, origin_addr := a\<rparr>)\<rparr>)"
  using assms
  by (auto simp: request_process_def with_request_st_def deref_def sv_simps request_constants Let_def)

lemma request_process_fqdn:
  assumes "at_conn k w d" and "client d = Client_request r" and "rs_parser r = Ptr p"
    and "rp_request p = Some q" and "req_cmd q = socks_req_cmd_connect"
    and "req_atyp q = socks_req_addrtype_domain" and "os_alloc (key_os k) Alloc_key"
    and "os_pthread_create (key_os k) = 0" and "registered w (key_fd k) it"
  shows "\<exists>s. request_process k w = Inr (socks_code REQUEST_RESOLV,
    w\<lparr>sv_heap := (sv_heap w)(key_data k \<mapsto> d\<lparr>client := Client_request
           (r\<lparr>rs_addr_family := socks_req_addrtype_domain\<rparr>)\<rparr>),
      sv_threads := sv_threads w @ [(key_fd k, key_data k)], sv_selector := s\<rparr>) \<and> sel_full s \<and>
    sel_lookup s = (sel_lookup (sv_selector w))(key_fd k \<mapsto> it\<lparr>item_interest := OP_NOOP\<rparr>)"
proof -
  let ?w = "w\<lparr>sv_heap := (sv_heap w)(key_data k \<mapsto> d\<lparr>client := Client_request
           (r\<lparr>rs_addr_family := socks_req_addrtype_domain\<rparr>)\<rparr>),
      sv_threads := sv_threads w @ [(key_fd k, key_data k)]\<rparr>"
  have "registered ?w (key_fd k) it" using assms(9) by (simp add: registered_def)
  from set_interest_key_ok [OF this, of OP_NOOP] obtain s where s:
    "set_interest_key k OP_NOOP ?w = Inr (SELECTOR_SUCCESS, ?w\<lparr>sv_selector := s\<rparr>)" "sel_full s"
    "sel_lookup s = (sel_lookup (sv_selector w))(key_fd k \<mapsto> it\<lparr>item_interest := OP_NOOP\<rparr>)" by auto
  have "request_process k w = Inr (socks_code REQUEST_RESOLV, ?w\<lparr>sv_selector := s\<rparr>)"
    using assms(1-8) s(1)
    by (simp add: request_process_def with_request_st_def deref_def bind_sv_def ret_sv_def put_conn_def
        modify_sv_def request_constants Let_def del: OP_values)
  then show ?thesis using s(2,3) by blast
qed

text \<open>A rejected request: no reply, no change of state, for every further input.\<close>

lemma request_read_rejected:
  assumes "at_conn k w d" and "client d = Client_request r" and "rs_parser r = Ptr p"
    and "rs_status r = status_succeeded" and "request_rejected (rp_state p)"
    and "os_recv (key_os k) (key_fd k) (buffer_free (read_buffer d)) = Some xs" and "xs \<noteq> []"
    and "length xs \<le> buffer_free (read_buffer d)"
  shows "\<exists>w' d'. request_read k w = Inr (socks_code REQUEST_READ, w') \<and> at_conn k w' d' \<and>
    client d' = client d \<and> buffer_content (read_buffer d') = [] \<and> write_buffer d' = write_buffer d \<and>
    sv_log w' = sv_log w \<and> sv_selector w' = sv_selector w"
proof -
  have f: "feed_bytes request_feed (request_stop False) (buffer_content (read_buffer d) @ xs) (p, rp_state p) =
      Inr ((p, rp_state p), [])" and nd: "\<not> request_is_done (rp_state p) False"
    using request_rejected_absorbs [OF assms(5)] by auto
  obtain rb where rb: "buffer_inv rb" "buffer_content rb = []"
    "let d' = d\<lparr>client := Client_request (r\<lparr>rs_parser := Ptr p\<rparr>), read_buffer := rb\<rparr>;
         w' = w\<lparr>sv_heap := (sv_heap w)(key_data k \<mapsto> d')\<rparr>
     in at_conn k w' d' \<and>
        request_read k w = (if request_is_done (rp_state p) False then request_process k w'
                            else Inr (socks_code REQUEST_READ, w'))"
    using request_read_feeds [OF assms(1-4,6-8) f] by blast
  let ?d = "d\<lparr>client := Client_request (r\<lparr>rs_parser := Ptr p\<rparr>), read_buffer := rb\<rparr>"
  have "r\<lparr>rs_parser := Ptr p\<rparr> = r" using assms(3) by (cases r) simp
  then show ?thesis
    using rb nd assms(2)
    by (intro exI [of _ "w\<lparr>sv_heap := (sv_heap w)(key_data k \<mapsto> ?d)\<rparr>"] exI [of _ ?d]) (simp add: Let_def)
qed

text \<open>The reply is sent; the connection goes on only when the origin answered.\<close>

lemma request_write_sends:
  assumes "at_conn k w d" and "client d = Client_request r" and "orig_status d = Inr status"
    and "sel_full (sv_selector w)"
    and "os_send (key_os k) (key_fd k) (buffer_content (write_buffer d)) = int n"
    and "n \<le> length (buffer_content (write_buffer d))"
  shows "\<exists>w' wb. request_write k w =
      Inr (if n < length (buffer_content (write_buffer d)) then socks_code REQUEST_WRITE
           else if status = status_succeeded then socks_code COPY else socks_code DONE, w') \<and>
    moved k w (sel_lookup (sv_selector w')) (d\<lparr>write_buffer := wb\<rparr>)
      [Sent (key_fd k) (take n (buffer_content (write_buffer d)))] w' \<and>
    (\<forall>it jt. n = length (buffer_content (write_buffer d)) \<longrightarrow> status = status_succeeded \<longrightarrow>
      client_fd d \<noteq> origin_fd d \<longrightarrow> registered w (client_fd d) it \<longrightarrow> registered w (origin_fd d) jt \<longrightarrow>
      sel_lookup (sv_selector w') = (sel_lookup (sv_selector w))
        (client_fd d \<mapsto> it\<lparr>item_interest := OP_READ\<rparr>, origin_fd d \<mapsto> jt\<lparr>item_interest := OP_READ\<rparr>)) \<and>
    buffer_inv wb \<and> buf_limit wb = buf_limit (write_buffer d) \<and>
    buffer_content wb = drop n (buffer_content (write_buffer d))"
proof -
  let ?c = "buffer_content (write_buffer d)"
  have bufs: "buffer_inv (read_buffer d)" "buffer_inv (write_buffer d)"
    using assms(1) by (auto simp: at_conn_def)
  from buffer_read_adv_spec [OF bufs(2), of "int n"] assms(6) obtain wb where wb:
    "buffer_read_adv (write_buffer d) (int n) = Inr wb" "buffer_inv wb" "buffer_content wb = drop n ?c"
    "buf_limit wb = buf_limit (write_buffer d)"
    by auto
  let ?l = "sv_log w @ [Sent (key_fd k) (take n ?c)]"
  let ?u = "w\<lparr>sv_log := ?l, sv_heap := (sv_heap w)(key_data k \<mapsto> d\<lparr>write_buffer := wb\<rparr>)\<rparr>"
  have send: "send_from k (write_buffer d) w = Inr (Some wb, w\<lparr>sv_log := ?l\<rparr>)"
    using bufs assms(5) wb(1) by (simp add: send_from_def sv_simps)
  have can: "buffer_can_read wb \<longleftrightarrow> n < length ?c"
    using wb(2,3) assms(6) by (auto simp: buffer_can_read_iff)
  have full: "sel_full (sv_selector ?u)" using assms(4) by simp
  have log: "moved k w (sel_lookup s) (d\<lparr>write_buffer := wb\<rparr>) [Sent (key_fd k) (take n ?c)] (?u\<lparr>sv_selector := s\<rparr>)"
    if "sel_full s" for s using that by (simp add: moved_def same_rest_def)
  have u: "?u\<lparr>sv_selector := sv_selector w\<rparr> = ?u" by simp
  obtain ss s where s: "set_interest (client_fd d) OP_READ ?u = Inr (ss, ?u\<lparr>sv_selector := s\<rparr>)" "sel_full s"
    using set_interest_total [OF full] by blast
  obtain ss' s' where s': "set_interest (origin_fd d) OP_READ (?u\<lparr>sv_selector := s\<rparr>) =
      Inr (ss', ?u\<lparr>sv_selector := s'\<rparr>)" "sel_full s'"
    using set_interest_total [of "?u\<lparr>sv_selector := s\<rparr>" "origin_fd d" OP_READ] s(2) by auto
  obtain tt t where t: "set_interest (client_fd d) OP_NOOP ?u = Inr (tt, ?u\<lparr>sv_selector := t\<rparr>)" "sel_full t"
    using set_interest_total [OF full] by blast
  obtain tt' t' where t': "set_interest (origin_fd d) OP_NOOP (?u\<lparr>sv_selector := t\<rparr>) =
      Inr (tt', ?u\<lparr>sv_selector := t'\<rparr>)" "sel_full t'"
    using set_interest_total [of "?u\<lparr>sv_selector := t\<rparr>" "origin_fd d" OP_NOOP] t(2) by auto
  have reading: "sel_lookup s' = (sel_lookup (sv_selector w))
      (client_fd d \<mapsto> it\<lparr>item_interest := OP_READ\<rparr>, origin_fd d \<mapsto> jt\<lparr>item_interest := OP_READ\<rparr>)"
    if "client_fd d \<noteq> origin_fd d" "registered w (client_fd d) it" "registered w (origin_fd d) jt" for it jt
  proof -
    have r1: "registered ?u (client_fd d) it" using that(2) by (simp add: registered_def)
    from set_interest_lookup [OF r1 s(1)] have
      l: "sel_lookup s = (sel_lookup (sv_selector w))(client_fd d \<mapsto> it\<lparr>item_interest := OP_READ\<rparr>)"
      by simp
    have "registered (?u\<lparr>sv_selector := s\<rparr>) (origin_fd d) jt" using that s(2) l by (simp add: registered_def)
    from set_interest_lookup [OF this s'(1)] l show ?thesis by simp
  qed
  define z where "z = (if n < length ?c then sv_selector w else if status = status_succeeded then s'
    else if -1 = origin_fd d then t' else t)"
  have "request_write k w = Inr (if n < length ?c then socks_code REQUEST_WRITE
           else if status = status_succeeded then socks_code COPY else socks_code DONE, ?u\<lparr>sv_selector := z\<rparr>)"
    using assms(1-3) send can s(1) s'(1) t(1) t'(1) u
    by (simp add: request_write_def with_request_st_def bind_sv_def ret_sv_def put_conn_def modify_sv_def
        lift_sv_def z_def del: OP_values take_all take_all_iff)
  moreover have "sel_full z" using s(2) s'(2) t(2) t'(2) assms(4) by (simp add: z_def)
  moreover have "z = s'" if "n = length ?c" "status = status_succeeded" using that by (simp add: z_def)
  ultimately show ?thesis
    using log [of z] reading wb(2-4)
    by (intro exI [of _ "?u\<lparr>sv_selector := z\<rparr>"] exI [of _ wb]) simp
qed

end
