(* ===== verification/Pool.thy ===== *)
theory Pool
  imports Connection
begin

text \<open>
  Destruction of connections and the two pools (\<open>src/src/socks5nio.c\<close>,
  \<open>src/src/mng_nio.c\<close>), and the selector operations that call back into them. The list
  linked by \<open>next\<close> from \<open>pool\<close> is \<open>sv_pool\<close>; freed memory is absent from the heap.
\<close>

section \<open>Destruction\<close>

definition max_pool :: nat where "max_pool = 50"
definition mng_max_pool :: nat where "mng_max_pool = 50"

definition socks5_free :: "nat \<Rightarrow> server \<Rightarrow> server" where
  "socks5_free i w = w\<lparr>sv_heap := (sv_heap w)(i := None)\<rparr>"

definition socks5_destroy :: "nat option \<Rightarrow> server \<Rightarrow> server res" where
  "socks5_destroy x w =
     (case x of
        None \<Rightarrow> Inr w
      | Some i \<Rightarrow>
         (case sv_heap w i of
            None \<Rightarrow> Inl Undefined
          | Some s \<Rightarrow>
              if references s = 1
              then Inr (if sv_pool_size w < max_pool
                        then w\<lparr>sv_pool := i # sv_pool w, sv_pool_size := sv_pool_size w + 1\<rparr>
                        else socks5_free i w)
              else Inr (w\<lparr>sv_heap := (sv_heap w)(i \<mapsto> s\<lparr>references := references s - 1\<rparr>)\<rparr>)))"

definition mng_destroy :: "nat option \<Rightarrow> server \<Rightarrow> server res" where
  "mng_destroy x w =
     (case x of
        None \<Rightarrow> Inr w
      | Some i \<Rightarrow>
         (case sv_heap w i of
            None \<Rightarrow> Inl Undefined
          | Some s \<Rightarrow>
              if references s = 1
              then Inr (if sv_mng_pool_size w < mng_max_pool
                        then w\<lparr>sv_mng_pool := i # sv_mng_pool w, sv_mng_pool_size := sv_mng_pool_size w + 1\<rparr>
                        else socks5_free i w)
              else Inr (w\<lparr>sv_heap := (sv_heap w)(i \<mapsto> s\<lparr>references := references s - 1\<rparr>)\<rparr>)))"

text \<open>The two pool destructors free every element and leave the heads as they are.\<close>

definition socksv5_pool_destroy :: "server \<Rightarrow> server" where
  "socksv5_pool_destroy w = fold socks5_free (sv_pool w) w"

definition mng_pool_destroy :: "server \<Rightarrow> server" where
  "mng_pool_destroy w = fold socks5_free (sv_mng_pool w) w"

section \<open>The selector with its close callbacks\<close>

definition socksv5_close :: "int \<Rightarrow> nat option \<Rightarrow> server \<Rightarrow> server res" where
  "socksv5_close fd x w = socks5_destroy x w"

definition mng_close :: "int \<Rightarrow> nat option \<Rightarrow> server \<Rightarrow> server res" where
  "mng_close fd x w = mng_destroy x w"

fun handle_close :: "handler_id \<Rightarrow> (int \<Rightarrow> nat option \<Rightarrow> server \<Rightarrow> server res) option" where
  "handle_close Socks5_handler = Some socksv5_close"
| "handle_close Mng_handler = Some mng_close"
| "handle_close Socks5_passive = None"
| "handle_close Mng_passive = None"

definition unregister :: "int \<Rightarrow> selector_status srv" where
  "unregister fd = (\<lambda>w. bind_res (selector_unregister_fd handle_close (sv_selector w) fd w)
     (\<lambda>(st, s, w'). Inr (st, w'\<lparr>sv_selector := s\<rparr>)))"

definition register :: "os \<Rightarrow> int \<Rightarrow> handler_id \<Rightarrow> fd_interest \<Rightarrow> nat option \<Rightarrow> selector_status srv" where
  "register os fd h i x = (\<lambda>w.
     bind_res (selector_register (os_alloc os Alloc_items) (sv_selector w) fd (Some h) i x)
       (\<lambda>(st, s). Inr (st, w\<lparr>sv_selector := s\<rparr>)))"

definition close_fd :: "int \<Rightarrow> unit srv" where "close_fd fd = emit (Closed fd)"

lemma register_ok:
  assumes "sel_full (sv_selector w)" and "\<not> INVALID_FD fd" and "sel_lookup (sv_selector w) fd = None"
  shows "\<exists>s. register os fd h i x w = Inr (SELECTOR_SUCCESS, w\<lparr>sv_selector := s\<rparr>) \<and> sel_full s \<and>
     sel_lookup s = (sel_lookup (sv_selector w))(fd \<mapsto>
        \<lparr>item_fd = fd, item_interest = i, item_handler = Some h, item_data = x\<rparr>)"
  using selector_register_spec [of "sv_selector w" fd "os_alloc os Alloc_items" h i x]
    sel_full_inv [OF assms(1)] sel_full_room [OF assms(1), of fd] assms
  by (auto simp: register_def sel_full_def)

lemma register_in_use:
  assumes "sel_full (sv_selector w)" and "sel_lookup (sv_selector w) fd = Some it"
  shows "register os fd h i x w = Inr (SELECTOR_FDINUSE, w)"
  using selector_register_in_use [OF sel_full_inv [OF assms(1)] assms(2)] by (simp add: register_def)

lemma unregister_ok:
  assumes "registered w fd it" and "item_handler it = Some h"
    and "(case handle_close h of None \<Rightarrow> Inr w | Some f \<Rightarrow> f fd (item_data it) w) = Inr w'"
  shows "\<exists>s. unregister fd w = Inr (SELECTOR_SUCCESS, w'\<lparr>sv_selector := s\<rparr>) \<and> sel_full s \<and>
     sel_lookup s = (sel_lookup (sv_selector w))(fd := None)"
  using selector_unregister_spec [where s = "sv_selector w" and fd = fd and it = it and h = h and
      close_cb = handle_close and w = w and w' = w'] assms sel_full_inv
  by (auto simp: registered_def unregister_def sel_full_def)

lemma unregister_unknown:
  assumes "sel_full (sv_selector w)" and "sel_lookup (sv_selector w) fd = None"
  shows "unregister fd w = Inr (SELECTOR_IARGS, w)"
  using selector_unregister_unknown [OF assms(2) sel_full_room [OF assms(1)], where
      close_cb = handle_close and w = w]
  by (simp add: unregister_def)

text \<open>Besides the selector, a removal does what one of the two destructors does.\<close>

lemma unregister_cases:
  assumes "unregister fd w = Inr (st, w')"
  shows "\<exists>v s. w' = v\<lparr>sv_selector := s\<rparr> \<and>
    (v = w \<or> (\<exists>x. socks5_destroy x w = Inr v) \<or> (\<exists>x. mng_destroy x w = Inr v))"
proof -
  from assms obtain s v where s: "selector_unregister_fd handle_close (sv_selector w) fd w = Inr (st, s, v)"
    and w': "w' = v\<lparr>sv_selector := s\<rparr>"
    by (auto simp: unregister_def bind_res_eq_Inr)
  have cb: "(\<exists>x. socks5_destroy x w = Inr v) \<or> (\<exists>x. mng_destroy x w = Inr v)"
    if "handle_close h = Some f" "f fd x w = Inr v" for h f fd x
    using that by (cases h) (auto simp: socksv5_close_def mng_close_def)
  have "v = w \<or> (\<exists>x. socks5_destroy x w = Inr v) \<or> (\<exists>x. mng_destroy x w = Inr v)"
    using s by (auto simp: selector_unregister_fd_def bind_res_eq_Inr Let_def
        split: if_splits option.splits dest: cb)
  with w' show ?thesis by blast
qed

end
