(* ===== verification/Connecting.thy ===== *)
theory Connecting
  imports Request_Stage Pool
begin

text \<open>
  The state REQUEST_CONNECTING (\<open>src/src/Etapas/connecting.c\<close>). The access log line of
  \<open>printf\<close> is the event \<open>Access\<close> with its raw arguments; \<open>errno\<close> values are Linux's.
\<close>

section \<open>Operations\<close>

definition ECONNREFUSED :: int where "ECONNREFUSED = 111"
definition EHOSTUNREACH :: int where "EHOSTUNREACH = 113"
definition ENETUNREACH :: int where "ENETUNREACH = 101"
definition ETIMEDOUT :: int where "ETIMEDOUT = 110"
definition EINPROGRESS :: int where "EINPROGRESS = 115"

lemmas errno_defs = ECONNREFUSED_def EHOSTUNREACH_def ENETUNREACH_def ETIMEDOUT_def EINPROGRESS_def

definition errno_to_socks :: "int \<Rightarrow> socks_reply_status" where
  "errno_to_socks e =
     (if e = 0 then status_succeeded
      else if e = ECONNREFUSED then status_connection_refused
      else if e = EHOSTUNREACH then status_host_unreachable
      else if e = ENETUNREACH then status_network_unreachable
      else if e = ETIMEDOUT then status_ttl_expired
      else status_general_socks_server_failure)"

definition put_orig_conn :: "skey \<Rightarrow> (connecting \<Rightarrow> connecting) \<Rightarrow> unit srv" where
  "put_orig_conn k f = bind_sv (get_conn k) (\<lambda>d.
     case orig d of
       Orig_conn c \<Rightarrow> put_conn k (d\<lparr>orig := Orig_conn (f c)\<rparr>)
     | _ \<Rightarrow> fail_sv Undefined)"

definition put_orig_status :: "skey \<Rightarrow> socks_reply_status \<Rightarrow> unit srv" where
  "put_orig_status k st = put_orig_conn k (\<lambda>c. c\<lparr>cn_status := st\<rparr>)"

definition add_reference :: "skey \<Rightarrow> unit srv" where
  "add_reference k = bind_sv (get_conn k) (\<lambda>d. put_conn k (d\<lparr>references := references d + 1\<rparr>))"

text \<open>The failure branches of \<open>connection\<close>: set the status, reply, return the status.\<close>

definition connection_failure :: "skey \<Rightarrow> socks_reply_status \<Rightarrow> socks_reply_status srv" where
  "connection_failure k st =
     bind_sv (put_orig_status k st) (\<lambda>_. bind_sv (error_handler_to_client st k) (\<lambda>_. ret_sv st))"

definition connection :: "skey \<Rightarrow> socks_reply_status srv" where
  "connection k =
     bind_sv (get_conn k) (\<lambda>d.
     bind_sv (modify_metrics (\<lambda>m. m\<lparr>metrics_historic_connections_attempts :=
                metrics_historic_connections_attempts m + 1\<rparr>)) (\<lambda>_.
     let fd = origin_fd d;
         r = os_connect (key_os k) fd (origin_addr d) (origin_addr_len d);
         general = status_general_socks_server_failure
     in if r \<noteq> 0 \<and> r \<noteq> EINPROGRESS
        then bind_sv (put_request_st k (\<lambda>q. q\<lparr>rs_status := errno_to_socks r\<rparr>)) (\<lambda>_.
               connection_failure k (errno_to_socks r))
        else if r \<noteq> 0
        then bind_sv (set_interest_key k OP_NOOP) (\<lambda>st.
             if st \<noteq> SELECTOR_SUCCESS then connection_failure k general
             else bind_sv (register (key_os k) fd Socks5_handler OP_WRITE (Some (key_data k))) (\<lambda>st.
                  if st \<noteq> SELECTOR_SUCCESS
                  then bind_sv (connection_failure k general) (\<lambda>ret.
                       bind_sv (close_fd fd) (\<lambda>_.
                       bind_sv (get_conn k) (\<lambda>d2.
                       bind_sv (put_conn k (d2\<lparr>origin_fd := -1\<rparr>)) (\<lambda>_. ret_sv ret))))
                  else bind_sv (add_reference k) (\<lambda>_. ret_sv status_succeeded)))
        else bind_sv (add_reference k) (\<lambda>_.
             bind_sv (set_interest_key k OP_READ) (\<lambda>st.
             if st \<noteq> SELECTOR_SUCCESS then connection_failure k general
             else bind_sv (register (key_os k) fd Socks5_handler OP_READ (Some (key_data k))) (\<lambda>st.
                  if st \<noteq> SELECTOR_SUCCESS then connection_failure k general
                  else ret_sv status_succeeded)))))"

definition connecting_failure :: "skey \<Rightarrow> unit srv" where
  "connecting_failure k =
     bind_sv (connection_failure k status_general_socks_server_failure) (\<lambda>_. ret_sv ())"

definition connecting_init :: "nat \<Rightarrow> skey \<Rightarrow> server \<Rightarrow> server res" where
  "connecting_init state k w =
     bind_res (bind_sv (get_conn k) (\<lambda>d.
       let fd = os_socket (key_os k) (origin_domain d)
       in bind_sv (put_conn k (d\<lparr>orig := Orig_conn \<lparr>cn_client_fd = client_fd d, cn_origin_fd = -1,
                                 cn_status = status_succeeded\<rparr>, origin_fd := fd\<rparr>)) (\<lambda>_.
          if fd < 0 then connecting_failure k
          else if selector_fd_set_nio (os_getfd (key_os k) fd) (os_setfl (key_os k) fd) = -1
          then connecting_failure k
          else bind_sv (connection k) (\<lambda>st. put_orig_status k st))) w) (\<lambda>(_, w'). Inr w')"

text \<open>The attempt with the next address of the list.\<close>

definition try_next_address :: "skey \<Rightarrow> nat srv" where
  "try_next_address k =
     bind_sv (get_conn k) (\<lambda>d.
     case origin_resolution_current d of
       a # b # rest \<Rightarrow>
         bind_sv (put_conn k (d\<lparr>origin_resolution_current := b # rest,
            origin_addr := (if ai_family b = AF_INET \<or> ai_family b = AF_INET6 then ai_addr b
                            else origin_addr d)\<rparr>)) (\<lambda>_.
         bind_sv (connection k) (\<lambda>_. ret_sv (socks_code REQUEST_CONNECTING)))
     | _ \<Rightarrow> fail_sv Undefined)"

text \<open>\<open>set_addr\<close> of \<open>address_utils.c\<close>, which nothing calls, keeps domain, length and address together.\<close>

definition set_addr :: "skey \<Rightarrow> addrinfo \<Rightarrow> unit srv" where
  "set_addr k a =
     bind_sv (get_conn k) (\<lambda>d.
       put_conn k (d\<lparr>origin_domain := (if ai_family a = AF_INET \<or> ai_family a = AF_INET6 then ai_family a else origin_domain d),
         origin_addr_len := ai_addrlen a, origin_addr := ai_addr a\<rparr>))"

definition log_access :: "skey \<Rightarrow> unit srv" where
  "log_access k = bind_sv (get_conn k) (\<lambda>d.
     case orig d of
       Orig_conn c \<Rightarrow> emit (Access (userIndex d) (origin_addr d) (client_addr d) (cn_status c))
     | _ \<Rightarrow> fail_sv Undefined)"

definition refuse :: "skey \<Rightarrow> socks_reply_status \<Rightarrow> nat srv" where
  "refuse k st =
     bind_sv (put_orig_status k st) (\<lambda>_. bind_sv (log_access k) (\<lambda>_. error_handler_to_client st k))"

definition count_connection :: "metrics \<Rightarrow> metrics" where
  "count_connection m =
     (let c = metrics_concurrent_connections m + 1
      in m\<lparr>metrics_historic_connections := metrics_historic_connections m + 1,
           metrics_concurrent_connections := c,
           metrics_max_concurrent_connections :=
             (if c > metrics_max_concurrent_connections m then c else metrics_max_concurrent_connections m)\<rparr>)"

definition connecting_success :: "skey \<Rightarrow> nat srv" where
  "connecting_success k =
     bind_sv (modify_metrics count_connection) (\<lambda>_.
     bind_sv (log_access k) (\<lambda>_.
     bind_sv (put_orig_conn k (\<lambda>c. c\<lparr>cn_status := status_succeeded, cn_origin_fd := key_fd k\<rparr>)) (\<lambda>_.
     bind_sv (get_conn k) (\<lambda>d.
     bind_sv (lift_sv (request_marshall status_succeeded (write_buffer d))) (\<lambda>(n, wb).
     bind_sv (put_conn k (d\<lparr>write_buffer := wb\<rparr>)) (\<lambda>_.
     if -1 = n then ret_sv (socks_code ERROR)
     else case orig d of
            Orig_conn c \<Rightarrow>
              bind_sv (set_interest (cn_client_fd c) OP_WRITE) (\<lambda>s1.
              bind_sv (set_interest_key k OP_NOOP) (\<lambda>s2.
                ret_sv (if status_code s1 OR status_code s2 = status_code SELECTOR_SUCCESS
                        then socks_code REQUEST_WRITE else socks_code ERROR)))
          | _ \<Rightarrow> fail_sv Undefined))))))"

definition connecting_write :: "skey \<Rightarrow> nat srv" where
  "connecting_write k =
     bind_sv (get_conn k) (\<lambda>d.
     case orig d of
       Orig_conn c \<Rightarrow>
         let more = length (origin_resolution_current d) \<ge> 2
         in if cn_status c \<noteq> status_succeeded
            then (if more then try_next_address k
                  else bind_sv (unregister (origin_fd d)) (\<lambda>_.
                       bind_sv (close_fd (origin_fd d)) (\<lambda>_.
                       bind_sv (get_conn k) (\<lambda>d2.
                       bind_sv (put_conn k (d2\<lparr>origin_fd := -1\<rparr>)) (\<lambda>_.
                         error_handler_to_client (cn_status c) k)))))
            else (case os_sockopt (key_os k) (key_fd k) of
                    None \<Rightarrow> refuse k status_general_socks_server_failure
                  | Some error \<Rightarrow>
                      if error = 0 then connecting_success k
                      else if origin_resolution_current d = [] then refuse k (errno_to_socks error)
                      else if more
                      then bind_sv (put_orig_status k (errno_to_socks error)) (\<lambda>_. try_next_address k)
                      else refuse k (errno_to_socks error))
     | _ \<Rightarrow> fail_sv Undefined)"

definition connecting_close :: "nat \<Rightarrow> skey \<Rightarrow> server \<Rightarrow> server res" where
  "connecting_close state k w =
     bind_res (with_request_st k (\<lambda>d r.
       case rs_parser r of
         Null_ptr \<Rightarrow> ret_sv ()
       | Freed_ptr \<Rightarrow> fail_sv Undefined
       | Ptr p \<Rightarrow> put_conn k (d\<lparr>client := Client_request (r\<lparr>rs_parser := Freed_ptr\<rparr>)\<rparr>)) w)
     (\<lambda>(_, w'). Inr w')"

section \<open>What the operations do\<close>

lemmas eval_sv = bind_sv_def ret_sv_def fail_sv_def lift_sv_def get_sv_def modify_sv_def put_conn_def
  emit_def modify_metrics_def

lemma get_conn_heap: "sv_heap w (key_data k) = Some d \<Longrightarrow> get_conn k w = Inr (d, w)"
  by (simp add: get_conn_def)

lemma error_handler_to_client_ok:
  assumes "at_conn k w d" and "10 \<le> buffer_free (write_buffer d)" and "sel_full (sv_selector w)"
  shows "\<exists>wb s. error_handler_to_client st k w = Inr (socks_code REQUEST_WRITE,
      w\<lparr>sv_heap := (sv_heap w)(key_data k \<mapsto> d\<lparr>write_buffer := wb\<rparr>), sv_selector := s\<rparr>) \<and>
    buffer_inv wb \<and> sel_full s \<and>
    buffer_content wb = buffer_content (write_buffer d) @ [5, reply_code st, 0, 1, 0, 0, 0, 0, 0, 0]"
proof -
  obtain wb where wb: "request_marshall st (write_buffer d) = Inr (10, wb)" "buffer_inv wb"
      "buffer_content wb = buffer_content (write_buffer d) @ [5, reply_code st, 0, 1, 0, 0, 0, 0, 0, 0]"
    using request_marshall_spec(2) [of "write_buffer d" st] assms(1,2) by (auto simp: at_conn_def)
  let ?v = "w\<lparr>sv_heap := (sv_heap w)(key_data k \<mapsto> d\<lparr>write_buffer := wb\<rparr>)\<rparr>"
  obtain s1 t1 where 1: "set_interest (client_fd d) OP_WRITE ?v = Inr (t1, ?v\<lparr>sv_selector := s1\<rparr>)" "sel_full s1"
    using set_interest_total [of ?v "client_fd d" OP_WRITE] assms(3) by auto
  obtain s2 t2 where 2: "set_interest (origin_fd d) OP_NOOP (?v\<lparr>sv_selector := s1\<rparr>) =
      Inr (t2, ?v\<lparr>sv_selector := s2\<rparr>)" "sel_full s2"
    using set_interest_total [of "?v\<lparr>sv_selector := s1\<rparr>" "origin_fd d" OP_NOOP] 1(2) by auto
  have conn: "get_conn k w = Inr (d, w)" using assms(1) by simp
  have "error_handler_to_client st k w = Inr (socks_code REQUEST_WRITE,
      ?v\<lparr>sv_selector := (if origin_fd d \<noteq> -1 then s2 else s1)\<rparr>)"
    using conn wb(1) 1(1) 2(1)
    by (simp add: error_handler_to_client_def eval_sv del: OP_values)
  then show ?thesis using wb 1 2 by auto
qed

lemma error_handler_to_client_both:
  assumes "at_conn k w d" and "10 \<le> buffer_free (write_buffer d)" and "registered w (client_fd d) jt"
    and "registered w (origin_fd d) it" and "client_fd d \<noteq> origin_fd d" and "origin_fd d \<noteq> -1"
  shows "\<exists>wb s. error_handler_to_client st k w = Inr (socks_code REQUEST_WRITE,
      w\<lparr>sv_heap := (sv_heap w)(key_data k \<mapsto> d\<lparr>write_buffer := wb\<rparr>), sv_selector := s\<rparr>) \<and>
    buffer_inv wb \<and> sel_full s \<and> sel_lookup s = (sel_lookup (sv_selector w))
      (client_fd d \<mapsto> jt\<lparr>item_interest := OP_WRITE\<rparr>, origin_fd d \<mapsto> it\<lparr>item_interest := OP_NOOP\<rparr>) \<and>
    buffer_content wb = buffer_content (write_buffer d) @ [5, reply_code st, 0, 1, 0, 0, 0, 0, 0, 0]"
proof -
  obtain wb where wb: "request_marshall st (write_buffer d) = Inr (10, wb)" "buffer_inv wb"
      "buffer_content wb = buffer_content (write_buffer d) @ [5, reply_code st, 0, 1, 0, 0, 0, 0, 0, 0]"
    using request_marshall_spec(2) [of "write_buffer d" st] assms(1,2) by (auto simp: at_conn_def)
  let ?v = "w\<lparr>sv_heap := (sv_heap w)(key_data k \<mapsto> d\<lparr>write_buffer := wb\<rparr>)\<rparr>"
  from set_interest_ok [of ?v "client_fd d" jt OP_WRITE] assms(3) obtain s1 where
    1: "set_interest (client_fd d) OP_WRITE ?v = Inr (SELECTOR_SUCCESS, ?v\<lparr>sv_selector := s1\<rparr>)" "sel_full s1"
      "sel_lookup s1 = (sel_lookup (sv_selector w))(client_fd d \<mapsto> jt\<lparr>item_interest := OP_WRITE\<rparr>)" by auto
  have "registered (?v\<lparr>sv_selector := s1\<rparr>) (origin_fd d) it"
    using assms(4,5) 1(2,3) by (simp add: registered_def)
  from set_interest_ok [OF this, of OP_NOOP] obtain s2 where
    2: "set_interest (origin_fd d) OP_NOOP (?v\<lparr>sv_selector := s1\<rparr>) = Inr (SELECTOR_SUCCESS, ?v\<lparr>sv_selector := s2\<rparr>)"
      "sel_full s2" "sel_lookup s2 = (sel_lookup s1)(origin_fd d \<mapsto> it\<lparr>item_interest := OP_NOOP\<rparr>)" by auto
  have conn: "get_conn k w = Inr (d, w)" using assms(1) by simp
  have "error_handler_to_client st k w = Inr (socks_code REQUEST_WRITE, ?v\<lparr>sv_selector := s2\<rparr>)"
    using conn wb(1) 1(1) 2(1) assms(6) by (simp add: error_handler_to_client_def eval_sv del: OP_values)
  then show ?thesis using wb 1(3) 2(2,3) by auto
qed

text \<open>A refused connection: the client gets the reply code of the error.\<close>

lemma refuse_ok:
  assumes "at_conn k w d" and "orig d = Orig_conn c" and "10 \<le> buffer_free (write_buffer d)"
    and "sel_full (sv_selector w)"
  shows "\<exists>w' wb s. refuse k st w = Inr (socks_code REQUEST_WRITE, w') \<and>
    at_conn k w' (d\<lparr>orig := Orig_conn (c\<lparr>cn_status := st\<rparr>), write_buffer := wb\<rparr>) \<and>
    buffer_content wb = buffer_content (write_buffer d) @ [5, reply_code st, 0, 1, 0, 0, 0, 0, 0, 0] \<and>
    sv_log w' = sv_log w @ [Access (userIndex d) (origin_addr d) (client_addr d) st] \<and>
    sv_metrics w' = sv_metrics w"
proof -
  let ?d = "d\<lparr>orig := Orig_conn (c\<lparr>cn_status := st\<rparr>)\<rparr>"
  let ?v = "w\<lparr>sv_heap := (sv_heap w)(key_data k \<mapsto> ?d),
     sv_log := sv_log w @ [Access (userIndex d) (origin_addr d) (client_addr d) st]\<rparr>"
  have at: "at_conn k ?v ?d" using assms(1) by (simp add: at_conn_def)
  obtain wb s where e: "error_handler_to_client st k ?v = Inr (socks_code REQUEST_WRITE,
      ?v\<lparr>sv_heap := (sv_heap ?v)(key_data k \<mapsto> ?d\<lparr>write_buffer := wb\<rparr>), sv_selector := s\<rparr>)" "buffer_inv wb"
    "buffer_content wb = buffer_content (write_buffer ?d) @ [5, reply_code st, 0, 1, 0, 0, 0, 0, 0, 0]"
    using error_handler_to_client_ok [OF at, of st] assms(3,4) by auto
  have conn: "get_conn k w = Inr (d, w)" using assms(1) by simp
  have step: "refuse k st w = error_handler_to_client st k ?v"
    using conn assms(2) by (simp add: refuse_def put_orig_status_def put_orig_conn_def log_access_def
        eval_sv get_conn_heap)
  show ?thesis
    unfolding step e(1) using e(2,3) assms(1)
    by (intro exI [of _ "?v\<lparr>sv_heap := (sv_heap ?v)(key_data k \<mapsto> ?d\<lparr>write_buffer := wb\<rparr>), sv_selector := s\<rparr>"]
        exI [of _ wb]) (simp add: at_conn_def)
qed

text \<open>A completed connection: counted, logged, answered with \<open>status_succeeded\<close>.\<close>

lemma connecting_success_ok:
  assumes "at_conn k w d" and "orig d = Orig_conn c" and "10 \<le> buffer_free (write_buffer d)"
    and "registered w (key_fd k) it" and "sel_lookup (sv_selector w) (cn_client_fd c) = Some jt"
    and "cn_client_fd c \<noteq> key_fd k" and "cn_status c = status_succeeded"
  shows "\<exists>w' wb. connecting_success k w = Inr (socks_code REQUEST_WRITE, w') \<and>
    moved k w ((sel_lookup (sv_selector w))
      (cn_client_fd c \<mapsto> jt\<lparr>item_interest := OP_WRITE\<rparr>, key_fd k \<mapsto> it\<lparr>item_interest := OP_NOOP\<rparr>))
      (d\<lparr>orig := Orig_conn (c\<lparr>cn_origin_fd := key_fd k\<rparr>), write_buffer := wb\<rparr>)
      [Access (userIndex d) (origin_addr d) (client_addr d) status_succeeded] w' \<and>
    buffer_inv wb \<and> buf_limit wb = buf_limit (write_buffer d) \<and>
    buffer_content wb = buffer_content (write_buffer d) @ [5, 0, 0, 1, 0, 0, 0, 0, 0, 0] \<and>
    sv_metrics w' = count_connection (sv_metrics w)"
proof -
  let ?c = "c\<lparr>cn_status := status_succeeded, cn_origin_fd := key_fd k\<rparr>"
  obtain wb where wb: "request_marshall status_succeeded (write_buffer d) = Inr (10, wb)" "buffer_inv wb"
      "buffer_content wb = buffer_content (write_buffer d) @ [5, 0, 0, 1, 0, 0, 0, 0, 0, 0]"
      "buf_limit wb = buf_limit (write_buffer d)"
    using request_marshall_spec(2) [of "write_buffer d" status_succeeded] assms(1,3) by (auto simp: at_conn_def)
  let ?v = "w\<lparr>sv_metrics := count_connection (sv_metrics w),
     sv_log := sv_log w @ [Access (userIndex d) (origin_addr d) (client_addr d) status_succeeded],
     sv_heap := (sv_heap w)(key_data k \<mapsto> d\<lparr>orig := Orig_conn ?c, write_buffer := wb\<rparr>)\<rparr>"
  have "registered ?v (cn_client_fd c) jt" using assms(4,5) by (simp add: registered_def)
  from set_interest_ok [OF this, of OP_WRITE] obtain s where s:
    "set_interest (cn_client_fd c) OP_WRITE ?v = Inr (SELECTOR_SUCCESS, ?v\<lparr>sv_selector := s\<rparr>)" "sel_full s"
    "sel_lookup s = (sel_lookup (sv_selector w))(cn_client_fd c \<mapsto> jt\<lparr>item_interest := OP_WRITE\<rparr>)" by auto
  have "registered (?v\<lparr>sv_selector := s\<rparr>) (key_fd k) it"
    using assms(4,6) s(2,3) by (simp add: registered_def)
  from set_interest_key_ok [OF this, of OP_NOOP] obtain t where t:
    "set_interest_key k OP_NOOP (?v\<lparr>sv_selector := s\<rparr>) = Inr (SELECTOR_SUCCESS, ?v\<lparr>sv_selector := t\<rparr>)"
    "sel_lookup t = (sel_lookup s)(key_fd k \<mapsto> it\<lparr>item_interest := OP_NOOP\<rparr>)" "sel_full t" by auto
  have heap: "sv_heap w (key_data k) = Some d" using assms(1) by (simp add: at_conn_def)
  have "connecting_success k w = Inr (socks_code REQUEST_WRITE, ?v\<lparr>sv_selector := t\<rparr>)"
    using heap assms(2,7) wb(1) s(1) t(1)
    by (simp add: connecting_success_def put_orig_conn_def log_access_def eval_sv get_conn_def del: OP_values)
  moreover have "?c = c\<lparr>cn_origin_fd := key_fd k\<rparr>" using assms(7) by (cases c) simp
  ultimately show ?thesis
    using wb(2-4) s(3) t(2,3)
    by (intro exI [of _ "?v\<lparr>sv_selector := t\<rparr>"] exI [of _ wb]) (simp add: moved_def same_rest_def)
qed

text \<open>A pending connection: the origin descriptor joins the selector and holds a reference.\<close>

lemma connection_in_progress:
  assumes "at_conn k w d" and "os_connect (key_os k) (origin_fd d) (origin_addr d) (origin_addr_len d) = EINPROGRESS"
    and "registered w (key_fd k) it" and "\<not> INVALID_FD (origin_fd d)" and "origin_fd d \<noteq> key_fd k"
    and "sel_lookup (sv_selector w) (origin_fd d) = None"
  shows "\<exists>w'. connection k w = Inr (status_succeeded, w') \<and>
    moved k w ((sel_lookup (sv_selector w))
      (key_fd k \<mapsto> it\<lparr>item_interest := OP_NOOP\<rparr>, origin_fd d \<mapsto>
        \<lparr>item_fd = origin_fd d, item_interest = OP_WRITE, item_handler = Some Socks5_handler,
         item_data = Some (key_data k)\<rparr>)) (d\<lparr>references := references d + 1\<rparr>) [] w'"
proof -
  let ?v = "w\<lparr>sv_metrics := (sv_metrics w)\<lparr>metrics_historic_connections_attempts :=
                metrics_historic_connections_attempts (sv_metrics w) + 1\<rparr>\<rparr>"
  from set_interest_key_ok [of ?v k it OP_NOOP] assms(3) obtain s where s:
    "set_interest_key k OP_NOOP ?v = Inr (SELECTOR_SUCCESS, ?v\<lparr>sv_selector := s\<rparr>)" "sel_full s"
    "sel_lookup s = (sel_lookup (sv_selector w))(key_fd k \<mapsto> it\<lparr>item_interest := OP_NOOP\<rparr>)" by auto
  have "sel_lookup (sv_selector (?v\<lparr>sv_selector := s\<rparr>)) (origin_fd d) = None" using s(3) assms(5,6) by simp
  from register_ok [OF _ assms(4) this, of "key_os k" Socks5_handler OP_WRITE "Some (key_data k)"] s(2)
  obtain t where t: "register (key_os k) (origin_fd d) Socks5_handler OP_WRITE (Some (key_data k)) (?v\<lparr>sv_selector := s\<rparr>) =
      Inr (SELECTOR_SUCCESS, ?v\<lparr>sv_selector := t\<rparr>)" "sel_full t"
    "sel_lookup t = (sel_lookup s)(origin_fd d \<mapsto> \<lparr>item_fd = origin_fd d, item_interest = OP_WRITE,
       item_handler = Some Socks5_handler, item_data = Some (key_data k)\<rparr>)" by auto
  have heap: "sv_heap w (key_data k) = Some d" using assms(1) by (simp add: at_conn_def)
  have "connection k w = Inr (status_succeeded, ?v\<lparr>sv_selector := t,
      sv_heap := (sv_heap w)(key_data k \<mapsto> d\<lparr>references := references d + 1\<rparr>)\<rparr>)"
    using heap assms(2) s(1) t(1)
    by (simp add: connection_def add_reference_def eval_sv get_conn_def EINPROGRESS_def Let_def del: OP_values)
  then show ?thesis
    using t s(3) by (auto simp: moved_def same_rest_def)
qed

text \<open>
  The retry with the next address reuses the descriptor of the first attempt, which still is
  registered: the registration fails with \<open>SELECTOR_FDINUSE\<close>, the descriptor is closed, and
  its entry stays in the selector.
\<close>

lemma connection_retry_closes:
  assumes "at_conn k w d" and "orig d = Orig_conn c"
    and "os_connect (key_os k) (origin_fd d) (origin_addr d) (origin_addr_len d) = EINPROGRESS"
    and "origin_fd d = key_fd k" and "registered w (key_fd k) it" and "10 \<le> buffer_free (write_buffer d)"
    and "registered w (client_fd d) jt" and "client_fd d \<noteq> key_fd k" and "key_fd k \<noteq> -1"
  shows "\<exists>w' d'. connection k w = Inr (status_general_socks_server_failure, w') \<and>
    moved k w ((sel_lookup (sv_selector w))
      (client_fd d \<mapsto> jt\<lparr>item_interest := OP_WRITE\<rparr>, key_fd k \<mapsto> it\<lparr>item_interest := OP_NOOP\<rparr>)) d' [Closed (key_fd k)] w' \<and>
    (\<exists>wb. d' = d\<lparr>orig := Orig_conn (c\<lparr>cn_status := status_general_socks_server_failure\<rparr>),
        write_buffer := wb, origin_fd := -1\<rparr> \<and> buffer_inv wb \<and>
      buffer_content wb = buffer_content (write_buffer d) @ [5, 1, 0, 1, 0, 0, 0, 0, 0, 0])"
proof -
  let ?g = "status_general_socks_server_failure"
  let ?v = "w\<lparr>sv_metrics := (sv_metrics w)\<lparr>metrics_historic_connections_attempts :=
                metrics_historic_connections_attempts (sv_metrics w) + 1\<rparr>\<rparr>"
  from set_interest_key_ok [of ?v k it OP_NOOP] assms(5) obtain s where s:
    "set_interest_key k OP_NOOP ?v = Inr (SELECTOR_SUCCESS, ?v\<lparr>sv_selector := s\<rparr>)" "sel_full s"
    "sel_lookup s = (sel_lookup (sv_selector w))(key_fd k \<mapsto> it\<lparr>item_interest := OP_NOOP\<rparr>)" by auto
  let ?u = "?v\<lparr>sv_selector := s\<rparr>"
  have r: "register (key_os k) (key_fd k) Socks5_handler OP_WRITE (Some (key_data k)) ?u = Inr (SELECTOR_FDINUSE, ?u)"
    using register_in_use [of ?u "key_fd k" "it\<lparr>item_interest := OP_NOOP\<rparr>"] s(2,3) by simp
  let ?d = "d\<lparr>orig := Orig_conn (c\<lparr>cn_status := ?g\<rparr>)\<rparr>"
  let ?x = "?u\<lparr>sv_heap := (sv_heap w)(key_data k \<mapsto> ?d)\<rparr>"
  have "at_conn k ?x ?d" using assms(1) by (simp add: at_conn_def)
  moreover have "registered ?x (client_fd ?d) jt" "registered ?x (origin_fd ?d) (it\<lparr>item_interest := OP_NOOP\<rparr>)"
    using assms(4,7,8) s(2,3) by (simp_all add: registered_def)
  ultimately obtain wb t where e:
    "error_handler_to_client ?g k ?x = Inr (socks_code REQUEST_WRITE,
      ?x\<lparr>sv_heap := (sv_heap ?x)(key_data k \<mapsto> ?d\<lparr>write_buffer := wb\<rparr>), sv_selector := t\<rparr>)" "buffer_inv wb" "sel_full t"
    "sel_lookup t = (sel_lookup s)(client_fd d \<mapsto> jt\<lparr>item_interest := OP_WRITE\<rparr>, key_fd k \<mapsto> it\<lparr>item_interest := OP_NOOP\<rparr>)"
    "buffer_content wb = buffer_content (write_buffer d) @ [5, 1, 0, 1, 0, 0, 0, 0, 0, 0]"
    using error_handler_to_client_both [of k ?x ?d jt "it\<lparr>item_interest := OP_NOOP\<rparr>" ?g] assms(4,6,8,9) by auto
  have heap: "sv_heap w (key_data k) = Some d" using assms(1) by (simp add: at_conn_def)
  have fail: "connection_failure k ?g ?u = Inr (?g, ?x\<lparr>sv_heap := (sv_heap ?x)(key_data k \<mapsto>
      ?d\<lparr>write_buffer := wb\<rparr>), sv_selector := t\<rparr>)"
    using heap assms(2) e(1)
    by (simp add: connection_failure_def put_orig_status_def put_orig_conn_def eval_sv get_conn_def)
  let ?e = "d\<lparr>orig := Orig_conn (c\<lparr>cn_status := ?g\<rparr>), write_buffer := wb, origin_fd := -1\<rparr>"
  have "connection k w = Inr (?g, ?v\<lparr>sv_selector := t, sv_log := sv_log w @ [Closed (key_fd k)],
      sv_heap := (sv_heap w)(key_data k \<mapsto> ?e)\<rparr>)"
    using heap assms(3,4) s(1) r fail
    by (simp add: connection_def close_fd_def eval_sv get_conn_def EINPROGRESS_def Let_def del: OP_values)
  moreover have "sel_lookup t = (sel_lookup (sv_selector w))
      (client_fd d \<mapsto> jt\<lparr>item_interest := OP_WRITE\<rparr>, key_fd k \<mapsto> it\<lparr>item_interest := OP_NOOP\<rparr>)"
    using e(4) s(3) assms(8) by (simp add: fun_upd_twist fun_eq_iff)
  ultimately show ?thesis
    using e(2,3,5) by (intro exI [of _ "?v\<lparr>sv_selector := t, sv_log := sv_log w @ [Closed (key_fd k)],
      sv_heap := (sv_heap w)(key_data k \<mapsto> ?e)\<rparr>"] exI [of _ ?e]) (auto simp: moved_def same_rest_def)
qed

text \<open>The event of the origin after a failed attempt, when the list has a further address.\<close>

lemma connecting_write_retry:
  assumes "at_conn k w d" and "orig d = Orig_conn c" and "cn_status c = status_succeeded"
    and "os_sockopt (key_os k) (key_fd k) = Some e" and "e \<noteq> 0" and "origin_resolution_current d = a # b # rest"
    and "ai_family b = AF_INET \<or> ai_family b = AF_INET6"
    and "os_connect (key_os k) (key_fd k) (ai_addr b) (origin_addr_len d) = EINPROGRESS"
    and "origin_fd d = key_fd k" and "registered w (key_fd k) it" and "10 \<le> buffer_free (write_buffer d)"
    and "registered w (client_fd d) jt" and "client_fd d \<noteq> key_fd k" and "key_fd k \<noteq> -1"
  shows "\<exists>w' d'. connecting_write k w = Inr (socks_code REQUEST_CONNECTING, w') \<and>
    moved k w ((sel_lookup (sv_selector w))
      (client_fd d \<mapsto> jt\<lparr>item_interest := OP_WRITE\<rparr>, key_fd k \<mapsto> it\<lparr>item_interest := OP_NOOP\<rparr>)) d' [Closed (key_fd k)] w' \<and>
    origin_fd d' = -1 \<and> references d' = references d \<and> origin_addr d' = ai_addr b \<and>
    origin_addr_len d' = origin_addr_len d \<and> origin_resolution_current d' = b # rest \<and>
    buffer_content (write_buffer d') = buffer_content (write_buffer d) @ [5, 1, 0, 1, 0, 0, 0, 0, 0, 0]"
proof -
  let ?d1 = "d\<lparr>orig := Orig_conn (c\<lparr>cn_status := errno_to_socks e\<rparr>)\<rparr>"
  let ?d2 = "?d1\<lparr>origin_resolution_current := b # rest, origin_addr := ai_addr b\<rparr>"
  let ?w = "w\<lparr>sv_heap := (sv_heap w)(key_data k \<mapsto> ?d2)\<rparr>"
  have heap: "sv_heap w (key_data k) = Some d" using assms(1) by (simp add: at_conn_def)
  have at: "at_conn k ?w ?d2" using assms(1) by (simp add: at_conn_def)
  from connection_retry_closes [OF at, of "c\<lparr>cn_status := errno_to_socks e\<rparr>" it jt] assms(8-14) obtain w' d' wb where
    r: "connection k ?w = Inr (status_general_socks_server_failure, w')"
      "moved k ?w ((sel_lookup (sv_selector w))
        (client_fd d \<mapsto> jt\<lparr>item_interest := OP_WRITE\<rparr>, key_fd k \<mapsto> it\<lparr>item_interest := OP_NOOP\<rparr>)) d' [Closed (key_fd k)] w'"
      "d' = ?d2\<lparr>orig := Orig_conn (c\<lparr>cn_status := status_general_socks_server_failure\<rparr>), write_buffer := wb, origin_fd := -1\<rparr>"
      "buffer_content wb = buffer_content (write_buffer d) @ [5, 1, 0, 1, 0, 0, 0, 0, 0, 0]"
    by (auto simp del: OP_values)
  have "connecting_write k w = Inr (socks_code REQUEST_CONNECTING, w')"
    using heap assms(2-7) r(1)
    by (simp add: connecting_write_def put_orig_status_def put_orig_conn_def try_next_address_def eval_sv get_conn_def Let_def)
  with moved_from [OF r(2)] r(3,4) show ?thesis by auto
qed

end
