(* ===== verification/Copy_Stage.thy ===== *)
theory Copy_Stage
  imports Connection
begin

text \<open>
  The state COPY (\<open>src/src/Etapas/copy.c\<close>): two mirrored stages that share the two buffers
  of the connection. A pointer to a stage is the side it belongs to.
\<close>

section \<open>The two stages\<close>

definition copy_get :: "side \<Rightarrow> socks5 \<Rightarrow> copy_st res" where
  "copy_get sd d =
     (case sd of
        Client_side \<Rightarrow> (case client d of Client_copy c \<Rightarrow> Inr c | _ \<Rightarrow> Inl Undefined)
      | Origin_side \<Rightarrow> (case orig d of Orig_copy c \<Rightarrow> Inr c | _ \<Rightarrow> Inl Undefined))"

definition copy_put :: "side \<Rightarrow> copy_st \<Rightarrow> socks5 \<Rightarrow> socks5" where
  "copy_put sd c d =
     (case sd of
        Client_side \<Rightarrow> d\<lparr>client := Client_copy c\<rparr>
      | Origin_side \<Rightarrow> d\<lparr>orig := Orig_copy c\<rparr>)"

definition get_buffer :: "buffer_name \<Rightarrow> socks5 \<Rightarrow> buffer" where
  "get_buffer b d = (case b of Read_buffer \<Rightarrow> read_buffer d | Write_buffer \<Rightarrow> write_buffer d)"

definition put_buffer :: "buffer_name \<Rightarrow> buffer \<Rightarrow> socks5 \<Rightarrow> socks5" where
  "put_buffer b x d = (case b of Read_buffer \<Rightarrow> d\<lparr>read_buffer := x\<rparr> | Write_buffer \<Rightarrow> d\<lparr>write_buffer := x\<rparr>)"

section \<open>Operations\<close>

definition copy_interests :: "socks5 \<Rightarrow> copy_st \<Rightarrow> fd_interest" where
  "copy_interests d c =
     (let r1 = (if wants_read (cp_interest c) \<and> buffer_can_write (get_buffer (cp_rb c) d)
                then OP_NOOP OR OP_READ else OP_NOOP)
      in if wants_write (cp_interest c) \<and> buffer_can_read (get_buffer (cp_wb c) d)
         then r1 OR OP_WRITE else r1)"

definition copy_compute_interests :: "skey \<Rightarrow> side \<Rightarrow> fd_interest srv" where
  "copy_compute_interests k sd =
     bind_sv (get_conn k) (\<lambda>d.
     bind_sv (lift_sv (copy_get sd d)) (\<lambda>c.
     if cp_fd c \<noteq> -1
     then bind_sv (set_interest (cp_fd c) (copy_interests d c)) (\<lambda>ss.
          if SELECTOR_SUCCESS \<noteq> ss then fail_sv Aborted else ret_sv (copy_interests d c))
     else ret_sv OP_NOOP))"

definition copy_init :: "nat \<Rightarrow> skey \<Rightarrow> server \<Rightarrow> server res" where
  "copy_init state k w =
     bind_res (bind_sv (get_conn k) (\<lambda>d.
       bind_sv (put_conn k (d\<lparr>client := Client_copy \<lparr>cp_fd = client_fd d, cp_rb = Read_buffer,
            cp_wb = Write_buffer, cp_interest = OP_READ OR OP_WRITE, cp_other = Origin_side\<rparr>,
          orig := Orig_copy \<lparr>cp_fd = origin_fd d, cp_rb = Write_buffer, cp_wb = Read_buffer,
            cp_interest = OP_READ OR OP_WRITE, cp_other = Client_side\<rparr>\<rparr>)) (\<lambda>_.
       bind_sv (copy_compute_interests k Origin_side) (\<lambda>_.
         copy_compute_interests k Client_side))) w) (\<lambda>(_, w'). Inr w')"

definition copy_ptr :: "skey \<Rightarrow> socks5 \<Rightarrow> side option" where
  "copy_ptr k d =
     (if key_fd k = origin_fd d then Some Origin_side
      else if key_fd k = client_fd d then Some Client_side else None)"

text \<open>
  \<open>avg = (avg * total + n) / (total + 1)\<close> on \<open>size_t\<close>, with wrap-around. (\<open>total + 1\<close> is 0, a
  division by zero, only after 2^64 - 1 calls.)
\<close>

definition average_update :: "64 word \<Rightarrow> 64 word \<Rightarrow> 64 word \<Rightarrow> 64 word" where
  "average_update avg cnt n = (if cnt = 0 then n else (avg * cnt + n) div (cnt + 1))"

definition count_read :: "nat \<Rightarrow> metrics \<Rightarrow> metrics" where
  "count_read n m = m\<lparr>metrics_average_bytes_per_read :=
       average_update (metrics_average_bytes_per_read m) (total_reads m) (of_nat n),
     total_reads := total_reads m + 1,
     metrics_historic_byte_transfer := metrics_historic_byte_transfer m + of_nat n\<rparr>"

definition count_write :: "int \<Rightarrow> metrics \<Rightarrow> metrics" where
  "count_write n m = m\<lparr>metrics_historic_byte_transfer := metrics_historic_byte_transfer m + of_int n,
     metrics_average_bytes_per_write :=
       average_update (metrics_average_bytes_per_write m) (total_writes m) (of_int n),
     total_writes := total_writes m + 1\<rparr>"

definition count_disconnect :: "metrics \<Rightarrow> metrics" where
  "count_disconnect m = m\<lparr>metrics_concurrent_connections := metrics_concurrent_connections m - 1\<rparr>"

definition sniff :: "skey \<Rightarrow> byte list \<Rightarrow> unit srv" where
  "sniff k xs = bind_sv (get_conn k) (\<lambda>d.
     bind_sv (lift_sv (dissec_consume (os_sniff (key_os k)) xs (conn_dissec d))) (\<lambda>(p, found).
     bind_sv (put_conn k (d\<lparr>conn_dissec := p\<rparr>)) (\<lambda>_.
       modify_sv (\<lambda>w. w\<lparr>sv_log := sv_log w @ map (Sniffed (userIndex d)) found\<rparr>))))"

text \<open>The stage without an interest, and the opposite one if it has a descriptor.\<close>

definition drop_interest :: "fd_interest \<Rightarrow> copy_st \<Rightarrow> copy_st" where
  "drop_interest i c = c\<lparr>cp_interest := cp_interest c AND NOT i\<rparr>"

definition drop_interest_at :: "skey \<Rightarrow> side \<Rightarrow> fd_interest \<Rightarrow> unit srv" where
  "drop_interest_at k sd i =
     bind_sv (get_conn k) (\<lambda>d. bind_sv (lift_sv (copy_get sd d)) (\<lambda>c.
       put_conn k (copy_put sd (drop_interest i c) d)))"

text \<open>The last part of the two handlers.\<close>

definition copy_finish :: "skey \<Rightarrow> side \<Rightarrow> nat srv" where
  "copy_finish k sd =
     bind_sv (get_conn k) (\<lambda>d.
     bind_sv (lift_sv (copy_get sd d)) (\<lambda>c.
     bind_sv (copy_compute_interests k sd) (\<lambda>_.
     bind_sv (copy_compute_interests k (cp_other c)) (\<lambda>_.
     if cp_interest c = OP_NOOP
     then bind_sv (modify_metrics count_disconnect) (\<lambda>_. ret_sv (socks_code DONE))
     else ret_sv (socks_code COPY)))))"

definition copy_read :: "skey \<Rightarrow> nat srv" where
  "copy_read k =
     bind_sv (get_conn k) (\<lambda>d.
     case copy_ptr k d of
       None \<Rightarrow> fail_sv Exited
     | Some sd \<Rightarrow>
         bind_sv (lift_sv (copy_get sd d)) (\<lambda>c.
         if cp_fd c \<noteq> key_fd k then fail_sv Assertion_failed
         else bind_sv (lift_sv (recv_into k (\<lambda>n. n) (get_buffer (cp_rb c) d))) (\<lambda>r.
           bind_sv (case r of
               None \<Rightarrow>
                 bind_sv (emit (Shut_rd (cp_fd c))) (\<lambda>_.
                 bind_sv (drop_interest_at k sd OP_READ) (\<lambda>_.
                 bind_sv (lift_sv (copy_get (cp_other c) d)) (\<lambda>oc.
                 if cp_fd oc \<noteq> -1
                 then bind_sv (emit (Shut_wr (cp_fd oc))) (\<lambda>_. drop_interest_at k (cp_other c) OP_WRITE)
                 else ret_sv ())))
             | Some (xs, rb) \<Rightarrow>
                 bind_sv (emit (Received (key_fd k) xs)) (\<lambda>_.
                 bind_sv (get_sv password_dissectors) (\<lambda>pd.
                 bind_sv (if pd = 0x00 then sniff k xs else ret_sv ()) (\<lambda>_.
                 bind_sv (modify_metrics (count_read (length xs))) (\<lambda>_.
                 bind_sv (get_conn k) (\<lambda>d1. put_conn k (put_buffer (cp_rb c) rb d1))))))) (\<lambda>_.
           copy_finish k sd))))"

text \<open>\<open>copy_write\<close> does not test the pointer: \<open>d->fd\<close> through NULL is undefined.\<close>

definition copy_write :: "skey \<Rightarrow> nat srv" where
  "copy_write k =
     bind_sv (get_conn k) (\<lambda>d.
     case copy_ptr k d of
       None \<Rightarrow> fail_sv Undefined
     | Some sd \<Rightarrow>
         bind_sv (lift_sv (copy_get sd d)) (\<lambda>c.
         if cp_fd c \<noteq> key_fd k then fail_sv Assertion_failed
         else bind_sv (send_from k (get_buffer (cp_wb c) d)) (\<lambda>r.
           bind_sv (case r of
               None \<Rightarrow>
                 bind_sv (emit (Shut_wr (cp_fd c))) (\<lambda>_.
                 bind_sv (drop_interest_at k sd OP_WRITE) (\<lambda>_.
                 bind_sv (lift_sv (copy_get (cp_other c) d)) (\<lambda>oc.
                 if cp_fd oc \<noteq> -1
                 then bind_sv (emit (Shut_rd (cp_fd oc))) (\<lambda>_. drop_interest_at k (cp_other c) OP_READ)
                 else ret_sv ())))
             | Some wb \<Rightarrow>
                 bind_sv (lift_sv (buffer_pending (get_buffer (cp_wb c) d))) (\<lambda>xs.
                 bind_sv (modify_metrics (count_write (os_send (key_os k) (key_fd k) xs))) (\<lambda>_.
                 put_conn k (put_buffer (cp_wb c) wb d)))) (\<lambda>_.
           copy_finish k sd))))"

section \<open>The state of a copying connection\<close>

fun other_side :: "side \<Rightarrow> side" where
  "other_side Client_side = Origin_side"
| "other_side Origin_side = Client_side"

fun side_rb :: "side \<Rightarrow> buffer_name" where
  "side_rb Client_side = Read_buffer"
| "side_rb Origin_side = Write_buffer"

fun side_fd :: "side \<Rightarrow> socks5 \<Rightarrow> int" where
  "side_fd Client_side d = client_fd d"
| "side_fd Origin_side d = origin_fd d"

definition stage_of :: "side \<Rightarrow> socks5 \<Rightarrow> fd_interest \<Rightarrow> copy_st" where
  "stage_of sd d i = \<lparr>cp_fd = side_fd sd d, cp_rb = side_rb sd, cp_wb = side_rb (other_side sd),
     cp_interest = i, cp_other = other_side sd\<rparr>"

definition copy_ok :: "socks5 \<Rightarrow> bool" where
  "copy_ok d \<longleftrightarrow> (\<forall>sd. \<exists>i. copy_get sd d = Inr (stage_of sd d i)) \<and>
     client_fd d \<noteq> origin_fd d \<and> client_fd d \<noteq> -1 \<and> origin_fd d \<noteq> -1 \<and>
     buffer_inv (read_buffer d) \<and> buffer_inv (write_buffer d)"

text \<open>The selector knows both descriptors.\<close>

definition both_registered :: "server \<Rightarrow> socks5 \<Rightarrow> bool" where
  "both_registered w d \<longleftrightarrow> sel_full (sv_selector w) \<and>
     (\<forall>sd. sel_lookup (sv_selector w) (side_fd sd d) \<noteq> None)"

text \<open>The interests in the selector are the computed ones.\<close>

definition interests_computed :: "server \<Rightarrow> socks5 \<Rightarrow> bool" where
  "interests_computed w d \<longleftrightarrow> (\<forall>sd it c. sel_lookup (sv_selector w) (side_fd sd d) = Some it \<longrightarrow>
     copy_get sd d = Inr c \<longrightarrow> item_interest it = copy_interests d c)"

lemma side_cases: "(\<forall>sd. P sd) \<longleftrightarrow> P Client_side \<and> P Origin_side"
  by (metis side.exhaust)

lemma other_side_simps [simp]: "other_side (other_side sd) = sd" "other_side sd \<noteq> sd" "sd \<noteq> other_side sd"
  by (cases sd; simp)+

lemma copy_get_put [simp]:
  "copy_get sd (copy_put sd c d) = Inr c"
  "copy_get (other_side sd) (copy_put sd c d) = copy_get (other_side sd) d"
  by (cases sd; simp add: copy_get_def copy_put_def)+

lemma copy_put_fields [simp]:
  "client_fd (copy_put sd c d) = client_fd d" "origin_fd (copy_put sd c d) = origin_fd d"
  "get_buffer b (copy_put sd c d) = get_buffer b d" "side_fd sd' (copy_put sd c d) = side_fd sd' d"
  "read_buffer (copy_put sd c d) = read_buffer d" "write_buffer (copy_put sd c d) = write_buffer d"
  "conn_dissec (copy_put sd c d) = conn_dissec d"
  by (cases sd; cases sd'; cases b; simp add: copy_put_def get_buffer_def)+

lemma put_buffer_fields [simp]:
  "client_fd (put_buffer b x d) = client_fd d" "origin_fd (put_buffer b x d) = origin_fd d"
  "copy_get sd (put_buffer b x d) = copy_get sd d" "side_fd sd (put_buffer b x d) = side_fd sd d"
  "get_buffer b' (put_buffer b x d) = (if b' = b then x else get_buffer b' d)"
  "conn_dissec (put_buffer b x d) = conn_dissec d"
  by (cases sd; cases b; cases b'; simp add: put_buffer_def get_buffer_def copy_get_def)+

lemma side_rb_simps [simp]: "side_rb sd = side_rb sd' \<longleftrightarrow> sd = sd'"
  by (cases sd; cases sd'; simp)

lemma copy_ok_buffers: "copy_ok d \<Longrightarrow> buffer_inv (get_buffer b d)"
  by (cases b) (auto simp: copy_ok_def get_buffer_def)

lemma copy_ok_get: "copy_ok d \<Longrightarrow> \<exists>i. copy_get sd d = Inr (stage_of sd d i)"
  by (simp add: copy_ok_def)

lemma copy_ok_fds: "copy_ok d \<Longrightarrow> side_fd sd d \<noteq> -1 \<and> side_fd (other_side sd) d \<noteq> side_fd sd d"
  by (cases sd) (auto simp: copy_ok_def)

lemma copy_ok_put_stage: "copy_ok d \<Longrightarrow> copy_ok (copy_put sd (stage_of sd d i) d)"
  unfolding copy_ok_def side_cases
  by (cases sd) (auto simp: stage_of_def copy_get_def copy_put_def split: client_stage.splits origin_stage.splits)

lemma copy_ok_put_buffer: "copy_ok d \<Longrightarrow> buffer_inv x \<Longrightarrow> copy_ok (put_buffer b x d)"
  unfolding copy_ok_def side_cases by (cases b) (auto simp: stage_of_def put_buffer_def copy_get_def)

lemma copy_ok_dissec: "copy_ok d \<Longrightarrow> copy_ok (d\<lparr>conn_dissec := p\<rparr>)"
  unfolding copy_ok_def side_cases by (auto simp: stage_of_def copy_get_def)

lemma copy_ptr_side:
  "copy_ok d \<Longrightarrow> key_fd k = side_fd sd d \<Longrightarrow> copy_ptr k d = Some sd"
  by (cases sd) (auto simp: copy_ptr_def copy_ok_def)

lemma copy_compute_interests_ok:
  assumes "sv_heap w (key_data k) = Some d" and "copy_get sd d = Inr (stage_of sd d i)"
    and "side_fd sd d \<noteq> -1" and "registered w (side_fd sd d) it"
  shows "\<exists>x s. copy_compute_interests k sd w = Inr (x, w\<lparr>sv_selector := s\<rparr>) \<and> sel_full s \<and>
    sel_lookup s = (sel_lookup (sv_selector w))(side_fd sd d \<mapsto>
       it\<lparr>item_interest := copy_interests d (stage_of sd d i)\<rparr>)"
  using set_interest_ok [OF assms(4), of "copy_interests d (stage_of sd d i)"] assms(1-3)
  by (auto simp: copy_compute_interests_def bind_sv_def lift_sv_def ret_sv_def get_conn_def stage_of_def)

text \<open>Recomputing both sides makes the selector agree with the stages.\<close>

lemma recompute_both:
  assumes "sv_heap w (key_data k) = Some d" and "copy_ok d" and "both_registered w d"
  shows "\<exists>x y s1 s. copy_compute_interests k sd w = Inr (x, w\<lparr>sv_selector := s1\<rparr>) \<and>
    copy_compute_interests k (other_side sd) (w\<lparr>sv_selector := s1\<rparr>) = Inr (y, w\<lparr>sv_selector := s\<rparr>) \<and>
    both_registered (w\<lparr>sv_selector := s\<rparr>) d \<and> interests_computed (w\<lparr>sv_selector := s\<rparr>) d"
proof -
  let ?o = "other_side sd"
  obtain i j where st: "copy_get sd d = Inr (stage_of sd d i)" "copy_get ?o d = Inr (stage_of ?o d j)"
    using copy_ok_get [OF assms(2)] by metis
  have fds: "side_fd sd d \<noteq> -1" "side_fd ?o d \<noteq> -1" "side_fd ?o d \<noteq> side_fd sd d"
    using copy_ok_fds [OF assms(2)] by auto
  obtain it jt where r: "registered w (side_fd sd d) it" "sel_lookup (sv_selector w) (side_fd ?o d) = Some jt"
    using assms(3) unfolding both_registered_def registered_def by (meson not_None_eq)
  obtain x s1 where 1: "copy_compute_interests k sd w = Inr (x, w\<lparr>sv_selector := s1\<rparr>)" "sel_full s1"
    "sel_lookup s1 = (sel_lookup (sv_selector w))(side_fd sd d \<mapsto> it\<lparr>item_interest := copy_interests d (stage_of sd d i)\<rparr>)"
    using copy_compute_interests_ok [OF assms(1) st(1) fds(1) r(1)] by blast
  have "registered (w\<lparr>sv_selector := s1\<rparr>) (side_fd ?o d) jt"
    using 1(2,3) r(2) fds(3) by (simp add: registered_def)
  from copy_compute_interests_ok [OF _ st(2) fds(2) this, of k] assms(1) obtain y s where
    2: "copy_compute_interests k ?o (w\<lparr>sv_selector := s1\<rparr>) = Inr (y, w\<lparr>sv_selector := s\<rparr>)" "sel_full s"
    "sel_lookup s = (sel_lookup s1)(side_fd ?o d \<mapsto> jt\<lparr>item_interest := copy_interests d (stage_of ?o d j)\<rparr>)"
    by auto
  have both: "sd' = sd \<or> sd' = ?o" for sd' by (cases sd; cases sd') auto
  have "both_registered (w\<lparr>sv_selector := s\<rparr>) d"
    unfolding both_registered_def using both 1(3) 2(2,3) fds(3) by (auto, metis option.simps(3))
  moreover have "interests_computed (w\<lparr>sv_selector := s\<rparr>) d"
    unfolding interests_computed_def
  proof (intro allI impI)
    fix sd' it' c
    assume "sel_lookup (sv_selector (w\<lparr>sv_selector := s\<rparr>)) (side_fd sd' d) = Some it'" "copy_get sd' d = Inr c"
    then show "item_interest it' = copy_interests d c"
      using both [of sd'] 1(3) 2(3) fds(3) st by auto
  qed
  ultimately show ?thesis using 1(1) 2(1) by blast
qed

definition copy_world :: "skey \<Rightarrow> server \<Rightarrow> socks5 \<Rightarrow> bool" where
  "copy_world k w d \<longleftrightarrow> sv_heap w (key_data k) = Some d \<and> copy_ok d \<and> both_registered w d \<and>
     dissec_inv (conn_dissec d)"

lemma copy_finish_ok:
  assumes "copy_world k w d" and "copy_get sd d = Inr (stage_of sd d i)"
  shows "\<exists>w'. copy_finish k sd w = Inr (if i = OP_NOOP then socks_code DONE else socks_code COPY, w') \<and>
    copy_world k w' d \<and> interests_computed w' d \<and> sv_log w' = sv_log w \<and>
    sv_metrics w' = (if i = OP_NOOP then count_disconnect (sv_metrics w) else sv_metrics w)"
proof -
  have heap: "sv_heap w (key_data k) = Some d" and ok: "copy_ok d" "both_registered w d"
    using assms(1) by (auto simp: copy_world_def)
  obtain x y s1 s where c: "copy_compute_interests k sd w = Inr (x, w\<lparr>sv_selector := s1\<rparr>)"
    "copy_compute_interests k (other_side sd) (w\<lparr>sv_selector := s1\<rparr>) = Inr (y, w\<lparr>sv_selector := s\<rparr>)"
    "both_registered (w\<lparr>sv_selector := s\<rparr>) d" "interests_computed (w\<lparr>sv_selector := s\<rparr>) d"
    using recompute_both [OF heap ok] by metis
  let ?m = "if i = OP_NOOP then count_disconnect (sv_metrics w) else sv_metrics w"
  let ?v = "w\<lparr>sv_selector := s, sv_metrics := ?m\<rparr>"
  have "copy_finish k sd w = Inr (if i = OP_NOOP then socks_code DONE else socks_code COPY, ?v)"
    using heap assms(2) c(1,2)
    by (simp add: copy_finish_def bind_sv_def ret_sv_def lift_sv_def modify_metrics_def modify_sv_def
        get_conn_def stage_of_def)
  then show ?thesis
    using heap ok(1) c(3,4) assms(1)
    by (intro exI [of _ ?v]) (simp add: copy_world_def both_registered_def interests_computed_def)
qed

section \<open>The byte streams\<close>

fun received :: "int \<Rightarrow> event list \<Rightarrow> byte list" where
  "received fd [] = []"
| "received fd (Received f xs # l) = (if f = fd then xs else []) @ received fd l"
| "received fd (e # l) = received fd l"

fun sent :: "int \<Rightarrow> event list \<Rightarrow> byte list" where
  "sent fd [] = []"
| "sent fd (Sent f xs # l) = (if f = fd then xs else []) @ sent fd l"
| "sent fd (e # l) = sent fd l"

lemma received_append [simp]: "received fd (l @ l') = received fd l @ received fd l'"
  by (induction fd l rule: received.induct) auto

lemma sent_append [simp]: "sent fd (l @ l') = sent fd l @ sent fd l'"
  by (induction fd l rule: sent.induct) auto

lemma stream_sniffed [simp]: "received fd (map (Sniffed u) cs) = []" "sent fd (map (Sniffed u) cs) = []"
  by (induction cs) simp_all

text \<open>
  What was buffered or received on a side is what was sent on the other side followed by
  what still is buffered.
\<close>

definition flow :: "socks5 \<Rightarrow> event list \<Rightarrow> socks5 \<Rightarrow> bool" where
  "flow d l d' \<longleftrightarrow> client_fd d' = client_fd d \<and> origin_fd d' = origin_fd d \<and>
     (\<forall>sd. buffer_content (get_buffer (side_rb sd) d) @ received (side_fd sd d) l =
        sent (side_fd (other_side sd) d) l @ buffer_content (get_buffer (side_rb sd) d'))"

lemma flow_fds: "flow d l d' \<Longrightarrow> side_fd sd d' = side_fd sd d"
  by (cases sd) (auto simp: flow_def)

lemma flow_refl [simp]: "flow d [] d"
  by (simp add: flow_def)

lemma flow_trans:
  assumes 1: "flow d l d1" and 2: "flow d1 l' d2"
  shows "flow d (l @ l') d2"
proof -
  have "buffer_content (get_buffer (side_rb sd) d) @ received (side_fd sd d) l =
        sent (side_fd (other_side sd) d) l @ buffer_content (get_buffer (side_rb sd) d1)"
    "buffer_content (get_buffer (side_rb sd) d1) @ received (side_fd sd d) l' =
        sent (side_fd (other_side sd) d) l' @ buffer_content (get_buffer (side_rb sd) d2)" for sd
    using 1 2 flow_fds [OF 1] by (auto simp: flow_def)
  then have "buffer_content (get_buffer (side_rb sd) d) @ received (side_fd sd d) (l @ l') =
        sent (side_fd (other_side sd) d) (l @ l') @ buffer_content (get_buffer (side_rb sd) d2)" for sd
    by (metis append.assoc received_append sent_append)
  then show ?thesis using 1 2 by (simp add: flow_def)
qed

lemma drop_interest_stage: "drop_interest x (stage_of sd d i) = stage_of sd d (i AND NOT x)"
  by (simp add: drop_interest_def stage_of_def)

lemma drop_interest_at_ok:
  "sv_heap w (key_data k) = Some d \<Longrightarrow> copy_get sd d = Inr c \<Longrightarrow>
     drop_interest_at k sd i w =
       Inr ((), w\<lparr>sv_heap := (sv_heap w)(key_data k \<mapsto> copy_put sd (drop_interest i c) d)\<rparr>)"
  by (simp add: drop_interest_at_def bind_sv_def lift_sv_def get_conn_def put_conn_def modify_sv_def)

text \<open>The end of a stream: both sides lose an interest, no byte moves.\<close>

definition shut_side :: "side \<Rightarrow> fd_interest \<Rightarrow> fd_interest \<Rightarrow> socks5 \<Rightarrow> socks5" where
  "shut_side sd i j d =
     copy_put (other_side sd) (stage_of (other_side sd) d j) (copy_put sd (stage_of sd d i) d)"

lemma shut_side_ok:
  assumes "copy_ok d"
  shows "copy_ok (shut_side sd i j d)" and "flow d [Shut_rd a, Shut_wr b] (shut_side sd i j d)"
    and "flow d [Shut_wr a, Shut_rd b] (shut_side sd i j d)"
    and "copy_get sd (shut_side sd i j d) = Inr (stage_of sd (shut_side sd i j d) i)"
    and "conn_dissec (shut_side sd i j d) = conn_dissec d"
    and "side_fd sd' (shut_side sd i j d) = side_fd sd' d"
proof -
  have "stage_of (other_side sd) d j = stage_of (other_side sd) (copy_put sd (stage_of sd d i) d) j"
    by (simp add: stage_of_def)
  then show "copy_ok (shut_side sd i j d)"
    using copy_ok_put_stage [OF copy_ok_put_stage [OF assms]] by (simp add: shut_side_def)
  show "copy_get sd (shut_side sd i j d) = Inr (stage_of sd (shut_side sd i j d) i)"
    using copy_get_put(2) [of "other_side sd" "stage_of (other_side sd) d j"] by (simp add: shut_side_def stage_of_def)
qed (simp_all add: shut_side_def flow_def)

lemma shut_both:
  assumes "copy_world k w d" and "copy_get sd d = Inr (stage_of sd d i)"
    and "copy_get (other_side sd) d = Inr (stage_of (other_side sd) d j)"
  shows "drop_interest_at k sd x w = Inr ((), w\<lparr>sv_heap := (sv_heap w)(key_data k \<mapsto>
           copy_put sd (stage_of sd d (i AND NOT x)) d)\<rparr>)"
    and "drop_interest_at k (other_side sd) y
           (w\<lparr>sv_heap := (sv_heap w)(key_data k \<mapsto> copy_put sd (stage_of sd d (i AND NOT x)) d), sv_log := l\<rparr>) =
         Inr ((), w\<lparr>sv_log := l, sv_heap := (sv_heap w)(key_data k \<mapsto>
           shut_side sd (i AND NOT x) (j AND NOT y) d)\<rparr>)"
  using assms
  by (simp_all add: copy_world_def drop_interest_at_ok [where c = "stage_of sd d i"]
      drop_interest_at_ok [where c = "stage_of (other_side sd) d j"] drop_interest_stage shut_side_def)

text \<open>The world after both sides lost an interest, with its two log entries.\<close>

lemma shut_world:
  assumes "copy_world k w d"
  shows "copy_world k (w\<lparr>sv_log := l, sv_heap := (sv_heap w)(key_data k \<mapsto> shut_side sd i j d)\<rparr>)
           (shut_side sd i j d)"
  using assms shut_side_ok [of d]
  by (simp add: copy_world_def both_registered_def)

definition copy_result :: "skey \<Rightarrow> side \<Rightarrow> server \<Rightarrow> socks5 \<Rightarrow> (nat \<times> server) res \<Rightarrow> bool" where
  "copy_result k sd w d r \<longleftrightarrow> (\<exists>ret w' d' l. r = Inr (ret, w') \<and>
     (ret = socks_code COPY \<or> ret = socks_code DONE) \<and>
     copy_world k w' d' \<and> interests_computed w' d' \<and> sv_log w' = sv_log w @ l \<and> flow d l d')"

lemma copy_finish_result:
  assumes "copy_world k v e" and "copy_get sd e = Inr (stage_of sd e i)"
    and "sv_log v = sv_log w @ l" and "flow d l e"
  shows "copy_result k sd w d (copy_finish k sd v)"
  using copy_finish_ok [OF assms(1,2)] assms(3,4) unfolding copy_result_def by (metis (full_types))

text \<open>A read fails only in the dissector, at a refused block.\<close>

definition sniff_refused :: "skey \<Rightarrow> server \<Rightarrow> bool" where
  "sniff_refused k w \<longleftrightarrow> password_dissectors w = 0 \<and> refuses_block (os_sniff (key_os k))"

lemma copy_read_ok:
  assumes "copy_world k w d" and "key_fd k = side_fd sd d" and "os_ok (key_os k)"
    and "dissec_alloc_sized (os_sniff (key_os k))"
  shows "copy_result k sd w d (copy_read k w) \<or> copy_read k w = Inl Undefined \<and> sniff_refused k w"
proof -
  have heap: "get_conn k w = Inr (d, w)" and ok: "copy_ok d" and di: "dissec_inv (conn_dissec d)"
    and both: "both_registered w d"
    using assms(1) by (auto simp: copy_world_def get_conn_def)
  obtain i j where st: "copy_get sd d = Inr (stage_of sd d i)"
      "copy_get (other_side sd) d = Inr (stage_of (other_side sd) d j)"
    using copy_ok_get [OF ok] by metis
  have ptr: "copy_ptr k d = Some sd" using copy_ptr_side [OF ok assms(2)] .
  have fds: "side_fd (other_side sd) d \<noteq> -1" using copy_ok_fds [OF ok] by simp
  let ?b = "get_buffer (side_rb sd) d"
  have inv: "buffer_inv ?b" using copy_ok_buffers [OF ok] .
  consider (eof) "recv_into k (\<lambda>n. n) ?b = Inr None"
    | (data) xs rb where "recv_into k (\<lambda>n. n) ?b = Inr (Some (xs, rb))" "buffer_inv rb"
        "buffer_content rb = buffer_content ?b @ xs"
    using recv_into_spec [OF assms(3) inv] by blast
  then show ?thesis
  proof cases
    case eof
    let ?l = "[Shut_rd (side_fd sd d), Shut_wr (side_fd (other_side sd) d)]"
    let ?e = "shut_side sd (i AND NOT OP_READ) (j AND NOT OP_WRITE) d"
    let ?v = "w\<lparr>sv_log := sv_log w @ ?l, sv_heap := (sv_heap w)(key_data k \<mapsto> ?e)\<rparr>"
    let ?u = "w\<lparr>sv_log := sv_log w @ [Shut_rd (side_fd sd d)]\<rparr>"
    have u: "copy_world k ?u d" using assms(1) by (simp add: copy_world_def both_registered_def)
    have "copy_read k w = copy_finish k sd ?v"
      using heap ptr st assms(2) eof fds shut_both(1) [OF u st, of OP_READ]
        shut_both(2) [OF u st, where x = OP_READ and y = OP_WRITE and l = "sv_log w @ ?l"]
      by (simp add: copy_read_def bind_sv_def lift_sv_def ret_sv_def emit_def modify_sv_def stage_of_def
          del: OP_values)
    then show ?thesis
      using copy_finish_result [OF shut_world [OF assms(1)], where w = w and d = d and l = ?l] shut_side_ok [OF ok]
      by (simp del: OP_values)
  next
    case data
    let ?sn = "password_dissectors w = 0" and ?run = "dissec_consume (os_sniff (key_os k)) xs (conn_dissec d)"
    consider (null) "?sn" "?run = Inl Undefined" "refuses_block (os_sniff (key_os k))"
      | (ran) p found where "?sn \<longrightarrow> ?run = Inr (p, found)" "dissec_inv p"
      using dissec_consume_sized [OF assms(4) di, of xs] di by blast
    then show ?thesis
    proof cases
      case null
      have "copy_read k w = Inl Undefined"
        using heap ptr st assms(1,2) data(1) null(1,2)
        by (simp add: copy_read_def sniff_def bind_sv_def lift_sv_def ret_sv_def emit_def
            modify_sv_def modify_metrics_def get_conn_def get_sv_def stage_of_def copy_world_def)
      with null show ?thesis by (simp add: sniff_refused_def)
    next
      case ran
      let ?d1 = "if ?sn then d\<lparr>conn_dissec := p\<rparr> else d"
      let ?e = "put_buffer (side_rb sd) rb ?d1"
      let ?l = "Received (key_fd k) xs # (if ?sn then map (Sniffed (userIndex d)) found else [])"
      let ?v = "w\<lparr>sv_log := sv_log w @ ?l, sv_metrics := count_read (length xs) (sv_metrics w),
          sv_heap := (sv_heap w)(key_data k \<mapsto> ?e)\<rparr>"
      have "copy_read k w = copy_finish k sd ?v"
        using heap ptr st assms(1,2) data(1) ran(1)
        by (cases ?sn) (simp_all add: copy_read_def sniff_def bind_sv_def lift_sv_def ret_sv_def emit_def
            modify_sv_def modify_metrics_def put_conn_def get_conn_def get_sv_def stage_of_def copy_world_def)
      moreover have "copy_ok ?e"
        using copy_ok_put_buffer [OF copy_ok_dissec [OF ok] data(2)] copy_ok_put_buffer [OF ok data(2)] by simp
      moreover have "copy_get sd ?e = Inr (stage_of sd ?e i)"
        using st(1) by (cases sd) (simp_all add: stage_of_def copy_get_def put_buffer_def)
      moreover have "flow d ?l ?e"
      proof -
        have "side_fd (other_side sd) d \<noteq> key_fd k" using copy_ok_fds [OF ok, of sd] assms(2) by simp
        then show ?thesis
          using data(3) assms(2) unfolding flow_def side_cases
          by (cases sd) (auto simp: get_buffer_def put_buffer_def)
      qed
      moreover have "copy_world k ?v ?e"
        using \<open>copy_ok ?e\<close> both ran(2) di by (auto simp: copy_world_def both_registered_def side_cases)
      ultimately show ?thesis
        using copy_finish_result [where v = ?v and e = ?e and l = ?l and w = w and d = d and i = i] by simp
    qed
  qed
qed

lemma copy_write_ok:
  assumes "copy_world k w d" and "key_fd k = side_fd sd d" and "os_ok (key_os k)"
  shows "copy_result k sd w d (copy_write k w)"
proof -
  have heap: "get_conn k w = Inr (d, w)" and ok: "copy_ok d"
    using assms(1) by (auto simp: copy_world_def get_conn_def)
  obtain i j where st: "copy_get sd d = Inr (stage_of sd d i)"
      "copy_get (other_side sd) d = Inr (stage_of (other_side sd) d j)"
    using copy_ok_get [OF ok] by metis
  have ptr: "copy_ptr k d = Some sd" using copy_ptr_side [OF ok assms(2)] .
  have fds: "side_fd (other_side sd) d \<noteq> -1" using copy_ok_fds [OF ok] by simp
  let ?b = "get_buffer (side_rb (other_side sd)) d"
  have inv: "buffer_inv ?b" using copy_ok_buffers [OF ok] .
  consider (fail) "send_from k ?b w = Inr (None, w)"
    | (data) n wb where "n \<le> length (buffer_content ?b)" "os_send (key_os k) (key_fd k) (buffer_content ?b) = int n"
        "send_from k ?b w = Inr (Some wb, w\<lparr>sv_log := sv_log w @ [Sent (key_fd k) (take n (buffer_content ?b))]\<rparr>)"
        "buffer_inv wb" "buffer_content wb = drop n (buffer_content ?b)"
    using send_from_spec [OF assms(3) inv, of w] by blast
  then show ?thesis
  proof cases
    case fail
    let ?l = "[Shut_wr (side_fd sd d), Shut_rd (side_fd (other_side sd) d)]"
    let ?e = "shut_side sd (i AND NOT OP_WRITE) (j AND NOT OP_READ) d"
    let ?v = "w\<lparr>sv_log := sv_log w @ ?l, sv_heap := (sv_heap w)(key_data k \<mapsto> ?e)\<rparr>"
    let ?u = "w\<lparr>sv_log := sv_log w @ [Shut_wr (side_fd sd d)]\<rparr>"
    have u: "copy_world k ?u d" using assms(1) by (simp add: copy_world_def both_registered_def)
    have "copy_write k w = copy_finish k sd ?v"
      using heap ptr st assms(2) fail fds shut_both(1) [OF u st, of OP_WRITE]
        shut_both(2) [OF u st, where x = OP_WRITE and y = OP_READ and l = "sv_log w @ ?l"]
      by (simp add: copy_write_def bind_sv_def lift_sv_def ret_sv_def emit_def modify_sv_def stage_of_def
          del: OP_values)
    then show ?thesis
      using copy_finish_result [OF shut_world [OF assms(1)], where w = w and d = d and l = ?l] shut_side_ok [OF ok]
      by (simp del: OP_values)
  next
    case data
    let ?e = "put_buffer (side_rb (other_side sd)) wb d"
    let ?l = "[Sent (key_fd k) (take n (buffer_content ?b))]"
    let ?v = "w\<lparr>sv_log := sv_log w @ ?l, sv_metrics := count_write (int n) (sv_metrics w),
        sv_heap := (sv_heap w)(key_data k \<mapsto> ?e)\<rparr>"
    have "copy_write k w = copy_finish k sd ?v"
      using heap ptr st assms(2) data(2,3) inv
      by (simp add: copy_write_def bind_sv_def lift_sv_def ret_sv_def modify_sv_def modify_metrics_def
          put_conn_def stage_of_def)
    moreover have "copy_ok ?e" using copy_ok_put_buffer [OF ok data(4)] .
    moreover have "copy_get sd ?e = Inr (stage_of sd ?e i)"
      using st(1) by (simp add: stage_of_def)
    moreover have "flow d ?l ?e"
    proof -
      have "side_fd (other_side sd) d \<noteq> key_fd k" using copy_ok_fds [OF ok, of sd] assms(2) by simp
      then show ?thesis
        using data(5) assms(2) unfolding flow_def side_cases
        by (cases sd) (auto simp: get_buffer_def put_buffer_def)
    qed
    moreover have "copy_world k ?v ?e"
      using \<open>copy_ok ?e\<close> assms(1) by (auto simp: copy_world_def both_registered_def)
    ultimately show ?thesis
      using copy_finish_result [where v = ?v and e = ?e and l = ?l and w = w and d = d and i = i] by simp
  qed
qed

text \<open>The arrival hook builds the two stages.\<close>

lemma copy_init_ok:
  assumes "at_conn k w d" and "client_fd d \<noteq> origin_fd d" and "client_fd d \<noteq> -1" and "origin_fd d \<noteq> -1"
    and "both_registered w d" and "dissec_inv (conn_dissec d)"
  shows "\<exists>w' d'. copy_init st k w = Inr w' \<and> copy_world k w' d' \<and> interests_computed w' d' \<and>
    flow d [] d' \<and> (\<exists>x y. d' = d\<lparr>client := Client_copy x, orig := Orig_copy y\<rparr>) \<and>
    moved k w (sel_lookup (sv_selector w')) d' [] w'"
proof -
  let ?d = "d\<lparr>client := Client_copy (stage_of Client_side d (OP_READ OR OP_WRITE)),
     orig := Orig_copy (stage_of Origin_side d (OP_READ OR OP_WRITE))\<rparr>"
  let ?w = "w\<lparr>sv_heap := (sv_heap w)(key_data k \<mapsto> ?d)\<rparr>"
  have fds: "side_fd sd ?d = side_fd sd d" for sd by (cases sd) auto
  have ok: "copy_ok ?d"
    using assms(1-4) unfolding copy_ok_def side_cases by (auto simp: copy_get_def stage_of_def at_conn_def)
  have both: "both_registered ?w ?d" using assms(5) by (simp add: both_registered_def side_cases)
  have heap: "sv_heap ?w (key_data k) = Some ?d" by simp
  obtain x y s1 s where c: "copy_compute_interests k Origin_side ?w = Inr (x, ?w\<lparr>sv_selector := s1\<rparr>)"
    "copy_compute_interests k Client_side (?w\<lparr>sv_selector := s1\<rparr>) = Inr (y, ?w\<lparr>sv_selector := s\<rparr>)"
    "both_registered (?w\<lparr>sv_selector := s\<rparr>) ?d" "interests_computed (?w\<lparr>sv_selector := s\<rparr>) ?d"
    using recompute_both [OF heap ok both, of Origin_side] by auto
  have get: "get_conn k w = Inr (d, w)" using assms(1) by simp
  have "copy_init st k w = Inr (?w\<lparr>sv_selector := s\<rparr>)"
    using get c(1,2) by (simp add: copy_init_def bind_sv_def put_conn_def modify_sv_def stage_of_def)
  moreover have "flow d [] ?d" by (auto simp: flow_def get_buffer_def split: buffer_name.splits)
  ultimately show ?thesis
    using ok c(3,4) assms(6)
    by (intro exI [of _ "?w\<lparr>sv_selector := s\<rparr>"] exI [of _ ?d] conjI)
      (auto simp: copy_world_def moved_def same_rest_def both_registered_def)
qed

text \<open>The machine of the connection plays no part in copying.\<close>

lemma copy_world_machine:
  assumes "copy_world k w d" and "sv_heap w' (key_data k) = Some (d\<lparr>conn_stm := m\<rparr>)"
    and "sel_full (sv_selector w')" and "sel_lookup (sv_selector w') = sel_lookup (sv_selector w)"
  shows "copy_world k w' (d\<lparr>conn_stm := m\<rparr>)"
proof -
  have "copy_get sd (d\<lparr>conn_stm := m\<rparr>) = copy_get sd d" "stage_of sd (d\<lparr>conn_stm := m\<rparr>) = stage_of sd d"
    "side_fd sd (d\<lparr>conn_stm := m\<rparr>) = side_fd sd d" for sd
    by (cases sd; simp add: copy_get_def stage_of_def fun_eq_iff)+
  then show ?thesis using assms by (simp add: copy_world_def copy_ok_def both_registered_def)
qed

end
