(* ===== verification/Mng_Request.thy ===== *)
theory Mng_Request
  imports Auth_Stage
begin

unbundle bit_operations_syntax

text \<open>
  The management requests (\<open>src/src/Etapas/mng_request.c\<close>): the index, the parameters, the
  response. A store past the memory behind a buffer is \<open>Inl Undefined\<close>. The four bytes of an
  integer are stored in the order of a little-endian host.
\<close>

section \<open>Indexes\<close>

datatype mng_request_indexes =
    mng_request_index_supported_indexes | mng_request_index_list_users
  | mng_request_index_historic_connections | mng_request_index_concurrent_connections
  | mng_request_index_max_concurrent_connections | mng_request_index_historic_bytes_transferred
  | mng_request_index_historic_auth_attempts | mng_request_index_historic_connections_attempts
  | mng_request_index_average_bytes_per_read | mng_request_index_average_bytes_per_write
  | mng_request_index_add_user | mng_request_index_delete_user
  | mng_request_index_disable_auth | mng_request_index_disable_password_disectors

definition mng_indexes :: "mng_request_indexes list" where
  "mng_indexes =
     [mng_request_index_supported_indexes, mng_request_index_list_users,
      mng_request_index_historic_connections, mng_request_index_concurrent_connections,
      mng_request_index_max_concurrent_connections, mng_request_index_historic_bytes_transferred,
      mng_request_index_historic_auth_attempts, mng_request_index_historic_connections_attempts,
      mng_request_index_average_bytes_per_read, mng_request_index_average_bytes_per_write,
      mng_request_index_add_user, mng_request_index_delete_user,
      mng_request_index_disable_auth, mng_request_index_disable_password_disectors]"

text \<open>The enumeration counts from 0; a byte outside it is the \<open>default\<close> of every switch.\<close>

definition mng_index_of :: "byte \<Rightarrow> mng_request_indexes option" where
  "mng_index_of b = (if unat b < length mng_indexes then Some (mng_indexes ! unat b) else None)"

definition checkIndex :: check where
  "checkIndex ptr sz error =
     (case mng_index_of (ptr ! 0) of
        Some i \<Rightarrow> (True, error)
      | None \<Rightarrow> (False, mng_reply_code mng_status_index_not_supported))"

section \<open>Responses\<close>

definition uint32_bytes :: "32 word \<Rightarrow> byte list" where
  "uint32_bytes v = [ucast v, ucast (drop_bit 8 v), ucast (drop_bit 16 v), ucast (drop_bit 24 v)]"

definition uint_mng_request_marshall :: "buffer \<Rightarrow> 32 word \<Rightarrow> buffer res" where
  "uint_mng_request_marshall wb v =
     bind_res (buffer_write_ptr wb) (\<lambda>(p, n).
       if n < 5 then Inr wb else buffer_put wb (0x00 # uint32_bytes v))"

definition supported_indexes_mng_request_marshall :: "buffer \<Rightarrow> buffer res" where
  "supported_indexes_mng_request_marshall wb =
     bind_res (buffer_write_ptr wb) (\<lambda>(p, n).
       if n < 18 then Inr wb
       else buffer_put wb [0x00, 0x0E, 0x00, 0x01, 0x02, 0x03, 0x04, 0x05, 0x06, 0x07, 0x08, 0x09,
                           0x0A, 0x0B, 0x0C, 0x0D])"

definition status_mng_marshal :: "buffer \<Rightarrow> mng_reply_status \<Rightarrow> buffer res" where
  "status_mng_marshal wb status =
     bind_res (buffer_write_ptr wb) (\<lambda>(p, n).
       if n < 1 then Inr wb else buffer_put wb [mng_reply_code status])"

text \<open>The size check subtracts the names from the free space, on \<open>size_t\<close>.\<close>

fun users_fit :: "nat list \<Rightarrow> 64 word \<Rightarrow> bool" where
  "users_fit [] aux = True"
| "users_fit (l # ls) aux = (if of_nat l > aux then False else users_fit ls (aux - of_nat l))"

fun user_names :: "user list \<Rightarrow> byte list list res" where
  "user_names [] = Inr []"
| "user_names (x # xs) =
     (case user_name x of
        None \<Rightarrow> Inl Undefined
      | Some n \<Rightarrow> bind_res (user_names xs) (\<lambda>ns. Inr (cstr n # ns)))"

definition encode_names :: "byte list list \<Rightarrow> byte list" where
  "encode_names ns = concat (map (\<lambda>n. of_nat (length n) # n) ns)"

definition list_users_mng_request_marshall :: "user list \<Rightarrow> nat \<Rightarrow> buffer \<Rightarrow> buffer res" where
  "list_users_mng_request_marshall us n wb =
     bind_res (buffer_write_ptr wb) (\<lambda>(p, room).
     if n > length us then Inl Undefined
     else bind_res (user_names (take n us)) (\<lambda>names.
     if users_fit (map length names) (of_nat room - 2)
     then buffer_put wb (0x00 # of_nat n # encode_names names)
     else Inr wb))"

section \<open>Index requests\<close>

definition process_mng_index :: "server \<Rightarrow> buffer \<Rightarrow> byte \<Rightarrow> (mng_state \<times> buffer) res" where
  "process_mng_index w wb index =
     (let m = sv_metrics w;
          write = (\<lambda>r. bind_res r (\<lambda>b. Inr (MNG_REQUEST_WRITE, b)));
          uint = (\<lambda>v. write (uint_mng_request_marshall wb (ucast v)))
      in case mng_index_of index of
           None \<Rightarrow> Inr (MNG_ERROR, wb)
         | Some i \<Rightarrow>
            (case i of
               mng_request_index_supported_indexes \<Rightarrow> write (supported_indexes_mng_request_marshall wb)
             | mng_request_index_list_users \<Rightarrow> write (list_users_mng_request_marshall (sv_users w) (nusers w) wb)
             | mng_request_index_historic_connections \<Rightarrow> uint (metrics_historic_connections m)
             | mng_request_index_concurrent_connections \<Rightarrow> uint (metrics_concurrent_connections m)
             | mng_request_index_max_concurrent_connections \<Rightarrow> uint (metrics_max_concurrent_connections m)
             | mng_request_index_historic_bytes_transferred \<Rightarrow> uint (metrics_historic_byte_transfer m)
             | mng_request_index_historic_auth_attempts \<Rightarrow> uint (metrics_historic_auth_attempts m)
             | mng_request_index_historic_connections_attempts \<Rightarrow> uint (metrics_historic_connections_attempts m)
             | mng_request_index_average_bytes_per_read \<Rightarrow> uint (metrics_average_bytes_per_read m)
             | mng_request_index_average_bytes_per_write \<Rightarrow> uint (metrics_average_bytes_per_write m)
             | mng_request_index_add_user \<Rightarrow> Inr (MNG_REQUEST_READ, wb)
             | mng_request_index_delete_user \<Rightarrow> Inr (MNG_REQUEST_READ, wb)
             | mng_request_index_disable_auth \<Rightarrow> Inr (MNG_REQUEST_READ, wb)
             | mng_request_index_disable_password_disectors \<Rightarrow> Inr (MNG_REQUEST_READ, wb)))"

definition with_mng :: "skey \<Rightarrow> (socks5 \<Rightarrow> mng_request_st \<Rightarrow> 'a srv) \<Rightarrow> 'a srv" where
  "with_mng k f = bind_sv (get_conn k) (\<lambda>d.
     case client d of Client_mng m \<Rightarrow> f d m | _ \<Rightarrow> fail_sv Undefined)"

definition put_mng :: "skey \<Rightarrow> (mng_request_st \<Rightarrow> mng_request_st) \<Rightarrow> unit srv" where
  "put_mng k f = with_mng k (\<lambda>d m. put_conn k (d\<lparr>client := Client_mng (f m)\<rparr>))"

definition one_byte_steps :: "os \<Rightarrow> (bool \<times> bool) list" where
  "one_byte_steps k = [(os_alloc k (Alloc_substate 0), True), (os_block k 0 2 \<noteq> None, True)]"

definition mng_request_index_init :: "nat \<Rightarrow> skey \<Rightarrow> server \<Rightarrow> server res" where
  "mng_request_index_init state k w =
     bind_res (bind_sv (get_conn k) (\<lambda>d.
       bind_sv (lift_sv (build_parser (key_os k) (one_byte_steps (key_os k))
                  [substate_one_byte (os_block (key_os k) 0 2) (Some checkIndex)])) (\<lambda>(p, ok).
         put_conn k (d\<lparr>client := Client_mng \<lparr>ms_parser = p,
            ms_status = (if ok then mng_status_succeeded else mng_status_server_error), ms_index = 0\<rparr>\<rparr>))) w)
     (\<lambda>(_, w'). Inr w')"

text \<open>Answer with the status of the stage and wait for the write event.\<close>

definition mng_reply_status_write :: "skey \<Rightarrow> nat srv" where
  "mng_reply_status_write k = with_mng k (\<lambda>d m.
     bind_sv (lift_sv (status_mng_marshal (write_buffer d) (ms_status m))) (\<lambda>wb.
     bind_sv (put_conn k (d\<lparr>write_buffer := wb\<rparr>)) (\<lambda>_.
     bind_sv (set_interest_key k OP_WRITE) (\<lambda>ss.
       ret_sv (if SELECTOR_SUCCESS \<noteq> ss then mng_code MNG_ERROR else mng_code MNG_REQUEST_WRITE)))))"

definition mng_request_index_done :: "skey \<Rightarrow> parser \<Rightarrow> bool \<Rightarrow> nat srv" where
  "mng_request_index_done k p error =
     (if error
      then bind_sv (put_mng k (\<lambda>m. m\<lparr>ms_status := mng_status_index_not_supported\<rparr>)) (\<lambda>_.
             mng_reply_status_write k)
      else bind_sv (lift_sv (substate_at p 0)) (\<lambda>s.
           case ps_result s of
             None \<Rightarrow> fail_sv Undefined
           | Some r \<Rightarrow>
              if r = [] then fail_sv Undefined
              else bind_sv (put_mng k (\<lambda>m. m\<lparr>ms_index := hd r\<rparr>)) (\<lambda>_.
                   bind_sv (get_conn k) (\<lambda>d.
                   bind_sv (get_sv (\<lambda>w. w)) (\<lambda>w.
                   bind_sv (lift_sv (process_mng_index w (write_buffer d) (hd r))) (\<lambda>(ret, wb).
                   bind_sv (put_conn k (d\<lparr>write_buffer := wb\<rparr>)) (\<lambda>_.
                   if ret = MNG_REQUEST_WRITE \<or> ret = MNG_REQUEST_READ
                   then bind_sv (set_interest_key k (if ret = MNG_REQUEST_WRITE then OP_WRITE else OP_READ)) (\<lambda>ss.
                        ret_sv (if SELECTOR_SUCCESS \<noteq> ss then mng_code MNG_ERROR else mng_code ret))
                   else ret_sv (mng_code ret))))))))"

definition mng_request_index_read :: "skey \<Rightarrow> nat srv" where
  "mng_request_index_read k = with_mng k (\<lambda>d m.
     if ms_status m \<noteq> mng_status_succeeded then mng_reply_status_write k
     else bind_sv (lift_sv (buffer_write_ptr (read_buffer d))) (\<lambda>(ptr, count).
     if count = 0
     then bind_sv (put_mng k (\<lambda>m. m\<lparr>ms_status := mng_status_server_error\<rparr>)) (\<lambda>_. mng_reply_status_write k)
     else bind_sv (lift_sv (recv_into k (\<lambda>n. 1) (read_buffer d))) (\<lambda>r.
       case r of
         None \<Rightarrow> ret_sv (mng_code MNG_ERROR)
       | Some (xs, rb) \<Rightarrow> with_parser (ms_parser m) (\<lambda>p.
           bind_sv (lift_sv (consume (os_block (key_os k)) rb p False)) (\<lambda>((p', st, error), rb').
           bind_sv (put_conn k (d\<lparr>client := Client_mng (m\<lparr>ms_parser := Parser_ready p'\<rparr>),
                                  read_buffer := rb'\<rparr>)) (\<lambda>_.
             if is_done st then mng_request_index_done k p' error
             else ret_sv (mng_code MNG_REQUEST_READ_INDEX)))))))"

text \<open>\<open>mng_request_index_close\<close> and \<open>mng_request_close\<close> have the same body.\<close>

definition mng_request_close :: "nat \<Rightarrow> skey \<Rightarrow> server \<Rightarrow> server res" where
  "mng_request_close state k w =
     bind_res (with_mng k (\<lambda>d m.
       bind_sv (lift_sv (close_parser (ms_parser m))) (\<lambda>p.
         put_conn k (d\<lparr>client := Client_mng (m\<lparr>ms_parser := p\<rparr>)\<rparr>))) w) (\<lambda>(_, w'). Inr w')"

definition mng_request_index_close :: "nat \<Rightarrow> skey \<Rightarrow> server \<Rightarrow> server res" where
  "mng_request_index_close = mng_request_close"

section \<open>Parameter requests\<close>

definition add_user_steps :: "os \<Rightarrow> (bool \<times> bool) list" where
  "add_user_steps k = [(os_alloc k (Alloc_substate 0), False), (os_alloc k (Alloc_substate 1), False),
     (os_alloc k (Alloc_substate 2), False), (os_alloc k (Alloc_substate 3), True)]"

definition mng_request_index_add_user_parser_init :: "os \<Rightarrow> (parser_ptr \<times> bool) res" where
  "mng_request_index_add_user_parser_init k =
     build_parser k (add_user_steps k)
       [substate_read_N, substate_long_read, substate_read_N, substate_long_read]"

definition mng_request_index_delete_user_parser_init :: "os \<Rightarrow> (parser_ptr \<times> bool) res" where
  "mng_request_index_delete_user_parser_init k =
     build_parser k [(os_alloc k (Alloc_substate 0), False), (os_alloc k (Alloc_substate 1), True)]
       [substate_read_N, substate_long_read]"

definition mng_request_index_yes_no_value :: "os \<Rightarrow> (parser_ptr \<times> bool) res" where
  "mng_request_index_yes_no_value k =
     build_parser k (one_byte_steps k)
       [substate_one_byte (map_option (\<lambda>m. m[1 := 0]) (os_block k 0 2)) None]"

text \<open>The switch of \<open>mng_request_init\<close>.\<close>

definition mng_params_parser :: "os \<Rightarrow> byte \<Rightarrow> (parser_ptr \<times> bool) res" where
  "mng_params_parser k index =
     (case mng_index_of index of
        Some mng_request_index_add_user \<Rightarrow> mng_request_index_add_user_parser_init k
      | Some mng_request_index_delete_user \<Rightarrow> mng_request_index_delete_user_parser_init k
      | Some mng_request_index_disable_auth \<Rightarrow> mng_request_index_yes_no_value k
      | Some mng_request_index_disable_password_disectors \<Rightarrow> mng_request_index_yes_no_value k
      | _ \<Rightarrow> Inl Aborted)"

definition mng_request_init :: "nat \<Rightarrow> skey \<Rightarrow> server \<Rightarrow> server res" where
  "mng_request_init state k w =
     bind_res (with_mng k (\<lambda>d m.
       bind_sv (lift_sv (mng_params_parser (key_os k) (ms_index m))) (\<lambda>(p, ok).
         put_conn k (d\<lparr>client := Client_mng (m\<lparr>ms_parser := p,
            ms_status := (if ok then mng_status_succeeded else mng_status_server_error)\<rparr>)\<rparr>))) w)
     (\<lambda>(_, w'). Inr w')"

text \<open>\<open>alloc\<close>: the two unchecked \<open>malloc\<close> calls of \<open>addUser\<close>.\<close>

definition addUser :: "os \<Rightarrow> byte list option \<Rightarrow> byte list option \<Rightarrow> server \<Rightarrow> server res" where
  "addUser k username password w =
     (if nusers w \<ge> MAX_USERS then Inr w
      else case (username, password) of
             (Some u, Some p) \<Rightarrow>
               if os_alloc k (Alloc_result 0) \<and> os_alloc k (Alloc_result 1) \<and> nusers w < length (sv_users w)
               then Inr (w\<lparr>sv_users := (sv_users w)[nusers w :=
                             \<lparr>user_name = Some (cstr u), user_pass = Some (cstr p)\<rparr>],
                          nusers := nusers w + 1\<rparr>)
               else Inl Undefined
           | _ \<Rightarrow> Inl Undefined)"

function delete_loop :: "nat \<Rightarrow> nat \<Rightarrow> bool \<Rightarrow> user list \<Rightarrow> byte list \<Rightarrow> (bool \<times> user list) res" where
  "delete_loop i n deleted us username =
     (if i < n
      then if i \<ge> length us then Inl Undefined
           else if deleted then delete_loop (Suc i) n True (us[i - 1 := us ! i]) username
           else (case user_name (us ! i) of
                   None \<Rightarrow> Inl Undefined
                 | Some m \<Rightarrow>
                     if cstr username = cstr m
                     then delete_loop (Suc i) n True (us[i := \<lparr>user_name = None, user_pass = None\<rparr>]) username
                     else delete_loop (Suc i) n False us username)
      else Inr (deleted, us))"
  by pat_completeness auto
termination
  by (relation "measure (\<lambda>(i, n, deleted, us, username). n - i)") auto

declare delete_loop.simps [simp del]

definition deleteUser :: "byte list option \<Rightarrow> server \<Rightarrow> server res" where
  "deleteUser username w =
     (case username of
        None \<Rightarrow> if nusers w = 0 then Inr w else Inl Undefined
      | Some u \<Rightarrow>
          bind_res (delete_loop 0 (nusers w) False (sv_users w) u) (\<lambda>(deleted, us).
            Inr (w\<lparr>sv_users := us, nusers := (if deleted then nusers w - 1 else nusers w)\<rparr>)))"

definition disableAuth :: "byte \<Rightarrow> server \<Rightarrow> server" where
  "disableAuth option w = w\<lparr>auth_method :=
     (if option = 0x00 then METHOD_USERNAME_PASSWORD else METHOD_NO_AUTHENTICATION_REQUIRED)\<rparr>"

definition disablePasswordDissectors :: "byte \<Rightarrow> server \<Rightarrow> server" where
  "disablePasswordDissectors option w = w\<lparr>password_dissectors := option\<rparr>"

definition first_byte :: "byte list option \<Rightarrow> byte res" where
  "first_byte r = (case r of Some (b # bs) \<Rightarrow> Inr b | _ \<Rightarrow> Inl Undefined)"

text \<open>The effect on the globals and the status that is marshalled.\<close>

definition process_mng_params :: "os \<Rightarrow> parser \<Rightarrow> byte \<Rightarrow> server \<Rightarrow> (mng_reply_status \<times> server) res" where
  "process_mng_params k p index w =
     (let result = (\<lambda>i. bind_res (substate_at p i) (\<lambda>s. Inr (ps_result s)));
          succeed = (\<lambda>r. bind_res r (\<lambda>w'. Inr (mng_status_succeeded, w')))
      in case mng_index_of index of
           Some mng_request_index_add_user \<Rightarrow>
             if nusers w = MAX_USERS then Inr (mng_status_max_users_reached, w)
             else bind_res (result 1) (\<lambda>u. bind_res (result 3) (\<lambda>pw. succeed (addUser k u pw w)))
         | Some mng_request_index_delete_user \<Rightarrow>
             bind_res (result 1) (\<lambda>u. succeed (deleteUser u w))
         | Some mng_request_index_disable_auth \<Rightarrow>
             bind_res (result 0) (\<lambda>r. bind_res (first_byte r) (\<lambda>b. succeed (Inr (disableAuth b w))))
         | Some mng_request_index_disable_password_disectors \<Rightarrow>
             bind_res (result 0) (\<lambda>r. bind_res (first_byte r) (\<lambda>b. succeed (Inr (disablePasswordDissectors b w))))
         | _ \<Rightarrow> Inr (mng_status_server_error, w))"

definition process_mng_params_request :: "skey \<Rightarrow> parser \<Rightarrow> byte \<Rightarrow> unit srv" where
  "process_mng_params_request k p index = (\<lambda>w.
     bind_res (process_mng_params (key_os k) p index w) (\<lambda>(status, w1).
     bind_sv (get_conn k) (\<lambda>d.
     bind_sv (lift_sv (status_mng_marshal (write_buffer d) status)) (\<lambda>wb.
       put_conn k (d\<lparr>write_buffer := wb\<rparr>))) w1))"

definition mng_request_read :: "skey \<Rightarrow> nat srv" where
  "mng_request_read k = with_mng k (\<lambda>d m.
     if ms_status m \<noteq> mng_status_succeeded then mng_reply_status_write k
     else bind_sv (lift_sv (recv_into k (\<lambda>n. n) (read_buffer d))) (\<lambda>r.
       case r of
         None \<Rightarrow> ret_sv (mng_code MNG_ERROR)
       | Some (xs, rb) \<Rightarrow> with_parser (ms_parser m) (\<lambda>p.
           bind_sv (lift_sv (consume (os_block (key_os k)) rb p False)) (\<lambda>((p', st, error), rb').
           bind_sv (put_conn k (d\<lparr>client := Client_mng (m\<lparr>ms_parser := Parser_ready p'\<rparr>),
                                  read_buffer := rb'\<rparr>)) (\<lambda>_.
             if is_done st
             then bind_sv (set_interest_key k OP_WRITE) (\<lambda>ss.
                  if SELECTOR_SUCCESS = ss
                  then (if error then ret_sv (mng_code MNG_ERROR)
                        else bind_sv (process_mng_params_request k p' (ms_index m)) (\<lambda>_.
                               ret_sv (mng_code MNG_REQUEST_WRITE)))
                  else ret_sv (mng_code MNG_ERROR))
             else ret_sv (mng_code MNG_REQUEST_READ))))))"

section \<open>Response\<close>

definition mng_request_write_init :: "nat \<Rightarrow> skey \<Rightarrow> server \<Rightarrow> server res" where
  "mng_request_write_init state k w = bind_res (with_mng k (\<lambda>d m. ret_sv ()) w) (\<lambda>(_, w'). Inr w')"

definition mng_request_write :: "skey \<Rightarrow> nat srv" where
  "mng_request_write k = with_mng k (\<lambda>d m.
     bind_sv (send_from k (write_buffer d)) (\<lambda>r.
       case r of
         None \<Rightarrow> ret_sv (mng_code MNG_ERROR)
       | Some wb \<Rightarrow>
           bind_sv (put_conn k (d\<lparr>write_buffer := wb\<rparr>)) (\<lambda>_.
             ret_sv (if \<not> buffer_can_read wb then mng_code MNG_DONE else mng_code MNG_REQUEST_WRITE))))"

definition mng_request_write_close :: "nat \<Rightarrow> skey \<Rightarrow> server \<Rightarrow> server res" where
  "mng_request_write_close state k w = Inr w"

end
