(* ===== verification/Server.thy ===== *)
theory Server
  imports Hello_Stage Auth_Stage Connecting Copy_Stage Mng_Request
begin

unbundle bit_operations_syntax

text \<open>
  The two protocol servers and the event loop: \<open>src/src/socks5nio.c\<close>, \<open>src/src/mng_nio.c\<close>,
  the dispatching half of \<open>src/src/selector.c\<close> and the loop body of \<open>src/src/main.c\<close>. The
  handler tables of \<open>main.c\<close> and of the two servers are functions on \<open>handler_id\<close>.
\<close>

section \<open>State tables\<close>

text \<open>A table entry with every member that the initialiser does not name set to NULL.\<close>

definition bare_state :: "nat \<Rightarrow> (skey, server) state_definition" where
  "bare_state i = \<lparr>sd_state = i, on_arrival = None, on_departure = None, on_read_ready = None,
     on_write_ready = None, on_block_ready = None\<rparr>"

definition client_statbl :: "(skey, server) state_table" where
  "client_statbl =
     [(bare_state (socks_code HELLO_READ))\<lparr>on_arrival := Some hello_read_init,
        on_departure := Some hello_read_close, on_read_ready := Some hello_read\<rparr>,
      (bare_state (socks_code HELLO_WRITE))\<lparr>on_arrival := Some hello_write_init,
        on_departure := Some hello_write_close, on_write_ready := Some hello_write\<rparr>,
      (bare_state (socks_code USERPASS_READ))\<lparr>on_arrival := Some auth_read_init,
        on_departure := Some auth_read_close, on_read_ready := Some auth_read\<rparr>,
      (bare_state (socks_code USERPASS_WRITE))\<lparr>on_arrival := Some auth_write_init,
        on_departure := Some auth_write_close, on_write_ready := Some auth_write\<rparr>,
      (bare_state (socks_code REQUEST_READ))\<lparr>on_arrival := Some request_init,
        on_departure := Some request_close, on_read_ready := Some request_read\<rparr>,
      (bare_state (socks_code REQUEST_RESOLV))\<lparr>on_block_ready := Some request_resolv_done\<rparr>,
      (bare_state (socks_code REQUEST_CONNECTING))\<lparr>on_arrival := Some connecting_init,
        on_departure := Some connecting_close, on_write_ready := Some connecting_write\<rparr>,
      (bare_state (socks_code REQUEST_WRITE))\<lparr>on_write_ready := Some request_write\<rparr>,
      (bare_state (socks_code COPY))\<lparr>on_arrival := Some copy_init, on_read_ready := Some copy_read,
        on_write_ready := Some copy_write\<rparr>,
      bare_state (socks_code DONE),
      bare_state (socks_code ERROR)]"

definition client_mng :: "(skey, server) state_table" where
  "client_mng =
     [(bare_state (mng_code MNG_HELLO_READ))\<lparr>on_arrival := Some hello_read_init,
        on_departure := Some hello_read_close, on_read_ready := Some hello_read\<rparr>,
      (bare_state (mng_code MNG_HELLO_WRITE))\<lparr>on_arrival := Some hello_write_init,
        on_departure := Some hello_write_close, on_write_ready := Some hello_write\<rparr>,
      (bare_state (mng_code MNG_USERPASS_READ))\<lparr>on_arrival := Some auth_read_init,
        on_departure := Some auth_read_close, on_read_ready := Some auth_read\<rparr>,
      (bare_state (mng_code MNG_USERPASS_WRITE))\<lparr>on_arrival := Some auth_write_init,
        on_departure := Some auth_write_close, on_write_ready := Some auth_write\<rparr>,
      (bare_state (mng_code MNG_REQUEST_READ_INDEX))\<lparr>on_arrival := Some mng_request_index_init,
        on_departure := Some mng_request_index_close, on_read_ready := Some mng_request_index_read\<rparr>,
      (bare_state (mng_code MNG_REQUEST_READ))\<lparr>on_arrival := Some mng_request_init,
        on_departure := Some mng_request_close, on_read_ready := Some mng_request_read\<rparr>,
      (bare_state (mng_code MNG_REQUEST_WRITE))\<lparr>on_arrival := Some mng_request_write_init,
        on_departure := Some mng_request_write_close, on_write_ready := Some mng_request_write\<rparr>,
      bare_state (mng_code MNG_DONE),
      bare_state (mng_code MNG_ERROR)]"

section \<open>New connections\<close>

definition BUFFER_LENGTH :: nat where "BUFFER_LENGTH = 2048"

text \<open>The structure after \<open>memset\<close>.\<close>

definition zero_sockaddr :: sockaddr where
  "zero_sockaddr = \<lparr>sa_family = AF_UNSPEC, sa_port = [0, 0], sa_addr = replicate 16 0\<rparr>"

definition zero_buffer :: buffer where
  "zero_buffer = \<lparr>buf_data = [], buf_limit = 0, buf_read = 0, buf_write = 0\<rparr>"

definition zero_socks5 :: socks5 where
  "zero_socks5 = \<lparr>client_fd = 0, client_addr = zero_sockaddr, origin_resolution = [],
     origin_resolution_current = [], origin_addr = zero_sockaddr, origin_addr_len = 0,
     origin_domain = 0, origin_fd = 0,
     conn_stm = \<lparr>stm_initial = 0, stm_max_state = 0, stm_current = None\<rparr>,
     error_state = 0, done_state = 0, isSocks = False, client = Client_zero, orig = Orig_zero,
     read_buffer = zero_buffer, write_buffer = zero_buffer, references = 0, authentication = 0,
     userIndex = 0,
     conn_dissec = \<lparr>dp_current = user_word_search, dp_index = 0, dp_last = False,
       dp_username = Null, dp_password = Null\<rparr>\<rparr>"

text \<open>A structure of the pool, or fresh memory; \<open>None\<close> when there is none.\<close>

definition pool_take :: "os \<Rightarrow> nat option srv" where
  "pool_take k = (\<lambda>w.
     case sv_pool w of
       [] \<Rightarrow> if os_alloc k Alloc_conn then Inr (Some (sv_next w), w\<lparr>sv_next := sv_next w + 1\<rparr>)
             else Inr (None, w)
     | i # l \<Rightarrow> if sv_heap w i = None then Inl Undefined else Inr (Some i, w\<lparr>sv_pool := l\<rparr>))"

definition mng_pool_take :: "os \<Rightarrow> nat option srv" where
  "mng_pool_take k = (\<lambda>w.
     case sv_mng_pool w of
       [] \<Rightarrow> if os_alloc k Alloc_conn then Inr (Some (sv_next w), w\<lparr>sv_next := sv_next w + 1\<rparr>)
             else Inr (None, w)
     | i # l \<Rightarrow> if sv_heap w i = None then Inl Undefined else Inr (Some i, w\<lparr>sv_mng_pool := l\<rparr>))"

definition put_heap :: "nat \<Rightarrow> socks5 \<Rightarrow> unit srv" where
  "put_heap i d = modify_sv (\<lambda>w. w\<lparr>sv_heap := (sv_heap w)(i \<mapsto> d)\<rparr>)"

definition socks5_new :: "os \<Rightarrow> int \<Rightarrow> nat option srv" where
  "socks5_new k fd = bind_sv (pool_take k) (\<lambda>x.
     case x of
       None \<Rightarrow> ret_sv None
     | Some i \<Rightarrow>
         bind_sv (lift_sv (stm_init client_statbl \<lparr>stm_initial = socks_code HELLO_READ,
                    stm_max_state = socks_code ERROR, stm_current = Some 0\<rparr>)) (\<lambda>m.
         bind_sv (put_heap i (zero_socks5\<lparr>isSocks := True, origin_fd := -1, client_fd := fd, conn_stm := m,
             done_state := socks_code DONE, error_state := socks_code ERROR,
             conn_dissec := dissec_parser_init (conn_dissec zero_socks5),
             read_buffer := buffer_init BUFFER_LENGTH (replicate BUFFER_LENGTH 0),
             write_buffer := buffer_init BUFFER_LENGTH (replicate BUFFER_LENGTH 0),
             references := 1\<rparr>)) (\<lambda>_.
           ret_sv (Some i))))"

text \<open>\<open>isSocks\<close> is set before the \<open>memset\<close>, which leaves \<open>false\<close> in it all the same.\<close>

definition mng_new :: "os \<Rightarrow> int \<Rightarrow> nat option srv" where
  "mng_new k fd = bind_sv (mng_pool_take k) (\<lambda>x.
     case x of
       None \<Rightarrow> ret_sv None
     | Some i \<Rightarrow>
         bind_sv (lift_sv (stm_init client_mng \<lparr>stm_initial = mng_code MNG_HELLO_READ,
                    stm_max_state = mng_code MNG_ERROR, stm_current = Some 0\<rparr>)) (\<lambda>m.
         bind_sv (put_heap i (zero_socks5\<lparr>client_fd := fd, origin_fd := -1, conn_stm := m,
             done_state := mng_code MNG_DONE, error_state := mng_code MNG_ERROR,
             read_buffer := buffer_init BUFFER_LENGTH (replicate BUFFER_LENGTH 0),
             write_buffer := buffer_init BUFFER_LENGTH (replicate BUFFER_LENGTH 0),
             references := 1\<rparr>)) (\<lambda>_.
           ret_sv (Some i))))"

definition set_client_addr :: "nat \<Rightarrow> sockaddr \<Rightarrow> unit srv" where
  "set_client_addr i a = (\<lambda>w.
     case sv_heap w i of
       None \<Rightarrow> Inl Undefined
     | Some d \<Rightarrow> put_heap i (d\<lparr>client_addr := a\<rparr>) w)"

definition socksv5_passive_accept :: "os \<Rightarrow> int \<Rightarrow> unit srv" where
  "socksv5_passive_accept k fd =
     (case os_accept k fd of
        None \<Rightarrow> ret_sv ()
      | Some (c, addr) \<Rightarrow>
          if selector_fd_set_nio (os_getfd k c) (os_setfl k c) = -1 then close_fd c
          else bind_sv (socks5_new k c) (\<lambda>x.
            case x of
              None \<Rightarrow> close_fd c
            | Some i \<Rightarrow>
                bind_sv (set_client_addr i addr) (\<lambda>_.
                bind_sv (register k c Socks5_handler OP_READ (Some i)) (\<lambda>ss.
                if SELECTOR_SUCCESS \<noteq> ss
                then bind_sv (close_fd c) (\<lambda>_ w. bind_res (socks5_destroy (Some i) w) (\<lambda>w'. Inr ((), w')))
                else ret_sv ()))))"

definition mng_passive_accept :: "os \<Rightarrow> int \<Rightarrow> unit srv" where
  "mng_passive_accept k fd =
     (case os_accept k fd of
        None \<Rightarrow> ret_sv ()
      | Some (c, addr) \<Rightarrow>
          if selector_fd_set_nio (os_getfd k c) (os_setfl k c) = -1 then close_fd c
          else bind_sv (mng_new k c) (\<lambda>x.
            case x of
              None \<Rightarrow> close_fd c
            | Some i \<Rightarrow>
                bind_sv (set_client_addr i addr) (\<lambda>_.
                bind_sv (register k c Mng_handler OP_READ (Some i)) (\<lambda>ss.
                if SELECTOR_SUCCESS \<noteq> ss
                then bind_sv (close_fd c) (\<lambda>_ w. bind_res (mng_destroy (Some i) w) (\<lambda>w'. Inr ((), w')))
                else ret_sv ()))))"

section \<open>Handlers of a connection\<close>

text \<open>Run one event of the connection's machine, which lives in the connection.\<close>

definition run_machine ::
    "((skey, server) state_table \<Rightarrow> state_machine \<Rightarrow> skey \<Rightarrow> server \<Rightarrow> (nat \<times> state_machine \<times> server) res) \<Rightarrow>
     (skey, server) state_table \<Rightarrow> skey \<Rightarrow> nat srv" where
  "run_machine handler tbl k = bind_sv (get_conn k) (\<lambda>d w.
     bind_res (handler tbl (conn_stm d) k w) (\<lambda>(ret, m, w1).
       bind_sv (get_conn k) (\<lambda>d1. bind_sv (put_conn k (d1\<lparr>conn_stm := m\<rparr>)) (\<lambda>_. ret_sv ret)) w1))"

text \<open>Unregister and close: a failed removal aborts the process.\<close>

fun close_fds :: "int list \<Rightarrow> unit srv" where
  "close_fds [] = ret_sv ()"
| "close_fds (fd # l) =
     (if fd \<noteq> -1
      then bind_sv (unregister fd) (\<lambda>ss.
           if SELECTOR_SUCCESS \<noteq> ss then fail_sv Aborted
           else bind_sv (close_fd fd) (\<lambda>_. close_fds l))
      else close_fds l)"

definition socksv5_done :: "skey \<Rightarrow> unit srv" where
  "socksv5_done k = bind_sv (get_conn k) (\<lambda>d. close_fds [client_fd d, origin_fd d])"

definition mng_done :: "skey \<Rightarrow> unit srv" where
  "mng_done k = bind_sv (get_conn k) (\<lambda>d. close_fds [client_fd d])"

definition socks_finish :: "skey \<Rightarrow> nat \<Rightarrow> unit srv" where
  "socks_finish k st =
     (if socks_code ERROR = st \<or> socks_code DONE = st then socksv5_done k else ret_sv ())"

definition mng_finish :: "skey \<Rightarrow> nat \<Rightarrow> unit srv" where
  "mng_finish k st =
     (if mng_code MNG_ERROR = st \<or> mng_code MNG_DONE = st then mng_done k else ret_sv ())"

definition socksv5_read :: "skey \<Rightarrow> unit srv" where
  "socksv5_read k = bind_sv (run_machine stm_handler_read client_statbl k) (socks_finish k)"

definition socksv5_write :: "skey \<Rightarrow> unit srv" where
  "socksv5_write k = bind_sv (run_machine stm_handler_write client_statbl k) (socks_finish k)"

definition socksv5_block :: "skey \<Rightarrow> unit srv" where
  "socksv5_block k = bind_sv (run_machine stm_handler_block client_statbl k) (socks_finish k)"

definition mng_read :: "skey \<Rightarrow> unit srv" where
  "mng_read k = bind_sv (run_machine stm_handler_read client_mng k) (mng_finish k)"

definition mng_write :: "skey \<Rightarrow> unit srv" where
  "mng_write k = bind_sv (run_machine stm_handler_write client_mng k) (mng_finish k)"

definition mng_block :: "skey \<Rightarrow> unit srv" where
  "mng_block k = bind_sv (run_machine stm_handler_block client_mng k) (mng_finish k)"

section \<open>The event loop\<close>

text \<open>The handler of a connection dereferences its attachment.\<close>

definition attached :: "(skey \<Rightarrow> unit srv) \<Rightarrow> os \<Rightarrow> int \<Rightarrow> nat option \<Rightarrow> unit srv" where
  "attached f k fd x =
     (case x of
        None \<Rightarrow> fail_sv Undefined
      | Some i \<Rightarrow> f \<lparr>key_fd = fd, key_data = i, key_os = k\<rparr>)"

fun handle_read :: "handler_id \<Rightarrow> (os \<Rightarrow> int \<Rightarrow> nat option \<Rightarrow> unit srv) option" where
  "handle_read Socks5_handler = Some (attached socksv5_read)"
| "handle_read Mng_handler = Some (attached mng_read)"
| "handle_read Socks5_passive = Some (\<lambda>k fd x. socksv5_passive_accept k fd)"
| "handle_read Mng_passive = Some (\<lambda>k fd x. mng_passive_accept k fd)"

fun handle_write :: "handler_id \<Rightarrow> (os \<Rightarrow> int \<Rightarrow> nat option \<Rightarrow> unit srv) option" where
  "handle_write Socks5_handler = Some (attached socksv5_write)"
| "handle_write Mng_handler = Some (attached mng_write)"
| "handle_write Socks5_passive = None"
| "handle_write Mng_passive = None"

fun handle_block :: "handler_id \<Rightarrow> (os \<Rightarrow> int \<Rightarrow> nat option \<Rightarrow> unit srv) option" where
  "handle_block Socks5_handler = Some (attached socksv5_block)"
| "handle_block Mng_handler = Some (attached mng_block)"
| "handle_block Socks5_passive = None"
| "handle_block Mng_passive = None"

definition item_at :: "int \<Rightarrow> (handler_id, nat) item srv" where
  "item_at i = (\<lambda>w.
     if 0 \<le> i \<and> nat i < length (fds (sv_selector w)) then Inr (fds (sv_selector w) ! nat i, w)
     else Inl Undefined)"

text \<open>\<open>missing\<close>: what happens when the table has no such handler.\<close>

definition call_handler ::
    "(handler_id \<Rightarrow> (os \<Rightarrow> int \<Rightarrow> nat option \<Rightarrow> unit srv) option) \<Rightarrow> fault \<Rightarrow> handler_id option \<Rightarrow>
     os \<Rightarrow> int \<Rightarrow> nat option \<Rightarrow> unit srv" where
  "call_handler tbl missing h k fd x =
     (case h of
        None \<Rightarrow> fail_sv Undefined
      | Some t \<Rightarrow> (case tbl t of None \<Rightarrow> fail_sv missing | Some f \<Rightarrow> f k fd x))"

text \<open>
  One item. The key is filled once; the item is read again for the write event. A handler
  that moved the table (\<open>realloc\<close>) leaves the item pointer dangling. \<open>env i r\<close> is the outside
  world during the read (\<open>r\<close>) or write call of item \<open>i\<close>.
\<close>

definition handle_item :: "(nat \<Rightarrow> bool \<Rightarrow> os) \<Rightarrow> nat \<Rightarrow> unit srv" where
  "handle_item env i =
     bind_sv (get_sv (\<lambda>w. length (fds (sv_selector w)))) (\<lambda>size.
     bind_sv (item_at (int i)) (\<lambda>it.
     if \<not> ITEM_USED it then ret_sv ()
     else bind_sv (get_sv sv_selector) (\<lambda>s.
          bind_sv (if item_fd it \<in> slave_r s \<and> OP_READ AND item_interest it \<noteq> 0
                   then call_handler handle_read Assertion_failed (item_handler it) (env i True)
                          (item_fd it) (item_data it)
                   else ret_sv ()) (\<lambda>_.
          bind_sv (get_sv sv_selector) (\<lambda>s1.
          if length (fds s1) \<noteq> size then fail_sv Undefined
          else bind_sv (item_at (int i)) (\<lambda>it1.
               if int i \<in> slave_w s1 \<and> OP_WRITE AND item_interest it1 \<noteq> 0
               then call_handler handle_write Assertion_failed (item_handler it1) (env i False)
                      (item_fd it) (item_data it)
               else ret_sv ()))))))"

fun handle_items :: "(nat \<Rightarrow> bool \<Rightarrow> os) \<Rightarrow> nat list \<Rightarrow> unit srv" where
  "handle_items env [] = ret_sv ()"
| "handle_items env (i # l) = bind_sv (handle_item env i) (\<lambda>_. handle_items env l)"

definition handle_iteration :: "(nat \<Rightarrow> bool \<Rightarrow> os) \<Rightarrow> unit srv" where
  "handle_iteration env =
     bind_sv (get_sv (\<lambda>w. max_fd (sv_selector w))) (\<lambda>n. handle_items env [0..<nat (n + 1)])"

fun handle_jobs :: "(int \<Rightarrow> os) \<Rightarrow> int list \<Rightarrow> unit srv" where
  "handle_jobs env [] = ret_sv ()"
| "handle_jobs env (fd # l) =
     bind_sv (item_at fd) (\<lambda>it.
     bind_sv (if ITEM_USED it
              then call_handler handle_block Undefined (item_handler it) (env fd) (item_fd it) (item_data it)
              else ret_sv ()) (\<lambda>_. handle_jobs env l))"

definition handle_block_notifications :: "(int \<Rightarrow> os) \<Rightarrow> unit srv" where
  "handle_block_notifications env =
     bind_sv (get_sv (\<lambda>w. resolution_jobs (sv_selector w))) (\<lambda>jobs.
     bind_sv (handle_jobs env jobs) (\<lambda>_.
       modify_sv (\<lambda>w. w\<lparr>sv_selector := (sv_selector w)\<lparr>resolution_jobs := []\<rparr>\<rparr>)))"

text \<open>What \<open>pselect\<close> answers: the ready sets, or -1 and \<open>errno\<close>.\<close>

datatype pselect_answer = Ready "int set" "int set" | Failed int

definition EINTR :: int where "EINTR = 4"
definition EAGAIN :: int where "EAGAIN = 11"

text \<open>The search for bad descriptors of the branch EBADF only prints.\<close>

definition selector_select ::
    "pselect_answer \<Rightarrow> (nat \<Rightarrow> bool \<Rightarrow> os) \<Rightarrow> (int \<Rightarrow> os) \<Rightarrow> selector_status srv" where
  "selector_select answer env env_block =
     bind_sv (modify_sv (\<lambda>w. w\<lparr>sv_selector := (sv_selector w)\<lparr>slave_r := master_r (sv_selector w),
                                slave_w := master_w (sv_selector w)\<rparr>\<rparr>)) (\<lambda>_.
     case answer of
       Failed e \<Rightarrow>
         if e = EAGAIN \<or> e = EINTR
         then bind_sv (handle_block_notifications env_block) (\<lambda>_. ret_sv SELECTOR_SUCCESS)
         else ret_sv SELECTOR_IO
     | Ready r wr \<Rightarrow>
         bind_sv (modify_sv (\<lambda>w. w\<lparr>sv_selector := (sv_selector w)\<lparr>slave_r := r, slave_w := wr\<rparr>\<rparr>)) (\<lambda>_.
         bind_sv (handle_iteration env) (\<lambda>_.
         bind_sv (handle_block_notifications env_block) (\<lambda>_. ret_sv SELECTOR_SUCCESS))))"

section \<open>Start and stop\<close>

text \<open>The globals of \<open>main.c\<close>, with the users of the arguments and the administrators of the file.\<close>

definition DEFAULT_AUTH_METHOD :: byte where "DEFAULT_AUTH_METHOD = 0x02"

definition zero_metrics :: metrics where
  "zero_metrics = \<lparr>metrics_historic_connections = 0, metrics_concurrent_connections = 0,
     metrics_max_concurrent_connections = 0, metrics_historic_byte_transfer = 0,
     metrics_historic_auth_attempts = 0, metrics_historic_connections_attempts = 0, total_reads = 0,
     metrics_average_bytes_per_read = 0, total_writes = 0, metrics_average_bytes_per_write = 0\<rparr>"

definition zero_user :: user where "zero_user = \<lparr>user_name = None, user_pass = None\<rparr>"

definition user_array :: "user list \<Rightarrow> user list" where
  "user_array us = us @ replicate (MAX_USERS - length us) zero_user"

definition main_globals :: "user list \<Rightarrow> user list \<Rightarrow> byte \<Rightarrow> (handler_id, nat) fdselector \<Rightarrow> server" where
  "main_globals us ads dissectors s =
     \<lparr>sv_selector = s, sv_heap = Map.empty, sv_next = 0, sv_pool = [], sv_pool_size = 0, sv_mng_pool = [],
      sv_mng_pool_size = 0, auth_method = DEFAULT_AUTH_METHOD, password_dissectors = dissectors,
      sv_users = user_array us, nusers = length us, sv_admins = user_array ads, nadmins = length ads,
      sv_metrics = zero_metrics, sv_threads = [], sv_log = []\<rparr>"

text \<open>\<open>ss |= selector_register(...)\<close> over the master sockets.\<close>

fun register_masters :: "os \<Rightarrow> handler_id \<Rightarrow> int list \<Rightarrow> 32 word \<Rightarrow> 32 word srv" where
  "register_masters k h [] ss = ret_sv ss"
| "register_masters k h (fd # l) ss =
     bind_sv (register k fd h OP_READ None) (\<lambda>st. register_masters k h l (ss OR status_code st))"

text \<open>
  From the creation of the selector to the loop; \<open>None\<close> for a jump to \<open>finally\<close>. The sockets
  are listed in the order of registration, the IPv6 one first.
\<close>

definition main_start :: "os \<Rightarrow> user list \<Rightarrow> user list \<Rightarrow> byte \<Rightarrow> int list \<Rightarrow> int list \<Rightarrow> server option res" where
  "main_start k us ads dissectors socks mng =
     bind_res (selector_new (os_alloc k Alloc_selector) (os_alloc k Alloc_items) 1024) (\<lambda>x.
     case x of
       None \<Rightarrow> Inr None
     | Some s \<Rightarrow>
         bind_res (register_masters k Socks5_passive socks 0 (main_globals us ads dissectors s)) (\<lambda>(ss, w1).
         if ss \<noteq> 0 then Inr None
         else bind_res (register_masters k Mng_passive mng ss w1) (\<lambda>(ss, w2).
              if ss \<noteq> 0 then Inr None else Inr (Some w2))))"

text \<open>The label \<open>finally\<close>: the selector first, then the pools.\<close>

definition main_stop :: "server \<Rightarrow> server res" where
  "main_stop w =
     bind_res (selector_destroy handle_close (sv_selector w) w) (\<lambda>w1.
       Inr (socksv5_pool_destroy (mng_pool_destroy w1)))"

section \<open>Runs of the server\<close>

text \<open>
  A step is one successful turn of the loop of \<open>main\<close>, or a resolver thread that finishes
  between two turns (the mutex keeps it out of the notifications).
\<close>

inductive server_step :: "server \<Rightarrow> server \<Rightarrow> bool" where
  turn: "selector_select answer env env_block w = Inr (SELECTOR_SUCCESS, w') \<Longrightarrow> server_step w w'"
| thread: "(fd, i) \<in> set (sv_threads w) \<Longrightarrow>
     request_resolv_blocking \<lparr>key_fd = fd, key_data = i, key_os = k\<rparr> w = Inr ((), w') \<Longrightarrow> server_step w w'"

inductive server_run :: "server \<Rightarrow> server \<Rightarrow> bool" where
  start: "server_run w w"
| step: "server_run w w' \<Longrightarrow> server_step w' w'' \<Longrightarrow> server_run w w''"

inductive_cases server_step_cases: "server_step w w'"

end
