(* ===== verification/Frame.thy ===== *)
theory Frame
  imports Server
begin

text \<open>
  What every handler of the program leaves alone. A predicate on the server that survives a
  handful of primitive updates (the locale \<open>server_frame\<close>) survives every hook, every
  handler and every turn of the event loop, together with the soundness of the buffers of
  all connections. The interpretations are in \<open>Server_Invariant\<close>.
\<close>

section \<open>Operations on a sound buffer leave a sound buffer\<close>

text \<open>A buffer of a connection: sound, of the size that \<open>socks5_new\<close> gives it.\<close>

definition sound_buffer :: "buffer \<Rightarrow> bool" where
  "sound_buffer b \<longleftrightarrow> buffer_inv b \<and> buf_limit b = BUFFER_LENGTH"

lemma sound_buffer_inv: "sound_buffer b \<Longrightarrow> buffer_inv b"
  by (simp add: sound_buffer_def)

lemma buffer_put_inv:
  assumes "buffer_put b xs = Inr b'" and "sound_buffer b"
  shows "sound_buffer b'"
proof -
  from assms have "length xs \<le> buffer_free b"
    by (auto simp: sound_buffer_def buffer_put_def buffer_store_def buffer_write_adv_def buffer_inv_def buffer_free_def
        Let_def split: if_splits)
  then show ?thesis using buffer_put_spec [of b xs] assms by (auto simp: sound_buffer_def)
qed

lemma buffer_read_adv_inv:
  assumes "buffer_read_adv b n = Inr b'" and "sound_buffer b"
  shows "sound_buffer b'"
proof (cases "n > -1")
  case True
  have b: "buffer_inv b" using assms(2) by (rule sound_buffer_inv)
  have le: "int (buf_read b) + n \<le> int (buf_write b)"
    using assms(1) True by (auto simp: buffer_read_adv_def Let_def split: if_splits)
  have len: "length (buffer_content b) = buf_write b - buf_read b" using b by simp
  then have "n \<le> int (length (buffer_content b))" using le b by (simp add: buffer_inv_def)
  from buffer_read_adv_spec [OF b _ this] True assms show ?thesis by (auto simp: sound_buffer_def)
next
  case False
  then show ?thesis using assms by (auto simp: buffer_read_adv_def)
qed

lemma buffer_read_inv: "sound_buffer b \<Longrightarrow> buffer_read b = Inr (x, b') \<Longrightarrow> sound_buffer b'"
  by (auto simp: buffer_read_def bind_res_eq_Inr split: if_splits intro: buffer_read_adv_inv)

lemma recv_into_inv: "recv_into k f b = Inr (Some (xs, b')) \<Longrightarrow> sound_buffer b \<Longrightarrow> sound_buffer b'"
  by (auto simp: recv_into_def bind_res_eq_Inr split: option.splits if_splits intro: buffer_put_inv)

lemma request_marshall_inv: "request_marshall st b = Inr (n, b') \<Longrightarrow> sound_buffer b \<Longrightarrow> sound_buffer b'"
  by (auto simp: request_marshall_def bind_res_eq_Inr split: if_splits intro: buffer_put_inv)

lemma hello_marshal_inv: "hello_marshal b m v = Inr (n, b') \<Longrightarrow> sound_buffer b \<Longrightarrow> sound_buffer b'"
  by (auto simp: hello_marshal_def bind_res_eq_Inr split: if_splits intro: buffer_put_inv)

lemma hello_process_inv: "hello_process h v b = Inr (n, b') \<Longrightarrow> sound_buffer b \<Longrightarrow> sound_buffer b'"
  by (auto simp: hello_process_def bind_res_eq_Inr intro: hello_marshal_inv)

lemma auth_reply_inv: "auth_reply b r = Inr (n, b') \<Longrightarrow> sound_buffer b \<Longrightarrow> sound_buffer b'"
  by (auto simp: auth_reply_def bind_res_eq_Inr split: if_splits intro: buffer_put_inv)

lemma status_mng_marshal_inv: "status_mng_marshal b s = Inr b' \<Longrightarrow> sound_buffer b \<Longrightarrow> sound_buffer b'"
  by (auto simp: status_mng_marshal_def bind_res_eq_Inr split: if_splits intro: buffer_put_inv)

lemma uint_marshall_inv: "uint_mng_request_marshall b v = Inr b' \<Longrightarrow> sound_buffer b \<Longrightarrow> sound_buffer b'"
  by (auto simp: uint_mng_request_marshall_def bind_res_eq_Inr split: if_splits intro: buffer_put_inv)

lemma supported_marshall_inv:
  "supported_indexes_mng_request_marshall b = Inr b' \<Longrightarrow> sound_buffer b \<Longrightarrow> sound_buffer b'"
  by (auto simp: supported_indexes_mng_request_marshall_def bind_res_eq_Inr split: if_splits intro: buffer_put_inv)

lemma list_users_marshall_inv:
  "list_users_mng_request_marshall us n b = Inr b' \<Longrightarrow> sound_buffer b \<Longrightarrow> sound_buffer b'"
  by (auto simp: list_users_mng_request_marshall_def bind_res_eq_Inr split: if_splits intro: buffer_put_inv)

lemma process_mng_index_inv:
  assumes "process_mng_index w b i = Inr (st, b')" and "sound_buffer b"
  shows "sound_buffer b'"
proof (cases "mng_index_of i")
  case None
  then show ?thesis using assms by (simp add: process_mng_index_def)
next
  case (Some x)
  then show ?thesis
    using assms by (cases x) (auto simp: process_mng_index_def bind_res_eq_Inr
        dest: uint_marshall_inv supported_marshall_inv list_users_marshall_inv)
qed

lemma loops_keep_sound:
  "consume_from al b c = Inr (c', b') \<Longrightarrow> sound_buffer b \<Longrightarrow> sound_buffer b'"
  "hello_consume_from b h = Inr (h', b') \<Longrightarrow> sound_buffer b \<Longrightarrow> sound_buffer b'"
  "request_consume_from e b r = Inr (r', b') \<Longrightarrow> sound_buffer b \<Longrightarrow> sound_buffer b'"
  by (metis mp.loop_keeps buffer_read_inv sound_buffer_inv, metis hp.loop_keeps buffer_read_inv sound_buffer_inv,
    metis rp.loop_keeps buffer_read_inv sound_buffer_inv)

lemma sound_buffer_init [simp]: "sound_buffer (buffer_init BUFFER_LENGTH (replicate BUFFER_LENGTH 0))"
  by (simp add: sound_buffer_def)

lemma consume_inv: "consume al b p e = Inr (c, b') \<Longrightarrow> sound_buffer b \<Longrightarrow> sound_buffer b'"
  by (auto simp: consume_def bind_res_eq_Inr dest: loops_keep_sound)

lemma hello_consume_inv: "hello_consume b p c e = Inr (r, b') \<Longrightarrow> sound_buffer b \<Longrightarrow> sound_buffer b'"
  by (auto simp: hello_consume_def dest: loops_keep_sound)

lemma request_consume_inv: "request_consume b p e = Inr (r, b') \<Longrightarrow> sound_buffer b \<Longrightarrow> sound_buffer b'"
  by (auto simp: request_consume_def dest: loops_keep_sound)

lemma send_from_inv: "send_from k b w = Inr (Some b', w') \<Longrightarrow> sound_buffer b \<Longrightarrow> sound_buffer b'"
  by (auto simp: send_from_def sv_simps Let_def bind_res_eq_Inr split: if_splits intro: buffer_read_adv_inv)

lemmas buffer_inv_rules = buffer_put_inv buffer_read_adv_inv recv_into_inv request_marshall_inv
  hello_process_inv auth_reply_inv status_mng_marshal_inv process_mng_index_inv consume_inv
  hello_consume_inv request_consume_inv

section \<open>Sound connections\<close>

text \<open>The terminal states of the two servers.\<close>

definition terminals_ok :: "socks5 \<Rightarrow> bool" where
  "terminals_ok d \<longleftrightarrow>
     done_state d = (if isSocks d then socks_code DONE else mng_code MNG_DONE) \<and>
     error_state d = (if isSocks d then socks_code ERROR else mng_code MNG_ERROR)"

lemma terminals_updates [simp]:
  "terminals_ok (d\<lparr>client := c\<rparr>) = terminals_ok d" "terminals_ok (d\<lparr>orig := q\<rparr>) = terminals_ok d"
  "terminals_ok (d\<lparr>read_buffer := b\<rparr>) = terminals_ok d" "terminals_ok (d\<lparr>write_buffer := b\<rparr>) = terminals_ok d"
  "terminals_ok (d\<lparr>userIndex := i\<rparr>) = terminals_ok d" "terminals_ok (d\<lparr>authentication := a\<rparr>) = terminals_ok d"
  "terminals_ok (d\<lparr>references := r\<rparr>) = terminals_ok d" "terminals_ok (d\<lparr>conn_stm := m\<rparr>) = terminals_ok d"
  "terminals_ok (d\<lparr>conn_dissec := p\<rparr>) = terminals_ok d" "terminals_ok (d\<lparr>client_addr := ca\<rparr>) = terminals_ok d"
  "terminals_ok (d\<lparr>origin_addr := oa\<rparr>) = terminals_ok d" "terminals_ok (d\<lparr>origin_addr_len := n\<rparr>) = terminals_ok d"
  "terminals_ok (d\<lparr>origin_domain := od\<rparr>) = terminals_ok d" "terminals_ok (d\<lparr>origin_fd := fd\<rparr>) = terminals_ok d"
  "terminals_ok (d\<lparr>origin_resolution := l\<rparr>) = terminals_ok d"
  "terminals_ok (d\<lparr>origin_resolution_current := l\<rparr>) = terminals_ok d"
  by (simp_all add: terminals_ok_def)

definition conn_ok :: "socks5 \<Rightarrow> bool" where
  "conn_ok d \<longleftrightarrow> sound_buffer (read_buffer d) \<and> sound_buffer (write_buffer d) \<and> terminals_ok d"

definition heap_ok :: "server \<Rightarrow> bool" where
  "heap_ok w \<longleftrightarrow> (\<forall>i d. sv_heap w i = Some d \<longrightarrow> conn_ok d)"

lemma conn_ok_buffers: "conn_ok d \<Longrightarrow> sound_buffer (read_buffer d)" "conn_ok d \<Longrightarrow> sound_buffer (write_buffer d)"
  by (simp_all add: conn_ok_def)

lemma conn_ok_buffer_updates:
  "conn_ok (d\<lparr>read_buffer := b\<rparr>) \<longleftrightarrow> sound_buffer b \<and> sound_buffer (write_buffer d) \<and> terminals_ok d"
  "conn_ok (d\<lparr>write_buffer := b\<rparr>) \<longleftrightarrow> sound_buffer (read_buffer d) \<and> sound_buffer b \<and> terminals_ok d"
  by (auto simp: conn_ok_def)

lemma conn_ok_get_buffer: "conn_ok d \<Longrightarrow> sound_buffer (get_buffer n d)"
  by (cases n) (auto simp: conn_ok_def get_buffer_def)

lemma conn_ok_put_buffer: "conn_ok d \<Longrightarrow> sound_buffer b \<Longrightarrow> conn_ok (put_buffer n b d)"
  by (cases n) (auto simp: conn_ok_def put_buffer_def)

lemma conn_ok_copy_put [simp]: "conn_ok (copy_put s c d) = conn_ok d"
  by (cases s) (auto simp: conn_ok_def copy_put_def)

lemma heap_ok_upd: "heap_ok w \<Longrightarrow> conn_ok d \<Longrightarrow> heap_ok (w\<lparr>sv_heap := (sv_heap w)(i \<mapsto> d)\<rparr>)"
  by (auto simp: heap_ok_def)

lemma heap_ok_same: "sv_heap w' = sv_heap w \<Longrightarrow> heap_ok w \<Longrightarrow> heap_ok w'"
  by (simp add: heap_ok_def)

section \<open>Invariants of computations\<close>

definition keeps :: "(server \<Rightarrow> bool) \<Rightarrow> 'a srv \<Rightarrow> bool" where
  "keeps P m \<longleftrightarrow> (\<forall>w x w'. P w \<longrightarrow> m w = Inr (x, w') \<longrightarrow> P w')"

definition keeps_hook :: "(server \<Rightarrow> bool) \<Rightarrow> (server \<Rightarrow> server res) \<Rightarrow> bool" where
  "keeps_hook P f \<longleftrightarrow> (\<forall>w w'. P w \<longrightarrow> f w = Inr w' \<longrightarrow> P w')"

named_theorems keeps_intros \<open>the syntax-directed rules of keeps\<close>

lemma keepsD: "keeps P m \<Longrightarrow> P w \<Longrightarrow> m w = Inr (x, w') \<Longrightarrow> P w'"
  by (simp add: keeps_def)

lemma keeps_hookD: "keeps_hook P f \<Longrightarrow> P w \<Longrightarrow> f w = Inr w' \<Longrightarrow> P w'"
  by (simp add: keeps_hook_def)

lemma keeps_hookI:
  assumes "\<And>w. f w = bind_res (m w) (\<lambda>(x, w'). Inr w')" and "keeps P m"
  shows "keeps_hook P f"
  using assms by (auto simp: keeps_hook_def bind_res_eq_Inr dest: keepsD)

lemma keeps_hook_Inr: "keeps_hook P Inr"
  by (simp add: keeps_hook_def)

lemma keeps_ret [keeps_intros]: "keeps P (ret_sv x)"
  by (simp add: keeps_def sv_simps)

lemma keeps_fail [keeps_intros]: "keeps P (fail_sv e)" "keeps P (bind_sv (fail_sv e) f)"
  by (simp_all add: keeps_def sv_simps)

lemma keeps_bind:
  assumes "keeps P m" and "\<And>x. keeps P (f x)"
  shows "keeps P (bind_sv m f)"
  unfolding keeps_def
proof (intro allI impI)
  fix w y w'
  assume w: "P w" and "bind_sv m f w = Inr (y, w')"
  then obtain x w1 where m: "m w = Inr (x, w1)" and f: "f x w1 = Inr (y, w')"
    by (auto simp: bind_sv_def bind_res_eq_Inr)
  show "P w'" using keepsD [OF assms(2) keepsD [OF assms(1) w m] f] .
qed

lemma keeps_bind_res:
  assumes "\<And>w r m w1. P w \<Longrightarrow> h w = Inr (r, m, w1) \<Longrightarrow> P w1" and "\<And>r m. keeps P (g m r)"
  shows "keeps P (\<lambda>w. bind_res (h w) (\<lambda>(r, m, w1). g m r w1))"
  unfolding keeps_def
proof (intro allI impI)
  fix w x w'
  assume w: "P w" and "bind_res (h w) (\<lambda>(r, m, w1). g m r w1) = Inr (x, w')"
  then obtain r m w1 where h: "h w = Inr (r, m, w1)" and g: "g m r w1 = Inr (x, w')"
    by (auto simp: bind_res_eq_Inr)
  from keepsD [OF assms(2) assms(1) [OF w h] g] show "P w'" .
qed

lemma keeps_bind_assoc [keeps_intros]:
  "keeps P (bind_sv m (\<lambda>x. bind_sv (f x) g)) \<Longrightarrow> keeps P (bind_sv (bind_sv m f) g)"
  by (simp add: bind_sv_def bind_res_assoc split_def)

lemma keeps_bind_ret [keeps_intros]: "keeps P (f x) \<Longrightarrow> keeps P (bind_sv (ret_sv x) f)"
  by (simp add: bind_sv_def ret_sv_def)

lemma keeps_bind_lift [keeps_intros]:
  "(\<And>x. m = Inr x \<Longrightarrow> keeps P (f x)) \<Longrightarrow> keeps P (bind_sv (lift_sv m) f)"
  by (auto simp: keeps_def sv_simps bind_res_eq_Inr)

lemma keeps_lift [keeps_intros]: "keeps P (lift_sv m)"
  by (auto simp: keeps_def sv_simps bind_res_eq_Inr)

lemma keeps_get [keeps_intros]:
  assumes "\<And>w. P w \<Longrightarrow> keeps P (f (g w))"
  shows "keeps P (bind_sv (get_sv g) f)"
  unfolding keeps_def
proof (intro allI impI)
  fix w x w'
  assume w: "P w" and "bind_sv (get_sv g) f w = Inr (x, w')"
  then have "f (g w) w = Inr (x, w')" by (simp add: bind_sv_def get_sv_def)
  from keepsD [OF assms [OF w] w this] show "P w'" .
qed

lemma keeps_if [keeps_intros]:
  "(c \<Longrightarrow> keeps P a) \<Longrightarrow> (\<not> c \<Longrightarrow> keeps P b) \<Longrightarrow> keeps P (if c then a else b)"
  "(c \<Longrightarrow> keeps P (bind_sv a1 f)) \<Longrightarrow> (\<not> c \<Longrightarrow> keeps P (bind_sv b1 f)) \<Longrightarrow>
     keeps P (bind_sv (if c then a1 else b1) f)"
  by simp_all

lemma keeps_let [keeps_intros]:
  "keeps P (f a) \<Longrightarrow> keeps P (let x = a in f x)"
  "keeps P (bind_sv (g a) h) \<Longrightarrow> keeps P (bind_sv (let x = a in g x) h)"
  by simp_all

lemma keeps_prod [keeps_intros]:
  "(\<And>a b. x = (a, b) \<Longrightarrow> keeps P (f a b)) \<Longrightarrow> keeps P (case x of (a, b) \<Rightarrow> f a b)"
  "(\<And>a b. x = (a, b) \<Longrightarrow> keeps P (bind_sv (g a b) h)) \<Longrightarrow> keeps P (bind_sv (case x of (a, b) \<Rightarrow> g a b) h)"
  "(\<And>a b. x = (a, b) \<Longrightarrow> keeps P (e a b y)) \<Longrightarrow> keeps P ((case x of (a, b) \<Rightarrow> e a b) y)"
  by (cases x, simp)+

lemma keeps_option [keeps_intros]:
  "(x = None \<Longrightarrow> keeps P a) \<Longrightarrow> (\<And>y. x = Some y \<Longrightarrow> keeps P (f y)) \<Longrightarrow>
     keeps P (case x of None \<Rightarrow> a | Some y \<Rightarrow> f y)"
  "(x = None \<Longrightarrow> keeps P (bind_sv b h)) \<Longrightarrow> (\<And>y. x = Some y \<Longrightarrow> keeps P (bind_sv (g y) h)) \<Longrightarrow>
     keeps P (bind_sv (case x of None \<Rightarrow> b | Some y \<Rightarrow> g y) h)"
  by (cases x, simp_all)+

lemma keeps_list [keeps_intros]:
  "(x = [] \<Longrightarrow> keeps P a) \<Longrightarrow> (\<And>y l. x = y # l \<Longrightarrow> keeps P (f y l)) \<Longrightarrow>
     keeps P (case x of [] \<Rightarrow> a | y # l \<Rightarrow> f y l)"
  by (cases x) simp_all

lemma keeps_ptr [keeps_intros]:
  "(x = Null_ptr \<Longrightarrow> keeps P a) \<Longrightarrow> (x = Freed_ptr \<Longrightarrow> keeps P b) \<Longrightarrow> (\<And>y. x = Ptr y \<Longrightarrow> keeps P (f y)) \<Longrightarrow>
     keeps P (case x of Null_ptr \<Rightarrow> a | Freed_ptr \<Rightarrow> b | Ptr y \<Rightarrow> f y)"
  by (cases x) simp_all

lemma keeps_client [keeps_intros]:
  "keeps P a \<Longrightarrow> (\<And>y. x = Client_hello y \<Longrightarrow> keeps P (f1 y)) \<Longrightarrow> (\<And>y. x = Client_userpass y \<Longrightarrow> keeps P (f2 y)) \<Longrightarrow>
   (\<And>y. x = Client_request y \<Longrightarrow> keeps P (f3 y)) \<Longrightarrow> (\<And>y. x = Client_mng y \<Longrightarrow> keeps P (f4 y)) \<Longrightarrow>
   (\<And>y. keeps P (f5 y)) \<Longrightarrow>
     keeps P (case x of Client_zero \<Rightarrow> a | Client_hello y \<Rightarrow> f1 y | Client_userpass y \<Rightarrow> f2 y
       | Client_request y \<Rightarrow> f3 y | Client_mng y \<Rightarrow> f4 y | Client_copy y \<Rightarrow> f5 y)"
  by (cases x) simp_all

lemma keeps_orig [keeps_intros]:
  "keeps P a \<Longrightarrow> (\<And>y. x = Orig_conn y \<Longrightarrow> keeps P (f1 y)) \<Longrightarrow> (\<And>y. keeps P (f2 y)) \<Longrightarrow>
     keeps P (case x of Orig_zero \<Rightarrow> a | Orig_conn y \<Rightarrow> f1 y | Orig_copy y \<Rightarrow> f2 y)"
  by (cases x) simp_all

lemma keeps_parser_ptr [keeps_intros]:
  "keeps P a \<Longrightarrow> keeps P b \<Longrightarrow> (\<And>y. keeps P (f1 y)) \<Longrightarrow> (\<And>y. keeps P (f2 y)) \<Longrightarrow> keeps P c \<Longrightarrow>
     keeps P (case x of No_parser \<Rightarrow> a | Parser_bare \<Rightarrow> b | Parser_partial y \<Rightarrow> f1 y
       | Parser_ready y \<Rightarrow> f2 y | Parser_freed \<Rightarrow> c)"
  by (cases x) simp_all

lemma keeps_dest [keeps_intros]:
  "(\<And>y. keeps P (f1 y)) \<Longrightarrow> (\<And>y n. keeps P (f2 y n)) \<Longrightarrow>
     keeps P (case x of Dest_addr y \<Rightarrow> f1 y | Dest_fqdn y n \<Rightarrow> f2 y n)"
  by (cases x) simp_all

section \<open>The frame\<close>

lemma destroy_heap_ok:
  "socks5_destroy x w = Inr w' \<Longrightarrow> heap_ok w \<Longrightarrow> heap_ok w'"
  "mng_destroy x w = Inr w' \<Longrightarrow> heap_ok w \<Longrightarrow> heap_ok w'"
  by (auto simp: socks5_destroy_def mng_destroy_def socks5_free_def heap_ok_def conn_ok_def
      split: option.splits if_splits)

lemma unregister_heap_ok: "unregister fd w = Inr (st, w') \<Longrightarrow> heap_ok w \<Longrightarrow> heap_ok w'"
  by (auto dest!: unregister_cases dest: destroy_heap_ok simp: heap_ok_def)

lemma selector_heap_ok:
  "heap_ok w \<Longrightarrow> set_interest fd i w = Inr (st, w') \<Longrightarrow> heap_ok w'"
  "heap_ok w \<Longrightarrow> register k fd h i x w = Inr (st, w') \<Longrightarrow> heap_ok w'"
  by (auto simp: set_interest_def register_def bind_res_eq_Inr heap_ok_def)

lemma set_interest_key_eq: "set_interest_key k i = set_interest (key_fd k) i"
  by (simp add: fun_eq_iff set_interest_key_def set_interest_def selector_set_interest_key_eq)

text \<open>
  What the handlers of the two servers keep: a predicate on the server that every primitive
  operation keeps. The event loop and the resolver also write the ready sets and the list of
  finished resolutions: their frame is the extension \<open>server_frame\<close>.
\<close>

locale handlers_frame =
  fixes P :: "server \<Rightarrow> bool"
  assumes heap: "P w \<Longrightarrow> P (w\<lparr>sv_heap := h\<rparr>)"
    and metrics: "P w \<Longrightarrow> P (w\<lparr>sv_metrics := m\<rparr>)"
    and log: "P w \<Longrightarrow> P (w\<lparr>sv_log := l\<rparr>)"
    and threads: "P w \<Longrightarrow> P (w\<lparr>sv_threads := ts\<rparr>)"
    and settings: "P w \<Longrightarrow> P (w\<lparr>auth_method := b\<rparr>)" "P w \<Longrightarrow> P (w\<lparr>password_dissectors := b\<rparr>)"
    and interest: "P w \<Longrightarrow> set_interest fd i w = Inr (st, w') \<Longrightarrow> P w'"
    and registering: "P w \<Longrightarrow> register k fd hid i x w = Inr (st, w') \<Longrightarrow> P w'"
    and unregistering: "P w \<Longrightarrow> unregister fd w = Inr (st, w') \<Longrightarrow> P w'"
    and destroying: "P w \<Longrightarrow> socks5_destroy y w = Inr w' \<Longrightarrow> P w'"
      "P w \<Longrightarrow> mng_destroy y w = Inr w' \<Longrightarrow> P w'"
    and taking: "P w \<Longrightarrow> pool_take k w = Inr (y, w') \<Longrightarrow> P w'"
      "P w \<Longrightarrow> mng_pool_take k w = Inr (y, w') \<Longrightarrow> P w'"
    and adding: "P w \<Longrightarrow> addUser k u p w = Inr w' \<Longrightarrow> P w'"
    and deleting: "P w \<Longrightarrow> deleteUser u w = Inr w' \<Longrightarrow> P w'"
begin

definition inv :: "server \<Rightarrow> bool" where "inv w \<longleftrightarrow> P w \<and> heap_ok w"

lemma keeps_modify:
  assumes "\<And>w. inv w \<Longrightarrow> inv (f w)"
  shows "keeps inv (modify_sv f)" and "(\<And>x. keeps inv (g x)) \<Longrightarrow> keeps inv (bind_sv (modify_sv f) g)"
proof -
  show 1: "keeps inv (modify_sv f)" using assms by (simp add: keeps_def sv_simps)
  show "keeps inv (bind_sv (modify_sv f) g)" if "\<And>x. keeps inv (g x)" using keeps_bind [OF 1 that] .
qed

lemma inv_updates:
  "inv w \<Longrightarrow> inv (w\<lparr>sv_metrics := m\<rparr>)" "inv w \<Longrightarrow> inv (w\<lparr>sv_log := l\<rparr>)" "inv w \<Longrightarrow> inv (w\<lparr>sv_threads := ts\<rparr>)"
  "inv w \<Longrightarrow> inv (w\<lparr>auth_method := b\<rparr>)" "inv w \<Longrightarrow> inv (w\<lparr>password_dissectors := b\<rparr>)"
  "inv w \<Longrightarrow> conn_ok d \<Longrightarrow> inv (w\<lparr>sv_heap := (sv_heap w)(i \<mapsto> d)\<rparr>)"
  using metrics log threads settings heap
  by (auto simp: inv_def heap_ok_def)

lemma keeps_put_conn [keeps_intros]:
  "conn_ok d \<Longrightarrow> keeps inv (put_conn k d)"
  "conn_ok d \<Longrightarrow> (\<And>x. keeps inv (f x)) \<Longrightarrow> keeps inv (bind_sv (put_conn k d) f)"
  "conn_ok d \<Longrightarrow> keeps inv (put_heap i d)"
  "conn_ok d \<Longrightarrow> (\<And>x. keeps inv (f x)) \<Longrightarrow> keeps inv (bind_sv (put_heap i d) f)"
  unfolding put_conn_def put_heap_def by (rule keeps_modify; simp add: inv_updates)+

lemma keeps_get_conn [keeps_intros]:
  assumes "\<And>d. conn_ok d \<Longrightarrow> keeps inv (f d)"
  shows "keeps inv (bind_sv (get_conn k) f)"
  unfolding keeps_def
proof (intro allI impI)
  fix w x w'
  assume w: "inv w" and r: "bind_sv (get_conn k) f w = Inr (x, w')"
  then obtain d where d: "sv_heap w (key_data k) = Some d" and f: "f d w = Inr (x, w')"
    by (auto simp: bind_sv_def get_conn_def split: option.splits)
  have "conn_ok d" using w d by (auto simp: inv_def heap_ok_def)
  from keepsD [OF assms [OF this] w f] show "inv w'" .
qed

lemma keeps_emit [keeps_intros]:
  "keeps inv (emit e)" "(\<And>x. keeps inv (f x)) \<Longrightarrow> keeps inv (bind_sv (emit e) f)"
  unfolding emit_def by (rule keeps_modify; simp add: inv_updates)+

lemma keeps_close_fd [keeps_intros]:
  "keeps inv (close_fd e)" "(\<And>x. keeps inv (f x)) \<Longrightarrow> keeps inv (bind_sv (close_fd e) f)"
  unfolding close_fd_def by (intro keeps_intros)+

lemma keeps_metrics [keeps_intros]:
  "keeps inv (modify_metrics g)" "(\<And>x. keeps inv (f x)) \<Longrightarrow> keeps inv (bind_sv (modify_metrics g) f)"
  unfolding modify_metrics_def by (rule keeps_modify; simp add: inv_updates)+

lemma keeps_primitive:
  assumes "\<And>w x w'. P w \<Longrightarrow> m w = Inr (x, w') \<Longrightarrow> P w'"
    and "\<And>w x w'. heap_ok w \<Longrightarrow> m w = Inr (x, w') \<Longrightarrow> heap_ok w'"
  shows "keeps inv m" and "(\<And>x. keeps inv (f x)) \<Longrightarrow> keeps inv (bind_sv m f)"
proof -
  show 1: "keeps inv m" unfolding keeps_def inv_def using assms by blast
  show "keeps inv (bind_sv m f)" if "\<And>x. keeps inv (f x)" using keeps_bind [OF 1 that] .
qed

lemma keeps_interest [keeps_intros]:
  "keeps inv (set_interest fd i)" "(\<And>x. keeps inv (f x)) \<Longrightarrow> keeps inv (bind_sv (set_interest fd i) f)"
  by (rule keeps_primitive; blast intro: interest selector_heap_ok(1))+

lemma keeps_interest_key [keeps_intros]:
  "keeps inv (set_interest_key k i)"
  "(\<And>x. keeps inv (f x)) \<Longrightarrow> keeps inv (bind_sv (set_interest_key k i) f)"
  unfolding set_interest_key_eq by (rule keeps_interest, blast intro: keeps_interest)+

lemma keeps_register [keeps_intros]:
  "keeps inv (register o' fd h i x)"
  "(\<And>y. keeps inv (f y)) \<Longrightarrow> keeps inv (bind_sv (register o' fd h i x) f)"
  by (rule keeps_primitive; blast intro: registering selector_heap_ok(2))+

lemma keeps_unregister [keeps_intros]:
  "keeps inv (unregister fd)" "(\<And>y. keeps inv (f y)) \<Longrightarrow> keeps inv (bind_sv (unregister fd) f)"
  by (rule keeps_primitive; blast intro: unregistering unregister_heap_ok)+

lemma keeps_send [keeps_intros]:
  assumes b: "sound_buffer b" and f: "\<And>r. (\<And>b'. r = Some b' \<Longrightarrow> sound_buffer b') \<Longrightarrow> keeps inv (f r)"
  shows "keeps inv (bind_sv (send_from k b) f)"
  unfolding keeps_def
proof (intro allI impI)
  fix w x w'
  assume w: "inv w" and "bind_sv (send_from k b) f w = Inr (x, w')"
  then obtain r w1 where s: "send_from k b w = Inr (r, w1)" and fr: "f r w1 = Inr (x, w')"
    by (auto simp: bind_sv_def bind_res_eq_Inr)
  have "keeps inv (send_from k b)"
    unfolding send_from_def by (intro keeps_intros)
  from keepsD [OF this w s] have w1: "inv w1" .
  have "keeps inv (f r)" using send_from_inv [of k b w] s b by (intro f) blast
  from keepsD [OF this w1 fr] show "inv w'" .
qed

end

section \<open>The stages keep the frame\<close>

context handlers_frame
begin

lemma keeps_hello:
  "keeps inv (hello_read k)" "keeps inv (hello_write k)"
  "keeps_hook inv (hello_read_init st k)" "keeps_hook inv (hello_read_close st k)"
  "keeps_hook inv (hello_write_init st k)" "keeps_hook inv (hello_write_close st k)"
proof -
  show "keeps inv (hello_read k)"
    unfolding hello_read_def with_hello_def
    by (intro keeps_intros) (auto simp: conn_ok_def dest: buffer_inv_rules)
  show "keeps inv (hello_write k)"
    unfolding hello_write_def with_hello_def
    by (intro keeps_intros) (auto simp: conn_ok_def dest: buffer_inv_rules)
  show "keeps_hook inv (hello_read_init st k)"
    by (rule keeps_hookI [OF hello_read_init_def]) (intro keeps_intros; simp add: conn_ok_def)
  show "keeps_hook inv (hello_read_close st k)"
    by (rule keeps_hookI [OF hello_read_close_def], unfold with_hello_def)
      (intro keeps_intros; simp add: conn_ok_def)
  show "keeps_hook inv (hello_write_init st k)"
    by (rule keeps_hookI [OF hello_write_init_def], unfold with_hello_def) (intro keeps_intros)
  show "keeps_hook inv (hello_write_close st k)"
    by (simp add: keeps_hook_def hello_write_close_def)
qed

lemma keeps_auth:
  "keeps inv (auth_read k)" "keeps inv (auth_write k)"
  "keeps_hook inv (auth_read_init st k)" "keeps_hook inv (auth_read_close st k)"
  "keeps_hook inv (auth_write_init st k)" "keeps_hook inv (auth_write_close st k)"
proof -
  have "keeps inv (auth_process p k)" for p
    unfolding auth_process_def checkCredentials_def checkMngCredentials_def
    by (intro keeps_intros) (auto simp: conn_ok_def)
  note [keeps_intros] = this keeps_bind [OF this]
  show "keeps inv (auth_read k)"
    unfolding auth_read_def with_userpass_def with_parser_def
    by (intro keeps_intros) (auto simp: conn_ok_def dest: buffer_inv_rules)
  show "keeps inv (auth_write k)"
    unfolding auth_write_def with_userpass_def
    by (intro keeps_intros) (auto simp: conn_ok_def dest: buffer_inv_rules)
  show "keeps_hook inv (auth_read_init st k)"
    by (rule keeps_hookI [OF auth_read_init_def]) (intro keeps_intros; simp add: conn_ok_def)
  show "keeps_hook inv (auth_read_close st k)"
    by (rule keeps_hookI [OF auth_read_close_def], unfold with_userpass_def)
      (intro keeps_intros; simp add: conn_ok_def)
  show "keeps_hook inv (auth_write_init st k)"
    by (rule keeps_hookI [OF auth_write_init_def], unfold with_userpass_def) (intro keeps_intros)
  show "keeps_hook inv (auth_write_close st k)"
    by (simp add: keeps_hook_def auth_write_close_def)
qed

lemma keeps_error_handler [keeps_intros]:
  "keeps inv (error_handler st k)"
  "(\<And>x. keeps inv (f x)) \<Longrightarrow> keeps inv (bind_sv (error_handler st k) f)"
  "keeps inv (error_handler_to_client st k)"
  "(\<And>x. keeps inv (f x)) \<Longrightarrow> keeps inv (bind_sv (error_handler_to_client st k) f)"
proof -
  show 1: "keeps inv (error_handler st k)"
    unfolding error_handler_def
    by (intro keeps_intros) (auto simp: conn_ok_def dest: buffer_inv_rules)
  show 2: "keeps inv (error_handler_to_client st k)"
    unfolding error_handler_to_client_def
    by (intro keeps_intros) (auto simp: conn_ok_def dest: buffer_inv_rules)
  show "keeps inv (bind_sv (error_handler st k) f)" if "\<And>x. keeps inv (f x)" using keeps_bind [OF 1 that] .
  show "keeps inv (bind_sv (error_handler_to_client st k) f)" if "\<And>x. keeps inv (f x)"
    using keeps_bind [OF 2 that] .
qed

lemma keeps_put_request_st [keeps_intros]:
  "keeps inv (put_request_st k g)"
  "(\<And>x. keeps inv (f x)) \<Longrightarrow> keeps inv (bind_sv (put_request_st k g) f)"
proof -
  show 1: "keeps inv (put_request_st k g)"
    unfolding put_request_st_def with_request_st_def by (intro keeps_intros) (simp add: conn_ok_def)
  show "keeps inv (bind_sv (put_request_st k g) f)" if "\<And>x. keeps inv (f x)" using keeps_bind [OF 1 that] .
qed

lemma keeps_request_failure [keeps_intros]:
  "keeps inv (request_failure k)"
  "(\<And>x. keeps inv (f x)) \<Longrightarrow> keeps inv (bind_sv (request_failure k) f)"
proof -
  show 1: "keeps inv (request_failure k)" unfolding request_failure_def by (intro keeps_intros)
  show "keeps inv (bind_sv (request_failure k) f)" if "\<And>x. keeps inv (f x)" using keeps_bind [OF 1 that] .
qed

lemma keeps_request:
  "keeps inv (request_read k)" "keeps inv (request_write k)"
  "keeps inv (request_resolv_done k)"
  "keeps_hook inv (request_init st k)" "keeps_hook inv (request_close st k)"
proof -
  have "keeps inv (request_process k)"
    unfolding request_process_def with_request_st_def deref_def
    by (intro keeps_intros keeps_modify) (auto simp: conn_ok_def inv_updates)
  note [keeps_intros] = this keeps_bind [OF this]
  show "keeps inv (request_read k)"
    unfolding request_read_def with_request_st_def deref_def
    by (intro keeps_intros) (auto simp: conn_ok_def dest: buffer_inv_rules)
  show "keeps inv (request_write k)"
    unfolding request_write_def with_request_st_def
    by (intro keeps_intros) (auto simp: conn_ok_def)
  show "keeps inv (request_resolv_done k)"
    unfolding request_resolv_done_def by (intro keeps_intros) (auto simp: conn_ok_def Let_def)
  show "keeps_hook inv (request_init st k)"
    by (rule keeps_hookI [OF request_init_def]) (intro keeps_intros; simp add: conn_ok_def)
  show "keeps_hook inv (request_close st k)"
    by (rule keeps_hookI [OF request_close_def], unfold with_request_st_def deref_def)
      (intro keeps_intros; simp add: conn_ok_def)
qed

lemma keeps_put_orig [keeps_intros]:
  "keeps inv (put_orig_conn k g)" "(\<And>x. keeps inv (f x)) \<Longrightarrow> keeps inv (bind_sv (put_orig_conn k g) f)"
  "keeps inv (put_orig_status k st)" "(\<And>x. keeps inv (f x)) \<Longrightarrow> keeps inv (bind_sv (put_orig_status k st) f)"
  "keeps inv (add_reference k)" "(\<And>x. keeps inv (f x)) \<Longrightarrow> keeps inv (bind_sv (add_reference k) f)"
proof -
  show 1: "keeps inv (put_orig_conn k g)" for g
    unfolding put_orig_conn_def by (intro keeps_intros) (simp add: conn_ok_def)
  then show 2: "keeps inv (put_orig_status k st)" by (simp add: put_orig_status_def)
  show 3: "keeps inv (add_reference k)"
    unfolding add_reference_def by (intro keeps_intros) (simp add: conn_ok_def)
  fix f :: "unit \<Rightarrow> 'b srv"
  assume f: "\<And>x. keeps inv (f x)"
  show "keeps inv (bind_sv (put_orig_conn k g) f)" using keeps_bind [OF 1 f] .
  show "keeps inv (bind_sv (put_orig_status k st) f)" using keeps_bind [OF 2 f] .
  show "keeps inv (bind_sv (add_reference k) f)" using keeps_bind [OF 3 f] .
qed

lemma keeps_connecting:
  "keeps inv (connecting_write k)"
  "keeps_hook inv (connecting_init st k)" "keeps_hook inv (connecting_close st k)"
proof -
  have 1: "keeps inv (connection k)"
    unfolding connection_def connection_failure_def
    by (intro keeps_intros) (simp_all add: conn_ok_def)
  note [keeps_intros] = 1 keeps_bind [OF 1]
  have 2: "keeps inv (try_next_address k)"
    unfolding try_next_address_def by (intro keeps_intros) (simp add: conn_ok_def)
  have 3: "keeps inv (log_access k)" unfolding log_access_def by (intro keeps_intros)
  note [keeps_intros] = 2 keeps_bind [OF 2] keeps_bind [OF 3]
  have 4: "keeps inv (connecting_success k)"
    unfolding connecting_success_def
    by (intro keeps_intros) (auto simp: conn_ok_def dest: buffer_inv_rules)
  have 5: "keeps inv (refuse k st)" for st unfolding refuse_def by (intro keeps_intros)
  note [keeps_intros] = 4 5
  show "keeps inv (connecting_write k)"
    unfolding connecting_write_def by (intro keeps_intros) (simp_all add: conn_ok_def)
  show "keeps_hook inv (connecting_init st k)"
    by (rule keeps_hookI [OF connecting_init_def], unfold connecting_failure_def connection_failure_def)
      (intro keeps_intros; simp add: conn_ok_def)
  show "keeps_hook inv (connecting_close st k)"
    by (rule keeps_hookI [OF connecting_close_def], unfold with_request_st_def)
      (intro keeps_intros; simp add: conn_ok_def)
qed

lemma keeps_copy:
  "keeps inv (copy_read k)" "keeps inv (copy_write k)" "keeps_hook inv (copy_init st k)"
proof -
  have 1: "keeps inv (copy_compute_interests k sd)" for sd
    unfolding copy_compute_interests_def by (intro keeps_intros)
  have 2: "keeps inv (drop_interest_at k sd i)" for sd i
    unfolding drop_interest_at_def by (intro keeps_intros) simp
  have 3: "keeps inv (sniff k xs)" for xs
    unfolding sniff_def by (intro keeps_intros keeps_modify) (simp_all add: conn_ok_def inv_updates)
  note [keeps_intros] = 1 keeps_bind [OF 1] 2 keeps_bind [OF 2] keeps_bind [OF 3]
  have 4: "keeps inv (copy_finish k sd)" for sd unfolding copy_finish_def by (intro keeps_intros)
  note [keeps_intros] = 4
  show "keeps inv (copy_read k)"
    unfolding copy_read_def
    by (intro keeps_intros) (auto intro!: conn_ok_put_buffer dest: recv_into_inv conn_ok_get_buffer)
  show "keeps inv (copy_write k)"
    unfolding copy_write_def by (intro keeps_intros) (auto intro!: conn_ok_put_buffer dest: conn_ok_get_buffer)
  show "keeps_hook inv (copy_init st k)"
    by (rule keeps_hookI [OF copy_init_def]) (intro keeps_intros; simp add: conn_ok_def)
qed

lemma inv_users:
  "inv w \<Longrightarrow> addUser k u p w = Inr w' \<Longrightarrow> inv w'"
  "inv w \<Longrightarrow> deleteUser u w = Inr w' \<Longrightarrow> inv w'"
proof -
  assume w: "inv w"
  show "inv w'" if "addUser k u p w = Inr w'"
  proof -
    have "sv_heap w' = sv_heap w" using that by (auto simp: addUser_def split: if_splits option.splits)
    then show ?thesis using w adding [OF _ that] by (simp add: inv_def heap_ok_def)
  qed
  show "inv w'" if "deleteUser u w = Inr w'"
  proof -
    have "sv_heap w' = sv_heap w"
      using that by (auto simp: deleteUser_def bind_res_eq_Inr split: if_splits option.splits)
    then show ?thesis using w deleting [OF _ that] by (simp add: inv_def heap_ok_def)
  qed
qed

lemma inv_mng_params: "process_mng_params k p i w = Inr (st, w') \<Longrightarrow> inv w \<Longrightarrow> inv w'"
  by (auto simp: process_mng_params_def Let_def bind_res_eq_Inr disableAuth_def disablePasswordDissectors_def
      inv_updates split: option.splits mng_request_indexes.splits if_splits dest: inv_users)

lemma keeps_mng:
  "keeps inv (mng_request_index_read k)" "keeps inv (mng_request_read k)" "keeps inv (mng_request_write k)"
  "keeps_hook inv (mng_request_index_init st k)" "keeps_hook inv (mng_request_index_close st k)"
  "keeps_hook inv (mng_request_init st k)" "keeps_hook inv (mng_request_close st k)"
  "keeps_hook inv (mng_request_write_init st k)" "keeps_hook inv (mng_request_write_close st k)"
proof -
  have 1: "keeps inv (put_mng k g)" for g
    unfolding put_mng_def with_mng_def by (intro keeps_intros) (simp add: conn_ok_def)
  have 2: "keeps inv (mng_reply_status_write k)"
    unfolding mng_reply_status_write_def with_mng_def
    by (intro keeps_intros) (auto simp: conn_ok_def dest: buffer_inv_rules)
  note [keeps_intros] = keeps_bind [OF 1] 2
  have 3: "keeps inv (mng_request_index_done k p e)" for p e
    unfolding mng_request_index_done_def
    by (intro keeps_intros) (auto simp: conn_ok_def dest: buffer_inv_rules)
  have 4: "keeps inv (process_mng_params_request k p i)" for p i
  proof -
    have *: "keeps inv (bind_sv (get_conn k) (\<lambda>d. bind_sv (lift_sv (status_mng_marshal (write_buffer d) status))
        (\<lambda>wb. put_conn k (d\<lparr>write_buffer := wb\<rparr>))))" for status
      by (intro keeps_intros) (auto simp: conn_ok_def dest: buffer_inv_rules)
    show ?thesis
      unfolding keeps_def
    proof (intro allI impI)
      fix w x w'
      assume w: "inv w" and "process_mng_params_request k p i w = Inr (x, w')"
      then obtain st w1 where p: "process_mng_params (key_os k) p i w = Inr (st, w1)"
        and r: "bind_sv (get_conn k) (\<lambda>d. bind_sv (lift_sv (status_mng_marshal (write_buffer d) st))
          (\<lambda>wb. put_conn k (d\<lparr>write_buffer := wb\<rparr>))) w1 = Inr (x, w')"
        by (auto simp: process_mng_params_request_def bind_res_eq_Inr)
      from keepsD [OF * inv_mng_params [OF p w] r] show "inv w'" .
    qed
  qed
  note [keeps_intros] = 3 keeps_bind [OF 4]
  show "keeps inv (mng_request_index_read k)"
    unfolding mng_request_index_read_def with_mng_def with_parser_def
    by (intro keeps_intros) (auto simp: conn_ok_def dest: buffer_inv_rules)
  show "keeps inv (mng_request_read k)"
    unfolding mng_request_read_def with_mng_def with_parser_def
    by (intro keeps_intros) (auto simp: conn_ok_def dest: buffer_inv_rules)
  show "keeps inv (mng_request_write k)"
    unfolding mng_request_write_def with_mng_def by (intro keeps_intros) (auto simp: conn_ok_def)
  show "keeps_hook inv (mng_request_index_init st k)"
    by (rule keeps_hookI [OF mng_request_index_init_def]) (intro keeps_intros; simp add: conn_ok_def)
  show c: "keeps_hook inv (mng_request_close st k)"
    by (rule keeps_hookI [OF mng_request_close_def], unfold with_mng_def)
      (intro keeps_intros; simp add: conn_ok_def)
  then show "keeps_hook inv (mng_request_index_close st k)" by (simp add: mng_request_index_close_def)
  show "keeps_hook inv (mng_request_init st k)"
    by (rule keeps_hookI [OF mng_request_init_def], unfold with_mng_def)
      (intro keeps_intros; simp add: conn_ok_def)
  show "keeps_hook inv (mng_request_write_init st k)"
    by (rule keeps_hookI [OF mng_request_write_init_def], unfold with_mng_def) (intro keeps_intros)
  show "keeps_hook inv (mng_request_write_close st k)"
    by (simp add: keeps_hook_def mng_request_write_close_def)
qed

end

section \<open>State machines, servers and the event loop keep the frame\<close>

definition table_keeps :: "(server \<Rightarrow> bool) \<Rightarrow> (skey, server) state_table \<Rightarrow> bool" where
  "table_keeps P tbl \<longleftrightarrow> (\<forall>s \<in> set tbl. \<forall>k.
     (\<forall>f st. on_arrival s = Some f \<or> on_departure s = Some f \<longrightarrow> keeps_hook P (f st k)) \<and>
     (\<forall>f. on_read_ready s = Some f \<or> on_write_ready s = Some f \<or> on_block_ready s = Some f \<longrightarrow> keeps P (f k)))"

lemma table_keeps_hook:
  assumes "table_keeps P tbl" and "state_at tbl i = Inr s" and "h = on_arrival \<or> h = on_departure"
    and "run_hook (h s) st k w = Inr w'" and "P w"
  shows "P w'"
proof -
  have "s \<in> set tbl" using assms(2) by (auto simp: state_at_def split: if_splits)
  with assms show ?thesis by (fastforce simp: table_keeps_def run_hook_def keeps_hook_def split: option.splits)
qed

lemma stm_dispatch_keeps:
  assumes t: "table_keeps P tbl" and r: "ready = on_read_ready \<or> ready = on_write_ready \<or> ready = on_block_ready"
    and d: "stm_dispatch ready tbl m k w = Inr (ret, m', w')" and w: "P w"
  shows "P w'"
proof -
  from d obtain m1 w1 c s f w2 where hf: "handle_first tbl m k w = Inr (m1, w1)"
    and s: "state_at tbl c = Inr s" and f: "ready s = Some f" "f k w1 = Inr (ret, w2)"
    and j: "jump tbl m1 ret k w2 = Inr (m', w')"
    by (auto simp: stm_dispatch_def bind_res_eq_Inr split: option.splits)
  have w1: "P w1"
  proof (cases "stm_current m")
    case None
    then obtain s0 where "state_at tbl (stm_initial m) = Inr s0"
        "run_hook (on_arrival s0) (sd_state s0) k w = Inr w1"
      using hf by (auto simp: handle_first_def bind_res_eq_Inr)
    with table_keeps_hook [OF t _ disjI1 [OF refl] _ w] show ?thesis by blast
  next
    case (Some x)
    then show ?thesis using hf w by (simp add: handle_first_def)
  qed
  have "s \<in> set tbl" using s by (auto simp: state_at_def split: if_splits)
  then have "keeps P (f k)" using t r f(1) by (auto simp: table_keeps_def)
  then have w2: "P w2" using f(2) w1 by (auto dest: keepsD)
  have leave: "P v" if "(case stm_current m1 of None \<Rightarrow> Inr w2 | Some c \<Rightarrow> bind_res (state_at tbl c) (\<lambda>s.
      run_hook (on_departure s) (sd_state s) k w2)) = Inr v" for v
    using that w2 table_keeps_hook [OF t _ disjI2 [OF refl] _ w2]
    by (auto simp: bind_res_eq_Inr split: option.splits)
  show ?thesis
  proof (cases "stm_current m1 = Some ret")
    case True
    then show ?thesis using j w2 by (auto simp: jump_def split: if_splits)
  next
    case False
    then obtain v s2 where v: "P v" and s2: "state_at tbl ret = Inr s2"
        "run_hook (on_arrival s2) (sd_state s2) k v = Inr w'"
      using j leave by (auto simp: jump_def bind_res_eq_Inr split: if_splits)
    from table_keeps_hook [OF t s2(1) disjI1 [OF refl] s2(2) v] show ?thesis .
  qed
qed

context handlers_frame
begin

lemma tables_keep: "table_keeps inv client_statbl" "table_keeps inv client_mng"
  unfolding table_keeps_def client_statbl_def client_mng_def bare_state_def
  using keeps_hello keeps_auth keeps_request keeps_connecting keeps_copy keeps_mng
  by auto

lemma keeps_run_machine:
  assumes "table_keeps inv tbl"
    and "handler = stm_handler_read \<or> handler = stm_handler_write \<or> handler = stm_handler_block"
  shows "keeps inv (run_machine handler tbl k)"
proof -
  obtain ready where ready: "ready = on_read_ready \<or> ready = on_write_ready \<or> ready = on_block_ready"
      "handler = stm_dispatch ready"
    using assms(2) by (auto simp: stm_handler_defs)
  have h: "inv w1" if "inv w" "handler tbl m k w = Inr (ret, m', w1)" for w m ret m' w1
    using stm_dispatch_keeps [OF assms(1) ready(1) _ that(1)] that(2) ready(2) by blast
  have g: "keeps inv (bind_sv (get_conn k) (\<lambda>d1. bind_sv (put_conn k (d1\<lparr>conn_stm := m\<rparr>)) (\<lambda>_. ret_sv ret)))"
    for m ret
    by (intro keeps_intros) (simp add: conn_ok_def)
  show ?thesis
    unfolding run_machine_def by (rule keeps_get_conn, rule keeps_bind_res [OF h g])
qed

lemma keeps_close_fds: "keeps inv (close_fds l)"
  by (induction l) (auto intro!: keeps_intros)

lemma keeps_connection_handlers:
  "keeps inv (socksv5_read k)" "keeps inv (socksv5_write k)" "keeps inv (socksv5_block k)"
  "keeps inv (mng_read k)" "keeps inv (mng_write k)" "keeps inv (mng_block k)"
proof -
  note run = keeps_run_machine [OF tables_keep(1)] keeps_run_machine [OF tables_keep(2)]
  have 1: "keeps inv (socks_finish k st)" "keeps inv (mng_finish k st)" for st
    unfolding socks_finish_def socksv5_done_def mng_finish_def mng_done_def
    by (intro keeps_intros keeps_close_fds)+
  show "keeps inv (socksv5_read k)" "keeps inv (socksv5_write k)" "keeps inv (socksv5_block k)"
    "keeps inv (mng_read k)" "keeps inv (mng_write k)" "keeps inv (mng_block k)"
    unfolding socksv5_read_def socksv5_write_def socksv5_block_def mng_read_def mng_write_def mng_block_def
    by (rule keeps_bind [OF run(1) 1(1)] keeps_bind [OF run(2) 1(2)], simp)+
qed

lemma keeps_destroy [keeps_intros]:
  "keeps inv (\<lambda>w. bind_res (socks5_destroy x w) (\<lambda>w'. Inr ((), w')))"
  "keeps inv (\<lambda>w. bind_res (mng_destroy x w) (\<lambda>w'. Inr ((), w')))"
  by (auto simp: keeps_def inv_def bind_res_eq_Inr dest: destroying destroy_heap_ok)

lemma keeps_accept:
  "keeps inv (socksv5_passive_accept k fd)" "keeps inv (mng_passive_accept k fd)"
proof -
  have same: "sv_heap w' = sv_heap w" if "pool_take k w = Inr (x, w') \<or> mng_pool_take k w = Inr (x, w')" for w x w'
    using that by (auto simp: pool_take_def mng_pool_take_def split: list.splits if_splits)
  have take: "keeps inv (pool_take k)" "keeps inv (mng_pool_take k)"
    by (rule keeps_primitive; blast intro: taking heap_ok_same same)+
  have addr: "keeps inv (set_client_addr i a)" for i a
    by (auto simp: keeps_def set_client_addr_def put_heap_def modify_sv_def inv_def heap_ok_def conn_ok_def
        intro: heap split: option.splits)
  note [keeps_intros] = keeps_bind [OF take(1)] keeps_bind [OF take(2)] keeps_bind [OF addr]
  have new: "keeps inv (socks5_new k c)" "keeps inv (mng_new k c)" for c
    unfolding socks5_new_def mng_new_def
    by (intro keeps_intros; simp add: conn_ok_def terminals_ok_def zero_socks5_def)+
  note [keeps_intros] = keeps_bind [OF new(1)] keeps_bind [OF new(2)]
  show "keeps inv (socksv5_passive_accept k fd)" "keeps inv (mng_passive_accept k fd)"
    unfolding socksv5_passive_accept_def mng_passive_accept_def by (intro keeps_intros)+
qed

lemma keeps_call_handler:
  assumes "tbl = handle_read \<or> tbl = handle_write \<or> tbl = handle_block"
  shows "keeps inv (call_handler tbl e h k fd x)"
proof -
  have a: "keeps inv (attached f k fd x)" if "\<And>k. keeps inv (f k)" for f
    unfolding attached_def using that by (intro keeps_intros)
  have "keeps inv (f k fd x)" if "tbl t = Some f" for t f
    using that assms by (cases t) (auto simp: a keeps_connection_handlers keeps_accept)
  then show ?thesis unfolding call_handler_def by (intro keeps_intros) auto
qed

lemma keeps_item_at: "keeps inv (item_at i)"
  by (simp add: keeps_def item_at_def)

lemma keeps_handle_item: "keeps inv (handle_item env i)"
  unfolding handle_item_def
  by (intro keeps_intros keeps_bind [OF keeps_item_at] keeps_bind [OF keeps_call_handler] keeps_call_handler) simp_all

end

section \<open>The event loop and the resolver keep the frame\<close>

locale server_frame = handlers_frame +
  assumes jobs: "P w \<Longrightarrow> P (w\<lparr>sv_selector := (sv_selector w)\<lparr>resolution_jobs := js\<rparr>\<rparr>)"
    and slaves: "P w \<Longrightarrow> P (w\<lparr>sv_selector := (sv_selector w)\<lparr>slave_r := r, slave_w := q\<rparr>\<rparr>)"
begin

lemma inv_loop_updates:
  "inv w \<Longrightarrow> inv (w\<lparr>sv_selector := (sv_selector w)\<lparr>resolution_jobs := js\<rparr>\<rparr>)"
  "inv w \<Longrightarrow> inv (w\<lparr>sv_selector := (sv_selector w)\<lparr>slave_r := r, slave_w := q\<rparr>\<rparr>)"
  using jobs slaves by (auto simp: inv_def heap_ok_def)

lemma keeps_notify [keeps_intros]:
  "(\<And>x. keeps inv (f x)) \<Longrightarrow> keeps inv (bind_sv (selector_notify k fd) f)"
proof (rule keeps_bind)
  show "keeps inv (selector_notify k fd)"
    by (auto simp: keeps_def selector_notify_def selector_notify_block_def Let_def inv_loop_updates)
qed

lemma keeps_resolver: "keeps inv (request_resolv_blocking k)"
  unfolding request_resolv_blocking_def with_request_st_def deref_def
  by (intro keeps_intros keeps_modify) (auto simp: conn_ok_def inv_updates)

lemma keeps_select: "keeps inv (selector_select answer env env_block)"
proof -
  note [keeps_intros] = keeps_bind [OF keeps_item_at] keeps_bind [OF keeps_call_handler] keeps_call_handler
  have items: "keeps inv (handle_items env l)" for l
    by (induction l) (auto intro: keeps_intros keeps_bind keeps_handle_item)
  have jobs: "keeps inv (handle_jobs env_block l)" for l
    by (induction l) (auto intro!: keeps_intros)
  have iter: "keeps inv (handle_iteration env)"
    unfolding handle_iteration_def by (intro keeps_intros items)
  have block: "keeps inv (handle_block_notifications env_block)"
    unfolding handle_block_notifications_def
    by (intro keeps_intros keeps_bind [OF jobs] keeps_modify inv_loop_updates)
  show ?thesis
    unfolding selector_select_def
    by (cases answer) (auto intro!: keeps_intros keeps_modify keeps_bind [OF iter] keeps_bind [OF block] inv_loop_updates)
qed

lemma step_keeps: "server_step w w' \<Longrightarrow> inv w \<Longrightarrow> inv w'"
  by (induction rule: server_step.induct) (auto dest: keepsD [OF keeps_select] keepsD [OF keeps_resolver])

lemma run_keeps: "server_run w w' \<Longrightarrow> inv w \<Longrightarrow> inv w'"
  by (induction rule: server_run.induct) (auto dest: step_keeps)

end

end
