(* ===== verification/Mng_Users.thy ===== *)
theory Mng_Users
  imports Mng_Request
begin

unbundle bit_operations_syntax

text \<open>
  What the management requests do (\<open>src/src/Etapas/mng_request.c\<close>): the table of users as a
  list, the requests that change it, the contents of the responses.
\<close>

lemmas eval_mng = bind_sv_def lift_sv_def ret_sv_def fail_sv_def get_sv_def put_conn_def modify_sv_def

section \<open>The table of users\<close>

definition user_table :: "server \<Rightarrow> user list" where
  "user_table w = take (nusers w) (sv_users w)"

text \<open>The list without the first entry of this name.\<close>

fun remove_user :: "byte list \<Rightarrow> user list \<Rightarrow> user list" where
  "remove_user u [] = []"
| "remove_user u (x # xs) = (if map_option cstr (user_name x) = Some (cstr u) then xs else x # remove_user u xs)"

definition named :: "byte list \<Rightarrow> user list \<Rightarrow> bool" where
  "named u xs \<longleftrightarrow> (\<exists>x \<in> set xs. map_option cstr (user_name x) = Some (cstr u))"

lemma named_simps [simp]:
  "\<not> named u []"
  "named u (x # xs) \<longleftrightarrow> map_option cstr (user_name x) = Some (cstr u) \<or> named u xs"
  by (auto simp: named_def)

lemma length_remove_user: "length (remove_user u xs) = (if named u xs then length xs - 1 else length xs)"
  by (induction xs) (auto simp: Suc_diff_Suc named_def dest: length_pos_if_in_set)

lemma set_remove_user: "set (remove_user u xs) \<subseteq> set xs"
  by (induction xs) auto

lemma remove_user_other:
  "x \<in> set xs \<Longrightarrow> map_option cstr (user_name x) \<noteq> Some (cstr u) \<Longrightarrow> x \<in> set (remove_user u xs)"
  by (induction xs) auto

lemma remove_user_distinct:
  "distinct (map (\<lambda>x. map_option cstr (user_name x)) xs) \<Longrightarrow> \<not> named u (remove_user u xs)"
proof (induction xs)
  case Nil
  then show ?case by simp
next
  case (Cons x xs)
  show ?case
  proof (cases "map_option cstr (user_name x) = Some (cstr u)")
    case True
    then have "map_option cstr (user_name y) \<noteq> Some (cstr u)" if "y \<in> set xs" for y
      using Cons.prems imageI [OF that, of "\<lambda>x. map_option cstr (user_name x)"]
      unfolding list.map distinct.simps set_map by metis
    then show ?thesis using True by (auto simp: named_def simp del: map_option_eq_Some)
  next
    case False
    then show ?thesis using Cons by (simp del: map_option_eq_Some)
  qed
qed

text \<open>Once an entry is deleted, the rest of the loop moves the tail down by one.\<close>

lemma delete_loop_shift:
  "1 \<le> i \<Longrightarrow> i \<le> n \<Longrightarrow> n \<le> length us \<Longrightarrow>
     \<exists>us'. delete_loop i n True us u = Inr (True, us') \<and> length us' = length us \<and>
       take (n - 1) us' = take (i - 1) us @ drop i (take n us)"
proof (induction "n - i" arbitrary: i us)
  case 0
  then have "i = n" by simp
  then show ?case by (simp add: delete_loop.simps)
next
  case (Suc k)
  then have lt: "i < n" "i < length us" by linarith+
  let ?us = "us[i - 1 := us ! i]"
  obtain us' where us': "delete_loop (Suc i) n True ?us u = Inr (True, us')" "length us' = length ?us"
      "take (n - 1) us' = take (Suc i - 1) ?us @ drop (Suc i) (take n ?us)"
    using Suc.hyps(1) [of "Suc i" ?us] Suc.hyps(2) Suc.prems lt by force
  have "delete_loop i n True us u = Inr (True, us')"
    using us'(1) lt by (subst delete_loop.simps) simp
  moreover have "take i ?us = take (i - 1) us @ [us ! i]"
    using Suc.prems(1) lt take_Suc_conv_app_nth [of "i - 1" ?us] by simp
  moreover have "drop (Suc i) (take n ?us) = drop (Suc i) (take n us)" by (simp add: drop_take)
  moreover have "drop i (take n us) = us ! i # drop (Suc i) (take n us)"
    using lt by (simp add: Cons_nth_drop_Suc [symmetric])
  ultimately show ?case using us'(2,3) by simp
qed

lemma delete_loop_spec:
  "i \<le> n \<Longrightarrow> n \<le> length us \<Longrightarrow> \<forall>x \<in> set (drop i (take n us)). user_name x \<noteq> None \<Longrightarrow>
     \<exists>us'. delete_loop i n False us u = Inr (named u (drop i (take n us)), us') \<and> length us' = length us \<and>
       take (if named u (drop i (take n us)) then n - 1 else n) us' =
         take i us @ remove_user u (drop i (take n us))"
proof (induction "n - i" arbitrary: i)
  case 0
  then have "i = n" by simp
  then show ?case by (simp add: delete_loop.simps)
next
  case (Suc k)
  then have lt: "i < n" "i < length us" by linarith+
  have split: "drop i (take n us) = us ! i # drop (Suc i) (take n us)"
    using lt by (simp add: Cons_nth_drop_Suc [symmetric])
  then obtain m where m: "user_name (us ! i) = Some m" using Suc.prems(3) by auto
  show ?case
  proof (cases "cstr u = cstr m")
    case True
    let ?us = "us[i := \<lparr>user_name = None, user_pass = None\<rparr>]"
    obtain us' where us': "delete_loop (Suc i) n True ?us u = Inr (True, us')" "length us' = length ?us"
        "take (n - 1) us' = take (Suc i - 1) ?us @ drop (Suc i) (take n ?us)"
      using delete_loop_shift [of "Suc i" n ?us u] lt Suc.prems(2) by auto
    have "delete_loop i n False us u = Inr (True, us')"
      using us'(1) lt m True by (subst delete_loop.simps) simp
    moreover have "drop (Suc i) (take n ?us) = drop (Suc i) (take n us)" by (simp add: drop_take)
    ultimately show ?thesis using us'(2,3) split m True by auto
  next
    case False
    have "delete_loop i n False us u = delete_loop (Suc i) n False us u"
      using lt m False by (subst delete_loop.simps) simp
    moreover have "take (Suc i) us = take i us @ [us ! i]" using lt by (simp add: take_Suc_conv_app_nth)
    ultimately show ?thesis
      using Suc.hyps(1) [of "Suc i"] Suc.hyps(2) Suc.prems lt split m False by auto
  qed
qed

lemma deleteUser_table:
  assumes "nusers w \<le> length (sv_users w)" and "users_wf (user_table w)"
  shows "\<exists>w'. deleteUser (Some u) w = Inr w' \<and> user_table w' = remove_user u (user_table w) \<and>
    nusers w' = length (user_table w') \<and> length (sv_users w') = length (sv_users w) \<and>
    w' = w\<lparr>sv_users := sv_users w', nusers := nusers w'\<rparr>"
proof -
  obtain us' where us': "delete_loop 0 (nusers w) False (sv_users w) u = Inr (named u (user_table w), us')"
      "length us' = length (sv_users w)"
      "take (if named u (user_table w) then nusers w - 1 else nusers w) us' = remove_user u (user_table w)"
    using delete_loop_spec [of 0 "nusers w" "sv_users w" u] assms by (auto simp: users_wf_def user_table_def)
  have len: "length (user_table w) = nusers w" using assms(1) by (simp add: user_table_def)
  let ?n = "if named u (user_table w) then nusers w - 1 else nusers w"
  have "deleteUser (Some u) w = Inr (w\<lparr>sv_users := us', nusers := ?n\<rparr>)"
    using us'(1) by (simp add: deleteUser_def)
  then show ?thesis using us' len by (auto simp: user_table_def length_remove_user)
qed

definition new_user :: "byte list \<Rightarrow> byte list \<Rightarrow> user" where
  "new_user u p = \<lparr>user_name = Some (cstr u), user_pass = Some (cstr p)\<rparr>"

lemma addUser_table:
  assumes "length (sv_users w) = MAX_USERS" and "nusers w < MAX_USERS"
    and "os_alloc k (Alloc_result 0)" and "os_alloc k (Alloc_result 1)"
  shows "\<exists>w'. addUser k (Some u) (Some p) w = Inr w' \<and> user_table w' = user_table w @ [new_user u p] \<and>
    nusers w' = nusers w + 1 \<and> w' = w\<lparr>sv_users := sv_users w', nusers := nusers w'\<rparr>"
  using assms by (auto simp: addUser_def user_table_def new_user_def take_Suc_conv_app_nth)

lemma addUser_full: "MAX_USERS \<le> nusers w \<Longrightarrow> addUser k u p w = Inr w"
  by (simp add: addUser_def)

text \<open>The invariant of the table, and that both operations keep it.\<close>

definition users_ok :: "server \<Rightarrow> bool" where
  "users_ok w \<longleftrightarrow> length (sv_users w) = MAX_USERS \<and> nusers w \<le> MAX_USERS \<and> users_wf (user_table w)"

lemma users_ok_add:
  assumes "users_ok w" and "addUser k u p w = Inr w'"
  shows "users_ok w'"
proof (cases "nusers w < MAX_USERS \<and> u \<noteq> None \<and> p \<noteq> None \<and> os_alloc k (Alloc_result 0) \<and> os_alloc k (Alloc_result 1)")
  case True
  then obtain v q where vq: "u = Some v" "p = Some q" by auto
  obtain w1 where w1: "addUser k u p w = Inr w1" "user_table w1 = user_table w @ [new_user v q]"
      "nusers w1 = nusers w + 1" "length (sv_users w1) = length (sv_users w)"
    using addUser_table [of w k v q] assms(1) True by (auto simp: users_ok_def vq addUser_def)
  then have "w1 = w'" using assms(2) by simp
  then show ?thesis
    using w1 assms(1) True by (auto simp: users_ok_def users_wf_def new_user_def)
next
  case False
  then show ?thesis
    using assms by (auto simp: addUser_def split: if_splits option.splits)
qed

lemma users_ok_delete:
  assumes "users_ok w" and "deleteUser u w = Inr w'"
  shows "users_ok w'"
proof (cases u)
  case None
  then show ?thesis using assms by (auto simp: deleteUser_def split: if_splits)
next
  case (Some v)
  obtain w1 where w1: "deleteUser u w = Inr w1" "user_table w1 = remove_user v (user_table w)"
      "nusers w1 = length (user_table w1)" "length (sv_users w1) = length (sv_users w)"
    using deleteUser_table [of w v] assms(1) by (auto simp: Some users_ok_def)
  moreover have "length (user_table w) \<le> MAX_USERS" using assms(1) by (simp add: users_ok_def user_table_def)
  moreover have "length (user_table w1) \<le> length (user_table w)"
    by (simp add: w1(2) length_remove_user)
  ultimately show ?thesis
    using assms set_remove_user [of v "user_table w"] by (auto simp: users_ok_def users_wf_def)
qed

section \<open>Responses\<close>

lemma uint_marshall_content:
  assumes "buffer_inv b"
  shows "buffer_free b < 5 \<Longrightarrow> uint_mng_request_marshall b v = Inr b"
    and "5 \<le> buffer_free b \<Longrightarrow> \<exists>b'. uint_mng_request_marshall b v = Inr b' \<and> buffer_inv b' \<and>
      buffer_content b' = buffer_content b @ 0 # uint32_bytes v"
  using assms buffer_put_spec [OF assms, of "0 # uint32_bytes v"]
  by (auto simp: uint_mng_request_marshall_def uint32_bytes_def)

lemma supported_marshall_content:
  assumes "buffer_inv b"
  shows "buffer_free b < 18 \<Longrightarrow> supported_indexes_mng_request_marshall b = Inr b"
    and "18 \<le> buffer_free b \<Longrightarrow> \<exists>b'. supported_indexes_mng_request_marshall b = Inr b' \<and> buffer_inv b' \<and>
      buffer_content b' = buffer_content b @ 0 # of_nat (length mng_indexes) # map of_nat [0..<length mng_indexes]"
proof -
  have l: "0 # of_nat (length mng_indexes) # map of_nat [0..<length mng_indexes] =
      [0x00, 0x0E, 0x00, 0x01, 0x02, 0x03, 0x04, 0x05, 0x06, 0x07, 0x08, 0x09, 0x0A, 0x0B, 0x0C, 0x0D :: byte]"
    by (simp add: mng_indexes_def upt_rec)
  show "buffer_free b < 18 \<Longrightarrow> supported_indexes_mng_request_marshall b = Inr b"
    using assms by (simp add: supported_indexes_mng_request_marshall_def)
  show "\<exists>b'. supported_indexes_mng_request_marshall b = Inr b' \<and> buffer_inv b' \<and>
      buffer_content b' = buffer_content b @ 0 # of_nat (length mng_indexes) # map of_nat [0..<length mng_indexes]"
    if "18 \<le> buffer_free b"
    using assms that buffer_put_spec [OF assms, of "[0x00, 0x0E, 0x00, 0x01, 0x02, 0x03, 0x04, 0x05, 0x06, 0x07,
        0x08, 0x09, 0x0A, 0x0B, 0x0C, 0x0D]"]
    unfolding l by (auto simp: supported_indexes_mng_request_marshall_def)
qed

lemma status_marshal_content:
  assumes "buffer_inv b"
  shows "buffer_free b < 1 \<Longrightarrow> status_mng_marshal b st = Inr b"
    and "1 \<le> buffer_free b \<Longrightarrow> \<exists>b'. status_mng_marshal b st = Inr b' \<and> buffer_inv b' \<and>
      buffer_content b' = buffer_content b @ [mng_reply_code st]"
  using assms buffer_put_spec [OF assms, of "[mng_reply_code st]"]
  by (auto simp: status_mng_marshal_def)

text \<open>The list of users: the check only counts the names.\<close>

lemma users_fit_sum: "sum_list ls \<le> unat a \<Longrightarrow> users_fit ls a"
proof (induction ls arbitrary: a)
  case Nil
  then show ?case by simp
next
  case (Cons l ls)
  have "l < 2 ^ 64" using Cons.prems unsigned_less [of a, where ?'a = nat] by simp
  then have u: "unat (of_nat l :: 64 word) = l" by (simp add: unat_of_nat)
  then have "of_nat l \<le> a" using Cons.prems by (simp add: word_le_nat_alt)
  moreover have "unat (a - of_nat l) = unat a - l" using calculation u by (simp add: unat_sub)
  ultimately show ?case using Cons.IH [of "a - of_nat l"] Cons.prems by (simp add: linorder_not_less)
qed

definition table_names :: "server \<Rightarrow> byte list list" where
  "table_names w = map (\<lambda>x. cstr (the (user_name x))) (user_table w)"

lemma user_names_table: "users_wf us \<Longrightarrow> user_names us = Inr (map (\<lambda>x. cstr (the (user_name x))) us)"
  by (induction us) (auto simp: users_wf_def)

lemma length_encode_names: "length (encode_names ns) = length ns + sum_list (map length ns)"
  by (induction ns) (auto simp: encode_names_def)

lemma list_users_content:
  assumes "buffer_inv b" and "users_ok w" and "2 \<le> buffer_free b" and "buffer_free b < 2 ^ 64"
    and "2 + length (encode_names (table_names w)) \<le> buffer_free b"
  shows "\<exists>b'. list_users_mng_request_marshall (sv_users w) (nusers w) b = Inr b' \<and> buffer_inv b' \<and>
    buffer_content b' = buffer_content b @ 0 # of_nat (nusers w) # encode_names (table_names w)"
proof -
  have names: "user_names (take (nusers w) (sv_users w)) = Inr (table_names w)"
    using user_names_table [of "user_table w"] assms(2) by (simp add: users_ok_def table_names_def user_table_def)
  have "unat (of_nat (buffer_free b) - 2 :: 64 word) = buffer_free b - 2"
    using assms(3,4) by (simp add: unat_sub word_le_nat_alt unat_of_nat)
  then have "users_fit (map length (table_names w)) (of_nat (buffer_free b) - 2)"
    using users_fit_sum [of "map length (table_names w)"] assms(5) by (simp add: length_encode_names)
  with names show ?thesis
    using assms(1,2,5) buffer_put_spec [OF assms(1), of "0 # of_nat (nusers w) # encode_names (table_names w)"]
    by (auto simp: list_users_mng_request_marshall_def users_ok_def)
qed

text \<open>
  Between the two conditions the response is written past the end of the buffer: the names
  fit, the names with their length bytes do not.
\<close>

lemma list_users_overflow:
  assumes "buffer_inv b" and "users_ok w" and "2 \<le> buffer_free b" and "buffer_free b < 2 ^ 64"
    and "2 + sum_list (map length (table_names w)) \<le> buffer_free b"
    and "buffer_free b < 2 + length (encode_names (table_names w))"
  shows "buf_limit b = length (buf_data b) \<Longrightarrow>
    list_users_mng_request_marshall (sv_users w) (nusers w) b = Inl Undefined"
proof -
  have names: "user_names (take (nusers w) (sv_users w)) = Inr (table_names w)"
    using user_names_table [of "user_table w"] assms(2) by (simp add: users_ok_def table_names_def user_table_def)
  have "unat (of_nat (buffer_free b) - 2 :: 64 word) = buffer_free b - 2"
    using assms(3,4) by (simp add: unat_sub word_le_nat_alt unat_of_nat)
  then have fit: "users_fit (map length (table_names w)) (of_nat (buffer_free b) - 2)"
    using users_fit_sum [of "map length (table_names w)"] assms(5) by simp
  assume "buf_limit b = length (buf_data b)"
  then have "\<not> buf_write b + length (0 # of_nat (nusers w) # encode_names (table_names w)) \<le> length (buf_data b)"
    using assms(1,6) by (simp add: buffer_free_def buffer_inv_def)
  with names fit show ?thesis
    using assms(1,2) by (simp add: list_users_mng_request_marshall_def users_ok_def buffer_put_def buffer_store_def
        buffer_write_ptr_def buffer_inv_def buffer_free_def)
qed

text \<open>Reading a list of names back.\<close>

fun decode_names :: "nat \<Rightarrow> byte list \<Rightarrow> (byte list list \<times> byte list) option" where
  "decode_names 0 bs = Some ([], bs)"
| "decode_names (Suc n) [] = None"
| "decode_names (Suc n) (l # bs) =
     (if unat l \<le> length bs
      then map_option (\<lambda>(ns, rest). (take (unat l) bs # ns, rest)) (decode_names n (drop (unat l) bs))
      else None)"

lemma decode_encode_names:
  "\<forall>n \<in> set ns. length n < 256 \<Longrightarrow> decode_names (length ns) (encode_names ns @ rest) = Some (ns, rest)"
  by (induction ns) (auto simp: encode_names_def)

section \<open>Index requests\<close>

definition index_parser :: "byte list \<Rightarrow> parser" where
  "index_parser m = \<lparr>p_index = 0, p_size = 1, p_current = long_read,
     p_states = [substate_one_byte (Some m) (Some checkIndex)], p_error = 0\<rparr>"

lemma index_feed:
  assumes "length m = 2"
  shows "\<exists>q. feed_bytes (consume_feed al) consume_stop (v # ys) (index_parser m, st, e) =
      Inr ((q, if mng_index_of v = None then error_read else done_read, if mng_index_of v = None then True else e), ys) \<and>
    substate_at q 0 = Inr \<lparr>ps_state = long_read, ps_result = Some [v, 0], ps_check = Some checkIndex,
      ps_size = 1, ps_remaining = 0\<rparr>"
proof -
  have "feed_bytes (consume_feed al) consume_stop ([v] @ ys) (index_parser m, st, e) =
     bind_res (field_end (index_parser m) (substate_one_byte (Some m) (Some checkIndex)) [v, 0])
       (consume_rest al ys e)"
    by (subst consume_long_read [where s = "substate_one_byte (Some m) (Some checkIndex)" and m = m])
      (use assms in \<open>simp_all add: index_parser_def substate_at_def substate_one_byte_def\<close>)
  then show ?thesis
    by (cases "mng_index_of v")
      (simp_all add: parser_eval index_parser_def substate_one_byte_def checkIndex_def)
qed

text \<open>The bytes of the immediate responses; the other indexes wait for parameters.\<close>

definition index_response :: "server \<Rightarrow> mng_request_indexes \<Rightarrow> byte list option" where
  "index_response w i =
     (let m = sv_metrics w; number = (\<lambda>v :: 64 word. Some (0 # uint32_bytes (ucast v)))
      in case i of
           mng_request_index_supported_indexes \<Rightarrow>
             Some (0 # of_nat (length mng_indexes) # map of_nat [0..<length mng_indexes])
         | mng_request_index_list_users \<Rightarrow> Some (0 # of_nat (nusers w) # encode_names (table_names w))
         | mng_request_index_historic_connections \<Rightarrow> number (metrics_historic_connections m)
         | mng_request_index_concurrent_connections \<Rightarrow> number (metrics_concurrent_connections m)
         | mng_request_index_max_concurrent_connections \<Rightarrow> number (metrics_max_concurrent_connections m)
         | mng_request_index_historic_bytes_transferred \<Rightarrow> number (metrics_historic_byte_transfer m)
         | mng_request_index_historic_auth_attempts \<Rightarrow> number (metrics_historic_auth_attempts m)
         | mng_request_index_historic_connections_attempts \<Rightarrow> number (metrics_historic_connections_attempts m)
         | mng_request_index_average_bytes_per_read \<Rightarrow> number (metrics_average_bytes_per_read m)
         | mng_request_index_average_bytes_per_write \<Rightarrow> number (metrics_average_bytes_per_write m)
         | _ \<Rightarrow> None)"

lemma process_mng_index_ok:
  assumes "buffer_inv b" and "users_ok w" and "mng_index_of v = Some i" and "index_response w i = Some r"
    and "length r \<le> buffer_free b" and "buffer_free b < 2 ^ 64" and "18 \<le> buffer_free b"
  shows "\<exists>b'. process_mng_index w b v = Inr (MNG_REQUEST_WRITE, b') \<and> buffer_inv b' \<and>
    buffer_content b' = buffer_content b @ r"
proof -
  define resp where "resp = (\<lambda>m xs. \<exists>b'. bind_res m (\<lambda>b. Inr (MNG_REQUEST_WRITE, b)) = Inr (MNG_REQUEST_WRITE, b') \<and>
      buffer_inv b' \<and> buffer_content b' = buffer_content b @ (xs :: byte list))"
  have wrap: "resp m xs" if "\<exists>b'. m = Inr b' \<and> buffer_inv b' \<and> buffer_content b' = buffer_content b @ xs" for m xs
    using that by (auto simp: resp_def)
  have number: "resp (uint_mng_request_marshall b x) (0 # uint32_bytes x)"
    if "length (0 # uint32_bytes x) \<le> buffer_free b" for x
    using wrap [OF uint_marshall_content(2) [OF assms(1), of x]] that by (simp add: uint32_bytes_def)
  have supported: "resp (supported_indexes_mng_request_marshall b)
      (0 # of_nat (length mng_indexes) # map of_nat [0..<length mng_indexes])" if "18 \<le> buffer_free b"
    using wrap [OF supported_marshall_content(2) [OF assms(1) that]] .
  have users: "resp (list_users_mng_request_marshall (sv_users w) (nusers w) b)
      (0 # of_nat (nusers w) # encode_names (table_names w))" if "2 + length (encode_names (table_names w)) \<le> buffer_free b"
    using wrap [OF list_users_content [OF assms(1,2) _ assms(6) that]] that by simp
  have "\<exists>m. process_mng_index w b v = bind_res m (\<lambda>b. Inr (MNG_REQUEST_WRITE, b)) \<and> resp m r"
    using assms(3-5,7) number supported users
    by (cases i) (auto simp: process_mng_index_def index_response_def Let_def)
  then show ?thesis by (auto simp: resp_def)
qed

lemma process_mng_index_params:
  assumes "mng_index_of v = Some i" and "index_response w i = None"
  shows "process_mng_index w b v = Inr (MNG_REQUEST_READ, b)"
  using assms by (cases i) (simp_all add: process_mng_index_def index_response_def Let_def)

lemma recv_one:
  assumes "buffer_inv b" and "os_recv (key_os k) (key_fd k) 1 = Some [v]" and "1 \<le> buffer_free b"
  shows "\<exists>b'. recv_into k (\<lambda>n. 1) b = Inr (Some ([v], b')) \<and> buffer_inv b' \<and>
     buffer_content b' = buffer_content b @ [v]"
  using buffer_put_spec [OF assms(1), of "[v]"] assms by (auto simp: recv_into_def)

lemma process_mng_index_depends:
  "sv_users w' = sv_users w \<Longrightarrow> nusers w' = nusers w \<Longrightarrow> sv_metrics w' = sv_metrics w \<Longrightarrow>
     process_mng_index w' b v = process_mng_index w b v"
  by (simp only: process_mng_index_def)

text \<open>One byte arrives on a fresh connection: what the index does to the connection.\<close>

definition index_outcome :: "server \<Rightarrow> byte \<Rightarrow> mng_state \<times> byte list" where
  "index_outcome w v =
     (case mng_index_of v of
        None \<Rightarrow> (MNG_REQUEST_WRITE, [mng_reply_code mng_status_index_not_supported])
      | Some i \<Rightarrow> (case index_response w i of
                    Some r \<Rightarrow> (MNG_REQUEST_WRITE, r)
                  | None \<Rightarrow> (MNG_REQUEST_READ, [])))"

lemma mng_index_request:
  assumes "at_conn k w d" and "client d = Client_mng m" and "ms_parser m = Parser_ready (index_parser blk)"
    and "ms_status m = mng_status_succeeded" and "length blk = 2"
    and "os_recv (key_os k) (key_fd k) 1 = Some [v]" and "buffer_content (read_buffer d) = []"
    and "1 \<le> buffer_free (read_buffer d)" and "registered w (key_fd k) it" and "users_ok w"
    and "index_outcome w v = (st, r)" and "length r \<le> buffer_free (write_buffer d)"
    and "buffer_free (write_buffer d) < 2 ^ 64" and "18 \<le> buffer_free (write_buffer d)"
  shows "\<exists>w' d' m' q rb wb. mng_request_index_read k w = Inr (mng_code st, w') \<and> at_conn k w' d' \<and>
    d' = d\<lparr>client := Client_mng m', read_buffer := rb, write_buffer := wb\<rparr> \<and> ms_parser m' = Parser_ready q \<and>
    (mng_index_of v \<noteq> None \<longrightarrow> ms_index m' = v) \<and> buffer_content rb = [] \<and>
    buffer_content wb = buffer_content (write_buffer d) @ r \<and> sv_metrics w' = sv_metrics w \<and>
    moved k w ((sel_lookup (sv_selector w))(key_fd k \<mapsto> it\<lparr>item_interest :=
         if st = MNG_REQUEST_READ then OP_READ else OP_WRITE\<rparr>)) d' [] w'"
proof -
  have bufs: "buffer_inv (read_buffer d)" "buffer_inv (write_buffer d)"
    using assms(1) by (auto simp: at_conn_def)
  obtain rb where rb: "recv_into k (\<lambda>n. 1) (read_buffer d) = Inr (Some ([v], rb))" "buffer_inv rb"
      "buffer_content rb = [v]"
    using recv_one [OF bufs(1) assms(6,8)] assms(7) by auto
  let ?al = "os_block (key_os k)" and ?bad = "mng_index_of v = None"
  obtain q where q: "feed_bytes (consume_feed ?al) consume_stop [v] (index_parser blk, long_read, False) =
      Inr ((q, if ?bad then error_read else done_read, ?bad), [])"
      "substate_at q 0 = Inr \<lparr>ps_state = long_read, ps_result = Some [v, 0], ps_check = Some checkIndex,
         ps_size = 1, ps_remaining = 0\<rparr>"
    using index_feed [OF assms(5), of ?al v "[]" long_read False] by (auto split: if_splits)
  obtain rb' where rb': "consume ?al rb (index_parser blk) False =
      Inr ((q, if ?bad then error_read else done_read, ?bad), rb')" "buffer_inv rb'" "buffer_content rb' = []"
    using mp.loop_Inr [OF rb(2), of ?al "(index_parser blk, long_read, False)"] q(1) rb(3)
    by (auto simp: consume_def index_parser_def substate_at_def substate_one_byte_def)
  let ?m = "m\<lparr>ms_parser := Parser_ready q\<rparr>"
  let ?d = "d\<lparr>client := Client_mng ?m, read_buffer := rb'\<rparr>"
  let ?w = "w\<lparr>sv_heap := (sv_heap w)(key_data k \<mapsto> ?d)\<rparr>"
  have conn: "get_conn k w = Inr (d, w)" "get_conn k ?w = Inr (?d, ?w)"
    using assms(1) by (simp_all add: get_conn_def at_conn_def)
  have read: "mng_request_index_read k w = mng_request_index_done k q ?bad ?w"
    using conn(1) bufs(1) assms(2-4,8) rb(1) rb'(1)
    by (simp add: mng_request_index_read_def with_mng_def with_parser_def eval_mng is_done_def)
  have reg: "registered (w\<lparr>sv_heap := h\<rparr>) (key_fd k) it" for h using assms(9) by simp
  show ?thesis
  proof (cases "mng_index_of v")
    case None
    then have out: "st = MNG_REQUEST_WRITE" "r = [2]" using assms(11) by (simp_all add: index_outcome_def)
    let ?d1 = "d\<lparr>read_buffer := rb', client := Client_mng (?m\<lparr>ms_status := mng_status_index_not_supported\<rparr>)\<rparr>"
    obtain wb where wb: "status_mng_marshal (write_buffer d) mng_status_index_not_supported = Inr wb" "buffer_inv wb"
        "buffer_content wb = buffer_content (write_buffer d) @ [2]"
      using status_marshal_content(2) [OF bufs(2), of mng_status_index_not_supported] assms(12) out by auto
    let ?h = "(sv_heap w)(key_data k \<mapsto> ?d1\<lparr>write_buffer := wb\<rparr>)"
    obtain s where s: "set_interest_key k OP_WRITE (w\<lparr>sv_heap := ?h\<rparr>) =
          Inr (SELECTOR_SUCCESS, w\<lparr>sv_heap := ?h, sv_selector := s\<rparr>)" "sel_full s"
        "sel_lookup s = (sel_lookup (sv_selector w))(key_fd k \<mapsto> it\<lparr>item_interest := OP_WRITE\<rparr>)"
      using set_interest_key_ok [OF reg [of ?h], of OP_WRITE] by auto
    have "mng_request_index_done k q ?bad ?w = Inr (mng_code MNG_REQUEST_WRITE, w\<lparr>sv_heap := ?h, sv_selector := s\<rparr>)"
      using None conn(2) wb(1) s(1)
      by (simp add: mng_request_index_done_def put_mng_def mng_reply_status_write_def with_mng_def eval_mng
          get_conn_def del: OP_values)
    then show ?thesis
      unfolding read using out wb s(2,3) rb'(2,3) None
      by (intro exI [of _ "w\<lparr>sv_heap := ?h, sv_selector := s\<rparr>"] exI [of _ "?d1\<lparr>write_buffer := wb\<rparr>"]
          exI [of _ "?m\<lparr>ms_status := mng_status_index_not_supported\<rparr>"] exI [of _ q] exI [of _ rb'] exI [of _ wb])
        (simp add: at_conn_def moved_def same_rest_def)
  next
    case (Some i)
    obtain wb where wb: "process_mng_index w (write_buffer d) v = Inr (st, wb)" "buffer_inv wb"
        "buffer_content wb = buffer_content (write_buffer d) @ r" and st: "st = MNG_REQUEST_WRITE \<or> st = MNG_REQUEST_READ"
      using process_mng_index_ok [OF bufs(2) assms(10) Some _ _ assms(13,14)] assms(11,12)
        process_mng_index_params [OF Some] bufs(2)
      by (auto simp: index_outcome_def Some split: option.splits)
    have proc: "process_mng_index (w\<lparr>sv_heap := h\<rparr>) (write_buffer d) v = Inr (st, wb)" for h
      using wb(1) process_mng_index_depends [where w' = "w\<lparr>sv_heap := h\<rparr>" and w = w] by simp
    let ?i = "if st = MNG_REQUEST_READ then OP_READ else OP_WRITE"
    let ?h = "(sv_heap w)(key_data k \<mapsto>
      d\<lparr>read_buffer := rb', client := Client_mng (?m\<lparr>ms_index := v\<rparr>), write_buffer := wb\<rparr>)"
    obtain s where s: "set_interest_key k ?i (w\<lparr>sv_heap := ?h\<rparr>) =
          Inr (SELECTOR_SUCCESS, w\<lparr>sv_heap := ?h, sv_selector := s\<rparr>)" "sel_full s"
        "sel_lookup s = (sel_lookup (sv_selector w))(key_fd k \<mapsto> it\<lparr>item_interest := ?i\<rparr>)"
      using set_interest_key_ok [OF reg [of ?h], of ?i] by auto
    have "mng_request_index_done k q ?bad ?w = Inr (mng_code st, w\<lparr>sv_heap := ?h, sv_selector := s\<rparr>)"
      using Some conn(2) q(2) proc s(1) st
      by (auto simp: mng_request_index_done_def put_mng_def with_mng_def eval_mng
          get_conn_def simp del: OP_values)
    then show ?thesis
      unfolding read using wb s(2,3) rb'(2,3) Some
      by (intro exI [of _ "w\<lparr>sv_heap := ?h, sv_selector := s\<rparr>"] exI [of _ "d\<lparr>read_buffer := rb',
            client := Client_mng (?m\<lparr>ms_index := v\<rparr>), write_buffer := wb\<rparr>"]
          exI [of _ "?m\<lparr>ms_index := v\<rparr>"] exI [of _ q] exI [of _ rb'] exI [of _ wb])
        (auto simp: at_conn_def moved_def same_rest_def)
  qed
qed

section \<open>Parameter requests\<close>

definition add_user_message :: "byte list \<Rightarrow> byte list \<Rightarrow> byte list" where
  "add_user_message u p = of_nat (length u) # u @ of_nat (length p) # p"

definition add_user_parser :: parser where
  "add_user_parser = \<lparr>p_index = 0, p_size = 4, p_current = read_N,
     p_states = [substate_read_N, substate_long_read, substate_read_N, substate_long_read], p_error = 0\<rparr>"

lemma add_user_feed:
  assumes "allocator_ok al" and "length u < 256" and "length p < 256"
    and "al 1 (length u + 1) \<noteq> None" and "al 3 (length p + 1) \<noteq> None"
  shows "\<exists>q. feed_bytes (consume_feed al) consume_stop (add_user_message u p @ rest)
        (add_user_parser, read_N, e) = Inr ((q, done_read, e), rest) \<and>
      substate_at q 1 = Inr (substate_long_read\<lparr>ps_result := Some (u @ [0]), ps_size := of_nat (length u)\<rparr>) \<and>
      substate_at q 3 = Inr (substate_long_read\<lparr>ps_result := Some (p @ [0]), ps_size := of_nat (length p)\<rparr>)"
proof -
  define s1 where "s1 = substate_long_read\<lparr>ps_result := Some (u @ [0]), ps_size := of_nat (length u)\<rparr>"
  define s3 where "s3 = substate_long_read\<lparr>ps_result := Some (p @ [0]), ps_size := of_nat (length p)\<rparr>"
  define q2 where "q2 = \<lparr>p_index = 2, p_size = 4, p_current = read_N, p_states =
      [substate_read_N, s1, substate_read_N, substate_long_read], p_error = 0\<rparr>"
  define q4 where "q4 = \<lparr>p_index = 4, p_size = 4, p_current = done_read, p_states =
      [substate_read_N, s1, substate_read_N, s3], p_error = 0\<rparr>"
  let ?f = "feed_bytes (consume_feed al) consume_stop"
  have n1: "next_state (field_stored add_user_parser 1 u) = Inr q2"
    by (simp add: parser_eval add_user_parser_def q2_def s1_def substate_long_read_def substate_read_N_def word_le_nat_alt)
  have 1: "?f (add_user_message u p @ rest) (add_user_parser, read_N, e) = ?f (of_nat (length p) # p @ rest) (q2, read_N, e)"
    using consume_counted_field [where p = add_user_parser and xs = u and ys = "of_nat (length p) # p @ rest"
        and alloc = al and st = read_N and error = e] assms n1
    by (simp add: add_user_parser_def q2_def parser_wf_def substate_long_read_def consume_rest_def is_done_def
        is_done_error_def Let_def add_user_message_def del: feed_bytes.simps)
  have n3: "next_state (field_stored q2 3 p) = Inr q4"
    by (simp add: parser_eval q2_def q4_def s3_def substate_long_read_def substate_read_N_def word_le_nat_alt)
  have 3: "?f (of_nat (length p) # p @ rest) (q2, read_N, e) = Inr ((q4, done_read, e), rest)"
    using consume_counted_field [where p = q2 and xs = p and ys = rest and alloc = al and st = read_N
        and error = e] assms n3
    by (simp add: q2_def q4_def parser_wf_def substate_long_read_def consume_rest_def is_done_def
        is_done_error_def Let_def del: feed_bytes.simps)
  show ?thesis
    by (rule exI [of _ q4]) (simp only: 1 3, simp add: q4_def substate_at_def s1_def s3_def)
qed

definition delete_user_message :: "byte list \<Rightarrow> byte list" where
  "delete_user_message u = of_nat (length u) # u"

definition delete_user_parser :: parser where
  "delete_user_parser = \<lparr>p_index = 0, p_size = 2, p_current = read_N,
     p_states = [substate_read_N, substate_long_read], p_error = 0\<rparr>"

lemma delete_user_feed:
  assumes "allocator_ok al" and "length u < 256" and "al 1 (length u + 1) \<noteq> None"
  shows "\<exists>q. feed_bytes (consume_feed al) consume_stop (delete_user_message u @ rest)
        (delete_user_parser, read_N, e) = Inr ((q, done_read, e), rest) \<and>
      substate_at q 1 = Inr (substate_long_read\<lparr>ps_result := Some (u @ [0]), ps_size := of_nat (length u)\<rparr>)"
proof -
  define s1 where "s1 = substate_long_read\<lparr>ps_result := Some (u @ [0]), ps_size := of_nat (length u)\<rparr>"
  define q2 where "q2 = \<lparr>p_index = 2, p_size = 2, p_current = done_read, p_states =
      [substate_read_N, s1], p_error = 0\<rparr>"
  have n1: "next_state (field_stored delete_user_parser 1 u) = Inr q2"
    by (simp add: parser_eval delete_user_parser_def q2_def s1_def substate_long_read_def substate_read_N_def word_le_nat_alt)
  have 1: "feed_bytes (consume_feed al) consume_stop (delete_user_message u @ rest) (delete_user_parser, read_N, e) =
      Inr ((q2, done_read, e), rest)"
    using consume_counted_field [where p = delete_user_parser and xs = u and ys = rest
        and alloc = al and st = read_N and error = e] assms n1
    by (simp add: delete_user_parser_def q2_def parser_wf_def substate_long_read_def consume_rest_def is_done_def
        is_done_error_def Let_def delete_user_message_def del: feed_bytes.simps)
  show ?thesis
    by (rule exI [of _ q2]) (simp only: 1, simp add: q2_def substate_at_def s1_def)
qed

text \<open>
  The world \<open>w'\<close> behind a request with parameters: that of \<open>v\<close>, where the request took effect, with
  the status \<open>r\<close> in the buffer of the connection and \<open>rest\<close> left to read.
\<close>

definition mng_answered :: "skey \<Rightarrow> server \<Rightarrow> socks5 \<Rightarrow> mng_request_st \<Rightarrow> (handler_id, nat) item \<Rightarrow> byte list \<Rightarrow>
    byte \<Rightarrow> server \<Rightarrow> bool" where
  "mng_answered k v d m it rest r w' \<longleftrightarrow> (\<exists>q rb wb.
     let d' = d\<lparr>client := Client_mng (m\<lparr>ms_parser := Parser_ready q\<rparr>), read_buffer := rb, write_buffer := wb\<rparr>
     in buffer_inv rb \<and> buffer_inv wb \<and> buffer_content rb = rest \<and>
        buffer_content wb = buffer_content (write_buffer d) @ [r] \<and>
        moved k v ((sel_lookup (sv_selector v))(key_fd k \<mapsto> it\<lparr>item_interest := OP_WRITE\<rparr>)) d' [] w' \<and>
        w' = v\<lparr>sv_heap := sv_heap w', sv_selector := sv_selector w'\<rparr>)"

lemma mng_answered_content:
  "mng_answered k v d m it rest r w' \<Longrightarrow> \<exists>d'. sv_heap w' (key_data k) = Some d' \<and>
     buffer_content (write_buffer d') = buffer_content (write_buffer d) @ [r]"
  by (auto simp: mng_answered_def Let_def dest: moved_conn)

lemma mng_answered_same:
  assumes "mng_answered k v d m it rest r w'"
  shows "sv_users w' = sv_users v" and "nusers w' = nusers v" and "sv_admins w' = sv_admins v"
    and "auth_method w' = auth_method v" and "password_dissectors w' = password_dissectors v"
  using assms by (auto simp: mng_answered_def moved_def same_rest_def Let_def)

text \<open>A read event that completes the parameters: the effect \<open>f\<close>, and the status in the response.\<close>

lemma mng_params_request:
  assumes "at_conn k w d" and "client d = Client_mng m" and "ms_parser m = Parser_ready p"
    and "ms_status m = mng_status_succeeded" and "substate_at p 0 = Inr s0"
    and "os_recv (key_os k) (key_fd k) (buffer_free (read_buffer d)) = Some xs" and "xs \<noteq> []"
    and "length xs \<le> buffer_free (read_buffer d)" and "registered w (key_fd k) it"
    and feed: "feed_bytes (consume_feed (os_block (key_os k))) consume_stop (buffer_content (read_buffer d) @ xs)
      (p, ps_state s0, False) = Inr ((q, done_read, False), rest)"
    and effect: "\<And>h s. process_mng_params (key_os k) q (ms_index m) (w\<lparr>sv_heap := h, sv_selector := s\<rparr>) =
      Inr (st, f (w\<lparr>sv_heap := h, sv_selector := s\<rparr>))"
    and commute: "\<And>h s. f (w\<lparr>sv_heap := h, sv_selector := s\<rparr>) = (f w)\<lparr>sv_heap := h, sv_selector := s\<rparr>"
    and "1 \<le> buffer_free (write_buffer d)"
  shows "\<exists>w'. mng_request_read k w = Inr (mng_code MNG_REQUEST_WRITE, w') \<and>
    mng_answered k (f w) d m it rest (mng_reply_code st) w'"
proof -
  have bufs: "buffer_inv (read_buffer d)" "buffer_inv (write_buffer d)"
    using assms(1) by (auto simp: at_conn_def)
  obtain rb where rb: "recv_into k (\<lambda>n. n) (read_buffer d) = Inr (Some (xs, rb))" "buffer_inv rb"
      "buffer_content rb = buffer_content (read_buffer d) @ xs"
    using recv_into_data [OF bufs(1) assms(6-8)] by blast
  obtain rb' where rb': "consume (os_block (key_os k)) rb p False = Inr ((q, done_read, False), rb')"
      "buffer_inv rb'" "buffer_content rb' = rest"
    using mp.loop_Inr [OF rb(2), of "os_block (key_os k)" "(p, ps_state s0, False)"] feed rb(3) assms(5)
    by (auto simp: consume_def)
  obtain wb where wb: "status_mng_marshal (write_buffer d) st = Inr wb" "buffer_inv wb"
      "buffer_content wb = buffer_content (write_buffer d) @ [mng_reply_code st]"
    using status_marshal_content(2) [OF bufs(2) assms(13), of st] by auto
  let ?d = "d\<lparr>client := Client_mng (m\<lparr>ms_parser := Parser_ready q\<rparr>), read_buffer := rb'\<rparr>"
  let ?h = "(sv_heap w)(key_data k \<mapsto> ?d)"
  obtain s where s: "set_interest_key k OP_WRITE (w\<lparr>sv_heap := ?h\<rparr>) =
        Inr (SELECTOR_SUCCESS, w\<lparr>sv_heap := ?h, sv_selector := s\<rparr>)" "sel_full s"
      "sel_lookup s = (sel_lookup (sv_selector w))(key_fd k \<mapsto> it\<lparr>item_interest := OP_WRITE\<rparr>)"
    using set_interest_key_ok [of "w\<lparr>sv_heap := ?h\<rparr>" k it OP_WRITE] assms(9) by auto
  let ?v = "f (w\<lparr>sv_heap := ?h, sv_selector := s\<rparr>)"
  let ?h' = "?h(key_data k \<mapsto> ?d\<lparr>write_buffer := wb\<rparr>)"
  have conn: "get_conn k w = Inr (d, w)" "get_conn k ?v = Inr (?d, ?v)"
    using assms(1) by (simp_all add: get_conn_def at_conn_def commute)
  have same: "f w = (f w)\<lparr>sv_heap := sv_heap w, sv_selector := sv_selector w\<rparr>"
    using commute [where h = "sv_heap w" and s = "sv_selector w"] by simp
  then have keep: "sv_heap (f w) = sv_heap w" "sv_selector (f w) = sv_selector w"
    by (metis server.select_convs(1,2) server.surjective server.update_convs(1,2))+
  have "mng_request_read k w = Inr (mng_code MNG_REQUEST_WRITE, ?v\<lparr>sv_heap := ?h'\<rparr>)"
    using conn assms(2-4) rb(1) rb'(1) s(1) effect wb(1)
    by (simp add: mng_request_read_def with_mng_def with_parser_def eval_mng is_done_def
        process_mng_params_request_def commute del: OP_values)
  then show ?thesis
    using rb'(2,3) wb(2,3) s(2,3)
    unfolding mng_answered_def Let_def
    by (intro exI [of _ "?v\<lparr>sv_heap := ?h'\<rparr>"] conjI exI [of _ q] exI [of _ rb'] exI [of _ wb])
      (simp_all add: commute keep moved_def same_rest_def del: OP_values)
qed

lemma mng_index_params [simp]:
  "mng_index_of 10 = Some mng_request_index_add_user"
  "mng_index_of 11 = Some mng_request_index_delete_user"
  "mng_index_of 12 = Some mng_request_index_disable_auth"
  "mng_index_of 13 = Some mng_request_index_disable_password_disectors"
  by (simp_all add: mng_index_of_def mng_indexes_def)

lemma add_user_done:
  assumes "at_conn k w d" and "client d = Client_mng m" and "ms_parser m = Parser_ready add_user_parser"
    and "ms_status m = mng_status_succeeded" and "ms_index m = 10"
    and "os_recv (key_os k) (key_fd k) (buffer_free (read_buffer d)) = Some xs" and "xs \<noteq> []"
    and "length xs \<le> buffer_free (read_buffer d)" and "registered w (key_fd k) it" and "users_ok w"
    and "buffer_content (read_buffer d) @ xs = add_user_message u p @ rest"
    and "allocator_ok (os_block (key_os k))" and "length u < 256" and "length p < 256"
    and "os_block (key_os k) 1 (length u + 1) \<noteq> None" and "os_block (key_os k) 3 (length p + 1) \<noteq> None"
    and "os_alloc (key_os k) (Alloc_result 0)" and "os_alloc (key_os k) (Alloc_result 1)"
    and "1 \<le> buffer_free (write_buffer d)"
  shows "\<exists>w' v. mng_request_read k w = Inr (mng_code MNG_REQUEST_WRITE, w') \<and>
    mng_answered k v d m it rest (mng_reply_code (if nusers w < MAX_USERS then mng_status_succeeded
      else mng_status_max_users_reached)) w' \<and> v = w\<lparr>sv_users := sv_users v, nusers := nusers v\<rparr> \<and> users_ok w' \<and>
    user_table w' = (if nusers w < MAX_USERS then user_table w @ [new_user u p] else user_table w)"
proof -
  obtain q where q: "feed_bytes (consume_feed (os_block (key_os k))) consume_stop (add_user_message u p @ rest)
        (add_user_parser, read_N, False) = Inr ((q, done_read, False), rest)"
      "substate_at q 1 = Inr (substate_long_read\<lparr>ps_result := Some (u @ [0]), ps_size := of_nat (length u)\<rparr>)"
      "substate_at q 3 = Inr (substate_long_read\<lparr>ps_result := Some (p @ [0]), ps_size := of_nat (length p)\<rparr>)"
    using add_user_feed [OF assms(12-16)] by blast
  have s0: "substate_at add_user_parser 0 = Inr substate_read_N" by (simp add: add_user_parser_def substate_at_def)
  have feed: "feed_bytes (consume_feed (os_block (key_os k))) consume_stop (buffer_content (read_buffer d) @ xs)
      (add_user_parser, ps_state substate_read_N, False) = Inr ((q, done_read, False), rest)"
    using q(1) by (simp add: assms(11) substate_read_N_def)
  define st where "st = (if nusers w < MAX_USERS then mng_status_succeeded else mng_status_max_users_reached)"
  define f :: "server \<Rightarrow> server" where "f = (\<lambda>v. if nusers w < MAX_USERS
    then v\<lparr>sv_users := (sv_users w)[nusers w := new_user u p], nusers := nusers w + 1\<rparr> else v)"
  have effect: "process_mng_params (key_os k) q (ms_index m) (w\<lparr>sv_heap := h, sv_selector := s\<rparr>) =
      Inr (st, f (w\<lparr>sv_heap := h, sv_selector := s\<rparr>))" for h s
    using assms(5,10,17,18) q(2,3)
    by (auto simp: process_mng_params_def addUser_def users_ok_def st_def f_def new_user_def)
  have commute: "f (w\<lparr>sv_heap := h, sv_selector := s\<rparr>) = (f w)\<lparr>sv_heap := h, sv_selector := s\<rparr>" for h s by (simp add: f_def)
  from mng_params_request [OF assms(1-4) s0 assms(6-9) feed effect commute assms(19)]
  obtain w' where r: "mng_request_read k w = Inr (mng_code MNG_REQUEST_WRITE, w')"
    "mng_answered k (f w) d m it rest (mng_reply_code st) w'" by blast
  have table: "user_table w' = (if nusers w < MAX_USERS then user_table w @ [new_user u p] else user_table w)"
    using assms(10) mng_answered_same(1,2) [OF r(2)] by (simp add: user_table_def f_def users_ok_def take_Suc_conv_app_nth)
  moreover have "users_ok w'"
    unfolding users_ok_def table
    using assms(10) mng_answered_same(1,2) [OF r(2)] by (auto simp: f_def users_ok_def users_wf_def new_user_def)
  moreover have "f w = w\<lparr>sv_users := sv_users (f w), nusers := nusers (f w)\<rparr>" by (simp add: f_def)
  ultimately show ?thesis using r unfolding st_def by blast
qed

lemma delete_user_done:
  assumes "at_conn k w d" and "client d = Client_mng m" and "ms_parser m = Parser_ready delete_user_parser"
    and "ms_status m = mng_status_succeeded" and "ms_index m = 11"
    and "os_recv (key_os k) (key_fd k) (buffer_free (read_buffer d)) = Some xs" and "xs \<noteq> []"
    and "length xs \<le> buffer_free (read_buffer d)" and "registered w (key_fd k) it" and "users_ok w"
    and "buffer_content (read_buffer d) @ xs = delete_user_message u @ rest"
    and "allocator_ok (os_block (key_os k))" and "length u < 256"
    and "os_block (key_os k) 1 (length u + 1) \<noteq> None" and "1 \<le> buffer_free (write_buffer d)"
  shows "\<exists>w' v. mng_request_read k w = Inr (mng_code MNG_REQUEST_WRITE, w') \<and> mng_answered k v d m it rest 0 w' \<and>
    v = w\<lparr>sv_users := sv_users v, nusers := nusers v\<rparr> \<and> users_ok w' \<and> user_table w' = remove_user u (user_table w)"
proof -
  obtain q where q: "feed_bytes (consume_feed (os_block (key_os k))) consume_stop (delete_user_message u @ rest)
        (delete_user_parser, read_N, False) = Inr ((q, done_read, False), rest)"
      "substate_at q 1 = Inr (substate_long_read\<lparr>ps_result := Some (u @ [0]), ps_size := of_nat (length u)\<rparr>)"
    using delete_user_feed [OF assms(12-14)] by blast
  have s0: "substate_at delete_user_parser 0 = Inr substate_read_N"
    by (simp add: delete_user_parser_def substate_at_def)
  have feed: "feed_bytes (consume_feed (os_block (key_os k))) consume_stop (buffer_content (read_buffer d) @ xs)
      (delete_user_parser, ps_state substate_read_N, False) = Inr ((q, done_read, False), rest)"
    using q(1) by (simp add: assms(11) substate_read_N_def)
  have same: "remove_user (u @ [0]) us = remove_user u us" for us by (induction us) auto
  obtain w1 where w1: "deleteUser (Some (u @ [0])) w = Inr w1" "user_table w1 = remove_user u (user_table w)"
      "w1 = w\<lparr>sv_users := sv_users w1, nusers := nusers w1\<rparr>"
    using deleteUser_table [of w "u @ [0]"] assms(10) by (auto simp: users_ok_def same)
  define f :: "server \<Rightarrow> server" where "f = (\<lambda>v. v\<lparr>sv_users := sv_users w1, nusers := nusers w1\<rparr>)"
  have "deleteUser (Some (u @ [0])) (w\<lparr>sv_heap := h, sv_selector := s\<rparr>) =
      Inr (f (w\<lparr>sv_heap := h, sv_selector := s\<rparr>))" for h s
    using w1(1) by (auto simp: deleteUser_def bind_res_eq_Inr f_def)
  then have effect: "process_mng_params (key_os k) q (ms_index m) (w\<lparr>sv_heap := h, sv_selector := s\<rparr>) =
      Inr (mng_status_succeeded, f (w\<lparr>sv_heap := h, sv_selector := s\<rparr>))" for h s
    using assms(5) q(2) by (simp add: process_mng_params_def)
  have commute: "f (w\<lparr>sv_heap := h, sv_selector := s\<rparr>) = (f w)\<lparr>sv_heap := h, sv_selector := s\<rparr>" for h s by (simp add: f_def)
  from mng_params_request [OF assms(1-4) s0 assms(6-9) feed effect commute assms(15)]
  obtain w' where r: "mng_request_read k w = Inr (mng_code MNG_REQUEST_WRITE, w')" "mng_answered k (f w) d m it rest 0 w'"
    by auto
  have table: "user_table w' = user_table w1" using mng_answered_same(1,2) [OF r(2)] by (simp add: user_table_def f_def)
  moreover have "users_ok w'"
    using users_ok_delete [OF assms(10) w1(1)] table mng_answered_same(1,2) [OF r(2)] by (simp add: users_ok_def f_def)
  moreover have "f w = w\<lparr>sv_users := sv_users (f w), nusers := nusers (f w)\<rparr>" by (simp add: f_def)
  ultimately show ?thesis using r w1(2) by auto
qed

definition yes_no_parser :: "byte list \<Rightarrow> parser" where
  "yes_no_parser blk = \<lparr>p_index = 0, p_size = 1, p_current = long_read,
     p_states = [substate_one_byte (Some blk) None], p_error = 0\<rparr>"

lemma yes_no_feed:
  assumes "length blk = 2"
  shows "\<exists>q. feed_bytes (consume_feed al) consume_stop (v # ys) (yes_no_parser blk, st, e) =
      Inr ((q, done_read, e), ys) \<and>
    substate_at q 0 = Inr ((substate_one_byte (Some [v, 0]) None)\<lparr>ps_remaining := 0\<rparr>)"
proof -
  have "feed_bytes (consume_feed al) consume_stop ([v] @ ys) (yes_no_parser blk, st, e) =
     bind_res (field_end (yes_no_parser blk) (substate_one_byte (Some blk) None) [v, 0]) (consume_rest al ys e)"
    by (subst consume_long_read [where s = "substate_one_byte (Some blk) None" and m = blk])
      (use assms in \<open>simp_all add: yes_no_parser_def substate_at_def substate_one_byte_def\<close>)
  then show ?thesis by (simp add: parser_eval yes_no_parser_def substate_one_byte_def)
qed

text \<open>The two switches: one byte of parameter, success in the response.\<close>

lemma switch_done:
  assumes "at_conn k w d" and "client d = Client_mng m" and "ms_parser m = Parser_ready (yes_no_parser blk)"
    and "length blk = 2" and "ms_status m = mng_status_succeeded" and "ms_index m = 12 \<or> ms_index m = 13"
    and "os_recv (key_os k) (key_fd k) (buffer_free (read_buffer d)) = Some xs" and "xs \<noteq> []"
    and "length xs \<le> buffer_free (read_buffer d)" and "registered w (key_fd k) it"
    and "buffer_content (read_buffer d) @ xs = x # rest" and "1 \<le> buffer_free (write_buffer d)"
  shows "\<exists>w' v. mng_request_read k w = Inr (mng_code MNG_REQUEST_WRITE, w') \<and> mng_answered k v d m it rest 0 w' \<and>
    v = w\<lparr>auth_method := auth_method v, password_dissectors := password_dissectors v\<rparr> \<and> user_table w' = user_table w \<and>
    auth_method w' = (if ms_index m = 13 then auth_method w
      else if x = 0 then METHOD_USERNAME_PASSWORD else METHOD_NO_AUTHENTICATION_REQUIRED) \<and>
    password_dissectors w' = (if ms_index m = 13 then x else password_dissectors w)"
proof -
  obtain q where q: "feed_bytes (consume_feed (os_block (key_os k))) consume_stop (x # rest)
        (yes_no_parser blk, long_read, False) = Inr ((q, done_read, False), rest)"
      "substate_at q 0 = Inr ((substate_one_byte (Some [x, 0]) None)\<lparr>ps_remaining := 0\<rparr>)"
    using yes_no_feed [OF assms(4)] by blast
  let ?s0 = "substate_one_byte (Some blk) None"
  have s0: "substate_at (yes_no_parser blk) 0 = Inr ?s0" by (simp add: yes_no_parser_def substate_at_def)
  have feed: "feed_bytes (consume_feed (os_block (key_os k))) consume_stop (buffer_content (read_buffer d) @ xs)
      (yes_no_parser blk, ps_state ?s0, False) = Inr ((q, done_read, False), rest)"
    using q(1) by (simp add: assms(11) substate_one_byte_def)
  define f :: "server \<Rightarrow> server" where
    "f = (if ms_index m = 13 then disablePasswordDissectors x else disableAuth x)"
  have effect: "process_mng_params (key_os k) q (ms_index m) (w\<lparr>sv_heap := h, sv_selector := s\<rparr>) =
      Inr (mng_status_succeeded, f (w\<lparr>sv_heap := h, sv_selector := s\<rparr>))" for h s
    using assms(6) q(2) by (auto simp: process_mng_params_def f_def first_byte_def substate_one_byte_def)
  have commute: "f (w\<lparr>sv_heap := h, sv_selector := s\<rparr>) = (f w)\<lparr>sv_heap := h, sv_selector := s\<rparr>" for h s
    by (simp add: f_def disableAuth_def disablePasswordDissectors_def)
  from mng_params_request [OF assms(1-3,5) s0 assms(7-10) feed effect commute assms(12)]
  obtain w' where r: "mng_request_read k w = Inr (mng_code MNG_REQUEST_WRITE, w')" "mng_answered k (f w) d m it rest 0 w'"
    by auto
  note mng_answered_same [OF r(2)]
  moreover have "f w = w\<lparr>auth_method := auth_method (f w), password_dissectors := password_dissectors (f w)\<rparr>"
    by (simp add: f_def disableAuth_def disablePasswordDissectors_def)
  ultimately show ?thesis
    using r assms(6)
    by (intro exI [of _ w'] exI [of _ "f w"]) (auto simp: f_def disableAuth_def disablePasswordDissectors_def user_table_def)
qed

text \<open>The same in full: what the request leaves of the server.\<close>

lemma switch_only:
  assumes "at_conn k w d" and "client d = Client_mng m" and "ms_parser m = Parser_ready (yes_no_parser blk)"
    and "length blk = 2" and "ms_status m = mng_status_succeeded" and "ms_index m = 12 \<or> ms_index m = 13"
    and "os_recv (key_os k) (key_fd k) (buffer_free (read_buffer d)) = Some xs" and "xs \<noteq> []"
    and "length xs \<le> buffer_free (read_buffer d)" and "registered w (key_fd k) it"
    and "buffer_content (read_buffer d) @ xs = x # rest" and "1 \<le> buffer_free (write_buffer d)"
  shows "\<exists>d' q s. mng_request_read k w = Inr (mng_code MNG_REQUEST_WRITE,
      w\<lparr>sv_heap := (sv_heap w)(key_data k \<mapsto> d'), sv_selector := s,
        auth_method := (if ms_index m = 13 then auth_method w
          else if x = 0 then METHOD_USERNAME_PASSWORD else METHOD_NO_AUTHENTICATION_REQUIRED),
        password_dissectors := (if ms_index m = 13 then x else password_dissectors w)\<rparr>) \<and>
    sel_lookup s = (sel_lookup (sv_selector w))(key_fd k \<mapsto> it\<lparr>item_interest := OP_WRITE\<rparr>) \<and>
    d' = d\<lparr>client := Client_mng (m\<lparr>ms_parser := Parser_ready q\<rparr>), read_buffer := read_buffer d',
      write_buffer := write_buffer d'\<rparr> \<and>
    buffer_content (read_buffer d') = rest \<and>
    buffer_content (write_buffer d') = buffer_content (write_buffer d) @ [0]"
proof -
  obtain w' v where r: "mng_request_read k w = Inr (mng_code MNG_REQUEST_WRITE, w')" "mng_answered k v d m it rest 0 w'"
      "v = w\<lparr>auth_method := auth_method v, password_dissectors := password_dissectors v\<rparr>"
      "auth_method w' = (if ms_index m = 13 then auth_method w
        else if x = 0 then METHOD_USERNAME_PASSWORD else METHOD_NO_AUTHENTICATION_REQUIRED)"
      "password_dissectors w' = (if ms_index m = 13 then x else password_dissectors w)"
    using switch_done [OF assms] by blast
  from r(2) obtain q rb wb d' where a: "d' = d\<lparr>client := Client_mng (m\<lparr>ms_parser := Parser_ready q\<rparr>), read_buffer := rb, write_buffer := wb\<rparr>"
      "buffer_content rb = rest" "buffer_content wb = buffer_content (write_buffer d) @ [0]"
      "moved k v ((sel_lookup (sv_selector v))(key_fd k \<mapsto> it\<lparr>item_interest := OP_WRITE\<rparr>)) d' [] w'"
      "w' = v\<lparr>sv_heap := sv_heap w', sv_selector := sv_selector w'\<rparr>"
    by (auto simp: mng_answered_def Let_def)
  have v: "sv_heap v = sv_heap w" "sv_selector v = sv_selector w" by (subst r(3), simp)+
  have h: "sv_heap w' = (sv_heap w)(key_data k \<mapsto> d')"
      "sel_lookup (sv_selector w') = (sel_lookup (sv_selector w))(key_fd k \<mapsto> it\<lparr>item_interest := OP_WRITE\<rparr>)"
    using a(4) by (simp_all add: moved_def v)
  have "w' = (w\<lparr>auth_method := auth_method v, password_dissectors := password_dissectors v\<rparr>)
      \<lparr>sv_heap := (sv_heap w)(key_data k \<mapsto> d'), sv_selector := sv_selector w'\<rparr>"
    using a(5) r(3) h(1) by metis
  moreover have "auth_method v = auth_method w'" "password_dissectors v = password_dissectors w'"
    using mng_answered_same(4,5) [OF r(2)] by simp_all
  ultimately have "w' = (w\<lparr>auth_method := auth_method w', password_dissectors := password_dissectors w'\<rparr>)
      \<lparr>sv_heap := (sv_heap w)(key_data k \<mapsto> d'), sv_selector := sv_selector w'\<rparr>" by metis
  also have "\<dots> = w\<lparr>sv_heap := (sv_heap w)(key_data k \<mapsto> d'), sv_selector := sv_selector w',
      auth_method := auth_method w', password_dissectors := password_dissectors w'\<rparr>" by (cases w) simp
  finally have "w' = w\<lparr>sv_heap := (sv_heap w)(key_data k \<mapsto> d'), sv_selector := sv_selector w',
      auth_method := auth_method w', password_dissectors := password_dissectors w'\<rparr>" .
  then show ?thesis
    using r(1,4,5) a(1-3) h(2) by (intro exI [of _ d'] exI [of _ q] exI [of _ "sv_selector w'"]) auto
qed

end
