(* ===== verification/Server_Invariant.thy ===== *)
theory Server_Invariant
  imports Frame Mng_Users
begin

text \<open>
  The interpretations of the frame: the table of the selector, the two pools, the tables of
  users and administrators. Together with the buffers of the connections they form
  \<open>server_inv\<close>, which holds in every state a run of the server reaches.
\<close>

section \<open>The selector\<close>

lemma register_full:
  assumes "sel_full (sv_selector w)" and "register k fd h i x w = Inr (st, w')"
  shows "sel_full (sv_selector w')"
proof (cases "INVALID_FD fd")
  case True
  then show ?thesis using assms by (auto simp: register_def selector_register_def)
next
  case False
  show ?thesis
  proof (cases "sel_lookup (sv_selector w) fd")
    case None
    from register_ok [OF assms(1) False None, of k h i x] assms(2) show ?thesis by auto
  next
    case (Some it)
    from register_in_use [OF assms(1) Some, of k h i x] assms show ?thesis by auto
  qed
qed

lemma unregister_full:
  assumes "sel_full (sv_selector w)" and "unregister fd w = Inr (st, w')"
  shows "sel_full (sv_selector w')"
proof (cases "sel_lookup (sv_selector w) fd")
  case None
  from unregister_unknown [OF assms(1) None] assms show ?thesis by auto
next
  case (Some it)
  then obtain h where h: "item_handler it = Some h"
    using sel_inv_lookup [OF sel_full_inv [OF assms(1)]] by blast
  have it: "\<not> INVALID_FD fd" "nat fd < length (fds (sv_selector w))" "ITEM_USED it" "item_fd it = fd"
      "fds (sv_selector w) ! nat fd = it"
    using Some sel_inv_lookup [OF sel_full_inv [OF assms(1)] Some] by (auto simp: sel_lookup_Some INVALID_FD_def)
  obtain v where v: "(case handle_close h of None \<Rightarrow> Inr w | Some f \<Rightarrow> f fd (item_data it) w) = Inr v"
    using assms(2) it h by (auto simp: unregister_def selector_unregister_fd_def bind_res_eq_Inr Let_def)
  from unregister_ok [OF _ h v] assms Some show ?thesis by (auto simp: registered_def)
qed

lemma sel_full_updates [simp]:
  "sel_full (s\<lparr>resolution_jobs := j\<rparr>) = sel_full s"
  "sel_full (s\<lparr>slave_r := r, slave_w := q\<rparr>) = sel_full s"
proof -
  have "sel_lookup (s\<lparr>slave_r := r, slave_w := q\<rparr>) = sel_lookup s" by (rule sel_lookup_fds) simp
  then show "sel_full (s\<lparr>slave_r := r, slave_w := q\<rparr>) = sel_full s" by (simp add: sel_full_def sel_inv_def)
  show "sel_full (s\<lparr>resolution_jobs := j\<rparr>) = sel_full s" by (simp add: sel_full_def sel_inv_def)
qed

lemma selector_unchanged:
  "socks5_destroy x w = Inr w' \<Longrightarrow> sv_selector w' = sv_selector w"
  "mng_destroy x w = Inr w' \<Longrightarrow> sv_selector w' = sv_selector w"
  "pool_take k w = Inr (y, w') \<Longrightarrow> sv_selector w' = sv_selector w"
  "mng_pool_take k w = Inr (y, w') \<Longrightarrow> sv_selector w' = sv_selector w"
  "addUser k u p w = Inr w' \<Longrightarrow> sv_selector w' = sv_selector w"
  "deleteUser u w = Inr w' \<Longrightarrow> sv_selector w' = sv_selector w"
  by (auto simp: socks5_destroy_def mng_destroy_def socks5_free_def pool_take_def mng_pool_take_def
      addUser_def deleteUser_def bind_res_eq_Inr split: option.splits if_splits list.splits)

interpretation selector: server_frame "\<lambda>w. sel_full (sv_selector w)"
proof unfold_locales
  show "sel_full (sv_selector w')" if "sel_full (sv_selector w)" "set_interest fd i w = Inr (st, w')" for w w' fd i st
    using set_interest_total [OF that(1), of fd i] that(2) by auto
qed (auto dest: register_full unregister_full selector_unchanged)

interpretation blank: server_frame "\<lambda>w. sel_full (sv_selector w) \<and> blank_items (sv_selector w)"
proof unfold_locales
  fix w w' :: server and st x k fd h i
  assume w: "sel_full (sv_selector w) \<and> blank_items (sv_selector w)"
  show "sel_full (sv_selector w') \<and> blank_items (sv_selector w')" if "set_interest fd i w = Inr (st, w')"
    using w that selector.interest [OF _ that]
    by (auto simp: set_interest_def bind_res_eq_Inr dest: blank_items_interest)
  show "sel_full (sv_selector w') \<and> blank_items (sv_selector w')" if "register k fd h i x w = Inr (st, w')"
    using w that register_full [OF _ that] by (auto simp: register_def bind_res_eq_Inr dest: blank_items_register)
  show "sel_full (sv_selector w') \<and> blank_items (sv_selector w')" if "unregister fd w = Inr (st, w')"
    using w that unregister_full [OF _ that] by (auto simp: unregister_def bind_res_eq_Inr dest: blank_items_unregister)
qed (auto dest: selector_unchanged)

section \<open>The pools\<close>

definition pools_ok :: "server \<Rightarrow> bool" where
  "pools_ok w \<longleftrightarrow> length (sv_pool w) \<le> sv_pool_size w \<and> sv_pool_size w \<le> max_pool \<and>
     length (sv_mng_pool w) \<le> sv_mng_pool_size w \<and> sv_mng_pool_size w \<le> mng_max_pool"

lemma pools_simps [simp]:
  "pools_ok (w\<lparr>sv_selector := s\<rparr>) = pools_ok w" "pools_ok (w\<lparr>sv_heap := h\<rparr>) = pools_ok w"
  "pools_ok (w\<lparr>sv_metrics := m\<rparr>) = pools_ok w" "pools_ok (w\<lparr>sv_log := l\<rparr>) = pools_ok w"
  "pools_ok (w\<lparr>sv_threads := ts\<rparr>) = pools_ok w" "pools_ok (w\<lparr>auth_method := b\<rparr>) = pools_ok w"
  "pools_ok (w\<lparr>password_dissectors := b\<rparr>) = pools_ok w"
  by (simp_all add: pools_ok_def)

lemma pools_destroy:
  "pools_ok w \<Longrightarrow> socks5_destroy x w = Inr w' \<Longrightarrow> pools_ok w'"
  "pools_ok w \<Longrightarrow> mng_destroy x w = Inr w' \<Longrightarrow> pools_ok w'"
  by (auto simp: socks5_destroy_def mng_destroy_def socks5_free_def pools_ok_def split: option.splits if_splits)

lemma pools_unregister: "pools_ok w \<Longrightarrow> unregister fd w = Inr (st, w') \<Longrightarrow> pools_ok w'"
  by (drule unregister_cases) (auto dest: pools_destroy)

lemma pools_take:
  "pools_ok w \<Longrightarrow> pool_take k w = Inr (y, w') \<Longrightarrow> pools_ok w'"
  "pools_ok w \<Longrightarrow> mng_pool_take k w = Inr (y, w') \<Longrightarrow> pools_ok w'"
  by (auto simp: pools_ok_def pool_take_def mng_pool_take_def split: list.splits if_splits)

lemma pools_users:
  "pools_ok w \<Longrightarrow> addUser k u p w = Inr w' \<Longrightarrow> pools_ok w'"
  "pools_ok w \<Longrightarrow> deleteUser u w = Inr w' \<Longrightarrow> pools_ok w'"
  by (auto simp: pools_ok_def addUser_def deleteUser_def bind_res_eq_Inr split: option.splits if_splits)

lemma pools_register:
  "pools_ok w \<Longrightarrow> register k fd h i x w = Inr (st, w') \<Longrightarrow> pools_ok w'"
  "pools_ok w \<Longrightarrow> set_interest fd i w = Inr (st, w') \<Longrightarrow> pools_ok w'"
  by (auto simp: pools_ok_def register_def set_interest_def bind_res_eq_Inr)

interpretation pools: server_frame pools_ok
  by unfold_locales (simp | erule (1) pools_destroy pools_take pools_users pools_register
      pools_unregister)+

section \<open>The tables of users and administrators\<close>

definition accounts_ok :: "server \<Rightarrow> bool" where
  "accounts_ok w \<longleftrightarrow> users_ok w \<and> nadmins w \<le> length (sv_admins w) \<and> users_wf (take (nadmins w) (sv_admins w))"

lemma accounts_same:
  assumes "accounts_ok w" and "sv_users w' = sv_users w \<and> nusers w' = nusers w"
    and "sv_admins w' = sv_admins w \<and> nadmins w' = nadmins w"
  shows "accounts_ok w'"
  using assms by (simp add: accounts_ok_def users_ok_def user_table_def)

lemma accounts_users:
  "accounts_ok w \<Longrightarrow> addUser k u p w = Inr w' \<Longrightarrow> accounts_ok w'"
  "accounts_ok w \<Longrightarrow> deleteUser u w = Inr w' \<Longrightarrow> accounts_ok w'"
proof -
  have "sv_admins w' = sv_admins w \<and> nadmins w' = nadmins w" if "addUser k u p w = Inr w' \<or> deleteUser u w = Inr w'"
    using that by (auto simp: addUser_def deleteUser_def bind_res_eq_Inr split: option.splits if_splits)
  then show "accounts_ok w \<Longrightarrow> addUser k u p w = Inr w' \<Longrightarrow> accounts_ok w'"
    "accounts_ok w \<Longrightarrow> deleteUser u w = Inr w' \<Longrightarrow> accounts_ok w'"
    by (auto simp: accounts_ok_def dest: users_ok_add users_ok_delete)
qed

lemma accounts_destroy:
  "accounts_ok w \<Longrightarrow> socks5_destroy x w = Inr w' \<Longrightarrow> accounts_ok w'"
  "accounts_ok w \<Longrightarrow> mng_destroy x w = Inr w' \<Longrightarrow> accounts_ok w'"
  by (auto simp: socks5_destroy_def mng_destroy_def socks5_free_def split: option.splits if_splits
      elim!: accounts_same)

lemma accounts_unregister:
  assumes "accounts_ok w" and "unregister fd w = Inr (st, w')"
  shows "accounts_ok w'"
proof -
  from unregister_cases [OF assms(2)] obtain v s where "w' = v\<lparr>sv_selector := s\<rparr>"
    "v = w \<or> (\<exists>x. socks5_destroy x w = Inr v) \<or> (\<exists>x. mng_destroy x w = Inr v)" by blast
  moreover have "accounts_ok v" using calculation(2) assms(1) accounts_destroy by blast
  ultimately show ?thesis by (auto elim: accounts_same)
qed

lemma accounts_take:
  "accounts_ok w \<Longrightarrow> pool_take k w = Inr (y, w') \<Longrightarrow> accounts_ok w'"
  "accounts_ok w \<Longrightarrow> mng_pool_take k w = Inr (y, w') \<Longrightarrow> accounts_ok w'"
  by (auto simp: pool_take_def mng_pool_take_def split: list.splits if_splits elim!: accounts_same)

lemma accounts_register:
  "accounts_ok w \<Longrightarrow> register k fd h i x w = Inr (st, w') \<Longrightarrow> accounts_ok w'"
  "accounts_ok w \<Longrightarrow> set_interest fd i w = Inr (st, w') \<Longrightarrow> accounts_ok w'"
  by (auto simp: register_def set_interest_def bind_res_eq_Inr elim!: accounts_same)

interpretation accounts: server_frame accounts_ok
  by unfold_locales (erule (1) accounts_destroy accounts_take accounts_users accounts_register
      accounts_unregister | (erule accounts_same; simp))+

section \<open>The invariant of the server\<close>

definition server_inv :: "server \<Rightarrow> bool" where
  "server_inv w \<longleftrightarrow> sel_full (sv_selector w) \<and> blank_items (sv_selector w) \<and> pools_ok w \<and> accounts_ok w \<and> heap_ok w"

lemma server_inv_run: "server_run w w' \<Longrightarrow> server_inv w \<Longrightarrow> server_inv w'"
  using blank.run_keeps [of w w'] pools.run_keeps [of w w'] accounts.run_keeps [of w w']
  by (auto simp: server_inv_def blank.inv_def pools.inv_def accounts.inv_def)

end
