(* ===== verification/Sessions.thy ===== *)
theory Sessions
  imports Server_Invariant
begin

unbundle bit_operations_syntax

text \<open>
  What the servers do with connections: start, accept, the states without a handler for an
  event, the end of a connection.
\<close>

section \<open>Start\<close>

definition listening :: "handler_id \<Rightarrow> int set \<Rightarrow> int \<Rightarrow> (handler_id, nat) item option" where
  "listening h S fd = (if fd \<in> S
     then Some \<lparr>item_fd = fd, item_interest = OP_READ, item_handler = Some h, item_data = None\<rparr> else None)"

lemma register_masters_ok:
  assumes "sel_full (sv_selector w)" and "distinct masters" and "\<forall>fd \<in> set masters. \<not> INVALID_FD fd"
    and "\<forall>fd \<in> set masters. sel_lookup (sv_selector w) fd = None"
  shows "\<exists>s. register_masters k h masters 0 w = Inr (0, w\<lparr>sv_selector := s\<rparr>) \<and> sel_full s \<and>
    sel_lookup s = sel_lookup (sv_selector w) ++ listening h (set masters)"
  using assms
proof (induction masters arbitrary: w)
  case Nil
  have "w\<lparr>sv_selector := sv_selector w\<rparr> = w" by simp
  with Nil show ?case
    by (auto simp: ret_sv_def listening_def map_add_def fun_eq_iff intro!: exI [of _ "sv_selector w"])
next
  case (Cons fd l)
  have fd: "\<not> INVALID_FD fd" "sel_lookup (sv_selector w) fd = None" using Cons.prems by auto
  from register_ok [OF Cons.prems(1) fd, of k h OP_READ None] obtain s where
    s: "register k fd h OP_READ None w = Inr (SELECTOR_SUCCESS, w\<lparr>sv_selector := s\<rparr>)" "sel_full s"
      "sel_lookup s = (sel_lookup (sv_selector w))(fd \<mapsto>
        \<lparr>item_fd = fd, item_interest = OP_READ, item_handler = Some h, item_data = None\<rparr>)"
    by blast
  have free: "\<forall>f \<in> set l. sel_lookup s f = None" using Cons.prems s(3) by auto
  from Cons.IH [of "w\<lparr>sv_selector := s\<rparr>"] Cons.prems s(2) free obtain s' where
    s': "register_masters k h l 0 (w\<lparr>sv_selector := s\<rparr>) = Inr (0, w\<lparr>sv_selector := s'\<rparr>)" "sel_full s'"
      "sel_lookup s' = sel_lookup s ++ listening h (set l)"
    by auto
  have "register_masters k h (fd # l) 0 w = Inr (0, w\<lparr>sv_selector := s'\<rparr>)"
    using s(1) s'(1) by (simp add: bind_sv_def del: OP_values)
  then show ?case
    using s'(2,3) s(3) by (intro exI [of _ s']) (auto simp: fun_eq_iff listening_def map_add_def split: option.splits)
qed

lemma register_masters_blank:
  "register_masters k h l ss w = Inr (st, w') \<Longrightarrow> sel_full (sv_selector w) \<Longrightarrow> blank_items (sv_selector w) \<Longrightarrow>
     sel_full (sv_selector w') \<and> blank_items (sv_selector w')"
proof (induction l arbitrary: ss w)
  case Nil
  then show ?case by (simp add: ret_sv_def)
next
  case (Cons fd l)
  then obtain y v where v: "register k fd h OP_READ None w = Inr (y, v)"
    "register_masters k h l (ss OR status_code y) v = Inr (st, w')" by (auto simp: bind_sv_def bind_res_eq_Inr)
  with blank.registering [OF _ v(1)] Cons show ?case by blast
qed

lemma main_start_ok:
  assumes "os_alloc k Alloc_selector" and "os_alloc k Alloc_items" and "distinct (socks @ mng)"
    and "\<forall>fd \<in> set (socks @ mng). \<not> INVALID_FD fd"
    and "length us \<le> MAX_USERS" and "users_wf us" and "length ads \<le> MAX_USERS" and "users_wf ads"
  shows "\<exists>w. main_start k us ads pd socks mng = Inr (Some w) \<and> server_inv w \<and> user_table w = us \<and> password_dissectors w = pd \<and>
    sel_lookup (sv_selector w) = listening Socks5_passive (set socks) ++ listening Mng_passive (set mng)"
proof -
  obtain s :: "(handler_id, nat) fdselector" where s: "selector_new True True ITEMS_MAX_SIZE = Inr (Some s)" "sel_full s" "sel_lookup s = Map.empty" "blank_items s"
    using selector_new_full by blast
  let ?w = "main_globals us ads pd s"
  have "sv_selector ?w = s" by (simp add: main_globals_def)
  then obtain s1 where s1: "register_masters k Socks5_passive socks 0 ?w = Inr (0, ?w\<lparr>sv_selector := s1\<rparr>)" "sel_full s1"
      "sel_lookup s1 = listening Socks5_passive (set socks)"
    using register_masters_ok [of ?w socks k Socks5_passive] s assms(3,4) by auto
  have free: "\<forall>fd \<in> set mng. sel_lookup s1 fd = None" using assms(3) s1(3) by (auto simp: listening_def)
  obtain s2 where s2: "register_masters k Mng_passive mng 0 (?w\<lparr>sv_selector := s1\<rparr>) = Inr (0, ?w\<lparr>sv_selector := s2\<rparr>)"
      "sel_full s2" "sel_lookup s2 = listening Socks5_passive (set socks) ++ listening Mng_passive (set mng)"
    using register_masters_ok [of "?w\<lparr>sv_selector := s1\<rparr>" mng k Mng_passive] s1 assms(3,4) free by auto
  have start: "main_start k us ads pd socks mng = Inr (Some (?w\<lparr>sv_selector := s2\<rparr>))"
    using assms(1,2) s(1) s1(1) s2(1) by (simp add: main_start_def ITEMS_MAX_SIZE_def)
  have "blank_items s1" using register_masters_blank [OF s1(1)] s(2,4) by (simp add: main_globals_def)
  then have "blank_items s2" using register_masters_blank [OF s2(1)] s1(2) by simp
  then have "server_inv (?w\<lparr>sv_selector := s2\<rparr>)"
    using s2(2) assms(5-8)
    by (simp add: server_inv_def main_globals_def pools_ok_def accounts_ok_def users_ok_def user_table_def
        user_array_def heap_ok_def)
  moreover have "user_table (?w\<lparr>sv_selector := s2\<rparr>) = us" by (simp add: user_table_def main_globals_def user_array_def)
  moreover have "password_dissectors (?w\<lparr>sv_selector := s2\<rparr>) = pd" by (simp add: main_globals_def)
  ultimately show ?thesis unfolding start using s2(3) by auto
qed

section \<open>State tables\<close>

lemma tables_ok_states:
  "table_ok client_statbl (socks_code ERROR)" "table_ok client_mng (mng_code MNG_ERROR)"
  by (auto simp: table_ok_def client_statbl_def client_mng_def bare_state_def nth_Cons' )

end
