(* ===== verification/Protocol_Order.thy ===== *)
theory Protocol_Order
  imports Sessions
begin

unbundle bit_operations_syntax

text \<open>
  The order of the protocol: the graph of states that the machine of a SOCKS connection can
  follow, with the conditions of the edges that let a client in, and the graph of the
  management protocol. Every event of the two servers moves the machine along an edge.
\<close>

section \<open>The results of computations\<close>

definition returns :: "('a \<Rightarrow> bool) \<Rightarrow> 'a srv \<Rightarrow> bool" where
  "returns P m \<longleftrightarrow> (\<forall>w x w'. m w = Inr (x, w') \<longrightarrow> P x)"

named_theorems returns_intros

lemma returns_basic [returns_intros]:
  "P x \<Longrightarrow> returns P (ret_sv x)" "returns P (fail_sv e)"
  by (simp_all add: returns_def ret_sv_def fail_sv_def)

lemma returns_bind [returns_intros]:
  "returns R m' \<Longrightarrow> (\<And>x. R x \<Longrightarrow> R (g x)) \<Longrightarrow> returns R (bind_sv m' (\<lambda>x. ret_sv (g x)))"
  "(\<And>x. c = Inr x \<Longrightarrow> returns P (f x)) \<Longrightarrow> returns P (bind_sv (lift_sv c) f)"
  "(\<And>x. returns P (f x)) \<Longrightarrow> returns P (bind_sv m f)"
  by (auto simp: returns_def bind_sv_def lift_sv_def ret_sv_def bind_res_eq_Inr)

lemma returns_cases [returns_intros]:
  "(b \<Longrightarrow> returns P m) \<Longrightarrow> (\<not> b \<Longrightarrow> returns P m') \<Longrightarrow> returns P (if b then m else m')"
  "returns P m \<Longrightarrow> (\<And>y. x = Some y \<Longrightarrow> returns P (f y)) \<Longrightarrow> returns P (case x of None \<Rightarrow> m | Some y \<Rightarrow> f y)"
  "(\<And>a b. y = (a, b) \<Longrightarrow> returns P (g a b)) \<Longrightarrow> returns P (case y of (a, b) \<Rightarrow> g a b)"
  "(\<And>a b. y = (a, b) \<Longrightarrow> returns P (g' a b v)) \<Longrightarrow> returns P ((case y of (a, b) \<Rightarrow> g' a b) v)"
  "returns P m \<Longrightarrow> (\<And>z l. xs = z # l \<Longrightarrow> returns P (h z l)) \<Longrightarrow> returns P (case xs of [] \<Rightarrow> m | z # l \<Rightarrow> h z l)"
  by (auto split: option.splits prod.splits list.splits)

lemma returns_let [returns_intros]: "returns P (f x) \<Longrightarrow> returns P (let y = x in f y)"
  by simp

lemma returns_pointers [returns_intros]:
  "(\<And>x. returns P (f x)) \<Longrightarrow> returns P (deref p f)"
  "(\<And>x. returns P (g x)) \<Longrightarrow> returns P (with_parser q g)"
  "(\<And>x. returns P (h x)) \<Longrightarrow> returns P (case r of Ptr x \<Rightarrow> h x | Null_ptr \<Rightarrow> fail_sv e | Freed_ptr \<Rightarrow> fail_sv e)"
  "(\<And>x. returns P (i x)) \<Longrightarrow> returns P (case a of Orig_conn x \<Rightarrow> i x | Orig_zero \<Rightarrow> fail_sv e | Orig_copy c \<Rightarrow> fail_sv e)"
  "(\<And>x. returns P (j x)) \<Longrightarrow> returns P (case d of Dest_addr x \<Rightarrow> j x | Dest_fqdn n z \<Rightarrow> fail_sv e)"
  by (auto simp: deref_def with_parser_def returns_basic split: ptr.splits parser_ptr.splits origin_stage.splits
      request_dest.splits)

lemma returns_with [returns_intros]:
  "(\<And>d r. returns P (f d r)) \<Longrightarrow> returns P (with_request_st k f)"
  "(\<And>d m. returns P (g d m)) \<Longrightarrow> returns P (with_mng k g)"
  unfolding with_request_st_def with_mng_def
  by (rule returns_bind(3), auto simp: returns_basic split: client_stage.splits)+

lemma returnsD: "returns P m \<Longrightarrow> m w = Inr (x, w') \<Longrightarrow> P x"
  by (auto simp: returns_def)

lemma returns_stage:
  assumes "sv_heap w (key_data k) = Some d"
  shows "with_hello k f w = Inr (x, w') \<Longrightarrow> (\<And>h. client d = Client_hello h \<Longrightarrow> returns P (f d h)) \<Longrightarrow> P x"
    and "with_userpass k g w = Inr (x, w') \<Longrightarrow> (\<And>u. client d = Client_userpass u \<Longrightarrow> returns P (g d u)) \<Longrightarrow> P x"
    and "with_request_st k i w = Inr (x, w') \<Longrightarrow> (\<And>r. client d = Client_request r \<Longrightarrow> returns P (i d r)) \<Longrightarrow> P x"
    and "with_mng k j w = Inr (x, w') \<Longrightarrow> (\<And>m. client d = Client_mng m \<Longrightarrow> returns P (j d m)) \<Longrightarrow> P x"
  using assms
  by (auto simp: with_hello_def with_userpass_def with_request_st_def with_mng_def bind_sv_def get_conn_def
      bind_res_eq_Inr fail_sv_def split: client_stage.splits dest: returnsD)

section \<open>The states of a SOCKS connection\<close>

text \<open>The edges out of \<open>s\<close> for the connection \<open>d\<close>.\<close>

inductive socks_edge :: "socks5 \<Rightarrow> socks_v5state \<Rightarrow> socks_v5state \<Rightarrow> bool" for d where
  wait: "s \<in> {HELLO_READ, HELLO_WRITE, USERPASS_READ, USERPASS_WRITE, REQUEST_READ, REQUEST_CONNECTING,
     REQUEST_WRITE, COPY} \<Longrightarrow> socks_edge d s s"
| failed: "s \<in> {HELLO_READ, HELLO_WRITE, USERPASS_READ, USERPASS_WRITE, REQUEST_READ, REQUEST_CONNECTING,
     REQUEST_WRITE} \<Longrightarrow> socks_edge d s ERROR"
| greeted: "socks_edge d HELLO_READ HELLO_WRITE"
| no_auth: "client d = Client_hello h \<Longrightarrow> hs_method h = METHOD_NO_AUTHENTICATION_REQUIRED \<Longrightarrow>
     socks_edge d HELLO_WRITE REQUEST_READ"
| ask_auth: "client d = Client_hello h \<Longrightarrow> hs_method h = METHOD_USERNAME_PASSWORD \<Longrightarrow>
     socks_edge d HELLO_WRITE USERPASS_READ"
| no_method: "client d = Client_hello h \<Longrightarrow> hs_method h = METHOD_NO_ACCEPTABLE_METHODS \<Longrightarrow>
     socks_edge d HELLO_WRITE DONE"
| credentials: "socks_edge d USERPASS_READ USERPASS_WRITE"
| granted: "authentication d = 0 \<Longrightarrow> socks_edge d USERPASS_WRITE REQUEST_READ"
| denied: "authentication d \<noteq> 0 \<Longrightarrow> socks_edge d USERPASS_WRITE DONE"
| resolve: "socks_edge d REQUEST_READ REQUEST_RESOLV"
| connect: "s \<in> {REQUEST_READ, REQUEST_RESOLV} \<Longrightarrow> socks_edge d s REQUEST_CONNECTING"
| reply: "s \<in> {REQUEST_READ, REQUEST_RESOLV, REQUEST_CONNECTING} \<Longrightarrow> socks_edge d s REQUEST_WRITE"
| established: "orig_status d = Inr status_succeeded \<Longrightarrow> socks_edge d REQUEST_WRITE COPY"
| refused: "orig_status d = Inr st \<Longrightarrow> st \<noteq> status_succeeded \<Longrightarrow> socks_edge d REQUEST_WRITE DONE"
| closed: "socks_edge d COPY DONE"

lemma socks_edges [simp]:
  "s \<in> {HELLO_READ, HELLO_WRITE, USERPASS_READ, USERPASS_WRITE, REQUEST_READ, REQUEST_CONNECTING,
     REQUEST_WRITE, COPY} \<Longrightarrow> socks_edge d s s"
  "s \<in> {HELLO_READ, HELLO_WRITE, USERPASS_READ, USERPASS_WRITE, REQUEST_READ, REQUEST_CONNECTING,
     REQUEST_WRITE} \<Longrightarrow> socks_edge d s ERROR"
  "socks_edge d HELLO_READ HELLO_WRITE" "socks_edge d USERPASS_READ USERPASS_WRITE"
  "socks_edge d REQUEST_READ REQUEST_RESOLV" "socks_edge d COPY DONE"
  "s \<in> {REQUEST_READ, REQUEST_RESOLV} \<Longrightarrow> socks_edge d s REQUEST_CONNECTING"
  "s \<in> {REQUEST_READ, REQUEST_RESOLV, REQUEST_CONNECTING} \<Longrightarrow> socks_edge d s REQUEST_WRITE"
  by (rule socks_edge.intros; simp)+

text \<open>A result \<open>x\<close> that is the code of a state \<open>E\<close> allows.\<close>

definition along :: "('s \<Rightarrow> nat) \<Rightarrow> ('s \<Rightarrow> bool) \<Rightarrow> nat \<Rightarrow> bool" where
  "along code E x \<longleftrightarrow> (\<exists>t. x = code t \<and> E t)"

lemma alongI: "E t \<Longrightarrow> along code E (code t)"
  by (auto simp: along_def)

lemma terminal_codes:
  "terminals_ok d \<Longrightarrow> isSocks d \<Longrightarrow> error_state d = socks_code ERROR"
  "terminals_ok d \<Longrightarrow> isSocks d \<Longrightarrow> done_state d = socks_code DONE"
  by (simp_all add: terminals_ok_def del: socks_code.simps)

lemma hello_process_result:
  "hello_process h v b = Inr (res, b') \<Longrightarrow> res = None \<or> res = Some (socks_code HELLO_WRITE)"
  by (auto simp: hello_process_def bind_res_eq_Inr simp del: socks_code.simps split: if_splits)

lemma auth_process_result: "returns (\<lambda>x. x = socks_code USERPASS_WRITE) (auth_process p k)"
  unfolding auth_process_def by (intro returns_intros) auto

lemma error_handler_result:
  "returns (\<lambda>x. x = socks_code REQUEST_WRITE) (error_handler st k)"
  "returns (\<lambda>x. x = socks_code REQUEST_WRITE) (error_handler_to_client st k)"
  "returns (\<lambda>x. x = socks_code REQUEST_WRITE) (request_failure k)"
  unfolding error_handler_def error_handler_to_client_def request_failure_def by (intro returns_intros refl)+

lemma returns_mono: "returns Q m \<Longrightarrow> (\<And>x. Q x \<Longrightarrow> P x) \<Longrightarrow> returns P m"
  by (auto simp: returns_def)

lemmas stage_results = returns_mono [OF auth_process_result] returns_mono [OF error_handler_result(1)]
  returns_mono [OF error_handler_result(2)] returns_mono [OF error_handler_result(3)]

lemma hello_along:
  assumes "sv_heap w (key_data k) = Some d" and "terminals_ok d" and "isSocks d"
  shows "hello_read k w = Inr (x, w') \<Longrightarrow> along socks_code (socks_edge d HELLO_READ) x"
    and "hello_write k w = Inr (x, w') \<Longrightarrow> along socks_code (socks_edge d HELLO_WRITE) x"
  unfolding hello_read_def hello_write_def
  by (erule returns_stage(1) [OF assms(1)], intro returns_intros,
      auto simp: terminal_codes [OF assms(2,3)] simp del: socks_code.simps intro!: alongI
        intro: socks_edge.intros dest!: hello_process_result)+

lemma auth_along:
  assumes "sv_heap w (key_data k) = Some d" and "terminals_ok d" and "isSocks d"
  shows "auth_read k w = Inr (x, w') \<Longrightarrow> along socks_code (socks_edge d USERPASS_READ) x"
    and "auth_write k w = Inr (x, w') \<Longrightarrow> along socks_code (socks_edge d USERPASS_WRITE) x"
  unfolding auth_read_def auth_write_def
  by (erule returns_stage(2) [OF assms(1)], intro returns_intros stage_results,
      auto simp: terminal_codes [OF assms(2,3)] simp del: socks_code.simps intro!: alongI
        intro: socks_edge.intros)+

lemma request_process_along: "returns (along socks_code (socks_edge d REQUEST_READ)) (request_process k)"
  unfolding request_process_def
  apply (intro returns_intros stage_results)
  apply (auto simp del: socks_code.simps intro!: alongI)
  done

lemma request_along:
  assumes "sv_heap w (key_data k) = Some d"
  shows "request_read k w = Inr (x, w') \<Longrightarrow> along socks_code (socks_edge d REQUEST_READ) x"
    and "request_write k w = Inr (x, w') \<Longrightarrow> along socks_code (socks_edge d REQUEST_WRITE) x"
  unfolding request_read_def request_write_def
  by (erule returns_stage(3) [OF assms(1)], intro returns_intros stage_results request_process_along,
      auto simp del: socks_code.simps intro!: alongI intro: socks_edge.intros)+

lemma resolv_along: "returns (along socks_code (socks_edge d REQUEST_RESOLV)) (request_resolv_done k)"
  unfolding request_resolv_done_def
  by (intro returns_intros stage_results) (auto simp del: socks_code.simps intro!: alongI)

lemma connecting_along: "returns (along socks_code (socks_edge d REQUEST_CONNECTING)) (connecting_write k)"
  unfolding connecting_write_def connecting_success_def refuse_def try_next_address_def
  by (intro returns_intros stage_results) (auto simp del: socks_code.simps intro!: alongI)

lemma copy_along:
  "returns (along socks_code (socks_edge d COPY)) (copy_read k)"
  "returns (along socks_code (socks_edge d COPY)) (copy_write k)"
  unfolding copy_read_def copy_write_def copy_finish_def
  by (intro returns_intros, auto simp del: socks_code.simps intro!: alongI)+

lemmas along_results = returnsD [OF resolv_along] returnsD [OF connecting_along] returnsD [OF copy_along(1)]
  returnsD [OF copy_along(2)]

text \<open>The handler of a state, by the kind of the event.\<close>

lemma socks_handlers:
  "on_read_ready (client_statbl ! socks_code s) = (case s of HELLO_READ \<Rightarrow> Some hello_read
     | USERPASS_READ \<Rightarrow> Some auth_read | REQUEST_READ \<Rightarrow> Some request_read | COPY \<Rightarrow> Some copy_read | _ \<Rightarrow> None)"
  "on_write_ready (client_statbl ! socks_code s) = (case s of HELLO_WRITE \<Rightarrow> Some hello_write
     | USERPASS_WRITE \<Rightarrow> Some auth_write | REQUEST_CONNECTING \<Rightarrow> Some connecting_write
     | REQUEST_WRITE \<Rightarrow> Some request_write | COPY \<Rightarrow> Some copy_write | _ \<Rightarrow> None)"
  "on_block_ready (client_statbl ! socks_code s) =
     (case s of REQUEST_RESOLV \<Rightarrow> Some request_resolv_done | _ \<Rightarrow> None)"
  by (cases s; simp add: client_statbl_def bare_state_def)+

lemma first_hooks: "on_arrival (client_statbl ! 0) = Some hello_read_init"
    "on_arrival (client_mng ! 0) = Some hello_read_init"
  by (simp_all add: client_statbl_def client_mng_def)

text \<open>What an event of the machine of a connection runs and leaves.\<close>

lemma run_machine_Inr:
  assumes "run_machine (stm_dispatch ready) tbl k w = Inr (ret, w')" and "sv_heap w (key_data k) = Some d"
  shows "\<exists>m w1. stm_dispatch ready tbl (conn_stm d) k w = Inr (ret, m, w1) \<and>
    (\<exists>d1. sv_heap w1 (key_data k) = Some d1 \<and> sv_heap w' (key_data k) = Some (d1\<lparr>conn_stm := m\<rparr>))"
  using assms
  by (auto simp: run_machine_def bind_sv_def get_conn_def put_conn_def modify_sv_def ret_sv_def bind_res_eq_Inr
      split: option.splits)

lemma socks_dispatch_edge:
  assumes "ready \<in> {on_read_ready, on_write_ready, on_block_ready}"
    and "stm_dispatch ready client_statbl m k w = Inr (ret, m', w')" and "sv_heap w (key_data k) = Some d"
    and "terminals_ok d" and "isSocks d" and "stm_inv client_statbl m" and "stm_current m = Some (socks_code s)"
  shows "along socks_code (socks_edge d s) ret \<and> stm_current m' = Some ret"
proof -
  from stm_dispatch_runs [OF assms(6,7,2)] obtain f w2 where
    f: "ready (client_statbl ! socks_code s) = Some f" "f k w = Inr (ret, w2)" by blast
  have "along socks_code (socks_edge d s) ret"
    using f assms(1) hello_along [OF assms(3-5)] auth_along [OF assms(3-5)] request_along [OF assms(3)]
    by (cases s) (auto simp: socks_handlers simp del: socks_code.simps intro: along_results)
  then show ?thesis using stm_dispatch_spec [OF assms(6,2)] by blast
qed

lemma hello_read_init_frame:
  "hello_read_init st k w = Inr w' \<Longrightarrow> sv_heap w (key_data k) = Some d \<Longrightarrow>
     \<exists>c. sv_heap w' (key_data k) = Some (d\<lparr>client := c\<rparr>)"
  by (auto simp: hello_read_init_def bind_sv_def get_conn_def put_conn_def get_sv_def modify_sv_def
      bind_res_eq_Inr Let_def split: if_splits)

lemma first_edge: "socks_edge (d\<lparr>client := c\<rparr>) HELLO_READ t \<Longrightarrow> socks_edge d HELLO_READ t"
  by (auto elim: socks_edge.cases)

text \<open>The current state, the initial one when no event has come yet.\<close>

definition in_state :: "socks5 \<Rightarrow> nat \<Rightarrow> bool" where
  "in_state d c \<longleftrightarrow> stm_current (conn_stm d) = Some c \<or>
     stm_current (conn_stm d) = None \<and> stm_initial (conn_stm d) = c"

lemma socks_event_edge:
  assumes "handler \<in> {stm_handler_read, stm_handler_write, stm_handler_block}"
    and "run_machine handler client_statbl k w = Inr (ret, w')" and "sv_heap w (key_data k) = Some d"
    and "terminals_ok d" and "isSocks d" and "stm_inv client_statbl (conn_stm d)"
    and "in_state d (socks_code s)" and "stm_current (conn_stm d) = None \<longrightarrow> s = HELLO_READ"
  shows "along socks_code (socks_edge d s) ret \<and>
    (\<exists>d'. sv_heap w' (key_data k) = Some d' \<and> stm_current (conn_stm d') = Some ret)"
proof -
  from assms(1) obtain ready where ready: "handler = stm_dispatch ready"
    "ready \<in> {on_read_ready, on_write_ready, on_block_ready}" by (auto simp: stm_handler_defs)
  from run_machine_Inr [OF assms(2) [unfolded ready(1)] assms(3)] obtain m w1 d1 where
    run: "stm_dispatch ready client_statbl (conn_stm d) k w = Inr (ret, m, w1)"
    "sv_heap w' (key_data k) = Some (d1\<lparr>conn_stm := m\<rparr>)" by blast
  have "along socks_code (socks_edge d s) ret \<and> stm_current m = Some ret"
  proof (cases "stm_current (conn_stm d)")
    case None
    then have s: "s = HELLO_READ" "stm_initial (conn_stm d) = socks_code HELLO_READ"
      using assms(7,8) by (auto simp: in_state_def)
    let ?m = "(conn_stm d)\<lparr>stm_current := Some (socks_code HELLO_READ)\<rparr>"
    from run(1) obtain w2 where w2: "hello_read_init 0 k w = Inr w2"
      "stm_dispatch ready client_statbl ?m k w2 = Inr (ret, m, w1)"
      by (auto simp: stm_dispatch_first [OF assms(6) None] s(2) bind_res_eq_Inr run_hook_def first_hooks)
    from hello_read_init_frame [OF w2(1) assms(3)] obtain c where
      c: "sv_heap w2 (key_data k) = Some (d\<lparr>client := c\<rparr>)" by blast
    have "stm_inv client_statbl ?m" using assms(6) by (auto simp: stm_inv_def)
    with socks_dispatch_edge [OF ready(2) w2(2) c, of HELLO_READ] assms(4,5)
    show ?thesis unfolding s(1) by (auto simp: along_def dest: first_edge)
  next
    case (Some x)
    then have "stm_current (conn_stm d) = Some (socks_code s)" using assms(7) by (auto simp: in_state_def)
    from socks_dispatch_edge [OF ready(2) run(1) assms(3-6) this] show ?thesis .
  qed
  with run(2) show ?thesis by auto
qed

section \<open>The states of a management connection\<close>

inductive mng_edge :: "socks5 \<Rightarrow> mng_state \<Rightarrow> mng_state \<Rightarrow> bool" for d where
  m_wait: "s \<in> {MNG_HELLO_READ, MNG_HELLO_WRITE, MNG_USERPASS_READ, MNG_USERPASS_WRITE, MNG_REQUEST_READ_INDEX,
     MNG_REQUEST_READ, MNG_REQUEST_WRITE} \<Longrightarrow> mng_edge d s s"
| m_failed: "s \<in> {MNG_HELLO_READ, MNG_HELLO_WRITE, MNG_USERPASS_READ, MNG_USERPASS_WRITE, MNG_REQUEST_READ_INDEX,
     MNG_REQUEST_READ, MNG_REQUEST_WRITE} \<Longrightarrow> mng_edge d s MNG_ERROR"
| m_greeted: "mng_edge d MNG_HELLO_READ MNG_HELLO_WRITE"
| m_no_auth: "client d = Client_hello h \<Longrightarrow> hs_method h = METHOD_NO_AUTHENTICATION_REQUIRED \<Longrightarrow>
     mng_edge d MNG_HELLO_WRITE MNG_REQUEST_READ_INDEX"
| m_ask_auth: "client d = Client_hello h \<Longrightarrow> hs_method h = METHOD_USERNAME_PASSWORD \<Longrightarrow>
     mng_edge d MNG_HELLO_WRITE MNG_USERPASS_READ"
| m_no_method: "client d = Client_hello h \<Longrightarrow> hs_method h = METHOD_NO_ACCEPTABLE_METHODS \<Longrightarrow>
     mng_edge d MNG_HELLO_WRITE MNG_DONE"
| m_credentials: "mng_edge d MNG_USERPASS_READ MNG_USERPASS_WRITE"
| m_granted: "authentication d = 0 \<Longrightarrow> mng_edge d MNG_USERPASS_WRITE MNG_REQUEST_READ_INDEX"
| m_denied: "authentication d \<noteq> 0 \<Longrightarrow> mng_edge d MNG_USERPASS_WRITE MNG_DONE"
| m_params: "mng_edge d MNG_REQUEST_READ_INDEX MNG_REQUEST_READ"
| m_reply: "s \<in> {MNG_REQUEST_READ_INDEX, MNG_REQUEST_READ} \<Longrightarrow> mng_edge d s MNG_REQUEST_WRITE"
| m_answered: "mng_edge d MNG_REQUEST_WRITE MNG_DONE"

lemma mng_edges [simp]:
  "s \<in> {MNG_HELLO_READ, MNG_HELLO_WRITE, MNG_USERPASS_READ, MNG_USERPASS_WRITE, MNG_REQUEST_READ_INDEX,
     MNG_REQUEST_READ, MNG_REQUEST_WRITE} \<Longrightarrow> mng_edge d s s"
  "s \<in> {MNG_HELLO_READ, MNG_HELLO_WRITE, MNG_USERPASS_READ, MNG_USERPASS_WRITE, MNG_REQUEST_READ_INDEX,
     MNG_REQUEST_READ, MNG_REQUEST_WRITE} \<Longrightarrow> mng_edge d s MNG_ERROR"
  "mng_edge d MNG_HELLO_READ MNG_HELLO_WRITE" "mng_edge d MNG_USERPASS_READ MNG_USERPASS_WRITE"
  "mng_edge d MNG_REQUEST_READ_INDEX MNG_REQUEST_READ" "mng_edge d MNG_REQUEST_WRITE MNG_DONE"
  "s \<in> {MNG_REQUEST_READ_INDEX, MNG_REQUEST_READ} \<Longrightarrow> mng_edge d s MNG_REQUEST_WRITE"
  by (rule mng_edge.intros; simp)+

text \<open>The stages shared with the SOCKS server return SOCKS codes.\<close>

lemma shared_codes:
  "socks_code HELLO_READ = mng_code MNG_HELLO_READ" "socks_code HELLO_WRITE = mng_code MNG_HELLO_WRITE"
  "socks_code USERPASS_READ = mng_code MNG_USERPASS_READ" "socks_code USERPASS_WRITE = mng_code MNG_USERPASS_WRITE"
  "socks_code REQUEST_READ = mng_code MNG_REQUEST_READ_INDEX"
  by simp_all

lemma mng_terminal_codes:
  "terminals_ok d \<Longrightarrow> \<not> isSocks d \<Longrightarrow> error_state d = mng_code MNG_ERROR"
  "terminals_ok d \<Longrightarrow> \<not> isSocks d \<Longrightarrow> done_state d = mng_code MNG_DONE"
  by (simp_all add: terminals_ok_def del: mng_code.simps)

lemma mng_hello_along:
  assumes "sv_heap w (key_data k) = Some d" and "terminals_ok d" and "\<not> isSocks d"
  shows "hello_read k w = Inr (x, w') \<Longrightarrow> along mng_code (mng_edge d MNG_HELLO_READ) x"
    and "hello_write k w = Inr (x, w') \<Longrightarrow> along mng_code (mng_edge d MNG_HELLO_WRITE) x"
  unfolding hello_read_def hello_write_def
  by (erule returns_stage(1) [OF assms(1)], intro returns_intros,
      auto simp: mng_terminal_codes [OF assms(2,3)] shared_codes simp del: socks_code.simps mng_code.simps
        intro!: alongI intro: mng_edge.intros dest!: hello_process_result)+

lemma mng_auth_along:
  assumes "sv_heap w (key_data k) = Some d" and "terminals_ok d" and "\<not> isSocks d"
  shows "auth_read k w = Inr (x, w') \<Longrightarrow> along mng_code (mng_edge d MNG_USERPASS_READ) x"
    and "auth_write k w = Inr (x, w') \<Longrightarrow> along mng_code (mng_edge d MNG_USERPASS_WRITE) x"
  unfolding auth_read_def auth_write_def
  by (erule returns_stage(2) [OF assms(1)], intro returns_intros stage_results,
      auto simp: mng_terminal_codes [OF assms(2,3)] shared_codes simp del: socks_code.simps mng_code.simps
        intro!: alongI intro: mng_edge.intros)+

lemma mng_reply_result:
  "returns (\<lambda>x. x = mng_code MNG_ERROR \<or> x = mng_code MNG_REQUEST_WRITE) (mng_reply_status_write k)"
  unfolding mng_reply_status_write_def by (intro returns_intros) auto

lemma process_mng_index_result:
  "process_mng_index w b v = Inr (s, b') \<Longrightarrow> s \<in> {MNG_REQUEST_WRITE, MNG_REQUEST_READ, MNG_ERROR}"
  by (auto simp: process_mng_index_def Let_def bind_res_eq_Inr split: option.splits mng_request_indexes.splits)

lemma mng_index_along:
  "returns (along mng_code (mng_edge d MNG_REQUEST_READ_INDEX)) (mng_request_index_read k)"
  unfolding mng_request_index_read_def mng_request_index_done_def
  by (intro returns_intros returns_mono [OF mng_reply_result])
     (auto simp del: mng_code.simps intro!: alongI dest!: process_mng_index_result)

lemma mng_read_along:
  "returns (along mng_code (mng_edge d MNG_REQUEST_READ)) (mng_request_read k)"
  unfolding mng_request_read_def
  by (intro returns_intros returns_mono [OF mng_reply_result]) (auto simp del: mng_code.simps intro!: alongI)

lemma mng_write_along:
  "returns (along mng_code (mng_edge d MNG_REQUEST_WRITE)) (mng_request_write k)"
  unfolding mng_request_write_def by (intro returns_intros) (auto simp del: mng_code.simps intro!: alongI)

lemmas mng_along_results = returnsD [OF mng_index_along] returnsD [OF mng_read_along] returnsD [OF mng_write_along]

lemma mng_handlers:
  "on_read_ready (client_mng ! mng_code s) = (case s of MNG_HELLO_READ \<Rightarrow> Some hello_read
     | MNG_USERPASS_READ \<Rightarrow> Some auth_read | MNG_REQUEST_READ_INDEX \<Rightarrow> Some mng_request_index_read
     | MNG_REQUEST_READ \<Rightarrow> Some mng_request_read | _ \<Rightarrow> None)"
  "on_write_ready (client_mng ! mng_code s) = (case s of MNG_HELLO_WRITE \<Rightarrow> Some hello_write
     | MNG_USERPASS_WRITE \<Rightarrow> Some auth_write | MNG_REQUEST_WRITE \<Rightarrow> Some mng_request_write | _ \<Rightarrow> None)"
  "on_block_ready (client_mng ! mng_code s) = None"
  by (cases s; simp add: client_mng_def bare_state_def)+

lemma mng_dispatch_edge:
  assumes "ready \<in> {on_read_ready, on_write_ready, on_block_ready}"
    and "stm_dispatch ready client_mng m k w = Inr (ret, m', w')" and "sv_heap w (key_data k) = Some d"
    and "terminals_ok d" and "\<not> isSocks d" and "stm_inv client_mng m" and "stm_current m = Some (mng_code s)"
  shows "along mng_code (mng_edge d s) ret \<and> stm_current m' = Some ret"
proof -
  from stm_dispatch_runs [OF assms(6,7,2)] obtain f w2 where
    f: "ready (client_mng ! mng_code s) = Some f" "f k w = Inr (ret, w2)" by blast
  have "along mng_code (mng_edge d s) ret"
    using f assms(1) mng_hello_along [OF assms(3-5)] mng_auth_along [OF assms(3-5)]
    by (cases s) (auto simp: mng_handlers simp del: mng_code.simps intro: mng_along_results)
  then show ?thesis using stm_dispatch_spec [OF assms(6,2)] by blast
qed

lemma mng_event_edge:
  assumes "handler \<in> {stm_handler_read, stm_handler_write, stm_handler_block}"
    and "run_machine handler client_mng k w = Inr (ret, w')" and "sv_heap w (key_data k) = Some d"
    and "terminals_ok d" and "\<not> isSocks d" and "stm_inv client_mng (conn_stm d)"
    and "stm_current (conn_stm d) = Some (mng_code s)"
  shows "along mng_code (mng_edge d s) ret \<and>
    (\<exists>d'. sv_heap w' (key_data k) = Some d' \<and> stm_current (conn_stm d') = Some ret)"
proof -
  from assms(1) obtain ready where ready: "handler = stm_dispatch ready"
    "ready \<in> {on_read_ready, on_write_ready, on_block_ready}" by (auto simp: stm_handler_defs)
  from run_machine_Inr [OF assms(2) [unfolded ready(1)] assms(3)] obtain m w1 d1 where
    run: "stm_dispatch ready client_mng (conn_stm d) k w = Inr (ret, m, w1)"
    "sv_heap w' (key_data k) = Some (d1\<lparr>conn_stm := m\<rparr>)" by blast
  from mng_dispatch_edge [OF ready(2) run(1) assms(3-7)] run(2) show ?thesis by auto
qed

section \<open>Events without a handler\<close>

text \<open>The states whose machine aborts the process at a read, a write or a block event.\<close>

lemma run_machine_missing:
  assumes "sv_heap w (key_data k) = Some d" and "stm_inv tbl (conn_stm d)" and "stm_current (conn_stm d) = Some c"
    and "ready (tbl ! c) = None"
  shows "run_machine (stm_dispatch ready) tbl k w = Inl Aborted"
  using stm_dispatch_missing [of tbl "conn_stm d" c ready] assms by (simp add: run_machine_def bind_sv_def get_conn_def)

lemma socks_event_missing:
  assumes "sv_heap w (key_data k) = Some d" and "stm_inv client_statbl (conn_stm d)"
    and "stm_current (conn_stm d) = Some (socks_code s)"
  shows "s \<notin> {HELLO_READ, USERPASS_READ, REQUEST_READ, COPY} \<Longrightarrow> socksv5_read k w = Inl Aborted"
    and "s \<notin> {HELLO_WRITE, USERPASS_WRITE, REQUEST_CONNECTING, REQUEST_WRITE, COPY} \<Longrightarrow>
      socksv5_write k w = Inl Aborted"
    and "s \<noteq> REQUEST_RESOLV \<Longrightarrow> socksv5_block k w = Inl Aborted"
  by (cases s; simp add: socksv5_read_def socksv5_write_def socksv5_block_def bind_sv_def stm_handler_defs
      run_machine_missing [OF assms] socks_handlers del: socks_code.simps)+

end
