(* ===== verification/Lifecycle.thy ===== *)
theory Lifecycle
  imports Protocol_Order
begin

unbundle bit_operations_syntax

text \<open>
  The life of a connection: the accept handlers on every branch, the end of a connection
  (both descriptors removed and closed, the structure pooled or freed), and the pool.
\<close>

section \<open>Accept\<close>

text \<open>What \<open>socks5_new\<close> leaves in the structure, with the address of the client.\<close>

definition fresh_conn :: "bool \<Rightarrow> int \<Rightarrow> sockaddr \<Rightarrow> socks5" where
  "fresh_conn socks c addr = zero_socks5\<lparr>isSocks := socks, origin_fd := -1, client_fd := c, client_addr := addr,
     conn_stm := \<lparr>stm_initial = 0, stm_max_state = (if socks then 10 else 8), stm_current = None\<rparr>,
     done_state := (if socks then socks_code DONE else mng_code MNG_DONE),
     error_state := (if socks then socks_code ERROR else mng_code MNG_ERROR),
     conn_dissec := conn_dissec zero_socks5,
     read_buffer := buffer_init BUFFER_LENGTH (replicate BUFFER_LENGTH 0),
     write_buffer := buffer_init BUFFER_LENGTH (replicate BUFFER_LENGTH 0),
     references := 1\<rparr>"

lemma stm_init_tables:
  "stm_init client_statbl \<lparr>stm_initial = 0, stm_max_state = 10, stm_current = c\<rparr> =
     Inr \<lparr>stm_initial = 0, stm_max_state = 10, stm_current = None\<rparr>"
  "stm_init client_mng \<lparr>stm_initial = 0, stm_max_state = 8, stm_current = c\<rparr> =
     Inr \<lparr>stm_initial = 0, stm_max_state = 8, stm_current = None\<rparr>"
  unfolding stm_init_inv using tables_ok_states by (simp_all add: stm_inv_def)

lemma new_connection:
  "pool_take k w = Inr (Some i, w1) \<Longrightarrow> bind_sv (socks5_new k c) (\<lambda>x. case x of
     None \<Rightarrow> g | Some i \<Rightarrow> bind_sv (set_client_addr i addr) (\<lambda>_. f i)) w =
     f i (w1\<lparr>sv_heap := (sv_heap w1)(i \<mapsto> fresh_conn True c addr)\<rparr>)"
  "mng_pool_take k w = Inr (Some i, w1) \<Longrightarrow> bind_sv (mng_new k c) (\<lambda>x. case x of
     None \<Rightarrow> g | Some i \<Rightarrow> bind_sv (set_client_addr i addr) (\<lambda>_. f i)) w =
     f i (w1\<lparr>sv_heap := (sv_heap w1)(i \<mapsto> fresh_conn False c addr)\<rparr>)"
  by (simp_all add: socks5_new_def mng_new_def bind_sv_def lift_sv_def ret_sv_def put_heap_def modify_sv_def
      set_client_addr_def stm_init_tables fresh_conn_def zero_socks5_def dissec_parser_init_def)

lemma pool_take_unchanged:
  "pool_take k w = Inr (x, w1) \<Longrightarrow> sv_selector w1 = sv_selector w \<and> sv_log w1 = sv_log w"
  "mng_pool_take k w = Inr (x, w1) \<Longrightarrow> sv_selector w1 = sv_selector w \<and> sv_log w1 = sv_log w"
  by (auto simp: pool_take_def mng_pool_take_def split: list.splits if_splits)

definition accepted_item :: "handler_id \<Rightarrow> int \<Rightarrow> nat \<Rightarrow> (handler_id, nat) item" where
  "accepted_item h c i = \<lparr>item_fd = c, item_interest = OP_READ, item_handler = Some h, item_data = Some i\<rparr>"

text \<open>A client that is taken in.\<close>

lemma socks_accept_ok:
  assumes "os_accept k fd = Some (c, addr)" and "selector_fd_set_nio (os_getfd k c) (os_setfl k c) \<noteq> -1"
    and "pool_take k w = Inr (Some i, w1)" and "sel_full (sv_selector w)" and "\<not> INVALID_FD c"
    and "sel_lookup (sv_selector w) c = None"
  shows "\<exists>s. socksv5_passive_accept k fd w =
      Inr ((), w1\<lparr>sv_heap := (sv_heap w1)(i \<mapsto> fresh_conn True c addr), sv_selector := s\<rparr>) \<and> sel_full s \<and>
    sel_lookup s = (sel_lookup (sv_selector w))(c \<mapsto> accepted_item Socks5_handler c i)"
proof -
  let ?v = "w1\<lparr>sv_heap := (sv_heap w1)(i \<mapsto> fresh_conn True c addr)\<rparr>"
  have "sel_full (sv_selector ?v)" "sel_lookup (sv_selector ?v) c = None" "sv_selector ?v = sv_selector w"
    using pool_take_unchanged(1) [OF assms(3)] assms(4,6) by auto
  moreover have "socksv5_passive_accept k fd w = bind_sv (register k c Socks5_handler OP_READ (Some i)) (\<lambda>ss.
      if SELECTOR_SUCCESS \<noteq> ss
      then bind_sv (close_fd c) (\<lambda>_ w. bind_res (socks5_destroy (Some i) w) (\<lambda>w'. Inr ((), w'))) else ret_sv ()) ?v"
    using assms(1,2) by (simp add: socksv5_passive_accept_def new_connection(1) [OF assms(3)] del: OP_values)
  ultimately show ?thesis
    using register_ok [of ?v c k Socks5_handler OP_READ "Some i"] assms(5)
    by (auto simp: bind_sv_def ret_sv_def accepted_item_def simp del: OP_values)
qed

lemma mng_accept_ok:
  assumes "os_accept k fd = Some (c, addr)" and "selector_fd_set_nio (os_getfd k c) (os_setfl k c) \<noteq> -1"
    and "mng_pool_take k w = Inr (Some i, w1)" and "sel_full (sv_selector w)" and "\<not> INVALID_FD c"
    and "sel_lookup (sv_selector w) c = None"
  shows "\<exists>s. mng_passive_accept k fd w =
      Inr ((), w1\<lparr>sv_heap := (sv_heap w1)(i \<mapsto> fresh_conn False c addr), sv_selector := s\<rparr>) \<and> sel_full s \<and>
    sel_lookup s = (sel_lookup (sv_selector w))(c \<mapsto> accepted_item Mng_handler c i)"
proof -
  let ?v = "w1\<lparr>sv_heap := (sv_heap w1)(i \<mapsto> fresh_conn False c addr)\<rparr>"
  have "sel_full (sv_selector ?v)" "sel_lookup (sv_selector ?v) c = None" "sv_selector ?v = sv_selector w"
    using pool_take_unchanged(2) [OF assms(3)] assms(4,6) by auto
  moreover have "mng_passive_accept k fd w = bind_sv (register k c Mng_handler OP_READ (Some i)) (\<lambda>ss.
      if SELECTOR_SUCCESS \<noteq> ss
      then bind_sv (close_fd c) (\<lambda>_ w. bind_res (mng_destroy (Some i) w) (\<lambda>w'. Inr ((), w'))) else ret_sv ()) ?v"
    using assms(1,2) by (simp add: mng_passive_accept_def new_connection(2) [OF assms(3)] del: OP_values)
  ultimately show ?thesis
    using register_ok [of ?v c k Mng_handler OP_READ "Some i"] assms(5)
    by (auto simp: bind_sv_def ret_sv_def accepted_item_def simp del: OP_values)
qed

text \<open>A client that is turned away: its descriptor is closed, the table does not change.\<close>

lemma socks_accept_refused:
  assumes "os_accept k fd = Some (c, addr)"
    and "selector_fd_set_nio (os_getfd k c) (os_setfl k c) = -1 \<or> sv_pool w = [] \<and> \<not> os_alloc k Alloc_conn"
  shows "socksv5_passive_accept k fd w = Inr ((), w\<lparr>sv_log := sv_log w @ [Closed c]\<rparr>)"
  using assms
  by (auto simp: socksv5_passive_accept_def close_fd_def emit_def modify_sv_def socks5_new_def pool_take_def
      bind_sv_def ret_sv_def)

section \<open>The end of a connection\<close>

definition owned_by :: "server \<Rightarrow> nat \<Rightarrow> int \<Rightarrow> bool" where
  "owned_by w i fd \<longleftrightarrow> (\<exists>it. sel_lookup (sv_selector w) fd = Some it \<and> item_handler it = Some Socks5_handler \<and>
     item_data it = Some i)"

text \<open>What is left of the structure \<open>i\<close> when its last reference goes.\<close>

definition released :: "nat \<Rightarrow> server \<Rightarrow> server" where
  "released i w = (if sv_pool_size w < max_pool
     then w\<lparr>sv_pool := i # sv_pool w, sv_pool_size := sv_pool_size w + 1\<rparr> else socks5_free i w)"

lemma close_one:
  assumes "sel_full (sv_selector w)" and "owned_by w i fd" and "sv_heap w i = Some d" and "fd \<noteq> -1"
  shows "\<exists>s. close_fds (fd # l) w = close_fds l ((if references d = 1 then released i w
      else w\<lparr>sv_heap := (sv_heap w)(i \<mapsto> d\<lparr>references := references d - 1\<rparr>)\<rparr>)
        \<lparr>sv_selector := s, sv_log := sv_log w @ [Closed fd]\<rparr>) \<and> sel_full s \<and>
    sel_lookup s = (sel_lookup (sv_selector w))(fd := None)"
proof -
  obtain it where it: "registered w fd it" "item_handler it = Some Socks5_handler" "item_data it = Some i"
    using assms(1,2) by (auto simp: owned_by_def registered_def)
  let ?v = "if references d = 1 then released i w
      else w\<lparr>sv_heap := (sv_heap w)(i \<mapsto> d\<lparr>references := references d - 1\<rparr>)\<rparr>"
  have "(case handle_close Socks5_handler of None \<Rightarrow> Inr w | Some f \<Rightarrow> f fd (item_data it) w) = Inr ?v"
    using it(3) assms(3) by (simp add: socksv5_close_def socks5_destroy_def released_def)
  from unregister_ok [OF it(1,2) this] obtain s where
    s: "unregister fd w = Inr (SELECTOR_SUCCESS, ?v\<lparr>sv_selector := s\<rparr>)" "sel_full s"
      "sel_lookup s = (sel_lookup (sv_selector w))(fd := None)" by blast
  have "sv_log ?v = sv_log w" by (simp add: released_def socks5_free_def)
  with s assms(4) show ?thesis
    by (intro exI [of _ s]) (simp add: bind_sv_def close_fd_def emit_def modify_sv_def)
qed

lemma socksv5_done_ok:
  assumes "sel_full (sv_selector w)" and "sv_heap w (key_data k) = Some d" and "references d = 2"
    and "owned_by w (key_data k) (client_fd d)" and "owned_by w (key_data k) (origin_fd d)"
    and "client_fd d \<noteq> origin_fd d" and "client_fd d \<noteq> -1" and "origin_fd d \<noteq> -1"
  shows "\<exists>s. socksv5_done k w = Inr ((), (released (key_data k)
      (w\<lparr>sv_heap := (sv_heap w)(key_data k \<mapsto> d\<lparr>references := 1\<rparr>)\<rparr>))
        \<lparr>sv_selector := s, sv_log := sv_log w @ [Closed (client_fd d), Closed (origin_fd d)]\<rparr>) \<and> sel_full s \<and>
    sel_lookup s = (sel_lookup (sv_selector w))(client_fd d := None, origin_fd d := None)"
proof -
  let ?i = "key_data k" and ?d = "d\<lparr>references := 1\<rparr>"
  from close_one [OF assms(1,4,2,7), of "[origin_fd d]"] assms(3) obtain s1 where
    s1: "close_fds [client_fd d, origin_fd d] w = close_fds [origin_fd d] (w\<lparr>sv_heap := (sv_heap w)(?i \<mapsto> ?d),
      sv_selector := s1, sv_log := sv_log w @ [Closed (client_fd d)]\<rparr>)" "sel_full s1"
      "sel_lookup s1 = (sel_lookup (sv_selector w))(client_fd d := None)" by auto
  let ?v = "w\<lparr>sv_heap := (sv_heap w)(?i \<mapsto> ?d), sv_selector := s1, sv_log := sv_log w @ [Closed (client_fd d)]\<rparr>"
  have "owned_by ?v ?i (origin_fd d)" using assms(5,6) s1(3) by (auto simp: owned_by_def)
  from close_one [of ?v ?i "origin_fd d" ?d "[]"] this s1(2) assms(8) obtain s where
    s: "close_fds [origin_fd d] ?v = Inr ((), (released ?i ?v)\<lparr>sv_selector := s,
      sv_log := sv_log w @ [Closed (client_fd d), Closed (origin_fd d)]\<rparr>)" "sel_full s"
      "sel_lookup s = (sel_lookup s1)(origin_fd d := None)" by (auto simp: ret_sv_def)
  have "(released ?i ?v)\<lparr>sv_selector := s, sv_log := l\<rparr> =
      (released ?i (w\<lparr>sv_heap := (sv_heap w)(?i \<mapsto> ?d)\<rparr>))\<lparr>sv_selector := s, sv_log := l\<rparr>" for l
    by (simp add: released_def socks5_free_def)
  then show ?thesis
    using s s1 assms(2)
    by (intro exI [of _ s]) (simp add: socksv5_done_def bind_sv_def get_conn_def del: close_fds.simps)
qed

lemma socksv5_done_client:
  assumes "sel_full (sv_selector w)" and "sv_heap w (key_data k) = Some d" and "references d = 1"
    and "owned_by w (key_data k) (client_fd d)" and "client_fd d \<noteq> -1" and "origin_fd d = -1"
  shows "\<exists>s. socksv5_done k w = Inr ((), (released (key_data k) w)
        \<lparr>sv_selector := s, sv_log := sv_log w @ [Closed (client_fd d)]\<rparr>) \<and> sel_full s \<and>
    sel_lookup s = (sel_lookup (sv_selector w))(client_fd d := None)"
proof -
  have "close_fds [-1] v = Inr ((), v)" for v by (simp add: ret_sv_def)
  with close_one [OF assms(1,4,2,5), of "[-1]"] assms(2,3,6) show ?thesis
    by (auto simp: socksv5_done_def bind_sv_def get_conn_def simp del: close_fds.simps(2))
qed

text \<open>The selector does not know the origin: the process aborts.\<close>

lemma socksv5_done_aborts:
  assumes "sel_full (sv_selector w)" and "sv_heap w (key_data k) = Some d" and "client_fd d \<noteq> -1"
    and "sel_lookup (sv_selector w) (client_fd d) = None"
  shows "socksv5_done k w = Inl Aborted"
  using unregister_unknown [OF assms(1,4)] assms(2,3)
  by (simp add: socksv5_done_def bind_sv_def get_conn_def fail_sv_def)

end
