(* ===== verification/Copy_Session.thy ===== *)
theory Copy_Session
  imports Lifecycle
begin

unbundle bit_operations_syntax

text \<open>
  Whole copying sessions: any sequence of read and write events on the two descriptors of a
  connection in the state COPY, with any answers of the kernel that its manual allows.
\<close>

inductive copy_events :: "nat \<Rightarrow> server \<Rightarrow> server \<Rightarrow> bool" for i where
  no_event: "copy_events i w w"
| read_event: "copy_events i w v \<Longrightarrow> sv_heap v i = Some d \<Longrightarrow> key_data k = i \<Longrightarrow> key_fd k = side_fd sd d \<Longrightarrow>
     os_ok (key_os k) \<Longrightarrow> dissec_alloc_sized (os_sniff (key_os k)) \<Longrightarrow> copy_read k v = Inr (ret, w') \<Longrightarrow>
     copy_events i w w'"
| write_event: "copy_events i w v \<Longrightarrow> sv_heap v i = Some d \<Longrightarrow> key_data k = i \<Longrightarrow> key_fd k = side_fd sd d \<Longrightarrow>
     os_ok (key_os k) \<Longrightarrow> copy_write k v = Inr (ret, w') \<Longrightarrow> copy_events i w w'"

text \<open>What a session has done between \<open>w\<close> and \<open>v\<close>.\<close>

definition copied :: "nat \<Rightarrow> server \<Rightarrow> socks5 \<Rightarrow> server \<Rightarrow> bool" where
  "copied i w d v \<longleftrightarrow> (\<exists>d' l. (\<forall>k. key_data k = i \<longrightarrow> copy_world k v d') \<and> sv_log v = sv_log w @ l \<and> flow d l d')"

lemma copy_world_key: "copy_world k w d \<Longrightarrow> key_data k' = key_data k \<Longrightarrow> copy_world k' w d"
  by (simp add: copy_world_def)

lemma copied_step:
  assumes "copied i w d v" and "sv_heap v i = Some e" and "key_data k = i"
    and result: "copy_world k v e \<Longrightarrow> copy_result k sd v e (Inr (ret, w'))"
  shows "copied i w d w'"
proof -
  from assms(1-3) obtain l where l: "copy_world k v e" "sv_log v = sv_log w @ l" "flow d l e"
    by (auto simp: copied_def copy_world_def)
  from result [OF l(1)] obtain d' l' where
    d': "copy_world k w' d'" "sv_log w' = sv_log v @ l'" "flow e l' d'" by (auto simp: copy_result_def)
  have "copy_world k' w' d'" if "key_data k' = i" for k'
    using copy_world_key [OF d'(1)] that assms(3) by simp
  moreover have "flow d (l @ l') d'" using flow_trans [OF l(3) d'(3)] .
  ultimately show ?thesis using d'(2) l(2) by (auto simp: copied_def)
qed

lemma copy_events_flow: "copy_events i w v \<Longrightarrow> copied i w d w \<Longrightarrow> copied i w d v"
proof (induction rule: copy_events.induct)
  case (no_event w)
  then show ?case by blast
next
  case (read_event w v e k sd ret w')
  from copied_step [of i w d v e k sd ret w'] copy_read_ok [of k v e sd] read_event show ?case by auto
next
  case (write_event w v e k sd ret w')
  then show ?case using copied_step [of i w d v e k sd ret w'] copy_write_ok [of k v e sd] by metis
qed

text \<open>No event of a session fails, except a read whose dissector is refused a block.\<close>

lemma copied_results:
  assumes "copied i w d v" and "sv_heap v i = Some e" and "key_data k = i" and "key_fd k = side_fd sd e"
    and "os_ok (key_os k)"
  shows "dissec_alloc_sized (os_sniff (key_os k)) \<Longrightarrow>
      copy_result k sd v e (copy_read k v) \<or> copy_read k v = Inl Undefined \<and> sniff_refused k v"
    and "copy_result k sd v e (copy_write k v)"
proof -
  have "copy_world k v e" using assms(1-3) by (auto simp: copied_def copy_world_def)
  from copy_read_ok [OF this assms(4,5)] copy_write_ok [OF this assms(4,5)]
  show "dissec_alloc_sized (os_sniff (key_os k)) \<Longrightarrow>
      copy_result k sd v e (copy_read k v) \<or> copy_read k v = Inl Undefined \<and> sniff_refused k v"
    and "copy_result k sd v e (copy_write k v)" by simp_all
qed

lemma copied_no_fault:
  assumes "copied i w d v" and "sv_heap v i = Some e" and "key_data k = i" and "key_fd k = side_fd sd e"
    and "os_ok (key_os k)" and "dissec_alloc_ok (os_sniff (key_os k))"
  shows "\<exists>ret w'. copy_read k v = Inr (ret, w')" and "\<exists>ret w'. copy_write k v = Inr (ret, w')"
  using copied_results [OF assms(1-5)] alloc_ok_sized [OF assms(6)] by (auto simp: copy_result_def sniff_refused_def)

lemma copied_start:
  assumes "copy_world k w d" and "key_data k = i"
  shows "copied i w d w"
proof -
  have "\<forall>k'. key_data k' = i \<longrightarrow> copy_world k' w d" using copy_world_key [OF assms(1)] assms(2) by auto
  then show ?thesis unfolding copied_def by (intro exI [of _ d] exI [of _ "[]"]) simp
qed

end
