(* ===== verification/Login.thy ===== *)
theory Login
  imports Copy_Session
begin

unbundle bit_operations_syntax

text \<open>
  The events of a connection, for both services: a handler of \<open>src/src/socks5nio.c\<close> or
  \<open>src/src/mng_nio.c\<close> runs the machine of the connection and then looks at the state it ended in.
  The two tables begin with the same four states, so the login, event by event, is proved once:
  greeting, method reply, credentials, their reply.
\<close>

section \<open>Events of a machine\<close>

definition machine_at :: "nat \<Rightarrow> nat \<Rightarrow> state_machine" where
  "machine_at m s = \<lparr>stm_initial = 0, stm_max_state = m, stm_current = Some s\<rparr>"

text \<open>A connection between two events, in the state \<open>s\<close>, of a server with sound buffers.\<close>

definition session_at :: "nat \<Rightarrow> bool \<Rightarrow> skey \<Rightarrow> server \<Rightarrow> socks5 \<Rightarrow> nat \<Rightarrow> bool" where
  "session_at m socks k w d s \<longleftrightarrow>
     sv_heap w (key_data k) = Some d \<and> selector.inv w \<and> isSocks d = socks \<and> conn_stm d = machine_at m s"

lemma inv_conn:
  assumes "selector.inv w" and "sv_heap w (key_data k) = Some d"
  shows "at_conn k w d" and "conn_ok d" and "sel_full (sv_selector w)"
    and "buffer_content (read_buffer d) = [] \<Longrightarrow> buffer_free (read_buffer d) = 2048"
    and "buffer_content (write_buffer d) = [] \<Longrightarrow> buffer_free (write_buffer d) = 2048"
  using assms
  by (auto simp: selector.inv_def heap_ok_def at_conn_def conn_ok_def sound_buffer_def BUFFER_LENGTH_def
      buffer_free_empty)

lemma machine_at_simps [simp]:
  "stm_initial (machine_at m s) = 0" "stm_max_state (machine_at m s) = m" "stm_current (machine_at m s) = Some s"
  by (simp_all add: machine_at_def)

lemma session_at_facts:
  assumes "session_at m socks k w d s"
  shows "at_conn k w d" and "sv_heap w (key_data k) = Some d"
    and "buffer_content (read_buffer d) = [] \<Longrightarrow> buffer_free (read_buffer d) = 2048"
    and "buffer_content (write_buffer d) = [] \<Longrightarrow> buffer_free (write_buffer d) = 2048"
  using assms inv_conn [of w k d] by (auto simp: session_at_def)

lemma session_at_key: "session_at m socks k w d s \<Longrightarrow> key_data k' = key_data k \<Longrightarrow> session_at m socks k' w d s"
  by (simp add: session_at_def)

text \<open>
  A table with the states up to \<open>m\<close>, those from \<open>final\<close> on being the end and the error; \<open>finish\<close>
  is what the handler does behind the machine.
\<close>

locale machine_events =
  fixes tbl :: "(skey, server) state_definition list" and m :: nat and socks :: bool
    and finish :: "skey \<Rightarrow> nat \<Rightarrow> unit srv" and final :: nat
  assumes table: "table_ok tbl m" and final: "4 < final" "final \<le> m"
    and finish: "s < final \<Longrightarrow> finish k s w = Inr ((), w)"
    and keeps: "ready = on_read_ready \<or> ready = on_write_ready \<or> ready = on_block_ready \<Longrightarrow>
      keeps selector.inv (run_machine (stm_dispatch ready) tbl k)"
begin

lemma machine_inv: "s \<le> m \<Longrightarrow> stm_inv tbl (machine_at m s)"
  using table final by (simp add: machine_at_def stm_inv_def)

text \<open>A callback that goes to another state, with the hooks of the two states.\<close>

lemma dispatch:
  assumes "ready (tbl ! s) = Some f" and "f k w = Inr (t, w1)" and "s \<noteq> t" and "s \<le> m" and "t \<le> m"
    and "run_hook (on_departure (tbl ! s)) s k w1 = Inr w2" and "run_hook (on_arrival (tbl ! t)) t k w2 = Inr w3"
  shows "stm_dispatch ready tbl (machine_at m s) k w = Inr (t, machine_at m t, w3)"
proof -
  have "(machine_at m s)\<lparr>stm_current := Some t\<rparr> = machine_at m t" by (simp add: machine_at_def)
  then show ?thesis
    using stm_dispatch_started [OF machine_inv [OF assms(4)], of s ready f k w t w1] assms by simp
qed

text \<open>
  The event of the connection's handler around it. The world \<open>w0\<close> is \<open>w\<close>, or \<open>w\<close> with what the
  request changed in the globals.
\<close>

lemma event:
  assumes "selector.inv w" and "sv_heap w (key_data k) = Some d"
    and "stm_dispatch ready tbl (conn_stm d) k w = Inr (t, machine_at m t, v)"
    and "moved k w0 L e l v" and "isSocks e = socks" and "t < final"
    and "ready = on_read_ready \<or> ready = on_write_ready \<or> ready = on_block_ready"
  shows "\<exists>w'. bind_sv (run_machine (stm_dispatch ready) tbl k) (finish k) w = Inr ((), w') \<and>
    session_at m socks k w' (e\<lparr>conn_stm := machine_at m t\<rparr>) t \<and> moved k w0 L (e\<lparr>conn_stm := machine_at m t\<rparr>) l w'"
proof -
  have e: "sv_heap v (key_data k) = Some e" using moved_conn [OF assms(4)] .
  let ?w = "v\<lparr>sv_heap := (sv_heap v)(key_data k \<mapsto> e\<lparr>conn_stm := machine_at m t\<rparr>)\<rparr>"
  have run: "run_machine (stm_dispatch ready) tbl k w = Inr (t, ?w)"
    using assms(2,3) e
    by (simp add: run_machine_def bind_sv_def get_conn_def put_conn_def modify_sv_def ret_sv_def)
  from keepsD [OF keeps [OF assms(7)] assms(1) run] have "selector.inv ?w" .
  moreover have "bind_sv (run_machine (stm_dispatch ready) tbl k) (finish k) w = Inr ((), ?w)"
    using run finish [OF assms(6)] by (simp add: bind_sv_def)
  ultimately show ?thesis
    using moved_put [OF assms(4), of "e\<lparr>conn_stm := machine_at m t\<rparr>"] assms(5)
    by (auto simp: session_at_def)
qed

text \<open>A step of a connection that is in a state already, with its hooks.\<close>

lemma step:
  assumes at: "session_at m socks k w d s" and f: "ready (tbl ! s) = Some f" "f k w = Inr (t, w1)" "s \<noteq> t" "s \<le> m"
    and hooks: "run_hook (on_departure (tbl ! s)) s k w1 = Inr w2" "run_hook (on_arrival (tbl ! t)) t k w2 = Inr w3"
    and "moved k w0 L e l w3" and "isSocks e = socks" and "t < final"
    and "ready = on_read_ready \<or> ready = on_write_ready \<or> ready = on_block_ready"
  shows "\<exists>w'. bind_sv (run_machine (stm_dispatch ready) tbl k) (finish k) w = Inr ((), w') \<and>
    session_at m socks k w' (e\<lparr>conn_stm := machine_at m t\<rparr>) t \<and> moved k w0 L (e\<lparr>conn_stm := machine_at m t\<rparr>) l w'"
proof -
  have d: "conn_stm d = machine_at m s" "selector.inv w" "sv_heap w (key_data k) = Some d"
    using at by (simp_all add: session_at_def)
  have t: "t \<le> m" using assms(10) final(2) by simp
  have "stm_dispatch ready tbl (conn_stm d) k w = Inr (t, machine_at m t, w3)"
    unfolding d(1) by (rule dispatch [where ready = ready and f = f and k = k, OF f t hooks])
  from event [OF d(2,3) this assms(8-11)] show ?thesis .
qed

text \<open>A step into the end, with what the handler does there.\<close>

lemma last_step:
  assumes at: "session_at m socks k w d s" and f: "ready (tbl ! s) = Some f" "f k w = Inr (t, w1)" "s \<noteq> t" "s \<le> m" "t \<le> m"
    and hooks: "run_hook (on_departure (tbl ! s)) s k w1 = Inr w2" "run_hook (on_arrival (tbl ! t)) t k w2 = Inr w3"
    and "moved k w0 L e l w3"
  shows "\<exists>v. bind_sv (run_machine (stm_dispatch ready) tbl k) (finish k) w = finish k t v \<and>
    moved k w0 L (e\<lparr>conn_stm := machine_at m t\<rparr>) l v"
proof -
  have d: "conn_stm d = machine_at m s" "sv_heap w (key_data k) = Some d" using at by (simp_all add: session_at_def)
  let ?v = "w3\<lparr>sv_heap := (sv_heap w3)(key_data k \<mapsto> e\<lparr>conn_stm := machine_at m t\<rparr>)\<rparr>"
  have "stm_dispatch ready tbl (conn_stm d) k w = Inr (t, machine_at m t, w3)"
    unfolding d(1) by (rule dispatch [where ready = ready and f = f and k = k, OF f hooks])
  then have "run_machine (stm_dispatch ready) tbl k w = Inr (t, ?v)"
    using d(2) moved_conn [OF assms(9)]
    by (simp add: run_machine_def bind_sv_def get_conn_def put_conn_def modify_sv_def ret_sv_def)
  then show ?thesis using moved_put [OF assms(9), of "e\<lparr>conn_stm := machine_at m t\<rparr>"] by (auto simp: bind_sv_def)
qed

end

text \<open>What the negotiation leaves alone.\<close>

definition kept :: "socks5 \<Rightarrow> socks5 \<Rightarrow> bool" where
  "kept d d' \<longleftrightarrow> client_fd d' = client_fd d \<and> client_addr d' = client_addr d \<and> conn_dissec d' = conn_dissec d \<and>
     origin_resolution_current d' = origin_resolution_current d \<and> isSocks d' = isSocks d"

lemma kept_trans: "kept d d1 \<Longrightarrow> kept d1 d' \<Longrightarrow> kept d d'"
  by (simp add: kept_def)

text \<open>The login leaves the references alone too.\<close>

definition logged :: "socks5 \<Rightarrow> socks5 \<Rightarrow> bool" where
  "logged d d' \<longleftrightarrow> kept d d' \<and> references d' = references d"

lemma logged_trans: "logged d d1 \<Longrightarrow> logged d1 d' \<Longrightarrow> logged d d'"
  by (simp add: logged_def kept_def)

lemma moved_registered: "moved k w L d l v \<Longrightarrow> L fd = Some it \<Longrightarrow> registered v fd it"
  by (simp add: moved_def registered_def)

lemma moved_tables:
  assumes "moved k w L d l v"
  shows "tables_ok v = tables_ok w" and "login_table e v = login_table e w" and "sv_users v = sv_users w"
    and "auth_method v = auth_method w" and "sel_lookup (sv_selector v) = L" and "sv_log v = sv_log w @ l"
  using assms by (auto simp: moved_def same_rest_def tables_ok_def login_table_def)

section \<open>The hooks\<close>

lemma hello_read_close_ok:
  assumes "sv_heap w (key_data k) = Some d" and "client d = Client_hello h" and "hs_parser h = Ptr p"
  shows "hello_read_close st k w =
    Inr (w\<lparr>sv_heap := (sv_heap w)(key_data k \<mapsto> d\<lparr>client := Client_hello (h\<lparr>hs_parser := Freed_ptr\<rparr>)\<rparr>)\<rparr>)"
  using assms by (simp add: hello_read_close_def with_hello_def sv_simps)

lemma hello_write_hooks:
  assumes "sv_heap w (key_data k) = Some d" and "client d = Client_hello h"
  shows "hello_write_init st k w = Inr w" and "hello_write_close st k w = Inr w"
  using assms by (simp_all add: hello_write_init_def hello_write_close_def with_hello_def sv_simps)

text \<open>No allocation fails.\<close>

definition plentiful :: "os \<Rightarrow> bool" where
  "plentiful os \<longleftrightarrow> allocator_ok (os_block os) \<and> (\<forall>a. os_alloc os a) \<and> (\<forall>i n. os_block os i n \<noteq> None) \<and>
     (\<forall>i. os_request os i \<noteq> None)"

definition userpass_ready :: "byte list \<Rightarrow> client_stage" where
  "userpass_ready m = Client_userpass \<lparr>up_parser = Parser_ready (userpass_parser m), up_status = AUTH_SUCCESS\<rparr>"

lemma auth_read_init_ok:
  assumes "sv_heap w (key_data k) = Some d" and "plentiful (key_os k)"
  shows "\<exists>m. length m = 2 \<and> auth_read_init st k w =
    Inr (w\<lparr>sv_heap := (sv_heap w)(key_data k \<mapsto> d\<lparr>client := userpass_ready m\<rparr>)\<rparr>)"
proof -
  obtain m where m: "os_block (key_os k) 0 2 = Some m" using assms(2) by (fastforce simp: plentiful_def)
  then have "length m = 2" using assms(2) by (auto simp: plentiful_def allocator_ok_def)
  then show ?thesis
    using auth_read_init_ready [OF assms(1) _ m, of st] assms(2)
    by (auto simp: userpass_ready_def plentiful_def)
qed

lemma auth_read_close_ok:
  assumes "sv_heap w (key_data k) = Some d" and "client d = Client_userpass u" and "up_parser u = Parser_ready p"
  shows "auth_read_close st k w =
    Inr (w\<lparr>sv_heap := (sv_heap w)(key_data k \<mapsto> d\<lparr>client := Client_userpass (u\<lparr>up_parser := Parser_freed\<rparr>)\<rparr>)\<rparr>)"
  using assms by (simp add: auth_read_close_def with_userpass_def close_parser_def sv_simps)

lemma auth_write_hooks:
  assumes "sv_heap w (key_data k) = Some d" and "client d = Client_userpass u"
  shows "auth_write_init st k w = Inr w" and "auth_write_close st k w = Inr w"
  using assms by (simp_all add: auth_write_init_def auth_write_close_def with_userpass_def sv_simps)

lemma authenticated_fields [simp]:
  "client (authenticated u p us d) = client d" "read_buffer (authenticated u p us d) = read_buffer d"
  "write_buffer (authenticated u p us d) = write_buffer d" "isSocks (authenticated u p us d) = isSocks d"
  "conn_stm (authenticated u p us d) = conn_stm d" "logged d (authenticated u p us d)"
  by (simp_all add: authenticated_def logged_def kept_def split: option.splits)

text \<open>The selector key of an event on the descriptor \<open>fd\<close> of the connection \<open>i\<close>.\<close>

definition event_key :: "nat \<Rightarrow> int \<Rightarrow> os \<Rightarrow> skey" where
  "event_key i fd os = \<lparr>key_fd = fd, key_data = i, key_os = os\<rparr>"

lemma event_key_simps [simp]:
  "key_fd (event_key i fd os) = fd" "key_data (event_key i fd os) = i" "key_os (event_key i fd os) = os"
  by (simp_all add: event_key_def)

fun events_in_order :: "unit srv list \<Rightarrow> unit srv" where
  "events_in_order [] = ret_sv ()"
| "events_in_order (m # ms) = bind_sv m (\<lambda>_. events_in_order ms)"

lemma events_Cons: "m w = Inr ((), v) \<Longrightarrow> events_in_order (m # ms) w = events_in_order ms v"
  by (simp add: bind_sv_def)

lemma events_append:
  "events_in_order xs w = Inr ((), v) \<Longrightarrow> events_in_order (xs @ ys) w = events_in_order ys v"
  by (induction xs arbitrary: w) (auto simp: bind_sv_def ret_sv_def bind_res_eq_Inr)


section \<open>The login\<close>

text \<open>
  The first four states are those of both tables; the fifth starts its stage from a structure of
  \<open>stage\<close>.
\<close>

locale login_machine = machine_events +
  fixes stage :: "client_stage set"
  assumes four: "s < 4 \<Longrightarrow> tbl ! s = client_mng ! s"
    and arrival: "sv_heap w (key_data k) = Some d \<Longrightarrow> plentiful (key_os k) \<Longrightarrow>
      \<exists>c \<in> stage. run_hook (on_arrival (tbl ! 4)) 4 k w = Inr (w\<lparr>sv_heap := (sv_heap w)(key_data k \<mapsto> d\<lparr>client := c\<rparr>)\<rparr>)"
begin

lemma entries [simp]:
  "on_arrival (tbl ! 0) = Some hello_read_init" "on_departure (tbl ! 0) = Some hello_read_close"
  "on_arrival (tbl ! Suc 0) = Some hello_write_init" "on_departure (tbl ! Suc 0) = Some hello_write_close"
  "on_arrival (tbl ! 2) = Some auth_read_init" "on_departure (tbl ! 2) = Some auth_read_close"
  "on_arrival (tbl ! 3) = Some auth_write_init" "on_departure (tbl ! 3) = Some auth_write_close"
  "on_read_ready (tbl ! 0) = Some hello_read" "on_write_ready (tbl ! Suc 0) = Some hello_write"
  "on_read_ready (tbl ! 2) = Some auth_read" "on_write_ready (tbl ! 3) = Some auth_write"
  using four [of 0] four [of 1] four [of 2] four [of 3] by (simp_all add: client_mng_def)

abbreviation event_read :: "skey \<Rightarrow> unit srv" where
  "event_read k \<equiv> bind_sv (run_machine stm_handler_read tbl k) (finish k)"

abbreviation event_write :: "skey \<Rightarrow> unit srv" where
  "event_write k \<equiv> bind_sv (run_machine stm_handler_write tbl k) (finish k)"

abbreviation version :: byte where "version \<equiv> if socks then SOCKS_VERSION else MNG_VERSION"

abbreviation offered :: "server \<Rightarrow> byte" where "offered w \<equiv> if socks then auth_method w else MNG_AUTH_METHOD"

text \<open>The greeting.\<close>

lemma greeting:
  assumes "sv_heap w (key_data k) = Some d" and "selector.inv w" and "isSocks d = socks"
    and "conn_stm d = \<lparr>stm_initial = 0, stm_max_state = m, stm_current = None\<rparr>"
    and "buffer_content (read_buffer d) = []" and "buffer_content (write_buffer d) = []"
    and "registered w (key_fd k) it" and "os_alloc (key_os k) Alloc_hello_parser"
    and "os_recv (key_os k) (key_fd k) 2048 = Some (version # of_nat (length ms) # ms)" and "length ms < 256"
  shows "\<exists>w' d'. event_read k w = Inr ((), w') \<and> session_at m socks k w' d' 1 \<and> logged d d' \<and>
    (\<exists>h. client d' = Client_hello h \<and> hs_method h = choose_method (offered w) ms 0xFF) \<and>
    buffer_content (read_buffer d') = [] \<and>
    buffer_content (write_buffer d') = [version, choose_method (offered w) ms 0xFF] \<and>
    moved k w ((sel_lookup (sv_selector w))(key_fd k \<mapsto> it\<lparr>item_interest := OP_WRITE\<rparr>)) d' [] w'"
proof -
  let ?m = "choose_method (offered w) ms 0xFF"
  let ?q = "hello_ready version (offered w)"
  let ?h = "\<lparr>hs_parser = Ptr ?q, hs_method = 0xFF, hs_status = HELLO_SUCCESS\<rparr>"
  let ?d = "d\<lparr>client := Client_hello ?h\<rparr>"
  let ?v = "w\<lparr>sv_heap := (sv_heap w)(key_data k \<mapsto> ?d)\<rparr>"
  have init: "hello_read_init 0 k w = Inr ?v"
    using assms(1,3,8)
    by (simp add: hello_read_init_def sv_simps Let_def hello_parser_init_def hello_ready_def)
  have at: "at_conn k w d" and free: "buffer_free (read_buffer d) = 2048" "buffer_free (write_buffer d) = 2048"
    using inv_conn [OF assms(2,1)] assms(5,6) by auto
  then have at: "at_conn k ?v ?d" by (simp add: at_conn_def)
  have reg: "registered ?v (key_fd k) it" using assms(7) by (simp add: registered_def)
  let ?p = "?q\<lparr>hp_state := hello_done\<rparr>"
  have feed: "feed_bytes hello_feed hello_stop (buffer_content (read_buffer ?d) @ (version # of_nat (length ms) # ms))
      (?q, hs_method ?h, hp_state ?q, False) = Inr ((?p, ?m, hello_done, False), [])"
    using hello_feed_message [OF assms(10), of version "[]" "offered w" "0xFF" _ False] assms(5) by simp
  obtain rb wb s where r: "hello_read k ?v = Inr (1,
      conn_update k (?d\<lparr>client := Client_hello (?h\<lparr>hs_parser := Ptr ?p, hs_method := ?m\<rparr>),
        read_buffer := rb, write_buffer := wb\<rparr>) s ?v)"
    "buffer_inv rb" "buffer_content rb = []" "buffer_inv wb" "sel_full s" "buffer_content wb = [version, ?m]"
    "sel_lookup s = (sel_lookup (sv_selector w))(key_fd k \<mapsto> it\<lparr>item_interest := OP_WRITE\<rparr>)"
    using hello_read_feeds [OF at _ _ _ _ _ _ reg feed] assms(3,6,9,10) free
    by (auto simp: hello_is_done_def)
  let ?d1 = "?d\<lparr>client := Client_hello (?h\<lparr>hs_parser := Ptr ?p, hs_method := ?m\<rparr>), read_buffer := rb, write_buffer := wb\<rparr>"
  let ?L = "(sel_lookup (sv_selector w))(key_fd k \<mapsto> it\<lparr>item_interest := OP_WRITE\<rparr>)"
  have m1: "moved k ?v ?L ?d1 [] (conn_update k ?d1 s ?v)"
    using r(5,7) by (simp add: conn_update_def moved_def same_rest_def)
  let ?h2 = "?h\<lparr>hs_method := ?m, hs_parser := Freed_ptr\<rparr>"
  let ?e = "?d1\<lparr>client := Client_hello ?h2\<rparr>"
  define v where "v = (conn_update k ?d1 s ?v)\<lparr>sv_heap := (sv_heap (conn_update k ?d1 s ?v))(key_data k \<mapsto> ?e)\<rparr>"
  have m2: "moved k w ?L ?e [] v"
    using moved_from [OF moved_put [OF m1, of ?e]] unfolding v_def .
  have close: "run_hook (on_departure (tbl ! 0)) 0 k (conn_update k ?d1 s ?v) = Inr v"
    using hello_read_close_ok [OF moved_conn [OF m1], of "?h\<lparr>hs_parser := Ptr ?p, hs_method := ?m\<rparr>" ?p]
    by (simp add: v_def run_hook_def)
  have arrive: "run_hook (on_arrival (tbl ! 1)) 1 k v = Inr v"
    using hello_write_hooks(1) [OF moved_conn [OF m2]] by (simp add: run_hook_def)
  have "on_read_ready (tbl ! 0) = Some hello_read" "0 \<noteq> (1::nat)" "0 \<le> m" "1 \<le> m" using final by simp_all
  from dispatch [where ready = on_read_ready and k = k, OF this(1) r(1) this(2-4) close arrive]
  have step: "stm_dispatch on_read_ready tbl (machine_at m 0) k ?v = Inr (1, machine_at m 1, v)" .
  have m: "(conn_stm d)\<lparr>stm_current := Some 0\<rparr> = machine_at m 0"
    using assms(4) by (simp add: machine_at_def)
  have "stm_inv tbl (conn_stm d)" using machine_inv [of 0] assms(4) by (simp add: stm_inv_def)
  from stm_dispatch_first [OF this, of on_read_ready k w]
  have "stm_dispatch on_read_ready tbl (conn_stm d) k w = Inr (1, machine_at m 1, v)"
    using step init assms(4) by (simp add: run_hook_def machine_at_def)
  moreover have "isSocks ?e = socks" "1 < final" using assms(3) final by simp_all
  ultimately obtain w' where w': "event_read k w = Inr ((), w')"
      "session_at m socks k w' (?e\<lparr>conn_stm := machine_at m 1\<rparr>) 1"
      "moved k w ?L (?e\<lparr>conn_stm := machine_at m 1\<rparr>) [] w'"
    using event [OF assms(2,1) _ m2, of on_read_ready 1] by (auto simp: stm_handler_defs)
  show ?thesis
    using w' r(2-4,6) assms(3)
    by (intro exI [of _ w'] exI [of _ "?e\<lparr>conn_stm := machine_at m 1\<rparr>"]) (simp add: logged_def kept_def)
qed

text \<open>The reply to the greeting.\<close>

lemma greeting_reply:
  assumes at: "session_at m socks k w d 1" and "client d = Client_hello h"
    and "hs_method h = METHOD_USERNAME_PASSWORD" and "registered w (key_fd k) it" and "plentiful (key_os k)"
    and "os_send (key_os k) (key_fd k) (buffer_content (write_buffer d)) =
      int (length (buffer_content (write_buffer d)))"
  shows "\<exists>w' d' b. event_write k w = Inr ((), w') \<and> session_at m socks k w' d' 2 \<and> logged d d' \<and>
    client d' = userpass_ready b \<and> length b = 2 \<and> buffer_content (write_buffer d') = [] \<and>
    buffer_content (read_buffer d') = buffer_content (read_buffer d) \<and>
    moved k w ((sel_lookup (sv_selector w))(key_fd k \<mapsto> it\<lparr>item_interest := OP_READ\<rparr>)) d'
      [Sent (key_fd k) (buffer_content (write_buffer d))] w'"
proof -
  let ?c = "buffer_content (write_buffer d)"
  let ?L = "(sel_lookup (sv_selector w))(key_fd k \<mapsto> it\<lparr>item_interest := OP_READ\<rparr>)"
  have nxt: "hello_next d h = 2" using assms(3) by (simp add: hello_next_def hello_constants)
  obtain w1 wb where r: "hello_write k w = Inr (2, w1)"
      "moved k w ?L (d\<lparr>write_buffer := wb\<rparr>) [Sent (key_fd k) ?c] w1" "buffer_content wb = []"
    using hello_write_sends [OF session_at_facts(1) [OF at] assms(2,4,6)] nxt assms(3)
    by (auto simp: hello_constants)
  obtain b where b: "length b = 2" "auth_read_init 2 k w1 =
      Inr (w1\<lparr>sv_heap := (sv_heap w1)(key_data k \<mapsto> d\<lparr>write_buffer := wb, client := userpass_ready b\<rparr>)\<rparr>)"
    using auth_read_init_ok [OF moved_conn [OF r(2)] assms(5)] by blast
  let ?e = "d\<lparr>write_buffer := wb, client := userpass_ready b\<rparr>"
  have "run_hook (on_departure (tbl ! 1)) 1 k w1 = Inr w1"
    using hello_write_hooks(2) [OF moved_conn [OF r(2)]] assms(2) by (simp add: run_hook_def)
  moreover have "run_hook (on_arrival (tbl ! 2)) 2 k w1 = Inr (w1\<lparr>sv_heap := (sv_heap w1)(key_data k \<mapsto> ?e)\<rparr>)"
    using b(2) by (simp add: run_hook_def)
  moreover have "isSocks ?e = socks" "2 < final" "1 \<le> m" using at final by (simp_all add: session_at_def)
  ultimately obtain w' where w': "event_write k w = Inr ((), w')"
      "session_at m socks k w' (?e\<lparr>conn_stm := machine_at m 2\<rparr>) 2"
      "moved k w ?L (?e\<lparr>conn_stm := machine_at m 2\<rparr>) [Sent (key_fd k) ?c] w'"
    using step [where f = hello_write and ready = on_write_ready, OF at _ r(1) _ _ _ _ moved_put [OF r(2), of ?e]]
    by (auto simp: stm_handler_defs)
  then show ?thesis
    using b(1) r(3) by (intro exI [of _ w'] exI [of _ "?e\<lparr>conn_stm := machine_at m 2\<rparr>"] exI [of _ b])
      (simp add: logged_def kept_def)
qed

text \<open>The credentials.\<close>

lemma credentials_read:
  assumes at: "session_at m socks k w d 2" and "client d = userpass_ready b" and "length b = 2"
    and "buffer_content (read_buffer d) = []"
    and "os_recv (key_os k) (key_fd k) 2048 = Some (userpass_message u p)" and "registered w (key_fd k) it"
    and "tables_ok w" and "plentiful (key_os k)" and "length u < 256" and "length p < 256"
  shows "\<exists>w' d' up. event_read k w = Inr ((), w') \<and> session_at m socks k w' d' 3 \<and> logged d d' \<and>
    client d' = Client_userpass up \<and> buffer_content (read_buffer d') = [] \<and> write_buffer d' = write_buffer d \<and>
    (authentication d' = 0 \<longleftrightarrow> (\<exists>x \<in> set (login_table d w). login_matches u p x)) \<and>
    (socks \<longrightarrow> authentication d' = 0 \<longrightarrow> login_matches u p (sv_users w ! userIndex d')) \<and>
    moved k w ((sel_lookup (sv_selector w))(key_fd k \<mapsto> it\<lparr>item_interest := OP_WRITE\<rparr>)) d' [] w'"
proof -
  let ?L = "(sel_lookup (sv_selector w))(key_fd k \<mapsto> it\<lparr>item_interest := OP_WRITE\<rparr>)"
  have free: "buffer_free (read_buffer d) = 2048" using session_at_facts(3) [OF at assms(4)] .
  have flag: "isSocks d = socks" using at by (simp add: session_at_def)
  have alloc: "allocator_ok (os_block (key_os k))" "os_block (key_os k) i n \<noteq> None" for i n
    using assms(8) by (auto simp: plentiful_def)
  have len: "length (userpass_message u p) \<le> buffer_free (read_buffer d)" "userpass_message u p \<noteq> []"
    using assms(9,10) free by (simp_all add: userpass_message_def)
  have stage: "client d = Client_userpass \<lparr>up_parser = Parser_ready (userpass_parser b), up_status = AUTH_SUCCESS\<rparr>"
    using assms(2) by (simp add: userpass_ready_def)
  obtain w1 d1 where r: "auth_read k w = Inr (3, w1)"
      "authentication d1 = 0 \<longleftrightarrow> (\<exists>x \<in> set (login_table d w). login_matches u p x)"
      "buffer_content (read_buffer d1) = []" "moved k w ?L d1 [] w1"
      "\<exists>q rb. d1 = authenticated u p (login_table d w) (d\<lparr>client := Client_userpass
         \<lparr>up_parser = Parser_ready q, up_status = AUTH_SUCCESS\<rparr>, read_buffer := rb\<rparr>)"
      "isSocks d \<longrightarrow> authentication d1 = 0 \<longrightarrow> login_matches u p (sv_users w ! userIndex d1)"
    using auth_read_message [OF session_at_facts(1) [OF at] stage _ _ assms(3) _ len(2,1) assms(6,7), of u p "[]"]
      assms(4,5,9,10) free alloc by auto
  then obtain q rb where d1: "d1 = authenticated u p (login_table d w) (d\<lparr>client := Client_userpass
         \<lparr>up_parser = Parser_ready q, up_status = AUTH_SUCCESS\<rparr>, read_buffer := rb\<rparr>)" by blast
  let ?up = "\<lparr>up_parser = Parser_freed, up_status = AUTH_SUCCESS\<rparr>"
  let ?e = "d1\<lparr>client := Client_userpass ?up\<rparr>"
  let ?v = "w1\<lparr>sv_heap := (sv_heap w1)(key_data k \<mapsto> ?e)\<rparr>"
  have "run_hook (on_departure (tbl ! 2)) 2 k w1 = Inr ?v"
    using auth_read_close_ok [OF moved_conn [OF r(4)], of "\<lparr>up_parser = Parser_ready q, up_status = AUTH_SUCCESS\<rparr>" q]
    by (simp add: d1 run_hook_def)
  moreover have "run_hook (on_arrival (tbl ! 3)) 3 k ?v = Inr ?v"
    using auth_write_hooks(1) [OF moved_conn [OF moved_put [OF r(4), of ?e]]] by (simp add: run_hook_def)
  moreover have "isSocks ?e = socks" "3 < final" "2 \<le> m" using flag d1 final by simp_all
  ultimately obtain w' where w': "event_read k w = Inr ((), w')"
      "session_at m socks k w' (?e\<lparr>conn_stm := machine_at m 3\<rparr>) 3"
      "moved k w ?L (?e\<lparr>conn_stm := machine_at m 3\<rparr>) [] w'"
    using step [where f = auth_read and ready = on_read_ready, OF at _ r(1) _ _ _ _ moved_put [OF r(4), of ?e]]
    by (auto simp: stm_handler_defs)
  have "logged d (?e\<lparr>conn_stm := machine_at m 3\<rparr>)"
    by (simp add: d1 authenticated_def logged_def kept_def split: option.splits)
  then show ?thesis
    using w' r(2,3,6) flag
    by (intro exI [of _ w'] exI [of _ "?e\<lparr>conn_stm := machine_at m 3\<rparr>"] exI [of _ ?up])
      (simp add: d1)
qed

text \<open>The reply to the credentials.\<close>

lemma login_reply:
  assumes at: "session_at m socks k w d 3" and "client d = Client_userpass up" and "authentication d = 0"
    and "buffer_content (write_buffer d) = []" and "registered w (key_fd k) it" and "plentiful (key_os k)"
    and "os_send (key_os k) (key_fd k) [1, 0] = 2"
  shows "\<exists>w' d'. event_write k w = Inr ((), w') \<and> session_at m socks k w' d' 4 \<and> logged d d' \<and>
    client d' \<in> stage \<and> userIndex d' = userIndex d \<and> buffer_content (write_buffer d') = [] \<and>
    buffer_content (read_buffer d') = buffer_content (read_buffer d) \<and>
    moved k w ((sel_lookup (sv_selector w))(key_fd k \<mapsto> it\<lparr>item_interest := OP_READ\<rparr>)) d'
      [Sent (key_fd k) [1, 0]] w'"
proof -
  let ?L = "(sel_lookup (sv_selector w))(key_fd k \<mapsto> it\<lparr>item_interest := OP_READ\<rparr>)"
  have free: "buffer_free (write_buffer d) = 2048" using session_at_facts(4) [OF at assms(4)] .
  obtain w1 wb where r: "auth_write k w = Inr (4, w1)"
      "moved k w ?L (d\<lparr>write_buffer := wb\<rparr>) [Sent (key_fd k) [1, 0]] w1" "buffer_content wb = []"
    using auth_write_sends [OF session_at_facts(1) [OF at] assms(2,5) _ assms(4), of 2] assms(3,7) free by auto
  obtain c where c: "c \<in> stage" "run_hook (on_arrival (tbl ! 4)) 4 k w1 =
      Inr (w1\<lparr>sv_heap := (sv_heap w1)(key_data k \<mapsto> d\<lparr>write_buffer := wb, client := c\<rparr>)\<rparr>)"
    using arrival [OF moved_conn [OF r(2)] assms(6)] by blast
  let ?e = "d\<lparr>write_buffer := wb, client := c\<rparr>"
  have "run_hook (on_departure (tbl ! 3)) 3 k w1 = Inr w1"
    using auth_write_hooks(2) [OF moved_conn [OF r(2)]] assms(2) by (simp add: run_hook_def)
  moreover have "isSocks ?e = socks" "4 < final" "3 \<le> m" using at final by (simp_all add: session_at_def)
  ultimately obtain w' where w': "event_write k w = Inr ((), w')"
      "session_at m socks k w' (?e\<lparr>conn_stm := machine_at m 4\<rparr>) 4"
      "moved k w ?L (?e\<lparr>conn_stm := machine_at m 4\<rparr>) [Sent (key_fd k) [1, 0]] w'"
    using step [where f = auth_write and ready = on_write_ready, OF at _ r(1) _ _ _ c(2) moved_put [OF r(2), of ?e]]
    by (auto simp: stm_handler_defs)
  then show ?thesis
    using r(3) c(1) by (intro exI [of _ w'] exI [of _ "?e\<lparr>conn_stm := machine_at m 4\<rparr>"]) (simp add: logged_def kept_def)
qed

text \<open>The whole login.\<close>

lemma login_phase:
  assumes "sv_heap w i = Some d" and "selector.inv w" and "tables_ok w" and "isSocks d = socks"
    and "conn_stm d = \<lparr>stm_initial = 0, stm_max_state = m, stm_current = None\<rparr>"
    and "buffer_content (read_buffer d) = []" and "buffer_content (write_buffer d) = []"
    and "registered w c it" and "offered w = METHOD_USERNAME_PASSWORD"
    and o1: "os_alloc o1 Alloc_hello_parser" "os_recv o1 c 2048 = Some (version # of_nat (length ms) # ms)"
      "METHOD_USERNAME_PASSWORD \<in> set ms" "length ms < 256"
    and o2: "plentiful o2" "os_send o2 c [version, METHOD_USERNAME_PASSWORD] = 2"
    and o3: "plentiful o3" "os_recv o3 c 2048 = Some (userpass_message u p)" "length u < 256" "length p < 256"
      "x \<in> set (login_table d w)" "login_matches u p x"
    and o4: "plentiful o4" "os_send o4 c [1, 0] = 2"
  shows "\<exists>w' d'. events_in_order [event_read (event_key i c o1), event_write (event_key i c o2),
        event_read (event_key i c o3), event_write (event_key i c o4)] w = Inr ((), w') \<and>
    session_at m socks (event_key i c os) w' d' 4 \<and> logged d d' \<and> client d' \<in> stage \<and>
    buffer_content (read_buffer d') = [] \<and> buffer_content (write_buffer d') = [] \<and>
    (socks \<longrightarrow> login_matches u p (sv_users w ! userIndex d')) \<and>
    moved (event_key i c os) w ((sel_lookup (sv_selector w))(c \<mapsto> it\<lparr>item_interest := OP_READ\<rparr>)) d'
      [Sent c [version, METHOD_USERNAME_PASSWORD], Sent c [1, 0]] w'"
proof -
  have chosen: "choose_method (offered w) ms 0xFF = METHOD_USERNAME_PASSWORD"
    using assms(9) o1(3) by (simp add: choose_method_def)
  obtain w1 d1 h where 1: "event_read (event_key i c o1) w = Inr ((), w1)"
      "session_at m socks (event_key i c o1) w1 d1 1"
      "logged d d1" "client d1 = Client_hello h" "hs_method h = METHOD_USERNAME_PASSWORD"
      "buffer_content (read_buffer d1) = []" "buffer_content (write_buffer d1) = [version, METHOD_USERNAME_PASSWORD]"
      "moved (event_key i c o1) w ((sel_lookup (sv_selector w))(c \<mapsto> it\<lparr>item_interest := OP_WRITE\<rparr>)) d1 [] w1"
    using greeting [of w "event_key i c o1" d it ms] assms chosen by auto
  have reg1: "registered w1 c (it\<lparr>item_interest := OP_WRITE\<rparr>)" by (rule moved_registered [OF 1(8)]) simp
  have at1: "session_at m socks (event_key i c o2) w1 d1 1" using session_at_key [OF 1(2)] by simp
  obtain w2 d2 b2 where 2: "event_write (event_key i c o2) w1 = Inr ((), w2)"
      "session_at m socks (event_key i c o2) w2 d2 2" "logged d1 d2" "client d2 = userpass_ready b2" "length b2 = 2"
      "buffer_content (write_buffer d2) = []" "buffer_content (read_buffer d2) = []"
      "moved (event_key i c o2) w1 ((sel_lookup (sv_selector w1))(c \<mapsto> it\<lparr>item_interest := OP_READ\<rparr>)) d2
         [Sent c [version, METHOD_USERNAME_PASSWORD]] w2"
    using greeting_reply [OF at1 1(4,5), of "it\<lparr>item_interest := OP_WRITE\<rparr>"] reg1 o2 1(6,7) by auto
  have reg2: "registered w2 c (it\<lparr>item_interest := OP_READ\<rparr>)" by (rule moved_registered [OF 2(8)]) simp
  have at2: "session_at m socks (event_key i c o3) w2 d2 2" using session_at_key [OF 2(2)] by simp
  have tab: "tables_ok w2" "login_table d2 w2 = login_table d w" "sv_users w2 = sv_users w"
    using moved_tables [OF 1(8)] moved_tables [OF 2(8)] assms(3) logged_trans [OF 1(3) 2(3)]
    by (auto simp: login_table_def logged_def kept_def)
  obtain w3 d3 up where 3: "event_read (event_key i c o3) w2 = Inr ((), w3)"
      "session_at m socks (event_key i c o3) w3 d3 3" "logged d2 d3" "client d3 = Client_userpass up"
      "buffer_content (read_buffer d3) = []" "write_buffer d3 = write_buffer d2" "authentication d3 = 0"
      "socks \<longrightarrow> login_matches u p (sv_users w ! userIndex d3)"
      "moved (event_key i c o3) w2 ((sel_lookup (sv_selector w2))(c \<mapsto> it\<lparr>item_interest := OP_WRITE\<rparr>)) d3 [] w3"
    using credentials_read [OF at2 2(4,5,7), of u p "it\<lparr>item_interest := OP_READ\<rparr>"] reg2 o3 tab by auto
  have reg3: "registered w3 c (it\<lparr>item_interest := OP_WRITE\<rparr>)" by (rule moved_registered [OF 3(9)]) simp
  have at3: "session_at m socks (event_key i c o4) w3 d3 3" using session_at_key [OF 3(2)] by simp
  obtain w4 d4 where 4: "event_write (event_key i c o4) w3 = Inr ((), w4)"
      "session_at m socks (event_key i c o4) w4 d4 4" "logged d3 d4" "client d4 \<in> stage"
      "userIndex d4 = userIndex d3" "buffer_content (write_buffer d4) = []" "buffer_content (read_buffer d4) = []"
      "moved (event_key i c o4) w3 ((sel_lookup (sv_selector w3))(c \<mapsto> it\<lparr>item_interest := OP_READ\<rparr>)) d4
         [Sent c [1, 0]] w4"
    using login_reply [OF at3 3(4,7), of "it\<lparr>item_interest := OP_WRITE\<rparr>"] reg3 o4 3(5,6) 2(6) by auto
  have "moved (event_key i c os) w ((sel_lookup (sv_selector w))(c \<mapsto> it\<lparr>item_interest := OP_READ\<rparr>)) d4
      [Sent c [version, METHOD_USERNAME_PASSWORD], Sent c [1, 0]] w4"
    using 1(8) 2(8) 3(9) 4(8) by (auto simp: moved_def same_rest_def)
  then show ?thesis
    using 1(1) 2(1) 3(1) 4 logged_trans [OF logged_trans [OF logged_trans [OF 1(3) 2(3)] 3(3)] 4(3)] 3(8)
      session_at_key [OF 4(2), of "event_key i c os"]
    by (intro exI [of _ w4] exI [of _ d4]) (simp add: bind_sv_def ret_sv_def)
qed

end

end
