(* ===== verification/Handshake.thy ===== *)
theory Handshake
  imports Login
begin

unbundle bit_operations_syntax

text \<open>
  A whole SOCKS session, event by event: greeting, method reply, credentials, their reply,
  request, connection to the origin, reply, copy. Each event is one call of a handler of
  \<open>src/src/socks5nio.c\<close>, with the departure and arrival hooks of the states it leaves and
  enters.
\<close>

section \<open>The machine of the SOCKS service\<close>

definition machine_in :: "socks_v5state \<Rightarrow> state_machine" where
  "machine_in s = machine_at 10 (socks_code s)"

definition conn_at :: "skey \<Rightarrow> server \<Rightarrow> socks5 \<Rightarrow> socks_v5state \<Rightarrow> bool" where
  "conn_at k w d s \<longleftrightarrow> session_at 10 True k w d (socks_code s)"

lemma conn_at_facts:
  assumes "conn_at k w d s"
  shows "at_conn k w d" and "sv_heap w (key_data k) = Some d"
    and "buffer_content (read_buffer d) = [] \<Longrightarrow> buffer_free (read_buffer d) = 2048"
    and "buffer_content (write_buffer d) = [] \<Longrightarrow> buffer_free (write_buffer d) = 2048"
    and "isSocks d" and "selector.inv w"
  using assms session_at_facts [of 10 True k w d "socks_code s"] by (auto simp: conn_at_def session_at_def)

lemma socks_code_max [simp]: "socks_code s \<le> 10"
  by (cases s) simp_all

lemma table_hooks:
  "on_arrival (client_statbl ! socks_code s) = (case s of HELLO_READ \<Rightarrow> Some hello_read_init
     | HELLO_WRITE \<Rightarrow> Some hello_write_init | USERPASS_READ \<Rightarrow> Some auth_read_init
     | USERPASS_WRITE \<Rightarrow> Some auth_write_init | REQUEST_READ \<Rightarrow> Some request_init
     | REQUEST_CONNECTING \<Rightarrow> Some connecting_init | COPY \<Rightarrow> Some copy_init | _ \<Rightarrow> None)"
  "on_departure (client_statbl ! socks_code s) = (case s of HELLO_READ \<Rightarrow> Some hello_read_close
     | HELLO_WRITE \<Rightarrow> Some hello_write_close | USERPASS_READ \<Rightarrow> Some auth_read_close
     | USERPASS_WRITE \<Rightarrow> Some auth_write_close | REQUEST_READ \<Rightarrow> Some request_close
     | REQUEST_CONNECTING \<Rightarrow> Some connecting_close | _ \<Rightarrow> None)"
  by (cases s; simp add: client_statbl_def bare_state_def)+

definition request_ready :: "request \<Rightarrow> client_stage" where
  "request_ready block = Client_request
     \<lparr>rs_parser = Ptr (request_fresh block), rs_addr_family = 0, rs_status = status_succeeded\<rparr>"

lemma hook_request_init:
  assumes "sv_heap w (key_data k) = Some d" and "plentiful (key_os k)"
  shows "\<exists>b. run_hook (on_arrival (client_statbl ! socks_code REQUEST_READ)) st k w =
    Inr (w\<lparr>sv_heap := (sv_heap w)(key_data k \<mapsto> d\<lparr>client := request_ready b\<rparr>)\<rparr>)"
proof -
  obtain a b where "os_request (key_os k) 0 = Some a" "os_request (key_os k) 1 = Some b"
    using assms(2) by (fastforce simp: plentiful_def)
  then show ?thesis
    using assms unfolding table_hooks
    by (intro exI [of _ b]) (simp add: run_hook_def request_init_def request_parser_init_def put_request_st_def
        with_request_st_def plentiful_def sv_simps request_ready_def request_fresh_def)
qed

lemma hook_request_close:
  assumes "sv_heap w (key_data k) = Some d" and "client d = Client_request r" and "rs_parser r = Ptr p"
    and "rp_request p = Some q" and "req_atyp q \<noteq> socks_req_addrtype_domain"
  shows "run_hook (on_departure (client_statbl ! socks_code REQUEST_READ)) st k w =
    Inr (w\<lparr>sv_heap := (sv_heap w)(key_data k \<mapsto> d\<lparr>client := Client_request (r\<lparr>rs_parser := Null_ptr\<rparr>)\<rparr>)\<rparr>)"
  using assms unfolding table_hooks
  by (simp add: run_hook_def request_close_def with_request_st_def deref_def sv_simps)

interpretation socks_events: login_machine client_statbl 10 True socks_finish 9 "range request_ready"
proof unfold_locales
  show "table_ok client_statbl 10" using tables_ok_states(1) by simp
  show "4 < (9::nat)" "(9::nat) \<le> 10" by simp_all
  fix s k and w :: server and d and ready :: "(skey, server) state_definition \<Rightarrow> _"
  show "socks_finish k s w = Inr ((), w)" if "s < 9" using that by (simp add: socks_finish_def ret_sv_def)
  show "keeps selector.inv (run_machine (stm_dispatch ready) client_statbl k)"
    if "ready = on_read_ready \<or> ready = on_write_ready \<or> ready = on_block_ready"
    using that by (intro selector.keeps_run_machine selector.tables_keep) (auto simp: stm_handler_defs)
  show "client_statbl ! s = client_mng ! s" if "s < 4" for s
  proof -
    have "s = 0 \<or> s = 1 \<or> s = 2 \<or> s = 3" using that by auto
    then show ?thesis by (auto simp: client_statbl_def client_mng_def)
  qed
  show "\<exists>c \<in> range request_ready. run_hook (on_arrival (client_statbl ! 4)) 4 k w =
      Inr (w\<lparr>sv_heap := (sv_heap w)(key_data k \<mapsto> d\<lparr>client := c\<rparr>)\<rparr>)"
    if "sv_heap w (key_data k) = Some d" "plentiful (key_os k)"
    using hook_request_init [OF that, of 4] by auto
qed

text \<open>A step of a connection, in the names of the states.\<close>

lemma socks_step:
  assumes at: "conn_at k w d s" and f: "ready (client_statbl ! socks_code s) = Some f"
    "f k w = Inr (socks_code t, w1)" "s \<noteq> t"
    "run_hook (on_departure (client_statbl ! socks_code s)) (socks_code s) k w1 = Inr w2"
    "run_hook (on_arrival (client_statbl ! socks_code t)) (socks_code t) k w2 = Inr w3"
    and "moved k w L e l w3" and "isSocks e" and "t \<noteq> DONE" and "t \<noteq> ERROR"
    and "ready = on_read_ready \<or> ready = on_write_ready \<or> ready = on_block_ready"
  shows "\<exists>w'. bind_sv (run_machine (stm_dispatch ready) client_statbl k) (socks_finish k) w = Inr ((), w') \<and>
    conn_at k w' (e\<lparr>conn_stm := machine_in t\<rparr>) t \<and> moved k w L (e\<lparr>conn_stm := machine_in t\<rparr>) l w'"
proof -
  have "socks_code s \<noteq> socks_code t" using f(3) by (cases t; cases s; simp)
  moreover have "socks_code t < 9" using assms(9,10) by (cases t) simp_all
  ultimately show ?thesis
    using socks_events.step [where ready = ready and f = f, OF at [unfolded conn_at_def] f(1,2) _ socks_code_max f(4,5)
        assms(7) _ _ assms(11)] assms(8)
    by (simp add: conn_at_def machine_in_def)
qed

section \<open>A refused login\<close>

text \<open>A refused login: the client is told and its connection ends.\<close>

lemma login_refused_event:
  assumes at: "conn_at k w d USERPASS_WRITE" and "client d = Client_userpass up" and "authentication d \<noteq> 0"
    and "buffer_content (write_buffer d) = []" and "owned_by w (key_data k) (key_fd k)"
    and "client_fd d = key_fd k" and "key_fd k \<noteq> -1" and "origin_fd d = -1" and "references d = 1"
    and "os_send (key_os k) (key_fd k) [1, authentication d] = 2"
  shows "\<exists>w'. socksv5_write k w = Inr ((), w') \<and> sel_full (sv_selector w') \<and>
    sel_lookup (sv_selector w') = (sel_lookup (sv_selector w))(key_fd k := None) \<and>
    sv_log w' = sv_log w @ [Sent (key_fd k) [1, authentication d], Closed (key_fd k)] \<and>
    user_table w' = user_table w"
proof -
  have inv: "selector.inv w" "isSocks d" "sv_heap w (key_data k) = Some d"
    using conn_at_facts [OF at] by simp_all
  have free: "buffer_free (write_buffer d) = 2048" using conn_at_facts(4) [OF at assms(4)] .
  obtain it where it: "registered w (key_fd k) it"
    using assms(5) inv_conn(3) [OF inv(1,3)] by (auto simp: owned_by_def registered_def)
  have "done_state d = 9"
    using inv_conn(2) [OF inv(1,3)] inv(2) by (simp add: conn_ok_def terminals_ok_def)
  then obtain w1 wb where r: "auth_write k w = Inr (9, w1)"
      "moved k w ((sel_lookup (sv_selector w))(key_fd k \<mapsto> it)) (d\<lparr>write_buffer := wb\<rparr>)
        [Sent (key_fd k) [1, authentication d]] w1"
    using auth_write_sends [OF conn_at_facts(1) [OF at] assms(2) it _ assms(4), of 2] assms(3,10) free by auto
  have "run_hook (on_departure (client_statbl ! 3)) 3 k w1 = Inr w1"
    using auth_write_hooks(2) [OF moved_conn [OF r(2)]] assms(2) by (simp add: run_hook_def)
  moreover have "run_hook (on_arrival (client_statbl ! 9)) 9 k w1 = Inr w1"
    using table_hooks(1) [of DONE] by (simp add: run_hook_def)
  moreover have "session_at 10 True k w d 3" using at by (simp add: conn_at_def)
  moreover have "on_write_ready (client_statbl ! 3) = Some auth_write" by simp
  ultimately obtain v where v: "socksv5_write k w = socks_finish k 9 v"
      "moved k w ((sel_lookup (sv_selector w))(key_fd k \<mapsto> it)) (d\<lparr>write_buffer := wb, conn_stm := machine_at 10 9\<rparr>)
        [Sent (key_fd k) [1, authentication d]] v"
    using socks_events.last_step [where f = auth_write and ready = on_write_ready and s = 3 and d = d,
        OF _ _ r(1) _ _ _ _ _ r(2)]
    by (auto simp: socksv5_write_def stm_handler_defs simp del: socks_events.entries)
  let ?e = "d\<lparr>write_buffer := wb, conn_stm := machine_at 10 9\<rparr>"
  have sel: "sel_full (sv_selector v)" "sel_lookup (sv_selector v) = sel_lookup (sv_selector w)"
    "sv_log v = sv_log w @ [Sent (key_fd k) [1, authentication d]]" "user_table v = user_table w"
    using v(2) it by (auto simp: moved_def registered_def user_table_def same_rest_def)
  have own: "owned_by v (key_data k) (client_fd ?e)" using assms(5,6) sel(2) by (simp add: owned_by_def)
  from socksv5_done_client [OF sel(1) moved_conn [OF v(2)] _ own] assms(6-9) obtain s where
    s: "socksv5_done k v = Inr ((), (released (key_data k) v)
        \<lparr>sv_selector := s, sv_log := sv_log v @ [Closed (key_fd k)]\<rparr>)" "sel_full s"
      "sel_lookup s = (sel_lookup (sv_selector v))(key_fd k := None)" by auto
  have tab: "user_table ((released (key_data k) v)\<lparr>sv_selector := s, sv_log := l\<rparr>) = user_table w" for l
    using sel(4) by (simp add: user_table_def released_def socks5_free_def)
  have "socksv5_write k w = socksv5_done k v" using v(1) by (simp add: socks_finish_def)
  then show ?thesis using s sel tab by simp
qed

section \<open>The request\<close>

definition to_origin :: "skey \<Rightarrow> int \<Rightarrow> (handler_id, nat) item" where
  "to_origin k fd = \<lparr>item_fd = fd, item_interest = OP_WRITE, item_handler = Some Socks5_handler,
     item_data = Some (key_data k)\<rparr>"

lemma put_same_status:
  assumes "sv_heap v (key_data k) = Some e" and "orig e = Orig_conn c" and "cn_status c = st"
  shows "put_orig_status k st v = Inr ((), v\<lparr>sv_heap := (sv_heap v)(key_data k \<mapsto> e)\<rparr>)"
proof -
  have "c\<lparr>cn_status := st\<rparr> = c" using assms(3) by (cases c) simp
  then have "e\<lparr>orig := Orig_conn (c\<lparr>cn_status := st\<rparr>)\<rparr> = e" using assms(2) by (cases e) simp
  then show ?thesis
    using assms(1,2) by (simp add: put_orig_status_def put_orig_conn_def eval_sv get_conn_def)
qed

lemma hook_connecting_init:
  assumes "at_conn k w d" and "os_socket (key_os k) (origin_domain d) = fd" and "\<not> INVALID_FD fd"
    and "selector_fd_set_nio (os_getfd (key_os k) fd) (os_setfl (key_os k) fd) \<noteq> -1"
    and "os_connect (key_os k) fd (origin_addr d) (origin_addr_len d) = EINPROGRESS"
    and "registered w (key_fd k) it" and "fd \<noteq> key_fd k" and "sel_lookup (sv_selector w) fd = None"
  shows "\<exists>w'. run_hook (on_arrival (client_statbl ! socks_code REQUEST_CONNECTING)) st k w = Inr w' \<and>
    moved k w ((sel_lookup (sv_selector w))(key_fd k \<mapsto> it\<lparr>item_interest := OP_NOOP\<rparr>, fd \<mapsto> to_origin k fd))
      (d\<lparr>orig := Orig_conn \<lparr>cn_client_fd = client_fd d, cn_origin_fd = -1, cn_status = status_succeeded\<rparr>,
         origin_fd := fd, references := references d + 1\<rparr>) [] w'"
proof -
  let ?d = "d\<lparr>orig := Orig_conn \<lparr>cn_client_fd = client_fd d, cn_origin_fd = -1, cn_status = status_succeeded\<rparr>,
      origin_fd := fd\<rparr>"
  let ?e = "?d\<lparr>references := references d + 1\<rparr>"
  let ?w = "w\<lparr>sv_heap := (sv_heap w)(key_data k \<mapsto> ?d)\<rparr>"
  let ?L = "(sel_lookup (sv_selector w))(key_fd k \<mapsto> it\<lparr>item_interest := OP_NOOP\<rparr>, fd \<mapsto> to_origin k fd)"
  have heap: "sv_heap w (key_data k) = Some d" using assms(1) by (simp add: at_conn_def)
  have "at_conn k ?w ?d" using assms(1) by (simp add: at_conn_def)
  from connection_in_progress [OF this, of it] assms(3,5-8) obtain v where
    v: "connection k ?w = Inr (status_succeeded, v)" "moved k ?w ?L ?e [] v"
    by (auto simp: to_origin_def registered_def)
  have neg: "\<not> fd < 0" using assms(3) by (auto simp: INVALID_FD_def)
  have vh: "sv_heap v (key_data k) = Some ?e" using moved_conn [OF v(2)] .
  have put: "put_orig_status k status_succeeded v = Inr ((), v\<lparr>sv_heap := (sv_heap v)(key_data k \<mapsto> ?e)\<rparr>)"
    by (rule put_same_status [OF vh, where c = "\<lparr>cn_client_fd = client_fd d, cn_origin_fd = -1,
      cn_status = status_succeeded\<rparr>"]) simp_all
  have "run_hook (on_arrival (client_statbl ! socks_code REQUEST_CONNECTING)) st k w =
      Inr (v\<lparr>sv_heap := (sv_heap v)(key_data k \<mapsto> ?e)\<rparr>)"
    unfolding table_hooks
    using heap neg assms(2,4) v(1) put
    by (simp add: run_hook_def connecting_init_def eval_sv get_conn_heap Let_def)
  then show ?thesis using moved_put [OF moved_from [OF v(2)], of ?e] by blast
qed

lemma request_event:
  assumes at: "conn_at k w d REQUEST_READ" and "client d = request_ready b"
    and "buffer_content (read_buffer d) = []" and "length a4 = 4"
    and "os_recv (key_os k) (key_fd k) 2048 = Some (5 # 1 # rsv # 1 # a4 @ [x, y])"
    and "registered w (key_fd k) it" and "os_socket (key_os k) AF_INET = fd" and "\<not> INVALID_FD fd"
    and "selector_fd_set_nio (os_getfd (key_os k) fd) (os_setfl (key_os k) fd) \<noteq> -1"
    and "os_connect (key_os k) fd \<lparr>sa_family = AF_INET, sa_port = [x, y], sa_addr = a4\<rparr> 16 = EINPROGRESS"
    and "fd \<noteq> key_fd k" and "sel_lookup (sv_selector w) fd = None"
  shows "\<exists>w' d' r. socksv5_read k w = Inr ((), w') \<and> conn_at k w' d' REQUEST_CONNECTING \<and> kept d d' \<and>
    client d' = Client_request r \<and> rs_parser r = Null_ptr \<and>
    orig d' = Orig_conn \<lparr>cn_client_fd = client_fd d, cn_origin_fd = -1, cn_status = status_succeeded\<rparr> \<and>
    origin_fd d' = fd \<and> origin_addr d' = \<lparr>sa_family = AF_INET, sa_port = [x, y], sa_addr = a4\<rparr> \<and>
    references d' = references d + 1 \<and> userIndex d' = userIndex d \<and>
    buffer_content (read_buffer d') = [] \<and> write_buffer d' = write_buffer d \<and>
    moved k w ((sel_lookup (sv_selector w))(key_fd k \<mapsto> it\<lparr>item_interest := OP_NOOP\<rparr>, fd \<mapsto> to_origin k fd)) d' [] w'"
proof -
  let ?a = "\<lparr>sa_family = AF_INET, sa_port = [x, y], sa_addr = a4\<rparr>"
  let ?L = "(sel_lookup (sv_selector w))(key_fd k \<mapsto> it\<lparr>item_interest := OP_NOOP\<rparr>, fd \<mapsto> to_origin k fd)"
  have free: "buffer_free (read_buffer d) = 2048" using conn_at_facts(3) [OF at assms(3)] .
  let ?r = "\<lparr>rs_parser = Ptr (request_fresh b), rs_addr_family = 0, rs_status = status_succeeded\<rparr>"
  have stage: "client d = Client_request ?r" using assms(2) by (simp add: request_ready_def)
  obtain p where p: "feed_bytes request_feed (request_stop False) (5 # 1 # rsv # 1 # a4 @ x # y # [])
        (request_fresh b, rp_state (request_fresh b)) = Inr ((p, request_done), [])"
      "rp_request p = Some \<lparr>req_cmd = 1, req_atyp = 1, req_dest = Dest_addr ?a, req_port = [x, y]\<rparr>"
    using request_feed_ipv4 [OF assms(4), of rsv x y "[]" b] by blast
  obtain rb where rb: "buffer_inv rb" "buffer_content rb = []"
    "let d' = d\<lparr>client := Client_request (?r\<lparr>rs_parser := Ptr p\<rparr>), read_buffer := rb\<rparr>;
         w' = w\<lparr>sv_heap := (sv_heap w)(key_data k \<mapsto> d')\<rparr>
     in at_conn k w' d' \<and>
        request_read k w = (if request_is_done request_done False then request_process k w'
                            else Inr (socks_code REQUEST_READ, w'))"
    using request_read_feeds [OF conn_at_facts(1) [OF at] stage _ _ _ _ _, of "request_fresh b"
        "5 # 1 # rsv # 1 # a4 @ [x, y]" p request_done "[]"] assms(3-5) free p(1) by auto
  let ?r1 = "?r\<lparr>rs_parser := Ptr p\<rparr>" and ?r2 = "?r\<lparr>rs_parser := Null_ptr, rs_addr_family := 1\<rparr>"
  let ?d1 = "d\<lparr>client := Client_request ?r1, read_buffer := rb\<rparr>"
  let ?w1 = "w\<lparr>sv_heap := (sv_heap w)(key_data k \<mapsto> ?d1)\<rparr>"
  let ?d2 = "?d1\<lparr>client := Client_request (?r1\<lparr>rs_addr_family := 1\<rparr>), origin_domain := AF_INET,
      origin_addr_len := 16, origin_addr := ?a\<rparr>"
  let ?w2 = "w\<lparr>sv_heap := (sv_heap w)(key_data k \<mapsto> ?d2)\<rparr>"
  have "request_process k ?w1 = Inr (socks_code REQUEST_CONNECTING,
      ?w1\<lparr>sv_heap := (sv_heap ?w1)(key_data k \<mapsto> ?d2)\<rparr>)"
    by (rule request_process_address [where p = p and q = "\<lparr>req_cmd = 1, req_atyp = 1, req_dest = Dest_addr ?a,
      req_port = [x, y]\<rparr>"]) (simp_all add: p(2) request_constants)
  then have run: "request_read k w = Inr (socks_code REQUEST_CONNECTING, ?w2)"
    using rb(3) by (simp add: Let_def request_is_done_def)
  let ?d3 = "?d2\<lparr>client := Client_request ?r2\<rparr>"
  let ?w3 = "w\<lparr>sv_heap := (sv_heap w)(key_data k \<mapsto> ?d3)\<rparr>"
  have leave: "run_hook (on_departure (client_statbl ! socks_code REQUEST_READ)) (socks_code REQUEST_READ) k ?w2 = Inr ?w3"
    using hook_request_close [of ?w2 k ?d2 "?r1\<lparr>rs_addr_family := 1\<rparr>" p
      "\<lparr>req_cmd = 1, req_atyp = 1, req_dest = Dest_addr ?a, req_port = [x, y]\<rparr>"] p(2)
    by (simp add: request_constants)
  have "at_conn k ?w3 ?d3" using conn_at_facts(1) [OF at] rb(1) by (simp add: at_conn_def)
  then obtain v where v: "run_hook (on_arrival (client_statbl ! socks_code REQUEST_CONNECTING))
      (socks_code REQUEST_CONNECTING) k ?w3 = Inr v"
      "moved k ?w3 ?L (?d3\<lparr>orig := Orig_conn \<lparr>cn_client_fd = client_fd d, cn_origin_fd = -1,
         cn_status = status_succeeded\<rparr>, origin_fd := fd, references := references d + 1\<rparr>) [] v"
    using hook_connecting_init [of k ?w3 ?d3 fd it "socks_code REQUEST_CONNECTING"] assms(6-12)
    by (auto simp: registered_def simp del: socks_code.simps)
  let ?e = "?d3\<lparr>orig := Orig_conn \<lparr>cn_client_fd = client_fd d, cn_origin_fd = -1,
         cn_status = status_succeeded\<rparr>, origin_fd := fd, references := references d + 1\<rparr>"
  have socks: "isSocks d" using conn_at_facts(5) [OF at] by simp
  obtain w' where w': "socksv5_read k w = Inr ((), w')"
      "conn_at k w' (?e\<lparr>conn_stm := machine_in REQUEST_CONNECTING\<rparr>) REQUEST_CONNECTING"
      "moved k w ?L (?e\<lparr>conn_stm := machine_in REQUEST_CONNECTING\<rparr>) [] w'"
    using socks_step [where f = request_read and ready = on_read_ready, OF at _ run _ leave v(1)
        moved_from [OF v(2)]] socks socks_handlers(1) [of REQUEST_READ]
    by (auto simp: socksv5_read_def stm_handler_defs)
  then show ?thesis
    using rb(2) by (intro exI [of _ w'] exI [of _ "?e\<lparr>conn_stm := machine_in REQUEST_CONNECTING\<rparr>"] exI [of _ ?r2])
      (simp add: kept_def)
qed

section \<open>The origin\<close>

lemma connected_event:
  assumes at: "conn_at k w d REQUEST_CONNECTING" and "client d = Client_request r" and "rs_parser r = Null_ptr"
    and "orig d = Orig_conn c" and "cn_status c = status_succeeded" and "os_sockopt (key_os k) (key_fd k) = Some 0"
    and "buffer_content (write_buffer d) = []" and "registered w (key_fd k) it"
    and "sel_lookup (sv_selector w) (cn_client_fd c) = Some jt" and "cn_client_fd c \<noteq> key_fd k"
  shows "\<exists>w' d'. socksv5_write k w = Inr ((), w') \<and> conn_at k w' d' REQUEST_WRITE \<and> kept d d' \<and>
    client d' = Client_request r \<and> orig d' = Orig_conn (c\<lparr>cn_origin_fd := key_fd k\<rparr>) \<and> origin_fd d' = origin_fd d \<and>
    references d' = references d \<and> read_buffer d' = read_buffer d \<and>
    buffer_content (write_buffer d') = [5, 0, 0, 1, 0, 0, 0, 0, 0, 0] \<and>
    moved k w ((sel_lookup (sv_selector w))(cn_client_fd c \<mapsto> jt\<lparr>item_interest := OP_WRITE\<rparr>,
       key_fd k \<mapsto> it\<lparr>item_interest := OP_NOOP\<rparr>)) d'
      [Access (userIndex d) (origin_addr d) (client_addr d) status_succeeded] w'"
proof -
  let ?L = "(sel_lookup (sv_selector w))(cn_client_fd c \<mapsto> jt\<lparr>item_interest := OP_WRITE\<rparr>,
       key_fd k \<mapsto> it\<lparr>item_interest := OP_NOOP\<rparr>)"
  let ?l = "[Access (userIndex d) (origin_addr d) (client_addr d) status_succeeded]"
  have free: "buffer_free (write_buffer d) = 2048" using conn_at_facts(4) [OF at assms(7)] .
  obtain w1 wb where r: "connecting_success k w = Inr (socks_code REQUEST_WRITE, w1)"
      "moved k w ?L (d\<lparr>orig := Orig_conn (c\<lparr>cn_origin_fd := key_fd k\<rparr>), write_buffer := wb\<rparr>) ?l w1"
      "buffer_content wb = [5, 0, 0, 1, 0, 0, 0, 0, 0, 0]"
    using connecting_success_ok [OF conn_at_facts(1) [OF at] assms(4) _ assms(8-10,5)] free assms(7) by auto
  let ?e = "d\<lparr>orig := Orig_conn (c\<lparr>cn_origin_fd := key_fd k\<rparr>), write_buffer := wb\<rparr>"
  have run: "connecting_write k w = Inr (socks_code REQUEST_WRITE, w1)"
    using conn_at_facts(1) [OF at] assms(4-6) r(1)
    by (simp add: connecting_write_def bind_sv_def del: socks_code.simps)
  have leave: "run_hook (on_departure (client_statbl ! socks_code REQUEST_CONNECTING)) (socks_code REQUEST_CONNECTING) k w1 = Inr w1"
    using moved_conn [OF r(2)] assms(2,3) unfolding table_hooks
    by (simp add: run_hook_def connecting_close_def with_request_st_def eval_sv get_conn_def)
  have arrive: "run_hook (on_arrival (client_statbl ! socks_code REQUEST_WRITE)) (socks_code REQUEST_WRITE) k w1 = Inr w1"
    unfolding table_hooks by (simp add: run_hook_def)
  have socks: "isSocks d" using conn_at_facts(5) [OF at] by simp
  obtain w' where w': "socksv5_write k w = Inr ((), w')"
      "conn_at k w' (?e\<lparr>conn_stm := machine_in REQUEST_WRITE\<rparr>) REQUEST_WRITE"
      "moved k w ?L (?e\<lparr>conn_stm := machine_in REQUEST_WRITE\<rparr>) ?l w'"
    using socks_step [where f = connecting_write and ready = on_write_ready, OF at _ run _ leave arrive r(2)]
      socks socks_handlers(2) [of REQUEST_CONNECTING]
    by (auto simp: socksv5_write_def stm_handler_defs)
  then show ?thesis
    using r(3) assms(2) by (intro exI [of _ w'] exI [of _ "?e\<lparr>conn_stm := machine_in REQUEST_WRITE\<rparr>"])
      (simp add: kept_def)
qed

section \<open>The reply to the request\<close>

lemma request_reply_event:
  assumes at: "conn_at k w d REQUEST_WRITE" and "client d = Client_request r" and "orig d = Orig_conn c"
    and "cn_status c = status_succeeded" and "registered w (client_fd d) it" and "registered w (origin_fd d) jt"
    and "client_fd d \<noteq> origin_fd d" and "client_fd d \<noteq> -1" and "origin_fd d \<noteq> -1"
    and "dissec_inv (conn_dissec d)"
    and "os_send (key_os k) (key_fd k) (buffer_content (write_buffer d)) =
      int (length (buffer_content (write_buffer d)))"
  shows "\<exists>w' d'. socksv5_write k w = Inr ((), w') \<and> copy_world k w' d' \<and> conn_at k w' d' COPY \<and>
    client_fd d' = client_fd d \<and> origin_fd d' = origin_fd d \<and> buffer_content (write_buffer d') = [] \<and>
    buffer_content (read_buffer d') = buffer_content (read_buffer d) \<and>
    sv_log w' = sv_log w @ [Sent (key_fd k) (buffer_content (write_buffer d))]"
proof -
  let ?c = "buffer_content (write_buffer d)"
  have st: "orig_status d = Inr status_succeeded" using assms(3,4) by (simp add: orig_status_def)
  have full: "sel_full (sv_selector w)" using assms(5) by (simp add: registered_def)
  obtain w1 wb where r: "request_write k w = Inr (socks_code COPY, w1)"
      "moved k w (sel_lookup (sv_selector w1)) (d\<lparr>write_buffer := wb\<rparr>) [Sent (key_fd k) ?c] w1"
      "sel_lookup (sv_selector w1) = (sel_lookup (sv_selector w))
        (client_fd d \<mapsto> it\<lparr>item_interest := OP_READ\<rparr>, origin_fd d \<mapsto> jt\<lparr>item_interest := OP_READ\<rparr>)"
      "buffer_inv wb" "buffer_content wb = []"
    using request_write_sends [OF conn_at_facts(1) [OF at] assms(2) st full assms(11)] assms(5-7) by auto
  let ?d = "d\<lparr>write_buffer := wb\<rparr>"
  have heap: "sv_heap w1 (key_data k) = Some ?d" using moved_conn [OF r(2)] .
  have at1: "at_conn k w1 ?d"
    using heap r(4) conn_at_facts(1) [OF at] by (simp add: at_conn_def)
  have both: "both_registered w1 ?d"
    using r(2,3) assms(7) by (auto simp: both_registered_def moved_def side_cases)
  obtain w2 d2 where 2: "copy_init (socks_code COPY) k w1 = Inr w2" "copy_world k w2 d2"
      "\<exists>x y. d2 = ?d\<lparr>client := Client_copy x, orig := Orig_copy y\<rparr>"
      "moved k w1 (sel_lookup (sv_selector w2)) d2 [] w2"
    using copy_init_ok [OF at1 _ _ _ both, of "socks_code COPY"] assms(7-10) by auto
  have m2: "moved k w (sel_lookup (sv_selector w2)) d2 [Sent (key_fd k) ?c] w2"
    using moved_trans [OF r(2) 2(4)] by simp
  have leave: "run_hook (on_departure (client_statbl ! socks_code REQUEST_WRITE)) (socks_code REQUEST_WRITE) k w1 = Inr w1"
    unfolding table_hooks by (simp add: run_hook_def)
  have arrive: "run_hook (on_arrival (client_statbl ! socks_code COPY)) (socks_code COPY) k w1 = Inr w2"
    using 2(1) unfolding table_hooks by (simp add: run_hook_def)
  have socks: "isSocks d2" using 2(3) conn_at_facts(5) [OF at] by auto
  obtain w' where w': "socksv5_write k w = Inr ((), w')"
      "conn_at k w' (d2\<lparr>conn_stm := machine_in COPY\<rparr>) COPY"
      "moved k w (sel_lookup (sv_selector w2)) (d2\<lparr>conn_stm := machine_in COPY\<rparr>) [Sent (key_fd k) ?c] w'"
    using socks_step [where f = request_write and ready = on_write_ready, OF at _ r(1) _ leave arrive m2]
      socks socks_handlers(2) [of REQUEST_WRITE]
    by (auto simp: socksv5_write_def stm_handler_defs)
  have "copy_world k w' (d2\<lparr>conn_stm := machine_in COPY\<rparr>)"
    by (rule copy_world_machine [OF 2(2)]) (use w'(3) in \<open>auto simp: moved_def\<close>)
  then show ?thesis
    using w' 2(3) r(5) by (intro exI [of _ w'] exI [of _ "d2\<lparr>conn_stm := machine_in COPY\<rparr>"])
      (auto simp: moved_def)
qed

section \<open>The session\<close>

lemma conn_at_key: "conn_at k w d s \<Longrightarrow> key_data k' = key_data k \<Longrightarrow> conn_at k' w d s"
  by (simp add: conn_at_def session_at_def)

lemma socks_login_phase:
  assumes "sv_heap w i = Some d" and "selector.inv w" and "tables_ok w" and "isSocks d"
    and "conn_stm d = \<lparr>stm_initial = 0, stm_max_state = 10, stm_current = None\<rparr>"
    and "buffer_content (read_buffer d) = []" and "buffer_content (write_buffer d) = []"
    and "registered w c it" and "auth_method w = METHOD_USERNAME_PASSWORD"
    and o1: "os_alloc o1 Alloc_hello_parser" "os_recv o1 c 2048 = Some (5 # of_nat (length ms) # ms)"
      "METHOD_USERNAME_PASSWORD \<in> set ms" "length ms < 256"
    and o2: "plentiful o2" "os_send o2 c [5, METHOD_USERNAME_PASSWORD] = 2"
    and o3: "plentiful o3" "os_recv o3 c 2048 = Some (userpass_message u p)" "length u < 256" "length p < 256"
      "x \<in> set (login_table d w)" "login_matches u p x"
    and o4: "plentiful o4" "os_send o4 c [1, 0] = 2"
  shows "\<exists>w' d' b. events_in_order [socksv5_read (event_key i c o1), socksv5_write (event_key i c o2),
        socksv5_read (event_key i c o3), socksv5_write (event_key i c o4)] w = Inr ((), w') \<and>
    conn_at (event_key i c os) w' d' REQUEST_READ \<and> kept d d' \<and> client d' = request_ready b \<and>
    buffer_content (read_buffer d') = [] \<and> buffer_content (write_buffer d') = [] \<and>
    login_matches u p (sv_users w ! userIndex d') \<and>
    moved (event_key i c os) w ((sel_lookup (sv_selector w))(c \<mapsto> it\<lparr>item_interest := OP_READ\<rparr>)) d'
      [Sent c [5, METHOD_USERNAME_PASSWORD], Sent c [1, 0]] w'"
  using socks_events.login_phase [of w i d c it o1 ms o2 o3 u p x o4 os] assms
  by (auto simp: conn_at_def socksv5_read_def socksv5_write_def SOCKS_VERSION_def logged_def)

lemma connect_phase:
  assumes at: "conn_at (event_key i c os) w d REQUEST_READ" and "client d = request_ready b"
    and "buffer_content (read_buffer d) = []" and "buffer_content (write_buffer d) = []"
    and "registered w c it" and "client_fd d = c" and "c \<noteq> -1" and "dissec_inv (conn_dissec d)"
    and o5: "os_recv o5 c 2048 = Some (5 # 1 # rsv # 1 # a4 @ [x, y])" "length a4 = 4"
      "os_socket o5 AF_INET = fd" "selector_fd_set_nio (os_getfd o5 fd) (os_setfl o5 fd) \<noteq> -1"
      "os_connect o5 fd \<lparr>sa_family = AF_INET, sa_port = [x, y], sa_addr = a4\<rparr> 16 = EINPROGRESS"
    and fd: "\<not> INVALID_FD fd" "fd \<noteq> c" "sel_lookup (sv_selector w) fd = None"
    and o6: "os_sockopt o6 fd = Some 0"
    and o7: "os_send o7 c [5, 0, 0, 1, 0, 0, 0, 0, 0, 0] = 10"
  shows "\<exists>w' d'. events_in_order [socksv5_read (event_key i c o5), socksv5_write (event_key i fd o6),
        socksv5_write (event_key i c o7)] w = Inr ((), w') \<and>
    copy_world (event_key i c os) w' d' \<and> conn_at (event_key i c os) w' d' COPY \<and>
    client_fd d' = c \<and> origin_fd d' = fd \<and>
    buffer_content (read_buffer d') = [] \<and> buffer_content (write_buffer d') = [] \<and>
    sv_log w' = sv_log w @ [Access (userIndex d) \<lparr>sa_family = AF_INET, sa_port = [x, y], sa_addr = a4\<rparr>
      (client_addr d) status_succeeded, Sent c [5, 0, 0, 1, 0, 0, 0, 0, 0, 0]]"
proof -
  let ?a = "\<lparr>sa_family = AF_INET, sa_port = [x, y], sa_addr = a4\<rparr>"
  let ?c = "\<lparr>cn_client_fd = c, cn_origin_fd = -1, cn_status = status_succeeded\<rparr>"
  have at0: "conn_at (event_key i c o5) w d REQUEST_READ" using conn_at_key [OF at] by simp
  obtain w1 d1 r where 1: "socksv5_read (event_key i c o5) w = Inr ((), w1)"
      "conn_at (event_key i c o5) w1 d1 REQUEST_CONNECTING" "kept d d1" "client d1 = Client_request r"
      "rs_parser r = Null_ptr" "orig d1 = Orig_conn ?c" "origin_fd d1 = fd" "origin_addr d1 = ?a"
      "userIndex d1 = userIndex d" "buffer_content (read_buffer d1) = []" "write_buffer d1 = write_buffer d"
      "moved (event_key i c o5) w ((sel_lookup (sv_selector w))(c \<mapsto> it\<lparr>item_interest := OP_NOOP\<rparr>,
         fd \<mapsto> to_origin (event_key i c o5) fd)) d1 [] w1"
    using request_event [OF at0 assms(2,3) o5(2), of rsv x y it fd] o5(1,3-5) fd assms(5,6) by auto
  let ?jt = "to_origin (event_key i c o5) fd"
  have reg1: "registered w1 fd ?jt" by (rule moved_registered [OF 1(12)]) simp
  have look1: "sel_lookup (sv_selector w1) c = Some (it\<lparr>item_interest := OP_NOOP\<rparr>)"
    using moved_tables(5) [OF 1(12)] fd(2) by simp
  have at1: "conn_at (event_key i fd o6) w1 d1 REQUEST_CONNECTING" using conn_at_key [OF 1(2)] by simp
  obtain w2 d2 where 2: "socksv5_write (event_key i fd o6) w1 = Inr ((), w2)"
      "conn_at (event_key i fd o6) w2 d2 REQUEST_WRITE" "kept d1 d2" "client d2 = Client_request r"
      "orig d2 = Orig_conn (?c\<lparr>cn_origin_fd := fd\<rparr>)" "origin_fd d2 = fd" "read_buffer d2 = read_buffer d1"
      "buffer_content (write_buffer d2) = [5, 0, 0, 1, 0, 0, 0, 0, 0, 0]"
      "moved (event_key i fd o6) w1 ((sel_lookup (sv_selector w1))
         (c \<mapsto> it\<lparr>item_interest := OP_WRITE\<rparr>, fd \<mapsto> ?jt\<lparr>item_interest := OP_NOOP\<rparr>)) d2
        [Access (userIndex d) ?a (client_addr d) status_succeeded] w2"
    using connected_event [OF at1 1(4-6), of ?jt "it\<lparr>item_interest := OP_NOOP\<rparr>"] reg1 look1 o6 fd(2) 1(3,7-9,11) assms(4)
    by (auto simp: kept_def)
  have reg2: "registered w2 c (it\<lparr>item_interest := OP_WRITE\<rparr>)"
    "registered w2 fd (?jt\<lparr>item_interest := OP_NOOP\<rparr>)"
    by (rule moved_registered [OF 2(9)]; use fd(2) in simp)+
  have at2: "conn_at (event_key i c o7) w2 d2 REQUEST_WRITE" using conn_at_key [OF 2(2)] by simp
  have keep: "client_fd d2 = c" "conn_dissec d2 = conn_dissec d"
    using kept_trans [OF 1(3) 2(3)] assms(6) by (auto simp: kept_def)
  have valid: "fd \<noteq> -1" using fd(1) by (auto simp: INVALID_FD_def)
  obtain w3 d3 where 3: "socksv5_write (event_key i c o7) w2 = Inr ((), w3)" "copy_world (event_key i c o7) w3 d3"
      "conn_at (event_key i c o7) w3 d3 COPY" "client_fd d3 = c" "origin_fd d3 = fd"
      "buffer_content (write_buffer d3) = []" "buffer_content (read_buffer d3) = []"
      "sv_log w3 = sv_log w2 @ [Sent c [5, 0, 0, 1, 0, 0, 0, 0, 0, 0]]"
    using request_reply_event [OF at2 2(4,5), of "it\<lparr>item_interest := OP_WRITE\<rparr>" "?jt\<lparr>item_interest := OP_NOOP\<rparr>"]
      reg2 keep 2(6-8) 1(10) assms(7,8) o7 fd(2) valid by auto
  have "sv_log w3 = sv_log w @ [Access (userIndex d) ?a (client_addr d) status_succeeded,
      Sent c [5, 0, 0, 1, 0, 0, 0, 0, 0, 0]]"
    using 3(8) moved_tables(6) [OF 2(9)] moved_tables(6) [OF 1(12)] by simp
  then show ?thesis
    using 1(1) 2(1) 3 conn_at_key [OF 3(3), of "event_key i c os"] copy_world_key [OF 3(2), of "event_key i c os"]
    by (intro exI [of _ w3] exI [of _ d3]) (simp add: bind_sv_def ret_sv_def)
qed

end
