(* ===== verification/Resolving.thy ===== *)
theory Resolving
  imports Handshake
begin

unbundle bit_operations_syntax

text \<open>
  Host names and refusals: the service string of the resolver, the resolver thread and the block
  event that ends it (\<open>src/src/Etapas/request.c\<close>), and the replies to a client whose origin
  cannot be reached (\<open>src/src/Etapas/connecting.c\<close>).
\<close>

section \<open>The service string\<close>

definition decimal_value :: "byte list \<Rightarrow> nat" where
  "decimal_value ds = fold (\<lambda>d n. 10 * n + (unat d - 48)) ds 0"

lemma unat_digit: "n < 10 \<Longrightarrow> unat (of_nat (48 + n) :: byte) = 48 + n"
  by (simp only: unat_of_nat) (simp add: take_bit_nat_def)

lemma decimal_digits:
  "(\<forall>d \<in> set (decimal n). 48 \<le> unat d \<and> unat d \<le> 57) \<and> decimal_value (decimal n) = n \<and> decimal n \<noteq> []"
proof (induction n rule: less_induct)
  case (less n)
  show ?case
  proof (cases "n < 10")
    case True
    then show ?thesis using unat_digit [of n] by (simp add: decimal.simps [of n] decimal_value_def del: of_nat_add)
  next
    case False
    then have IH: "(\<forall>d \<in> set (decimal (n div 10)). 48 \<le> unat d \<and> unat d \<le> 57) \<and>
        decimal_value (decimal (n div 10)) = n div 10 \<and> decimal (n div 10) \<noteq> []"
      by (intro less.IH) simp
    have d: "unat (of_nat (48 + n mod 10) :: byte) = 48 + n mod 10" by (rule unat_digit) simp
    have "decimal n = decimal (n div 10) @ [of_nat (48 + n mod 10)]" using False by (simp add: decimal.simps [of n])
    then show ?thesis using IH d by (auto simp: decimal_value_def simp del: of_nat_add)
  qed
qed

lemma ntohs_bound: "ntohs port < 65536"
proof -
  have "unat (b :: byte) < 256" for b by (rule order_less_le_trans [OF unsigned_less]) simp
  from this [of "port ! 0"] this [of "port ! 1"] show ?thesis unfolding ntohs_def by linarith
qed

section \<open>The resolver\<close>

text \<open>The thread looks up the name of the request, stores the list and queues its descriptor.\<close>

lemma resolver_thread:
  assumes "sv_heap w (key_data k) = Some d" and "client d = Client_request r" and "rs_parser r = Ptr p"
    and "rp_request p = Some q" and "req_dest q = Dest_fqdn h (int n)" and "n \<le> length h"
    and "os_alloc (key_os k) (Alloc_result 0)" and "os_alloc (key_os k) Alloc_job"
    and "os_getaddrinfo (key_os k) (cstr (take n h)) (decimal (ntohs (req_port q))) = res"
  shows "request_resolv_blocking k w = Inr ((), w\<lparr>sv_heap := (sv_heap w)(key_data k \<mapsto> d\<lparr>origin_resolution := res\<rparr>),
    sv_selector := (sv_selector w)\<lparr>resolution_jobs := key_fd k # resolution_jobs (sv_selector w)\<rparr>,
    sv_threads := remove1 (key_fd k, key_data k) (sv_threads w)\<rparr>)"
  using assms
  by (simp add: request_resolv_blocking_def with_request_st_def deref_def selector_notify_def
      selector_notify_block_def sv_simps Let_def)

text \<open>The block event with a list: the first address is the one to connect to.\<close>

lemma resolved_address:
  assumes "sv_heap w (key_data k) = Some d" and "origin_resolution d = a # rest"
    and "ai_family a = AF_INET \<and> len = 16 \<or> ai_family a = AF_INET6 \<and> len = 28"
  shows "request_resolv_done k w = Inr (socks_code REQUEST_CONNECTING,
    w\<lparr>sv_heap := (sv_heap w)(key_data k \<mapsto> d\<lparr>origin_resolution_current := a # rest,
       origin_domain := ai_family a, origin_addr_len := len, origin_addr := ai_addr a\<rparr>)\<rparr>)"
  using assms by (auto simp: request_resolv_done_def sv_simps AF_INET_def AF_INET6_def Let_def)

text \<open>The block event without one: a reply with the general failure.\<close>

lemma unresolved_name:
  assumes "at_conn k w d" and "client d = Client_request r" and "origin_resolution d = []"
    and "10 \<le> buffer_free (write_buffer d)" and "registered w (key_fd k) it"
  shows "\<exists>w' d'. request_resolv_done k w = Inr (socks_code REQUEST_WRITE, w') \<and> at_conn k w' d' \<and>
    orig_status d' = Inr status_general_socks_server_failure \<and>
    buffer_content (write_buffer d') = buffer_content (write_buffer d) @ [5, 1, 0, 1, 0, 0, 0, 0, 0, 0] \<and>
    sel_lookup (sv_selector w') = (sel_lookup (sv_selector w))(key_fd k \<mapsto> it\<lparr>item_interest := OP_WRITE\<rparr>)"
proof -
  let ?g = "status_general_socks_server_failure"
  define c where "c = (case orig d of Orig_conn c \<Rightarrow> c\<lparr>cn_status := ?g\<rparr>
     | _ \<Rightarrow> \<lparr>cn_client_fd = 0, cn_origin_fd = 0, cn_status = ?g\<rparr>)"
  have status: "cn_status c = ?g" by (simp add: c_def split: origin_stage.splits)
  obtain wb where wb: "request_marshall ?g (write_buffer d) = Inr (10, wb)" "buffer_inv wb"
      "buffer_content wb = buffer_content (write_buffer d) @ [5, 1, 0, 1, 0, 0, 0, 0, 0, 0]"
    using request_marshall_spec(2) [of "write_buffer d" ?g] assms(1,4) by (auto simp: at_conn_def)
  let ?d = "d\<lparr>orig := Orig_conn c, client := Client_request (r\<lparr>rs_status := ?g\<rparr>), write_buffer := wb\<rparr>"
  let ?v = "w\<lparr>sv_heap := (sv_heap w)(key_data k \<mapsto> ?d)\<rparr>"
  have "registered ?v (key_fd k) it" using assms(5) by (simp add: registered_def)
  from set_interest_key_ok [OF this, of OP_WRITE] obtain s where s:
    "set_interest_key k OP_WRITE ?v = Inr (SELECTOR_SUCCESS, ?v\<lparr>sv_selector := s\<rparr>)"
    "sel_lookup s = (sel_lookup (sv_selector w))(key_fd k \<mapsto> it\<lparr>item_interest := OP_WRITE\<rparr>)" by auto
  have "request_resolv_done k w = Inr (socks_code REQUEST_WRITE, ?v\<lparr>sv_selector := s\<rparr>)"
    using assms(1-3) wb(1) s(1)
    by (simp add: request_resolv_done_def request_failure_def put_request_st_def with_request_st_def error_handler_def
        bind_sv_def ret_sv_def lift_sv_def put_conn_def modify_sv_def get_conn_def at_conn_def c_def del: OP_values)
  moreover have "at_conn k (?v\<lparr>sv_selector := s\<rparr>) ?d" using assms(1) wb(2) by (simp add: at_conn_def)
  ultimately show ?thesis
    using wb(3) s(2) status by (intro exI [of _ "?v\<lparr>sv_selector := s\<rparr>"] exI [of _ ?d]) (simp add: orig_status_def)
qed

section \<open>Refusals\<close>

text \<open>A connection that failed, with no other address to try.\<close>

lemma connecting_refused:
  assumes "at_conn k w d" and "orig d = Orig_conn c" and "cn_status c = status_succeeded"
    and "os_sockopt (key_os k) (key_fd k) = Some e" and "e \<noteq> 0" and "length (origin_resolution_current d) < 2"
    and "10 \<le> buffer_free (write_buffer d)" and "sel_full (sv_selector w)"
  shows "\<exists>w' wb. connecting_write k w = Inr (socks_code REQUEST_WRITE, w') \<and>
    at_conn k w' (d\<lparr>orig := Orig_conn (c\<lparr>cn_status := errno_to_socks e\<rparr>), write_buffer := wb\<rparr>) \<and>
    buffer_content wb = buffer_content (write_buffer d) @
      [5, reply_code (errno_to_socks e), 0, 1, 0, 0, 0, 0, 0, 0] \<and>
    sv_log w' = sv_log w @ [Access (userIndex d) (origin_addr d) (client_addr d) (errno_to_socks e)] \<and>
    sv_metrics w' = sv_metrics w"
proof -
  have "connecting_write k w = refuse k (errno_to_socks e) w"
    using assms(1-6) by (simp add: connecting_write_def bind_sv_def)
  with refuse_ok [OF assms(1,2,7,8), of "errno_to_socks e"] show ?thesis by auto
qed

end
