(* ===== verification/Stage_Typing.thy ===== *)
theory Stage_Typing
  imports Lifecycle
begin

unbundle bit_operations_syntax

text \<open>
  The types of the unions of \<open>struct socks5\<close> (\<open>client\<close> and \<open>orig\<close> of \<open>src/include/socks5nio.h\<close>):
  which member is the live one is known from the state of the machine only. A shape says
  which member that is, and that the parser it points to has not been freed. Every turn of
  the loop keeps the shape of every connection.
\<close>

section \<open>Shapes\<close>

datatype stage_shape =
    Any_stage | No_origin | Hello_open | Hello_done | Userpass_open | Userpass_done | Request_open
  | Request_left | Request_connecting | Request_done | Copying | Mng_open | Mng_done_stage

text \<open>The parser of a stage that reads: still there, and complete unless the stage reports an error.\<close>

definition hello_live :: "hello_st \<Rightarrow> bool" where
  "hello_live h \<longleftrightarrow> hs_parser h \<noteq> Freed_ptr \<and> (hs_status h = HELLO_SUCCESS \<longrightarrow> (\<exists>p. hs_parser h = Ptr p))"

definition userpass_live :: "userpass_st \<Rightarrow> bool" where
  "userpass_live u \<longleftrightarrow> up_parser u \<noteq> Parser_freed \<and> (up_status u = AUTH_SUCCESS \<longrightarrow> (\<exists>p. up_parser u = Parser_ready p))"

definition mng_live :: "mng_request_st \<Rightarrow> bool" where
  "mng_live m \<longleftrightarrow> ms_parser m \<noteq> Parser_freed \<and>
     (ms_status m = mng_status_succeeded \<longrightarrow> (\<exists>p. ms_parser m = Parser_ready p))"

lemmas live_defs = hello_live_def userpass_live_def mng_live_def

definition both_stages :: "socks5 \<Rightarrow> bool" where
  "both_stages d \<longleftrightarrow> (\<forall>sd. \<exists>i. copy_get sd d = Inr (stage_of sd d i))"

fun shape_ok :: "stage_shape \<Rightarrow> socks5 \<Rightarrow> bool" where
  "shape_ok Any_stage d \<longleftrightarrow> True"
| "shape_ok No_origin d \<longleftrightarrow> orig d = Orig_zero"
| "shape_ok Hello_open d \<longleftrightarrow> orig d = Orig_zero \<and> (\<exists>h. client d = Client_hello h \<and> hello_live h)"
| "shape_ok Hello_done d \<longleftrightarrow> orig d = Orig_zero \<and> (\<exists>h. client d = Client_hello h)"
| "shape_ok Userpass_open d \<longleftrightarrow> orig d = Orig_zero \<and> (\<exists>u. client d = Client_userpass u \<and> userpass_live u)"
| "shape_ok Userpass_done d \<longleftrightarrow> orig d = Orig_zero \<and> (\<exists>u. client d = Client_userpass u)"
| "shape_ok Request_open d \<longleftrightarrow> orig d = Orig_zero \<and> (\<exists>r p. client d = Client_request r \<and> rs_parser r = Ptr p)"
| "shape_ok Request_left d \<longleftrightarrow> (\<exists>r. client d = Client_request r \<and> rs_parser r \<noteq> Freed_ptr) \<and>
     (\<forall>c. orig d \<noteq> Orig_copy c)"
| "shape_ok Request_connecting d \<longleftrightarrow> (\<exists>r. client d = Client_request r \<and> rs_parser r \<noteq> Freed_ptr) \<and>
     (\<exists>c. orig d = Orig_conn c)"
| "shape_ok Request_done d \<longleftrightarrow> (\<exists>r. client d = Client_request r) \<and> (\<forall>c. orig d \<noteq> Orig_copy c)"
| "shape_ok Copying d \<longleftrightarrow> both_stages d"
| "shape_ok Mng_open d \<longleftrightarrow> orig d = Orig_zero \<and> (\<exists>m. client d = Client_mng m \<and> mng_live m)"
| "shape_ok Mng_done_stage d \<longleftrightarrow> orig d = Orig_zero \<and> (\<exists>m. client d = Client_mng m)"

fun socks_shape :: "socks_v5state \<Rightarrow> stage_shape" where
  "socks_shape HELLO_READ = Hello_open"
| "socks_shape HELLO_WRITE = Hello_done"
| "socks_shape USERPASS_READ = Userpass_open"
| "socks_shape USERPASS_WRITE = Userpass_done"
| "socks_shape REQUEST_READ = Request_open"
| "socks_shape REQUEST_RESOLV = Request_left"
| "socks_shape REQUEST_CONNECTING = Request_connecting"
| "socks_shape REQUEST_WRITE = Request_done"
| "socks_shape COPY = Copying"
| "socks_shape DONE = Any_stage"
| "socks_shape ERROR = Any_stage"

fun mng_shape :: "mng_state \<Rightarrow> stage_shape" where
  "mng_shape MNG_HELLO_READ = Hello_open"
| "mng_shape MNG_HELLO_WRITE = Hello_done"
| "mng_shape MNG_USERPASS_READ = Userpass_open"
| "mng_shape MNG_USERPASS_WRITE = Userpass_done"
| "mng_shape MNG_REQUEST_READ_INDEX = Mng_open"
| "mng_shape MNG_REQUEST_READ = Mng_open"
| "mng_shape MNG_REQUEST_WRITE = Mng_done_stage"
| "mng_shape MNG_DONE = Any_stage"
| "mng_shape MNG_ERROR = Any_stage"

text \<open>A connection whose machine and unions agree.\<close>

definition machine_typed ::
    "(skey, server) state_table \<Rightarrow> ('s \<Rightarrow> nat) \<Rightarrow> ('s \<Rightarrow> stage_shape) \<Rightarrow> socks5 \<Rightarrow> bool" where
  "machine_typed tbl code shape d \<longleftrightarrow> stm_inv tbl (conn_stm d) \<and> stm_initial (conn_stm d) = 0 \<and>
     (case stm_current (conn_stm d) of
        None \<Rightarrow> shape_ok No_origin d
      | Some c \<Rightarrow> \<exists>s. c = code s \<and> shape_ok (shape s) d)"

definition stage_typed :: "socks5 \<Rightarrow> bool" where
  "stage_typed d \<longleftrightarrow> terminals_ok d \<and>
     (if isSocks d then machine_typed client_statbl socks_code socks_shape d
      else machine_typed client_mng mng_code mng_shape d)"

section \<open>Kinds of connections\<close>

text \<open>
  Every reference to a connection comes from one of the two servers: \<open>kind_at\<close> is the kind of
  every structure allocated so far, true for SOCKS. \<open>may_hold\<close> restricts the handlers that the
  items of the selector may have while an item is being served.
\<close>

record kinds =
  kind_at :: "nat \<Rightarrow> bool option"
  may_hold :: "nat \<Rightarrow> handler_id \<Rightarrow> bool"

definition refers :: "kinds \<Rightarrow> handler_id option \<Rightarrow> nat option \<Rightarrow> bool" where
  "refers ks h x \<longleftrightarrow> (\<forall>j. x = Some j \<longrightarrow>
     (h = Some Socks5_handler \<longrightarrow> kind_at ks j = Some True) \<and> (h = Some Mng_handler \<longrightarrow> kind_at ks j = Some False) \<and>
     h \<noteq> Some Socks5_passive \<and> h \<noteq> Some Mng_passive)"

definition item_refers :: "kinds \<Rightarrow> nat \<Rightarrow> (handler_id, nat) item \<Rightarrow> bool" where
  "item_refers ks n it \<longleftrightarrow> refers ks (item_handler it) (item_data it) \<and>
     (\<forall>h. item_handler it = Some h \<longrightarrow> may_hold ks n h)"

definition items_refer :: "kinds \<Rightarrow> (handler_id, nat) fdselector \<Rightarrow> bool" where
  "items_refer ks s \<longleftrightarrow> (\<forall>n < length (fds s). item_refers ks n (fds s ! n))"

definition agrees :: "kinds \<Rightarrow> server \<Rightarrow> bool" where
  "agrees ks w \<longleftrightarrow> (\<forall>j b. kind_at ks j = Some b \<longrightarrow> j < sv_next w) \<and> items_refer ks (sv_selector w) \<and>
     (\<forall>j \<in> set (sv_pool w). kind_at ks j = Some True) \<and> (\<forall>j \<in> set (sv_mng_pool w). kind_at ks j = Some False) \<and>
     (\<forall>t \<in> set (sv_threads w). kind_at ks (snd t) = Some True)"

text \<open>What the handlers of a connection of kind \<open>b\<close> need; the SOCKS ones register new items.\<close>

definition owns :: "kinds \<Rightarrow> bool \<Rightarrow> nat \<Rightarrow> bool" where
  "owns ks b i \<longleftrightarrow> kind_at ks i = Some b \<and> (b \<longrightarrow> (\<forall>n. may_hold ks n Socks5_handler))"

lemma refers_None [simp]: "refers ks None x" "refers ks h None"
  by (simp_all add: refers_def)

lemma item_refers_None [simp]: "item_handler it = None \<Longrightarrow> item_refers ks n it"
  by (simp add: item_refers_def)

lemma item_refers_updates [simp]:
  "item_refers ks n (it\<lparr>item_fd := fd\<rparr>) = item_refers ks n it"
  "item_refers ks n (it\<lparr>item_interest := i\<rparr>) = item_refers ks n it"
  by (simp_all add: item_refers_def)

lemma items_refer_fds: "fds s' = fds s \<Longrightarrow> items_refer ks s' = items_refer ks s"
  by (simp add: items_refer_def)

lemma items_refer_simps [simp]:
  "items_refer ks (s\<lparr>max_fd := m\<rparr>) = items_refer ks s" "items_refer ks (s\<lparr>resolution_jobs := j\<rparr>) = items_refer ks s"
  "items_refer ks (s\<lparr>slave_r := r\<rparr>) = items_refer ks s" "items_refer ks (s\<lparr>slave_w := q\<rparr>) = items_refer ks s"
  "items_refer ks (items_update_fdset_for_fd s it) = items_refer ks s"
  by (rule items_refer_fds, simp)+

lemma items_refer_update:
  "items_refer ks s \<Longrightarrow> item_refers ks n it \<Longrightarrow> items_refer ks (s\<lparr>fds := (fds s)[n := it]\<rparr>)"
  unfolding items_refer_def by (simp, metis nth_list_update_eq nth_list_update_neq)

lemma items_refer_at: "items_refer ks s \<Longrightarrow> n < length (fds s) \<Longrightarrow> item_refers ks n (fds s ! n)"
  by (simp add: items_refer_def)

lemma items_refer_init:
  "items_init s n = Inr s' \<Longrightarrow> items_refer ks s \<Longrightarrow> items_refer ks s'"
  by (auto simp: items_init_def items_refer_def nth_append item_init_def min_def split: if_splits)

lemma items_refer_capacity:
  assumes "ensure_capacity alloc s n = Inr (st, s')" and "items_refer ks s"
  shows "items_refer ks s'"
proof -
  have z: "items_refer ks (s\<lparr>fds := replicate l zero_item, fd_size := q\<rparr>)"
    "items_refer ks (s\<lparr>fds := take m (fds s) @ replicate l zero_item, fd_size := q\<rparr>)" for m l q
    using assms(2) by (auto simp: items_refer_def zero_item_def nth_append)
  show ?thesis
    using assms z
    by (auto simp: ensure_capacity_def bind_res_eq_Inr Let_def split: if_splits elim!: items_refer_init)
qed

lemma items_refer_register:
  assumes "selector_register alloc s fd (Some h) i x = Inr (st, s')" and "items_refer ks s"
    and "refers ks (Some h) x" and "\<And>n. may_hold ks n h"
  shows "items_refer ks s'"
proof -
  let ?it = "\<lparr>item_fd = fd, item_interest = i, item_handler = Some h, item_data = x\<rparr>"
  have "items_refer ks (s1\<lparr>fds := (fds s1)[n := ?it], max_fd := m\<rparr>)" if "items_refer ks s1" for s1 n m
    using items_refer_update [OF that, of n ?it] assms(3,4) by (simp add: items_refer_def item_refers_def)
  with assms(1,2) show ?thesis
    by (auto simp: selector_register_def bind_res_eq_Inr Let_def split: if_splits dest: items_refer_capacity)
qed

lemma items_refer_interest:
  assumes "selector_set_interest s fd i = Inr (st, s')" and "items_refer ks s"
  shows "items_refer ks s'"
  using assms items_refer_at [OF assms(2), of "nat fd"]
  by (auto simp: selector_set_interest_def Let_def split: if_splits intro!: items_refer_update)

lemma items_refer_unregister:
  assumes "selector_unregister_fd cb s fd w = Inr (st, s', w')" and "items_refer ks s"
  shows "items_refer ks s'"
proof -
  have "items_refer ks ((items_update_fdset_for_fd s it)\<lparr>fds := (fds s)[n := item_init zero_item]\<rparr>)" for it n
    using items_refer_update [OF assms(2), of n "item_init zero_item"]
    by (simp add: items_refer_def item_init_def zero_item_def)
  with assms show ?thesis
    by (auto simp: selector_unregister_fd_def bind_res_eq_Inr Let_def split: if_splits option.splits)
qed

section \<open>Invariants of the connections\<close>

text \<open>\<open>E j\<close> is what is known of connection \<open>j\<close>; it only speaks of the fields the loop does not change by itself.\<close>

definition same_stage :: "socks5 \<Rightarrow> socks5 \<Rightarrow> bool" where
  "same_stage d d' \<longleftrightarrow> client d' = client d \<and> orig d' = orig d \<and> conn_stm d' = conn_stm d \<and>
     client_fd d' = client_fd d \<and> origin_fd d' = origin_fd d \<and> isSocks d' = isSocks d \<and>
     terminals_ok d' = terminals_ok d"

locale connection_frame =
  fixes ks :: kinds and E :: "nat \<Rightarrow> socks5 \<Rightarrow> bool"
  assumes stable: "E j d \<Longrightarrow> same_stage d d' \<Longrightarrow> E j d'"
begin

definition good :: "nat \<Rightarrow> socks5 \<Rightarrow> bool" where
  "good j d \<longleftrightarrow> kind_at ks j = Some (isSocks d) \<and> terminals_ok d \<and> E j d"

definition world :: "server \<Rightarrow> bool" where
  "world w \<longleftrightarrow> agrees ks w \<and> (\<forall>j d. sv_heap w j = Some d \<longrightarrow> good j d)"

lemma good_same: "good j d \<Longrightarrow> same_stage d d' \<Longrightarrow> good j d'"
  using stable by (auto simp: good_def same_stage_def)

lemma good_updates [simp]:
  "good j (d\<lparr>write_buffer := b\<rparr>) = good j d" "good j (d\<lparr>read_buffer := b\<rparr>) = good j d"
  "good j (d\<lparr>references := r\<rparr>) = good j d" "good j (d\<lparr>userIndex := n\<rparr>) = good j d"
  "good j (d\<lparr>authentication := a\<rparr>) = good j d" "good j (d\<lparr>conn_dissec := p\<rparr>) = good j d"
  "good j (d\<lparr>origin_resolution := l\<rparr>) = good j d" "good j (d\<lparr>client_addr := ad\<rparr>) = good j d"
proof -
  have eq: "good j x = good j y" if "same_stage x y" for x y
    using good_same [of j x y] good_same [of j y x] that by (auto simp: same_stage_def)
  show "good j (d\<lparr>write_buffer := b\<rparr>) = good j d" "good j (d\<lparr>read_buffer := b\<rparr>) = good j d"
    "good j (d\<lparr>references := r\<rparr>) = good j d" "good j (d\<lparr>userIndex := n\<rparr>) = good j d"
    "good j (d\<lparr>authentication := a\<rparr>) = good j d" "good j (d\<lparr>conn_dissec := p\<rparr>) = good j d"
    "good j (d\<lparr>origin_resolution := l\<rparr>) = good j d" "good j (d\<lparr>client_addr := ad\<rparr>) = good j d"
    by (rule eq; simp add: same_stage_def)+
qed

lemma world_heap: "world w \<Longrightarrow> good j d \<Longrightarrow> world (w\<lparr>sv_heap := (sv_heap w)(j \<mapsto> d)\<rparr>)"
  by (auto simp: world_def agrees_def)

lemma world_updates:
  "world w \<Longrightarrow> world (w\<lparr>sv_metrics := m\<rparr>)" "world w \<Longrightarrow> world (w\<lparr>sv_log := l\<rparr>)"
  "world w \<Longrightarrow> world (w\<lparr>auth_method := b\<rparr>)" "world w \<Longrightarrow> world (w\<lparr>password_dissectors := b\<rparr>)"
  "world w \<Longrightarrow> world (w\<lparr>sv_users := us, nusers := n\<rparr>)"
  "world w \<Longrightarrow> items_refer ks s \<Longrightarrow> world (w\<lparr>sv_selector := s\<rparr>)"
  "world w \<Longrightarrow> \<forall>t \<in> set ts. kind_at ks (snd t) = Some True \<Longrightarrow> world (w\<lparr>sv_threads := ts\<rparr>)"
  "world w \<Longrightarrow> world (w\<lparr>sv_users := us\<rparr>)"
  by (auto simp: world_def agrees_def)

lemma world_thread: "world w \<Longrightarrow> kind_at ks j = Some True \<Longrightarrow> world (w\<lparr>sv_threads := sv_threads w @ [(fd, j)]\<rparr>)"
  by (auto simp: world_def agrees_def)

lemma world_refer: "world w \<Longrightarrow> items_refer ks (sv_selector w)"
  by (simp add: world_def agrees_def)

lemma keeps_update:
  assumes "\<And>w. world w \<Longrightarrow> world (f w)"
  shows "keeps world (modify_sv f)" and "(\<And>x. keeps world (g x)) \<Longrightarrow> keeps world (bind_sv (modify_sv f) g)"
proof -
  show 1: "keeps world (modify_sv f)" using assms by (simp add: keeps_def sv_simps)
  show "keeps world (bind_sv (modify_sv f) g)" if "\<And>x. keeps world (g x)" using keeps_bind [OF 1 that] .
qed

lemma keeps_put [keeps_intros]:
  "good (key_data k) d \<Longrightarrow> keeps world (put_conn k d)"
  "good (key_data k) d \<Longrightarrow> (\<And>x. keeps world (f x)) \<Longrightarrow> keeps world (bind_sv (put_conn k d) f)"
  "good j d \<Longrightarrow> keeps world (put_heap j d)"
  "good j d \<Longrightarrow> (\<And>x. keeps world (f x)) \<Longrightarrow> keeps world (bind_sv (put_heap j d) f)"
  unfolding put_conn_def put_heap_def by (rule keeps_update; simp add: world_heap)+

lemma world_conn: "world w \<Longrightarrow> get_conn k w = Inr (d, w') \<Longrightarrow> good (key_data k) d \<and> w' = w"
  by (auto simp: world_def get_conn_def split: option.splits)

lemma keeps_getting [keeps_intros]:
  assumes "\<And>d. good (key_data k) d \<Longrightarrow> keeps world (f d)"
  shows "keeps world (bind_sv (get_conn k) f)"
  unfolding keeps_def
proof (intro allI impI)
  fix w x w'
  assume w: "world w" and "bind_sv (get_conn k) f w = Inr (x, w')"
  then obtain d w1 where d: "get_conn k w = Inr (d, w1)" and f: "f d w1 = Inr (x, w')"
    by (auto simp: bind_sv_def bind_res_eq_Inr)
  from world_conn [OF w d] have "good (key_data k) d" "w1 = w" by auto
  with keepsD [OF assms w] f show "world w'" by simp
qed

lemma keeps_log [keeps_intros]:
  "keeps world (emit e)" "(\<And>x. keeps world (f x)) \<Longrightarrow> keeps world (bind_sv (emit e) f)"
  "keeps world (close_fd fd)" "(\<And>x. keeps world (f x)) \<Longrightarrow> keeps world (bind_sv (close_fd fd) f)"
  "keeps world (modify_metrics g)" "(\<And>x. keeps world (f x)) \<Longrightarrow> keeps world (bind_sv (modify_metrics g) f)"
  unfolding close_fd_def emit_def modify_metrics_def by (rule keeps_update; simp add: world_updates)+

lemma keeps_world_bind:
  assumes "\<And>w x w'. world w \<Longrightarrow> m w = Inr (x, w') \<Longrightarrow> world w'"
  shows "keeps world m" and "(\<And>x. keeps world (f x)) \<Longrightarrow> keeps world (bind_sv m f)"
proof -
  show 1: "keeps world m" unfolding keeps_def using assms by blast
  show "keeps world (bind_sv m f)" if "\<And>x. keeps world (f x)" using keeps_bind [OF 1 that] .
qed

lemma world_interest: "world w \<Longrightarrow> set_interest fd i w = Inr (x, w') \<Longrightarrow> world w'"
  by (auto simp: set_interest_def bind_res_eq_Inr
      intro!: world_updates(6) elim!: items_refer_interest [OF _ world_refer])

lemma world_register:
  "world w \<Longrightarrow> refers ks (Some h) x \<Longrightarrow> \<forall>n. may_hold ks n h \<Longrightarrow> register k fd h i x w = Inr (y, w') \<Longrightarrow> world w'"
  by (auto simp: register_def bind_res_eq_Inr
      intro!: world_updates(6) elim!: items_refer_register [OF _ world_refer])

lemma keeps_interests [keeps_intros]:
  "keeps world (set_interest fd i)" "(\<And>x. keeps world (f x)) \<Longrightarrow> keeps world (bind_sv (set_interest fd i) f)"
  "keeps world (set_interest_key k i)"
  "(\<And>x. keeps world (f x)) \<Longrightarrow> keeps world (bind_sv (set_interest_key k i) f)"
  unfolding set_interest_key_eq by (rule keeps_world_bind; blast intro: world_interest)+

lemma keeps_registering [keeps_intros]:
  "refers ks (Some h) x \<Longrightarrow> \<forall>n. may_hold ks n h \<Longrightarrow> keeps world (register k fd h i x)"
  "refers ks (Some h) x \<Longrightarrow> \<forall>n. may_hold ks n h \<Longrightarrow> (\<And>y. keeps world (f y)) \<Longrightarrow> keeps world (bind_sv (register k fd h i x) f)"
  by (rule keeps_world_bind, erule (3) world_register)
     (rule keeps_world_bind, erule (3) world_register, simp)

lemma world_destroy:
  "world w \<Longrightarrow> refers ks (Some Socks5_handler) x \<Longrightarrow> socks5_destroy x w = Inr w' \<Longrightarrow> world w'"
  "world w \<Longrightarrow> refers ks (Some Mng_handler) x \<Longrightarrow> mng_destroy x w = Inr w' \<Longrightarrow> world w'"
  by (auto simp: socks5_destroy_def mng_destroy_def socks5_free_def world_def agrees_def refers_def
      split: option.splits if_splits)

lemma world_unregister:
  assumes "world w" and "unregister fd w = Inr (st, w')"
  shows "world w'"
proof -
  from assms(2) obtain s v where u: "selector_unregister_fd handle_close (sv_selector w) fd w = Inr (st, s, v)"
    and w': "w' = v\<lparr>sv_selector := s\<rparr>" by (auto simp: unregister_def bind_res_eq_Inr)
  have "world v"
  proof (cases "INVALID_FD fd \<or> nat fd \<ge> length (fds (sv_selector w)) \<or> \<not> ITEM_USED (fds (sv_selector w) ! nat fd)")
    case True
    then show ?thesis using u assms(1) by (auto simp: selector_unregister_fd_def split: if_splits)
  next
    case False
    let ?it = "fds (sv_selector w) ! nat fd"
    from u False obtain h where h: "item_handler ?it = Some h"
      "(case handle_close h of None \<Rightarrow> Inr w | Some f \<Rightarrow> f (item_fd ?it) (item_data ?it) w) = Inr v"
      by (auto simp: selector_unregister_fd_def Let_def bind_res_eq_Inr split: option.splits)
    have "refers ks (Some h) (item_data ?it)"
      using items_refer_at [OF world_refer [OF assms(1)], of "nat fd"] False h(1) by (simp add: item_refers_def)
    with h(2) assms(1) show ?thesis
      by (cases h) (auto simp: socksv5_close_def mng_close_def dest: world_destroy)
  qed
  with w' items_refer_unregister [OF u world_refer [OF assms(1)]] show ?thesis by (simp add: world_updates)
qed

lemma keeps_unregistering [keeps_intros]:
  "keeps world (unregister fd)" "(\<And>x. keeps world (f x)) \<Longrightarrow> keeps world (bind_sv (unregister fd) f)"
  by (rule keeps_world_bind; blast intro: world_unregister)+

lemma keeps_sending [keeps_intros]:
  assumes f: "\<And>r. keeps world (f r)"
  shows "keeps world (bind_sv (send_from k b) f)"
  by (rule keeps_bind) (auto simp: send_from_def Let_def intro!: keeps_intros f)

text \<open>Operations that leave the unions alone.\<close>

lemma keeps_replies [keeps_intros]:
  "keeps world (error_handler st k)" "(\<And>x. keeps world (f x)) \<Longrightarrow> keeps world (bind_sv (error_handler st k) f)"
  "keeps world (error_handler_to_client st k)"
  "(\<And>x. keeps world (f x)) \<Longrightarrow> keeps world (bind_sv (error_handler_to_client st k) f)"
proof -
  show 1: "keeps world (error_handler st k)" unfolding error_handler_def by (intro keeps_intros) simp
  show 2: "keeps world (error_handler_to_client st k)"
    unfolding error_handler_to_client_def by (intro keeps_intros) simp
  show "keeps world (bind_sv (error_handler st k) f)" if "\<And>x. keeps world (f x)" using keeps_bind [OF 1 that] .
  show "keeps world (bind_sv (error_handler_to_client st k) f)" if "\<And>x. keeps world (f x)"
    using keeps_bind [OF 2 that] .
qed

lemma keeps_plain [keeps_intros]:
  "keeps world (auth_process p k)" "keeps world (sniff k xs)" "keeps world (copy_compute_interests k sd)"
  "keeps world (add_reference k)" "keeps world (log_access k)"
proof -
  show "keeps world (auth_process p k)"
    unfolding auth_process_def checkCredentials_def checkMngCredentials_def by (intro keeps_intros) simp_all
  show "keeps world (sniff k xs)"
    unfolding sniff_def by (intro keeps_intros keeps_update) (simp_all add: world_updates)
  show "keeps world (copy_compute_interests k sd)" unfolding copy_compute_interests_def by (intro keeps_intros)
  show "keeps world (add_reference k)" unfolding add_reference_def by (intro keeps_intros) simp
  show "keeps world (log_access k)" unfolding log_access_def by (intro keeps_intros)
qed

lemmas keeps_plain_bind [keeps_intros] = keeps_plain [THEN keeps_bind]

lemma keeps_resolver: "keeps world (request_resolv_blocking k)"
proof -
  have "keeps world (selector_notify k' fd)" for k' fd
    by (auto simp: keeps_def selector_notify_def selector_notify_block_def Let_def world_refer
        intro!: world_updates)
  note [keeps_intros] = keeps_bind [OF this]
  have "world w \<Longrightarrow> world (w\<lparr>sv_threads := remove1 t (sv_threads w)\<rparr>)" for w t
    using set_remove1_subset [of t "sv_threads w"] by (auto simp: world_def agrees_def)
  note [keeps_intros] = keeps_update [OF this]
  show ?thesis
    unfolding request_resolv_blocking_def with_request_st_def deref_def by (intro keeps_intros) simp
qed

lemma keeps_close_all: "keeps world (close_fds l)"
  by (induction l) (auto intro!: keeps_intros)

lemma keeps_finish:
  "keeps world (socks_finish k st)" "keeps world (mng_finish k st)"
  unfolding socks_finish_def socksv5_done_def mng_finish_def mng_done_def
  by (intro keeps_intros keeps_close_all)+

lemma world_users:
  "world w \<Longrightarrow> process_mng_params k p i w = Inr (st, w') \<Longrightarrow> world w'"
  by (auto simp: process_mng_params_def Let_def bind_res_eq_Inr disableAuth_def disablePasswordDissectors_def
      addUser_def deleteUser_def split: option.splits mng_request_indexes.splits if_splits intro!: world_updates)

lemma keeps_params [keeps_intros]:
  assumes f: "\<And>x. keeps world (f x)"
  shows "keeps world (bind_sv (process_mng_params_request k p i) f)"
proof (rule keeps_bind [OF _ f])
  have *: "keeps world (bind_sv (get_conn k) (\<lambda>d. bind_sv (lift_sv (status_mng_marshal (write_buffer d) st))
      (\<lambda>wb. put_conn k (d\<lparr>write_buffer := wb\<rparr>))))" for st
    by (intro keeps_intros) simp
  show "keeps world (process_mng_params_request k p i)"
    unfolding keeps_def
  proof (intro allI impI)
    fix w x w'
    assume w: "world w" and "process_mng_params_request k p i w = Inr (x, w')"
    then obtain st w1 where q: "process_mng_params (key_os k) p i w = Inr (st, w1)"
      and r: "bind_sv (get_conn k) (\<lambda>d. bind_sv (lift_sv (status_mng_marshal (write_buffer d) st))
        (\<lambda>wb. put_conn k (d\<lparr>write_buffer := wb\<rparr>))) w1 = Inr (x, w')"
      by (auto simp: process_mng_params_request_def bind_res_eq_Inr)
    from keepsD [OF * world_users [OF w q] r] show "world w'" .
  qed
qed

end

section \<open>One connection in a stage\<close>

text \<open>The connection \<open>i\<close> has the machine \<open>m\<close> and the shape \<open>sh\<close>, every other connection is typed.\<close>

definition at_stage :: "nat \<Rightarrow> state_machine \<Rightarrow> stage_shape \<Rightarrow> nat \<Rightarrow> socks5 \<Rightarrow> bool" where
  "at_stage i m sh j d \<longleftrightarrow> (if j = i then conn_stm d = m \<and> shape_ok sh d else stage_typed d)"

lemma same_shape:
  assumes "same_stage d d'"
  shows "shape_ok sh d' = shape_ok sh d"
proof -
  have "both_stages d' = both_stages d"
    using assms unfolding both_stages_def side_cases by (simp add: same_stage_def stage_of_def copy_get_def)
  with assms show ?thesis by (cases sh) (auto simp: same_stage_def)
qed

lemma same_typed: "same_stage d d' \<Longrightarrow> stage_typed d' = stage_typed d"
  using same_shape [of d d'] by (simp add: same_stage_def stage_typed_def machine_typed_def del: shape_ok.simps cong: option.case_cong)

interpretation typed: connection_frame ks "\<lambda>j. stage_typed" for ks
  by unfold_locales (simp add: same_typed)

interpretation at: connection_frame ks "at_stage i m sh" for ks i m sh
proof unfold_locales
  fix j d d'
  assume "at_stage i m sh j d" and same: "same_stage d d'"
  moreover have "conn_stm d' = conn_stm d" using same by (simp add: same_stage_def)
  ultimately show "at_stage i m sh j d'"
    using same_typed [OF same] same_shape [OF same, of sh] by (simp add: at_stage_def del: shape_ok.simps)
qed

abbreviation at_world :: "kinds \<Rightarrow> nat \<Rightarrow> state_machine \<Rightarrow> stage_shape \<Rightarrow> server \<Rightarrow> bool" where
  "at_world ks i m sh \<equiv> connection_frame.world ks (at_stage i m sh)"

lemma at_good: "at.good ks i m sh i d \<longleftrightarrow>
    kind_at ks i = Some (isSocks d) \<and> terminals_ok d \<and> conn_stm d = m \<and> shape_ok sh d"
  by (simp add: at.good_def at_stage_def)

section \<open>The callbacks keep the shape of their stage\<close>

lemma hello_keeps:
  "keeps (at_world ks (key_data k) m Hello_open) (hello_read k)"
  "keeps (at_world ks (key_data k) m Hello_done) (hello_write k)"
  "keeps_hook (at_world ks (key_data k) m Hello_done) (hello_read_close st k)"
  "keeps_hook (at_world ks (key_data k) m Hello_done) (hello_write_init st k)"
  "keeps_hook (at_world ks (key_data k) m Hello_done) (hello_write_close st k)"
proof -
  show "keeps (at_world ks (key_data k) m Hello_open) (hello_read k)"
    unfolding hello_read_def with_hello_def by (intro keeps_intros) (auto simp: at_good live_defs)
  show "keeps (at_world ks (key_data k) m Hello_done) (hello_write k)"
    unfolding hello_write_def with_hello_def by (intro keeps_intros) (auto simp: at_good)
  show "keeps_hook (at_world ks (key_data k) m Hello_done) (hello_read_close st k)"
    by (rule keeps_hookI [OF hello_read_close_def], unfold with_hello_def) (intro keeps_intros; simp add: at_good)
  show "keeps_hook (at_world ks (key_data k) m Hello_done) (hello_write_init st k)"
    by (rule keeps_hookI [OF hello_write_init_def], unfold with_hello_def) (intro keeps_intros)
  show "keeps_hook (at_world ks (key_data k) m Hello_done) (hello_write_close st k)"
    by (simp add: keeps_hook_def hello_write_close_def)
qed

lemma auth_keeps:
  "keeps (at_world ks (key_data k) m Userpass_open) (auth_read k)"
  "keeps (at_world ks (key_data k) m Userpass_done) (auth_write k)"
  "keeps_hook (at_world ks (key_data k) m Userpass_done) (auth_read_close st k)"
  "keeps_hook (at_world ks (key_data k) m Userpass_done) (auth_write_init st k)"
  "keeps_hook (at_world ks (key_data k) m Userpass_done) (auth_write_close st k)"
proof -
  show "keeps (at_world ks (key_data k) m Userpass_open) (auth_read k)"
    unfolding auth_read_def with_userpass_def with_parser_def
    by (intro keeps_intros) (auto simp: at_good live_defs)
  show "keeps (at_world ks (key_data k) m Userpass_done) (auth_write k)"
    unfolding auth_write_def with_userpass_def by (intro keeps_intros) (auto simp: at_good)
  show "keeps_hook (at_world ks (key_data k) m Userpass_done) (auth_read_close st k)"
    by (rule keeps_hookI [OF auth_read_close_def], unfold with_userpass_def) (intro keeps_intros; simp add: at_good)
  show "keeps_hook (at_world ks (key_data k) m Userpass_done) (auth_write_init st k)"
    by (rule keeps_hookI [OF auth_write_init_def], unfold with_userpass_def) (intro keeps_intros)
  show "keeps_hook (at_world ks (key_data k) m Userpass_done) (auth_write_close st k)"
    by (simp add: keeps_hook_def auth_write_close_def)
qed

text \<open>The status of a request may change in every shape that holds a request.\<close>

lemma put_request_keeps:
  assumes "sh \<in> {Request_open, Request_left, Request_connecting, Request_done}"
    and "\<And>r. rs_parser (g r) = rs_parser r"
  shows "keeps (at_world ks (key_data k) m sh) (put_request_st k g)"
    and "(\<And>x. keeps (at_world ks (key_data k) m sh) (f x)) \<Longrightarrow>
      keeps (at_world ks (key_data k) m sh) (bind_sv (put_request_st k g) f)"
proof -
  show 1: "keeps (at_world ks (key_data k) m sh) (put_request_st k g)"
    unfolding put_request_st_def with_request_st_def
    using assms by (intro keeps_intros) (auto simp: at_good)
  show "keeps (at_world ks (key_data k) m sh) (bind_sv (put_request_st k g) f)"
    if "\<And>x. keeps (at_world ks (key_data k) m sh) (f x)" using keeps_bind [OF 1 that] .
qed

lemma request_failure_keeps:
  assumes "sh \<in> {Request_open, Request_left, Request_connecting, Request_done}"
  shows "keeps (at_world ks (key_data k) m sh) (request_failure k)"
  unfolding request_failure_def by (intro put_request_keeps(2) [OF assms] keeps_intros) simp

lemma request_process_keeps:
  assumes "owns ks True (key_data k)"
  shows "keeps (at_world ks (key_data k) m Request_open) (request_process k)"
  unfolding request_process_def with_request_st_def deref_def
  using assms
  by (intro keeps_intros put_request_keeps at.keeps_update) (auto simp: at_good owns_def intro: at.world_thread)

lemma request_keeps:
  assumes "owns ks True (key_data k)"
  shows "keeps (at_world ks (key_data k) m Request_open) (request_read k)"
    and "keeps (at_world ks (key_data k) m Request_left) (request_resolv_done k)"
    and "keeps (at_world ks (key_data k) m Request_done) (request_write k)"
    and "keeps_hook (at_world ks (key_data k) m Request_left) (request_close st k)"
proof -
  note [keeps_intros] = request_process_keeps [of ks k, OF assms]
  show "keeps (at_world ks (key_data k) m Request_open) (request_read k)"
    unfolding request_read_def with_request_st_def deref_def by (intro keeps_intros) (auto simp: at_good)
  show "keeps (at_world ks (key_data k) m Request_left) (request_resolv_done k)"
    unfolding request_resolv_done_def
    by (intro keeps_intros request_failure_keeps) (auto simp: at_good Let_def)
  show "keeps (at_world ks (key_data k) m Request_done) (request_write k)"
    unfolding request_write_def with_request_st_def by (intro keeps_intros) simp
  show "keeps_hook (at_world ks (key_data k) m Request_left) (request_close st k)"
    by (rule keeps_hookI [OF request_close_def], unfold with_request_st_def deref_def)
      (intro keeps_intros; auto simp: at_good)
qed

lemma put_orig_keeps:
  "keeps (at_world ks (key_data k) m Request_connecting) (put_orig_conn k g)"
  "keeps (at_world ks (key_data k) m Request_connecting) (put_orig_status k st)"
  unfolding put_orig_status_def put_orig_conn_def by (intro keeps_intros; auto simp: at_good)+

lemma connection_keeps:
  assumes "owns ks True (key_data k)"
  shows "keeps (at_world ks (key_data k) m Request_connecting) (connection k)"
proof -
  note [keeps_intros] = put_orig_keeps put_orig_keeps [THEN keeps_bind]
  have "keeps (at_world ks (key_data k) m Request_connecting) (connection_failure k st)" for st
    unfolding connection_failure_def by (intro keeps_intros)
  note [keeps_intros] = this keeps_bind [OF this]
  show ?thesis
    unfolding connection_def
    by (intro keeps_intros put_request_keeps) (use assms in \<open>auto simp: at_good refers_def owns_def\<close>)
qed

lemma connecting_keeps:
  assumes "owns ks True (key_data k)"
  shows "keeps (at_world ks (key_data k) m Request_connecting) (connecting_write k)"
    and "keeps_hook (at_world ks (key_data k) m Request_done) (connecting_close st k)"
proof -
  note [keeps_intros] = put_orig_keeps put_orig_keeps [THEN keeps_bind]
    connection_keeps [of ks k, OF assms, THEN keeps_bind]
  have 1: "keeps (at_world ks (key_data k) m Request_connecting) (try_next_address k)"
    unfolding try_next_address_def by (intro keeps_intros) (auto simp: at_good)
  have 2: "keeps (at_world ks (key_data k) m Request_connecting) (connecting_success k)"
    unfolding connecting_success_def by (intro keeps_intros) (auto simp: at_good)
  have 3: "keeps (at_world ks (key_data k) m Request_connecting) (refuse k x)" for x
    unfolding refuse_def by (intro keeps_intros)
  show "keeps (at_world ks (key_data k) m Request_connecting) (connecting_write k)"
    unfolding connecting_write_def by (intro keeps_intros 1 2 3) (auto simp: at_good)
  show "keeps_hook (at_world ks (key_data k) m Request_done) (connecting_close st k)"
    by (rule keeps_hookI [OF connecting_close_def], unfold with_request_st_def)
      (intro keeps_intros; auto simp: at_good)
qed

lemma both_stages_put: "both_stages d \<Longrightarrow> both_stages (copy_put sd (stage_of sd d i) d)"
  unfolding both_stages_def side_cases
  by (cases sd) (auto simp: stage_of_def copy_get_def copy_put_def split: client_stage.splits origin_stage.splits)

lemma copy_keeps:
  "keeps (at_world ks (key_data k) m Copying) (copy_read k)"
  "keeps (at_world ks (key_data k) m Copying) (copy_write k)"
proof -
  have put: "at.good ks (key_data k) m Copying (key_data k) (put_buffer n b d)"
    if "at.good ks (key_data k) m Copying (key_data k) d" for n b d
    using that by (cases n) (simp_all add: put_buffer_def)
  have drop: "keeps (at_world ks (key_data k) m Copying) (drop_interest_at k sd i)" for sd i
  proof -
    have "at.good ks (key_data k) m Copying (key_data k) (copy_put sd (drop_interest i c) d)"
      if d: "at.good ks (key_data k) m Copying (key_data k) d" and c: "copy_get sd d = Inr c" for c d
    proof -
      obtain j where "copy_get sd d = Inr (stage_of sd d j)"
        using d unfolding at_good shape_ok.simps both_stages_def by blast
      then have "c = stage_of sd d j" using c by simp
      then show ?thesis
        using d both_stages_put [of d sd "j AND NOT i"]
        by (cases sd) (simp_all add: at_good drop_interest_stage copy_put_def)
    qed
    then show ?thesis unfolding drop_interest_at_def by (intro keeps_intros)
  qed
  note [keeps_intros] = drop keeps_bind [OF drop]
  have "keeps (at_world ks (key_data k) m Copying) (copy_finish k sd)" for sd
    unfolding copy_finish_def by (intro keeps_intros)
  note [keeps_intros] = this
  show "keeps (at_world ks (key_data k) m Copying) (copy_read k)"
    unfolding copy_read_def by (intro keeps_intros put)
  show "keeps (at_world ks (key_data k) m Copying) (copy_write k)"
    unfolding copy_write_def by (intro keeps_intros put)
qed

lemma mng_stage_keeps:
  "keeps (at_world ks (key_data k) m Mng_open) (mng_request_index_read k)"
  "keeps (at_world ks (key_data k) m Mng_open) (mng_request_read k)"
  "keeps (at_world ks (key_data k) m Mng_done_stage) (mng_request_write k)"
  "keeps_hook (at_world ks (key_data k) m Mng_done_stage) (mng_request_close st k)"
  "keeps_hook (at_world ks (key_data k) m Mng_done_stage) (mng_request_write_init st k)"
  "keeps_hook (at_world ks (key_data k) m Mng_done_stage) (mng_request_write_close st k)"
proof -
  have put: "keeps (at_world ks (key_data k) m Mng_open) (put_mng k g)"
    if "\<And>x. ms_parser (g x) = ms_parser x \<and> (ms_status (g x) = mng_status_succeeded \<longrightarrow> ms_status x = mng_status_succeeded)" for g
    unfolding put_mng_def with_mng_def using that by (intro keeps_intros) (auto simp: at_good live_defs)
  have reply: "keeps (at_world ks (key_data k) m Mng_open) (mng_reply_status_write k)"
    unfolding mng_reply_status_write_def with_mng_def by (intro keeps_intros) simp
  have "keeps (at_world ks (key_data k) m Mng_open) (mng_request_index_done k p e)" for p e
    unfolding mng_request_index_done_def by (intro keeps_intros keeps_bind [OF put] reply) simp_all
  note [keeps_intros] = this reply keeps_bind [OF put]
  show "keeps (at_world ks (key_data k) m Mng_open) (mng_request_index_read k)"
    unfolding mng_request_index_read_def with_mng_def with_parser_def
    by (intro keeps_intros) (auto simp: at_good live_defs)
  show "keeps (at_world ks (key_data k) m Mng_open) (mng_request_read k)"
    unfolding mng_request_read_def with_mng_def with_parser_def
    by (intro keeps_intros) (auto simp: at_good live_defs)
  show "keeps (at_world ks (key_data k) m Mng_done_stage) (mng_request_write k)"
    unfolding mng_request_write_def with_mng_def by (intro keeps_intros) simp
  show "keeps_hook (at_world ks (key_data k) m Mng_done_stage) (mng_request_close st k)"
    by (rule keeps_hookI [OF mng_request_close_def], unfold with_mng_def) (intro keeps_intros; auto simp: at_good)
  show "keeps_hook (at_world ks (key_data k) m Mng_done_stage) (mng_request_write_init st k)"
    by (rule keeps_hookI [OF mng_request_write_init_def], unfold with_mng_def) (intro keeps_intros)
  show "keeps_hook (at_world ks (key_data k) m Mng_done_stage) (mng_request_write_close st k)"
    by (simp add: keeps_hook_def mng_request_write_close_def)
qed

section \<open>The hooks that enter a stage\<close>

definition leads :: "(server \<Rightarrow> bool) \<Rightarrow> 'a srv \<Rightarrow> (server \<Rightarrow> bool) \<Rightarrow> bool" where
  "leads P m Q \<longleftrightarrow> (\<forall>w x w'. P w \<longrightarrow> m w = Inr (x, w') \<longrightarrow> Q w')"

definition leads_hook :: "(server \<Rightarrow> bool) \<Rightarrow> (server \<Rightarrow> server res) \<Rightarrow> (server \<Rightarrow> bool) \<Rightarrow> bool" where
  "leads_hook P f Q \<longleftrightarrow> (\<forall>w w'. P w \<longrightarrow> f w = Inr w' \<longrightarrow> Q w')"

lemma leads_hookI:
  assumes "\<And>w. f w = bind_res (m w) (\<lambda>(x, w'). Inr w')" and "leads P m Q"
  shows "leads_hook P f Q"
  using assms by (fastforce simp: leads_hook_def leads_def bind_res_eq_Inr)

lemma leads_keeps: "(\<And>w. P w \<Longrightarrow> Q w) \<Longrightarrow> keeps Q m \<Longrightarrow> leads P m Q"
  by (auto simp: leads_def keeps_def)

lemma leads_hook_keeps: "(\<And>w. P w \<Longrightarrow> Q w) \<Longrightarrow> keeps_hook Q f \<Longrightarrow> leads_hook P f Q"
  by (auto simp: leads_hook_def keeps_hook_def)

lemma leads_cases:
  "leads P m Q \<Longrightarrow> leads P m' Q \<Longrightarrow> leads P (if b then m else m') Q"
  "(\<And>x. c = Inr x \<Longrightarrow> leads P (f x) Q) \<Longrightarrow> leads P (bind_sv (lift_sv c) f) Q"
  "(\<And>x. leads P (h x) Q) \<Longrightarrow> leads P (bind_sv (get_sv g) h) Q"
  "(\<And>a b. y = (a, b) \<Longrightarrow> leads P (e a b) Q) \<Longrightarrow> leads P (case y of (a, b) \<Rightarrow> e a b) Q"
  "leads P (i z) Q \<Longrightarrow> leads P (let x = z in i x) Q"
  by (auto simp: leads_def bind_sv_def lift_sv_def get_sv_def bind_res_eq_Inr split: prod.splits)

lemma leads_conn:
  assumes "\<And>d. at.good ks (key_data k) m sh (key_data k) d \<Longrightarrow> leads (at_world ks (key_data k) m sh) (f d) Q"
  shows "leads (at_world ks (key_data k) m sh) (bind_sv (get_conn k) f) Q"
  unfolding leads_def
proof (intro allI impI)
  fix w x w'
  assume w: "at_world ks (key_data k) m sh w" and "bind_sv (get_conn k) f w = Inr (x, w')"
  then obtain d w1 where d: "get_conn k w = Inr (d, w1)" and f: "f d w1 = Inr (x, w')"
    by (auto simp: bind_sv_def bind_res_eq_Inr)
  from at.world_conn [OF w d] have "at.good ks (key_data k) m sh (key_data k) d" "w1 = w" by auto
  with assms w f show "Q w'" by (auto simp: leads_def)
qed

lemma at_world_put:
  assumes "at_world ks i m sh w" and "at.good ks i m sh' i d"
  shows "at_world ks i m sh' (w\<lparr>sv_heap := (sv_heap w)(i \<mapsto> d)\<rparr>)"
  using assms by (auto simp: at.world_def at.good_def at_stage_def agrees_def)

lemma leads_put:
  assumes "at.good ks (key_data k) m sh' (key_data k) d"
  shows "leads (at_world ks (key_data k) m sh) (put_conn k d) (at_world ks (key_data k) m sh')"
    and "keeps (at_world ks (key_data k) m sh') (f ()) \<Longrightarrow>
      leads (at_world ks (key_data k) m sh) (bind_sv (put_conn k d) f) (at_world ks (key_data k) m sh')"
  using at_world_put [OF _ assms]
  by (auto simp: leads_def put_conn_def modify_sv_def bind_sv_def keeps_def)

lemma leads_bind:
  assumes "leads P m R" and "\<And>x. leads R (f x) Q"
  shows "leads P (bind_sv m f) Q"
  using assms by (fastforce simp: leads_def bind_sv_def bind_res_eq_Inr)

lemma build_parser_live:
  "build_parser k steps ss = Inr (p, ok) \<Longrightarrow> p \<noteq> Parser_freed \<and> (ok \<longrightarrow> (\<exists>q. p = Parser_ready q))"
  by (auto simp: build_parser_def bind_res_eq_Inr split: if_splits option.splits)

lemma hello_enters:
  "leads_hook (at_world ks (key_data k) m No_origin) (hello_read_init st k) (at_world ks (key_data k) m Hello_open)"
  by (rule leads_hookI [OF hello_read_init_def])
    (intro leads_conn leads_cases leads_put; simp add: at_good live_defs)

lemma auth_enters:
  "leads_hook (at_world ks (key_data k) m No_origin) (auth_read_init st k) (at_world ks (key_data k) m Userpass_open)"
  by (rule leads_hookI [OF auth_read_init_def])
    (intro leads_conn leads_cases leads_put; auto simp: at_good live_defs dest: build_parser_live)

lemma mng_index_enters:
  "leads_hook (at_world ks (key_data k) m No_origin) (mng_request_index_init st k) (at_world ks (key_data k) m Mng_open)"
  by (rule leads_hookI [OF mng_request_index_init_def])
    (intro leads_conn leads_cases leads_put; auto simp: at_good live_defs dest: build_parser_live)

lemma mng_params_enters:
  "leads_hook (at_world ks (key_data k) m Mng_done_stage) (mng_request_init st k) (at_world ks (key_data k) m Mng_open)"
proof (rule leads_hookI [OF mng_request_init_def], unfold with_mng_def, rule leads_conn)
  fix d
  assume d: "at.good ks (key_data k) m Mng_done_stage (key_data k) d"
  then obtain x where x: "client d = Client_mng x" by (auto simp: at_good)
  have live: "p \<noteq> Parser_freed \<and> (ok \<longrightarrow> (\<exists>q. p = Parser_ready q))"
    if "mng_params_parser (key_os k) (ms_index x) = Inr (p, ok)" for p ok
    using that by (auto simp: mng_params_parser_def mng_request_index_add_user_parser_init_def
        mng_request_index_delete_user_parser_init_def mng_request_index_yes_no_value_def
        split: option.splits mng_request_indexes.splits dest: build_parser_live)
  show "leads (at_world ks (key_data k) m Mng_done_stage) (case client d of Client_mng y \<Rightarrow>
      bind_sv (lift_sv (mng_params_parser (key_os k) (ms_index y))) (\<lambda>(p, ok). put_conn k (d\<lparr>client := Client_mng
        (y\<lparr>ms_parser := p, ms_status := (if ok then mng_status_succeeded else mng_status_server_error)\<rparr>)\<rparr>))
      | _ \<Rightarrow> fail_sv Undefined) (at_world ks (key_data k) m Mng_open)"
    unfolding x client_stage.case
    using d by (intro leads_cases leads_put) (auto simp: at_good live_defs dest: live)
qed

lemma leads_fail: "leads P (fail_sv e) Q" "leads P (bind_sv m' (\<lambda>_. fail_sv e)) Q"
  by (auto simp: leads_def bind_sv_def fail_sv_def bind_res_eq_Inr)

lemma request_parser_enters:
  "leads (at_world ks (key_data k) m No_origin) (put_request_st k (\<lambda>r. r\<lparr>rs_parser := Ptr p\<rparr>))
     (at_world ks (key_data k) m Request_open)"
  unfolding put_request_st_def with_request_st_def
proof (rule leads_conn)
  fix d
  assume "at.good ks (key_data k) m No_origin (key_data k) d"
  then show "leads (at_world ks (key_data k) m No_origin) (case client d of
      Client_request r \<Rightarrow> put_conn k (d\<lparr>client := Client_request (r\<lparr>rs_parser := Ptr p\<rparr>)\<rparr>) | _ \<Rightarrow> fail_sv Undefined)
    (at_world ks (key_data k) m Request_open)"
    by (cases "client d") (auto simp: leads_fail at_good intro: leads_put(1))
qed

lemma request_enters:
  "leads_hook (at_world ks (key_data k) m No_origin) (request_init st k) (at_world ks (key_data k) m Request_open)"
proof -
  have again: "keeps (at_world ks (key_data k) m Request_open) (put_request_st k (\<lambda>r. r\<lparr>rs_parser := Ptr p\<rparr>))" for p
    unfolding put_request_st_def with_request_st_def by (intro keeps_intros) (simp add: at_good)
  have fail: "keeps (at_world ks (key_data k) m Request_open) (request_failure k)"
    by (rule request_failure_keeps) simp
  have rest: "keeps (at_world ks (key_data k) m Request_open)
      (bind_sv (if b then request_failure k else ret_sv 0) (\<lambda>_.
       bind_sv (put_request_st k (\<lambda>r. r\<lparr>rs_parser := Ptr p\<rparr>)) (\<lambda>_.
       bind_sv (if c then request_failure k else ret_sv 0) (\<lambda>_. ret_sv ()))))" for b c p
    by (intro keeps_intros keeps_bind [OF fail] keeps_bind [OF again])
  show ?thesis
  proof (rule leads_hookI [OF request_init_def], rule leads_conn)
    fix d
    assume "at.good ks (key_data k) m No_origin (key_data k) d"
    then have "at.good ks (key_data k) m No_origin (key_data k) (d\<lparr>client := c\<rparr>)" for c
      by (simp add: at_good)
    then show "leads (at_world ks (key_data k) m No_origin)
      (bind_sv (put_conn k (d\<lparr>client := Client_request
          \<lparr>rs_parser = Null_ptr, rs_addr_family = 0, rs_status = status_succeeded\<rparr>\<rparr>)) (\<lambda>_.
       if \<not> os_alloc (key_os k) Alloc_request_parser
       then bind_sv (request_failure k) (\<lambda>_. fail_sv Undefined)
       else let (n, p) = request_parser_init (os_request (key_os k) 0)
                  \<lparr>rp_request = None, rp_state = request_version, rp_remaining = 0, rp_read = 0\<rparr>
            in bind_sv (put_request_st k (\<lambda>r. r\<lparr>rs_parser := Ptr p\<rparr>)) (\<lambda>_.
               bind_sv (if n < 0 then request_failure k else ret_sv 0) (\<lambda>_.
               bind_sv (put_request_st k (\<lambda>r. r\<lparr>rs_parser :=
                          Ptr (p\<lparr>rp_request := os_request (key_os k) 1\<rparr>)\<rparr>)) (\<lambda>_.
               bind_sv (if os_request (key_os k) 1 = None then request_failure k else ret_sv 0) (\<lambda>_.
                 ret_sv ()))))))
      (at_world ks (key_data k) m Request_open)"
      by (intro leads_bind [OF leads_put(1) [where sh' = No_origin]] leads_cases leads_fail
          leads_bind [OF request_parser_enters] leads_keeps [OF _ rest])
  qed
qed

lemma connecting_enters:
  assumes "owns ks True (key_data k)"
  shows "leads_hook (at_world ks (key_data k) m Request_left) (connecting_init st k)
    (at_world ks (key_data k) m Request_connecting)"
proof -
  have fail: "keeps (at_world ks (key_data k) m Request_connecting) (connecting_failure k)"
    unfolding connecting_failure_def connection_failure_def by (intro keeps_intros put_orig_keeps [THEN keeps_bind])
  show ?thesis
    by (rule leads_hookI [OF connecting_init_def])
      (intro leads_conn leads_cases leads_put(2) keeps_intros fail keeps_bind [OF connection_keeps]
        put_orig_keeps assms; auto simp: at_good)
qed

lemma copy_enters:
  "leads_hook (at_world ks (key_data k) m Request_done) (copy_init st k) (at_world ks (key_data k) m Copying)"
proof -
  have "both_stages (d\<lparr>client := Client_copy \<lparr>cp_fd = client_fd d, cp_rb = Read_buffer, cp_wb = Write_buffer,
        cp_interest = i, cp_other = Origin_side\<rparr>,
      orig := Orig_copy \<lparr>cp_fd = origin_fd d, cp_rb = Write_buffer, cp_wb = Read_buffer, cp_interest = j,
        cp_other = Client_side\<rparr>\<rparr>)" for d i j
    unfolding both_stages_def side_cases by (simp add: copy_get_def stage_of_def)
  then show ?thesis
    by (intro leads_hookI [OF copy_init_def] leads_conn leads_put(2) keeps_intros) (simp add: at_good)
qed

end
