(* ===== verification/Typed_Server.thy ===== *)
theory Typed_Server
  imports Stage_Typing
begin

text \<open>
  The types of the stages through the machines, the servers and the event loop: an event moves
  a connection from the shape of its state to the shape of the next one, so every state that a
  run of the server reaches has typed connections only.
\<close>

section \<open>State machines keep the types\<close>

lemma at_world_weaken:
  "at_world ks i m sh w \<Longrightarrow> (\<And>d. shape_ok sh d \<Longrightarrow> shape_ok sh' d) \<Longrightarrow> at_world ks i m sh' w"
  by (auto simp: at.world_def at.good_def at_stage_def simp del: shape_ok.simps)

text \<open>
  A table of states whose callbacks keep the shape of their state, whose departure hooks keep \<open>left s\<close>
  and whose arrival hooks lead from \<open>pre t\<close> to the shape of the new state, along the edges \<open>edge\<close>.
\<close>

locale staged_machine =
  fixes tbl :: "(skey, server) state_table" and code :: "'s \<Rightarrow> nat" and edge :: "socks5 \<Rightarrow> 's \<Rightarrow> 's \<Rightarrow> bool"
    and shape left pre :: "'s \<Rightarrow> stage_shape" and kind :: bool and first :: 's
  assumes callback: "ready \<in> {on_read_ready, on_write_ready, on_block_ready} \<Longrightarrow>
      ready (tbl ! code s) = Some f \<Longrightarrow> owns ks kind (key_data k) \<Longrightarrow>
      keeps (at_world ks (key_data k) m (shape s)) (f k)"
    and weaker: "shape_ok (shape s) d \<Longrightarrow> shape_ok (left s) d"
    and departure: "on_departure (tbl ! code s) = Some h \<Longrightarrow> owns ks kind (key_data k) \<Longrightarrow>
      keeps_hook (at_world ks (key_data k) m (left s)) (h st k)"
    and arrival: "owns ks kind (key_data k) \<Longrightarrow>
      leads_hook (at_world ks (key_data k) m (pre t)) (run_hook (on_arrival (tbl ! code t)) st k)
        (at_world ks (key_data k) m (shape t))"
    and connected: "edge d s t \<Longrightarrow> s \<noteq> t \<Longrightarrow> shape_ok (left s) d' \<Longrightarrow> shape_ok (pre t) d'"
    and moves: "ready \<in> {on_read_ready, on_write_ready, on_block_ready} \<Longrightarrow>
      stm_dispatch ready tbl m k w = Inr (ret, m', w') \<Longrightarrow> sv_heap w (key_data k) = Some d \<Longrightarrow>
      terminals_ok d \<Longrightarrow> isSocks d = kind \<Longrightarrow> stm_inv tbl m \<Longrightarrow> stm_current m = Some (code s) \<Longrightarrow>
      along code (edge d s) ret"
    and inject: "code s = code t \<Longrightarrow> s = t"
    and initial: "code first = 0" "pre first = No_origin"
    and starts: "run_hook (on_arrival (tbl ! code first)) st k w = Inr w' \<Longrightarrow> sv_heap w (key_data k) = Some d \<Longrightarrow>
      \<exists>d'. sv_heap w' (key_data k) = Some d'"
begin

lemma dispatch_typed:
  assumes ready: "ready \<in> {on_read_ready, on_write_ready, on_block_ready}"
    and run: "stm_dispatch ready tbl m k w = Inr (ret, m', w')" and inv: "stm_inv tbl m"
    and cur: "stm_current m = Some (code s)" and w: "at_world ks (key_data k) m0 (shape s) w"
    and d: "sv_heap w (key_data k) = Some d" and kind: "owns ks kind (key_data k)"
  shows "\<exists>t. ret = code t \<and> at_world ks (key_data k) m0 (shape t) w'"
proof -
  have "terminals_ok d" "isSocks d = kind" using w d kind by (auto simp: at.world_def at.good_def owns_def)
  from moves [OF ready run d this inv cur] obtain t where t: "ret = code t" "edge d s t"
    by (auto simp: along_def)
  from stm_dispatch_runs [OF inv cur run] obtain f w1 where
    f: "ready (tbl ! code s) = Some f" "f k w = Inr (ret, w1)" by blast
  have w1: "at_world ks (key_data k) m0 (shape s) w1"
    using keepsD [OF callback [where ks = ks and k = k and ready = ready and f = f and s = s, OF ready f(1) kind] w f(2)] .
  have "ret \<le> stm_max_state m" using stm_dispatch_spec [OF inv run] by simp
  note dispatch = run [unfolded stm_dispatch_started [where ready = ready and f = f, OF inv cur f this]]
  show ?thesis
  proof (cases "s = t")
    case True
    then have "w' = w1" using dispatch t(1) by simp
    with w1 t True show ?thesis by auto
  next
    case False
    then have "code s \<noteq> code t" using inject by blast
    then obtain w2 where w2: "run_hook (on_departure (tbl ! code s)) (code s) k w1 = Inr w2"
        "run_hook (on_arrival (tbl ! code t)) (code t) k w2 = Inr w'"
      using dispatch t(1) by (auto simp: bind_res_eq_Inr)
    have "at_world ks (key_data k) m0 (left s) w1" by (rule at_world_weaken [OF w1 weaker])
    then have "at_world ks (key_data k) m0 (left s) w2"
      using w2(1) departure [where ks = ks and k = k, OF _ kind]
      by (auto simp: run_hook_def keeps_hook_def split: option.splits)
    from at_world_weaken [OF this connected [OF t(2) False]] arrival [where ks = ks and k = k, OF kind] w2(2) t(1)
    show ?thesis by (auto simp: leads_hook_def)
  qed
qed

lemma run_typed:
  assumes handler: "handler \<in> {stm_handler_read, stm_handler_write, stm_handler_block}"
    and w: "typed.world ks w" and kind: "owns ks kind (key_data k)"
    and table: "\<And>d. isSocks d = kind \<Longrightarrow> stage_typed d \<longleftrightarrow> terminals_ok d \<and> machine_typed tbl code shape d"
    and run: "run_machine handler tbl k w = Inr (ret, w')"
  shows "typed.world ks w'"
proof -
  from handler obtain ready where ready: "handler = stm_dispatch ready"
    "ready \<in> {on_read_ready, on_write_ready, on_block_ready}" by (auto simp: stm_handler_defs)
  from run obtain d where d: "sv_heap w (key_data k) = Some d"
    by (auto simp: run_machine_def bind_sv_def bind_res_eq_Inr get_conn_def split: option.splits)
  then have good: "isSocks d = kind" "terminals_ok d" "stage_typed d"
    using w kind by (auto simp: typed.world_def typed.good_def owns_def)
  then have typed: "machine_typed tbl code shape d" using table by simp
  obtain m w1 d1 where disp: "stm_dispatch ready tbl (conn_stm d) k w = Inr (ret, m, w1)"
    and d1: "sv_heap w1 (key_data k) = Some d1" and w': "w' = w1\<lparr>sv_heap := (sv_heap w1)(key_data k \<mapsto> d1\<lparr>conn_stm := m\<rparr>)\<rparr>"
    using run d ready(1)
    by (auto simp: run_machine_def bind_sv_def get_conn_def put_conn_def modify_sv_def ret_sv_def bind_res_eq_Inr
        split: option.splits)
  have inv: "stm_inv tbl (conn_stm d)" "stm_initial (conn_stm d) = 0" using typed by (simp_all add: machine_typed_def)
  have at: "at_world ks (key_data k) (conn_stm d) sh w" if "shape_ok sh d" for sh
    using w d that by (auto simp: at.world_def at.good_def at_stage_def typed.world_def typed.good_def simp del: shape_ok.simps)
  have "\<exists>t. ret = code t \<and> at_world ks (key_data k) (conn_stm d) (shape t) w1"
  proof (cases "stm_current (conn_stm d)")
    case None
    then have w0: "at_world ks (key_data k) (conn_stm d) (pre first) w"
      using at typed initial(2) by (simp add: machine_typed_def)
    let ?m = "(conn_stm d)\<lparr>stm_current := Some (code first)\<rparr>"
    from disp obtain w2 where w2: "run_hook (on_arrival (tbl ! code first)) 0 k w = Inr w2"
        "stm_dispatch ready tbl ?m k w2 = Inr (ret, m, w1)"
      by (auto simp: stm_dispatch_first [OF inv(1) None] inv(2) initial(1) bind_res_eq_Inr)
    have w2': "at_world ks (key_data k) (conn_stm d) (shape first) w2"
      using arrival [where ks = ks and k = k, OF kind] w0 w2(1) by (auto simp: leads_hook_def)
    have inv': "stm_inv tbl ?m" using inv initial(1) by (auto simp: stm_inv_def)
    from starts [OF w2(1) d] obtain d2 where d2: "sv_heap w2 (key_data k) = Some d2" by blast
    from dispatch_typed [OF ready(2) w2(2) inv' _ w2' d2 kind] show ?thesis by simp
  next
    case (Some c)
    then obtain s where s: "c = code s" "shape_ok (shape s) d" using typed by (auto simp: machine_typed_def)
    from dispatch_typed [OF ready(2) disp inv(1) Some [unfolded s(1)] at [OF s(2)] d kind] show ?thesis .
  qed
  then obtain t where t: "ret = code t" "at_world ks (key_data k) (conn_stm d) (shape t) w1" by blast
  have m: "stm_inv tbl m" "stm_current m = Some ret" "stm_initial m = 0"
    using stm_dispatch_spec [OF inv(1) disp] inv(2) by auto
  have "typed.good ks (key_data k) (d1\<lparr>conn_stm := m\<rparr>)"
  proof -
    have g: "kind_at ks (key_data k) = Some (isSocks d1)" "terminals_ok d1" "shape_ok (shape t) d1"
      using t(2) d1 by (auto simp: at.world_def at.good_def at_stage_def simp del: shape_ok.simps)
    have "shape_ok (shape t) (d1\<lparr>conn_stm := m\<rparr>) = shape_ok (shape t) d1"
      by (cases "shape t") (simp_all add: both_stages_def side_cases copy_get_def stage_of_def)
    with g kind m t(1) show ?thesis
      by (auto simp: typed.good_def owns_def table machine_typed_def simp del: shape_ok.simps)
  qed
  with t(2) show ?thesis
    by (auto simp: w' at.world_def at.good_def at_stage_def typed.world_def typed.good_def agrees_def
        simp del: shape_ok.simps)
qed

end

subsection \<open>The SOCKS server\<close>

fun socks_left :: "socks_v5state \<Rightarrow> stage_shape" where
  "socks_left HELLO_READ = Hello_done"
| "socks_left USERPASS_READ = Userpass_done"
| "socks_left REQUEST_READ = Request_left"
| "socks_left REQUEST_CONNECTING = Request_done"
| "socks_left s = socks_shape s"

fun socks_pre :: "socks_v5state \<Rightarrow> stage_shape" where
  "socks_pre HELLO_READ = No_origin"
| "socks_pre USERPASS_READ = No_origin"
| "socks_pre REQUEST_READ = No_origin"
| "socks_pre REQUEST_CONNECTING = Request_left"
| "socks_pre COPY = Request_done"
| "socks_pre s = socks_shape s"

lemma socks_hooks:
  "on_arrival (client_statbl ! socks_code s) = (case s of HELLO_READ \<Rightarrow> Some hello_read_init
     | HELLO_WRITE \<Rightarrow> Some hello_write_init | USERPASS_READ \<Rightarrow> Some auth_read_init
     | USERPASS_WRITE \<Rightarrow> Some auth_write_init | REQUEST_READ \<Rightarrow> Some request_init
     | REQUEST_CONNECTING \<Rightarrow> Some connecting_init | COPY \<Rightarrow> Some copy_init | _ \<Rightarrow> None)"
  "on_departure (client_statbl ! socks_code s) = (case s of HELLO_READ \<Rightarrow> Some hello_read_close
     | HELLO_WRITE \<Rightarrow> Some hello_write_close | USERPASS_READ \<Rightarrow> Some auth_read_close
     | USERPASS_WRITE \<Rightarrow> Some auth_write_close | REQUEST_READ \<Rightarrow> Some request_close
     | REQUEST_CONNECTING \<Rightarrow> Some connecting_close | _ \<Rightarrow> None)"
  by (cases s; simp add: client_statbl_def bare_state_def)+

lemma socks_callbacks:
  assumes "ready \<in> {on_read_ready, on_write_ready, on_block_ready}" and "ready (client_statbl ! socks_code s) = Some f"
    and "owns ks True (key_data k)"
  shows "keeps (at_world ks (key_data k) m (socks_shape s)) (f k)"
  using assms(1,2) hello_keeps auth_keeps request_keeps [of ks k, OF assms(3)] connecting_keeps [of ks k, OF assms(3)]
    copy_keeps
  by (cases s) (auto simp: socks_handlers simp del: socks_code.simps)

lemma socks_departures:
  assumes "on_departure (client_statbl ! socks_code s) = Some h" and "owns ks True (key_data k)"
  shows "keeps_hook (at_world ks (key_data k) m (socks_left s)) (h st k)"
  using assms(1) hello_keeps auth_keeps request_keeps [of ks k, OF assms(2)] connecting_keeps [of ks k, OF assms(2)]
  by (cases s) (auto simp: socks_hooks simp del: socks_code.simps)

lemma leads_no_hook: "leads_hook P (run_hook None st k) P"
  by (simp add: leads_hook_def run_hook_def)

lemma leads_some_hook: "leads_hook P (f st k) Q \<Longrightarrow> leads_hook P (run_hook (Some f) st k) Q"
  by (simp add: leads_hook_def run_hook_def)

lemma socks_arrivals:
  assumes "owns ks True (key_data k)"
  shows "leads_hook (at_world ks (key_data k) m (socks_pre s)) (run_hook (on_arrival (client_statbl ! socks_code s)) st k)
    (at_world ks (key_data k) m (socks_shape s))"
  using hello_enters auth_enters request_enters connecting_enters [of ks k, OF assms] copy_enters
    leads_hook_keeps [OF _ hello_keeps(4)] leads_hook_keeps [OF _ auth_keeps(4)]
  by (cases s) (auto simp: socks_hooks leads_no_hook simp del: socks_code.simps intro!: leads_some_hook)

lemma socks_connected:
  "socks_edge d s t \<Longrightarrow> s \<noteq> t \<Longrightarrow> shape_ok (socks_left s) d' \<Longrightarrow> shape_ok (socks_pre t) d'"
  by (erule socks_edge.cases) auto

interpretation socks: staged_machine client_statbl socks_code socks_edge socks_shape socks_left socks_pre True
    HELLO_READ
proof unfold_locales
  show "shape_ok (socks_shape s) d \<Longrightarrow> shape_ok (socks_left s) d" for s d by (cases s) auto
  show "socks_code s = socks_code t \<Longrightarrow> s = t" for s t by (cases s; cases t) simp_all
  show "\<exists>d'. sv_heap w' (key_data k) = Some d'"
    if "run_hook (on_arrival (client_statbl ! socks_code HELLO_READ)) st k w = Inr w'"
      "sv_heap w (key_data k) = Some d" for st k w w' d
    using that hello_read_init_frame by (fastforce simp: socks_hooks run_hook_def simp del: socks_code.simps)
  show "along socks_code (socks_edge d s) ret"
    if "ready \<in> {on_read_ready, on_write_ready, on_block_ready}" "stm_dispatch ready client_statbl m k w = Inr (ret, m', w')"
      "sv_heap w (key_data k) = Some d" "terminals_ok d" "isSocks d = True" "stm_inv client_statbl m"
      "stm_current m = Some (socks_code s)" for ready m k w ret m' w' d s
    using socks_dispatch_edge [OF that(1-4) _ that(6,7)] that(5) by simp
qed (auto intro: socks_callbacks socks_departures socks_arrivals socks_connected)

subsection \<open>The management server\<close>

fun mng_left :: "mng_state \<Rightarrow> stage_shape" where
  "mng_left MNG_HELLO_READ = Hello_done"
| "mng_left MNG_USERPASS_READ = Userpass_done"
| "mng_left MNG_REQUEST_READ_INDEX = Mng_done_stage"
| "mng_left MNG_REQUEST_READ = Mng_done_stage"
| "mng_left s = mng_shape s"

fun mng_pre :: "mng_state \<Rightarrow> stage_shape" where
  "mng_pre MNG_HELLO_READ = No_origin"
| "mng_pre MNG_USERPASS_READ = No_origin"
| "mng_pre MNG_REQUEST_READ_INDEX = No_origin"
| "mng_pre MNG_REQUEST_READ = Mng_done_stage"
| "mng_pre s = mng_shape s"

lemma mng_hooks:
  "on_arrival (client_mng ! mng_code s) = (case s of MNG_HELLO_READ \<Rightarrow> Some hello_read_init
     | MNG_HELLO_WRITE \<Rightarrow> Some hello_write_init | MNG_USERPASS_READ \<Rightarrow> Some auth_read_init
     | MNG_USERPASS_WRITE \<Rightarrow> Some auth_write_init | MNG_REQUEST_READ_INDEX \<Rightarrow> Some mng_request_index_init
     | MNG_REQUEST_READ \<Rightarrow> Some mng_request_init | MNG_REQUEST_WRITE \<Rightarrow> Some mng_request_write_init | _ \<Rightarrow> None)"
  "on_departure (client_mng ! mng_code s) = (case s of MNG_HELLO_READ \<Rightarrow> Some hello_read_close
     | MNG_HELLO_WRITE \<Rightarrow> Some hello_write_close | MNG_USERPASS_READ \<Rightarrow> Some auth_read_close
     | MNG_USERPASS_WRITE \<Rightarrow> Some auth_write_close | MNG_REQUEST_READ_INDEX \<Rightarrow> Some mng_request_index_close
     | MNG_REQUEST_READ \<Rightarrow> Some mng_request_close | MNG_REQUEST_WRITE \<Rightarrow> Some mng_request_write_close | _ \<Rightarrow> None)"
  by (cases s; simp add: client_mng_def bare_state_def)+

lemma mng_callbacks:
  assumes "ready \<in> {on_read_ready, on_write_ready, on_block_ready}" and "ready (client_mng ! mng_code s) = Some f"
  shows "keeps (at_world ks (key_data k) m (mng_shape s)) (f k)"
  using assms hello_keeps auth_keeps mng_stage_keeps
  by (cases s) (auto simp: mng_handlers simp del: mng_code.simps)

lemma mng_departures:
  assumes "on_departure (client_mng ! mng_code s) = Some h"
  shows "keeps_hook (at_world ks (key_data k) m (mng_left s)) (h st k)"
  using assms hello_keeps auth_keeps mng_stage_keeps
  by (cases s) (auto simp: mng_hooks mng_request_index_close_def simp del: mng_code.simps)

lemma mng_arrivals:
  "leads_hook (at_world ks (key_data k) m (mng_pre s)) (run_hook (on_arrival (client_mng ! mng_code s)) st k)
     (at_world ks (key_data k) m (mng_shape s))"
  using hello_enters auth_enters mng_index_enters mng_params_enters
    leads_hook_keeps [OF _ hello_keeps(4)] leads_hook_keeps [OF _ auth_keeps(4)] leads_hook_keeps [OF _ mng_stage_keeps(5)]
  by (cases s) (auto simp: mng_hooks leads_no_hook simp del: mng_code.simps intro!: leads_some_hook)

lemma mng_connected:
  "mng_edge d s t \<Longrightarrow> s \<noteq> t \<Longrightarrow> shape_ok (mng_left s) d' \<Longrightarrow> shape_ok (mng_pre t) d'"
  by (erule mng_edge.cases) auto

interpretation mng: staged_machine client_mng mng_code mng_edge mng_shape mng_left mng_pre False MNG_HELLO_READ
proof unfold_locales
  show "shape_ok (mng_shape s) d \<Longrightarrow> shape_ok (mng_left s) d" for s d by (cases s) auto
  show "mng_code s = mng_code t \<Longrightarrow> s = t" for s t by (cases s; cases t) simp_all
  show "\<exists>d'. sv_heap w' (key_data k) = Some d'"
    if "run_hook (on_arrival (client_mng ! mng_code MNG_HELLO_READ)) st k w = Inr w'"
      "sv_heap w (key_data k) = Some d" for st k w w' d
    using that hello_read_init_frame by (fastforce simp: mng_hooks run_hook_def simp del: mng_code.simps)
  show "along mng_code (mng_edge d s) ret"
    if "ready \<in> {on_read_ready, on_write_ready, on_block_ready}" "stm_dispatch ready client_mng m k w = Inr (ret, m', w')"
      "sv_heap w (key_data k) = Some d" "terminals_ok d" "isSocks d = False" "stm_inv client_mng m"
      "stm_current m = Some (mng_code s)" for ready m k w ret m' w' d s
    using mng_dispatch_edge [OF that(1-4) _ that(6,7)] that(5) by simp
qed (auto intro: mng_callbacks mng_departures mng_arrivals mng_connected)

section \<open>The servers and the event loop keep the types\<close>

lemma typed_handlers:
  "owns ks True (key_data k) \<Longrightarrow> keeps (typed.world ks) (socksv5_read k)"
  "owns ks True (key_data k) \<Longrightarrow> keeps (typed.world ks) (socksv5_write k)"
  "owns ks True (key_data k) \<Longrightarrow> keeps (typed.world ks) (socksv5_block k)"
  "owns ks False (key_data k) \<Longrightarrow> keeps (typed.world ks) (mng_read k)"
  "owns ks False (key_data k) \<Longrightarrow> keeps (typed.world ks) (mng_write k)"
  "owns ks False (key_data k) \<Longrightarrow> keeps (typed.world ks) (mng_block k)"
proof -
  have s: "keeps (typed.world ks) (run_machine h client_statbl k)"
    if "h \<in> {stm_handler_read, stm_handler_write, stm_handler_block}" "owns ks True (key_data k)" for h
    unfolding keeps_def using socks.run_typed [where ks = ks and k = k, OF that(1) _ that(2)] by (auto simp: stage_typed_def)
  have m: "keeps (typed.world ks) (run_machine h client_mng k)"
    if "h \<in> {stm_handler_read, stm_handler_write, stm_handler_block}" "owns ks False (key_data k)" for h
    unfolding keeps_def using mng.run_typed [where ks = ks and k = k, OF that(1) _ that(2)] by (auto simp: stage_typed_def)
  show "owns ks True (key_data k) \<Longrightarrow> keeps (typed.world ks) (socksv5_read k)"
    "owns ks True (key_data k) \<Longrightarrow> keeps (typed.world ks) (socksv5_write k)"
    "owns ks True (key_data k) \<Longrightarrow> keeps (typed.world ks) (socksv5_block k)"
    "owns ks False (key_data k) \<Longrightarrow> keeps (typed.world ks) (mng_read k)"
    "owns ks False (key_data k) \<Longrightarrow> keeps (typed.world ks) (mng_write k)"
    "owns ks False (key_data k) \<Longrightarrow> keeps (typed.world ks) (mng_block k)"
    unfolding socksv5_read_def socksv5_write_def socksv5_block_def mng_read_def mng_write_def mng_block_def
    by (rule keeps_bind [OF s typed.keeps_finish(1)] keeps_bind [OF m typed.keeps_finish(2)]; simp)+
qed

text \<open>A world of typed connections whose kinds extend \<open>ks\<close>.\<close>

definition extends :: "kinds \<Rightarrow> kinds \<Rightarrow> bool" where
  "extends ks ks' \<longleftrightarrow> kind_at ks \<subseteq>\<^sub>m kind_at ks' \<and> may_hold ks' = may_hold ks"

definition typed_above :: "kinds \<Rightarrow> server \<Rightarrow> bool" where
  "typed_above ks w \<longleftrightarrow> (\<exists>ks'. extends ks ks' \<and> typed.world ks' w)"

lemma extends_refl [simp]: "extends ks ks"
  by (simp add: extends_def)

lemma extends_trans: "extends ks ks' \<Longrightarrow> extends ks' ks'' \<Longrightarrow> extends ks ks''"
  by (auto simp: extends_def intro: map_le_trans)

lemma extends_kind: "extends ks ks' \<Longrightarrow> kind_at ks j = Some b \<Longrightarrow> kind_at ks' j = Some b"
  by (metis domI extends_def map_le_def)

lemma extends_may: "extends ks ks' \<Longrightarrow> may_hold ks' = may_hold ks"
  by (simp add: extends_def)

lemma extends_refers: "extends ks ks' \<Longrightarrow> refers ks h x \<Longrightarrow> refers ks' h x"
  by (auto simp: refers_def dest: extends_kind)

lemma extends_owns: "extends ks ks' \<Longrightarrow> owns ks b i \<Longrightarrow> owns ks' b i"
  by (auto simp: owns_def extends_may dest: extends_kind)

lemma typed_above_keeps:
  assumes "\<And>ks'. extends ks ks' \<Longrightarrow> keeps (typed.world ks') m"
  shows "keeps (typed_above ks) m"
  using assms unfolding keeps_def typed_above_def by blast

lemma typed_above_refl: "typed.world ks w \<Longrightarrow> typed_above ks w"
  unfolding typed_above_def by (blast intro: extends_refl)

text \<open>A new connection comes from the pool of its kind, or is the next one.\<close>

lemma pool_take_typed:
  "typed.world ks w \<Longrightarrow> pool_take k w = Inr (x, w') \<Longrightarrow>
     (x = None \<and> w' = w) \<or> (\<exists>i ks'. x = Some i \<and> extends ks ks' \<and> kind_at ks' i = Some True \<and> typed.world ks' w')"
  "typed.world ks w \<Longrightarrow> mng_pool_take k w = Inr (x, w') \<Longrightarrow>
     (x = None \<and> w' = w) \<or> (\<exists>i ks'. x = Some i \<and> extends ks ks' \<and> kind_at ks' i = Some False \<and> typed.world ks' w')"
proof -
  define new where "new b = ks\<lparr>kind_at := (kind_at ks)(sv_next w \<mapsto> b)\<rparr>" for b
  have fresh: "extends ks (new b) \<and> kind_at (new b) (sv_next w) = Some b \<and>
      typed.world (new b) (w\<lparr>sv_next := sv_next w + 1\<rparr>)" if w: "typed.world ks w" for b
  proof -
    have "kind_at ks (sv_next w) = None" using w by (fastforce simp: typed.world_def agrees_def)
    then have le: "extends ks (new b)" by (simp add: extends_def new_def map_le_def dom_def)
    have "items_refer (new b) (sv_selector w)"
      using w extends_refers [OF le] extends_may [OF le]
      by (auto simp: typed.world_def agrees_def items_refer_def item_refers_def)
    moreover have "j < Suc (sv_next w)" if "kind_at (new b) j = Some c" for j c
      using that w by (auto simp: typed.world_def agrees_def less_Suc_eq new_def split: if_splits)
    moreover have "kind_at (new b) j = Some c" if "kind_at ks j = Some c" for j c using extends_kind [OF le that] .
    moreover have "typed.good (new b) j d" if "typed.good ks j d" for j d
      using that extends_kind [OF le] by (auto simp: typed.good_def)
    moreover have "kind_at (new b) (sv_next w) = Some b" by (simp add: new_def)
    ultimately show ?thesis using w le by (simp add: typed.world_def agrees_def)
  qed
  have pooled: "typed.world ks (w\<lparr>sv_pool := l\<rparr>)" "kind_at ks i = Some True"
    if "typed.world ks w" "sv_pool w = i # l" for i l
    using that by (auto simp: typed.world_def agrees_def)
  have mng_pooled: "typed.world ks (w\<lparr>sv_mng_pool := l\<rparr>)" "kind_at ks i = Some False"
    if "typed.world ks w" "sv_mng_pool w = i # l" for i l
    using that by (auto simp: typed.world_def agrees_def)
  show "typed.world ks w \<Longrightarrow> pool_take k w = Inr (x, w') \<Longrightarrow>
     (x = None \<and> w' = w) \<or> (\<exists>i ks'. x = Some i \<and> extends ks ks' \<and> kind_at ks' i = Some True \<and> typed.world ks' w')"
    using fresh [of True] pooled extends_refl
    by (auto simp: pool_take_def split: list.splits if_splits intro!: exI [of _ "new True"])
  show "typed.world ks w \<Longrightarrow> mng_pool_take k w = Inr (x, w') \<Longrightarrow>
     (x = None \<and> w' = w) \<or> (\<exists>i ks'. x = Some i \<and> extends ks ks' \<and> kind_at ks' i = Some False \<and> typed.world ks' w')"
    using fresh [of False] mng_pooled extends_refl
    by (auto simp: mng_pool_take_def split: list.splits if_splits intro!: exI [of _ "new False"])
qed

lemma keeps_taking:
  assumes take: "\<And>ks w x w'. typed.world ks w \<Longrightarrow> m w = Inr (x, w') \<Longrightarrow> (x = None \<and> w' = w) \<or>
      (\<exists>i ks'. x = Some i \<and> extends ks ks' \<and> kind_at ks' i = Some b \<and> typed.world ks' w')"
    and none: "keeps (typed_above ks) (f None)"
    and some: "\<And>i ks'. extends ks ks' \<Longrightarrow> kind_at ks' i = Some b \<Longrightarrow> keeps (typed.world ks') (f (Some i))"
  shows "keeps (typed_above ks) (bind_sv m f)"
  unfolding keeps_def
proof (intro allI impI)
  fix w y w'
  assume above: "typed_above ks w" and "bind_sv m f w = Inr (y, w')"
  then obtain ks1 x w1 where w: "extends ks ks1" "typed.world ks1 w" and x: "m w = Inr (x, w1)"
    and f: "f x w1 = Inr (y, w')" by (auto simp: typed_above_def bind_sv_def bind_res_eq_Inr)
  from take [OF w(2) x] show "typed_above ks w'"
  proof
    assume "x = None \<and> w1 = w"
    then show ?thesis using keepsD [OF none above] f by simp
  next
    assume "\<exists>i ks'. x = Some i \<and> extends ks1 ks' \<and> kind_at ks' i = Some b \<and> typed.world ks' w1"
    then obtain i ks' where i: "x = Some i" "extends ks ks'" "kind_at ks' i = Some b" "typed.world ks' w1"
      using extends_trans [OF w(1)] by blast
    have "f (Some i) w1 = Inr (y, w')" using f i(1) by simp
    from keepsD [OF some [OF i(2,3)] i(4) this] i(2) show ?thesis by (auto simp: typed_above_def)
  qed
qed

lemma keeps_client_addr:
  assumes "\<And>x. keeps (typed.world ks) (f x)"
  shows "keeps (typed.world ks) (bind_sv (set_client_addr i a) f)"
proof (rule keeps_bind [OF _ assms])
  have "typed.good ks i (d\<lparr>client_addr := a\<rparr>)" if "typed.world ks w" "sv_heap w i = Some d" for w d
    using that by (simp add: typed.world_def)
  then show "keeps (typed.world ks) (set_client_addr i a)"
    by (auto simp: keeps_def set_client_addr_def put_heap_def modify_sv_def split: option.splits intro: typed.world_heap)
qed

lemma keeps_destroying:
  "refers ks (Some Socks5_handler) x \<Longrightarrow> keeps (typed.world ks) (\<lambda>w. bind_res (socks5_destroy x w) (\<lambda>w'. Inr ((), w')))"
  "refers ks (Some Mng_handler) x \<Longrightarrow> keeps (typed.world ks) (\<lambda>w. bind_res (mng_destroy x w) (\<lambda>w'. Inr ((), w')))"
  by (auto simp: keeps_def bind_res_eq_Inr dest: typed.world_destroy)

lemma fresh_good:
  assumes "stm_init tbl \<lparr>stm_initial = 0, stm_max_state = mx, stm_current = c\<rparr> = Inr m"
    and "isSocks d \<longrightarrow> tbl = client_statbl" and "\<not> isSocks d \<longrightarrow> tbl = client_mng"
    and "kind_at ks i = Some (isSocks d)" and "terminals_ok d" and "orig d = Orig_zero" and "conn_stm d = m"
  shows "typed.good ks i d"
  using assms by (auto simp: typed.good_def stage_typed_def machine_typed_def stm_init_inv)

lemma keeps_new:
  assumes "keeps (typed_above ks) (g None)"
  shows "(\<And>ks' i. extends ks ks' \<Longrightarrow> kind_at ks' i = Some True \<Longrightarrow> keeps (typed.world ks') (g (Some i))) \<Longrightarrow>
      keeps (typed_above ks) (bind_sv (socks5_new k c) g)"
    and "(\<And>ks' i. extends ks ks' \<Longrightarrow> kind_at ks' i = Some False \<Longrightarrow> keeps (typed.world ks') (g (Some i))) \<Longrightarrow>
      keeps (typed_above ks) (bind_sv (mng_new k c) g)"
proof -
  have ret: "keeps (typed_above ks) (bind_sv (ret_sv None) g)" using assms by (simp add: keeps_bind_ret)
  show "keeps (typed_above ks) (bind_sv (socks5_new k c) g)"
    if "\<And>ks' i. extends ks ks' \<Longrightarrow> kind_at ks' i = Some True \<Longrightarrow> keeps (typed.world ks') (g (Some i))"
    unfolding socks5_new_def
    by (rule keeps_bind_assoc, rule keeps_taking, erule (1) pool_take_typed(1), unfold option.case, rule ret,
        intro keeps_intros that) (auto intro!: fresh_good simp: terminals_ok_def zero_socks5_def)
  show "keeps (typed_above ks) (bind_sv (mng_new k c) g)"
    if "\<And>ks' i. extends ks ks' \<Longrightarrow> kind_at ks' i = Some False \<Longrightarrow> keeps (typed.world ks') (g (Some i))"
    unfolding mng_new_def
    by (rule keeps_bind_assoc, rule keeps_taking, erule (1) pool_take_typed(2), unfold option.case, rule ret,
        intro keeps_intros that) (auto intro!: fresh_good simp: terminals_ok_def zero_socks5_def)
qed

lemma keeps_accepting:
  assumes "\<And>n h. may_hold ks n h"
  shows "keeps (typed_above ks) (socksv5_passive_accept k fd)" and "keeps (typed_above ks) (mng_passive_accept k fd)"
proof -
  have close: "keeps (typed_above ks) (close_fd c)" for c by (rule typed_above_keeps) (intro keeps_intros)
  have unit: "keeps (typed_above ks) (ret_sv ())" by (intro keeps_intros)
  have may: "extends ks ks' \<Longrightarrow> may_hold ks' n h" for ks' n h using assms by (simp add: extends_may)
  show "keeps (typed_above ks) (socksv5_passive_accept k fd)"
    unfolding socksv5_passive_accept_def
    by (intro keeps_option keeps_prod keeps_if close unit, rule keeps_new(1), unfold option.case, rule close)
      (intro keeps_client_addr keeps_intros keeps_destroying; simp add: refers_def may)
  show "keeps (typed_above ks) (mng_passive_accept k fd)"
    unfolding mng_passive_accept_def
    by (intro keeps_option keeps_prod keeps_if close unit, rule keeps_new(2), unfold option.case, rule close)
      (intro keeps_client_addr keeps_intros keeps_destroying; simp add: refers_def may)
qed

lemma keeps_attached:
  assumes "\<And>i. x = Some i \<Longrightarrow> owns ks b i"
    and "\<And>i ks'. owns ks' b i \<Longrightarrow> keeps (typed.world ks') (f \<lparr>key_fd = fd, key_data = i, key_os = k\<rparr>)"
  shows "keeps (typed_above ks) (attached f k fd x)"
  using assms
  by (cases x) (auto simp: attached_def keeps_fail intro!: typed_above_keeps dest: extends_owns)

text \<open>A handler of an item may register whatever its own item may hold.\<close>

lemma keeps_calling:
  assumes "refers ks h x" and "\<And>n g. refers ks (Some g) x \<Longrightarrow> may_hold ks n g"
    and "tbl = handle_read \<or> tbl = handle_write \<or> tbl = handle_block"
  shows "keeps (typed_above ks) (call_handler tbl e h k fd x)"
proof (cases h)
  case None
  then show ?thesis by (simp add: call_handler_def keeps_fail)
next
  case (Some t)
  have socks: "owns ks True i" if "t = Socks5_handler" "x = Some i" for i
    using assms(1,2) that Some by (auto simp: refers_def owns_def)
  have mng: "owns ks False i" if "t = Mng_handler" "x = Some i" for i
    using assms(1) that Some by (auto simp: refers_def owns_def)
  have listener: "may_hold ks n g" if "t = Socks5_passive \<or> t = Mng_passive" for n g
    using assms(1) that Some by (intro assms(2)) (auto simp: refers_def)
  have "keeps (typed_above ks) (f k fd x)" if "tbl t = Some f" for f
  proof (cases t)
    case Socks5_handler
    then show ?thesis
      using that assms(3) socks by (auto intro!: keeps_attached [where b = True] typed_handlers)
  next
    case Mng_handler
    then show ?thesis
      using that assms(3) mng by (auto intro!: keeps_attached [where b = False] typed_handlers)
  qed (use that assms(3) listener in \<open>auto intro!: keeps_accepting\<close>)
  with Some show ?thesis by (auto simp: call_handler_def keeps_fail split: option.splits)
qed

text \<open>The connections of the server are typed, and nothing restricts the items.\<close>

definition unrestricted :: "kinds \<Rightarrow> kinds" where
  "unrestricted ks = ks\<lparr>may_hold := \<lambda>n h. True\<rparr>"

definition server_typed :: "server \<Rightarrow> bool" where
  "server_typed w \<longleftrightarrow> (\<exists>ks. typed.world (unrestricted ks) w)"

lemma unrestricted_simps [simp]:
  "may_hold (unrestricted ks) n h" "kind_at (unrestricted ks) = kind_at ks"
  "refers (unrestricted ks) g x = refers ks g x"
  by (simp_all add: unrestricted_def refers_def)

lemma typed_world_slots:
  assumes "\<And>n it h. n < length (fds (sv_selector w)) \<Longrightarrow> it = fds (sv_selector w) ! n \<Longrightarrow>
      item_handler it = Some h \<Longrightarrow> may_hold ks n h \<Longrightarrow> refers ks (Some h) (item_data it) \<Longrightarrow> f n h"
    and "typed.world ks w"
  shows "typed.world (ks\<lparr>may_hold := f\<rparr>) w"
proof -
  have "typed.good (ks\<lparr>may_hold := f\<rparr>) = typed.good ks" by (simp add: typed.good_def fun_eq_iff)
  moreover have "refers (ks\<lparr>may_hold := f\<rparr>) = refers ks" by (simp add: refers_def fun_eq_iff)
  ultimately show ?thesis
    using assms by (auto simp: typed.world_def agrees_def items_refer_def item_refers_def)
qed

lemma typed_world_unrestricted: "typed.world ks w \<Longrightarrow> typed.world (unrestricted ks) w"
  unfolding unrestricted_def by (rule typed_world_slots) simp

lemma typed_above_server: "typed_above ks w \<Longrightarrow> server_typed w"
  unfolding typed_above_def server_typed_def by (blast intro: typed_world_unrestricted)

lemma keeps_server_typed:
  assumes "\<And>ks. keeps (typed_above (unrestricted ks)) m"
  shows "keeps server_typed m"
  unfolding keeps_def
proof (intro allI impI)
  fix w x w'
  assume "server_typed w" and "m w = Inr (x, w')"
  then obtain ks where "typed_above (unrestricted ks) w"
    by (auto simp: server_typed_def typed_above_def intro: extends_refl)
  from typed_above_server [OF keepsD [OF assms this \<open>m w = _\<close>]] show "server_typed w'" .
qed

lemma item_at_Inr:
  "item_at i w = Inr (it, w') \<Longrightarrow> w' = w \<and> nat i < length (fds (sv_selector w)) \<and> it = fds (sv_selector w) ! nat i"
  by (auto simp: item_at_def split: if_splits)

text \<open>
  The write event of an item is served with the key of the read event. While the read event
  runs, the item may only get a handler that its attachment suits.
\<close>

lemma keeps_serving_item: "keeps server_typed (handle_item env i)"
  unfolding keeps_def
proof (intro allI impI)
  fix w :: server and x w'
  let ?n = "length (fds (sv_selector w))" and ?it = "fds (sv_selector w) ! i"
  assume "server_typed w" and run: "handle_item env i w = Inr (x, w')"
  then obtain ks0 where "typed.world (unrestricted ks0) w" by (auto simp: server_typed_def)
  then obtain ks where w: "typed.world ks w" "\<And>n h. may_hold ks n h" by (meson unrestricted_simps(1))
  show "server_typed w'"
  proof (cases "ITEM_USED ?it")
    case False
    then have "w' = w" using run
      by (auto simp: handle_item_def bind_sv_def get_sv_def item_at_def ret_sv_def split: if_splits)
    then show ?thesis using typed_world_unrestricted [OF w(1)] by (auto simp: server_typed_def)
  next
    case True
    define ks1 where "ks1 = ks\<lparr>may_hold := \<lambda>n h. n = i \<longrightarrow> refers ks (Some h) (item_data ?it)\<rparr>"
    have ks1: "refers ks1 h y = refers ks h y" for h y by (simp add: ks1_def refers_def)
    have w1: "typed.world ks1 w" unfolding ks1_def by (rule typed_world_slots [OF _ w(1)]) auto
    have i: "i < ?n" using run by (auto simp: handle_item_def bind_sv_def get_sv_def item_at_def split: if_splits)
    have ref: "refers ks1 (item_handler ?it) (item_data ?it)"
      using items_refer_at [OF typed.world_refer [OF w(1)] i] by (simp add: ks1 item_refers_def)
    let ?read = "if item_fd ?it \<in> slave_r (sv_selector w) \<and> OP_READ AND item_interest ?it \<noteq> 0
        then call_handler handle_read Assertion_failed (item_handler ?it) (env i True) (item_fd ?it) (item_data ?it)
        else ret_sv ()"
    obtain u v where v: "?read w = Inr (u, v)" and rest: "(bind_sv (get_sv sv_selector) (\<lambda>s1.
          if length (fds s1) \<noteq> ?n then fail_sv Undefined
          else bind_sv (item_at (int i)) (\<lambda>it1.
               if int i \<in> slave_w s1 \<and> OP_WRITE AND item_interest it1 \<noteq> 0
               then call_handler handle_write Assertion_failed (item_handler it1) (env i False)
                      (item_fd ?it) (item_data ?it)
               else ret_sv ()))) v = Inr (x, w')"
      using run True i by (auto simp: handle_item_def bind_sv_def get_sv_def item_at_def bind_res_eq_Inr simp del: OP_values)
    have "keeps (typed_above ks1) ?read"
      by (intro keeps_if keeps_calling ref keeps_ret) (simp_all add: ks1_def refers_def)
    from keepsD [OF this typed_above_refl [OF w1] v] obtain ks2 where ks2: "extends ks1 ks2" "typed.world ks2 v"
      by (auto simp: typed_above_def)
    let ?it1 = "fds (sv_selector v) ! i"
    have i1: "i < length (fds (sv_selector v))"
      using rest by (auto simp: bind_sv_def get_sv_def fail_sv_def item_at_def split: if_splits)
    have "item_refers ks2 i ?it1" by (rule items_refer_at [OF typed.world_refer [OF ks2(2)] i1])
    then have "refers ks1 (item_handler ?it1) (item_data ?it)"
      using extends_may [OF ks2(1)] by (cases "item_handler ?it1") (auto simp: item_refers_def ks1_def refers_def)
    then have ref1: "refers (unrestricted ks2) (item_handler ?it1) (item_data ?it)"
      using extends_refers [OF ks2(1)] by simp
    have "keeps (typed_above (unrestricted ks2)) (if int i \<in> slave_w (sv_selector v) \<and> OP_WRITE AND item_interest ?it1 \<noteq> 0
        then call_handler handle_write Assertion_failed (item_handler ?it1) (env i False) (item_fd ?it) (item_data ?it)
        else ret_sv ())"
      by (intro keeps_if keeps_calling ref1 keeps_ret) simp_all
    from keepsD [OF this, of v x w'] rest i1 have "typed_above (unrestricted ks2) w'"
      using typed_above_refl [OF typed_world_unrestricted [OF ks2(2)]]
      by (auto simp: bind_sv_def get_sv_def fail_sv_def item_at_def split: if_splits simp del: OP_values)
    then show ?thesis by (rule typed_above_server)
  qed
qed

lemma keeps_selector:
  assumes "\<And>s. fds (g s) = fds s"
  shows "keeps server_typed (modify_sv (\<lambda>w. w\<lparr>sv_selector := g (sv_selector w)\<rparr>))"
    and "(\<And>x. keeps server_typed (f x)) \<Longrightarrow>
      keeps server_typed (bind_sv (modify_sv (\<lambda>w. w\<lparr>sv_selector := g (sv_selector w)\<rparr>)) f)"
proof -
  have "typed.world ks (w\<lparr>sv_selector := g (sv_selector w)\<rparr>)" if "typed.world ks w" for ks w
    using that typed.world_refer [OF that] items_refer_fds [OF assms] by (auto intro!: typed.world_updates(6))
  then show 1: "keeps server_typed (modify_sv (\<lambda>w. w\<lparr>sv_selector := g (sv_selector w)\<rparr>))"
    by (auto simp: keeps_def modify_sv_def server_typed_def)
  show "keeps server_typed (bind_sv (modify_sv (\<lambda>w. w\<lparr>sv_selector := g (sv_selector w)\<rparr>)) f)"
    if "\<And>x. keeps server_typed (f x)" using keeps_bind [OF 1 that] .
qed

lemma keeps_job:
  assumes "\<And>x. keeps server_typed (f x)"
  shows "keeps server_typed (bind_sv (item_at fd) (\<lambda>it.
     bind_sv (if ITEM_USED it
              then call_handler handle_block Undefined (item_handler it) k (item_fd it) (item_data it)
              else ret_sv ()) f))"
  unfolding keeps_def
proof (intro allI impI)
  fix w :: server and x w'
  assume "server_typed w" and "bind_sv (item_at fd) (\<lambda>it.
     bind_sv (if ITEM_USED it
              then call_handler handle_block Undefined (item_handler it) k (item_fd it) (item_data it)
              else ret_sv ()) f) w = Inr (x, w')"
  then obtain ks it y v where w: "typed.world (unrestricted ks) w" and it: "item_at fd w = Inr (it, w)"
    and y: "(if ITEM_USED it then call_handler handle_block Undefined (item_handler it) k (item_fd it) (item_data it)
              else ret_sv ()) w = Inr (y, v)" and f: "f y v = Inr (x, w')"
    by (auto simp: server_typed_def bind_sv_def bind_res_eq_Inr dest: item_at_Inr)
  have "item_refers (unrestricted ks) (nat fd) it"
    using items_refer_at [OF typed.world_refer [OF w]] item_at_Inr [OF it] by blast
  then have "keeps (typed_above (unrestricted ks)) (if ITEM_USED it
      then call_handler handle_block Undefined (item_handler it) k (item_fd it) (item_data it) else ret_sv ())"
    by (intro keeps_if keeps_calling keeps_ret) (auto simp: item_refers_def)
  from typed_above_server [OF keepsD [OF this typed_above_refl [OF w] y]] have "server_typed v" .
  from keepsD [OF assms this f] show "server_typed w'" .
qed

lemma keeps_selecting: "keeps server_typed (selector_select answer env env_block)"
proof -
  have items: "keeps server_typed (handle_items env l)" for l
    by (induction l) (auto intro: keeps_intros keeps_bind keeps_serving_item)
  have jobs: "keeps server_typed (handle_jobs env_block l)" for l
    by (induction l) (auto intro: keeps_ret keeps_job)
  have iter: "keeps server_typed (handle_iteration env)"
    unfolding handle_iteration_def by (intro keeps_intros items)
  have block: "keeps server_typed (handle_block_notifications env_block)"
    unfolding handle_block_notifications_def by (intro keeps_intros keeps_bind [OF jobs] keeps_selector) simp
  show ?thesis
    unfolding selector_select_def
    by (cases answer) (auto intro!: keeps_intros keeps_selector keeps_bind [OF iter] keeps_bind [OF block])
qed

section \<open>Runs\<close>

lemma server_typed_step: "server_step w w' \<Longrightarrow> server_typed w \<Longrightarrow> server_typed w'"
proof (induction rule: server_step.induct)
  case (turn answer env env_block w w')
  then show ?case by (rule keepsD [OF keeps_selecting, rotated])
next
  case (thread fd i w k w')
  then show ?case unfolding server_typed_def using keepsD [OF typed.keeps_resolver] by blast
qed

lemma server_typed_run: "server_run w w' \<Longrightarrow> server_typed w \<Longrightarrow> server_typed w'"
  by (induction rule: server_run.induct) (auto dest: server_typed_step)

lemma server_typedD: "server_typed w \<Longrightarrow> sv_heap w i = Some d \<Longrightarrow> stage_typed d"
  by (auto simp: server_typed_def typed.world_def typed.good_def)

lemma register_masters_typed:
  "register_masters k h l ss w = Inr (st, w') \<Longrightarrow> \<forall>n. may_hold ks n h \<Longrightarrow> typed.world ks w \<Longrightarrow> typed.world ks w'"
proof (induction l arbitrary: ss w)
  case Nil
  then show ?case by (simp add: ret_sv_def)
next
  case (Cons fd l)
  then obtain y v where "register k fd h OP_READ None w = Inr (y, v)"
    "register_masters k h l (ss OR status_code y) v = Inr (st, w')" by (auto simp: bind_sv_def bind_res_eq_Inr)
  with Cons show ?case using typed.world_register [of ks w h None k fd OP_READ y v] by auto
qed

lemma main_start_typed:
  assumes "main_start k us ads pd socks mng = Inr (Some w)"
  shows "server_typed w"
proof -
  let ?ks = "unrestricted \<lparr>kind_at = Map.empty, may_hold = \<lambda>n h. True\<rparr>"
  from assms obtain s ss ss' w1 where s: "selector_new (os_alloc k Alloc_selector) (os_alloc k Alloc_items) 1024 = Inr (Some s)"
    and 1: "register_masters k Socks5_passive socks 0 (main_globals us ads pd s) = Inr (ss, w1)"
    and 2: "register_masters k Mng_passive mng ss w1 = Inr (ss', w)"
    by (auto simp: main_start_def bind_res_eq_Inr split: option.splits if_splits)
  have "items_refer ?ks empty_selector" by (simp add: items_refer_def empty_selector_def)
  then have "items_refer ?ks s"
    using s by (auto simp: selector_new_def bind_res_eq_Inr split: if_splits dest!: items_refer_capacity)
  then have "typed.world ?ks (main_globals us ads pd s)"
    by (simp add: typed.world_def agrees_def main_globals_def)
  from register_masters_typed [OF 2 _ register_masters_typed [OF 1 _ this]] show ?thesis
    by (auto simp: server_typed_def)
qed

end
