(* ===== verification/Turns.thy ===== *)
theory Turns
  imports Typed_Server
begin

unbundle bit_operations_syntax

text \<open>
  What one turn of the loop serves (\<open>handle_iteration\<close> of \<open>src/src/selector.c\<close>): of all the
  items of the table, only those of the ready descriptors, in ascending order, each with the
  registration it has at that moment.
\<close>

section \<open>The ready sets during a turn\<close>

text \<open>No handler writes the ready sets or the list of resolutions.\<close>

definition polled :: "int set \<Rightarrow> int set \<Rightarrow> int list \<Rightarrow> (handler_id, nat) fdselector \<Rightarrow> bool" where
  "polled R W J s \<longleftrightarrow> sel_full s \<and> blank_items s \<and> slave_r s = R \<and> slave_w s = W \<and> resolution_jobs s = J"

lemma items_update_fdset_slaves [simp]:
  "slave_r (items_update_fdset_for_fd s it) = slave_r s" "slave_w (items_update_fdset_for_fd s it) = slave_w s"
  by (simp_all add: items_update_fdset_eq)

lemma unpolled:
  "selector_register al s fd h i x = Inr (st, s') \<Longrightarrow> sel_full s \<Longrightarrow>
     slave_r s' = slave_r s \<and> slave_w s' = slave_w s \<and> resolution_jobs s' = resolution_jobs s"
  "selector_set_interest s fd i = Inr (st, s') \<Longrightarrow>
     slave_r s' = slave_r s \<and> slave_w s' = slave_w s \<and> resolution_jobs s' = resolution_jobs s"
  "selector_unregister_fd cb s fd w = Inr (st, s', w') \<Longrightarrow>
     slave_r s' = slave_r s \<and> slave_w s' = slave_w s \<and> resolution_jobs s' = resolution_jobs s"
  using full_register_room [of s fd]
  by (auto simp: selector_register_def selector_set_interest_def selector_unregister_fd_def Let_def bind_res_eq_Inr
      split: if_splits option.splits)

interpretation polled: handlers_frame "\<lambda>w. polled R W J (sv_selector w)" for R W J
proof unfold_locales
  fix w w' :: server and st x k fd h i
  assume p: "polled R W J (sv_selector w)"
  then have w: "sel_full (sv_selector w) \<and> blank_items (sv_selector w)" by (simp add: polled_def)
  show "polled R W J (sv_selector w')" if "set_interest fd i w = Inr (st, w')"
    using p that blank.interest [OF w that] by (auto simp: polled_def set_interest_def bind_res_eq_Inr dest: unpolled(2))
  show "polled R W J (sv_selector w')" if "register k fd h i x w = Inr (st, w')"
    using p that blank.registering [OF w that]
    by (auto simp: polled_def register_def bind_res_eq_Inr dest: unpolled(1))
  show "polled R W J (sv_selector w')" if "unregister fd w = Inr (st, w')"
    using p that blank.unregistering [OF w that]
    by (auto simp: polled_def unregister_def bind_res_eq_Inr dest: unpolled(3))
qed (auto dest: selector_unchanged)

section \<open>What a turn serves\<close>

text \<open>
  The events of one descriptor, through the map of the selector: the read handler of its
  registration, then the write handler of the registration it has by then.
\<close>

definition serve_write :: "(nat \<Rightarrow> bool \<Rightarrow> os) \<Rightarrow> int set \<Rightarrow> nat \<Rightarrow> nat option \<Rightarrow> unit srv" where
  "serve_write env W i x = (\<lambda>w.
     case sel_lookup (sv_selector w) (int i) of
       None \<Rightarrow> Inr ((), w)
     | Some it \<Rightarrow>
         (if int i \<in> W \<and> wants_write (item_interest it)
          then call_handler handle_write Assertion_failed (item_handler it) (env i False) (int i) x
          else ret_sv ()) w)"

definition serve :: "(nat \<Rightarrow> bool \<Rightarrow> os) \<Rightarrow> int set \<Rightarrow> int set \<Rightarrow> nat \<Rightarrow> unit srv" where
  "serve env R W i = (\<lambda>w.
     case sel_lookup (sv_selector w) (int i) of
       None \<Rightarrow> Inr ((), w)
     | Some it \<Rightarrow>
         bind_sv (if int i \<in> R \<and> wants_read (item_interest it)
                  then call_handler handle_read Assertion_failed (item_handler it) (env i True) (int i) (item_data it)
                  else ret_sv ()) (\<lambda>_. serve_write env W i (item_data it)) w)"

fun serve_all :: "(nat \<Rightarrow> bool \<Rightarrow> os) \<Rightarrow> int set \<Rightarrow> int set \<Rightarrow> nat list \<Rightarrow> unit srv" where
  "serve_all env R W [] = ret_sv ()"
| "serve_all env R W (i # l) = bind_sv (serve env R W i) (\<lambda>_. serve_all env R W l)"

lemma polled_inv: "polled.inv R W J w \<Longrightarrow> polled R W J (sv_selector w)"
  by (simp add: polled.inv_def)

lemma full_item:
  assumes "sel_full s" and "i \<le> ITEMS_MAX_SIZE"
  shows "i < length (fds s)" and "ITEM_USED (fds s ! i) \<Longrightarrow> item_fd (fds s ! i) = int i"
    and "ITEM_USED (fds s ! i) \<Longrightarrow> sel_lookup s (int i) = Some (fds s ! i)"
    and "\<not> ITEM_USED (fds s ! i) \<Longrightarrow> sel_lookup s (int i) = None"
proof -
  show i: "i < length (fds s)" using assms by (simp add: sel_full_def)
  show u: "ITEM_USED (fds s ! i) \<Longrightarrow> sel_lookup s (int i) = Some (fds s ! i)" using i by (simp add: sel_lookup_def)
  show "ITEM_USED (fds s ! i) \<Longrightarrow> item_fd (fds s ! i) = int i"
    using u sel_inv_lookup [OF sel_full_inv [OF assms(1)], of "int i"] by auto
  show "\<not> ITEM_USED (fds s ! i) \<Longrightarrow> sel_lookup s (int i) = None" by (simp add: sel_lookup_def)
qed

lemma wants_comm: "wants_read x \<longleftrightarrow> OP_READ AND x \<noteq> 0" "wants_write x \<longleftrightarrow> OP_WRITE AND x \<noteq> 0"
  by (simp_all add: wants_read_def wants_write_def and.commute)

text \<open>The second half of \<open>handle_item\<close>; a full table never moves.\<close>

lemma item_write_serves:
  assumes "polled R W J (sv_selector v)" and "i \<le> ITEMS_MAX_SIZE" and "n = ITEMS_MAX_SIZE + 1"
  shows "bind_sv (get_sv sv_selector) (\<lambda>s1.
      if length (fds s1) \<noteq> n then fail_sv Undefined
      else bind_sv (item_at (int i)) (\<lambda>it1.
           if int i \<in> slave_w s1 \<and> OP_WRITE AND item_interest it1 \<noteq> 0
           then call_handler handle_write Assertion_failed (item_handler it1) (env i False) (int i) x
           else ret_sv ())) v = serve_write env W i x v"
proof -
  have v: "sel_full (sv_selector v)" "slave_w (sv_selector v) = W" "length (fds (sv_selector v)) = n"
    using assms by (simp_all add: polled_def sel_full_def)
  note g = full_item [OF v(1) assms(2)]
  show ?thesis
  proof (cases "ITEM_USED (fds (sv_selector v) ! i)")
    case True
    then show ?thesis
      using g(1,3) v(2,3) by (simp add: serve_write_def bind_sv_def get_sv_def item_at_def wants_comm del: OP_values)
  next
    case False
    then have "item_interest (fds (sv_selector v) ! i) = 0" using assms(1) g(1) by (simp add: polled_def blank_items_def)
    with False show ?thesis
      using g(1,4) v(3) by (simp add: serve_write_def bind_sv_def get_sv_def item_at_def ret_sv_def)
  qed
qed

lemma handle_item_serves:
  assumes "polled.inv R W J w" and "i \<le> ITEMS_MAX_SIZE"
  shows "handle_item env i w = serve env R W i w"
proof -
  let ?it = "fds (sv_selector w) ! i"
  have p: "sel_full (sv_selector w)" "slave_r (sv_selector w) = R" using polled_inv [OF assms(1)] by (simp_all add: polled_def)
  note f = full_item [OF p(1) assms(2)]
  show ?thesis
  proof (cases "ITEM_USED ?it")
    case False
    then show ?thesis
      using f by (simp add: handle_item_def serve_def bind_sv_def get_sv_def item_at_def ret_sv_def)
  next
    case True
    let ?n = "length (fds (sv_selector w))"
    define read where "read = (if int i \<in> R \<and> wants_read (item_interest ?it)
        then call_handler handle_read Assertion_failed (item_handler ?it) (env i True) (int i) (item_data ?it)
        else ret_sv ())"
    have "keeps (polled.inv R W J) read" unfolding read_def by (intro keeps_if polled.keeps_call_handler keeps_ret) simp
    note kept = polled_inv [OF keepsD [OF this assms(1)]]
    have "handle_item env i w = bind_res (read w) (\<lambda>(u, v). (bind_sv (get_sv sv_selector) (\<lambda>s1.
        if length (fds s1) \<noteq> ?n then fail_sv Undefined
        else bind_sv (item_at (int i)) (\<lambda>it1.
             if int i \<in> slave_w s1 \<and> OP_WRITE AND item_interest it1 \<noteq> 0
             then call_handler handle_write Assertion_failed (item_handler it1) (env i False) (int i) (item_data ?it)
             else ret_sv ()))) v)"
      using True f(1) f(2) [OF True] p(2)
      by (simp add: handle_item_def bind_sv_def get_sv_def item_at_def read_def wants_comm cong: if_cong del: OP_values)
    also have "\<dots> = bind_res (read w) (\<lambda>(u, v). serve_write env W i (item_data ?it) v)"
      using item_write_serves [OF kept assms(2), of _ _ ?n env "item_data ?it"] p(1)
      by (cases "read w") (auto simp: sel_full_def)
    also have "\<dots> = serve env R W i w" using f(3) [OF True] by (simp add: serve_def bind_sv_def read_def)
    finally show ?thesis .
  qed
qed

text \<open>A descriptor that is not ready is passed over.\<close>

lemma serve_idle: "int i \<notin> R \<union> W \<Longrightarrow> serve env R W i w = Inr ((), w)"
  by (simp add: serve_def serve_write_def bind_sv_def ret_sv_def split: option.splits)

lemma handle_items_serve:
  assumes "polled.inv R W J w" and "\<forall>i \<in> set l. i \<le> ITEMS_MAX_SIZE"
  shows "handle_items env l w = serve_all env R W (filter (\<lambda>i. int i \<in> R \<union> W) l) w"
  using assms
proof (induction l arbitrary: w)
  case Nil
  then show ?case by simp
next
  case (Cons i l)
  have item: "handle_item env i w = serve env R W i w" using handle_item_serves [OF Cons.prems(1)] Cons.prems(2) by simp
  show ?case
  proof (cases "int i \<in> R \<union> W")
    case True
    have "handle_items env l v = serve_all env R W (filter (\<lambda>i. int i \<in> R \<union> W) l) v"
      if "serve env R W i w = Inr (u, v)" for u v
      using keepsD [OF polled.keeps_handle_item Cons.prems(1)] item that Cons.IH Cons.prems(2) by auto
    then show ?thesis using True item by (cases "serve env R W i w") (auto simp: bind_sv_def)
  next
    case False
    then show ?thesis using Cons serve_idle [OF False] by (simp add: bind_sv_def item)
  qed
qed

text \<open>The ready descriptors that the table may hold, in ascending order.\<close>

definition ready_below :: "int \<Rightarrow> int set \<Rightarrow> int set \<Rightarrow> nat list" where
  "ready_below mx R W = filter (\<lambda>i. int i \<in> R \<union> W) [0..<nat (mx + 1)]"

definition begin_turn :: "int set \<Rightarrow> int set \<Rightarrow> server \<Rightarrow> server" where
  "begin_turn R W w = w\<lparr>sv_selector := (sv_selector w)\<lparr>slave_r := R, slave_w := W\<rparr>\<rparr>"

lemma turn_serves:
  assumes "sel_full (sv_selector w)" and "blank_items (sv_selector w)" and "heap_ok w"
  shows "selector_select (Ready R W) env env_block w =
    bind_sv (serve_all env R W (ready_below (max_fd (sv_selector w)) R W)) (\<lambda>_.
    bind_sv (handle_block_notifications env_block) (\<lambda>_. ret_sv SELECTOR_SUCCESS)) (begin_turn R W w)"
proof -
  let ?w = "begin_turn R W w"
  have "polled.inv R W (resolution_jobs (sv_selector w)) ?w"
    using assms unfolding polled.inv_def by (simp add: polled_def begin_turn_def heap_ok_def)
  moreover have "max_fd (sv_selector w) \<le> int ITEMS_MAX_SIZE"
    using assms(1) by (auto simp: sel_full_def sel_inv_def split: if_splits)
  ultimately have "handle_items env [0..<nat (max_fd (sv_selector w) + 1)] ?w =
      serve_all env R W (ready_below (max_fd (sv_selector w)) R W) ?w"
    unfolding ready_below_def by (intro handle_items_serve) auto
  then show ?thesis
    by (simp add: selector_select_def handle_iteration_def bind_sv_def modify_sv_def get_sv_def begin_turn_def)
qed

end
