(* ===== verification/Startup.thy ===== *)
theory Startup
  imports Sessions
begin

unbundle bit_operations_syntax

text \<open>
  The start of the server: the command line (\<open>src/src/args.c\<close>), the text addresses
  (\<open>src/src/address_utils.c\<close>), the file of administrators and the choice of the master sockets
  (\<open>src/src/main.c\<close>), the creation of one of them (\<open>src/src/socket_utils.c\<close>). \<open>getopt_long\<close>,
  \<open>inet_pton\<close>, \<open>inet_addr\<close> and the system calls are arguments. A string is the list of its bytes
  before the terminator.
\<close>

section \<open>Numbers and addresses in text\<close>

definition isspace :: "byte \<Rightarrow> bool" where
  "isspace c \<longleftrightarrow> c = 32 \<or> 9 \<le> c \<and> c \<le> 13"

definition isdigit :: "byte \<Rightarrow> bool" where
  "isdigit c \<longleftrightarrow> 48 \<le> c \<and> c \<le> 57"

text \<open>
  \<open>strtol(s, &end, 10)\<close>: the value, cut to the range of \<open>long\<close>, and the text from \<open>end\<close>; \<open>None\<close> when
  \<open>end\<close> is \<open>s\<close>. \<open>strtol_erange\<close> tells that it sets \<open>errno\<close> to \<open>ERANGE\<close>.
\<close>

definition digits_value :: "byte list \<Rightarrow> int" where
  "digits_value ds = foldl (\<lambda>n c. 10 * n + (uint c - 48)) 0 ds"

definition strtol_scan :: "byte list \<Rightarrow> (int \<times> byte list) option" where
  "strtol_scan s =
     (let t = dropWhile isspace s;
          (neg, t) = (case t of c # r \<Rightarrow> if c = 45 then (True, r) else if c = 43 then (False, r) else (False, t)
                      | [] \<Rightarrow> (False, t));
          ds = takeWhile isdigit t; v = (if neg then - digits_value ds else digits_value ds)
      in if ds = [] then None else Some (v, dropWhile isdigit t))"

definition LONG_MIN :: int where "LONG_MIN = - (2 ^ 63)"
definition LONG_MAX :: int where "LONG_MAX = 2 ^ 63 - 1"

definition strtol :: "byte list \<Rightarrow> (int \<times> byte list) option" where
  "strtol s = map_option (\<lambda>(v, rest). (max LONG_MIN (min v LONG_MAX), rest)) (strtol_scan s)"

definition strtol_erange :: "byte list \<Rightarrow> bool" where
  "strtol_erange s = (case strtol_scan s of None \<Rightarrow> False | Some (v, rest) \<Rightarrow> v < LONG_MIN \<or> LONG_MAX < v)"

definition port_arg :: "byte list \<Rightarrow> int" where
  "port_arg s =
     (case strtol s of
        None \<Rightarrow> -1
      | Some (sl, rest) \<Rightarrow>
          if rest \<noteq> [] \<or> (sl = LONG_MIN \<or> sl = LONG_MAX) \<and> strtol_erange s \<or> sl < 0 \<or> sl > 65535 then -1 else sl)"

definition buffer_size :: "byte list \<Rightarrow> int" where
  "buffer_size s =
     (case strtol s of
        None \<Rightarrow> -1
      | Some (sl, rest) \<Rightarrow> if rest \<noteq> [] \<or> (sl = LONG_MIN \<or> sl = LONG_MAX) \<and> strtol_erange s then -1 else sl)"

definition htons :: "int \<Rightarrow> byte list" where
  "htons v = [of_int (v div 256), of_int v]"

record inet =
  inet_pton4 :: "byte list \<Rightarrow> byte list option"
  inet_pton6 :: "byte list \<Rightarrow> byte list option"
  inet_addr :: "byte list \<Rightarrow> byte list"

definition address_processing ::
    "inet \<Rightarrow> byte list \<Rightarrow> sockaddr \<Rightarrow> sockaddr \<Rightarrow> int \<Rightarrow> int \<times> sockaddr \<times> sockaddr" where
  "address_processing n address addr addr6 port =
     (case inet_pton4 n address of
        None \<Rightarrow>
          (case inet_pton6 n address of
             None \<Rightarrow> (-1, addr, addr6)
           | Some a \<Rightarrow> (AF_INET6, addr, \<lparr>sa_family = AF_INET6, sa_port = htons port, sa_addr = a\<rparr>))
      | Some a \<Rightarrow> (AF_INET, \<lparr>sa_family = AF_INET, sa_port = htons port, sa_addr = inet_addr n address\<rparr>, addr6))"

section \<open>The command line\<close>

record socks5args =
  socks_addr :: "byte list"
  socks_addr_6 :: "byte list"
  socks_port :: int
  socks_family :: int
  socks_addr_info :: sockaddr
  socks_addr_info6 :: sockaddr
  mng_addr :: "byte list"
  mng_addr_6 :: "byte list"
  mng_port :: int
  mng_family :: int
  mng_addr_info :: sockaddr
  mng_addr_info6 :: sockaddr
  args_debug :: int
  args_buffer_size :: nat
  args_mng_buffer_size :: nat
  disectors_enabled :: byte
  credentials :: "byte list option"

definition any4 :: "byte list" where "any4 = [48, 46, 48, 46, 48, 46, 48]"
definition any6 :: "byte list" where "any6 = [58, 58]"
definition loopback4 :: "byte list" where "loopback4 = [49, 50, 55, 46, 48, 46, 48, 46, 49]"
definition loopback6 :: "byte list" where "loopback6 = [58, 58, 49]"

definition zero_addr4 :: sockaddr where
  "zero_addr4 = \<lparr>sa_family = AF_UNSPEC, sa_port = [0, 0], sa_addr = replicate 4 0\<rparr>"

definition zero_addr6 :: sockaddr where
  "zero_addr6 = \<lparr>sa_family = AF_UNSPEC, sa_port = [0, 0], sa_addr = replicate 16 0\<rparr>"

definition default_args :: socks5args where
  "default_args =
     \<lparr>socks_addr = any4, socks_addr_6 = any6, socks_port = 1080, socks_family = AF_UNSPEC,
      socks_addr_info = zero_addr4, socks_addr_info6 = zero_addr6,
      mng_addr = loopback4, mng_addr_6 = loopback6, mng_port = 8080, mng_family = AF_UNSPEC,
      mng_addr_info = zero_addr4, mng_addr_info6 = zero_addr6,
      args_debug = 0, args_buffer_size = 2048, args_mng_buffer_size = 2048,
      disectors_enabled = 0x00, credentials = None\<rparr>"

text \<open>\<open>strchr(s, c)\<close>: the text before and behind the first \<open>c\<close>.\<close>

definition split_at :: "byte \<Rightarrow> byte list \<Rightarrow> (byte list \<times> byte list) option" where
  "split_at c s =
     (let t = cstr s
      in if c \<in> set t then Some (takeWhile (\<lambda>x. x \<noteq> c) t, tl (dropWhile (\<lambda>x. x \<noteq> c) t)) else None)"

text \<open>The two copies; a NULL of \<open>malloc\<close> is written to.\<close>

definition user_copy :: "bool \<Rightarrow> byte list \<Rightarrow> byte list \<Rightarrow> user res" where
  "user_copy alloc u p = (if alloc then Inr \<lparr>user_name = Some u, user_pass = Some p\<rparr> else Inl Undefined)"

definition user_arg :: "bool \<Rightarrow> byte list \<Rightarrow> user option res" where
  "user_arg alloc s =
     (case split_at 58 s of
        None \<Rightarrow> Inr None
      | Some (u, p) \<Rightarrow> bind_res (user_copy alloc u p) (\<lambda>x. Inr (Some x)))"

text \<open>
  One turn of the loop over the options: \<open>None\<close> when \<open>parse_args\<close> returns -1. \<open>alloc i\<close> tells
  that the memory of the \<open>i\<close>-th user can be allocated.
\<close>

definition family_arg :: "int \<Rightarrow> byte list \<Rightarrow> socks5args \<Rightarrow> socks5args" where
  "family_arg f optarg a =
     (if f = AF_INET then a\<lparr>socks_addr := optarg\<rparr>
      else if f = AF_INET6 then a\<lparr>socks_addr_6 := optarg\<rparr> else a)"

definition mng_family_arg :: "int \<Rightarrow> byte list \<Rightarrow> socks5args \<Rightarrow> socks5args" where
  "mng_family_arg f optarg a =
     (if f = AF_INET then a\<lparr>mng_addr := optarg\<rparr>
      else if f = AF_INET6 then a\<lparr>mng_addr_6 := optarg\<rparr> else a)"

definition process_option ::
    "inet \<Rightarrow> (nat \<Rightarrow> bool) \<Rightarrow> char \<Rightarrow> byte list \<Rightarrow> socks5args \<times> user list \<Rightarrow> (socks5args \<times> user list) option res" where
  "process_option n alloc c optarg st =
     (case st of (a, us) \<Rightarrow>
        let next = (\<lambda>a. Inr (Some (a, us)))
        in if c = CHR ''d'' then next (a\<lparr>args_debug := 1\<rparr>)
           else if c = CHR ''D'' then next (a\<lparr>args_debug := 2\<rparr>)
           else if c = CHR ''l''
           then (let (f, a4, a6) = address_processing n optarg (socks_addr_info a) (socks_addr_info6 a) (socks_port a)
                 in if f = -1 then Inr None
                    else next (family_arg f optarg (a\<lparr>socks_family := f, socks_addr_info := a4, socks_addr_info6 := a6\<rparr>)))
           else if c = CHR ''L''
           then (let (f, a4, a6) = address_processing n optarg (mng_addr_info a) (mng_addr_info6 a) (mng_port a)
                 in if f = -1 then Inr None
                    else next (mng_family_arg f optarg (a\<lparr>mng_family := f, mng_addr_info := a4, mng_addr_info6 := a6\<rparr>)))
           else if c = CHR ''N'' then next (a\<lparr>disectors_enabled := 0x01\<rparr>)
           else if c = CHR ''p''
           then (let v = port_arg optarg
                 in if v = -1 then Inr None
                    else next (a\<lparr>socks_port := v, socks_addr_info := (socks_addr_info a)\<lparr>sa_port := htons v\<rparr>,
                                 socks_addr_info6 := (socks_addr_info6 a)\<lparr>sa_port := htons v\<rparr>\<rparr>))
           else if c = CHR ''P''
           then (let v = port_arg optarg
                 in if v = -1 then Inr None
                    else next (a\<lparr>mng_port := v, mng_addr_info := (mng_addr_info a)\<lparr>sa_port := htons v\<rparr>,
                                 mng_addr_info6 := (mng_addr_info6 a)\<lparr>sa_port := htons v\<rparr>\<rparr>))
           else if c = CHR ''f'' then next (a\<lparr>credentials := Some optarg\<rparr>)
           else if c = CHR ''u''
           then (if length us \<ge> MAX_USERS then Inr None
                 else bind_res (user_arg (alloc (length us)) optarg) (\<lambda>x.
                        Inr (case x of None \<Rightarrow> None | Some u \<Rightarrow> Some (a, us @ [u]))))
           else Inr None)"

fun process_options ::
    "inet \<Rightarrow> (nat \<Rightarrow> bool) \<Rightarrow> (char \<times> byte list) list \<Rightarrow> socks5args \<times> user list \<Rightarrow>
     (socks5args \<times> user list) option res" where
  "process_options n alloc [] st = Inr (Some st)"
| "process_options n alloc ((c, optarg) # opts) st =
     bind_res (process_option n alloc c optarg st) (\<lambda>r.
       case r of None \<Rightarrow> Inr None | Some st' \<Rightarrow> process_options n alloc opts st')"

text \<open>The default addresses of a family that no option has set.\<close>

definition default_addresses ::
    "inet \<Rightarrow> byte list \<Rightarrow> byte list \<Rightarrow> int \<Rightarrow> sockaddr \<times> sockaddr \<Rightarrow> (sockaddr \<times> sockaddr) option" where
  "default_addresses n addr addr_6 port p =
     (let (f, a4, a6) = address_processing n addr (fst p) (snd p) port
      in if f = -1 then None
         else let (f, a4, a6) = address_processing n addr_6 a4 a6 port in if f = -1 then None else Some (a4, a6))"

text \<open>\<open>operands\<close> are the arguments that are left behind the options.\<close>

definition parse_args ::
    "inet \<Rightarrow> (nat \<Rightarrow> bool) \<Rightarrow> (char \<times> byte list) list \<Rightarrow> nat \<Rightarrow> (socks5args \<times> user list) option res" where
  "parse_args n alloc opts operands =
     bind_res (process_options n alloc opts (default_args, [])) (\<lambda>r.
     Inr (case r of
            None \<Rightarrow> None
          | Some (a, us) \<Rightarrow>
              if operands > 0 then None
              else case (if socks_family a = AF_UNSPEC
                         then default_addresses n (socks_addr a) (socks_addr_6 a) (socks_port a)
                                (socks_addr_info a, socks_addr_info6 a)
                         else Some (socks_addr_info a, socks_addr_info6 a)) of
                     None \<Rightarrow> None
                   | Some (s4, s6) \<Rightarrow>
                       (case (if mng_family a = AF_UNSPEC
                              then default_addresses n (mng_addr a) (mng_addr_6 a) (mng_port a)
                                     (mng_addr_info a, mng_addr_info6 a)
                              else Some (mng_addr_info a, mng_addr_info6 a)) of
                          None \<Rightarrow> None
                        | Some (m4, m6) \<Rightarrow>
                            Some (a\<lparr>socks_addr_info := s4, socks_addr_info6 := s6,
                                    mng_addr_info := m4, mng_addr_info6 := m6\<rparr>, us))))"

section \<open>The file of administrators\<close>

text \<open>\<open>fgets(line, n, file)\<close>: the next line and the rest of the file.\<close>

definition fgets :: "nat \<Rightarrow> byte list \<Rightarrow> (byte list \<times> byte list) option" where
  "fgets n xs =
     (if xs = [] then None
      else let k = min (Suc (length (takeWhile (\<lambda>c. c \<noteq> 10) xs))) (n - 1) in Some (take k xs, drop k xs))"

text \<open>A line without a space writes through the NULL of \<open>strchr\<close>.\<close>

definition credential_line :: "bool \<Rightarrow> byte list \<Rightarrow> user res" where
  "credential_line alloc line =
     (case split_at 32 line of
        None \<Rightarrow> Inl Undefined
      | Some (u, p) \<Rightarrow> user_copy alloc u (if p \<noteq> [] \<and> last p = 10 then butlast p else p))"

text \<open>The counter of the administrators is not compared with the size of the array.\<close>

function load_credentials :: "(nat \<Rightarrow> bool) \<Rightarrow> byte list \<Rightarrow> user list \<Rightarrow> user list res" where
  "load_credentials alloc f ads =
     (case fgets 255 f of
        None \<Rightarrow> Inr ads
      | Some (line, rest) \<Rightarrow>
          bind_res (credential_line (alloc (length ads)) line) (\<lambda>x.
          if length ads \<ge> MAX_USERS then Inl Undefined else load_credentials alloc rest (ads @ [x])))"
  by pat_completeness auto
termination
  by (relation "measure (\<lambda>(alloc, f, ads). length f)") (auto simp: fgets_def Let_def split: if_splits)

declare load_credentials.simps [simp del]

section \<open>The master sockets and main\<close>

text \<open>The answers of the system calls for one socket.\<close>

record socket_env =
  se_socket :: int
  se_v6only :: int
  se_bind :: int
  se_listen :: int
  se_getfd :: int
  se_setfl :: "32 word \<Rightarrow> int"

definition addr_process :: "socket_env \<Rightarrow> int" where
  "addr_process e = (if se_bind e < 0 then -1 else 0)"

definition addr6_process :: "socket_env \<Rightarrow> int" where
  "addr6_process e = (if se_v6only e < 0 then -1 else if se_bind e < 0 then -1 else 0)"

definition create_socket :: "int \<Rightarrow> socket_env \<Rightarrow> int" where
  "create_socket type e =
     (if type \<noteq> AF_INET \<and> type \<noteq> AF_INET6 then -1
      else if se_socket e < 0 then -1
      else if type = AF_INET \<and> addr_process e = -1 then -1
      else if type = AF_INET6 \<and> addr6_process e = -1 then -1
      else if se_listen e < 0 then -1
      else if selector_fd_set_nio (se_getfd e) (se_setfl e) = -1 then -1
      else se_socket e)"

text \<open>The sockets of one service, in the order in which they are registered; \<open>None\<close> on an error.\<close>

definition master_sockets :: "int \<Rightarrow> socket_env \<Rightarrow> socket_env \<Rightarrow> int list option" where
  "master_sockets family e4 e6 =
     (let s4 = create_socket AF_INET e4; s6 = create_socket AF_INET6 e6
      in if family = AF_UNSPEC then (if s4 = -1 \<or> s6 = -1 then None else Some [s6, s4])
         else if family = AF_INET then (if s4 = -1 then None else Some [s4])
         else if family = AF_INET6 then (if s6 = -1 then None else Some [s6])
         else Some [])"

record main_env =
  me_os :: os
  me_inet :: inet
  me_alloc :: "nat \<Rightarrow> bool"
  me_options :: "(char \<times> byte list) list"
  me_operands :: nat
  me_fopen :: "byte list option \<Rightarrow> byte list option"
  me_admin_alloc :: "nat \<Rightarrow> bool"
  me_socks4 :: socket_env
  me_socks6 :: socket_env
  me_mng4 :: socket_env
  me_mng6 :: socket_env
  me_sigprocmask :: bool
  me_sigaction :: bool

text \<open>\<open>main\<close> up to its loop: \<open>None\<close> when it ends before.\<close>

definition server_main :: "main_env \<Rightarrow> server option res" where
  "server_main e =
     bind_res (parse_args (me_inet e) (me_alloc e) (me_options e) (me_operands e)) (\<lambda>r.
     case r of
       None \<Rightarrow> Inr None
     | Some (a, us) \<Rightarrow>
         (case me_fopen e (credentials a) of
            None \<Rightarrow> Inr None
          | Some file \<Rightarrow>
              bind_res (load_credentials (me_admin_alloc e) file []) (\<lambda>ads.
              case master_sockets (socks_family a) (me_socks4 e) (me_socks6 e) of
                None \<Rightarrow> Inr None
              | Some socks \<Rightarrow>
                  (case master_sockets (mng_family a) (me_mng4 e) (me_mng6 e) of
                     None \<Rightarrow> Inr None
                   | Some mng \<Rightarrow>
                       if selector_init (me_sigprocmask e) (me_sigaction e) \<noteq> SELECTOR_SUCCESS then Inr None
                       else main_start (me_os e) us ads (disectors_enabled a) socks mng))))"

section \<open>What the command line gives\<close>

definition account :: "byte list \<times> byte list \<Rightarrow> user" where
  "account x = \<lparr>user_name = Some (fst x), user_pass = Some (snd x)\<rparr>"

text \<open>The users of the options \<open>-u\<close>, in order.\<close>

definition option_users :: "(char \<times> byte list) list \<Rightarrow> user list" where
  "option_users opts = [account (the (split_at 58 v)). (c, v) \<leftarrow> opts, c = CHR ''u'']"

lemma users_wf_account [simp]: "users_wf (map account l)" "users_wf (us @ [account x]) \<longleftrightarrow> users_wf us"
  by (auto simp: users_wf_def account_def)

lemma user_arg_account: "user_arg al v = Inr (Some x) \<Longrightarrow> x = account (the (split_at 58 v))"
  by (auto simp: user_arg_def user_copy_def account_def bind_res_eq_Inr split: option.splits if_splits)

lemma process_option_users:
  assumes "process_option n alloc c v (a, us) = Inr (Some (a', us'))" and "length us \<le> MAX_USERS"
  shows "us' = us @ option_users [(c, v)] \<and> length us' \<le> MAX_USERS"
  using assms user_arg_account [of "alloc (length us)" v]
  by (auto simp: process_option_def option_users_def Let_def bind_res_eq_Inr split: if_splits prod.splits option.splits)

lemma process_options_users:
  "process_options n alloc opts (a, us) = Inr (Some (a', us')) \<Longrightarrow> length us \<le> MAX_USERS \<Longrightarrow>
     us' = us @ option_users opts \<and> length us' \<le> MAX_USERS"
proof (induction opts arbitrary: a us)
  case Nil
  then show ?case by (simp add: option_users_def)
next
  case (Cons o1 opts)
  obtain c v where o1: "o1 = (c, v)" by (cases o1)
  from Cons.prems(1) obtain a1 us1 where
    1: "process_option n alloc c v (a, us) = Inr (Some (a1, us1))"
    and 2: "process_options n alloc opts (a1, us1) = Inr (Some (a', us'))"
    by (auto simp: o1 bind_res_eq_Inr split: option.splits)
  from process_option_users [OF 1 Cons.prems(2)] Cons.IH [OF 2] show ?case
    by (auto simp: o1 option_users_def)
qed

text \<open>Whatever the order of the options, a chosen address has the chosen port.\<close>

definition listens :: "int \<Rightarrow> int \<Rightarrow> sockaddr \<Rightarrow> sockaddr \<Rightarrow> bool" where
  "listens f port i4 i6 \<longleftrightarrow> f \<in> {AF_UNSPEC, AF_INET, AF_INET6} \<and> 0 \<le> port \<and> port < 65536 \<and>
     (f = AF_INET \<longrightarrow> sa_family i4 = AF_INET \<and> sa_port i4 = htons port) \<and>
     (f = AF_INET6 \<longrightarrow> sa_family i6 = AF_INET6 \<and> sa_port i6 = htons port)"

definition ports_agree :: "socks5args \<Rightarrow> bool" where
  "ports_agree a \<longleftrightarrow> listens (socks_family a) (socks_port a) (socks_addr_info a) (socks_addr_info6 a) \<and>
     listens (mng_family a) (mng_port a) (mng_addr_info a) (mng_addr_info6 a)"

lemma families_distinct [simp]: "AF_INET \<noteq> AF_INET6" "AF_INET6 \<noteq> AF_INET" "AF_UNSPEC \<noteq> AF_INET" "AF_INET \<noteq> AF_UNSPEC"
    "AF_UNSPEC \<noteq> AF_INET6" "AF_INET6 \<noteq> AF_UNSPEC" "AF_INET \<noteq> -1" "AF_INET6 \<noteq> -1" "AF_UNSPEC \<noteq> -1"
  by (simp_all add: AF_INET_def AF_INET6_def AF_UNSPEC_def)

lemma port_arg_range: "port_arg s = -1 \<or> 0 \<le> port_arg s \<and> port_arg s < 65536"
  by (auto simp: port_arg_def split: option.splits)

lemma address_listens:
  "address_processing n address addr addr6 port = (f, a4, a6) \<Longrightarrow> f \<noteq> -1 \<Longrightarrow> 0 \<le> port \<Longrightarrow> port < 65536 \<Longrightarrow>
     listens f port a4 a6"
  by (auto simp: address_processing_def listens_def split: option.splits)

lemma port_listens:
  "listens f p i4 i6 \<Longrightarrow> 0 \<le> v \<Longrightarrow> v < 65536 \<Longrightarrow>
     listens f v (i4\<lparr>sa_port := htons v\<rparr>) (i6\<lparr>sa_port := htons v\<rparr>)"
  by (simp add: listens_def)

lemma listens_port: "listens f port i4 i6 \<Longrightarrow> 0 \<le> port \<and> port < 65536"
  by (simp add: listens_def)

lemma family_arg_simps [simp]:
  "ports_agree (family_arg f v a) = ports_agree a" "ports_agree (mng_family_arg f v a) = ports_agree a"
  by (simp_all add: family_arg_def mng_family_arg_def ports_agree_def)

lemma process_option_ports:
  assumes "process_option n alloc c v (a, us) = Inr (Some (a', us'))" and "ports_agree a"
  shows "ports_agree a'"
proof -
  have l: "listens (socks_family a) (socks_port a) (socks_addr_info a) (socks_addr_info6 a)"
      "listens (mng_family a) (mng_port a) (mng_addr_info a) (mng_addr_info6 a)"
    using assms(2) by (simp_all add: ports_agree_def)
  consider "c = CHR ''l''" | "c = CHR ''L''" | "c = CHR ''p''" | "c = CHR ''P''"
    | "c \<notin> {CHR ''l'', CHR ''L'', CHR ''p'', CHR ''P''}" by blast
  then show ?thesis
  proof cases
    case 1
    obtain f a4 a6 where ap: "address_processing n v (socks_addr_info a) (socks_addr_info6 a) (socks_port a) = (f, a4, a6)"
      by (metis prod_cases3)
    with assms(1) 1 have "f \<noteq> -1" "a' = family_arg f v (a\<lparr>socks_family := f, socks_addr_info := a4, socks_addr_info6 := a6\<rparr>)"
      by (simp_all add: process_option_def split: if_splits)
    with address_listens [OF ap] listens_port [OF l(1)] l(2) show ?thesis
      by (auto simp: ports_agree_def family_arg_def mng_family_arg_def)
  next
    case 2
    obtain f a4 a6 where ap: "address_processing n v (mng_addr_info a) (mng_addr_info6 a) (mng_port a) = (f, a4, a6)"
      by (metis prod_cases3)
    with assms(1) 2 have "f \<noteq> -1" "a' = mng_family_arg f v (a\<lparr>mng_family := f, mng_addr_info := a4, mng_addr_info6 := a6\<rparr>)"
      by (simp_all add: process_option_def split: if_splits)
    with address_listens [OF ap] listens_port [OF l(2)] l(1) show ?thesis
      by (auto simp: ports_agree_def family_arg_def mng_family_arg_def)
  next
    case 3
    then show ?thesis
      using assms(1) port_arg_range [of v] port_listens [OF l(1)] l(2)
      by (auto simp: process_option_def ports_agree_def Let_def split: if_splits)
  next
    case 4
    then show ?thesis
      using assms(1) port_arg_range [of v] port_listens [OF l(2)] l(1)
      by (auto simp: process_option_def ports_agree_def Let_def split: if_splits)
  next
    case 5
    then show ?thesis
      using assms by (auto simp: process_option_def ports_agree_def Let_def bind_res_eq_Inr split: if_splits option.splits)
  qed
qed

lemma process_options_ports:
  "process_options n alloc opts (a, us) = Inr (Some (a', us')) \<Longrightarrow> ports_agree a \<Longrightarrow> ports_agree a'"
proof (induction opts arbitrary: a us)
  case Nil
  then show ?case by simp
next
  case (Cons o1 opts)
  obtain c v where o1: "o1 = (c, v)" by (cases o1)
  from Cons.prems(1) obtain a1 us1 where
    1: "process_option n alloc c v (a, us) = Inr (Some (a1, us1))"
    and 2: "process_options n alloc opts (a1, us1) = Inr (Some (a', us'))"
    by (auto simp: o1 bind_res_eq_Inr split: option.splits)
  from Cons.IH [OF 2 process_option_ports [OF 1 Cons.prems(2)]] show ?case .
qed

lemma default_args_ok: "ports_agree default_args"
  by (simp add: ports_agree_def listens_def default_args_def)

lemma res_option_cases:
  obtains e where "r = Inl e" | "r = Inr None" | x where "r = Inr (Some x)"
  by (metis sumE option.exhaust)

lemma parse_args_parts:
  assumes "parse_args n alloc opts operands = Inr (Some (a, us))"
  obtains a1 s4 s6 m4 m6 where "process_options n alloc opts (default_args, []) = Inr (Some (a1, us))" and "operands = 0"
    and "(if socks_family a1 = AF_UNSPEC
      then default_addresses n (socks_addr a1) (socks_addr_6 a1) (socks_port a1) (socks_addr_info a1, socks_addr_info6 a1)
      else Some (socks_addr_info a1, socks_addr_info6 a1)) = Some (s4, s6)"
    and "(if mng_family a1 = AF_UNSPEC
      then default_addresses n (mng_addr a1) (mng_addr_6 a1) (mng_port a1) (mng_addr_info a1, mng_addr_info6 a1)
      else Some (mng_addr_info a1, mng_addr_info6 a1)) = Some (m4, m6)"
    and "a = a1\<lparr>socks_addr_info := s4, socks_addr_info6 := s6, mng_addr_info := m4, mng_addr_info6 := m6\<rparr>"
proof -
  obtain st where "process_options n alloc opts (default_args, []) = Inr (Some st)"
    using assms
    by (cases "process_options n alloc opts (default_args, [])" rule: res_option_cases) (simp_all add: parse_args_def)
  then obtain a1 us1 where 1: "process_options n alloc opts (default_args, []) = Inr (Some (a1, us1))"
    by (cases st) simp
  define S where "S = (if socks_family a1 = AF_UNSPEC
     then default_addresses n (socks_addr a1) (socks_addr_6 a1) (socks_port a1) (socks_addr_info a1, socks_addr_info6 a1)
     else Some (socks_addr_info a1, socks_addr_info6 a1))"
  define M where "M = (if mng_family a1 = AF_UNSPEC
     then default_addresses n (mng_addr a1) (mng_addr_6 a1) (mng_port a1) (mng_addr_info a1, mng_addr_info6 a1)
     else Some (mng_addr_info a1, mng_addr_info6 a1))"
  have res: "(if operands > 0 then None else case S of None \<Rightarrow> None | Some (s4, s6) \<Rightarrow>
      (case M of None \<Rightarrow> None | Some (m4, m6) \<Rightarrow> Some (a1\<lparr>socks_addr_info := s4, socks_addr_info6 := s6,
         mng_addr_info := m4, mng_addr_info6 := m6\<rparr>, us1))) = Some (a, us)"
    unfolding S_def M_def using assms by (simp only: parse_args_def 1 bind_res_Inr option.simps prod.case sum.inject)
  then obtain s4 s6 m4 m6 where 2: "operands = 0" "S = Some (s4, s6)" "M = Some (m4, m6)" "us1 = us"
    and a: "a = a1\<lparr>socks_addr_info := s4, socks_addr_info6 := s6, mng_addr_info := m4, mng_addr_info6 := m6\<rparr>"
    by (auto split: if_splits option.splits prod.splits)
  show ?thesis by (rule that [OF 1 [unfolded 2(4)] 2(1) 2(2) [unfolded S_def] 2(3) [unfolded M_def] a])
qed

lemma parse_args_result:
  assumes "parse_args n alloc opts operands = Inr (Some (a, us))"
  shows "us = option_users opts" and "length us \<le> MAX_USERS" and "users_wf us" and "ports_agree a" and "operands = 0"
proof -
  obtain a1 s4 s6 m4 m6 where 1: "process_options n alloc opts (default_args, []) = Inr (Some (a1, us))"
    and 2: "operands = 0"
    "(if socks_family a1 = AF_UNSPEC
      then default_addresses n (socks_addr a1) (socks_addr_6 a1) (socks_port a1) (socks_addr_info a1, socks_addr_info6 a1)
      else Some (socks_addr_info a1, socks_addr_info6 a1)) = Some (s4, s6)"
    "(if mng_family a1 = AF_UNSPEC
      then default_addresses n (mng_addr a1) (mng_addr_6 a1) (mng_port a1) (mng_addr_info a1, mng_addr_info6 a1)
      else Some (mng_addr_info a1, mng_addr_info6 a1)) = Some (m4, m6)"
    and a: "a = a1\<lparr>socks_addr_info := s4, socks_addr_info6 := s6, mng_addr_info := m4, mng_addr_info6 := m6\<rparr>"
    by (rule parse_args_parts [OF assms])
  show "us = option_users opts" "length us \<le> MAX_USERS"
    using process_options_users [OF 1] by auto
  then show "users_wf us" by (auto simp: option_users_def users_wf_def account_def)
  have "ports_agree a1" using process_options_ports [OF 1 default_args_ok] .
  then show "ports_agree a"
    using 2(2,3) by (auto simp: a ports_agree_def listens_def split: if_splits)
  show "operands = 0" by (rule 2(1))
qed

section \<open>What each option decides\<close>

text \<open>
  Read off the command line: the values of an option, the address that a text stands for, the port
  and the address of a service. The last option of its letter counts.
\<close>

definition option_values :: "char \<Rightarrow> (char \<times> byte list) list \<Rightarrow> byte list list" where
  "option_values c opts = [v. (c', v) \<leftarrow> opts, c' = c]"

definition text_address :: "inet \<Rightarrow> byte list \<Rightarrow> int \<Rightarrow> sockaddr option" where
  "text_address n t port =
     (case inet_pton4 n t of
        Some x \<Rightarrow> Some \<lparr>sa_family = AF_INET, sa_port = htons port, sa_addr = inet_addr n t\<rparr>
      | None \<Rightarrow> map_option (\<lambda>x. \<lparr>sa_family = AF_INET6, sa_port = htons port, sa_addr = x\<rparr>) (inet_pton6 n t))"

definition port_chosen :: "byte list list \<Rightarrow> int \<Rightarrow> int \<Rightarrow> bool" where
  "port_chosen ps p0 port \<longleftrightarrow> (if ps = [] then port = p0 else strtol (last ps) = Some (port, [])) \<and>
     0 \<le> port \<and> port < 65536"

definition address_chosen :: "inet \<Rightarrow> byte list list \<Rightarrow> int \<Rightarrow> int \<Rightarrow> sockaddr \<Rightarrow> sockaddr \<Rightarrow> bool" where
  "address_chosen n vs port f i4 i6 \<longleftrightarrow>
     (f = AF_INET \<and> sa_family i4 = f \<and> text_address n (last vs) port = Some i4 \<or>
      f = AF_INET6 \<and> sa_family i6 = f \<and> text_address n (last vs) port = Some i6)"

text \<open>A documented fact on \<open>inet_pton\<close>: a notation with dots is an IPv4 one, one with colons is not.\<close>

definition inet_knows_defaults :: "inet \<Rightarrow> bool" where
  "inet_knows_defaults n \<longleftrightarrow> inet_pton4 n any4 \<noteq> None \<and> inet_pton4 n loopback4 \<noteq> None \<and>
     inet_pton4 n any6 = None \<and> inet_pton4 n loopback6 = None"

text \<open>The address of a service: the chosen one, or both wildcards (both loopbacks) without an option.\<close>

definition service_address ::
    "inet \<Rightarrow> byte list \<Rightarrow> byte list \<Rightarrow> byte list list \<Rightarrow> int \<Rightarrow> int \<Rightarrow> sockaddr \<Rightarrow> sockaddr \<Rightarrow> bool" where
  "service_address n d4 d6 vs port f i4 i6 \<longleftrightarrow>
     (if vs = [] then f = AF_UNSPEC \<and> text_address n d4 port = Some i4 \<and> text_address n d6 port = Some i6
      else address_chosen n vs port f i4 i6)"

lemma option_values_snoc [simp]:
  "option_values c [] = []" "option_values c (opts @ [(c', v)]) = option_values c opts @ (if c' = c then [v] else [])"
  by (simp_all add: option_values_def)

lemma process_options_snoc:
  "process_options n alloc (opts @ [(c, v)]) st = bind_res (process_options n alloc opts st) (\<lambda>r.
     case r of None \<Rightarrow> Inr None | Some st' \<Rightarrow> process_option n alloc c v st')"
proof (induction opts arbitrary: st)
  case Nil
  show ?case by (cases "process_option n alloc c v st" rule: res_option_cases) simp_all
next
  case (Cons o1 opts)
  obtain c' v' where "o1 = (c', v')" by (cases o1)
  with Cons show ?case by (cases "process_option n alloc c' v' st" rule: res_option_cases) simp_all
qed

lemma port_arg_strtol: "port_arg v \<noteq> -1 \<Longrightarrow> strtol v = Some (port_arg v, []) \<and> 0 \<le> port_arg v \<and> port_arg v < 65536"
  by (auto simp: port_arg_def split: option.splits if_splits)

lemma text_address_port: "text_address n t p = Some i \<Longrightarrow> text_address n t q = Some (i\<lparr>sa_port := htons q\<rparr>)"
  by (auto simp: text_address_def split: option.splits)

lemma address_processing_text:
  assumes "address_processing n v i4 i6 port = (f, a4, a6)" and "f \<noteq> -1"
  shows "address_chosen n (vs @ [v]) port f a4 a6"
  using assms by (auto simp: address_processing_def address_chosen_def text_address_def split: option.splits)

lemma address_chosen_port:
  "address_chosen n vs p f i4 i6 \<Longrightarrow> address_chosen n vs q f (i4\<lparr>sa_port := htons q\<rparr>) (i6\<lparr>sa_port := htons q\<rparr>)"
  using text_address_port by (auto simp: address_chosen_def)

text \<open>What holds of one service after any options: \<open>ps\<close> and \<open>vs\<close> are the values of its two options.\<close>

definition service_read ::
    "inet \<Rightarrow> byte list \<times> byte list \<times> int \<Rightarrow> byte list list \<Rightarrow> byte list list \<Rightarrow>
     byte list \<times> byte list \<times> int \<times> int \<times> sockaddr \<times> sockaddr \<Rightarrow> bool" where
  "service_read n d ps vs s \<longleftrightarrow>
     (case d of (d4, d6, p0) \<Rightarrow> case s of (addr, addr6, port, f, i4, i6) \<Rightarrow>
        port_chosen ps p0 port \<and>
        (if vs = [] then f = AF_UNSPEC \<and> addr = d4 \<and> addr6 = d6 else address_chosen n vs port f i4 i6))"

definition socks_service :: "socks5args \<Rightarrow> byte list \<times> byte list \<times> int \<times> int \<times> sockaddr \<times> sockaddr" where
  "socks_service a = (socks_addr a, socks_addr_6 a, socks_port a, socks_family a, socks_addr_info a, socks_addr_info6 a)"

definition mng_service :: "socks5args \<Rightarrow> byte list \<times> byte list \<times> int \<times> int \<times> sockaddr \<times> sockaddr" where
  "mng_service a = (mng_addr a, mng_addr_6 a, mng_port a, mng_family a, mng_addr_info a, mng_addr_info6 a)"

lemmas service_simps = service_read_def socks_service_def mng_service_def

definition socks_defaults :: "byte list \<times> byte list \<times> int" where "socks_defaults = (any4, any6, 1080)"
definition mng_defaults :: "byte list \<times> byte list \<times> int" where "mng_defaults = (loopback4, loopback6, 8080)"

lemma service_address_option:
  assumes "service_read n d ps vs (addr, addr6, port, f, i4, i6)"
    and "address_processing n v i4 i6 port = (g, a4, a6)" and "g \<noteq> -1"
  shows "service_read n d ps (vs @ [v]) (x, y, port, g, a4, a6)"
  using assms(1) address_processing_text [OF assms(2,3)] by (auto simp: service_read_def)

lemma service_port_option:
  assumes "service_read n d ps vs (addr, addr6, port, f, i4, i6)" and "port_arg v \<noteq> -1"
  shows "service_read n d (ps @ [v]) vs
    (addr, addr6, port_arg v, f, i4\<lparr>sa_port := htons (port_arg v)\<rparr>, i6\<lparr>sa_port := htons (port_arg v)\<rparr>)"
  using assms(1) port_arg_strtol [OF assms(2)] address_chosen_port
  by (auto simp: service_read_def port_chosen_def split: prod.splits if_splits)

lemma process_option_services:
  assumes "process_option n alloc c v (a, us) = Inr (Some (a', us'))"
    and "service_read n socks_defaults ps ls (socks_service a)" and "service_read n mng_defaults qs ms (mng_service a)"
  shows "service_read n socks_defaults (ps @ (if c = CHR ''p'' then [v] else []))
      (ls @ (if c = CHR ''l'' then [v] else [])) (socks_service a')"
    and "service_read n mng_defaults (qs @ (if c = CHR ''P'' then [v] else []))
      (ms @ (if c = CHR ''L'' then [v] else [])) (mng_service a')"
proof -
  have same: "a' = a \<or> socks_service a' = socks_service a \<and> mng_service a' = mng_service a"
    if "c \<notin> {CHR ''l'', CHR ''L'', CHR ''p'', CHR ''P''}"
    using assms(1) that
    by (auto simp: process_option_def socks_service_def mng_service_def Let_def bind_res_eq_Inr
        split: if_splits option.splits)
  consider "c = CHR ''l''" | "c = CHR ''L''" | "c = CHR ''p''" | "c = CHR ''P''"
    | "c \<notin> {CHR ''l'', CHR ''L'', CHR ''p'', CHR ''P''}" by blast
  then have "service_read n socks_defaults (ps @ (if c = CHR ''p'' then [v] else []))
      (ls @ (if c = CHR ''l'' then [v] else [])) (socks_service a') \<and>
    service_read n mng_defaults (qs @ (if c = CHR ''P'' then [v] else []))
      (ms @ (if c = CHR ''L'' then [v] else [])) (mng_service a')"
  proof cases
    case 1
    obtain f a4 a6 where ap: "address_processing n v (socks_addr_info a) (socks_addr_info6 a) (socks_port a) = (f, a4, a6)"
      by (metis prod_cases3)
    with assms(1) 1 have a': "f \<noteq> -1" "a' = family_arg f v (a\<lparr>socks_family := f, socks_addr_info := a4, socks_addr_info6 := a6\<rparr>)"
      by (simp_all add: process_option_def split: if_splits)
    from service_address_option [OF assms(2) [unfolded socks_service_def] ap a'(1)] assms(3) 1 show ?thesis
      by (auto simp: a'(2) family_arg_def socks_service_def mng_service_def)
  next
    case 2
    obtain f a4 a6 where ap: "address_processing n v (mng_addr_info a) (mng_addr_info6 a) (mng_port a) = (f, a4, a6)"
      by (metis prod_cases3)
    with assms(1) 2 have a': "f \<noteq> -1" "a' = mng_family_arg f v (a\<lparr>mng_family := f, mng_addr_info := a4, mng_addr_info6 := a6\<rparr>)"
      by (simp_all add: process_option_def split: if_splits)
    from service_address_option [OF assms(3) [unfolded mng_service_def] ap a'(1)] assms(2) 2 show ?thesis
      by (auto simp: a'(2) mng_family_arg_def socks_service_def mng_service_def)
  next
    case 3
    then have a': "port_arg v \<noteq> -1" "a' = a\<lparr>socks_port := port_arg v,
        socks_addr_info := (socks_addr_info a)\<lparr>sa_port := htons (port_arg v)\<rparr>,
        socks_addr_info6 := (socks_addr_info6 a)\<lparr>sa_port := htons (port_arg v)\<rparr>\<rparr>"
      using assms(1) by (auto simp: process_option_def Let_def split: if_splits)
    from service_port_option [OF assms(2) [unfolded socks_service_def] a'(1)] assms(3) 3 show ?thesis
      by (simp add: a'(2) socks_service_def mng_service_def)
  next
    case 4
    then have a': "port_arg v \<noteq> -1" "a' = a\<lparr>mng_port := port_arg v,
        mng_addr_info := (mng_addr_info a)\<lparr>sa_port := htons (port_arg v)\<rparr>,
        mng_addr_info6 := (mng_addr_info6 a)\<lparr>sa_port := htons (port_arg v)\<rparr>\<rparr>"
      using assms(1) by (auto simp: process_option_def Let_def split: if_splits)
    from service_port_option [OF assms(3) [unfolded mng_service_def] a'(1)] assms(2) 4 show ?thesis
      by (simp add: a'(2) socks_service_def mng_service_def)
  next
    case 5
    then show ?thesis using same assms(2,3) by auto
  qed
  then show "service_read n socks_defaults (ps @ (if c = CHR ''p'' then [v] else []))
      (ls @ (if c = CHR ''l'' then [v] else [])) (socks_service a')"
    and "service_read n mng_defaults (qs @ (if c = CHR ''P'' then [v] else []))
      (ms @ (if c = CHR ''L'' then [v] else [])) (mng_service a')" by simp_all
qed

lemma process_options_services:
  "process_options n alloc opts (default_args, []) = Inr (Some (a, us)) \<Longrightarrow>
     service_read n socks_defaults (option_values CHR ''p'' opts) (option_values CHR ''l'' opts) (socks_service a) \<and>
     service_read n mng_defaults (option_values CHR ''P'' opts) (option_values CHR ''L'' opts) (mng_service a) \<and>
     disectors_enabled a = (if option_values CHR ''N'' opts = [] then 0 else 1) \<and>
     credentials a = (if option_values CHR ''f'' opts = [] then None else Some (last (option_values CHR ''f'' opts)))"
proof (induction opts arbitrary: a us rule: rev_induct)
  case Nil
  then show ?case
    by (auto simp: default_args_def service_simps socks_defaults_def mng_defaults_def port_chosen_def)
next
  case (snoc o1 opts)
  obtain c v where o1: "o1 = (c, v)" by (cases o1)
  from snoc.prems obtain b vs where
    1: "process_options n alloc opts (default_args, []) = Inr (Some (b, vs))"
    and 2: "process_option n alloc c v (b, vs) = Inr (Some (a, us))"
    by (auto simp: o1 process_options_snoc bind_res_eq_Inr split: option.splits)
  have rest: "disectors_enabled a = (if c = CHR ''N'' then 1 else disectors_enabled b)"
      "credentials a = (if c = CHR ''f'' then Some v else credentials b)"
    using 2 by (auto simp: process_option_def family_arg_def mng_family_arg_def Let_def bind_res_eq_Inr
        split: if_splits option.splits prod.splits)
  note ih = snoc.IH [OF 1]
  from process_option_services [OF 2 conjunct1 [OF ih] conjunct1 [OF conjunct2 [OF ih]]] conjunct2 [OF conjunct2 [OF ih]]
  show ?case by (simp add: o1 rest)
qed

lemma default_addresses_text:
  assumes "default_addresses n d4 d6 port (i4, i6) = Some (s4, s6)" and "inet_pton4 n d4 \<noteq> None" and "inet_pton4 n d6 = None"
  shows "text_address n d4 port = Some s4 \<and> text_address n d6 port = Some s6"
  using assms
  by (auto simp: default_addresses_def address_processing_def text_address_def split: option.splits if_splits)

lemma service_read_address:
  assumes "service_read n (d4, d6, p0) ps vs (addr, addr6, port, f, i4, i6)"
    and "(if f = AF_UNSPEC then default_addresses n addr addr6 port (i4, i6) else Some (i4, i6)) = Some (s4, s6)"
    and "inet_pton4 n d4 \<noteq> None" and "inet_pton4 n d6 = None"
  shows "port_chosen ps p0 port" and "service_address n d4 d6 vs port f s4 s6"
proof -
  show "port_chosen ps p0 port" using assms(1) by (simp add: service_read_def)
  show "service_address n d4 d6 vs port f s4 s6"
  proof (cases "vs = []")
    case True
    then show ?thesis
      using assms default_addresses_text [OF _ assms(3,4)] by (auto simp: service_read_def service_address_def)
  next
    case False
    then have "address_chosen n vs port f i4 i6" using assms(1) by (simp add: service_read_def)
    with assms(2) False show ?thesis by (auto simp: service_address_def address_chosen_def split: if_splits)
  qed
qed

lemma parse_args_chosen:
  assumes "parse_args n alloc opts operands = Inr (Some (a, us))" and "inet_knows_defaults n"
  shows "port_chosen (option_values CHR ''p'' opts) 1080 (socks_port a)"
    and "service_address n any4 any6 (option_values CHR ''l'' opts) (socks_port a) (socks_family a)
      (socks_addr_info a) (socks_addr_info6 a)"
    and "port_chosen (option_values CHR ''P'' opts) 8080 (mng_port a)"
    and "service_address n loopback4 loopback6 (option_values CHR ''L'' opts) (mng_port a) (mng_family a)
      (mng_addr_info a) (mng_addr_info6 a)"
    and "disectors_enabled a = (if option_values CHR ''N'' opts = [] then 0 else 1)"
    and "credentials a = (if option_values CHR ''f'' opts = [] then None else Some (last (option_values CHR ''f'' opts)))"
proof -
  obtain b s4 s6 m4 m6 where 1: "process_options n alloc opts (default_args, []) = Inr (Some (b, us))"
    and s: "(if socks_family b = AF_UNSPEC
      then default_addresses n (socks_addr b) (socks_addr_6 b) (socks_port b) (socks_addr_info b, socks_addr_info6 b)
      else Some (socks_addr_info b, socks_addr_info6 b)) = Some (s4, s6)"
    and m: "(if mng_family b = AF_UNSPEC
      then default_addresses n (mng_addr b) (mng_addr_6 b) (mng_port b) (mng_addr_info b, mng_addr_info6 b)
      else Some (mng_addr_info b, mng_addr_info6 b)) = Some (m4, m6)"
    and a: "a = b\<lparr>socks_addr_info := s4, socks_addr_info6 := s6, mng_addr_info := m4, mng_addr_info6 := m6\<rparr>"
    by (rule parse_args_parts [OF assms(1)])
  note r = process_options_services [OF 1, unfolded socks_service_def mng_service_def socks_defaults_def mng_defaults_def]
  note ok = assms(2) [unfolded inet_knows_defaults_def]
  from service_read_address [OF conjunct1 [OF r] s] ok
  show "port_chosen (option_values CHR ''p'' opts) 1080 (socks_port a)"
    and "service_address n any4 any6 (option_values CHR ''l'' opts) (socks_port a) (socks_family a)
      (socks_addr_info a) (socks_addr_info6 a)" by (simp_all add: a)
  from service_read_address [OF conjunct1 [OF conjunct2 [OF r]] m] ok
  show "port_chosen (option_values CHR ''P'' opts) 8080 (mng_port a)"
    and "service_address n loopback4 loopback6 (option_values CHR ''L'' opts) (mng_port a) (mng_family a)
      (mng_addr_info a) (mng_addr_info6 a)" by (simp_all add: a)
  from r show "disectors_enabled a = (if option_values CHR ''N'' opts = [] then 0 else 1)"
    and "credentials a = (if option_values CHR ''f'' opts = [] then None else Some (last (option_values CHR ''f'' opts)))"
    by (simp_all add: a)
qed

section \<open>What the file of administrators gives\<close>

definition admin_line :: "byte list \<times> byte list \<Rightarrow> byte list" where
  "admin_line x = fst x @ 32 # snd x @ [10]"

definition admin_ok :: "byte list \<times> byte list \<Rightarrow> bool" where
  "admin_ok x \<longleftrightarrow> 32 \<notin> set (fst x) \<and> 10 \<notin> set (fst x @ snd x) \<and> 0 \<notin> set (fst x @ snd x) \<and>
     length (fst x) + length (snd x) \<le> 252"

lemma takeWhile_until: "c \<notin> set xs \<Longrightarrow> takeWhile (\<lambda>x. x \<noteq> c) (xs @ c # ys) = xs"
  by (induction xs) auto

lemma dropWhile_until: "c \<notin> set xs \<Longrightarrow> dropWhile (\<lambda>x. x \<noteq> c) (xs @ c # ys) = c # ys"
  by (induction xs) auto

lemma fgets_admin_line:
  assumes "admin_ok x"
  shows "fgets 255 (admin_line x @ rest) = Some (admin_line x, rest)"
proof -
  have "takeWhile (\<lambda>c. c \<noteq> 10) (admin_line x @ rest) = fst x @ 32 # snd x"
    using assms takeWhile_until [of 10 "fst x @ 32 # snd x" rest] by (simp add: admin_line_def admin_ok_def)
  moreover have "length (admin_line x) \<le> 254" using assms by (simp add: admin_line_def admin_ok_def)
  ultimately show ?thesis
    by (simp add: fgets_def Let_def admin_line_def min_def)
qed

lemma credential_admin_line:
  assumes "admin_ok x"
  shows "credential_line True (admin_line x) = Inr (account x)"
proof -
  have "cstr (admin_line x) = admin_line x" using assms by (auto simp: admin_line_def admin_ok_def)
  then have "split_at 32 (admin_line x) = Some (fst x, snd x @ [10])"
    using assms by (simp add: split_at_def admin_line_def admin_ok_def takeWhile_until dropWhile_until Let_def)
  then show ?thesis by (simp add: credential_line_def user_copy_def account_def)
qed

lemma load_credentials_lines:
  "\<forall>x \<in> set xs. admin_ok x \<Longrightarrow> length ads \<le> MAX_USERS \<Longrightarrow>
     load_credentials (\<lambda>i. True) (concat (map admin_line xs)) ads =
       (if length ads + length xs \<le> MAX_USERS then Inr (ads @ map account xs) else Inl Undefined)"
proof (induction xs arbitrary: ads)
  case Nil
  then show ?case by (simp add: load_credentials.simps fgets_def)
next
  case (Cons x xs)
  have "load_credentials (\<lambda>i. True) (concat (map admin_line (x # xs))) ads =
      (if length ads \<ge> MAX_USERS then Inl Undefined
       else load_credentials (\<lambda>i. True) (concat (map admin_line xs)) (ads @ [account x]))"
    using Cons.prems(1) by (subst load_credentials.simps) (simp add: fgets_admin_line credential_admin_line)
  then show ?case using Cons by auto
qed

lemma load_credentials_wf:
  "load_credentials alloc f ads = Inr ads' \<Longrightarrow> length ads \<le> MAX_USERS \<Longrightarrow> users_wf ads \<Longrightarrow>
     length ads' \<le> MAX_USERS \<and> users_wf ads'"
proof (induction "length f" arbitrary: f ads rule: less_induct)
  case less
  show ?case
  proof (cases "fgets 255 f")
    case None
    then show ?thesis using less.prems by (subst (asm) load_credentials.simps) simp
  next
    case (Some r)
    obtain line rest where r: "r = (line, rest)" by (cases r)
    from less.prems(1) obtain x where x: "credential_line (alloc (length ads)) line = Inr x" "\<not> length ads \<ge> MAX_USERS"
        "load_credentials alloc rest (ads @ [x]) = Inr ads'"
      by (subst (asm) load_credentials.simps) (auto simp: Some r bind_res_eq_Inr split: if_splits)
    have "users_wf (ads @ [x])"
      using less.prems(3) x(1) by (auto simp: credential_line_def user_copy_def users_wf_def split: option.splits if_splits)
    moreover have "length rest < length f" using Some by (auto simp: r fgets_def Let_def split: if_splits)
    ultimately show ?thesis using less.hyps [OF _ x(3)] x(2) by simp
  qed
qed

section \<open>The start of the server\<close>

lemma server_main_ok:
  assumes "parse_args (me_inet e) (me_alloc e) (me_options e) (me_operands e) = Inr (Some (a, us))"
    and "me_fopen e (credentials a) = Some file" and "load_credentials (me_admin_alloc e) file [] = Inr ads"
    and "master_sockets (socks_family a) (me_socks4 e) (me_socks6 e) = Some socks"
    and "master_sockets (mng_family a) (me_mng4 e) (me_mng6 e) = Some mng"
    and "distinct (socks @ mng)" and "\<forall>fd \<in> set (socks @ mng). \<not> INVALID_FD fd"
    and "os_alloc (me_os e) Alloc_selector" and "os_alloc (me_os e) Alloc_items"
    and "me_sigprocmask e" and "me_sigaction e"
  shows "\<exists>w. server_main e = Inr (Some w) \<and> server_inv w \<and> user_table w = option_users (me_options e) \<and>
    password_dissectors w = disectors_enabled a \<and>
    sel_lookup (sv_selector w) = listening Socks5_passive (set socks) ++ listening Mng_passive (set mng)"
proof -
  note r = parse_args_result [OF assms(1)]
  have ads: "length ads \<le> MAX_USERS" "users_wf ads"
    using load_credentials_wf [OF assms(3)] by (simp_all add: users_wf_def)
  from main_start_ok [OF assms(8,9,6,7) r(2,3) ads] show ?thesis
    using assms(1-5,10,11) r(1) by (auto simp: server_main_def selector_init_def)
qed

end
