(* ===== verification/Main_Loop.thy ===== *)
theory Main_Loop
  imports Turns Startup
begin

unbundle bit_operations_syntax

text \<open>
  The loop of \<open>main\<close> (\<open>src/src/main.c\<close>) over the turns of the selector, until a signal or a
  failure of \<open>pselect\<close>.
\<close>

section \<open>The loop\<close>

text \<open>
  The events of a run: a turn with the answers of its system calls, or a resolver thread that
  finishes between two turns. The list ends where the signal handler sets \<open>done\<close>. The result is
  \<open>ss\<close>, \<open>err_msg\<close> and the server.
\<close>

datatype loop_event =
    Turn pselect_answer "nat \<Rightarrow> bool \<Rightarrow> os" "int \<Rightarrow> os"
  | Resolved int nat os

fun main_loop :: "loop_event list \<Rightarrow> server \<Rightarrow> (selector_status \<times> string \<times> server) res" where
  "main_loop [] w = Inr (SELECTOR_SUCCESS, ''closing'', w)"
| "main_loop (Turn answer env env_block # l) w =
     bind_res (selector_select answer env env_block w) (\<lambda>(ss, w').
       if ss \<noteq> SELECTOR_SUCCESS then Inr (ss, ''serving'', w') else main_loop l w')"
| "main_loop (Resolved fd i k # l) w =
     (if (fd, i) \<in> set (sv_threads w)
      then bind_res (request_resolv_blocking \<lparr>key_fd = fd, key_data = i, key_os = k\<rparr> w) (\<lambda>(_, w'). main_loop l w')
      else main_loop l w)"

section \<open>What the loop keeps\<close>

text \<open>A turn fails only with the answer of \<open>pselect\<close>, and then it has called no handler.\<close>

definition pselect_fails :: "loop_event \<Rightarrow> bool" where
  "pselect_fails ev = (case ev of Turn (Failed e) env env_block \<Rightarrow> e \<noteq> EAGAIN \<and> e \<noteq> EINTR | _ \<Rightarrow> False)"

lemma turn_status:
  assumes "selector_select answer env env_block w = Inr (ss, w')"
  shows "ss = (if pselect_fails (Turn answer env env_block) then SELECTOR_IO else SELECTOR_SUCCESS)"
  using assms
  by (auto simp: selector_select_def pselect_fails_def bind_sv_def modify_sv_def ret_sv_def bind_res_eq_Inr
      split: pselect_answer.splits if_splits)

lemma turn_fails:
  assumes "selector_select answer env env_block w = Inr (ss, w')" and "ss \<noteq> SELECTOR_SUCCESS"
  shows "w' = w\<lparr>sv_selector := (sv_selector w)\<lparr>slave_r := master_r (sv_selector w), slave_w := master_w (sv_selector w)\<rparr>\<rparr>"
  using assms
  by (auto simp: selector_select_def bind_sv_def modify_sv_def ret_sv_def bind_res_eq_Inr
      split: pselect_answer.splits if_splits)

text \<open>The loop is a run of the server, with the failed turn behind it if there is one.\<close>

lemma server_run_trans: "server_run w1 w2 \<Longrightarrow> server_run w w1 \<Longrightarrow> server_run w w2"
  by (induction rule: server_run.induct) (auto intro: server_run.step)

lemma server_run_step_first: "server_step w w1 \<Longrightarrow> server_run w1 w2 \<Longrightarrow> server_run w w2"
  using server_run_trans [of w1 w2 w] server_run.step [OF server_run.start] by blast

lemma main_loop_run:
  assumes "main_loop l w = Inr (ss, err, w')"
  shows "\<exists>v. server_run w v \<and>
    (if ss = SELECTOR_SUCCESS then w' = v \<and> err = ''closing''
     else err = ''serving'' \<and> ss = SELECTOR_IO \<and> w' = v\<lparr>sv_selector := (sv_selector v)\<lparr>slave_r := master_r (sv_selector v),
       slave_w := master_w (sv_selector v)\<rparr>\<rparr>)"
  using assms
proof (induction l w rule: main_loop.induct)
  case (1 w)
  then show ?case by (auto intro: server_run.start)
next
  case (2 answer env env_block l w)
  from 2(2) obtain ss1 w1 where t: "selector_select answer env env_block w = Inr (ss1, w1)"
    by (auto simp: bind_res_eq_Inr)
  show ?case
  proof (cases "ss1 = SELECTOR_SUCCESS")
    case True
    then have "server_step w w1" using t by (auto intro: server_step.turn)
    moreover have "main_loop l w1 = Inr (ss, err, w')" using 2(2) t True by simp
    ultimately show ?thesis using 2(1) [OF t refl] True server_run_step_first by fast
  next
    case False
    then show ?thesis using 2(2) t turn_fails [OF t False] turn_status [OF t] by (auto intro: server_run.start split: if_splits)
  qed
next
  case (3 fd i k l w)
  show ?case
  proof (cases "(fd, i) \<in> set (sv_threads w)")
    case True
    with 3(3) obtain w1 where t: "request_resolv_blocking \<lparr>key_fd = fd, key_data = i, key_os = k\<rparr> w = Inr ((), w1)"
        "main_loop l w1 = Inr (ss, err, w')"
      by (auto simp: bind_res_eq_Inr)
    with True have "server_step w w1" by (auto intro: server_step.thread)
    with t 3(1) [OF True t(1)] show ?thesis using server_run_step_first by fast
  qed (use 3 in simp)
qed

text \<open>The code is 2 when some \<open>pselect\<close> failed, otherwise 1, also for the end that a signal asks for.\<close>

lemma main_loop_status:
  "main_loop l w = Inr (ss, err, w') \<Longrightarrow> ss \<noteq> SELECTOR_SUCCESS \<longleftrightarrow> (\<exists>ev \<in> set l. pselect_fails ev)"
proof (induction l w rule: main_loop.induct)
  case (2 answer env env_block l w)
  from 2(2) obtain ss1 w1 where t: "selector_select answer env env_block w = Inr (ss1, w1)"
    by (auto simp: bind_res_eq_Inr)
  show ?case using turn_status [OF t] 2(2) t 2(1) [OF t refl] by (auto split: if_splits)
next
  case (3 fd i k l w)
  have [simp]: "\<not> pselect_fails (Resolved fd i k)" by (simp add: pselect_fails_def)
  show ?case
  proof (cases "(fd, i) \<in> set (sv_threads w)")
    case True
    with 3(3) obtain w1 where t: "request_resolv_blocking \<lparr>key_fd = fd, key_data = i, key_os = k\<rparr> w = Inr ((), w1)"
        "main_loop l w1 = Inr (ss, err, w')"
      by (auto simp: bind_res_eq_Inr)
    with 3(1) [OF True t(1)] show ?thesis by auto
  qed (use 3 in simp)
qed simp

section \<open>The server before its first turn\<close>

lemma register_masters_polled:
  "register_masters k h l ss w = Inr (st, w') \<Longrightarrow> polled R W J (sv_selector w) \<Longrightarrow>
     polled R W J (sv_selector w') \<and> w' = w\<lparr>sv_selector := sv_selector w'\<rparr>"
proof (induction l arbitrary: ss w)
  case Nil
  then show ?case by (simp add: ret_sv_def)
next
  case (Cons fd l)
  then obtain y v where v: "register k fd h OP_READ None w = Inr (y, v)"
    "register_masters k h l (ss OR status_code y) v = Inr (st, w')" by (auto simp: bind_sv_def bind_res_eq_Inr)
  moreover have "v = w\<lparr>sv_selector := sv_selector v\<rparr>" using v(1) by (auto simp: register_def bind_res_eq_Inr)
  ultimately show ?case using Cons.IH [OF v(2) polled.registering [OF Cons.prems(2) v(1)]] by (metis server.surjective server.update_convs(1))
qed

text \<open>The selector and the registrations: \<open>None\<close> without a selector, else \<open>ss\<close> and \<open>err_msg\<close>.\<close>

definition main_setup ::
    "os \<Rightarrow> user list \<Rightarrow> user list \<Rightarrow> byte \<Rightarrow> int list \<Rightarrow> int list \<Rightarrow> (32 word \<times> string option \<times> server) option res" where
  "main_setup k us ads dissectors socks mng =
     bind_res (selector_new (os_alloc k Alloc_selector) (os_alloc k Alloc_items) 1024) (\<lambda>x.
     case x of
       None \<Rightarrow> Inr None
     | Some s \<Rightarrow>
         bind_res (register_masters k Socks5_passive socks 0 (main_globals us ads dissectors s)) (\<lambda>(ss, w1).
         if ss \<noteq> 0 then Inr (Some (ss, Some ''registering fd'', w1))
         else bind_res (register_masters k Mng_passive mng ss w1) (\<lambda>(ss, w2).
              Inr (Some (ss, if ss \<noteq> 0 then Some ''registering mng fd'' else None, w2)))))"

lemma main_start_setup:
  "main_start k us ads pd socks mng = bind_res (main_setup k us ads pd socks mng) (\<lambda>x.
     case x of None \<Rightarrow> Inr None | Some (ss, err_msg, w) \<Rightarrow> if ss \<noteq> 0 then Inr None else Inr (Some w))"
  by (auto simp: main_start_def main_setup_def bind_res_def split: sum.split option.split)

lemma main_started:
  assumes "main_start k us ads pd socks mng = Inr (Some w)" and "os_alloc k Alloc_selector" and "os_alloc k Alloc_items"
  shows "resolution_jobs (sv_selector w) = []" and "w = main_globals us ads pd (sv_selector w)"
proof -
  obtain s :: "(handler_id, nat) fdselector" where s: "selector_new True True ITEMS_MAX_SIZE = Inr (Some s)" "sel_full s"
      "blank_items s" "resolution_jobs s = []" using selector_new_full by blast
  let ?g = "main_globals us ads pd"
  obtain ss ss' w1 where 1: "register_masters k Socks5_passive socks 0 (?g s) = Inr (ss, w1)"
    and 2: "register_masters k Mng_passive mng ss w1 = Inr (ss', w)"
    using assms s(1) by (auto simp: main_start_def bind_res_eq_Inr ITEMS_MAX_SIZE_def split: if_splits)
  have "polled (slave_r s) (slave_w s) [] (sv_selector (?g s))" using s(2-4) by (simp add: polled_def main_globals_def)
  from register_masters_polled [OF 1 this] register_masters_polled [OF 2]
  have "resolution_jobs (sv_selector w) = []" "w = ?g s\<lparr>sv_selector := sv_selector w\<rparr>"
    by (auto simp: polled_def) (metis server.update_convs(1) server.surjective)
  then show "resolution_jobs (sv_selector w) = []" "w = ?g (sv_selector w)" by (simp_all add: main_globals_def)
qed

end
