(* ===== verification/References.thy ===== *)
theory References
  imports Main_Loop
begin

unbundle bit_operations_syntax

text \<open>
  The references of the connections (\<open>references\<close> of \<open>struct socks5\<close>): every connection in memory
  is in a pool, or it counts the registrations that hold it. So no event is ever given to a released
  connection, and the end of \<open>main\<close> frees all of them. A connect that succeeds at once is left
  out: that branch counts before it registers.
\<close>

section \<open>Connections and their registrations\<close>

text \<open>
  Every connection in memory is in a pool, or its count of references is the number of
  registrations that hold it; no registration holds a pooled one.
\<close>

definition holders :: "(handler_id, nat) fdselector \<Rightarrow> nat \<Rightarrow> int set" where
  "holders s i = {fd. \<exists>it. sel_lookup s fd = Some it \<and> item_data it = Some i}"

definition pooled :: "server \<Rightarrow> nat set" where
  "pooled w = set (sv_pool w) \<union> set (sv_mng_pool w)"

definition counted_in :: "(handler_id, nat) fdselector \<Rightarrow> server \<Rightarrow> bool" where
  "counted_in s w \<longleftrightarrow>
     (\<forall>fd it i. sel_lookup s fd = Some it \<longrightarrow> item_data it = Some i \<longrightarrow>
        sv_heap w i \<noteq> None \<and> i \<notin> pooled w \<and>
        (item_handler it = Some Socks5_handler \<or> item_handler it = Some Mng_handler)) \<and>
     (\<forall>i d. sv_heap w i = Some d \<longrightarrow>
        i \<in> pooled w \<or> holders s i \<noteq> {} \<and> references d = of_nat (card (holders s i))) \<and>
     distinct (sv_pool w @ sv_mng_pool w) \<and> (\<forall>i. sv_heap w i \<noteq> None \<or> i \<in> pooled w \<longrightarrow> i < sv_next w)"

lemma counted_inD:
  "counted_in s w \<Longrightarrow> sel_lookup s fd = Some it \<Longrightarrow> item_data it = Some i \<Longrightarrow> sv_heap w i \<noteq> None \<and> i \<notin> pooled w \<and>
     (item_handler it = Some Socks5_handler \<or> item_handler it = Some Mng_handler)"
  "counted_in s w \<Longrightarrow> sv_heap w i = Some d \<Longrightarrow>
     i \<in> pooled w \<or> holders s i \<noteq> {} \<and> references d = of_nat (card (holders s i))"
  "counted_in s w \<Longrightarrow> distinct (sv_pool w @ sv_mng_pool w)"
  "counted_in s w \<Longrightarrow> sv_heap w i \<noteq> None \<or> i \<in> pooled w \<Longrightarrow> i < sv_next w"
  unfolding counted_in_def by blast+

lemma holders_finite: "finite (holders s i)" "sel_full s \<Longrightarrow> card (holders s i) \<le> ITEMS_MAX_SIZE + 1"
proof -
  have sub: "holders s i \<subseteq> int ` {..<length (fds s)}" by (force simp: holders_def sel_lookup_Some)
  then show "finite (holders s i)" by (rule finite_subset) simp
  show "card (holders s i) \<le> ITEMS_MAX_SIZE + 1" if "sel_full s"
    using card_mono [OF _ sub] that by (simp add: card_image sel_full_def)
qed

lemma holders_without:
  assumes "sel_lookup s' = (sel_lookup s)(fd := None)"
  shows "holders s' i = holders s i - {fd}"
  by (auto simp: holders_def assms split: if_splits)

text \<open>A close callback gives up one reference.\<close>

definition give_up :: "nat \<Rightarrow> server \<Rightarrow> server \<Rightarrow> bool" where
  "give_up i w w' \<longleftrightarrow> sv_next w' = sv_next w \<and>
     (i \<notin> pooled w \<and> distinct (sv_pool w @ sv_mng_pool w) \<longrightarrow> distinct (sv_pool w' @ sv_mng_pool w')) \<and>
     (\<exists>d. sv_heap w i = Some d \<and>
     (if references d = 1
      then sv_heap w' = sv_heap w \<and> pooled w' = insert i (pooled w) \<or>
           sv_heap w' = (sv_heap w)(i := None) \<and> pooled w' = pooled w
      else sv_heap w' = (sv_heap w)(i \<mapsto> d\<lparr>references := references d - 1\<rparr>) \<and> pooled w' = pooled w))"

lemma close_gives_up:
  assumes "h = Socks5_handler \<or> h = Mng_handler" and "sv_heap w i = Some d"
  shows "\<exists>f w'. handle_close h = Some f \<and> f fd (Some i) w = Inr w' \<and> give_up i w w'"
  using assms
  by (cases "references d = 1";
      auto simp: socksv5_close_def mng_close_def socks5_destroy_def mng_destroy_def give_up_def socks5_free_def pooled_def)

lemma holder_counts:
  assumes "counted_in s w" and "sel_full s" and "sel_lookup s fd = Some it" and "item_data it = Some i"
    and "sv_heap w i = Some d"
  shows "i \<notin> pooled w" and "references d = of_nat (card (holders s i))" and "fd \<in> holders s i"
    and "references d = 1 \<longleftrightarrow> card (holders s i) = 1"
proof -
  show i: "i \<notin> pooled w" and r: "references d = of_nat (card (holders s i))"
    using counted_inD(1,2) [OF assms(1)] assms(3-5) by blast+
  show "fd \<in> holders s i" using assms(3,4) by (auto simp: holders_def)
  have "card (holders s i) < 2 ^ 32" using holders_finite(2) [OF assms(2), of i] by (simp add: ITEMS_MAX_SIZE_def)
  then have "unat (of_nat (card (holders s i)) :: 32 word) = card (holders s i)"
    by (simp add: unat_of_nat take_bit_nat_eq_self)
  then show "references d = 1 \<longleftrightarrow> card (holders s i) = 1" using r by (metis of_nat_1 unat_1)
qed

lemma give_up_counted:
  assumes "counted_in s w" and "sel_full s" and "sel_lookup s fd = Some it" and "item_data it = Some i"
    and "give_up i w w'" and "sel_lookup s' = (sel_lookup s)(fd := None)"
  shows "counted_in s' w'"
proof -
  obtain d where d: "sv_heap w i = Some d" using assms(5) by (auto simp: give_up_def)
  have g: "if references d = 1
      then sv_heap w' = sv_heap w \<and> pooled w' = insert i (pooled w) \<or>
           sv_heap w' = (sv_heap w)(i := None) \<and> pooled w' = pooled w
      else sv_heap w' = (sv_heap w)(i \<mapsto> d\<lparr>references := references d - 1\<rparr>) \<and> pooled w' = pooled w"
    using assms(5) d by (simp add: give_up_def)
  note i = holder_counts [OF assms(1-4) d]
  have card: "card (holders s' i) = card (holders s i) - 1" "0 < card (holders s i)"
    using i(3) holders_finite(1) [of s i] by (auto simp: holders_without [OF assms(6)] card_gt_0_iff)
  have other: "holders s' j = holders s j" if "j \<noteq> i" for j
    using that assms(3,4) unfolding holders_without [OF assms(6)] by (auto simp: holders_def)
  have rest: "sv_heap w j \<noteq> None \<and> j \<notin> pooled w \<and>
      (item_handler it' = Some Socks5_handler \<or> item_handler it' = Some Mng_handler)"
    if "sel_lookup s' fd' = Some it'" "item_data it' = Some j" for fd' it' j
    using that counted_inD(1) [OF assms(1)] by (auto simp: assms(6) split: if_splits)
  have last: "references d \<noteq> 1" if "sel_lookup s' fd' = Some it'" "item_data it' = Some i" for fd' it'
  proof -
    have "fd' \<in> holders s' i" using that by (auto simp: holders_def)
    then have "0 < card (holders s' i)" using holders_finite(1) [of s' i] by (auto simp: card_gt_0_iff)
    then show ?thesis using i(4) card(1) by simp
  qed
  have items: "sv_heap w' j \<noteq> None \<and> j \<notin> pooled w'"
    if "sel_lookup s' fd' = Some it'" "item_data it' = Some j" for fd' it' j
    using rest [OF that] g last [of fd' it'] that d by (cases "j = i") (auto split: if_splits)
  have conns: "j \<in> pooled w' \<or> holders s' j \<noteq> {} \<and> references d' = of_nat (card (holders s' j))"
    if d': "sv_heap w' j = Some d'" for j d'
  proof (cases "j = i")
    case False
    then have "sv_heap w j = Some d'" "j \<in> pooled w \<longrightarrow> j \<in> pooled w'"
      using d' g by (auto split: if_splits)
    then show ?thesis using counted_inD(2) [OF assms(1)] other [OF False] by metis
  next
    case True
    show ?thesis
    proof (cases "references d = 1")
      case True
      then show ?thesis using \<open>j = i\<close> d d' g by auto
    next
      case False
      then have "references d' = references d - 1" using \<open>j = i\<close> d d' g by auto
      moreover have "holders s' i \<noteq> {}" using False i(4) card by (cases "holders s' i = {}") auto
      ultimately show ?thesis using \<open>j = i\<close> i(2) card by (simp add: of_nat_diff)
    qed
  qed
  have "distinct (sv_pool w' @ sv_mng_pool w')" using assms(5) i(1) counted_inD(3) [OF assms(1)] by (simp add: give_up_def)
  moreover have "j < sv_next w'" if "sv_heap w' j \<noteq> None \<or> j \<in> pooled w'" for j
  proof -
    have "sv_next w' = sv_next w" using assms(5) by (simp add: give_up_def)
    moreover have "sv_heap w j \<noteq> None \<or> j \<in> pooled w"
      using that g d by (auto split: if_splits)
    ultimately show ?thesis using counted_inD(4) [OF assms(1)] by simp
  qed
  ultimately show ?thesis unfolding counted_in_def using rest items conns by blast
qed

text \<open>Removing one registration, and all of them.\<close>

lemma unregister_counted:
  assumes "counted_in s w" and "sel_full s" and "sel_lookup s fd = Some it"
  shows "\<exists>s' w'. selector_unregister_fd handle_close s fd w = Inr (SELECTOR_SUCCESS, s', w') \<and> sel_full s' \<and>
    sel_lookup s' = (sel_lookup s)(fd := None) \<and> counted_in s' w'"
proof -
  obtain h where h: "item_handler it = Some h" using sel_inv_lookup [OF sel_full_inv [OF assms(2)] assms(3)] by auto
  note spec = selector_unregister_spec [OF sel_full_inv [OF assms(2)] assms(3) h, where close_cb = handle_close and w = w]
  show ?thesis
  proof (cases "item_data it")
    case None
    then have "(case handle_close h of None \<Rightarrow> Inr w | Some f \<Rightarrow> f fd (item_data it) w) = Inr w"
      by (cases h) (simp_all add: socksv5_close_def mng_close_def socks5_destroy_def mng_destroy_def)
    from spec [OF this] obtain s' where s': "selector_unregister_fd handle_close s fd w = Inr (SELECTOR_SUCCESS, s', w)"
        "sel_inv s'" "length (fds s') = length (fds s)" "sel_lookup s' = (sel_lookup s)(fd := None)" by blast
    have "holders s' i = holders s i" for i 
      using None assms(3) unfolding holders_without [OF s'(4)] by (auto simp: holders_def)
    then have "counted_in s' w" using assms(1) unfolding counted_in_def s'(4) by (auto split: if_splits)
    then show ?thesis using s' assms(2) by (auto simp: sel_full_def)
  next
    case (Some i)
    have "\<exists>d. sv_heap w i = Some d" "h = Socks5_handler \<or> h = Mng_handler"
      using counted_inD(1) [OF assms(1,3) Some] h by auto
    then obtain f w' where w': "handle_close h = Some f" "f fd (Some i) w = Inr w'" "give_up i w w'"
      using close_gives_up by blast
    from spec [of w'] w' Some obtain s' where "selector_unregister_fd handle_close s fd w = Inr (SELECTOR_SUCCESS, s', w')"
        "sel_inv s'" "length (fds s') = length (fds s)" "sel_lookup s' = (sel_lookup s)(fd := None)" by auto
    then show ?thesis using give_up_counted [OF assms(1,2,3) Some w'(3)] assms(2) by (auto simp: sel_full_def)
  qed
qed

lemma unregister_used_counted:
  "counted_in s w \<Longrightarrow> sel_full s \<Longrightarrow> \<forall>i \<in> set l. i \<le> ITEMS_MAX_SIZE \<Longrightarrow>
     \<exists>s' w'. unregister_used handle_close l s w = Inr (s', w') \<and> sel_full s' \<and> counted_in s' w' \<and>
       (\<forall>fd it. sel_lookup s' fd = Some it \<longrightarrow> sel_lookup s fd = Some it \<and> fd \<notin> int ` set l)"
proof (induction l arbitrary: s w)
  case Nil
  then show ?case by simp
next
  case (Cons i l)
  have i: "i \<le> ITEMS_MAX_SIZE" using Cons.prems(3) by simp
  note item = full_item [OF Cons.prems(2) i]
  show ?case
  proof (cases "ITEM_USED (fds s ! i)")
    case True
    from unregister_counted [OF Cons.prems(1,2) item(3) [OF True]] obtain s1 w1 where
      1: "selector_unregister_fd handle_close s (int i) w = Inr (SELECTOR_SUCCESS, s1, w1)" "sel_full s1"
        "sel_lookup s1 = (sel_lookup s)(int i := None)" "counted_in s1 w1" by blast
    with Cons.IH [OF 1(4,2)] Cons.prems(3) obtain s' w' where
      2: "unregister_used handle_close l s1 w1 = Inr (s', w')" "sel_full s'" "counted_in s' w'"
        "\<forall>fd it. sel_lookup s' fd = Some it \<longrightarrow> sel_lookup s1 fd = Some it \<and> fd \<notin> int ` set l" by auto
    have "unregister_used handle_close (i # l) s w = Inr (s', w')" using item(1) True 1(1) 2(1) by simp
    then show ?thesis using 2 by (fastforce simp: 1(3) split: if_splits)
  next
    case False
    with Cons.IH [OF Cons.prems(1,2)] Cons.prems(3) obtain s' w' where
      2: "unregister_used handle_close l s w = Inr (s', w')" "sel_full s'" "counted_in s' w'"
        "\<forall>fd it. sel_lookup s' fd = Some it \<longrightarrow> sel_lookup s fd = Some it \<and> fd \<notin> int ` set l" by auto
    have "unregister_used handle_close (i # l) s w = Inr (s', w')" using item(1) False 2(1) by simp
    then show ?thesis using 2 item(4) [OF False] by fastforce
  qed
qed

lemma fold_free: "sv_heap (fold socks5_free l w) = (\<lambda>i. if i \<in> set l then None else sv_heap w i)"
    "sv_pool (fold socks5_free l w) = sv_pool w"
  by (induction l arbitrary: w) (auto simp: socks5_free_def fun_eq_iff)

text \<open>The end of \<open>main\<close> frees the memory of every connection, of those in use and of the pools.\<close>

lemma main_stop_frees:
  assumes "sel_full (sv_selector w)" and "counted_in (sv_selector w) w"
  shows "\<exists>w'. main_stop w = Inr w' \<and> sv_heap w' = Map.empty"
proof -
  let ?s = "sv_selector w"
  have len: "length (fds ?s) = ITEMS_MAX_SIZE + 1" "fd_size ?s = ITEMS_MAX_SIZE + 1"
    using assms(1) by (simp_all add: sel_full_def sel_inv_def)
  have "\<forall>i \<in> set [0..<ITEMS_MAX_SIZE + 1]. i \<le> ITEMS_MAX_SIZE" by simp
  from unregister_used_counted [OF assms(2,1) this] obtain s' w' where
    1: "unregister_used handle_close [0..<ITEMS_MAX_SIZE + 1] ?s w = Inr (s', w')" "sel_full s'" "counted_in s' w'"
      "\<forall>fd it. sel_lookup s' fd = Some it \<longrightarrow> fd \<notin> int ` set [0..<ITEMS_MAX_SIZE + 1]" by blast
  have "sel_lookup s' fd = None" for fd
  proof (rule ccontr)
    assume "sel_lookup s' fd \<noteq> None"
    then obtain it where it: "sel_lookup s' fd = Some it" by auto
    then have "0 \<le> fd" "nat fd < ITEMS_MAX_SIZE + 1" using 1(2) by (auto simp: sel_lookup_Some sel_full_def)
    then have "fd \<in> int ` set [0..<ITEMS_MAX_SIZE + 1]" by (auto intro!: image_eqI [of _ _ "nat fd"])
    then show False using 1(4) it by blast
  qed
  then have "holders s' i = {}" for i by (simp add: holders_def)
  then have pooled: "sv_heap w' i = Some d \<Longrightarrow> i \<in> pooled w'" for i d using counted_inD(2) [OF 1(3)] by blast
  have "main_stop w = Inr (socksv5_pool_destroy (mng_pool_destroy w'))"
    using 1(1) len by (auto simp: main_stop_def selector_destroy_def simp del: upt_Suc)
  moreover have "sv_heap (socksv5_pool_destroy (mng_pool_destroy w')) = Map.empty"
    using pooled by (auto simp: socksv5_pool_destroy_def mng_pool_destroy_def fold_free pooled_def fun_eq_iff)
      (metis not_Some_eq)
  ultimately show ?thesis by blast
qed

section \<open>The invariant\<close>

definition counted :: "server \<Rightarrow> bool" where
  "counted w \<longleftrightarrow> sel_full (sv_selector w) \<and> counted_in (sv_selector w) w"

lemma counted_same:
  assumes "sv_selector w' = sv_selector w" and "sv_heap w' = sv_heap w" and "sv_pool w' = sv_pool w"
    and "sv_mng_pool w' = sv_mng_pool w" and "sv_next w' = sv_next w"
  shows "counted w' = counted w"
  using assms by (simp add: counted_def counted_in_def pooled_def)

text \<open>Only handlers and data of the registrations count.\<close>

definition same_items :: "(handler_id, nat) fdselector \<Rightarrow> (handler_id, nat) fdselector \<Rightarrow> bool" where
  "same_items s s' \<longleftrightarrow> (\<forall>fd. map_option (\<lambda>it. (item_handler it, item_data it)) (sel_lookup s' fd) =
     map_option (\<lambda>it. (item_handler it, item_data it)) (sel_lookup s fd))"

lemma same_itemsD:
  assumes "same_items s s'"
  shows "sel_lookup s' fd = Some it \<Longrightarrow> \<exists>jt. sel_lookup s fd = Some jt \<and> item_handler jt = item_handler it \<and> item_data jt = item_data it"
    and "sel_lookup s fd = Some it \<Longrightarrow> \<exists>jt. sel_lookup s' fd = Some jt \<and> item_handler jt = item_handler it \<and> item_data jt = item_data it"
proof -
  have eq: "map_option (\<lambda>it. (item_handler it, item_data it)) (sel_lookup s' fd) =
      map_option (\<lambda>it. (item_handler it, item_data it)) (sel_lookup s fd)"
    using assms by (simp add: same_items_def)
  show "sel_lookup s' fd = Some it \<Longrightarrow> \<exists>jt. sel_lookup s fd = Some jt \<and> item_handler jt = item_handler it \<and> item_data jt = item_data it"
    using eq by (cases "sel_lookup s fd") auto
  show "sel_lookup s fd = Some it \<Longrightarrow> \<exists>jt. sel_lookup s' fd = Some jt \<and> item_handler jt = item_handler it \<and> item_data jt = item_data it"
    using eq by (cases "sel_lookup s' fd") auto
qed

lemma same_items_holders: "same_items s s' \<Longrightarrow> holders s' i = holders s i"
  unfolding holders_def using same_itemsD by (metis (no_types, lifting))

lemma same_items_counted: "same_items s s' \<Longrightarrow> counted_in s w \<Longrightarrow> counted_in s' w"
  unfolding counted_in_def using same_items_holders [of s s'] same_itemsD(1) [of s s'] by metis

lemma interest_items:
  assumes "sel_full (sv_selector w)" and "set_interest fd i w = Inr (st, w')"
  shows "\<exists>s. w' = w\<lparr>sv_selector := s\<rparr> \<and> sel_full s \<and> same_items (sv_selector w) s"
proof (cases "sel_lookup (sv_selector w) fd")
  case None
  then have "w' = w" using set_interest_unknown [OF assms(1) None, of i] assms(2) by auto
  then show ?thesis using assms(1) by (intro exI [of _ "sv_selector w"]) (simp add: same_items_def)
next
  case (Some it)
  then show ?thesis using set_interest_ok [of w fd it i] assms by (auto simp: registered_def same_items_def)
qed

text \<open>
  A handler of the connection \<open>i\<close> runs: the connection counts \<open>r\<close>, as long as it is \<open>alive\<close> no pool
  has it, and a registration of the descriptor \<open>fd\<close> of the event is one of \<open>i\<close>.
\<close>

definition slot :: "int \<Rightarrow> nat option \<Rightarrow> server \<Rightarrow> bool" where
  "slot fd x w \<longleftrightarrow> (\<forall>it. sel_lookup (sv_selector w) fd = Some it \<longrightarrow> item_data it = x)"

definition tracked :: "nat \<Rightarrow> 32 word \<Rightarrow> int \<Rightarrow> bool \<Rightarrow> server \<Rightarrow> bool" where
  "tracked i r fd alive w \<longleftrightarrow> counted w \<and> (\<exists>d. sv_heap w i = Some d \<and> references d = r) \<and>
     (alive \<longrightarrow> i \<notin> pooled w) \<and> slot fd (Some i) w"

lemma tracked_same:
  assumes "sv_selector w' = sv_selector w" and "sv_heap w' = sv_heap w" and "sv_pool w' = sv_pool w"
    and "sv_mng_pool w' = sv_mng_pool w" and "sv_next w' = sv_next w"
  shows "tracked i r fd alive w' = tracked i r fd alive w"
  using counted_same [OF assms] assms by (simp add: tracked_def pooled_def slot_def)

lemma tracked_updates [simp]:
  "tracked i r fd al (w\<lparr>sv_log := l\<rparr>) = tracked i r fd al w" "tracked i r fd al (w\<lparr>sv_metrics := m\<rparr>) = tracked i r fd al w"
  "tracked i r fd al (w\<lparr>sv_threads := t\<rparr>) = tracked i r fd al w" "tracked i r fd al (w\<lparr>auth_method := b\<rparr>) = tracked i r fd al w"
  "tracked i r fd al (w\<lparr>password_dissectors := b\<rparr>) = tracked i r fd al w"
  "tracked i r fd al (w\<lparr>sv_users := us, nusers := n\<rparr>) = tracked i r fd al w"
  "tracked i r fd al (w\<lparr>sv_users := us\<rparr>) = tracked i r fd al w"
  by (rule tracked_same; simp)+

lemma tracked_items:
  assumes "tracked i r fd alive w" and "same_items (sv_selector w) s" and "sel_full s"
  shows "tracked i r fd alive (w\<lparr>sv_selector := s\<rparr>)"
proof -
  have "counted_in s w" using same_items_counted [OF assms(2)] assms(1) by (simp add: tracked_def counted_def)
  then have "counted_in s (w\<lparr>sv_selector := s\<rparr>)" by (simp add: counted_in_def pooled_def)
  then show ?thesis
    using assms(1,3) same_itemsD(1) [OF assms(2)]
    by (fastforce simp: tracked_def counted_def slot_def pooled_def)
qed

lemma counted_put:
  assumes "counted w" and "sv_heap w i = Some d" and "references d' = references d"
  shows "counted (w\<lparr>sv_heap := (sv_heap w)(i \<mapsto> d')\<rparr>)"
proof -
  have "counted_in (sv_selector w) (w\<lparr>sv_heap := (sv_heap w)(i \<mapsto> d')\<rparr>)"
    using assms unfolding counted_def counted_in_def pooled_def by (auto split: if_splits)
  then show ?thesis using assms(1,2) by (auto simp: counted_def pooled_def)
qed

lemma tracked_put:
  assumes "tracked i r fd alive w" and "references d = r"
  shows "tracked i r fd alive (w\<lparr>sv_heap := (sv_heap w)(i \<mapsto> d)\<rparr>)"
  using assms counted_put [of w i _ d] by (auto simp: tracked_def pooled_def slot_def)

section \<open>What handlers keep that change no reference\<close>

lemma tracked_modify:
  assumes "\<And>w. tracked i r fd al w \<Longrightarrow> tracked i r fd al (g w)"
  shows "keeps (tracked i r fd al) (modify_sv g)"
    and "(\<And>x. keeps (tracked i r fd al) (f x)) \<Longrightarrow> keeps (tracked i r fd al) (bind_sv (modify_sv g) f)"
proof -
  show 1: "keeps (tracked i r fd al) (modify_sv g)" using assms by (simp add: keeps_def sv_simps)
  show "keeps (tracked i r fd al) (bind_sv (modify_sv g) f)" if "\<And>x. keeps (tracked i r fd al) (f x)"
    using keeps_bind [OF 1 that] .
qed

lemma keeps_tracked_put [keeps_intros]:
  "references d = r \<Longrightarrow> keeps (tracked (key_data k) r fd al) (put_conn k d)"
  "references d = r \<Longrightarrow> (\<And>x. keeps (tracked (key_data k) r fd al) (f x)) \<Longrightarrow>
     keeps (tracked (key_data k) r fd al) (bind_sv (put_conn k d) f)"
  unfolding put_conn_def by (rule tracked_modify; simp add: tracked_put)+

lemma keeps_tracked_conn [keeps_intros]:
  assumes "\<And>d. references d = r \<Longrightarrow> keeps (tracked (key_data k) r fd al) (f d)"
  shows "keeps (tracked (key_data k) r fd al) (bind_sv (get_conn k) f)"
  unfolding keeps_def
proof (intro allI impI)
  fix w x w'
  assume w: "tracked (key_data k) r fd al w" and "bind_sv (get_conn k) f w = Inr (x, w')"
  then obtain d where "references d = r" "f d w = Inr (x, w')"
    by (auto simp: tracked_def bind_sv_def get_conn_def)
  with keepsD [OF assms w] show "tracked (key_data k) r fd al w'" by blast
qed

lemma keeps_tracked_log [keeps_intros]:
  "keeps (tracked i r fd al) (emit e)"
  "(\<And>x. keeps (tracked i r fd al) (f x)) \<Longrightarrow> keeps (tracked i r fd al) (bind_sv (emit e) f)"
  "keeps (tracked i r fd al) (close_fd c)"
  "(\<And>x. keeps (tracked i r fd al) (f x)) \<Longrightarrow> keeps (tracked i r fd al) (bind_sv (close_fd c) f)"
  "keeps (tracked i r fd al) (modify_metrics g)"
  "(\<And>x. keeps (tracked i r fd al) (f x)) \<Longrightarrow> keeps (tracked i r fd al) (bind_sv (modify_metrics g) f)"
  unfolding close_fd_def emit_def modify_metrics_def
  by (rule tracked_modify; simp)+

lemma keeps_tracked_interest [keeps_intros]:
  "keeps (tracked i r fd al) (set_interest c n)"
  "(\<And>x. keeps (tracked i r fd al) (f x)) \<Longrightarrow> keeps (tracked i r fd al) (bind_sv (set_interest c n) f)"
  "keeps (tracked i r fd al) (set_interest_key k n)"
  "(\<And>x. keeps (tracked i r fd al) (f x)) \<Longrightarrow> keeps (tracked i r fd al) (bind_sv (set_interest_key k n) f)"
proof -
  show 1: "keeps (tracked i r fd al) (set_interest c n)" for c n
    unfolding keeps_def
  proof (intro allI impI)
    fix w x w'
    assume w: "tracked i r fd al w" and x: "set_interest c n w = Inr (x, w')"
    then have "sel_full (sv_selector w)" by (simp add: tracked_def counted_def)
    from interest_items [OF this x] tracked_items [OF w] show "tracked i r fd al w'" by blast
  qed
  show 2: "keeps (tracked i r fd al) (set_interest_key k n)" unfolding set_interest_key_eq by (rule 1)
  show "keeps (tracked i r fd al) (bind_sv (set_interest c n) f)" if "\<And>x. keeps (tracked i r fd al) (f x)"
    using keeps_bind [OF 1 that] .
  show "keeps (tracked i r fd al) (bind_sv (set_interest_key k n) f)" if "\<And>x. keeps (tracked i r fd al) (f x)"
    using keeps_bind [OF 2 that] .
qed

lemma keeps_tracked_send [keeps_intros]:
  assumes f: "\<And>x. keeps (tracked i r fd al) (f x)"
  shows "keeps (tracked i r fd al) (bind_sv (send_from k b) f)"
  by (rule keeps_bind) (auto simp: send_from_def Let_def intro!: keeps_intros f)

lemma references_parts [simp]:
  "references (copy_put sd c d) = references d" "references (put_buffer n b d) = references d"
  "references (authenticated u p us d) = references d"
proof -
  show "references (copy_put sd c d) = references d" by (cases sd) (simp_all add: copy_put_def)
  show "references (put_buffer n b d) = references d" by (cases n) (simp_all add: put_buffer_def)
  show "references (authenticated u p us d) = references d" by (simp add: authenticated_def split: option.splits)
qed

text \<open>The operations that several stages share.\<close>

lemma keeps_tracked_shared:
  "keeps (tracked (key_data k) r fd al) (error_handler st k)"
  "keeps (tracked (key_data k) r fd al) (error_handler_to_client st k)"
  "keeps (tracked (key_data k) r fd al) (put_request_st k g)"
  "keeps (tracked (key_data k) r fd al) (put_orig_conn k h)"
  "keeps (tracked (key_data k) r fd al) (put_orig_status k st)"
  "keeps (tracked (key_data k) r fd al) (auth_process p k)"
  "keeps (tracked (key_data k) r fd al) (sniff k xs)"
  "keeps (tracked (key_data k) r fd al) (copy_compute_interests k sd)"
  "keeps (tracked (key_data k) r fd al) (drop_interest_at k sd n)"
  "keeps (tracked (key_data k) r fd al) (log_access k)"
proof -
  show "keeps (tracked (key_data k) r fd al) (error_handler st k)"
    unfolding error_handler_def by (intro keeps_intros) simp
  show "keeps (tracked (key_data k) r fd al) (error_handler_to_client st k)"
    unfolding error_handler_to_client_def by (intro keeps_intros) simp
  show "keeps (tracked (key_data k) r fd al) (put_request_st k g)"
    unfolding put_request_st_def with_request_st_def by (intro keeps_intros) simp
  show o: "keeps (tracked (key_data k) r fd al) (put_orig_conn k h)" for h
    unfolding put_orig_conn_def by (intro keeps_intros) simp
  show "keeps (tracked (key_data k) r fd al) (put_orig_status k st)" unfolding put_orig_status_def by (rule o)
  show "keeps (tracked (key_data k) r fd al) (auth_process p k)"
    unfolding auth_process_def checkCredentials_def checkMngCredentials_def by (intro keeps_intros) simp_all
  show "keeps (tracked (key_data k) r fd al) (sniff k xs)"
    unfolding sniff_def by (intro keeps_intros tracked_modify) simp_all
  show "keeps (tracked (key_data k) r fd al) (copy_compute_interests k sd)"
    unfolding copy_compute_interests_def by (intro keeps_intros)
  show "keeps (tracked (key_data k) r fd al) (drop_interest_at k sd n)"
    unfolding drop_interest_at_def by (intro keeps_intros) simp
  show "keeps (tracked (key_data k) r fd al) (log_access k)" unfolding log_access_def by (intro keeps_intros)
qed

lemmas [keeps_intros] = keeps_tracked_shared keeps_tracked_shared [THEN keeps_bind]

lemma hello_tracked:
  "keeps (tracked (key_data k) r fd al) (hello_read k)" "keeps (tracked (key_data k) r fd al) (hello_write k)"
  "keeps_hook (tracked (key_data k) r fd al) (hello_read_init st k)"
  "keeps_hook (tracked (key_data k) r fd al) (hello_read_close st k)"
  "keeps_hook (tracked (key_data k) r fd al) (hello_write_init st k)"
  "keeps_hook (tracked (key_data k) r fd al) (hello_write_close st k)"
proof -
  show "keeps (tracked (key_data k) r fd al) (hello_read k)"
    unfolding hello_read_def with_hello_def by (intro keeps_intros) simp_all
  show "keeps (tracked (key_data k) r fd al) (hello_write k)"
    unfolding hello_write_def with_hello_def by (intro keeps_intros) simp_all
  show "keeps_hook (tracked (key_data k) r fd al) (hello_read_init st k)"
    by (rule keeps_hookI [OF hello_read_init_def]) (intro keeps_intros; simp)
  show "keeps_hook (tracked (key_data k) r fd al) (hello_read_close st k)"
    by (rule keeps_hookI [OF hello_read_close_def], unfold with_hello_def) (intro keeps_intros; simp)
  show "keeps_hook (tracked (key_data k) r fd al) (hello_write_init st k)"
    by (rule keeps_hookI [OF hello_write_init_def], unfold with_hello_def) (intro keeps_intros)
  show "keeps_hook (tracked (key_data k) r fd al) (hello_write_close st k)"
    by (simp add: keeps_hook_def hello_write_close_def)
qed

lemma auth_tracked:
  "keeps (tracked (key_data k) r fd al) (auth_read k)" "keeps (tracked (key_data k) r fd al) (auth_write k)"
  "keeps_hook (tracked (key_data k) r fd al) (auth_read_init st k)"
  "keeps_hook (tracked (key_data k) r fd al) (auth_read_close st k)"
  "keeps_hook (tracked (key_data k) r fd al) (auth_write_init st k)"
  "keeps_hook (tracked (key_data k) r fd al) (auth_write_close st k)"
proof -
  show "keeps (tracked (key_data k) r fd al) (auth_read k)"
    unfolding auth_read_def with_userpass_def with_parser_def by (intro keeps_intros) simp_all
  show "keeps (tracked (key_data k) r fd al) (auth_write k)"
    unfolding auth_write_def with_userpass_def by (intro keeps_intros) simp_all
  show "keeps_hook (tracked (key_data k) r fd al) (auth_read_init st k)"
    by (rule keeps_hookI [OF auth_read_init_def]) (intro keeps_intros; simp)
  show "keeps_hook (tracked (key_data k) r fd al) (auth_read_close st k)"
    by (rule keeps_hookI [OF auth_read_close_def], unfold with_userpass_def) (intro keeps_intros; simp)
  show "keeps_hook (tracked (key_data k) r fd al) (auth_write_init st k)"
    by (rule keeps_hookI [OF auth_write_init_def], unfold with_userpass_def) (intro keeps_intros)
  show "keeps_hook (tracked (key_data k) r fd al) (auth_write_close st k)"
    by (simp add: keeps_hook_def auth_write_close_def)
qed

lemma request_tracked:
  "keeps (tracked (key_data k) r fd al) (request_read k)" "keeps (tracked (key_data k) r fd al) (request_write k)"
  "keeps (tracked (key_data k) r fd al) (request_resolv_done k)"
  "keeps_hook (tracked (key_data k) r fd al) (request_init st k)"
  "keeps_hook (tracked (key_data k) r fd al) (request_close st k)"
proof -
  have 1: "keeps (tracked (key_data k) r fd al) (request_failure k)"
    unfolding request_failure_def by (intro keeps_intros)
  note [keeps_intros] = 1 keeps_bind [OF 1]
  have 2: "keeps (tracked (key_data k) r fd al) (request_process k)"
    unfolding request_process_def with_request_st_def deref_def by (intro keeps_intros tracked_modify) simp_all
  note [keeps_intros] = 2
  show "keeps (tracked (key_data k) r fd al) (request_read k)"
    unfolding request_read_def with_request_st_def deref_def by (intro keeps_intros) simp_all
  show "keeps (tracked (key_data k) r fd al) (request_write k)"
    unfolding request_write_def with_request_st_def by (intro keeps_intros) simp_all
  show "keeps (tracked (key_data k) r fd al) (request_resolv_done k)"
    unfolding request_resolv_done_def by (intro keeps_intros) (simp_all add: Let_def)
  show "keeps_hook (tracked (key_data k) r fd al) (request_init st k)"
    by (rule keeps_hookI [OF request_init_def]) (intro keeps_intros; simp)
  show "keeps_hook (tracked (key_data k) r fd al) (request_close st k)"
    by (rule keeps_hookI [OF request_close_def], unfold with_request_st_def deref_def) (intro keeps_intros; simp)
qed

lemma copy_tracked:
  "keeps (tracked (key_data k) r fd al) (copy_read k)" "keeps (tracked (key_data k) r fd al) (copy_write k)"
  "keeps_hook (tracked (key_data k) r fd al) (copy_init st k)"
  "keeps_hook (tracked (key_data k) r fd al) (connecting_close st k)"
proof -
  have 1: "keeps (tracked (key_data k) r fd al) (copy_finish k sd)" for sd
    unfolding copy_finish_def by (intro keeps_intros)
  note [keeps_intros] = 1
  show "keeps (tracked (key_data k) r fd al) (copy_read k)" unfolding copy_read_def by (intro keeps_intros) simp_all
  show "keeps (tracked (key_data k) r fd al) (copy_write k)" unfolding copy_write_def by (intro keeps_intros) simp_all
  show "keeps_hook (tracked (key_data k) r fd al) (copy_init st k)"
    by (rule keeps_hookI [OF copy_init_def]) (intro keeps_intros; simp)
  show "keeps_hook (tracked (key_data k) r fd al) (connecting_close st k)"
    by (rule keeps_hookI [OF connecting_close_def], unfold with_request_st_def) (intro keeps_intros; simp)
qed

lemma mng_tracked:
  "keeps (tracked (key_data k) r fd al) (mng_request_index_read k)"
  "keeps (tracked (key_data k) r fd al) (mng_request_read k)"
  "keeps (tracked (key_data k) r fd al) (mng_request_write k)"
  "keeps_hook (tracked (key_data k) r fd al) (mng_request_index_init st k)"
  "keeps_hook (tracked (key_data k) r fd al) (mng_request_index_close st k)"
  "keeps_hook (tracked (key_data k) r fd al) (mng_request_init st k)"
  "keeps_hook (tracked (key_data k) r fd al) (mng_request_close st k)"
  "keeps_hook (tracked (key_data k) r fd al) (mng_request_write_init st k)"
  "keeps_hook (tracked (key_data k) r fd al) (mng_request_write_close st k)"
proof -
  let ?P = "tracked (key_data k) r fd al"
  have put: "keeps ?P (put_mng k g)" for g
    unfolding put_mng_def with_mng_def by (intro keeps_intros) simp
  have reply: "keeps ?P (mng_reply_status_write k)"
    unfolding mng_reply_status_write_def with_mng_def by (intro keeps_intros) simp
  note [keeps_intros] = keeps_bind [OF put] reply
  have dn: "keeps ?P (mng_request_index_done k p e)" for p e
    unfolding mng_request_index_done_def by (intro keeps_intros) simp_all
  have params: "keeps ?P (process_mng_params_request k p i)" for p i
  proof -
    have *: "keeps ?P (bind_sv (get_conn k) (\<lambda>d. bind_sv (lift_sv (status_mng_marshal (write_buffer d) status))
        (\<lambda>wb. put_conn k (d\<lparr>write_buffer := wb\<rparr>))))" for status
      by (intro keeps_intros) simp
    have same: "?P w1" if "process_mng_params (key_os k) p i w = Inr (x, w1)" "?P w" for w x w1
      using that
      by (auto simp: process_mng_params_def Let_def bind_res_eq_Inr disableAuth_def disablePasswordDissectors_def
          addUser_def deleteUser_def split: option.splits mng_request_indexes.splits if_splits)
    show ?thesis
      unfolding keeps_def
    proof (intro allI impI)
      fix w x w'
      assume w: "?P w" and "process_mng_params_request k p i w = Inr (x, w')"
      then obtain st w1 where p: "process_mng_params (key_os k) p i w = Inr (st, w1)"
        and r: "bind_sv (get_conn k) (\<lambda>d. bind_sv (lift_sv (status_mng_marshal (write_buffer d) st))
          (\<lambda>wb. put_conn k (d\<lparr>write_buffer := wb\<rparr>))) w1 = Inr (x, w')"
        by (auto simp: process_mng_params_request_def bind_res_eq_Inr)
      from keepsD [OF * same [OF p w] r] show "?P w'" .
    qed
  qed
  note [keeps_intros] = dn keeps_bind [OF params]
  show "keeps ?P (mng_request_index_read k)"
    unfolding mng_request_index_read_def with_mng_def with_parser_def by (intro keeps_intros) simp_all
  show "keeps ?P (mng_request_read k)"
    unfolding mng_request_read_def with_mng_def with_parser_def by (intro keeps_intros) simp_all
  show "keeps ?P (mng_request_write k)" unfolding mng_request_write_def with_mng_def by (intro keeps_intros) simp_all
  show "keeps_hook ?P (mng_request_index_init st k)"
    by (rule keeps_hookI [OF mng_request_index_init_def]) (intro keeps_intros; simp)
  show c: "keeps_hook ?P (mng_request_close st k)"
    by (rule keeps_hookI [OF mng_request_close_def], unfold with_mng_def) (intro keeps_intros; simp)
  then show "keeps_hook ?P (mng_request_index_close st k)" by (simp add: mng_request_index_close_def)
  show "keeps_hook ?P (mng_request_init st k)"
    by (rule keeps_hookI [OF mng_request_init_def], unfold with_mng_def) (intro keeps_intros; simp)
  show "keeps_hook ?P (mng_request_write_init st k)"
    by (rule keeps_hookI [OF mng_request_write_init_def], unfold with_mng_def) (intro keeps_intros)
  show "keeps_hook ?P (mng_request_write_close st k)" by (simp add: keeps_hook_def mng_request_write_close_def)
qed

section \<open>The connecting stage\<close>

text \<open>
  The steps of the operations that change a count name only the connection of the event.
\<close>

definition held :: "nat \<Rightarrow> int \<Rightarrow> bool \<Rightarrow> server \<Rightarrow> bool" where
  "held i fd alive w \<longleftrightarrow> (\<exists>r. tracked i r fd alive w)"

lemma keeps_leads: "leads P m P \<longleftrightarrow> keeps P m"
  by (simp add: leads_def keeps_def)

lemma leads_weaken: "leads P m Q \<Longrightarrow> (\<And>w. P' w \<Longrightarrow> P w) \<Longrightarrow> (\<And>w. Q w \<Longrightarrow> Q' w) \<Longrightarrow> leads P' m Q'"
  unfolding leads_def by blast

lemma held_tracked:
  "(\<And>r. leads (tracked i r fd al) m Q) \<Longrightarrow> leads (held i fd al) m Q"
  "(\<And>r. keeps (tracked i r fd al) m) \<Longrightarrow> keeps (held i fd al) m"
  "(\<And>r. keeps_hook (tracked i r fd al) h) \<Longrightarrow> keeps_hook (held i fd al) h"
  unfolding leads_def keeps_def keeps_hook_def held_def by blast+

lemma tracked_held: "tracked i r fd al w \<Longrightarrow> held i fd al w"
  by (auto simp: held_def)

lemma held_weaken: "held i fd True w \<Longrightarrow> held i fd al w"
  by (auto simp: held_def tracked_def)

lemma held_counted: "held i fd al w \<Longrightarrow> counted w \<and> slot fd (Some i) w"
  by (auto simp: held_def tracked_def)

text \<open>The handler reads its connection and then writes it back.\<close>

lemma leads_tracked_conn:
  assumes "\<And>d. references d = r \<Longrightarrow> leads (tracked (key_data k) r fd al) (f d) Q"
  shows "leads (tracked (key_data k) r fd al) (bind_sv (get_conn k) f) Q"
  unfolding leads_def
proof (intro allI impI)
  fix w x w'
  assume w: "tracked (key_data k) r fd al w" and "bind_sv (get_conn k) f w = Inr (x, w')"
  then obtain d where "references d = r" "f d w = Inr (x, w')" by (auto simp: tracked_def bind_sv_def get_conn_def)
  with assms w show "Q w'" unfolding leads_def by blast
qed

lemma leads_tracked_put:
  assumes "references d = r" and "\<And>x. leads (held (key_data k) fd al) (f x) Q"
  shows "leads (tracked (key_data k) r fd al) (bind_sv (put_conn k d) f) Q"
proof (rule leads_bind [OF _ assms(2)])
  have "keeps (tracked (key_data k) r fd al) (put_conn k d)" by (intro keeps_intros assms(1))
  then show "leads (tracked (key_data k) r fd al) (put_conn k d) (held (key_data k) fd al)"
    unfolding keeps_leads [symmetric] by (rule leads_weaken) (simp_all add: tracked_held)
qed

text \<open>A registration with its reference.\<close>

lemma register_cases:
  assumes "sel_full (sv_selector w)" and "register os fd h n x w = Inr (st, w')"
  shows "if st = SELECTOR_SUCCESS
    then sel_lookup (sv_selector w) fd = None \<and> (\<exists>s. w' = w\<lparr>sv_selector := s\<rparr> \<and> sel_full s \<and>
      sel_lookup s = (sel_lookup (sv_selector w))(fd \<mapsto>
        \<lparr>item_fd = fd, item_interest = n, item_handler = Some h, item_data = x\<rparr>))
    else w' = w"
proof (cases "INVALID_FD fd \<or> sel_lookup (sv_selector w) fd \<noteq> None")
  case True
  then show ?thesis
    using assms register_in_use [OF assms(1)] by (auto simp: register_def selector_register_def)
next
  case False
  then show ?thesis using register_ok [OF assms(1), of fd os h n x] assms(2) by auto
qed

lemma register_counted:
  assumes "counted w" and "sv_heap w i = Some d" and "i \<notin> pooled w"
    and "sel_lookup (sv_selector w) fd = None" and "sel_full s"
    and "sel_lookup s = (sel_lookup (sv_selector w))(fd \<mapsto>
      \<lparr>item_fd = fd, item_interest = n, item_handler = Some h, item_data = Some i\<rparr>)"
    and "h = Socks5_handler \<or> h = Mng_handler" and "references d' = references d + 1"
  shows "counted (w\<lparr>sv_selector := s, sv_heap := (sv_heap w)(i \<mapsto> d')\<rparr>)"
proof -
  let ?s = "sv_selector w" and ?w = "w\<lparr>sv_selector := s, sv_heap := (sv_heap w)(i \<mapsto> d')\<rparr>"
  have c: "counted_in ?s w" using assms(1) by (simp add: counted_def)
  have mine: "holders s i = insert fd (holders ?s i)" "fd \<notin> holders ?s i"
    using assms(4) by (auto simp: holders_def assms(6))
  have other: "holders s j = holders ?s j" if "j \<noteq> i" for j
    using that assms(4) by (auto simp: holders_def assms(6))
  have "references d' = of_nat (card (holders s i))"
    using counted_inD(2) [OF c assms(2)] assms(3,8) mine holders_finite(1) [of ?s i] by simp
  moreover have "pooled ?w = pooled w" by (simp add: pooled_def)
  moreover have "sv_heap w j \<noteq> None \<and> j \<notin> pooled w \<and> (item_handler it = Some Socks5_handler \<or> item_handler it = Some Mng_handler)"
    if "sel_lookup s f = Some it" "item_data it = Some j" for f it j
    using that counted_inD(1) [OF c] assms(2,3,7) by (cases "f = fd") (auto simp: assms(6))
  ultimately have "counted_in s ?w"
    using counted_inD(2-4) [OF c] other mine(1) assms(2) unfolding counted_in_def by auto
  then show ?thesis using assms(5) by (simp add: counted_def)
qed

lemma register_holds:
  assumes "\<And>x. keeps (held (key_data k) fd True) (A x)" and "\<And>x. keeps (held (key_data k) fd True) (B x)"
  shows "keeps (held (key_data k) fd True) (bind_sv (register os f Socks5_handler n (Some (key_data k)))
    (\<lambda>st. if st \<noteq> SELECTOR_SUCCESS then A st else bind_sv (add_reference k) B))"
  unfolding keeps_def
proof (intro allI impI)
  fix w x w'
  assume w: "held (key_data k) fd True w" and "bind_sv (register os f Socks5_handler n (Some (key_data k)))
    (\<lambda>st. if st \<noteq> SELECTOR_SUCCESS then A st else bind_sv (add_reference k) B) w = Inr (x, w')"
  then obtain st w1 where r: "register os f Socks5_handler n (Some (key_data k)) w = Inr (st, w1)"
    and rest: "(if st \<noteq> SELECTOR_SUCCESS then A st else bind_sv (add_reference k) B) w1 = Inr (x, w')"
    by (auto simp: bind_sv_def bind_res_eq_Inr)
  have full: "counted w" "slot fd (Some (key_data k)) w" "sel_full (sv_selector w)"
    using held_counted [OF w] by (simp_all add: counted_def)
  note reg = register_cases [OF full(3) r]
  show "held (key_data k) fd True w'"
  proof (cases "st = SELECTOR_SUCCESS")
    case False
    with reg rest keepsD [OF assms(1) w] show ?thesis by auto
  next
    case True
    obtain d where d: "sv_heap w (key_data k) = Some d" "key_data k \<notin> pooled w"
      using w by (auto simp: held_def tracked_def)
    from True reg obtain s where s: "w1 = w\<lparr>sv_selector := s\<rparr>" "sel_full s" "sel_lookup (sv_selector w) f = None"
        "sel_lookup s = (sel_lookup (sv_selector w))(f \<mapsto>
          \<lparr>item_fd = f, item_interest = n, item_handler = Some Socks5_handler, item_data = Some (key_data k)\<rparr>)" by auto
    let ?w = "w\<lparr>sv_selector := s, sv_heap := (sv_heap w)(key_data k \<mapsto> d\<lparr>references := references d + 1\<rparr>)\<rparr>"
    have "counted ?w" by (rule register_counted [OF full(1) d s(3,2,4)]) simp_all
    then have "held (key_data k) fd True ?w"
      using d full(2) s(4) by (auto simp: held_def tracked_def pooled_def slot_def)
    moreover have "B () ?w = Inr (x, w')"
      using rest True d(1) by (simp add: s(1) add_reference_def eval_sv get_conn_def)
    ultimately show ?thesis using keepsD [OF assms(2)] by blast
  qed
qed

text \<open>The attempt to connect, with a \<open>connect\<close> that does not succeed at once.\<close>

definition later :: "os \<Rightarrow> bool" where
  "later k \<longleftrightarrow> (\<forall>fd a n. os_connect k fd a n \<noteq> 0)"

lemma keeps_read_conn:
  assumes "\<And>d. keeps P (f d)"
  shows "keeps P (bind_sv (get_conn k) f)"
  using assms by (auto simp: keeps_def bind_sv_def get_conn_def split: option.splits)

lemma connection_failure_tracked:
  "keeps (tracked (key_data k) r fd al) (connection_failure k st)"
  "keeps (tracked (key_data k) r fd al) (connecting_failure k)"
  "keeps (tracked (key_data k) r fd al) (refuse k st)"
  "keeps (tracked (key_data k) r fd al) (connecting_success k)"
proof -
  show 1: "keeps (tracked (key_data k) r fd al) (connection_failure k st)" for st
    unfolding connection_failure_def by (intro keeps_intros)
  show "keeps (tracked (key_data k) r fd al) (connecting_failure k)"
    unfolding connecting_failure_def by (intro keeps_intros keeps_bind [OF 1])
  show "keeps (tracked (key_data k) r fd al) (refuse k st)" unfolding refuse_def by (intro keeps_intros)
  show "keeps (tracked (key_data k) r fd al) (connecting_success k)"
    unfolding connecting_success_def by (intro keeps_intros) simp_all
qed

lemma connection_held:
  assumes "later (key_os k)"
  shows "keeps (held (key_data k) fd True) (connection k)"
proof -
  let ?P = "tracked (key_data k)" and ?H = "held (key_data k) fd True"
  note fail = connection_failure_tracked(1)
  have closed: "keeps ?H (bind_sv (connection_failure k st) (\<lambda>ret. bind_sv (close_fd f) (\<lambda>_.
      bind_sv (get_conn k) (\<lambda>d. bind_sv (put_conn k (d\<lparr>origin_fd := -1\<rparr>)) (\<lambda>_. ret_sv ret)))))" for st f
    by (rule held_tracked(2)) (intro keeps_bind [OF fail] keeps_intros; simp)
  have refused: "keeps ?H (bind_sv (put_request_st k g) (\<lambda>_. connection_failure k st))" for g st
    by (rule held_tracked(2)) (intro keeps_intros fail)
  have interest: "keeps ?H (set_interest_key k n)" for n by (rule held_tracked(2)) (intro keeps_intros)
  have metrics: "keeps ?H (modify_metrics g)" for g by (rule held_tracked(2)) (intro keeps_intros)
  have ok: "keeps ?H (ret_sv x)" for x :: socks_reply_status by (rule keeps_ret)
  show ?thesis
    unfolding connection_def Let_def
    using assms
    by (intro keeps_read_conn keeps_bind [OF metrics] keeps_if refused keeps_bind [OF interest]
        held_tracked(2) [OF fail] register_holds closed ok) (simp_all add: later_def)
qed

lemma connecting_init_held:
  assumes "later (key_os k)"
  shows "keeps_hook (held (key_data k) fd True) (connecting_init st k)"
proof (rule keeps_hookI [OF connecting_init_def], unfold keeps_leads [symmetric], rule held_tracked(1),
    rule leads_tracked_conn, unfold Let_def, rule leads_tracked_put)
  note conn = connection_held [OF assms] and failure = held_tracked(2) [OF connection_failure_tracked(2)]
  have "keeps (held (key_data k) fd True) (put_orig_status k st)" for st
    by (rule held_tracked(2)) (intro keeps_intros)
  then show "leads (held (key_data k) fd True) (if c then connecting_failure k
      else if c' then connecting_failure k else bind_sv (connection k) (\<lambda>st. put_orig_status k st))
      (held (key_data k) fd True)" for c c'
    unfolding keeps_leads by (intro keeps_if failure keeps_bind [OF conn])
qed simp

lemma try_next_held:
  assumes "later (key_os k)"
  shows "keeps (held (key_data k) fd True) (try_next_address k)"
  unfolding keeps_leads [symmetric] try_next_address_def
proof (rule held_tracked(1), rule leads_tracked_conn)
  fix r and d :: socks5
  assume r: "references d = r"
  show "leads (tracked (key_data k) r fd True) (case origin_resolution_current d of
      a # b # rest \<Rightarrow>
         bind_sv (put_conn k (d\<lparr>origin_resolution_current := b # rest,
            origin_addr := (if ai_family b = AF_INET \<or> ai_family b = AF_INET6 then ai_addr b
                            else origin_addr d)\<rparr>)) (\<lambda>_.
         bind_sv (connection k) (\<lambda>_. ret_sv (socks_code REQUEST_CONNECTING)))
     | _ \<Rightarrow> fail_sv Undefined) (held (key_data k) fd True)"
    by (auto split: list.split intro!: leads_fail leads_tracked_put keeps_bind [OF connection_held [OF assms]] keeps_ret
        simp: keeps_leads r)
qed

text \<open>
  The descriptor of a refused attempt is unregistered first; the connection may be released
  with it, and the handler goes on with it.
\<close>

definition free :: "int \<Rightarrow> nat option \<Rightarrow> server \<Rightarrow> bool" where
  "free fd x w \<longleftrightarrow> counted w \<and> slot fd x w"

lemma unregister_free: "keeps (free fd x) (unregister f)"
  unfolding keeps_def
proof (intro allI impI)
  fix w st w'
  assume w: "free fd x w" and u: "unregister f w = Inr (st, w')"
  then have full: "sel_full (sv_selector w)" "counted_in (sv_selector w) w" by (simp_all add: free_def counted_def)
  show "free fd x w'"
  proof (cases "sel_lookup (sv_selector w) f")
    case None
    then show ?thesis using unregister_unknown [OF full(1) None] u w by simp
  next
    case (Some it)
    from unregister_counted [OF full(2,1) Some] u obtain s v where
      "w' = v\<lparr>sv_selector := s\<rparr>" "sel_full s" "sel_lookup s = (sel_lookup (sv_selector w))(f := None)" "counted_in s v"
      by (auto simp: unregister_def)
    then show ?thesis using w by (simp add: free_def counted_def counted_in_def pooled_def slot_def)
  qed
qed

lemma free_log: "keeps (free fd x) (emit e)" "keeps (free fd x) (close_fd f)"
proof -
  have "free fd x (w\<lparr>sv_log := l\<rparr>) = free fd x w" for w l
    using counted_same [of "w\<lparr>sv_log := l\<rparr>" w] by (simp add: free_def slot_def)
  then show "keeps (free fd x) (emit e)" "keeps (free fd x) (close_fd f)"
    by (simp_all add: keeps_def close_fd_def emit_def sv_simps)
qed

lemma leads_free_conn:
  assumes "\<And>d. leads (tracked (key_data k) (references d) fd False) (f d) Q"
  shows "leads (free fd (Some (key_data k))) (bind_sv (get_conn k) f) Q"
  unfolding leads_def
proof (intro allI impI)
  fix w x w'
  assume "free fd (Some (key_data k)) w" and "bind_sv (get_conn k) f w = Inr (x, w')"
  then obtain d where "tracked (key_data k) (references d) fd False w" "f d w = Inr (x, w')"
    by (auto simp: tracked_def free_def bind_sv_def get_conn_def split: option.splits)
  with assms show "Q w'" unfolding leads_def by blast
qed

lemma connecting_write_held:
  assumes "later (key_os k)"
  shows "leads (held (key_data k) fd True) (connecting_write k) (held (key_data k) fd False)"
proof -
  let ?T = "\<lambda>r. tracked (key_data k) r fd True" and ?Q = "held (key_data k) fd False"
  have quiet: "leads (?T r) m ?Q" if "keeps (?T r) m" for r and m :: "nat srv"
    using that by (auto simp: keeps_leads [symmetric] elim!: leads_weaken intro!: held_weaken [OF tracked_held])
  have next_address: "leads (?T r) (try_next_address k) ?Q" for r
    using try_next_held [OF assms, of fd] unfolding keeps_leads [symmetric]
    by (rule leads_weaken) (erule tracked_held, erule held_weaken)
  have status: "leads (?T r) (bind_sv (put_orig_status k st) (\<lambda>_. try_next_address k)) ?Q" for r st
  proof -
    have "keeps (?T r) (put_orig_status k st)" by (intro keeps_intros)
    then show ?thesis unfolding keeps_leads [symmetric] using next_address by (rule leads_bind)
  qed
  have gone: "leads (?T r) (bind_sv (unregister f) (\<lambda>_. bind_sv (close_fd f) (\<lambda>_. bind_sv (get_conn k) (\<lambda>d2.
      bind_sv (put_conn k (d2\<lparr>origin_fd := -1\<rparr>)) (\<lambda>_. error_handler_to_client st k))))) ?Q" for r f st
  proof -
    have "keeps ?Q (error_handler_to_client st k)" by (rule held_tracked(2)) (intro keeps_intros)
    then have "leads (free fd (Some (key_data k))) (bind_sv (get_conn k) (\<lambda>d2.
        bind_sv (put_conn k (d2\<lparr>origin_fd := -1\<rparr>)) (\<lambda>_. error_handler_to_client st k))) ?Q"
      by (intro leads_free_conn leads_tracked_put) (simp_all add: keeps_leads)
    then have "leads (free fd (Some (key_data k))) (bind_sv (unregister f) (\<lambda>_. bind_sv (close_fd f) (\<lambda>_. bind_sv (get_conn k) (\<lambda>d2.
      bind_sv (put_conn k (d2\<lparr>origin_fd := -1\<rparr>)) (\<lambda>_. error_handler_to_client st k))))) ?Q"
      using unregister_free free_log(2) unfolding keeps_leads [symmetric] by (blast intro: leads_bind)
    then show ?thesis by (rule leads_weaken) (simp_all add: free_def tracked_def)
  qed
  show ?thesis
    unfolding connecting_write_def Let_def
    by (rule held_tracked(1), rule leads_tracked_conn)
      (auto simp: quiet connection_failure_tracked next_address status gone leads_fail split: origin_stage.split option.split)
qed

section \<open>The events of a connection\<close>

text \<open>
  All hooks and callbacks but two keep the connection registered or released as it is: the
  arrival in REQUEST_CONNECTING registers, and the callback of that state may release.
\<close>

definition entry_keeps :: "(server \<Rightarrow> bool) \<Rightarrow> (server \<Rightarrow> bool) \<Rightarrow> nat \<Rightarrow> skey \<Rightarrow> (skey, server) state_definition \<Rightarrow> bool" where
  "entry_keeps P Q c k s \<longleftrightarrow>
     (\<forall>f. on_arrival s = Some f \<longrightarrow> keeps_hook P (f (sd_state s) k) \<and> (sd_state s = c \<or> keeps_hook Q (f (sd_state s) k))) \<and>
     (\<forall>f. on_departure s = Some f \<longrightarrow> keeps_hook P (f (sd_state s) k) \<and> keeps_hook Q (f (sd_state s) k)) \<and>
     (\<forall>f. on_read_ready s = Some f \<or> on_write_ready s = Some f \<or> on_block_ready s = Some f \<longrightarrow>
        (if sd_state s = c then leads P (f k) Q else keeps P (f k)))"

lemma dispatch_leads:
  assumes t: "\<forall>i < length tbl. sd_state (tbl ! i) = i" and e: "\<forall>s \<in> set tbl. entry_keeps P Q c k s"
    and pq: "\<And>w. P w \<Longrightarrow> Q w"
    and r: "ready = on_read_ready \<or> ready = on_write_ready \<or> ready = on_block_ready"
    and d: "stm_dispatch ready tbl m k w = Inr (ret, m', w')" and w: "P w"
  shows "Q w'"
proof -
  have at: "sd_state s = i" "entry_keeps P Q c k s" if "state_at tbl i = Inr s" for i s
    using that t e by (auto simp: state_at_def split: if_splits)
  have arrive: "P v \<Longrightarrow> P v'" "sd_state s \<noteq> c \<Longrightarrow> Q v \<Longrightarrow> Q v'"
    if "entry_keeps P Q c k s" "run_hook (on_arrival s) (sd_state s) k v = Inr v'" for s v v'
    using that by (auto simp: entry_keeps_def run_hook_def split: option.splits dest: keeps_hookD)
  have leave: "P v \<Longrightarrow> P v'" "Q v \<Longrightarrow> Q v'"
    if "entry_keeps P Q c k s" "run_hook (on_departure s) (sd_state s) k v = Inr v'" for s v v'
    using that by (auto simp: entry_keeps_def run_hook_def split: option.splits dest: keeps_hookD)
  from d obtain m1 w1 b s f w2 where hf: "handle_first tbl m k w = Inr (m1, w1)" and b: "stm_current m1 = Some b"
    and s: "state_at tbl b = Inr s" and f: "ready s = Some f" "f k w1 = Inr (ret, w2)"
    and j: "jump tbl m1 ret k w2 = Inr (m', w')"
    by (auto simp: stm_dispatch_def bind_res_eq_Inr split: option.splits)
  have w1: "P w1"
    using hf w arrive(1) [OF at(2)] by (auto simp: handle_first_def bind_res_eq_Inr split: option.splits)
  have w2: "if b = c then Q w2 else P w2"
    using at [OF s] r f w1 by (auto simp: entry_keeps_def leads_def keeps_def split: if_splits)
  show ?thesis
  proof (cases "b = ret")
    case True
    then have "w' = w2" using j b by (simp add: jump_def split: if_splits)
    then show ?thesis using w2 pq by (auto split: if_splits)
  next
    case False
    then obtain v s2 where v: "run_hook (on_departure s) (sd_state s) k w2 = Inr v"
      and s2: "state_at tbl ret = Inr s2" "run_hook (on_arrival s2) (sd_state s2) k v = Inr w'"
      using j b s by (auto simp: jump_def bind_res_eq_Inr split: if_splits)
    note a = arrive [OF at(2) [OF s2(1)] s2(2)]
    show ?thesis
    proof (cases "b = c")
      case True
      then show ?thesis using w2 leave(2) [OF at(2) [OF s] v] a(2) at(1) [OF s2(1)] False by simp
    next
      case False
      then show ?thesis using w2 leave(1) [OF at(2) [OF s] v] a(1) pq by simp
    qed
  qed
qed

lemma tables_hold:
  assumes "later (key_os k)"
  shows "\<forall>s \<in> set client_statbl. entry_keeps (held (key_data k) fd True) (held (key_data k) fd False)
      (socks_code REQUEST_CONNECTING) k s"
    and "\<forall>s \<in> set client_mng. entry_keeps (held (key_data k) fd True) (held (key_data k) fd False)
      (length client_mng) k s"
proof -
  show "\<forall>s \<in> set client_statbl. entry_keeps (held (key_data k) fd True) (held (key_data k) fd False)
      (socks_code REQUEST_CONNECTING) k s"
    unfolding client_statbl_def bare_state_def entry_keeps_def
    using connecting_write_held [OF assms] connecting_init_held [OF assms]
    by (simp add: held_tracked(2,3) hello_tracked auth_tracked request_tracked copy_tracked)
  show "\<forall>s \<in> set client_mng. entry_keeps (held (key_data k) fd True) (held (key_data k) fd False)
      (length client_mng) k s"
    unfolding client_mng_def bare_state_def entry_keeps_def
    by (simp add: held_tracked(2,3) hello_tracked auth_tracked mng_tracked)
qed

lemma run_machine_held:
  assumes "\<forall>i < length tbl. sd_state (tbl ! i) = i"
    and "\<forall>s \<in> set tbl. entry_keeps (held (key_data k) fd True) (held (key_data k) fd False) c k s"
    and "handler = stm_handler_read \<or> handler = stm_handler_write \<or> handler = stm_handler_block"
  shows "leads (held (key_data k) fd True) (run_machine handler tbl k) (held (key_data k) fd False)"
  unfolding leads_def
proof (intro allI impI)
  fix w x w'
  assume w: "held (key_data k) fd True w" and "run_machine handler tbl k w = Inr (x, w')"
  then obtain d w0 ret m w1 where c: "get_conn k w = Inr (d, w0)" and h: "handler tbl (conn_stm d) k w0 = Inr (ret, m, w1)"
    and g: "bind_sv (get_conn k) (\<lambda>d1. bind_sv (put_conn k (d1\<lparr>conn_stm := m\<rparr>)) (\<lambda>_. ret_sv ret)) w1 = Inr (x, w')"
    unfolding run_machine_def bind_sv_def [of "get_conn k" "\<lambda>d w. bind_res (handler tbl (conn_stm d) k w) _"]
    by (clarsimp simp: bind_res_eq_Inr)
  have "w0 = w" using c by (auto simp: get_conn_def split: option.splits)
  note h = h [unfolded this]
  obtain ready where ready: "ready = on_read_ready \<or> ready = on_write_ready \<or> ready = on_block_ready"
      "handler = stm_dispatch ready"
    using assms(3) by (auto simp: stm_handler_defs)
  have "held (key_data k) fd False w1"
    using dispatch_leads [OF assms(1,2) held_weaken ready(1) h [unfolded ready(2)] w] by simp
  moreover have "keeps (held (key_data k) fd False) (bind_sv (get_conn k) (\<lambda>d1. bind_sv (put_conn k (d1\<lparr>conn_stm := m\<rparr>)) (\<lambda>_. ret_sv ret)))"
    by (rule held_tracked(2)) (intro keeps_intros; simp)
  ultimately show "held (key_data k) fd False w'" using g by (auto dest: keepsD)
qed

text \<open>The end of an event unregisters the descriptors of a finished connection.\<close>

lemma close_fds_free: "keeps (free fd x) (close_fds l)"
  by (induction l) (auto intro!: keeps_ret keeps_if keeps_fail keeps_bind [OF unregister_free] keeps_bind [OF free_log(2)])

lemma finish_free: "keeps (free fd x) (socks_finish k st)" "keeps (free fd x) (mng_finish k st)"
  unfolding socks_finish_def socksv5_done_def mng_finish_def mng_done_def
  by (intro keeps_if keeps_read_conn close_fds_free keeps_ret)+

lemma handlers_free:
  assumes "later (key_os k)" and "f \<in> {socksv5_read, socksv5_write, socksv5_block, mng_read, mng_write, mng_block}"
  shows "leads (held (key_data k) fd True) (f k) (free fd (Some (key_data k)))"
proof -
  have indexed: "\<forall>i < length client_statbl. sd_state (client_statbl ! i) = i" "\<forall>i < length client_mng. sd_state (client_mng ! i) = i"
    by (simp_all add: client_statbl_def client_mng_def bare_state_def less_Suc_eq)
  have free: "held (key_data k) fd False w \<Longrightarrow> free fd (Some (key_data k)) w" for w
    by (auto simp: free_def dest: held_counted)
  note run = run_machine_held [OF indexed(1) tables_hold(1) [OF assms(1)]]
    run_machine_held [OF indexed(2) tables_hold(2) [OF assms(1)]]
  note run = run [THEN leads_weaken, OF _ _ free]
  show ?thesis
    using assms(2) finish_free unfolding socksv5_read_def socksv5_write_def socksv5_block_def mng_read_def mng_write_def mng_block_def
    by (auto intro!: leads_bind [OF run(1)] leads_bind [OF run(2)] simp: keeps_leads)
qed

section \<open>New connections\<close>

text \<open>A new connection, before its registration.\<close>

definition fresh :: "nat \<Rightarrow> server \<Rightarrow> bool" where
  "fresh i w \<longleftrightarrow> sel_full (sv_selector w) \<and> i \<notin> pooled w \<and> holders (sv_selector w) i = {} \<and> i < sv_next w \<and>
     (\<exists>d. sv_heap w i = Some d \<and> references d = 1) \<and>
     counted_in (sv_selector w) (w\<lparr>sv_heap := (sv_heap w)(i := None)\<rparr>)"

lemma pool_take_fresh:
  assumes "counted w" and "pool_take k w = Inr (Some i, w') \<or> mng_pool_take k w = Inr (Some i, w')" and "references d = 1"
  shows "fresh i (w'\<lparr>sv_heap := (sv_heap w')(i \<mapsto> d)\<rparr>) \<and> sv_selector w' = sv_selector w"
proof -
  let ?s = "sv_selector w" and ?h = "\<lambda>w. w\<lparr>sv_heap := (sv_heap w)(i := None)\<rparr>"
  have c: "counted_in ?s w" "sel_full ?s" using assms(1) by (simp_all add: counted_def)
  have none: "holders ?s i = {}" if "i \<in> pooled w \<or> sv_heap w i = None"
    using that counted_inD(1) [OF c(1)] unfolding holders_def by blast
  have w': "sv_selector w' = ?s" "sv_heap w' = sv_heap w" using assms(2)
    by (auto simp: pool_take_def mng_pool_take_def split: list.splits if_splits)
  have new: "holders ?s i = {} \<and> i \<notin> pooled w' \<and> i < sv_next w' \<and> sv_next w \<le> sv_next w' \<and>
      insert i (pooled w') = insert i (pooled w) \<and> distinct (sv_pool w' @ sv_mng_pool w')"
  proof -
    have "(sv_pool w = i # sv_pool w' \<and> sv_mng_pool w' = sv_mng_pool w \<or>
        sv_mng_pool w = i # sv_mng_pool w' \<and> sv_pool w' = sv_pool w) \<and> sv_next w' = sv_next w \<or>
        i = sv_next w \<and> w' = w\<lparr>sv_next := sv_next w + 1\<rparr>"
      using assms(2) by (auto simp: pool_take_def mng_pool_take_def split: list.splits if_splits)
    then show ?thesis
    proof (elim disjE conjE)
      assume "i = sv_next w" and w': "w' = w\<lparr>sv_next := sv_next w + 1\<rparr>"
      then have "i \<notin> pooled w" "sv_heap w i = None" using counted_inD(4) [OF c(1), of i] by (metis less_irrefl)+
      then show ?thesis using none \<open>i = sv_next w\<close> counted_inD(3) [OF c(1)] by (simp add: w' pooled_def)
    qed (use none counted_inD(3) [OF c(1)] counted_inD(4) [OF c(1), of i] in \<open>auto simp: pooled_def\<close>)
  qed
  have "counted_in ?s (?h w')"
    unfolding counted_in_def
  proof (intro conjI allI impI)
    fix j d
    assume d: "sv_heap (?h w') j = Some d"
    then have "j \<noteq> i" "sv_heap w j = Some d" using w'(2) by (auto split: if_splits)
    with counted_inD(2) [OF c(1), of j d] new
    show "j \<in> pooled (?h w') \<or> holders ?s j \<noteq> {} \<and> references d = of_nat (card (holders ?s j))"
      by (auto simp: pooled_def)
  next
    fix f it j
    assume j: "sel_lookup ?s f = Some it" "item_data it = Some j"
    then have "j \<noteq> i" using new by (auto simp: holders_def)
    then show "sv_heap (?h w') j \<noteq> None" "j \<notin> pooled (?h w')"
      "item_handler it = Some Socks5_handler \<or> item_handler it = Some Mng_handler"
      using counted_inD(1) [OF c(1) j] new w'(2) by (auto simp: pooled_def)
  next
    fix j
    assume "sv_heap (?h w') j \<noteq> None \<or> j \<in> pooled (?h w')"
    then have "sv_heap w j \<noteq> None \<or> j \<in> pooled w" using new w'(2) by (auto simp: pooled_def split: if_splits)
    with counted_inD(4) [OF c(1)] new show "j < sv_next (?h w')" by fastforce
  qed (use new in simp)
  with c new w' assms(3) show ?thesis by (simp add: fresh_def pooled_def counted_in_def)
qed

lemma new_takes:
  "socks5_new k c w = Inr (x, w') \<Longrightarrow> pool_take k w = Inr (y, w1) \<Longrightarrow>
     case y of None \<Rightarrow> x = None \<and> w' = w1
     | Some i \<Rightarrow> x = Some i \<and> (\<exists>d. w' = w1\<lparr>sv_heap := (sv_heap w1)(i \<mapsto> d)\<rparr> \<and> references d = 1)"
  "mng_new k c w = Inr (x, w') \<Longrightarrow> mng_pool_take k w = Inr (y, w1) \<Longrightarrow>
     case y of None \<Rightarrow> x = None \<and> w' = w1
     | Some i \<Rightarrow> x = Some i \<and> (\<exists>d. w' = w1\<lparr>sv_heap := (sv_heap w1)(i \<mapsto> d)\<rparr> \<and> references d = 1)"
  by (cases y; fastforce simp: socks5_new_def mng_new_def put_heap_def sv_simps bind_res_eq_Inr)+

lemma new_fresh:
  assumes "counted w" and "socks5_new k c w = Inr (x, w') \<or> mng_new k c w = Inr (x, w')"
  shows "sv_selector w' = sv_selector w \<and> (case x of None \<Rightarrow> counted w' | Some i \<Rightarrow> fresh i w')"
proof -
  obtain y w1 where t: "pool_take k w = Inr (y, w1) \<or> mng_pool_take k w = Inr (y, w1)"
    and x: "case y of None \<Rightarrow> x = None \<and> w' = w1
      | Some i \<Rightarrow> x = Some i \<and> (\<exists>d. w' = w1\<lparr>sv_heap := (sv_heap w1)(i \<mapsto> d)\<rparr> \<and> references d = 1)"
  proof (cases "socks5_new k c w = Inr (x, w')")
    case True
    moreover obtain y w1 where "pool_take k w = Inr (y, w1)"
      using True by (auto simp: socks5_new_def bind_sv_def bind_res_eq_Inr)
    ultimately show ?thesis using new_takes(1) that by blast
  next
    case False
    then have "mng_new k c w = Inr (x, w')" using assms(2) by simp
    moreover obtain y w1 where "mng_pool_take k w = Inr (y, w1)"
      using calculation by (auto simp: mng_new_def bind_sv_def bind_res_eq_Inr)
    ultimately show ?thesis using new_takes(2) that by blast
  qed
  show ?thesis
  proof (cases y)
    case None
    then have "w1 = w" using t by (auto simp: pool_take_def mng_pool_take_def split: list.splits if_splits)
    then show ?thesis using x None assms(1) by simp
  next
    case (Some i)
    then show ?thesis using x pool_take_fresh [OF assms(1) t [unfolded Some]] by auto
  qed
qed

lemma client_addr_fresh:
  assumes "fresh i w" and "set_client_addr i a w = Inr (u, w')"
  shows "fresh i w' \<and> sv_selector w' = sv_selector w"
proof -
  obtain d where d: "sv_heap w i = Some d" "references d = 1" using assms(1) by (auto simp: fresh_def)
  then have "w' = w\<lparr>sv_heap := (sv_heap w)(i \<mapsto> d\<lparr>client_addr := a\<rparr>)\<rparr>"
    using assms(2) by (simp add: set_client_addr_def put_heap_def sv_simps)
  then show ?thesis using assms(1) d by (simp add: fresh_def pooled_def)
qed

lemma fresh_registered:
  assumes "fresh i w" and "sel_lookup (sv_selector w) c = None" and "sel_full s"
    and "sel_lookup s = (sel_lookup (sv_selector w))(c \<mapsto>
      \<lparr>item_fd = c, item_interest = n, item_handler = Some h, item_data = Some i\<rparr>)"
    and "h = Socks5_handler \<or> h = Mng_handler"
  shows "counted (w\<lparr>sv_selector := s\<rparr>)"
proof -
  let ?s = "sv_selector w" and ?h = "w\<lparr>sv_heap := (sv_heap w)(i := None)\<rparr>"
  obtain d where d: "sv_heap w i = Some d" "references d = 1" and i: "i \<notin> pooled w" "holders ?s i = {}" "i < sv_next w"
    and c: "counted_in ?s ?h" using assms(1) by (auto simp: fresh_def)
  have p: "pooled ?h = pooled w" by (simp add: pooled_def)
  have mine: "holders s i = {c}" using i(2) by (auto simp: holders_def assms(4))
  have other: "holders s j = holders ?s j" if "j \<noteq> i" for j
    using that assms(2) by (auto simp: holders_def assms(4))
  have "counted_in s w"
    unfolding counted_in_def
  proof (intro conjI allI impI)
    fix j d'
    assume "sv_heap w j = Some d'"
    then show "j \<in> pooled w \<or> holders s j \<noteq> {} \<and> references d' = of_nat (card (holders s j))"
      using counted_inD(2) [OF c, of j d'] p d mine other by (cases "j = i") auto
  next
    fix f it j
    assume j: "sel_lookup s f = Some it" "item_data it = Some j"
    have "(sv_heap w j \<noteq> None \<and> j \<notin> pooled w) \<and> (item_handler it = Some Socks5_handler \<or> item_handler it = Some Mng_handler)"
      using j counted_inD(1) [OF c, of f it j] p d i assms(5) by (cases "f = c") (auto simp: assms(4) split: if_splits)
    then show "sv_heap w j \<noteq> None" "j \<notin> pooled w"
      "item_handler it = Some Socks5_handler \<or> item_handler it = Some Mng_handler" by simp_all
  next
    fix j
    assume "sv_heap w j \<noteq> None \<or> j \<in> pooled w"
    then show "j < sv_next w" using counted_inD(4) [OF c, of j] p i(3) by (cases "j = i") auto
  qed (use counted_inD(3) [OF c] in simp)
  then show ?thesis using assms(3) by (simp add: counted_def counted_in_def pooled_def)
qed

lemma fresh_destroyed:
  assumes "fresh i w" and "socks5_destroy (Some i) w = Inr w' \<or> mng_destroy (Some i) w = Inr w'"
  shows "counted w' \<and> sv_selector w' = sv_selector w"
proof -
  let ?s = "sv_selector w" and ?h = "w\<lparr>sv_heap := (sv_heap w)(i := None)\<rparr>"
  obtain d where d: "sv_heap w i = Some d" "references d = 1" and i: "i \<notin> pooled w" "holders ?s i = {}" "i < sv_next w"
    and c: "counted_in ?s ?h" and full: "sel_full ?s" using assms(1) by (auto simp: fresh_def)
  have p: "pooled ?h = pooled w" by (simp add: pooled_def)
  have w': "sv_selector w' = ?s \<and> sv_next w' = sv_next w \<and> (w' = ?h \<or> sv_heap w' = sv_heap w \<and>
      pooled w' = insert i (pooled w) \<and> distinct (sv_pool w' @ sv_mng_pool w'))"
    using assms(2) d i(1) counted_inD(3) [OF c]
    by (auto simp: socks5_destroy_def mng_destroy_def socks5_free_def pooled_def split: if_splits)
  show ?thesis
  proof (cases "w' = ?h")
    case True
    then show ?thesis using c full by (simp add: counted_def)
  next
    case False
    then have n: "sv_heap w' = sv_heap w" "pooled w' = insert i (pooled w)" "distinct (sv_pool w' @ sv_mng_pool w')"
        "sv_next w' = sv_next w" "sv_selector w' = ?s" using w' by simp_all
    have "counted_in ?s w'"
      unfolding counted_in_def n(1,2)
    proof (intro conjI allI impI)
      fix j d'
      assume "sv_heap w j = Some d'"
      then show "j \<in> insert i (pooled w) \<or> holders ?s j \<noteq> {} \<and> references d' = of_nat (card (holders ?s j))"
        using counted_inD(2) [OF c, of j d'] p by (cases "j = i") auto
    next
      fix f it j
      assume j: "sel_lookup ?s f = Some it" "item_data it = Some j"
      then have "j \<noteq> i" using i(2) by (auto simp: holders_def)
      then show "sv_heap w j \<noteq> None" "j \<notin> insert i (pooled w)"
        "item_handler it = Some Socks5_handler \<or> item_handler it = Some Mng_handler"
        using counted_inD(1) [OF c j] p by (auto split: if_splits)
    next
      fix j
      assume "sv_heap w j \<noteq> None \<or> j \<in> insert i (pooled w)"
      then show "j < sv_next w'" using counted_inD(4) [OF c, of j] p i(3) n(4) by (cases "j = i") auto
    qed (use n in simp)
    then show ?thesis using n(5) full by (simp add: counted_def)
  qed
qed

lemma fresh_log [simp]: "fresh i (w\<lparr>sv_log := l\<rparr>) = fresh i w"
  by (simp add: fresh_def pooled_def counted_in_def)

text \<open>It is registered, or given back.\<close>

lemma enlist:
  assumes "fresh i w" and "h = Socks5_handler \<and> destroy = socks5_destroy \<or> h = Mng_handler \<and> destroy = mng_destroy"
    and "bind_sv (register k c h n (Some i)) (\<lambda>ss.
      if SELECTOR_SUCCESS \<noteq> ss
      then bind_sv (close_fd c) (\<lambda>_ w. bind_res (destroy (Some i) w) (\<lambda>w'. Inr ((), w')))
      else ret_sv ()) w = Inr (u, w')"
  shows "counted w' \<and> (\<forall>f it. sel_lookup (sv_selector w) f = Some it \<longrightarrow> sel_lookup (sv_selector w') f = Some it)"
proof -
  from assms(3) obtain ss w1 where r: "register k c h n (Some i) w = Inr (ss, w1)"
    and rest: "(if SELECTOR_SUCCESS \<noteq> ss
      then bind_sv (close_fd c) (\<lambda>_ w. bind_res (destroy (Some i) w) (\<lambda>w'. Inr ((), w')))
      else ret_sv ()) w1 = Inr (u, w')" by (auto simp: bind_sv_def bind_res_eq_Inr)
  have "sel_full (sv_selector w)" using assms(1) by (simp add: fresh_def)
  note reg = register_cases [OF this r]
  show ?thesis
  proof (cases "ss = SELECTOR_SUCCESS")
    case True
    then obtain s where s: "w' = w\<lparr>sv_selector := s\<rparr>" "sel_lookup (sv_selector w) c = None" "sel_full s"
      "sel_lookup s = (sel_lookup (sv_selector w))(c \<mapsto>
        \<lparr>item_fd = c, item_interest = n, item_handler = Some h, item_data = Some i\<rparr>)"
      using reg rest by (auto simp: ret_sv_def)
    from fresh_registered [OF assms(1) s(2-4)] assms(2) have "counted w'" by (auto simp: s(1))
    then show ?thesis using s by auto
  next
    case False
    then have "destroy (Some i) (w\<lparr>sv_log := sv_log w @ [Closed c]\<rparr>) = Inr w'"
      using reg rest by (simp add: close_fd_def emit_def sv_simps bind_res_eq_Inr)
    moreover have "fresh i (w\<lparr>sv_log := sv_log w @ [Closed c]\<rparr>)" using assms(1) by simp
    ultimately show ?thesis using fresh_destroyed [of i "w\<lparr>sv_log := sv_log w @ [Closed c]\<rparr>" w'] assms(2) by auto
  qed
qed

text \<open>The two passive handlers have one body.\<close>

definition admit :: "(nat option \<Rightarrow> server \<Rightarrow> server res) \<Rightarrow> handler_id \<Rightarrow> os \<Rightarrow> int \<Rightarrow> sockaddr \<Rightarrow> nat option \<Rightarrow> unit srv" where
  "admit destroy h k c addr x =
     (case x of
        None \<Rightarrow> close_fd c
      | Some i \<Rightarrow>
          bind_sv (set_client_addr i addr) (\<lambda>_.
          bind_sv (register k c h OP_READ (Some i)) (\<lambda>ss.
          if SELECTOR_SUCCESS \<noteq> ss
          then bind_sv (close_fd c) (\<lambda>_ w. bind_res (destroy (Some i) w) (\<lambda>w'. Inr ((), w')))
          else ret_sv ())))"

lemma accept_admits:
  assumes "socksv5_passive_accept k fd w = Inr (u, w') \<or> mng_passive_accept k fd w = Inr (u, w')"
  shows "w' = w \<or> (\<exists>c. close_fd c w = Inr (u, w')) \<or> (\<exists>c addr x w1 h destroy.
    (socks5_new k c w = Inr (x, w1) \<or> mng_new k c w = Inr (x, w1)) \<and>
    (h = Socks5_handler \<and> destroy = socks5_destroy \<or> h = Mng_handler \<and> destroy = mng_destroy) \<and>
    admit destroy h k c addr x w1 = Inr (u, w'))"
proof (cases "os_accept k fd")
  case None
  then show ?thesis using assms by (auto simp: socksv5_passive_accept_def mng_passive_accept_def ret_sv_def)
next
  case (Some ca)
  obtain c addr where ca: "ca = (c, addr)" by (cases ca)
  have "(bind_sv (socks5_new k c) (admit socks5_destroy Socks5_handler k c addr) w = Inr (u, w') \<or>
      bind_sv (mng_new k c) (admit mng_destroy Mng_handler k c addr) w = Inr (u, w')) \<or> close_fd c w = Inr (u, w')"
    using assms Some ca unfolding admit_def
    by (auto simp: socksv5_passive_accept_def mng_passive_accept_def simp del: OP_values split: if_splits)
  then show ?thesis
    unfolding bind_sv_def bind_res_eq_Inr by (auto simp: split_def) blast+
qed

lemma admit_free:
  assumes "free fd None w" and "sel_lookup (sv_selector w) fd = Some it" and "item_data it = None"
    and "sv_selector w1 = sv_selector w" and "case x of None \<Rightarrow> counted w1 | Some i \<Rightarrow> fresh i w1"
    and "h = Socks5_handler \<and> destroy = socks5_destroy \<or> h = Mng_handler \<and> destroy = mng_destroy"
    and "admit destroy h k c addr x w1 = Inr (u, w')"
  shows "free fd None w'"
proof (cases x)
  case None
  have "free fd None w1" using None assms(1,4,5) by (simp add: free_def slot_def)
  then show ?thesis using None assms(7) keepsD [OF free_log(2)] by (auto simp: admit_def)
next
  case (Some i)
  let ?e = "bind_sv (register k c h OP_READ (Some i)) (\<lambda>ss.
      if SELECTOR_SUCCESS \<noteq> ss
      then bind_sv (close_fd c) (\<lambda>_ w. bind_res (destroy (Some i) w) (\<lambda>w'. Inr ((), w')))
      else ret_sv ())"
  have "bind_sv (set_client_addr i addr) (\<lambda>_. ?e) w1 = Inr (u, w')"
    using assms(7) Some by (simp add: admit_def del: OP_values)
  then obtain w2 where a: "set_client_addr i addr w1 = Inr ((), w2)"
    and e: "?e w2 = Inr (u, w')"
    unfolding bind_sv_def [of "set_client_addr i addr"] bind_res_eq_Inr by (auto simp del: OP_values)
  have f: "fresh i w2" "sv_selector w2 = sv_selector w" using client_addr_fresh [OF _ a] assms(4,5) Some by simp_all
  show ?thesis using enlist [OF f(1) assms(6) e] f(2) assms(2,3) by (auto simp: free_def slot_def)
qed

lemma accept_free:
  assumes "counted w" and "sel_lookup (sv_selector w) fd = Some it" and "item_data it = None"
    and "socksv5_passive_accept k fd w = Inr (u, w') \<or> mng_passive_accept k fd w = Inr (u, w')"
  shows "free fd None w'"
proof -
  have start: "free fd None w" using assms(1-3) by (simp add: free_def slot_def)
  from accept_admits [OF assms(4)] show ?thesis
  proof (elim disjE exE conjE)
    show "free fd None w'" if "close_fd c w = Inr (u, w')" for c using that start keepsD [OF free_log(2)] by blast
  qed (use start new_fresh [OF assms(1)] admit_free [OF start assms(2,3)] in \<open>metis | blast\<close>)+
qed

section \<open>The turns of the loop\<close>

lemma call_free:
  assumes "counted w" and "sel_lookup (sv_selector w) fd = Some it" and "later k"
    and "tbl \<in> {handle_read, handle_write, handle_block}"
    and "call_handler tbl e (item_handler it) k fd (item_data it) w = Inr (u, w')"
  shows "free fd (item_data it) w'"
proof -
  have c: "counted_in (sv_selector w) w" using assms(1) by (simp add: counted_def)
  obtain h f where h: "item_handler it = Some h" and f: "tbl h = Some f" "f k fd (item_data it) w = Inr (u, w')"
    using assms(5) by (auto simp: call_handler_def fail_sv_def split: option.splits)
  show ?thesis
  proof (cases "item_data it")
    case None
    then have "\<exists>u. socksv5_passive_accept k fd w = Inr (u, w') \<or> mng_passive_accept k fd w = Inr (u, w')"
      using f assms(4) by (cases h) (auto simp: attached_def fail_sv_def)
    then show ?thesis using accept_free [OF assms(1,2) None] None by auto
  next
    case (Some i)
    let ?k = "\<lparr>key_fd = fd, key_data = i, key_os = k\<rparr>"
    note i = counted_inD(1) [OF c assms(2) Some]
    have "held (key_data ?k) fd True w"
      using i assms(1,2) Some by (auto simp: held_def tracked_def slot_def)
    moreover have "\<exists>g \<in> {socksv5_read, socksv5_write, socksv5_block, mng_read, mng_write, mng_block}. f = attached g"
    proof -
      have "h = Socks5_handler \<or> h = Mng_handler" using h i by simp
      then show ?thesis using f(1) assms(4) by auto
    qed
    then obtain g where g: "g \<in> {socksv5_read, socksv5_write, socksv5_block, mng_read, mng_write, mng_block}"
        "f = attached g" by blast
    moreover have "g ?k w = Inr (u, w')" using f(2) g(2) Some by (simp add: attached_def)
    moreover have "leads (held (key_data ?k) fd True) (g ?k) (free fd (Some (key_data ?k)))"
      by (rule handlers_free) (use assms(3) g(1) in simp_all)
    ultimately have "free fd (Some (key_data ?k)) w'" unfolding leads_def by blast
    then show ?thesis using Some by simp
  qed
qed

lemma serve_counted:
  assumes "\<And>r. later (env i r)"
  shows "free (int i) x w \<Longrightarrow> serve_write env W i x w = Inr (u, w') \<Longrightarrow> counted w'"
    and "counted w \<Longrightarrow> serve env R W i w = Inr (u, w') \<Longrightarrow> counted w'"
proof -
  show writes: "counted w'" if "free (int i) x w" "serve_write env W i x w = Inr (u, w')" for x w u w'
  proof (cases "sel_lookup (sv_selector w) (int i)")
    case None
    then show ?thesis using that by (simp add: serve_write_def free_def)
  next
    case (Some it)
    have "item_data it = x" "counted w" using that(1) Some by (simp_all add: free_def slot_def)
    then show ?thesis
      using that(2) Some call_free [OF _ Some assms [of False], where tbl = handle_write and e = Assertion_failed and u = u and w' = w']
      by (auto simp: serve_write_def ret_sv_def free_def split: if_splits)
  qed
  show "counted w'" if w: "counted w" and s: "serve env R W i w = Inr (u, w')"
  proof (cases "sel_lookup (sv_selector w) (int i)")
    case None
    then show ?thesis using w s by (simp add: serve_def)
  next
    case (Some it)
    let ?read = "if int i \<in> R \<and> wants_read (item_interest it)
      then call_handler handle_read Assertion_failed (item_handler it) (env i True) (int i) (item_data it) else ret_sv ()"
    obtain v w1 where 1: "?read w = Inr (v, w1)" and 2: "serve_write env W i (item_data it) w1 = Inr (u, w')"
      using s Some by (auto simp: serve_def bind_sv_def bind_res_eq_Inr simp del: OP_values)
    have "free (int i) (item_data it) w1"
      using 1 w Some call_free [OF w Some assms [of True], where tbl = handle_read and e = Assertion_failed and u = v and w' = w1]
      by (auto simp: ret_sv_def free_def slot_def split: if_splits)
    then show ?thesis using writes 2 by blast
  qed
qed

lemma serve_all_counted:
  "(\<And>i r. later (env i r)) \<Longrightarrow> counted w \<Longrightarrow> serve_all env R W l w = Inr (u, w') \<Longrightarrow> counted w'"
proof (induction l arbitrary: w)
  case Nil
  then show ?case by (simp add: ret_sv_def)
next
  case (Cons i l)
  then obtain w1 where "serve env R W i w = Inr ((), w1)" "serve_all env R W l w1 = Inr (u, w')"
    by (auto simp: bind_sv_def bind_res_eq_Inr)
  then show ?case using Cons.IH [OF Cons.prems(1)] serve_counted(2) [of env i w R W "()" w1] Cons.prems(1,2) by blast
qed

lemma handle_jobs_counted:
  "(\<And>fd. later (env fd)) \<Longrightarrow> counted w \<Longrightarrow> handle_jobs env l w = Inr (u, w') \<Longrightarrow> counted w'"
proof (induction l arbitrary: w)
  case Nil
  then show ?case by (simp add: ret_sv_def)
next
  case (Cons fd l)
  then obtain it v w1 where it: "item_at fd w = Inr (it, w)"
    and c: "(if ITEM_USED it then call_handler handle_block Undefined (item_handler it) (env fd) (item_fd it) (item_data it)
      else ret_sv ()) w = Inr (v, w1)" and rest: "handle_jobs env l w1 = Inr (u, w')"
    by (auto simp: bind_sv_def bind_res_eq_Inr item_at_def split: if_splits)
  have "counted w1"
  proof (cases "ITEM_USED it")
    case True
    then have look: "sel_lookup (sv_selector w) fd = Some it" using it by (simp add: item_at_def sel_lookup_def split: if_splits)
    moreover have "item_fd it = fd"
      using sel_inv_lookup [OF sel_full_inv look] Cons.prems(2) by (simp add: counted_def)
    ultimately show ?thesis
      using c True call_free [OF Cons.prems(2) look Cons.prems(1), where tbl = handle_block and e = Undefined and u = v and w' = w1] by (simp add: free_def)
  qed (use c Cons.prems(2) in \<open>simp add: ret_sv_def\<close>)
  then show ?case using Cons.IH [OF Cons.prems(1)] rest by blast
qed

text \<open>The ready sets, the jobs and the list of threads hold no connection.\<close>

lemma counted_selector:
  assumes "counted w" and "sel_full s" and "sel_lookup s = sel_lookup (sv_selector w)"
  shows "counted (w\<lparr>sv_selector := s\<rparr>)"
  using assms by (simp add: counted_def counted_in_def holders_def pooled_def)

lemma resolved_counted:
  assumes "counted w" and "request_resolv_blocking k w = Inr (u, w')"
  shows "counted w'"
proof -
  have notify: "keeps (tracked (key_data k) r (-1) False) (selector_notify os fd)" for r os fd
  proof -
    have "tracked (key_data k) r (-1) False (w\<lparr>sv_selector := (sv_selector w)\<lparr>resolution_jobs := j\<rparr>\<rparr>)"
      if "tracked (key_data k) r (-1) False w" for w j
      using that by (intro tracked_items) (simp_all add: same_items_def tracked_def counted_def sel_lookup_def)
    then show ?thesis
      by (auto simp: keeps_def selector_notify_def selector_notify_block_def split: if_splits)
  qed
  have "leads (free (-1) (Some (key_data k))) (request_resolv_blocking k) (free (-1) (Some (key_data k)))"
    unfolding request_resolv_blocking_def with_request_st_def deref_def
  proof (rule leads_free_conn, rule leads_weaken)
    fix d
    show "leads (tracked (key_data k) (references d) (-1) False) (case client d of Client_request r \<Rightarrow>
        case rs_parser r of Ptr p \<Rightarrow> case rp_request p of
       None \<Rightarrow> fail_sv Undefined
     | Some q \<Rightarrow>
        (case req_dest q of
           Dest_fqdn h n \<Rightarrow>
             if \<not> os_alloc (key_os k) (Alloc_result 0) \<or> n < 0 \<or> nat n > length h then fail_sv Undefined
             else let res = os_getaddrinfo (key_os k) (cstr (take (nat n) h)) (decimal (ntohs (req_port q)))
                  in bind_sv (put_conn k (d\<lparr>origin_resolution := res\<rparr>)) (\<lambda>_.
                     bind_sv (selector_notify (key_os k) (key_fd k)) (\<lambda>st.
                       modify_sv (\<lambda>w. w\<lparr>sv_threads := remove1 (key_fd k, key_data k) (sv_threads w)\<rparr>)))
         | _ \<Rightarrow> fail_sv Undefined) | _ \<Rightarrow> fail_sv Undefined | _ \<Rightarrow> fail_sv Undefined)
      (tracked (key_data k) (references d) (-1) False)"
      unfolding keeps_leads by (intro keeps_intros keeps_bind [OF notify] tracked_modify) simp_all
  qed (auto simp: free_def tracked_def)
  moreover have "free (-1) (Some (key_data k)) w" using assms(1) by (simp add: free_def slot_def sel_lookup_def)
  ultimately show ?thesis using assms(2) unfolding leads_def free_def by blast
qed

lemma blocks_counted:
  assumes "\<And>fd. later (env fd)" and "counted w" and "handle_block_notifications env w = Inr (u, w')"
  shows "counted w'"
proof -
  obtain v where v: "handle_jobs env (resolution_jobs (sv_selector w)) w = Inr ((), v)"
    and w': "w' = v\<lparr>sv_selector := (sv_selector v)\<lparr>resolution_jobs := []\<rparr>\<rparr>"
    using assms(3) by (auto simp: handle_block_notifications_def bind_sv_def get_sv_def modify_sv_def bind_res_eq_Inr)
  have "counted v" using handle_jobs_counted [where env = env, OF assms(1,2) v] .
  then show ?thesis unfolding w' by (intro counted_selector) (simp_all add: counted_def sel_lookup_def fun_eq_iff)
qed

lemma turn_counted:
  assumes "counted w" and "blank_items (sv_selector w)" and "heap_ok w"
    and "\<And>i r. later (env i r)" and "\<And>fd. later (env_block fd)"
    and "selector_select answer env env_block w = Inr (ss, w')"
  shows "counted w'"
proof (cases answer)
  case (Ready R W)
  have full: "sel_full (sv_selector w)" using assms(1) by (simp add: counted_def)
  have "counted (begin_turn R W w)"
    unfolding begin_turn_def using assms(1) full by (intro counted_selector) (simp_all add: sel_lookup_def fun_eq_iff)
  moreover obtain v where "serve_all env R W (ready_below (max_fd (sv_selector w)) R W) (begin_turn R W w) = Inr ((), v)"
      "handle_block_notifications env_block v = Inr ((), w')"
    using assms(6) unfolding Ready turn_serves [OF full assms(2,3)] by (auto simp: bind_sv_def ret_sv_def bind_res_eq_Inr)
  ultimately show ?thesis using serve_all_counted [where env = env, OF assms(4)] blocks_counted [where env = env_block, OF assms(5)] by blast
next
  case (Failed e)
  let ?w = "w\<lparr>sv_selector := (sv_selector w)\<lparr>slave_r := master_r (sv_selector w), slave_w := master_w (sv_selector w)\<rparr>\<rparr>"
  have "counted ?w"
    using assms(1) by (intro counted_selector) (simp_all add: sel_lookup_def fun_eq_iff counted_def)
  moreover have "w' = ?w \<or> handle_block_notifications env_block ?w = Inr ((), w')"
    using assms(6) Failed by (auto simp: selector_select_def bind_sv_def modify_sv_def ret_sv_def bind_res_eq_Inr split: if_splits)
  ultimately show ?thesis using blocks_counted [where env = env_block, OF assms(5)] by blast
qed

section \<open>Runs of the program\<close>

text \<open>No connect of the event succeeds at once.\<close>

definition connects_later :: "loop_event \<Rightarrow> bool" where
  "connects_later ev \<longleftrightarrow>
     (case ev of
        Turn answer env env_block \<Rightarrow> (\<forall>i r. later (env i r)) \<and> (\<forall>fd. later (env_block fd))
      | Resolved fd i k \<Rightarrow> True)"

lemma main_loop_counted:
  "main_loop l w = Inr (ss, err, w') \<Longrightarrow> \<forall>ev \<in> set l. connects_later ev \<Longrightarrow> counted w \<Longrightarrow> blank.inv w \<Longrightarrow> counted w'"
proof (induction l w rule: main_loop.induct)
  case (2 answer env env_block l w)
  from 2(2) obtain ss1 w1 where t: "selector_select answer env env_block w = Inr (ss1, w1)"
    by (auto simp: bind_res_eq_Inr)
  have "counted w1"
    using turn_counted [OF 2(4) _ _ _ _ t] 2(3,5) by (simp add: blank.inv_def connects_later_def)
  then show ?case
    using 2(1) [OF t refl] 2(2,3) t keepsD [OF blank.keeps_select 2(5) t] by (auto split: if_splits)
next
  case (3 fd i k l w)
  show ?case
  proof (cases "(fd, i) \<in> set (sv_threads w)")
    case True
    with 3(3) obtain w1 where t: "request_resolv_blocking \<lparr>key_fd = fd, key_data = i, key_os = k\<rparr> w = Inr ((), w1)"
        "main_loop l w1 = Inr (ss, err, w')"
      by (auto simp: bind_res_eq_Inr)
    show ?thesis
      using 3(1) [OF True t(1)] 3(4) t(2) resolved_counted [OF 3(5) t(1)] keepsD [OF blank.keeps_resolver 3(6) t(1)] by simp
  qed (use 3 in simp)
qed simp

text \<open>The loop starts with the masters and without connections.\<close>

lemma register_masters_bare:
  "register_masters k h l ss w = Inr (st, w') \<Longrightarrow> blank.inv w \<Longrightarrow>
     (\<forall>fd it. sel_lookup (sv_selector w) fd = Some it \<longrightarrow> item_data it = None) \<Longrightarrow>
     blank.inv w' \<and> (\<forall>fd it. sel_lookup (sv_selector w') fd = Some it \<longrightarrow> item_data it = None) \<and>
     (\<exists>s. w' = w\<lparr>sv_selector := s\<rparr>)"
proof (induction l arbitrary: ss w)
  case Nil
  then show ?case by (auto simp: ret_sv_def intro: exI [of _ "sv_selector w'"])
next
  case (Cons fd l)
  then obtain y v where v: "register k fd h OP_READ None w = Inr (y, v)"
    "register_masters k h l (ss OR status_code y) v = Inr (st, w')" by (auto simp: bind_sv_def bind_res_eq_Inr)
  have full: "sel_full (sv_selector w)" using Cons.prems(2) by (simp add: blank.inv_def)
  obtain s where s: "v = w\<lparr>sv_selector := s\<rparr>" using v(1) by (auto simp: register_def bind_res_eq_Inr)
  have "blank.inv v" using keepsD [OF blank.keeps_register(1) Cons.prems(2) v(1)] .
  moreover have "\<forall>fd it. sel_lookup (sv_selector v) fd = Some it \<longrightarrow> item_data it = None"
    using register_cases [OF full v(1)] Cons.prems(3) by (auto split: if_splits)
  ultimately show ?case using Cons.IH [OF v(2)] by (auto simp: s)
qed

lemma main_setup_counted:
  assumes "main_setup k us ads pd socks mng = Inr (Some (st, err_msg, w))"
  shows "counted w" and "blank.inv w"
proof -
  obtain s0 :: "(handler_id, nat) fdselector" where s0: "selector_new (os_alloc k Alloc_selector) (os_alloc k Alloc_items) ITEMS_MAX_SIZE = Inr (Some s0)"
    using assms by (auto simp: main_setup_def bind_res_eq_Inr ITEMS_MAX_SIZE_def split: option.splits)
  then have k: "os_alloc k Alloc_selector \<and> os_alloc k Alloc_items"
    by (auto simp: selector_new_def ensure_capacity_def empty_selector_def bind_res_eq_Inr Let_def ITEMS_MAX_SIZE_def split: if_splits)
  obtain s :: "(handler_id, nat) fdselector" where s: "selector_new True True ITEMS_MAX_SIZE = Inr (Some s)" "sel_full s"
      "sel_lookup s = Map.empty" "blank_items s" using selector_new_full by blast
  let ?g = "main_globals us ads pd s"
  have "blank.inv ?g" using s(2,4) by (simp add: blank.inv_def heap_ok_def main_globals_def)
  moreover have "\<forall>fd it. sel_lookup (sv_selector ?g) fd = Some it \<longrightarrow> item_data it = None"
    using s(3) by (simp add: main_globals_def)
  ultimately have one: "blank.inv w1 \<and> (\<forall>fd it. sel_lookup (sv_selector w1) fd = Some it \<longrightarrow> item_data it = None) \<and>
      (\<exists>s. w1 = ?g\<lparr>sv_selector := s\<rparr>)" if "register_masters k Socks5_passive socks 0 ?g = Inr (ss, w1)" for ss w1
    using register_masters_bare [OF that] by blast
  have "\<exists>ss ss' w1. register_masters k Socks5_passive socks 0 ?g = Inr (ss, w1) \<and>
      (w1 = w \<or> register_masters k Mng_passive mng ss w1 = Inr (ss', w))"
    using assms k s(1) by (auto simp: main_setup_def bind_res_eq_Inr ITEMS_MAX_SIZE_def split: if_splits)
  then obtain ss ss' w1 where 1: "register_masters k Socks5_passive socks 0 ?g = Inr (ss, w1)"
    and 2: "w1 = w \<or> register_masters k Mng_passive mng ss w1 = Inr (ss', w)" by blast
  note w1 = one [OF 1]
  have "blank.inv w \<and> (\<forall>fd it. sel_lookup (sv_selector w) fd = Some it \<longrightarrow> item_data it = None) \<and>
      (\<exists>s. w = ?g\<lparr>sv_selector := s\<rparr>)"
    using 2
  proof
    show ?thesis if "register_masters k Mng_passive mng ss w1 = Inr (ss', w)"
      using register_masters_bare [OF that] w1 by auto
  qed (use w1 in simp)
  then obtain s1 where g: "blank.inv w" "\<forall>fd it. sel_lookup (sv_selector w) fd = Some it \<longrightarrow> item_data it = None"
      "w = ?g\<lparr>sv_selector := s1\<rparr>" by blast
  have "sv_heap w = Map.empty" "pooled w = {}" "sv_pool w = []" "sv_mng_pool w = []"
    by (simp_all add: g(3) main_globals_def pooled_def)
  then show "counted w" using g(1,2) by (auto simp: counted_def counted_in_def blank.inv_def)
  show "blank.inv w" by (rule g(1))
qed

lemma main_start_counted:
  assumes "main_start k us ads pd socks mng = Inr (Some w)"
  shows "counted w" and "blank.inv w"
proof -
  obtain ss err_msg where "main_setup k us ads pd socks mng = Inr (Some (ss, err_msg, w))"
    using assms by (auto simp: main_start_setup bind_res_def split: sum.split_asm option.split_asm prod.split_asm if_split_asm)
  then show "counted w" "blank.inv w" by (rule main_setup_counted)+
qed

lemma server_main_start:
  "server_main e = Inr (Some w) \<Longrightarrow> \<exists>us ads pd socks mng. main_start (me_os e) us ads pd socks mng = Inr (Some w)"
  by (auto simp: server_main_def bind_res_def split: sum.split_asm option.split_asm prod.split_asm if_split_asm) blast

lemma server_main_counted:
  assumes "server_main e = Inr (Some w)"
  shows "counted w" and "blank.inv w"
  using server_main_start [OF assms] main_start_counted by blast+

lemma run_counted:
  assumes "server_main e = Inr (Some w)" and "\<forall>ev \<in> set l. connects_later ev" and "main_loop l w = Inr (ss, err, v)"
  shows "counted v"
  using main_loop_counted [OF assms(3,2)] server_main_counted [OF assms(1)] .

end
