(* ===== verification/Main_Exit.thy ===== *)
theory Main_Exit
  imports References
begin

unbundle bit_operations_syntax

text \<open>
  All ends of \<open>main\<close> (\<open>src/src/main.c\<close>): the exits before the sockets, the jumps to \<open>finally\<close> of a
  start that fails, and the end behind the loop; the code that the process returns, the
  descriptors that it closes, and what the end gives back of the memory of the connections.
\<close>

section \<open>The label \<open>finally\<close>\<close>

text \<open>
  The return code. The jumps to the label leave out the initialisation of \<open>ret\<close>: with success
  and no message it is not determined.
\<close>

definition main_ret :: "32 word \<Rightarrow> string option \<Rightarrow> int option" where
  "main_ret ss err_msg = (if ss \<noteq> 0 then Some 2 else if err_msg \<noteq> None then Some 1 else None)"

text \<open>The variables \<open>socket\<close> and \<open>socket6\<close> when the sockets of the proxy have been created, or not.\<close>

definition socks_fds :: "int \<Rightarrow> socket_env \<Rightarrow> socket_env \<Rightarrow> int \<times> int" where
  "socks_fds family e4 e6 =
     (let s4 = create_socket AF_INET e4; s6 = create_socket AF_INET6 e6
      in if family = AF_UNSPEC then (s4, if s4 = -1 then -1 else s6)
         else if family = AF_INET then (s4, -1)
         else if family = AF_INET6 then (-1, s6)
         else (-1, -1))"

definition close_socks :: "int \<times> int \<Rightarrow> int list" where
  "close_socks sk = (if fst sk \<ge> 0 then [fst sk] else []) @ (if snd sk \<ge> 0 then [snd sk] else [])"

text \<open>The code, the descriptors closed here, and the server if the selector exists.\<close>

type_synonym main_end = "int option \<times> int list \<times> server option"

definition main_finally :: "32 word \<Rightarrow> string option \<Rightarrow> int \<times> int \<Rightarrow> server option \<Rightarrow> main_end res" where
  "main_finally ss err_msg sk x =
     bind_res (case x of None \<Rightarrow> Inr None | Some w \<Rightarrow> bind_res (main_stop w) (\<lambda>w'. Inr (Some w'))) (\<lambda>y.
       Inr (main_ret ss err_msg, close_socks sk, y))"

section \<open>The whole of \<open>main\<close>\<close>

text \<open>The message of a service whose sockets cannot be created.\<close>

definition socket_error :: "int \<Rightarrow> socket_env \<Rightarrow> string" where
  "socket_error family e4 =
     (if family \<noteq> AF_INET6 \<and> create_socket AF_INET e4 = -1 then ''Error creating IPv4 socket''
      else ''Error creating IPv6 socket'')"

definition main_run :: "main_env \<Rightarrow> loop_event list \<Rightarrow> main_end res" where
  "main_run e l =
     bind_res (parse_args (me_inet e) (me_alloc e) (me_options e) (me_operands e)) (\<lambda>r.
     case r of
       None \<Rightarrow> Inr (Some 1, [], None)
     | Some (a, us) \<Rightarrow>
         (case me_fopen e (credentials a) of
            None \<Rightarrow> Inr (Some 1, [], None)
          | Some file \<Rightarrow>
              bind_res (load_credentials (me_admin_alloc e) file []) (\<lambda>ads.
              let sk = socks_fds (socks_family a) (me_socks4 e) (me_socks6 e)
              in case master_sockets (socks_family a) (me_socks4 e) (me_socks6 e) of
                   None \<Rightarrow> main_finally 0 (Some (socket_error (socks_family a) (me_socks4 e))) sk None
                 | Some socks \<Rightarrow>
                     (case master_sockets (mng_family a) (me_mng4 e) (me_mng6 e) of
                        None \<Rightarrow> main_finally 0 (Some (socket_error (mng_family a) (me_mng4 e))) sk None
                      | Some mng \<Rightarrow>
                          if selector_init (me_sigprocmask e) (me_sigaction e) \<noteq> SELECTOR_SUCCESS
                          then main_finally 0 (Some ''initializing selector'') sk None
                          else bind_res (main_setup (me_os e) us ads (disectors_enabled a) socks mng) (\<lambda>x.
                               case x of
                                 None \<Rightarrow> main_finally 0 (Some ''unable to create selector'') sk None
                               | Some (ss, err_msg, w) \<Rightarrow>
                                   if ss \<noteq> 0 then main_finally ss err_msg sk (Some w)
                                   else bind_res (main_loop l w) (\<lambda>(st, err_msg, w').
                                        main_finally (status_code st) (Some err_msg) sk (Some w')))))))"

section \<open>What every end does\<close>

lemma status_code_0 [simp]: "status_code st = 0 \<longleftrightarrow> st = SELECTOR_SUCCESS"
  by (cases st) simp_all

lemma main_ret_cases: "main_ret ss (Some err) = Some (if ss = 0 then 1 else 2)"
  by (simp add: main_ret_def)

lemma finally_frees:
  assumes "counted w"
  shows "\<exists>u. main_finally ss err_msg sk (Some w) = Inr (main_ret ss err_msg, close_socks sk, Some u) \<and> sv_heap u = Map.empty"
  using main_stop_frees [of w] assms by (auto simp: main_finally_def counted_def)

lemma create_socket_range: "create_socket t e = -1 \<or> 0 \<le> create_socket t e"
  by (simp add: create_socket_def)

lemma close_socks_masters:
  "master_sockets family e4 e6 = Some socks \<Longrightarrow> close_socks (socks_fds family e4 e6) = rev socks"
  using create_socket_range [of AF_INET e4] create_socket_range [of AF_INET6 e6]
  by (auto simp: master_sockets_def socks_fds_def close_socks_def Let_def split: if_splits)

text \<open>A start that fails, and a run that has started.\<close>

lemma main_run_fails:
  assumes "server_main e = Inr None"
  shows "\<exists>code closed u. main_run e l = Inr (Some code, closed, u) \<and> code \<in> {1, 2} \<and>
    (\<forall>v. u = Some v \<longrightarrow> sv_heap v = Map.empty)"
proof -
  have none: "main_finally 0 (Some err) sk None = Inr (Some 1, close_socks sk, None)" for err sk
    by (simp add: main_finally_def main_ret_def)
  have reg: "\<exists>code closed u. main_finally ss err_msg sk (Some w) = Inr (Some code, closed, u) \<and> (code = 1 \<or> code = 2) \<and>
      (\<forall>v. u = Some v \<longrightarrow> sv_heap v = Map.empty)"
    if "main_setup k us ads pd socks mng = Inr (Some (ss, err_msg, w))" "ss \<noteq> 0" for k us ads pd socks mng ss err_msg w sk
    using finally_frees [OF main_setup_counted(1) [OF that(1)], of ss err_msg sk] that(2) by (auto simp: main_ret_def)
  from assms show ?thesis
    unfolding server_main_def main_run_def main_start_setup
    by (auto simp: bind_res_def none Let_def intro: reg
        split: sum.split_asm option.split_asm prod.split_asm if_split_asm)
qed

lemma main_run_started:
  assumes "server_main e = Inr (Some w)" and "\<forall>ev \<in> set l. connects_later ev" and "main_loop l w = Inr (ss, err, v)"
  shows "\<exists>u a us socks. main_run e l = Inr (Some (if \<exists>ev \<in> set l. pselect_fails ev then 2 else 1), rev socks, Some u) \<and>
    sv_heap u = Map.empty \<and> parse_args (me_inet e) (me_alloc e) (me_options e) (me_operands e) = Inr (Some (a, us)) \<and>
    master_sockets (socks_family a) (me_socks4 e) (me_socks6 e) = Some socks"
proof -
  obtain a us socks where a: "parse_args (me_inet e) (me_alloc e) (me_options e) (me_operands e) = Inr (Some (a, us))"
      "master_sockets (socks_family a) (me_socks4 e) (me_socks6 e) = Some socks"
    and run: "main_run e l = main_finally (status_code ss) (Some err) (socks_fds (socks_family a) (me_socks4 e) (me_socks6 e)) (Some v)"
    using assms(1,3) unfolding server_main_def main_run_def main_start_setup
    by (auto simp: bind_res_def Let_def split: sum.split_asm option.split_asm prod.split_asm if_split_asm)
  from finally_frees [OF run_counted [OF assms], of "status_code ss" "Some err" "socks_fds (socks_family a) (me_socks4 e) (me_socks6 e)"]
  show ?thesis
    unfolding run close_socks_masters [OF a(2)] main_ret_cases
    using a main_loop_status [OF assms(3)] by auto
qed

text \<open>The end adds no fault of its own: one of \<open>main_run\<close> comes from the start or from an event.\<close>

lemma main_run_start_fault:
  assumes "server_main e = Inl f"
  shows "main_run e l = Inl f"
  using assms unfolding server_main_def main_run_def main_start_setup
  by (auto simp: bind_res_def Let_def split: sum.split_asm option.split_asm prod.split_asm if_split_asm)

lemma main_run_loop_fault:
  assumes "server_main e = Inr (Some w)" and "main_loop l w = Inl f"
  shows "main_run e l = Inl f"
  using assms unfolding server_main_def main_run_def main_start_setup
  by (auto simp: bind_res_def Let_def split: sum.split_asm option.split_asm prod.split_asm if_split_asm)

end
