(* ===== verification/Client.thy ===== *)
theory Client
  imports Mng_Users
begin

unbundle bit_operations_syntax

text \<open>
  The management client (\<open>src/src/client/clientUtils.c\<close> and the dialogue of
  \<open>src/src/client/client.c\<close>). A function that sends returns the bytes it gives to \<open>send\<close>, a
  function that receives takes the answer of \<open>recv\<close> (\<open>None\<close> for an error), a function that
  reads the keyboard takes the words that \<open>scanf\<close> reads. A store past a local array is
  \<open>Inl Undefined\<close>; \<open>buffer\<close> is the uninitialised array of the caller. The host is little-endian.
\<close>

section \<open>Local arrays\<close>

text \<open>\<open>scanf("%s", a)\<close> into an array of \<open>size\<close> bytes, and \<open>strcpy\<close> with its terminator.\<close>

definition scan_word :: "nat \<Rightarrow> byte list \<Rightarrow> byte list res" where
  "scan_word n t = (if length t < n then Inr t else Inl Undefined)"

definition strcpy_at :: "nat \<Rightarrow> byte list \<Rightarrow> byte list \<Rightarrow> byte list res" where
  "strcpy_at i s m = put_at i (cstr s @ [0]) m"

text \<open>Stores one after the other extend the written beginning of the array.\<close>

definition begins :: "byte list \<Rightarrow> byte list \<Rightarrow> bool" where
  "begins p m \<longleftrightarrow> take (length p) m = p"

lemma begins_nil [simp]: "begins [] m"
  by (simp add: begins_def)

lemma put_at_next:
  assumes "begins p m" and "i = length p" and "i + length xs \<le> length m"
  shows "\<exists>m'. put_at i xs m = Inr m' \<and> length m' = length m \<and> begins (p @ xs) m'"
  using assms by (simp add: begins_def store_bytes_def)

lemma strcpy_at_next:
  assumes "begins p m" and "i = length p" and "i + length (cstr s) < length m"
  shows "\<exists>m'. strcpy_at i s m = Inr m' \<and> length m' = length m \<and> begins (p @ cstr s) m'"
  using assms by (simp add: strcpy_at_def begins_def store_bytes_def)

lemma length_cstr: "length (cstr s) \<le> length s"
  by (simp add: cstr_def length_takeWhile_le)

section \<open>Greeting and credentials\<close>

record client_user =
  cu_username :: "byte list option"
  cu_password :: "byte list option"
  cu_credentials :: bool

definition handshake :: "client_user \<Rightarrow> byte list" where
  "handshake user = (if cu_credentials user then [0x01, 0x02, 0x00, 0x02] else [0x01, 0x01, 0x00])"

definition handshake_response :: "byte list option \<Rightarrow> byte" where
  "handshake_response r = (case r of Some [a, b] \<Rightarrow> b | _ \<Rightarrow> 0xFF)"

definition send_credentials :: "byte list \<Rightarrow> client_user \<Rightarrow> byte list res" where
  "send_credentials buffer user =
     (case (cu_username user, cu_password user) of
        (Some u, Some p) \<Rightarrow>
          (let userlen = length (cstr u); passlen = length (cstr p)
           in bind_res (put_at 0 [0x01, of_nat userlen] buffer) (\<lambda>b.
              bind_res (strcpy_at 2 u b) (\<lambda>b.
              bind_res (put_at (2 + userlen) [of_nat passlen] b) (\<lambda>b.
              bind_res (strcpy_at (3 + userlen) p b) (\<lambda>b.
                Inr (take (userlen + passlen + 3) b))))))
      | _ \<Rightarrow> Inl Undefined)"

definition credentials_response :: "byte list option \<Rightarrow> byte" where
  "credentials_response r = (case r of Some [a, b] \<Rightarrow> b | _ \<Rightarrow> 0xFF)"

section \<open>Requests\<close>

text \<open>The functions that fill the parameters return the number of bytes to send; \<open>None\<close> is -1.\<close>

definition add_user :: "byte list \<Rightarrow> byte list \<Rightarrow> byte list \<Rightarrow> (nat \<times> byte list) res" where
  "add_user word1 word2 buffer =
     bind_res (scan_word 255 word1) (\<lambda>username.
     bind_res (scan_word 255 word2) (\<lambda>password.
     let nusername = length (cstr username); npassword = length (cstr password)
     in bind_res (put_at 1 [of_nat nusername] buffer) (\<lambda>b.
        bind_res (strcpy_at 2 username b) (\<lambda>b.
        bind_res (put_at (nusername + 2) [of_nat npassword] b) (\<lambda>b.
        bind_res (strcpy_at (nusername + 3) password b) (\<lambda>b.
          Inr (nusername + npassword + 3, b)))))))"

definition delete_user :: "byte list \<Rightarrow> byte list \<Rightarrow> (nat \<times> byte list) res" where
  "delete_user word1 buffer =
     bind_res (scan_word 255 word1) (\<lambda>username.
     let nusername = length (cstr username)
     in bind_res (put_at 1 [of_nat nusername] buffer) (\<lambda>b.
        bind_res (strcpy_at 2 username b) (\<lambda>b. Inr (nusername + 2, b))))"

definition lower :: "byte \<Rightarrow> byte" where
  "lower c = (if 65 \<le> c \<and> c \<le> 90 then c + 32 else c)"

definition disable_enable :: "byte list \<Rightarrow> byte list \<Rightarrow> (nat option \<times> byte list) res" where
  "disable_enable word1 buffer =
     bind_res (scan_word 50 word1) (\<lambda>on_off.
     let s = map lower (cstr on_off)
     in if s = [0x6F, 0x6E] then bind_res (put_at 1 [0x00] buffer) (\<lambda>b. Inr (Some 2, b))
        else if s = [0x6F, 0x66, 0x66] then bind_res (put_at 1 [0x01] buffer) (\<lambda>b. Inr (Some 2, b))
        else Inr (None, buffer))"

definition send_request :: "int \<Rightarrow> byte list \<Rightarrow> byte list \<Rightarrow> byte list \<Rightarrow> byte list option res" where
  "send_request index word1 word2 buffer =
     bind_res (put_at 0 [if 0 \<le> index \<and> index \<le> 13 then of_int index else 0xFF] buffer) (\<lambda>b.
     bind_res (if index = 10 then bind_res (add_user word1 word2 b) (\<lambda>(n, b). Inr (Some n, b))
               else if index = 11 then bind_res (delete_user word1 b) (\<lambda>(n, b). Inr (Some n, b))
               else if index = 12 \<or> index = 13 then disable_enable word1 b
               else Inr (Some 1, b)) (\<lambda>(n, b).
     Inr (case n of None \<Rightarrow> None | Some n \<Rightarrow> Some (take n b))))"

section \<open>Responses\<close>

datatype client_line =
    Refused byte | Supported_index int | User_line "byte list" | Counter "32 word" | Done_line

definition supported_indexes :: "byte list \<Rightarrow> client_line list res" where
  "supported_indexes buffer =
     (let b = unat (buffer ! 1)
      in if 2 + b \<le> length buffer then Inr (map (\<lambda>i. Supported_index (sint (buffer ! (2 + i)))) [0..<b])
         else Inl Undefined)"

text \<open>\<open>strncpy\<close> stops at a terminator, so the bytes behind it are not read.\<close>

fun list_users_from :: "nat \<Rightarrow> nat \<Rightarrow> byte list \<Rightarrow> client_line list res" where
  "list_users_from 0 index buffer = Inr []"
| "list_users_from (Suc b) index buffer =
     (if index < length buffer
      then let user_len = unat (buffer ! index); s = take user_len (drop (index + 1) buffer)
           in if length s = user_len \<or> 0 \<in> set s
              then bind_res (list_users_from b (index + 1 + user_len) buffer) (\<lambda>l. Inr (User_line (cstr s) # l))
              else Inl Undefined
      else Inl Undefined)"

definition list_users :: "byte list \<Rightarrow> client_line list res" where
  "list_users buffer = list_users_from (unat (buffer ! 1)) 2 buffer"

definition cast_uint32 :: "byte list \<Rightarrow> 32 word" where
  "cast_uint32 buffer = ucast (buffer ! 1) OR push_bit 8 (ucast (buffer ! 2)) OR
     push_bit 16 (ucast (buffer ! 3)) OR push_bit 24 (ucast (buffer ! 4))"

text \<open>
  \<open>stats\<close> is only assigned for the counters; with an open file of statistics it is printed for
  every index. The result is the return value and the printed lines.
\<close>

definition request_response :: "bool \<Rightarrow> byte list option \<Rightarrow> byte list \<Rightarrow> int \<Rightarrow> (int \<times> client_line list) res" where
  "request_response append_file r buffer req_index =
     (let xs = (case r of None \<Rightarrow> [] | Some xs \<Rightarrow> take 500 xs); b = store_bytes 0 xs buffer
      in if b ! 0 \<noteq> 0
         then Inr (-1, if b ! 0 \<in> mng_reply_code ` {mng_status_index_not_supported, mng_status_server_error,
                         mng_status_max_users_reached} then [Refused (b ! 0)] else [])
         else bind_res (if req_index = 0 then bind_res (supported_indexes b) (\<lambda>l. Inr (l, False))
                        else if req_index = 1 then bind_res (list_users b) (\<lambda>l. Inr (l, False))
                        else if 2 \<le> req_index \<and> req_index \<le> 9 then Inr ([Counter (cast_uint32 b)], True)
                        else Inr ([Done_line], False)) (\<lambda>(l, stats).
              if req_index < 0 \<or> req_index > 13 then Inr (-1, [])
              else if append_file \<and> \<not> stats then Inl Undefined
              else Inr (0, l)))"

section \<open>The dialogue\<close>

text \<open>
  The body of \<open>main\<close> after the connection: the greeting, the credentials, one request, its
  response. \<open>recv i\<close> is the answer to the \<open>i\<close>-th \<open>recv\<close>, \<open>sends i\<close> tells that the \<open>i\<close>-th \<open>send\<close>
  does not fail. The result is the bytes of the calls of \<open>send\<close> and the printed lines.
\<close>

record client_env =
  ce_recv :: "nat \<Rightarrow> byte list option"
  ce_sends :: "nat \<Rightarrow> bool"
  ce_buffer :: "nat \<Rightarrow> byte list"
  ce_index :: int
  ce_word1 :: "byte list"
  ce_word2 :: "byte list"
  ce_append :: bool

definition client_request :: "client_env \<Rightarrow> byte list list \<Rightarrow> (byte list list \<times> client_line list) res" where
  "client_request e sent =
     bind_res (send_request (ce_index e) (ce_word1 e) (ce_word2 e) (ce_buffer e 1)) (\<lambda>m.
     case m of
       None \<Rightarrow> Inr (sent, [])
     | Some xs \<Rightarrow>
         if ce_sends e 2
         then bind_res (request_response (ce_append e) (ce_recv e 2) (ce_buffer e 2) (ce_index e)) (\<lambda>(ret, l).
                Inr (sent @ [xs], l))
         else Inr (sent @ [xs], []))"

definition client_dialogue :: "client_env \<Rightarrow> client_user \<Rightarrow> (byte list list \<times> client_line list) res" where
  "client_dialogue e user =
     (let hello = handshake user; response = handshake_response (ce_recv e 0)
      in if \<not> ce_sends e 0 \<or> response = 0xFF then Inr ([hello], [])
         else bind_res (if response = 0x02 then bind_res (send_credentials (ce_buffer e 0) user) (\<lambda>xs. Inr [hello, xs])
                        else Inr [hello]) (\<lambda>sent.
              if response = 0x02 \<and> \<not> ce_sends e 1 then Inr (sent, [])
              else if credentials_response (ce_recv e 1) \<noteq> 0x00 then Inr (sent, [])
              else client_request e sent))"

section \<open>The messages\<close>

lemma send_credentials_message:
  assumes "length buffer = 510" and "cu_username user = Some u" and "cu_password user = Some p"
    and "length (cstr u) + length (cstr p) \<le> 506"
  shows "send_credentials buffer user = Inr (userpass_message (cstr u) (cstr p))"
proof -
  let ?u = "cstr u" and ?p = "cstr p"
  obtain b1 where b1: "put_at 0 [0x01, of_nat (length ?u)] buffer = Inr b1" "length b1 = 510"
      "begins [0x01, of_nat (length ?u)] b1"
    using put_at_next [of "[]" buffer 0 "[0x01, of_nat (length ?u)]"] assms(1) by auto
  obtain b2 where b2: "strcpy_at 2 u b1 = Inr b2" "length b2 = 510" "begins (0x01 # of_nat (length ?u) # ?u) b2"
    using strcpy_at_next [OF b1(3), of 2 u] b1(2) assms(4) by auto
  obtain b3 where b3: "put_at (2 + length ?u) [of_nat (length ?p)] b2 = Inr b3" "length b3 = 510"
      "begins (0x01 # of_nat (length ?u) # ?u @ [of_nat (length ?p)]) b3"
    using put_at_next [OF b2(3), of "2 + length ?u" "[of_nat (length ?p)]"] b2(2) assms(4) by auto
  obtain b4 where b4: "strcpy_at (3 + length ?u) p b3 = Inr b4"
      "begins (0x01 # of_nat (length ?u) # ?u @ of_nat (length ?p) # ?p) b4"
    using strcpy_at_next [OF b3(3), of "3 + length ?u" p] b3(2) assms(4) by auto
  from b1(1) b2(1) b3(1) b4 assms(2,3) show ?thesis
    by (simp add: send_credentials_def userpass_message_def begins_def Let_def ac_simps numeral_3_eq_3)
qed

text \<open>The array has room for 506 bytes of name and password together, not for the 510 of the protocol.\<close>

lemma send_credentials_overflow:
  assumes "length buffer = 510" and "cu_username user = Some u" and "cu_password user = Some p"
    and "length (cstr u) \<le> 255" and "length (cstr p) \<le> 255" and "506 < length (cstr u) + length (cstr p)"
  shows "send_credentials buffer user = Inl Undefined"
proof -
  have len: "put_at i xs m = Inr m' \<Longrightarrow> length m' = length m" for i m' and xs m :: "byte list"
    by (auto simp: put_at_def split: if_splits)
  have cpy: "strcpy_at (3 + length (cstr u)) p m = Inl Undefined" if "length m = 510" for m
    using that assms(6) by (simp add: strcpy_at_def put_at_def)
  show ?thesis
    using assms(1-3) cpy
    by (auto simp: send_credentials_def Let_def bind_res_def strcpy_at_def put_at_def split: sum.splits if_splits)
qed

lemma add_user_bytes:
  assumes "length buffer = 512" and "begins [c] buffer" and "length u < 255" and "length p < 255"
  shows "\<exists>b. add_user u p buffer = Inr (length (cstr u) + length (cstr p) + 3, b) \<and>
    begins (c # add_user_message (cstr u) (cstr p)) b"
proof -
  let ?u = "cstr u" and ?p = "cstr p"
  have l: "length ?u \<le> 254" "length ?p \<le> 254"
    using assms(3,4) length_cstr [of u] length_cstr [of p] by linarith+
  obtain b1 where b1: "put_at 1 [of_nat (length ?u)] buffer = Inr b1" "length b1 = 512"
      "begins [c, of_nat (length ?u)] b1"
    using put_at_next [OF assms(2), of 1 "[of_nat (length ?u)]"] assms(1) by auto
  obtain b2 where b2: "strcpy_at 2 u b1 = Inr b2" "length b2 = 512" "begins (c # of_nat (length ?u) # ?u) b2"
    using strcpy_at_next [OF b1(3), of 2 u] b1(2) l by auto
  obtain b3 where b3: "put_at (2 + length ?u) [of_nat (length ?p)] b2 = Inr b3" "length b3 = 512"
      "begins (c # of_nat (length ?u) # ?u @ [of_nat (length ?p)]) b3"
    using put_at_next [OF b2(3), of "2 + length ?u" "[of_nat (length ?p)]"] b2(2) l by auto
  obtain b4 where b4: "strcpy_at (3 + length ?u) p b3 = Inr b4"
      "begins (c # of_nat (length ?u) # ?u @ of_nat (length ?p) # ?p) b4"
    using strcpy_at_next [OF b3(3), of "3 + length ?u" p] b3(2) l by auto
  from b1(1) b2(1) b3(1) b4 assms(3,4) show ?thesis
    by (simp add: add_user_def scan_word_def add_user_message_def Let_def ac_simps)
qed

lemma delete_user_bytes:
  assumes "length buffer = 512" and "begins [c] buffer" and "length u < 255"
  shows "\<exists>b. delete_user u buffer = Inr (length (cstr u) + 2, b) \<and>
    begins (c # delete_user_message (cstr u)) b"
proof -
  let ?u = "cstr u"
  have l: "length ?u \<le> 254" using assms(3) length_cstr [of u] by linarith
  obtain b1 where b1: "put_at 1 [of_nat (length ?u)] buffer = Inr b1" "length b1 = 512"
      "begins [c, of_nat (length ?u)] b1"
    using put_at_next [OF assms(2), of 1 "[of_nat (length ?u)]"] assms(1) by auto
  obtain b2 where b2: "strcpy_at 2 u b1 = Inr b2" "begins (c # of_nat (length ?u) # ?u) b2"
    using strcpy_at_next [OF b1(3), of 2 u] b1(2) l by auto
  from b1(1) b2 assms(3) show ?thesis
    by (simp add: delete_user_def scan_word_def delete_user_message_def Let_def ac_simps)
qed

text \<open>What the requests with parameters send.\<close>

definition on_word :: "byte list \<Rightarrow> bool" where "on_word w \<longleftrightarrow> map lower (cstr w) = [0x6F, 0x6E]"

definition off_word :: "byte list \<Rightarrow> bool" where "off_word w \<longleftrightarrow> map lower (cstr w) = [0x6F, 0x66, 0x66]"

lemma first_byte_sent:
  assumes "length buffer = 512"
  shows "\<exists>b. put_at 0 [c] buffer = Inr b \<and> length b = 512 \<and> begins [c] b"
  using put_at_next [of "[]" buffer 0 "[c]"] assms by auto

lemma begins_take: "begins p b \<Longrightarrow> n = length p \<Longrightarrow> take n b = p"
  by (simp add: begins_def)

lemma send_request_add:
  assumes "length buffer = 512" and "length u < 255" and "length p < 255"
  shows "send_request 10 u p buffer = Inr (Some (10 # add_user_message (cstr u) (cstr p)))"
proof -
  obtain b where b: "put_at 0 [10] buffer = Inr b" "length b = 512" "begins [10] b"
    using first_byte_sent [OF assms(1)] by blast
  obtain b' where "add_user u p b = Inr (length (cstr u) + length (cstr p) + 3, b')"
      "begins (10 # add_user_message (cstr u) (cstr p)) b'"
    using add_user_bytes [OF b(2,3) assms(2,3)] by blast
  moreover from begins_take [OF this(2), of "length (cstr u) + length (cstr p) + 3"]
  have "take (length (cstr u) + length (cstr p) + 3) b' = 10 # add_user_message (cstr u) (cstr p)"
    by (simp add: add_user_message_def)
  ultimately show ?thesis using b(1) by (simp add: send_request_def)
qed

lemma send_request_delete:
  assumes "length buffer = 512" and "length u < 255"
  shows "send_request 11 u p buffer = Inr (Some (11 # delete_user_message (cstr u)))"
proof -
  obtain b where b: "put_at 0 [11] buffer = Inr b" "length b = 512" "begins [11] b"
    using first_byte_sent [OF assms(1)] by blast
  obtain b' where "delete_user u b = Inr (length (cstr u) + 2, b')" "begins (11 # delete_user_message (cstr u)) b'"
    using delete_user_bytes [OF b(2,3) assms(2)] by blast
  moreover from begins_take [OF this(2), of "length (cstr u) + 2"]
  have "take (length (cstr u) + 2) b' = 11 # delete_user_message (cstr u)"
    by (simp add: delete_user_message_def)
  ultimately show ?thesis using b(1) by (simp add: send_request_def)
qed

lemma disable_enable_bytes:
  assumes "length buffer = 512" and "begins [c] buffer" and "length w < 50"
  shows "on_word w \<Longrightarrow> \<exists>b. disable_enable w buffer = Inr (Some 2, b) \<and> begins [c, 0] b"
    and "off_word w \<Longrightarrow> \<exists>b. disable_enable w buffer = Inr (Some 2, b) \<and> begins [c, 1] b"
    and "\<not> on_word w \<Longrightarrow> \<not> off_word w \<Longrightarrow> disable_enable w buffer = Inr (None, buffer)"
  using put_at_next [OF assms(2), of 1 "[0]"] put_at_next [OF assms(2), of 1 "[1]"] assms(1,3)
  by (auto simp: disable_enable_def scan_word_def on_word_def off_word_def Let_def simp del: put_at_simp)

lemma send_request_switch:
  assumes "length buffer = 512" and "length w < 50" and "i = 12 \<or> i = 13"
  shows "on_word w \<Longrightarrow> send_request i w w2 buffer = Inr (Some [of_int i, 0])"
    and "off_word w \<Longrightarrow> send_request i w w2 buffer = Inr (Some [of_int i, 1])"
    and "\<not> on_word w \<Longrightarrow> \<not> off_word w \<Longrightarrow> send_request i w w2 buffer = Inr None"
proof -
  obtain b where b: "put_at 0 [of_int i] buffer = Inr b" "length b = 512" "begins [of_int i] b"
    using first_byte_sent [OF assms(1)] by blast
  have send: "send_request i w w2 buffer = bind_res (disable_enable w b) (\<lambda>(n, b).
     Inr (case n of None \<Rightarrow> None | Some n \<Rightarrow> Some (take n b)))"
    using b(1) assms(3) by (auto simp: send_request_def simp del: put_at_simp)
  show "on_word w \<Longrightarrow> send_request i w w2 buffer = Inr (Some [of_int i, 0])"
    using disable_enable_bytes(1) [OF b(2,3) assms(2)] begins_take [of "[of_int i, 0]" _ 2] by (auto simp: send)
  show "off_word w \<Longrightarrow> send_request i w w2 buffer = Inr (Some [of_int i, 1])"
    using disable_enable_bytes(2) [OF b(2,3) assms(2)] begins_take [of "[of_int i, 1]" _ 2] by (auto simp: send)
  show "\<not> on_word w \<Longrightarrow> \<not> off_word w \<Longrightarrow> send_request i w w2 buffer = Inr None"
    using disable_enable_bytes(3) [OF b(2,3) assms(2)] by (simp add: send)
qed

lemma send_request_plain:
  assumes "length buffer = 512" and "i \<notin> {10, 11, 12, 13}"
  shows "send_request i w1 w2 buffer = Inr (Some [if 0 \<le> i \<and> i \<le> 13 then of_int i else 0xFF])"
  using first_byte_sent [OF assms(1), of "if 0 \<le> i \<and> i \<le> 13 then of_int i else 0xFF"] assms(2)
    begins_take [of "[if 0 \<le> i \<and> i \<le> 13 then of_int i else 0xFF]" _ 1]
  by (auto simp: send_request_def simp del: put_at_simp)

section \<open>The responses\<close>

lemma cast_uint32_bytes: "cast_uint32 (x # uint32_bytes v @ ys) = v"
proof (rule bit_word_eqI)
  fix n assume n: "n < LENGTH(32)"
  consider "n < 8" | "8 \<le> n" "n < 16" | "16 \<le> n" "n < 24" | "24 \<le> n" "n < 32" using n by force
  then show "bit (cast_uint32 (x # uint32_bytes v @ ys)) n = bit v n"
    by cases (auto simp: cast_uint32_def uint32_bytes_def bit_simps less_diff_conv2)
qed

lemma list_users_names:
  assumes "\<forall>n \<in> set ns. length n < 256 \<and> 0 \<notin> set n"
  shows "length pre = i \<Longrightarrow> list_users_from (length ns) i (pre @ encode_names ns @ rest) = Inr (map User_line ns)"
  using assms
proof (induction ns arbitrary: pre i)
  case Nil
  then show ?case by simp
next
  case (Cons n ns)
  have "encode_names (n # ns) = of_nat (length n) # n @ encode_names ns" by (simp add: encode_names_def)
  moreover have "list_users_from (length ns) (i + 1 + length n) ((pre @ of_nat (length n) # n) @ encode_names ns @ rest) =
      Inr (map User_line ns)"
    using Cons by (intro Cons.IH) auto
  ultimately show ?case using Cons.prems by (simp add: nth_append)
qed

lemma client_lists_users:
  assumes "length g = 500" and "\<forall>n \<in> set ns. length n < 256 \<and> 0 \<notin> set n" and "length ns < 256"
    and "2 + length (encode_names ns) \<le> 500"
  shows "request_response False (Some (0 # of_nat (length ns) # encode_names ns)) g 1 = Inr (0, map User_line ns)"
proof -
  let ?b = "[0, of_nat (length ns)] @ encode_names ns @ drop (2 + length (encode_names ns)) g"
  have "store_bytes 0 (0 # of_nat (length ns) # encode_names ns) g = ?b" by (simp add: store_bytes_def)
  moreover have "list_users ?b = Inr (map User_line ns)"
    using list_users_names [OF assms(2), of "[0, of_nat (length ns)]" 2] assms(3) by (simp add: list_users_def)
  ultimately show ?thesis using assms(1,4) by (simp add: request_response_def Let_def)
qed

text \<open>A list that is longer than the array: the walk over the names leaves it.\<close>

lemma list_users_cut:
  assumes "\<forall>n \<in> set ns. length n < 256 \<and> 0 \<notin> set n" and "i \<le> length b"
    and "drop i b = take (length b - i) (encode_names ns)" and "length b - i < length (encode_names ns)"
  shows "list_users_from (length ns) i b = Inl Undefined"
  using assms
proof (induction ns arbitrary: i)
  case Nil
  then show ?case by (simp add: encode_names_def)
next
  case (Cons n ns)
  have e: "encode_names (n # ns) = of_nat (length n) # n @ encode_names ns" by (simp add: encode_names_def)
  have n: "unat (of_nat (length n) :: byte) = length n" using Cons.prems(1) by (simp add: unat_of_nat)
  show ?case
  proof (cases "i < length b")
    case False
    then show ?thesis by simp
  next
    case True
    then obtain r where r: "length b - i = Suc r" by (metis Suc_diff_Suc)
    have "drop i b = of_nat (length n) # take r (n @ encode_names ns)" using Cons.prems(3) by (simp add: e r)
    then have at: "b ! i = of_nat (length n)" "drop (i + 1) b = take r (n @ encode_names ns)"
      using True by (simp_all add: Cons_nth_drop_Suc [symmetric])
    let ?s = "take (length n) (drop (i + 1) b)"
    have step: "list_users_from (length (n # ns)) i b = (if length ?s = length n \<or> 0 \<in> set ?s
        then bind_res (list_users_from (length ns) (i + 1 + length n) b) (\<lambda>l. Inr (User_line (cstr ?s) # l))
        else Inl Undefined)"
      using True at(1) n by (simp add: Let_def)
    show ?thesis
    proof (cases "length n \<le> r")
      case True
      have "drop (length n) (drop (i + 1) b) = drop (length n) (take r (n @ encode_names ns))" by (simp only: at(2))
      then have "drop (i + 1 + length n) b = take (r - length n) (encode_names ns)"
        using True by (simp add: drop_take add.commute)
      moreover have "length b - (i + 1 + length n) = r - length n" using r by simp
      moreover have "r - length n < length (encode_names ns)" using Cons.prems(4) r True by (simp add: e)
      moreover have "i + 1 + length n \<le> length b" using r True by simp
      ultimately have "list_users_from (length ns) (i + 1 + length n) b = Inl Undefined"
        using Cons.IH Cons.prems(1) by simp
      then show ?thesis unfolding step by simp
    next
      case False
      then have "?s = take r n" using at(2) by simp
      moreover have "0 \<notin> set (take r n)" using Cons.prems(1) by (auto dest: in_set_takeD)
      ultimately show ?thesis unfolding step using False by simp
    qed
  qed
qed

lemma client_lists_users_cut:
  assumes "length g = 500" and "\<forall>n \<in> set ns. length n < 256 \<and> 0 \<notin> set n" and "length ns < 256"
    and "500 < 2 + length (encode_names ns)"
  shows "request_response False (Some (0 # of_nat (length ns) # encode_names ns)) g 1 = Inl Undefined"
proof -
  let ?r = "0 # of_nat (length ns) # encode_names ns"
  let ?b = "0 # of_nat (length ns) # take 498 (encode_names ns)"
  have b: "take 500 ?r = ?b" "length ?b = 500" "store_bytes 0 ?b g = ?b"
    using assms(1,4) by (simp_all add: store_bytes_def)
  have "list_users ?b = Inl Undefined"
    using list_users_cut [OF assms(2), of 2 ?b] assms(3,4) by (simp add: list_users_def unat_of_nat)
  then show ?thesis by (simp add: request_response_def Let_def b(1,3))
qed

lemma client_counts:
  assumes "length g = 500" and "2 \<le> i" and "i \<le> 9"
  shows "request_response app (Some (0 # uint32_bytes v)) g i = Inr (0, [Counter v])"
proof -
  have "store_bytes 0 (0 # uint32_bytes v) g = 0 # uint32_bytes v @ drop 5 g"
    by (simp add: store_bytes_def uint32_bytes_def eval_nat_numeral)
  moreover have "take 500 (0 # uint32_bytes v) = 0 # uint32_bytes v" by (simp add: uint32_bytes_def)
  ultimately show ?thesis
    using assms cast_uint32_bytes [of 0 v "drop 5 g"] by (simp add: request_response_def Let_def)
qed

lemma client_supported:
  assumes "length g = 500" and "length l < 256" and "\<forall>x \<in> set l. unat x < 128"
  shows "request_response False (Some (0 # of_nat (length l) # l)) g 0 = Inr (0, map (\<lambda>x. Supported_index (uint x)) l)"
proof -
  let ?b = "0 # of_nat (length l) # l @ drop (2 + length l) g"
  have b: "store_bytes 0 (0 # of_nat (length l) # l) g = ?b" "take 500 (0 # of_nat (length l) # l) = 0 # of_nat (length l) # l"
    using assms(2) by (simp_all add: store_bytes_def)
  have s: "sint x = uint x" if "x \<in> set l" for x :: byte
  proof -
    have "unat x < 128" using assms(3) that by blast
    then have "uint x < 128" unfolding uint_nat by linarith
    moreover have "- 128 \<le> uint x" by (rule order_trans [OF _ uint_ge_0]) simp
    ultimately have "signed_take_bit 7 (uint x) = uint x" by (intro signed_take_bit_int_eq_self) simp_all
    then show ?thesis by (simp add: sint_uint)
  qed
  have "map (\<lambda>i. Supported_index (sint (?b ! (2 + i)))) [0..<length l] = map (\<lambda>x. Supported_index (uint x)) l"
    using s by (intro nth_equalityI) (auto simp: nth_append)
  then have "supported_indexes ?b = Inr (map (\<lambda>x. Supported_index (uint x)) l)"
    using assms(2) by (simp add: supported_indexes_def)
  then show ?thesis using b by (simp add: request_response_def)
qed

text \<open>A dialogue with a server that asks for the credentials and accepts them.\<close>

lemma dialogue_requests:
  assumes "\<forall>i. ce_sends e i" and "ce_recv e 0 = Some [v, 2]" and "ce_recv e 1 = Some [v', 0]"
    and "cu_credentials user" and "send_credentials (ce_buffer e 0) user = Inr login"
    and "send_request (ce_index e) (ce_word1 e) (ce_word2 e) (ce_buffer e 1) = Inr (Some req)"
    and "request_response (ce_append e) (ce_recv e 2) (ce_buffer e 2) (ce_index e) = Inr (ret, l)"
  shows "client_dialogue e user = Inr ([[1, 2, 0, 2], login, req], l)"
  using assms by (simp add: client_dialogue_def client_request_def handshake_def handshake_response_def
      credentials_response_def)

text \<open>With an open file of statistics, a request that is not a counter prints the unset variable.\<close>

lemma statistics_unset:
  assumes "r = Some (0 # xs)" and "length g = 500" and "10 \<le> i" and "i \<le> 13"
  shows "request_response True r g i = Inl Undefined"
  using assms by (simp add: request_response_def store_bytes_def Let_def)

end
