(* ===== verification/Client_Main.thy ===== *)
theory Client_Main
  imports Client Startup
begin

unbundle bit_operations_syntax

text \<open>
  The management client from its command line to its exit code (\<open>src/src/client/clientArgs.c\<close>,
  \<open>main\<close> of \<open>src/src/client/client.c\<close>), the messages of both programs for debugging
  (\<open>src/src/debug.c\<close>), and the connection by name of \<open>src/src/client/tcpClientUtil.c\<close>, which
  nothing calls. What the options make of the address of the management service is compared with
  the parser of the server.
\<close>

section \<open>Debugging\<close>

definition STDOUT_DEBUG :: int where "STDOUT_DEBUG = 1"
definition FILE_DEBUG :: int where "FILE_DEBUG = 2"

text \<open>The messages on the standard output and, unless it is NULL, the file.\<close>

record debug_message =
  dm_etiqueta :: "byte list"
  dm_codigo :: int
  dm_mensaje :: "byte list"
  dm_extra :: int

record debug_state =
  dbg_setting :: int
  dbg_file :: "debug_message list option"
  dbg_stdout :: "debug_message list"

definition debug_init :: "bool \<Rightarrow> int \<Rightarrow> debug_state \<Rightarrow> debug_state" where
  "debug_init fopens setting s =
     (let s = s\<lparr>dbg_setting := setting\<rparr>
      in if setting = FILE_DEBUG then s\<lparr>dbg_file := if fopens then Some [] else None\<rparr> else s)"

definition debug :: "debug_message \<Rightarrow> debug_state \<Rightarrow> debug_state res" where
  "debug m s =
     (let s = (if dbg_setting s = STDOUT_DEBUG then s\<lparr>dbg_stdout := dbg_stdout s @ [m]\<rparr> else s)
      in if dbg_setting s = FILE_DEBUG
         then (case dbg_file s of None \<Rightarrow> Inl Undefined | Some l \<Rightarrow> Inr (s\<lparr>dbg_file := Some (l @ [m])\<rparr>))
         else Inr s)"

definition debug_file_close :: "debug_state \<Rightarrow> debug_state res" where
  "debug_file_close s = (case dbg_file s of None \<Rightarrow> Inl Undefined | Some l \<Rightarrow> Inr s)"

section \<open>The command line\<close>

text \<open>The flag of debugging is a \<open>bool\<close>; the memory of the user comes uninitialised from \<open>malloc\<close> (\<open>None\<close>).\<close>

record m16args =
  m16_addr :: "byte list"
  m16_addr_6 :: "byte list"
  m16_port :: int
  m16_family :: int
  m16_addr_info :: sockaddr
  m16_addr_info6 :: sockaddr
  m16_user :: "client_user option"
  m16_file_path :: "byte list option"
  m16_append :: bool
  m16_debug :: bool

definition m16_defaults :: m16args where
  "m16_defaults =
     \<lparr>m16_addr = loopback4, m16_addr_6 = loopback6, m16_port = 8080, m16_family = AF_UNSPEC,
      m16_addr_info = zero_addr4, m16_addr_info6 = zero_addr6, m16_user = None, m16_file_path = None,
      m16_append = False, m16_debug = False\<rparr>"

definition client_port :: "byte list \<Rightarrow> int" where
  "client_port s =
     (case strtol s of
        None \<Rightarrow> -1
      | Some (sl, rest) \<Rightarrow> 
          if rest \<noteq> [] \<or> (sl = LONG_MIN \<or> sl = LONG_MAX) \<and> strtol_erange s \<or> sl < 0 \<or> sl > 65535 then -1 else sl)"

definition client_user_arg :: "byte list \<Rightarrow> client_user option" where
  "client_user_arg s =
     (case split_at 58 s of
        None \<Rightarrow> None
      | Some (u, p) \<Rightarrow> Some \<lparr>cu_username = Some u, cu_password = Some p, cu_credentials = True\<rparr>)"

definition client_option :: "inet \<Rightarrow> char \<Rightarrow> byte list \<Rightarrow> m16args \<Rightarrow> m16args option" where
  "client_option n c optarg a =
     (if c = CHR ''d'' then Some (a\<lparr>m16_debug := STDOUT_DEBUG \<noteq> 0\<rparr>)
      else if c = CHR ''D'' then Some (a\<lparr>m16_debug := FILE_DEBUG \<noteq> 0\<rparr>)
      else if c = CHR ''L''
      then (let (f, a4, a6) = address_processing n optarg (m16_addr_info a) (m16_addr_info6 a) (m16_port a);
                a = a\<lparr>m16_family := f, m16_addr_info := a4, m16_addr_info6 := a6\<rparr>
            in if f = -1 then None
               else if f = AF_INET then Some (a\<lparr>m16_addr := optarg\<rparr>)
               else if f = AF_INET6 then Some (a\<lparr>m16_addr_6 := optarg\<rparr>) else Some a)
      else if c = CHR ''P''
      then (let aux = client_port optarg
            in if aux = -1 then None
               else Some (a\<lparr>m16_port := aux, m16_addr_info := (m16_addr_info a)\<lparr>sa_port := htons aux\<rparr>,
                            m16_addr_info6 := (m16_addr_info6 a)\<lparr>sa_port := htons aux\<rparr>\<rparr>))
      else if c = CHR ''u''
      then (case client_user_arg optarg of None \<Rightarrow> None | Some u \<Rightarrow> Some (a\<lparr>m16_user := Some u\<rparr>))
      else if c = CHR ''f'' then Some (a\<lparr>m16_file_path := Some optarg, m16_append := True\<rparr>)
      else None)"

fun client_options :: "inet \<Rightarrow> (char \<times> byte list) list \<Rightarrow> m16args \<Rightarrow> m16args option" where
  "client_options n [] a = Some a"
| "client_options n ((c, optarg) # opts) a =
     (case client_option n c optarg a of None \<Rightarrow> None | Some a' \<Rightarrow> client_options n opts a')"

definition client_parse_args :: "inet \<Rightarrow> (char \<times> byte list) list \<Rightarrow> nat \<Rightarrow> m16args option" where
  "client_parse_args n opts operands =
     (case client_options n opts m16_defaults of
        None \<Rightarrow> None
      | Some a \<Rightarrow>
          if operands > 0 then None
          else if m16_family a = AF_UNSPEC
          then (let (aux, a4, a6) = address_processing n (m16_addr a) (m16_addr_info a) (m16_addr_info6 a) (m16_port a)
                in if aux = -1 then None
                   else let (aux, a4, a6) = address_processing n (m16_addr_6 a) a4 a6 (m16_port a)
                        in if aux = -1 then None else Some (a\<lparr>m16_addr_info := a4, m16_addr_info6 := a6\<rparr>))
          else Some a)"

section \<open>The program\<close>

record client_main_env =
  cm_alloc_args :: bool
  cm_alloc_user :: bool
  cm_inet :: inet
  cm_options :: "(char \<times> byte list) list"
  cm_operands :: nat
  cm_fopen :: "byte list option \<Rightarrow> bool"
  cm_socket :: "int \<Rightarrow> int"
  cm_connect :: "int \<Rightarrow> sockaddr \<Rightarrow> bool"
  cm_dialogue :: client_env

text \<open>The family of the socket and the address of the branch that \<open>main\<close> takes.\<close>

definition client_peer :: "m16args \<Rightarrow> (int \<times> sockaddr) option" where
  "client_peer a =
     (if m16_family a = AF_UNSPEC \<or> m16_family a = AF_INET then Some (AF_INET, m16_addr_info a)
      else if m16_family a = AF_INET6 then Some (AF_INET6, m16_addr_info6 a)
      else None)"

text \<open>The exit code, the bytes of the calls of \<open>send\<close> and the printed lines of the dialogue.\<close>

definition client_main :: "client_main_env \<Rightarrow> (int \<times> byte list list \<times> client_line list) res" where
  "client_main e =
     (if \<not> cm_alloc_args e \<or> \<not> cm_alloc_user e then Inr (1, [], [])
      else case client_parse_args (cm_inet e) (cm_options e) (cm_operands e) of
        None \<Rightarrow> Inr (1, [], [])
      | Some a \<Rightarrow>
          if m16_append a \<and> \<not> cm_fopen e (m16_file_path a) then Inr (-1, [], [])
          else (case client_peer a of
                  None \<Rightarrow> Inl Undefined
                | Some (f, addr) \<Rightarrow>
                    if \<not> cm_connect e (cm_socket e f) addr then Inr (0, [], [])
                    else (case m16_user a of
                            None \<Rightarrow> Inl Undefined
                          | Some user \<Rightarrow>
                              bind_res (client_dialogue ((cm_dialogue e)\<lparr>ce_append := m16_append a\<rparr>) user)
                                (\<lambda>(sent, l). Inr (0, sent, l)))))"

text \<open>
  \<open>tcpClientSocket\<close>: \<open>res\<close> is the answer of \<open>getaddrinfo\<close>, \<open>sck\<close> and \<open>conn\<close> are those of
  \<open>socket\<close> and \<open>connect\<close> for one address.
\<close>

fun connect_first :: "(sockaddr \<Rightarrow> int) \<Rightarrow> (sockaddr \<Rightarrow> bool) \<Rightarrow> sockaddr list \<Rightarrow> int \<Rightarrow> int" where
  "connect_first sck conn [] sock = sock"
| "connect_first sck conn (a # l) sock =
     (if sock \<noteq> -1 then sock
      else connect_first sck conn l (if sck a \<ge> 0 then (if conn a then sck a else -1) else sck a))"

definition tcpClientSocket :: "sockaddr list option \<Rightarrow> (sockaddr \<Rightarrow> int) \<Rightarrow> (sockaddr \<Rightarrow> bool) \<Rightarrow> int" where
  "tcpClientSocket res sck conn = (case res of None \<Rightarrow> -1 | Some l \<Rightarrow> connect_first sck conn l (-1))"

section \<open>Both programs read the same address\<close>

text \<open>The address of the management service, in the arguments of either program.\<close>

record endpoint =
  ep_addr :: "byte list"
  ep_addr_6 :: "byte list"
  ep_port :: int
  ep_family :: int
  ep_info :: sockaddr
  ep_info6 :: sockaddr

definition server_endpoint :: "socks5args \<Rightarrow> endpoint" where
  "server_endpoint a = \<lparr>ep_addr = mng_addr a, ep_addr_6 = mng_addr_6 a, ep_port = mng_port a,
     ep_family = mng_family a, ep_info = mng_addr_info a, ep_info6 = mng_addr_info6 a\<rparr>"

definition client_endpoint :: "m16args \<Rightarrow> endpoint" where
  "client_endpoint a = \<lparr>ep_addr = m16_addr a, ep_addr_6 = m16_addr_6 a, ep_port = m16_port a,
     ep_family = m16_family a, ep_info = m16_addr_info a, ep_info6 = m16_addr_info6 a\<rparr>"

definition endpoint_option :: "inet \<Rightarrow> char \<times> byte list \<Rightarrow> endpoint \<Rightarrow> endpoint" where
  "endpoint_option n o1 ep =
     (case o1 of (c, v) \<Rightarrow>
        if c = CHR ''L''
        then (let (f, a4, a6) = address_processing n v (ep_info ep) (ep_info6 ep) (ep_port ep);
                  ep = ep\<lparr>ep_family := f, ep_info := a4, ep_info6 := a6\<rparr>
              in if f = AF_INET then ep\<lparr>ep_addr := v\<rparr> else if f = AF_INET6 then ep\<lparr>ep_addr_6 := v\<rparr> else ep)
        else if c = CHR ''P''
        then ep\<lparr>ep_port := port_arg v, ep_info := (ep_info ep)\<lparr>sa_port := htons (port_arg v)\<rparr>,
                ep_info6 := (ep_info6 ep)\<lparr>sa_port := htons (port_arg v)\<rparr>\<rparr>
        else ep)"

definition endpoint_end :: "inet \<Rightarrow> endpoint \<Rightarrow> endpoint" where
  "endpoint_end n ep =
     (if ep_family ep = AF_UNSPEC
      then let (f, a4, a6) = address_processing n (ep_addr ep) (ep_info ep) (ep_info6 ep) (ep_port ep);
               (f, a4, a6) = address_processing n (ep_addr_6 ep) a4 a6 (ep_port ep)
           in ep\<lparr>ep_info := a4, ep_info6 := a6\<rparr>
      else ep)"

text \<open>The options that concern it.\<close>

definition of_endpoint :: "(char \<times> byte list) list \<Rightarrow> (char \<times> byte list) list" where
  "of_endpoint opts = filter (\<lambda>(c, v). c = CHR ''L'' \<or> c = CHR ''P'') opts"

definition read_endpoint :: "inet \<Rightarrow> (char \<times> byte list) list \<Rightarrow> endpoint" where
  "read_endpoint n opts = endpoint_end n (fold (endpoint_option n) (of_endpoint opts) (client_endpoint m16_defaults))"

lemma client_port_eq: "client_port = port_arg"
  by (simp add: client_port_def port_arg_def fun_eq_iff)

lemma endpoint_other: "c \<noteq> CHR ''L'' \<Longrightarrow> c \<noteq> CHR ''P'' \<Longrightarrow> endpoint_option n (c, v) ep = ep"
  by (simp add: endpoint_option_def)

lemma client_option_endpoint:
  assumes "client_option n c v a = Some a'"
  shows "client_endpoint a' = endpoint_option n (c, v) (client_endpoint a)"
proof -
  consider "c = CHR ''L''" | "c = CHR ''P''" | "c \<noteq> CHR ''L''" "c \<noteq> CHR ''P''" by blast
  then show ?thesis
  proof cases
    case 3
    then show ?thesis
      using assms by (auto simp: client_option_def client_endpoint_def endpoint_other split: if_splits option.splits)
  qed (use assms in \<open>auto simp: client_option_def client_endpoint_def endpoint_option_def client_port_eq Let_def
      split: if_splits prod.splits\<close>)
qed

lemma server_option_endpoint:
  assumes "process_option n alloc c v (a, us) = Inr (Some (a', us'))"
  shows "server_endpoint a' = endpoint_option n (c, v) (server_endpoint a)"
proof -
  consider "c = CHR ''L''" | "c = CHR ''P''" | "c \<noteq> CHR ''L''" "c \<noteq> CHR ''P''" by blast
  then show ?thesis
  proof cases
    case 3
    then show ?thesis
      using assms
      by (auto simp: process_option_def server_endpoint_def endpoint_other family_arg_def Let_def bind_res_eq_Inr
          split: if_splits option.splits prod.splits)
  qed (use assms in \<open>auto simp: process_option_def server_endpoint_def endpoint_option_def mng_family_arg_def Let_def
      split: if_splits prod.splits\<close>)
qed

lemma fold_endpoint:
  "fold (endpoint_option n) (of_endpoint ((c, v) # opts)) ep =
     fold (endpoint_option n) (of_endpoint opts) (endpoint_option n (c, v) ep)"
  by (simp add: of_endpoint_def endpoint_other)

lemma client_options_endpoint:
  "client_options n opts a = Some a' \<Longrightarrow>
     client_endpoint a' = fold (endpoint_option n) (of_endpoint opts) (client_endpoint a)"
  by (induction n opts a rule: client_options.induct)
    (auto simp: fold_endpoint client_option_endpoint of_endpoint_def [of "[]"] split: option.splits)

lemma server_options_endpoint:
  "process_options n alloc opts (a, us) = Inr (Some (a', us')) \<Longrightarrow>
     server_endpoint a' = fold (endpoint_option n) (of_endpoint opts) (server_endpoint a)"
proof (induction opts arbitrary: a us)
  case Nil
  then show ?case by (simp add: of_endpoint_def)
next
  case (Cons o1 opts)
  obtain c v where o1: "o1 = (c, v)" by (cases o1)
  from Cons.prems obtain a1 us1 where 1: "process_option n alloc c v (a, us) = Inr (Some (a1, us1))"
    and 2: "process_options n alloc opts (a1, us1) = Inr (Some (a', us'))"
    by (auto simp: o1 bind_res_eq_Inr split: option.splits)
  show ?case unfolding o1 fold_endpoint server_option_endpoint [OF 1, symmetric] by (rule Cons.IH [OF 2])
qed

lemma client_args_endpoint:
  assumes "client_parse_args n opts k = Some a"
  shows "client_endpoint a = read_endpoint n opts"
proof -
  obtain a1 where 1: "client_options n opts m16_defaults = Some a1"
    using assms by (auto simp: client_parse_args_def split: option.splits)
  have "client_endpoint a = endpoint_end n (client_endpoint a1)"
    using assms 1 by (auto simp: client_parse_args_def endpoint_end_def client_endpoint_def Let_def split: if_splits prod.splits)
  then show ?thesis using client_options_endpoint [OF 1] by (simp add: read_endpoint_def)
qed

lemma server_args_endpoint:
  assumes "parse_args n alloc opts k = Inr (Some (a, us))"
  shows "server_endpoint a = read_endpoint n opts"
proof -
  obtain a1 s4 s6 m4 m6 where 1: "process_options n alloc opts (default_args, []) = Inr (Some (a1, us))"
    and M: "(if mng_family a1 = AF_UNSPEC
      then default_addresses n (mng_addr a1) (mng_addr_6 a1) (mng_port a1) (mng_addr_info a1, mng_addr_info6 a1)
      else Some (mng_addr_info a1, mng_addr_info6 a1)) = Some (m4, m6)"
    and a: "a = a1\<lparr>socks_addr_info := s4, socks_addr_info6 := s6, mng_addr_info := m4, mng_addr_info6 := m6\<rparr>"
    by (rule parse_args_parts [OF assms])
  have "server_endpoint a = endpoint_end n (server_endpoint a1)"
    using M by (auto simp: a default_addresses_def endpoint_end_def server_endpoint_def Let_def split: if_splits prod.splits)
  moreover have "server_endpoint default_args = client_endpoint m16_defaults"
    by (simp add: server_endpoint_def client_endpoint_def default_args_def m16_defaults_def)
  ultimately show ?thesis using server_options_endpoint [OF 1] by (simp add: read_endpoint_def)
qed

lemma same_endpoint:
  assumes "client_parse_args n opts k = Some a" and "parse_args n alloc opts' k' = Inr (Some (s, us))"
    and "of_endpoint opts = of_endpoint opts'"
  shows "client_endpoint a = server_endpoint s"
  unfolding client_args_endpoint [OF assms(1)] server_args_endpoint [OF assms(2)] by (simp add: read_endpoint_def assms(3))

text \<open>The client connects to an address on which the server creates a master socket.\<close>

lemma peer_is_master:
  assumes "client_parse_args n opts k = Some a" and "parse_args n alloc opts' k' = Inr (Some (s, us))"
    and "of_endpoint opts = of_endpoint opts'"
  shows "client_peer a = Some (if mng_family s = AF_INET6 then (AF_INET6, mng_addr_info6 s) else (AF_INET, mng_addr_info s))"
proof -
  have e: "m16_family a = mng_family s" "m16_addr_info a = mng_addr_info s" "m16_addr_info6 a = mng_addr_info6 s"
    using same_endpoint [OF assms] by (simp_all add: client_endpoint_def server_endpoint_def)
  have "mng_family s \<in> {AF_UNSPEC, AF_INET, AF_INET6}"
    using parse_args_result(4) [OF assms(2)] by (simp add: ports_agree_def listens_def)
  then show ?thesis by (auto simp: client_peer_def e)
qed

section \<open>The options that go wrong\<close>

text \<open>Without \<open>-u\<close> the program reads a user that nothing has written.\<close>

lemma option_user: "client_option n c v a = Some a' \<Longrightarrow> c \<noteq> CHR ''u'' \<Longrightarrow> m16_user a' = m16_user a"
  by (auto simp: client_option_def Let_def split: if_splits prod.splits)

lemma options_user: "client_options n opts a = Some a' \<Longrightarrow> CHR ''u'' \<notin> fst ` set opts \<Longrightarrow> m16_user a' = m16_user a"
  by (induction n opts a rule: client_options.induct)
    (auto split: option.splits dest: option_user)

lemma args_user: "client_parse_args n opts k = Some a \<Longrightarrow> CHR ''u'' \<notin> fst ` set opts \<Longrightarrow> m16_user a = None"
  using options_user [of n opts m16_defaults]
  by (auto simp: client_parse_args_def m16_defaults_def Let_def split: option.splits if_splits prod.splits)

lemma no_user_option:
  assumes "cm_alloc_args e" and "cm_alloc_user e"
    and "client_parse_args (cm_inet e) (cm_options e) (cm_operands e) = Some a"
    and "m16_append a \<longrightarrow> cm_fopen e (m16_file_path a)"
    and "client_peer a = Some (f, addr)" and "cm_connect e (cm_socket e f) addr"
    and "CHR ''u'' \<notin> fst ` set (cm_options e)"
  shows "client_main e = Inl Undefined"
  using assms args_user [OF assms(3,7)] by (simp add: client_main_def)

text \<open>\<open>-D\<close> is \<open>-d\<close>: the \<open>bool\<close> of the arguments keeps the 2 of \<open>FILE_DEBUG\<close> as 1.\<close>

definition client_debug_setting :: "m16args \<Rightarrow> int" where
  "client_debug_setting a = (if m16_debug a then 1 else 0)"

lemma client_option_debug: "client_option n CHR ''D'' v a = client_option n CHR ''d'' v a"
  by (simp add: client_option_def STDOUT_DEBUG_def FILE_DEBUG_def)

lemma client_debug_never_file: "dbg_file (debug_init fopens (client_debug_setting a) s) = dbg_file s"
  by (simp add: debug_init_def client_debug_setting_def FILE_DEBUG_def)

text \<open>In the server, a file that cannot be opened ends the process at the next message.\<close>

lemma debug_without_file: "debug m (debug_init False FILE_DEBUG s) = Inl Undefined"
  by (simp add: debug_init_def debug_def FILE_DEBUG_def STDOUT_DEBUG_def)

section \<open>The connection by name\<close>

text \<open>The first address that accepts a connection.\<close>

lemma connect_first_connected: "sock \<noteq> -1 \<Longrightarrow> connect_first sck conn l sock = sock"
  by (cases l) simp_all

lemma connect_first_finds:
  assumes "\<forall>a. sck a \<ge> -1"
  shows "connect_first sck conn l (-1) = (case find (\<lambda>a. sck a \<ge> 0 \<and> conn a) l of None \<Rightarrow> -1 | Some a \<Rightarrow> sck a)"
proof (induction l)
  case Nil
  then show ?case by simp
next
  case (Cons a l)
  have "sck a = -1" if "\<not> 0 \<le> sck a" using that assms [rule_format, of a] by linarith
  then have "connect_first sck conn (a # l) (-1) =
      (if 0 \<le> sck a \<and> conn a then sck a else connect_first sck conn l (-1))"
    by (cases "0 \<le> sck a \<and> conn a") (auto simp: connect_first_connected)
  then show ?case using Cons by simp
qed

end
