(* ===== verification/Mng_Session.thy ===== *)
theory Mng_Session
  imports Login Client
begin

unbundle bit_operations_syntax

text \<open>
  A whole session of the management service, event by event (\<open>mng_read\<close> and \<open>mng_write\<close> of
  \<open>src/src/mng_nio.c\<close>): the login of an administrator, the index of a request, its parameters, the
  response, the end of the connection.
\<close>

section \<open>The machine of the management service\<close>

definition index_ready :: "byte list \<Rightarrow> client_stage" where
  "index_ready blk = Client_mng \<lparr>ms_parser = Parser_ready (index_parser blk), ms_status = mng_status_succeeded, ms_index = 0\<rparr>"

lemma mng_table:
  "on_arrival (client_mng ! 4) = Some mng_request_index_init" "on_departure (client_mng ! 4) = Some mng_request_index_close"
  "on_arrival (client_mng ! 5) = Some mng_request_init" "on_departure (client_mng ! 5) = Some mng_request_close"
  "on_arrival (client_mng ! 6) = Some mng_request_write_init" "on_departure (client_mng ! 6) = Some mng_request_write_close"
  "on_arrival (client_mng ! 7) = None" "on_departure (client_mng ! 7) = None"
  "on_read_ready (client_mng ! 4) = Some mng_request_index_read" "on_read_ready (client_mng ! 5) = Some mng_request_read"
  "on_write_ready (client_mng ! 6) = Some mng_request_write"
  by (simp_all add: client_mng_def bare_state_def)

lemma index_init_ok:
  assumes "sv_heap w (key_data k) = Some d" and "plentiful (key_os k)"
  shows "\<exists>blk. length blk = 2 \<and> mng_request_index_init st k w =
    Inr (w\<lparr>sv_heap := (sv_heap w)(key_data k \<mapsto> d\<lparr>client := index_ready blk\<rparr>)\<rparr>)"
proof -
  obtain blk where blk: "os_block (key_os k) 0 2 = Some blk" using assms(2) by (fastforce simp: plentiful_def)
  then have "length blk = 2" using assms(2) by (auto simp: plentiful_def allocator_ok_def)
  then show ?thesis
    using assms blk
    by (intro exI [of _ blk]) (simp add: mng_request_index_init_def sv_simps build_parser_def one_byte_steps_def
        parser_init_def fresh_parser_def substate_at_def index_parser_def substate_one_byte_def index_ready_def plentiful_def)
qed

interpretation mng_events: login_machine client_mng 8 False mng_finish 7 "index_ready ` {blk. length blk = 2}"
proof unfold_locales
  show "table_ok client_mng 8" using tables_ok_states(2) by simp
  show "4 < (7::nat)" "(7::nat) \<le> 8" by simp_all
  fix s k and w :: server and d and ready :: "(skey, server) state_definition \<Rightarrow> _"
  show "mng_finish k s w = Inr ((), w)" if "s < 7" using that by (simp add: mng_finish_def ret_sv_def)
  show "keeps selector.inv (run_machine (stm_dispatch ready) client_mng k)"
    if "ready = on_read_ready \<or> ready = on_write_ready \<or> ready = on_block_ready"
    using that by (intro selector.keeps_run_machine selector.tables_keep) (auto simp: stm_handler_defs)
  show "\<exists>c \<in> index_ready ` {blk. length blk = 2}. run_hook (on_arrival (client_mng ! 4)) 4 k w =
      Inr (w\<lparr>sv_heap := (sv_heap w)(key_data k \<mapsto> d\<lparr>client := c\<rparr>)\<rparr>)"
    if "sv_heap w (key_data k) = Some d" "plentiful (key_os k)"
    using index_init_ok [OF that, of 4] by (auto simp: mng_table run_hook_def)
qed simp

abbreviation mng_at :: "skey \<Rightarrow> server \<Rightarrow> socks5 \<Rightarrow> mng_state \<Rightarrow> bool" where
  "mng_at k w d s \<equiv> session_at 8 False k w d (mng_code s)"

section \<open>The hooks of the requests\<close>

lemma request_close_ok:
  assumes "sv_heap w (key_data k) = Some d" and "client d = Client_mng m" and "ms_parser m = Parser_ready q"
  shows "mng_request_close st k w =
    Inr (w\<lparr>sv_heap := (sv_heap w)(key_data k \<mapsto> d\<lparr>client := Client_mng (m\<lparr>ms_parser := Parser_freed\<rparr>)\<rparr>)\<rparr>)"
    and "mng_request_index_close st k w =
    Inr (w\<lparr>sv_heap := (sv_heap w)(key_data k \<mapsto> d\<lparr>client := Client_mng (m\<lparr>ms_parser := Parser_freed\<rparr>)\<rparr>)\<rparr>)"
  using assms
  by (simp_all add: mng_request_close_def mng_request_index_close_def with_mng_def close_parser_def sv_simps)

definition params_ready :: "byte \<Rightarrow> parser \<Rightarrow> client_stage" where
  "params_ready index p = Client_mng \<lparr>ms_parser = Parser_ready p, ms_status = mng_status_succeeded, ms_index = index\<rparr>"

lemma add_user_init_ok:
  assumes "sv_heap w (key_data k) = Some d" and "client d = Client_mng m" and "ms_index m = 10" and "plentiful (key_os k)"
  shows "mng_request_init st k w =
    Inr (w\<lparr>sv_heap := (sv_heap w)(key_data k \<mapsto> d\<lparr>client := params_ready 10 add_user_parser\<rparr>)\<rparr>)"
  using assms
  by (cases m) (simp add: mng_request_init_def with_mng_def sv_simps mng_params_parser_def mng_request_index_add_user_parser_init_def
      build_parser_def add_user_steps_def parser_init_def fresh_parser_def substate_at_def add_user_parser_def
      substate_read_N_def plentiful_def params_ready_def)

section \<open>The events of a request\<close>

text \<open>The byte of the index.\<close>

lemma add_user_index:
  assumes at: "mng_at k w d MNG_REQUEST_READ_INDEX" and "client d = index_ready blk" and "length blk = 2"
    and "buffer_content (read_buffer d) = []" and "buffer_content (write_buffer d) = []"
    and "os_recv (key_os k) (key_fd k) 1 = Some [10]" and "registered w (key_fd k) it" and "users_ok w"
    and "plentiful (key_os k)"
  shows "\<exists>w' d'. mng_read k w = Inr ((), w') \<and> mng_at k w' d' MNG_REQUEST_READ \<and> logged d d' \<and>
    client d' = params_ready 10 add_user_parser \<and>
    buffer_content (read_buffer d') = [] \<and> buffer_content (write_buffer d') = [] \<and>
    moved k w ((sel_lookup (sv_selector w))(key_fd k \<mapsto> it\<lparr>item_interest := OP_READ\<rparr>)) d' [] w'"
proof -
  let ?L = "(sel_lookup (sv_selector w))(key_fd k \<mapsto> it\<lparr>item_interest := OP_READ\<rparr>)"
  let ?m = "\<lparr>ms_parser = Parser_ready (index_parser blk), ms_status = mng_status_succeeded, ms_index = 0\<rparr>"
  have free: "buffer_free (read_buffer d) = 2048" "buffer_free (write_buffer d) = 2048"
    using session_at_facts(3,4) [OF at] assms(4,5) by simp_all
  have stage: "client d = Client_mng ?m" using assms(2) by (simp add: index_ready_def)
  have out: "index_outcome w 10 = (MNG_REQUEST_READ, [])" by (simp add: index_outcome_def index_response_def)
  have fits: "length [] \<le> buffer_free (write_buffer d)" "buffer_free (write_buffer d) < 2 ^ 64"
      "18 \<le> buffer_free (write_buffer d)" "1 \<le> buffer_free (read_buffer d)" using free by simp_all
  obtain w1 d1 m1 q rb wb where r0: "mng_request_index_read k w = Inr (mng_code MNG_REQUEST_READ, w1)"
      "mng_index_of 10 \<noteq> None \<longrightarrow> ms_index m1 = 10" "buffer_content wb = buffer_content (write_buffer d) @ []"
      "moved k w ((sel_lookup (sv_selector w))(key_fd k \<mapsto> it\<lparr>item_interest :=
         if MNG_REQUEST_READ = MNG_REQUEST_READ then OP_READ else OP_WRITE\<rparr>)) d1 [] w1"
    and r1: "d1 = d\<lparr>client := Client_mng m1, read_buffer := rb, write_buffer := wb\<rparr>" "ms_parser m1 = Parser_ready q"
      "buffer_content rb = []"
    using mng_index_request [OF session_at_facts(1) [OF at] stage _ _ assms(3,6,4) fits(4) assms(7,8) out fits(1-3)]
    by (simp only: mng_request_st.select_convs) blast
  note r = r0(1) [unfolded mng_code.simps] r1(1,2) r0(2) [simplified] r1(3) r0(3) [unfolded assms(5) append_Nil] r0(4) [unfolded simp_thms if_True]
  let ?e1 = "d1\<lparr>client := Client_mng (m1\<lparr>ms_parser := Parser_freed\<rparr>)\<rparr>" let ?e = "d1\<lparr>client := params_ready 10 add_user_parser\<rparr>"
  let ?v1 = "w1\<lparr>sv_heap := (sv_heap w1)(key_data k \<mapsto> ?e1)\<rparr>"
  let ?v = "?v1\<lparr>sv_heap := (sv_heap ?v1)(key_data k \<mapsto> ?e)\<rparr>"
  have leave: "run_hook (on_departure (client_mng ! 4)) 4 k w1 = Inr ?v1"
    using request_close_ok(2) [OF moved_conn [OF r(7)], of m1 q] r(2,3) by (simp add: mng_table run_hook_def)
  have arrive: "run_hook (on_arrival (client_mng ! 5)) 5 k ?v1 = Inr ?v"
    using add_user_init_ok [of ?v1 k ?e1 "m1\<lparr>ms_parser := Parser_freed\<rparr>" 5] r(4) assms(9) by (simp add: mng_table run_hook_def)
  have mv: "moved k w ?L ?e [] ?v" by (rule moved_put [OF moved_put [OF r(7)]])
  have flag: "isSocks ?e = False" using at r(2) by (simp add: session_at_def)
  obtain w' where w': "mng_read k w = Inr ((), w')"
      "session_at 8 False k w' (?e\<lparr>conn_stm := machine_at 8 5\<rparr>) 5" "moved k w ?L (?e\<lparr>conn_stm := machine_at 8 5\<rparr>) [] w'"
    using mng_events.step [where f = mng_request_index_read and ready = on_read_ready,
        OF at [unfolded mng_code.simps] mng_table(9) r(1) _ _ leave arrive mv flag]
    by (auto simp: mng_read_def stm_handler_defs)
  then show ?thesis
    using r(2,5,6) by (intro exI [of _ w'] exI [of _ "?e\<lparr>conn_stm := machine_at 8 5\<rparr>"]) (simp add: logged_def kept_def)
qed

text \<open>The parameters, whatever they are: the effect of the request is in \<open>v\<close>.\<close>

lemma params_event:
  assumes at: "mng_at k w d MNG_REQUEST_READ" and "client d = Client_mng m"
    and run: "mng_request_read k w = Inr (mng_code MNG_REQUEST_WRITE, w1)" "mng_answered k v d m it rest r w1"
  shows "\<exists>w' d'. mng_read k w = Inr ((), w') \<and> mng_at k w' d' MNG_REQUEST_WRITE \<and> logged d d' \<and>
    (\<exists>m'. client d' = Client_mng m') \<and>
    buffer_content (read_buffer d') = rest \<and> buffer_content (write_buffer d') = buffer_content (write_buffer d) @ [r] \<and>
    moved k v ((sel_lookup (sv_selector v))(key_fd k \<mapsto> it\<lparr>item_interest := OP_WRITE\<rparr>)) d' [] w'"
proof -
  let ?L = "(sel_lookup (sv_selector v))(key_fd k \<mapsto> it\<lparr>item_interest := OP_WRITE\<rparr>)"
  obtain q rb wb where b: "buffer_content rb = rest" "buffer_content wb = buffer_content (write_buffer d) @ [r]"
    and mv1: "moved k v ?L (d\<lparr>client := Client_mng (m\<lparr>ms_parser := Parser_ready q\<rparr>), read_buffer := rb, write_buffer := wb\<rparr>) [] w1"
    using run(2) by (auto simp: mng_answered_def Let_def simp del: OP_values)
  let ?d = "d\<lparr>client := Client_mng (m\<lparr>ms_parser := Parser_ready q\<rparr>), read_buffer := rb, write_buffer := wb\<rparr>"
  let ?e = "?d\<lparr>client := Client_mng (m\<lparr>ms_parser := Parser_ready q\<rparr>\<lparr>ms_parser := Parser_freed\<rparr>)\<rparr>"
  let ?v = "w1\<lparr>sv_heap := (sv_heap w1)(key_data k \<mapsto> ?e)\<rparr>"
  have leave: "run_hook (on_departure (client_mng ! 5)) 5 k w1 = Inr ?v"
    using request_close_ok(1) [OF moved_conn [OF mv1], of "m\<lparr>ms_parser := Parser_ready q\<rparr>" q]
    by (simp add: mng_table run_hook_def)
  have arrive: "run_hook (on_arrival (client_mng ! 6)) 6 k ?v = Inr ?v"
    by (simp add: mng_table run_hook_def mng_request_write_init_def with_mng_def sv_simps)
  have mv: "moved k v ?L ?e [] ?v" by (rule moved_put [OF mv1])
  have flag: "isSocks ?e = False" using at by (simp add: session_at_def)
  obtain w' where w': "mng_read k w = Inr ((), w')"
      "session_at 8 False k w' (?e\<lparr>conn_stm := machine_at 8 6\<rparr>) 6" "moved k v ?L (?e\<lparr>conn_stm := machine_at 8 6\<rparr>) [] w'"
    using mng_events.step [where f = mng_request_read and ready = on_read_ready,
        OF at [unfolded mng_code.simps] mng_table(10) run(1) [unfolded mng_code.simps] _ _ leave arrive mv flag]
    by (auto simp: mng_read_def stm_handler_defs)
  then show ?thesis
    using b by (intro exI [of _ w'] exI [of _ "?e\<lparr>conn_stm := machine_at 8 6\<rparr>"]) (simp add: logged_def kept_def)
qed

text \<open>The response; the connection ends with it.\<close>

definition mng_released :: "nat \<Rightarrow> server \<Rightarrow> server" where
  "mng_released i w = (if sv_mng_pool_size w < mng_max_pool
     then w\<lparr>sv_mng_pool := i # sv_mng_pool w, sv_mng_pool_size := sv_mng_pool_size w + 1\<rparr> else socks5_free i w)"

lemma mng_done_ok:
  assumes "registered w (client_fd d) it" and "item_handler it = Some Mng_handler" and "item_data it = Some (key_data k)"
    and "sv_heap w (key_data k) = Some d" and "references d = 1" and "client_fd d \<noteq> -1"
  shows "\<exists>s. mng_done k w = Inr ((), (mng_released (key_data k) w)
        \<lparr>sv_selector := s, sv_log := sv_log w @ [Closed (client_fd d)]\<rparr>) \<and> sel_full s \<and>
    sel_lookup s = (sel_lookup (sv_selector w))(client_fd d := None)"
proof -
  have "(case handle_close Mng_handler of None \<Rightarrow> Inr w | Some f \<Rightarrow> f (client_fd d) (item_data it) w) =
      Inr (mng_released (key_data k) w)"
    using assms(3-5) by (simp add: mng_close_def mng_destroy_def mng_released_def)
  from unregister_ok [OF assms(1,2) this] obtain s where
    s: "unregister (client_fd d) w = Inr (SELECTOR_SUCCESS, (mng_released (key_data k) w)\<lparr>sv_selector := s\<rparr>)"
      "sel_full s" "sel_lookup s = (sel_lookup (sv_selector w))(client_fd d := None)" by blast
  have "sv_log (mng_released (key_data k) w) = sv_log w" by (simp add: mng_released_def socks5_free_def)
  with s assms(4,6) show ?thesis
    by (intro exI [of _ s])
      (simp add: mng_done_def bind_sv_def get_conn_def close_fd_def emit_def modify_sv_def ret_sv_def)
qed

lemma response_event:
  assumes at: "mng_at k w d MNG_REQUEST_WRITE" and "client d = Client_mng m" and "buffer_content (write_buffer d) = xs"
    and "xs \<noteq> []" and "os_send (key_os k) (key_fd k) xs = int (length xs)" and "registered w (key_fd k) it"
    and "item_handler it = Some Mng_handler" and "item_data it = Some (key_data k)"
    and "references d = 1" and "client_fd d = key_fd k" and "key_fd k \<noteq> -1"
  shows "\<exists>w'. mng_write k w = Inr ((), w') \<and> sel_full (sv_selector w') \<and>
    sel_lookup (sv_selector w') = (sel_lookup (sv_selector w))(key_fd k := None) \<and>
    sv_log w' = sv_log w @ [Sent (key_fd k) xs, Closed (key_fd k)] \<and> user_table w' = user_table w"
proof -
  have bufs: "buffer_inv (write_buffer d)" using session_at_facts(1) [OF at] by (simp add: at_conn_def)
  obtain wb where wb: "buffer_read_adv (write_buffer d) (int (length xs)) = Inr wb" "buffer_inv wb" "buffer_content wb = []"
    using buffer_read_adv_spec [OF bufs, of "int (length xs)"] assms(3) by auto
  have can: "\<not> buffer_can_read wb" using wb(2,3) by (simp add: buffer_can_read_iff)
  let ?e = "d\<lparr>write_buffer := wb\<rparr>"
  let ?w1 = "w\<lparr>sv_log := sv_log w @ [Sent (key_fd k) xs], sv_heap := (sv_heap w)(key_data k \<mapsto> ?e)\<rparr>"
  have send: "send_from k (write_buffer d) w = Inr (Some wb, w\<lparr>sv_log := sv_log w @ [Sent (key_fd k) xs]\<rparr>)"
    using bufs assms(3,5) wb(1) by (simp add: send_from_def sv_simps)
  have run: "mng_request_write k w = Inr (7, ?w1)"
    using session_at_facts(2) [OF at] assms(2) send can
    by (simp add: mng_request_write_def with_mng_def sv_simps)
  have full: "sel_full (sv_selector w)" using assms(6) by (simp add: registered_def)
  then have mv: "moved k w (sel_lookup (sv_selector w)) ?e [Sent (key_fd k) xs] ?w1"
    by (simp add: moved_def same_rest_def)
  have leave: "run_hook (on_departure (client_mng ! 6)) 6 k ?w1 = Inr ?w1"
    by (simp add: mng_table run_hook_def mng_request_write_close_def)
  have arrive: "run_hook (on_arrival (client_mng ! 7)) 7 k ?w1 = Inr ?w1" by (simp add: mng_table run_hook_def)
  obtain v where v: "mng_write k w = mng_finish k 7 v"
      "moved k w (sel_lookup (sv_selector w)) (?e\<lparr>conn_stm := machine_at 8 7\<rparr>) [Sent (key_fd k) xs] v"
    using mng_events.last_step [where f = mng_request_write and ready = on_write_ready,
        OF at [unfolded mng_code.simps] mng_table(11) run _ _ _ leave arrive mv]
    by (auto simp: mng_write_def stm_handler_defs)
  have look: "sel_lookup (sv_selector v) = sel_lookup (sv_selector w)" "sv_log v = sv_log w @ [Sent (key_fd k) xs]"
    "sel_full (sv_selector v)" "user_table v = user_table w"
    using v(2) by (auto simp: moved_def user_table_def same_rest_def)
  then have "registered v (client_fd (?e\<lparr>conn_stm := machine_at 8 7\<rparr>)) it"
    using assms(6,10) by (simp add: registered_def)
  from mng_done_ok [OF this assms(7,8) moved_conn [OF v(2)]] assms(9-11) obtain s where
    s: "mng_done k v = Inr ((), (mng_released (key_data k) v)\<lparr>sv_selector := s, sv_log := sv_log v @ [Closed (key_fd k)]\<rparr>)"
      "sel_full s" "sel_lookup s = (sel_lookup (sv_selector v))(key_fd k := None)" by auto
  have "user_table ((mng_released (key_data k) v)\<lparr>sv_selector := s, sv_log := l\<rparr>) = user_table v" for l
    by (simp add: user_table_def mng_released_def socks5_free_def)
  then show ?thesis using v(1) s look by (simp add: mng_finish_def)
qed

section \<open>The session\<close>

lemma moved_users_ok: "moved k w L d l v \<Longrightarrow> users_ok v = users_ok w" "moved k w L d l v \<Longrightarrow> user_table v = user_table w"
    "moved k w L d l v \<Longrightarrow> nusers v = nusers w"
  by (auto simp: moved_def same_rest_def users_ok_def user_table_def)

lemma add_user_session:
  assumes "sv_heap w i = Some d" and "selector.inv w" and "tables_ok w" and "users_ok w" and "\<not> isSocks d"
    and "conn_stm d = \<lparr>stm_initial = 0, stm_max_state = 8, stm_current = None\<rparr>"
    and "buffer_content (read_buffer d) = []" and "buffer_content (write_buffer d) = []"
    and "registered w c it" and "item_handler it = Some Mng_handler" and "item_data it = Some i"
    and "client_fd d = c" and "c \<noteq> -1" and "references d = 1"
    and o1: "os_alloc o1 Alloc_hello_parser" "os_recv o1 c 2048 = Some (MNG_VERSION # of_nat (length ms) # ms)"
      "METHOD_USERNAME_PASSWORD \<in> set ms" "length ms < 256"
    and o2: "plentiful o2" "os_send o2 c [MNG_VERSION, METHOD_USERNAME_PASSWORD] = 2"
    and o3: "plentiful o3" "os_recv o3 c 2048 = Some (userpass_message a b)" "length a < 256" "length b < 256"
      "x \<in> set (login_table d w)" "login_matches a b x"
    and o4: "plentiful o4" "os_send o4 c [1, 0] = 2"
    and o5: "plentiful o5" "os_recv o5 c 1 = Some [10]"
    and o6: "plentiful o6" "os_recv o6 c 2048 = Some (add_user_message u p)" "length u < 256" "length p < 256"
    and status: "st = mng_reply_code (if nusers w < MAX_USERS then mng_status_succeeded else mng_status_max_users_reached)"
    and o7: "os_send o7 c [st] = 1"
  shows "\<exists>w'. events_in_order [mng_read (event_key i c o1), mng_write (event_key i c o2),
        mng_read (event_key i c o3), mng_write (event_key i c o4), mng_read (event_key i c o5),
        mng_read (event_key i c o6), mng_write (event_key i c o7)] w = Inr ((), w') \<and> sel_full (sv_selector w') \<and>
    sel_lookup (sv_selector w') = (sel_lookup (sv_selector w))(c := None) \<and>
    sv_log w' = sv_log w @ [Sent c [MNG_VERSION, METHOD_USERNAME_PASSWORD], Sent c [1, 0], Sent c [st], Closed c] \<and>
    user_table w' = (if nusers w < MAX_USERS then user_table w @ [new_user u p] else user_table w)"
proof -
  have offered: "MNG_AUTH_METHOD = METHOD_USERNAME_PASSWORD" by (simp add: hello_constants)
  obtain w4 d4 where 4: "events_in_order [mng_read (event_key i c o1), mng_write (event_key i c o2),
        mng_read (event_key i c o3), mng_write (event_key i c o4)] w = Inr ((), w4)"
      "session_at 8 False (event_key i c o5) w4 d4 4" "logged d d4" "client d4 \<in> index_ready ` {blk. length blk = 2}"
      "buffer_content (read_buffer d4) = []" "buffer_content (write_buffer d4) = []"
      "moved (event_key i c o5) w ((sel_lookup (sv_selector w))(c \<mapsto> it\<lparr>item_interest := OP_READ\<rparr>)) d4
        [Sent c [MNG_VERSION, METHOD_USERNAME_PASSWORD], Sent c [1, 0]] w4"
    using mng_events.login_phase [of w i d c it o1 ms o2 o3 a b x o4 o5] assms(1-9) o1 o2 o3 o4 offered
    by (auto simp: mng_read_def mng_write_def)
  have at4: "mng_at (event_key i c o5) w4 d4 MNG_REQUEST_READ_INDEX" using 4(2) by simp
  obtain blk where blk: "client d4 = index_ready blk" "length blk = 2" using 4(4) by auto
  have reg4: "registered w4 c (it\<lparr>item_interest := OP_READ\<rparr>)" by (rule moved_registered [OF 4(7)]) simp
  have ok4: "users_ok w4" "user_table w4 = user_table w" "nusers w4 = nusers w"
    using moved_users_ok [OF 4(7)] assms(4) by simp_all
  obtain w5 d5 where 5: "mng_read (event_key i c o5) w4 = Inr ((), w5)" "mng_at (event_key i c o5) w5 d5 MNG_REQUEST_READ"
      "logged d4 d5" "client d5 = params_ready 10 add_user_parser"
      "buffer_content (read_buffer d5) = []" "buffer_content (write_buffer d5) = []"
      "moved (event_key i c o5) w4 ((sel_lookup (sv_selector w4))(c \<mapsto> it\<lparr>item_interest := OP_READ\<rparr>)) d5 [] w5"
    using add_user_index [OF at4 blk 4(5,6), of "it\<lparr>item_interest := OP_READ\<rparr>"] o5 reg4 ok4(1) by auto
  have at5: "mng_at (event_key i c o6) w5 d5 MNG_REQUEST_READ" using session_at_key [OF 5(2), of "event_key i c o6"] by simp
  have reg5: "registered w5 c (it\<lparr>item_interest := OP_READ\<rparr>)" by (rule moved_registered [OF 5(7)]) simp
  have ok5: "users_ok w5" "user_table w5 = user_table w" "nusers w5 = nusers w"
    using moved_users_ok [OF 5(7)] ok4 by simp_all
  let ?m = "\<lparr>ms_parser = Parser_ready add_user_parser, ms_status = mng_status_succeeded, ms_index = 10\<rparr>"
  have stage: "client d5 = Client_mng ?m" using 5(4) by (simp add: params_ready_def)
  have free: "buffer_free (read_buffer d5) = 2048" "buffer_free (write_buffer d5) = 2048"
    using session_at_facts(3,4) [OF at5] 5(5,6) by simp_all
  have len: "add_user_message u p \<noteq> []" "length (add_user_message u p) \<le> 2048"
    using o6(3,4) by (simp_all add: add_user_message_def)
  obtain w6 v where 6: "mng_request_read (event_key i c o6) w5 = Inr (mng_code MNG_REQUEST_WRITE, w6)"
      "mng_answered (event_key i c o6) v d5 ?m (it\<lparr>item_interest := OP_READ\<rparr>) [] st w6"
      "v = w5\<lparr>sv_users := sv_users v, nusers := nusers v\<rparr>"
      "user_table w6 = (if nusers w < MAX_USERS then user_table w @ [new_user u p] else user_table w)"
    using add_user_done [where k = "event_key i c o6" and m = ?m and xs = "add_user_message u p" and rest = "[]"
        and u = u and p = p and it = "it\<lparr>item_interest := OP_READ\<rparr>", OF session_at_facts(1) [OF at5] stage]
      o6 len free 5(5) reg5 ok5 status
    by (auto simp: plentiful_def)
  obtain w7 d7 m7 where 7: "mng_read (event_key i c o6) w5 = Inr ((), w7)"
      "mng_at (event_key i c o6) w7 d7 MNG_REQUEST_WRITE" "logged d5 d7" "client d7 = Client_mng m7"
      "buffer_content (write_buffer d7) = [st]"
      "moved (event_key i c o6) v ((sel_lookup (sv_selector v))(c \<mapsto> it\<lparr>item_interest := OP_WRITE\<rparr>)) d7 [] w7"
    using params_event [OF at5 stage 6(1,2)] 5(6) by auto
  have at7: "mng_at (event_key i c o7) w7 d7 MNG_REQUEST_WRITE" using session_at_key [OF 7(2), of "event_key i c o7"] by simp
  have reg7: "registered w7 c (it\<lparr>item_interest := OP_WRITE\<rparr>)" by (rule moved_registered [OF 7(6)]) simp
  have keep: "client_fd d7 = c" "references d7 = 1"
    using logged_trans [OF logged_trans [OF 4(3) 5(3)] 7(3)] assms(12,14) by (auto simp: logged_def kept_def)
  have same: "sv_selector v = sv_selector w5" "sv_log v = sv_log w5" by (subst 6(3), simp)+
  have table: "user_table w7 = user_table w6"
    using mng_answered_same(1,2) [OF 6(2)] moved_users_ok(2) [OF 7(6)] by (simp add: user_table_def)
  obtain w8 where 8: "mng_write (event_key i c o7) w7 = Inr ((), w8)" "sel_full (sv_selector w8)"
      "sel_lookup (sv_selector w8) = (sel_lookup (sv_selector w7))(c := None)"
      "sv_log w8 = sv_log w7 @ [Sent c [st], Closed c]" "user_table w8 = user_table w7"
    using response_event [OF at7 7(4,5), of "it\<lparr>item_interest := OP_WRITE\<rparr>"] reg7 o7 keep assms(10,11,13) by auto
  have "sel_lookup (sv_selector w8) = (sel_lookup (sv_selector w))(c := None)"
    using 8(3) moved_tables(5) [OF 7(6)] moved_tables(5) [OF 5(7)] moved_tables(5) [OF 4(7)] same(1) by simp
  moreover have "sv_log w8 = sv_log w @ [Sent c [MNG_VERSION, METHOD_USERNAME_PASSWORD], Sent c [1, 0], Sent c [st], Closed c]"
    using 8(4) moved_tables(6) [OF 7(6)] moved_tables(6) [OF 5(7)] moved_tables(6) [OF 4(7)] same(2) by simp
  moreover have "events_in_order ([mng_read (event_key i c o1), mng_write (event_key i c o2),
        mng_read (event_key i c o3), mng_write (event_key i c o4)] @ [mng_read (event_key i c o5),
        mng_read (event_key i c o6), mng_write (event_key i c o7)]) w = Inr ((), w8)"
    unfolding events_append [OF 4(1)] using 5(1) 7(1) 8(1) by (simp add: bind_sv_def ret_sv_def)
  ultimately show ?thesis using 8(2,5) table 6(4) by auto
qed

end
