(* ===== verification/Scenario.thy ===== *)
theory Scenario
  imports Resolving Main_Exit Client_Main Mng_Session
begin

unbundle bit_operations_syntax

text \<open>
  Concrete servers: an environment that answers every call with given bytes, a selector that
  holds given items, a fresh connection and a server with this one connection. The example
  runs that accompany the properties are evaluated on them.
\<close>

section \<open>An environment\<close>

definition ex_block :: allocator where "ex_block i n = Some (replicate n 0)"

definition ex_alloc :: dissec_alloc where "ex_alloc n = Some (replicate n 0)"

definition ex_request :: request where
  "ex_request = \<lparr>req_cmd = 0, req_atyp = 0, req_dest = Dest_fqdn (replicate 255 0) 0, req_port = [0, 0]\<rparr>"

text \<open>Every allocation succeeds, \<open>recv\<close> answers \<open>xs\<close>, \<open>send\<close> takes at most \<open>n\<close> bytes.\<close>

definition ex_os :: "byte list \<Rightarrow> nat \<Rightarrow> os" where
  "ex_os xs n =
     \<lparr>os_alloc = (\<lambda>a. True), os_block = ex_block, os_sniff = ex_alloc, os_request = (\<lambda>i. Some ex_request),
      os_recv = (\<lambda>fd m. Some (take m xs)), os_send = (\<lambda>fd ys. int (min n (length ys))),
      os_socket = (\<lambda>f. 7), os_connect = (\<lambda>fd a l. EINPROGRESS), os_sockopt = (\<lambda>fd. Some 0),
      os_getfd = (\<lambda>fd. 0), os_setfl = (\<lambda>fd m. 0), os_pthread_create = 0,
      os_accept = (\<lambda>fd. Some (6, zero_sockaddr)), os_getaddrinfo = (\<lambda>h p. [])\<rparr>"

lemma ex_os_simps [simp]:
  "os_alloc (ex_os xs n) a" "os_block (ex_os xs n) = ex_block" "os_sniff (ex_os xs n) = ex_alloc"
  "os_recv (ex_os xs n) fd m = Some (take m xs)"
  "os_send (ex_os xs n) fd ys = int (min n (length ys))"
  "os_socket (ex_os xs n) f = 7" "os_connect (ex_os xs n) fd addr l = EINPROGRESS"
  "os_sockopt (ex_os xs n) fd = Some 0" "os_pthread_create (ex_os xs n) = 0"
  "os_request (ex_os xs n) i = Some ex_request"
  "os_getfd (ex_os xs n) fd = 0" "os_setfl (ex_os xs n) fd flags = 0"
  "os_accept (ex_os xs n) fd = Some (6, zero_sockaddr)"
  by (simp_all add: ex_os_def)

lemma ex_alloc_ok [simp]: "dissec_alloc_ok ex_alloc" "dissec_alloc_sized ex_alloc" "allocator_ok ex_block" "os_ok (ex_os xs n)"
    "ex_block i m = Some (replicate m 0)"
  by (simp_all add: dissec_alloc_ok_def dissec_alloc_sized_def allocator_ok_def os_ok_def ex_alloc_def ex_block_def)

section \<open>A selector\<close>

text \<open>The full table that holds the items \<open>its\<close>, whose descriptors are below 1024.\<close>

definition ex_item :: "(handler_id, nat) item list \<Rightarrow> int \<Rightarrow> (handler_id, nat) item" where
  "ex_item its fd = (case List.find (\<lambda>it. item_fd it = fd) its of Some it \<Rightarrow> it | None \<Rightarrow> item_init zero_item)"

definition ex_selector :: "(handler_id, nat) item list \<Rightarrow> (handler_id, nat) fdselector" where
  "ex_selector its = empty_selector\<lparr>fds := map (\<lambda>i. ex_item its (int i)) [0..<ITEMS_MAX_SIZE + 1],
     fd_size := ITEMS_MAX_SIZE + 1, max_fd := int ITEMS_MAX_SIZE - 1,
     master_r := item_fd ` {it \<in> set its. wants_read (item_interest it)},
     master_w := item_fd ` {it \<in> set its. wants_write (item_interest it)}\<rparr>"

definition ex_items_ok :: "(handler_id, nat) item list \<Rightarrow> bool" where
  "ex_items_ok its \<longleftrightarrow> distinct (map item_fd its) \<and>
     (\<forall>it \<in> set its. 0 \<le> item_fd it \<and> item_fd it < int ITEMS_MAX_SIZE \<and> item_handler it \<noteq> None)"

lemma find_item:
  "List.find (\<lambda>it. item_fd it = fd) its = Some it \<Longrightarrow> it \<in> set its \<and> item_fd it = fd"
  by (auto simp: find_Some_iff)

lemma find_item_distinct:
  "distinct (map item_fd its) \<Longrightarrow> it \<in> set its \<Longrightarrow> List.find (\<lambda>x. item_fd x = item_fd it) its = Some it"
  by (induction its) auto

lemma ex_selector_lookup:
  assumes "ex_items_ok its"
  shows "sel_lookup (ex_selector its) fd = List.find (\<lambda>it. item_fd it = fd) its"
proof (cases "List.find (\<lambda>it. item_fd it = fd) its")
  case None
  then show ?thesis by (auto simp: sel_lookup_def ex_selector_def ex_item_def simp del: upt_Suc)
next
  case (Some it)
  from find_item [OF this] assms have "0 \<le> fd" "fd < int ITEMS_MAX_SIZE" "item_fd it = fd"
    by (auto simp: ex_items_ok_def)
  moreover from this have "ITEM_USED it" by (auto simp: ITEM_USED_def FD_UNUSED_def)
  ultimately show ?thesis using Some by (auto simp: sel_lookup_def ex_selector_def ex_item_def simp del: upt_Suc)
qed

lemma ex_selector_full:
  assumes "ex_items_ok its"
  shows "sel_full (ex_selector its)"
proof -
  let ?s = "ex_selector its"
  have lk: "sel_lookup ?s fd = Some it \<longleftrightarrow> it \<in> set its \<and> item_fd it = fd" for fd it
    using ex_selector_lookup [OF assms, of fd] find_item [of fd its] find_item_distinct [of its it] assms
    by (auto simp: ex_items_ok_def)
  have len: "length (fds ?s) = ITEMS_MAX_SIZE + 1" by (simp add: ex_selector_def)
  then have "fds ?s \<noteq> []" by auto
  then have "sel_inv ?s"
    unfolding sel_inv_def lk using assms len
    by (auto simp: ex_items_ok_def ex_selector_def ITEMS_MAX_SIZE_def image_iff)
  with len show ?thesis by (simp add: sel_full_def)
qed

lemma ex_selector_blank: "ex_items_ok its \<Longrightarrow> blank_items (ex_selector its)"
  by (auto simp: blank_items_def ex_selector_def ex_item_def ex_items_ok_def ITEM_USED_def item_init_def zero_item_def
      FD_UNUSED_def split: option.splits dest!: find_item)

section \<open>A connection and a server\<close>

text \<open>The connection that \<open>socks5_new\<close> makes, on the descriptors 5 and 7.\<close>

definition ex_buffer :: buffer where "ex_buffer = buffer_init BUFFER_LENGTH (replicate BUFFER_LENGTH 0)"

definition ex_conn :: socks5 where
  "ex_conn = zero_socks5\<lparr>isSocks := True, client_fd := 5, origin_fd := 7,
     conn_stm := \<lparr>stm_initial = 0, stm_max_state = 10, stm_current = None\<rparr>, done_state := 9, error_state := 10,
     read_buffer := ex_buffer, write_buffer := ex_buffer\<rparr>"

definition ex_users :: "user list" where
  "ex_users = [\<lparr>user_name = Some [97, 0], user_pass = Some [98, 0]\<rparr>]"

definition ex_client_item :: "(handler_id, nat) item" where
  "ex_client_item = \<lparr>item_fd = 5, item_interest = OP_READ, item_handler = Some Socks5_handler, item_data = Some 0\<rparr>"

definition ex_origin_item :: "(handler_id, nat) item" where
  "ex_origin_item = \<lparr>item_fd = 7, item_interest = OP_WRITE, item_handler = Some Socks5_handler, item_data = Some 0\<rparr>"

definition ex_items :: "(handler_id, nat) item list" where "ex_items = [ex_client_item, ex_origin_item]"

lemma ex_find [simp]:
  "List.find (\<lambda>it. item_fd it = 5) ex_items = Some ex_client_item"
  "List.find (\<lambda>it. item_fd it = 7) ex_items = Some ex_origin_item"
  "List.find (\<lambda>it. item_fd it = 6) ex_items = None"
  by (simp_all add: ex_items_def ex_client_item_def ex_origin_item_def)

definition ex_server :: "(handler_id, nat) item list \<Rightarrow> socks5 \<Rightarrow> server" where
  "ex_server its d = (main_globals ex_users ex_users 0 (ex_selector its))\<lparr>sv_heap := [0 \<mapsto> d], sv_next := 1\<rparr>"

definition ex_key :: "int \<Rightarrow> byte list \<Rightarrow> nat \<Rightarrow> skey" where
  "ex_key fd xs n = \<lparr>key_fd = fd, key_data = 0, key_os = ex_os xs n\<rparr>"

lemma ex_key_simps [simp]:
  "key_fd (ex_key fd xs n) = fd" "key_data (ex_key fd xs n) = 0" "key_os (ex_key fd xs n) = ex_os xs n"
  by (simp_all add: ex_key_def)

lemma ex_buffer_simps [simp]:
  "buffer_inv ex_buffer" "sound_buffer ex_buffer" "buffer_content ex_buffer = []" "buffer_free ex_buffer = 2048"
  "buf_limit ex_buffer = 2048" "length (buf_data ex_buffer) = 2048"
  by (simp_all add: ex_buffer_def sound_buffer_def BUFFER_LENGTH_def) (simp add: buffer_init_def buffer_reset_def)

lemma ex_conn_simps [simp]:
  "read_buffer ex_conn = ex_buffer" "write_buffer ex_conn = ex_buffer" "isSocks ex_conn"
  "client_fd ex_conn = 5" "origin_fd ex_conn = 7" "done_state ex_conn = 9" "error_state ex_conn = 10"
  "origin_resolution_current ex_conn = []"
  by (simp_all add: ex_conn_def zero_socks5_def)

lemma ex_conn_ok [simp]: "conn_ok ex_conn" "conn_ok (ex_conn\<lparr>client := c\<rparr>)" "conn_ok (ex_conn\<lparr>conn_stm := m\<rparr>)"
  by (simp_all add: conn_ok_def terminals_ok_def)

lemma ex_server_simps [simp]:
  "sv_heap (ex_server its d) = [0 \<mapsto> d]" "sv_selector (ex_server its d) = ex_selector its"
  "sv_log (ex_server its d) = []" "sv_metrics (ex_server its d) = zero_metrics"
  "nusers (ex_server its d) = 1" "nadmins (ex_server its d) = 1"
  "sv_users (ex_server its d) = user_array ex_users" "sv_admins (ex_server its d) = user_array ex_users"
  "user_table (ex_server its d) = ex_users" "sv_pool (ex_server its d) = []"
  by (simp_all add: ex_server_def main_globals_def ex_users_def user_table_def user_array_def)

lemma ex_users_wf [simp]: "users_wf ex_users"
  by (simp add: users_wf_def ex_users_def)

lemma ex_items_ok [simp]: "ex_items_ok ex_items"
  by (simp add: ex_items_ok_def ex_items_def ex_client_item_def ex_origin_item_def ITEMS_MAX_SIZE_def)

lemma ex_at_conn [simp]:
  "at_conn (ex_key fd xs n) (ex_server its d) d \<longleftrightarrow> buffer_inv (read_buffer d) \<and> buffer_inv (write_buffer d)"
  by (simp add: at_conn_def)

lemma ex_masters [simp]:
  "master_r (ex_selector ex_items) = {5}" "master_w (ex_selector ex_items) = {7}"
  "resolution_jobs (ex_selector its) = []"
  by (simp_all add: ex_selector_def ex_items_def ex_client_item_def ex_origin_item_def empty_selector_def
      insert_compr [symmetric] conj_disj_distribR Collect_disj_eq image_Un
      conj_commute [of "_ = _"] Collect_conv_if2 cong: conj_cong)

lemma ex_registered [simp]:
  "ex_items_ok its \<Longrightarrow> registered (ex_server its d) fd it \<longleftrightarrow> List.find (\<lambda>it. item_fd it = fd) its = Some it"
  by (simp add: registered_def ex_selector_full ex_selector_lookup)

lemma ex_tables_ok [simp]: "tables_ok (ex_server its d)" "users_ok (ex_server its d)"
  by (simp_all add: tables_ok_def users_ok_def user_array_def) (simp_all add: ex_users_def users_wf_def MAX_USERS_def)

lemma ex_server_inv [simp]:
  "ex_items_ok its \<Longrightarrow> conn_ok d \<Longrightarrow> server_inv (ex_server its d)"
  using ex_tables_ok [of its d]
  by (simp add: server_inv_def ex_selector_full ex_selector_blank pools_ok_def accounts_ok_def heap_ok_def tables_ok_def)
     (simp add: ex_server_def main_globals_def)

lemma ex_nio [simp]: "selector_fd_set_nio 0 (os_setfl (ex_os xs n) fd) = 0"
  by (simp add: selector_fd_set_nio_def)

lemma ex_plentiful [simp]: "plentiful (ex_os xs n)"
  by (simp add: plentiful_def)

lemma ex_inv [simp]: "ex_items_ok its \<Longrightarrow> conn_ok d \<Longrightarrow> selector.inv (ex_server its d)"
  by (simp add: selector.inv_def ex_selector_full heap_ok_def)

text \<open>The connection just after it has been accepted, alone with its item.\<close>

definition ex_fresh :: socks5 where "ex_fresh = fresh_conn True 5 zero_sockaddr"

lemma ex_fresh_simps [simp]:
  "isSocks ex_fresh" "client_fd ex_fresh = 5" "origin_fd ex_fresh = -1" "references ex_fresh = 1"
  "conn_stm ex_fresh = \<lparr>stm_initial = 0, stm_max_state = 10, stm_current = None\<rparr>"
  "read_buffer ex_fresh = ex_buffer" "write_buffer ex_fresh = ex_buffer" "conn_ok ex_fresh"
  "client_addr ex_fresh = zero_sockaddr" "dissec_inv (conn_dissec ex_fresh)"
  by (simp_all add: ex_fresh_def fresh_conn_def ex_buffer_def conn_ok_def terminals_ok_def)
    (simp add: zero_socks5_def dissec_inv_def)

definition ex_single :: "(handler_id, nat) item list" where "ex_single = [ex_client_item]"

lemma ex_single_simps [simp]:
  "ex_items_ok ex_single" "List.find (\<lambda>it. item_fd it = 5) ex_single = Some ex_client_item"
  "fd \<noteq> 5 \<Longrightarrow> List.find (\<lambda>it. item_fd it = fd) ex_single = None"
  by (simp_all add: ex_items_ok_def ex_single_def ex_client_item_def ITEMS_MAX_SIZE_def)

lemma ex_auth_method: "auth_method (ex_server its d) = METHOD_USERNAME_PASSWORD"
  by (simp add: ex_server_def main_globals_def DEFAULT_AUTH_METHOD_def hello_constants)

text \<open>A management connection that sends its reply to the greeting, one byte at a time.\<close>

definition ex_mng_hello :: socks5 where
  "ex_mng_hello = (fresh_conn False 5 zero_sockaddr)\<lparr>conn_stm := \<lparr>stm_initial = 0, stm_max_state = 8,
       stm_current = Some (mng_code MNG_HELLO_WRITE)\<rparr>,
     client := Client_hello \<lparr>hs_parser = Freed_ptr, hs_method = 2, hs_status = HELLO_SUCCESS\<rparr>,
     write_buffer := ex_buffer\<lparr>buf_write := 2\<rparr>\<rparr>"

definition ex_mng_server :: server where "ex_mng_server = ex_server ex_single ex_mng_hello"

lemma ex_mng_simps [simp]:
  "\<not> isSocks ex_mng_hello" "conn_ok ex_mng_hello" "stm_inv client_mng (conn_stm ex_mng_hello)"
  "stm_current (conn_stm ex_mng_hello) = Some (mng_code MNG_HELLO_WRITE)"
  "buffer_content (write_buffer ex_mng_hello) = [0, 0]"
  "client ex_mng_hello = Client_hello \<lparr>hs_parser = Freed_ptr, hs_method = 2, hs_status = HELLO_SUCCESS\<rparr>"
proof -
  have b: "sound_buffer (ex_buffer\<lparr>buf_write := 2\<rparr>)" "buffer_content (ex_buffer\<lparr>buf_write := 2\<rparr>) = [0, 0]"
    by (simp_all add: sound_buffer_def buffer_inv_def buffer_content_def ex_buffer_def buffer_init_def
        buffer_reset_def BUFFER_LENGTH_def numeral_2_eq_2)
  then show "conn_ok ex_mng_hello" "buffer_content (write_buffer ex_mng_hello) = [0, 0]"
    by (simp_all add: ex_mng_hello_def conn_ok_def terminals_ok_def fresh_conn_def)
  show "stm_inv client_mng (conn_stm ex_mng_hello)"
    using tables_ok_states(2) by (simp add: ex_mng_hello_def stm_inv_def)
qed (simp_all add: ex_mng_hello_def fresh_conn_def)

lemma ex_mng_event: "\<exists>ret w'. run_machine stm_handler_write client_mng (ex_key 5 [] 1) ex_mng_server = Inr (ret, w')"
proof -
  let ?k = "ex_key 5 [] 1"
  have at: "at_conn ?k ex_mng_server ex_mng_hello"
    using ex_mng_simps(2) by (simp add: ex_mng_server_def conn_ok_def sound_buffer_def)
  obtain w1 d1 where r: "hello_write ?k ex_mng_server = Inr (mng_code MNG_HELLO_WRITE, w1)"
      "sv_heap w1 0 = Some d1"
    using hello_write_sends [OF at ex_mng_simps(6), of ex_client_item 1] by (auto simp: ex_mng_server_def moved_def)
  have "stm_dispatch on_write_ready client_mng (conn_stm ex_mng_hello) ?k ex_mng_server =
      Inr (mng_code MNG_HELLO_WRITE, conn_stm ex_mng_hello, w1)"
    using stm_dispatch_started [OF ex_mng_simps(3,4), of on_write_ready hello_write ?k ex_mng_server
        "mng_code MNG_HELLO_WRITE" w1] r mng_handlers(2) [of MNG_HELLO_WRITE]
    by (simp add: ex_mng_hello_def fresh_conn_def)
  then show ?thesis
    using r(2) by (simp add: run_machine_def bind_sv_def get_conn_def put_conn_def modify_sv_def ret_sv_def
        stm_handler_defs ex_mng_server_def)
qed

text \<open>A connection in COPY on the descriptors 5 and 7.\<close>

definition ex_copy :: socks5 where
  "ex_copy = ex_conn\<lparr>client := Client_copy (stage_of Client_side ex_conn (OP_READ OR OP_WRITE)),
     orig := Orig_copy (stage_of Origin_side ex_conn (OP_READ OR OP_WRITE))\<rparr>"

lemma ex_copy_simps [simp]:
  "client_fd ex_copy = 5" "origin_fd ex_copy = 7" "read_buffer ex_copy = ex_buffer" "write_buffer ex_copy = ex_buffer"
  by (simp_all add: ex_copy_def)

lemma ex_copy_world [simp]: "copy_world (ex_key fd xs n) (ex_server ex_items ex_copy) ex_copy"
proof -
  have "copy_ok ex_copy"
    unfolding copy_ok_def side_cases by (auto simp: ex_copy_def copy_get_def stage_of_def)
  moreover have "both_registered (ex_server ex_items ex_copy) ex_copy"
    by (simp add: both_registered_def side_cases ex_selector_full ex_selector_lookup)
  moreover have "dissec_inv (conn_dissec ex_copy)"
    by (simp add: ex_copy_def ex_conn_def zero_socks5_def dissec_inv_def)
  ultimately show ?thesis by (simp add: copy_world_def)
qed

text \<open>A connection that is about to answer its credentials.\<close>

definition ex_denied :: socks5 where
  "ex_denied = ex_fresh\<lparr>conn_stm := machine_in USERPASS_WRITE, authentication := 1,
     client := Client_userpass \<lparr>up_parser = Parser_freed, up_status = AUTH_SUCCESS\<rparr>\<rparr>"

lemma ex_denied_at [simp]:
  "conn_at (ex_key 5 xs n) (ex_server ex_single ex_denied) ex_denied USERPASS_WRITE"
proof -
  have "conn_ok ex_denied" using ex_fresh_simps(8) by (simp add: ex_denied_def conn_ok_def)
  then show ?thesis by (simp add: conn_at_def session_at_def machine_in_def) (simp add: ex_denied_def machine_in_def)
qed

text \<open>A connection that has received the first byte of a greeting.\<close>

definition ex_greeting :: socks5 where
  "ex_greeting = ex_conn\<lparr>client := Client_hello \<lparr>hs_parser = Ptr (hello_ready 5 2), hs_method = 0xFF,
       hs_status = HELLO_SUCCESS\<rparr>, read_buffer := ex_buffer\<lparr>buf_data := (buf_data ex_buffer)[0 := 5], buf_write := 1\<rparr>\<rparr>"

lemma ex_greeting_simps [simp]:
  "client ex_greeting = Client_hello \<lparr>hs_parser = Ptr (hello_ready 5 2), hs_method = 0xFF, hs_status = HELLO_SUCCESS\<rparr>"
  "isSocks ex_greeting" "write_buffer ex_greeting = ex_buffer" "error_state ex_greeting = 10"
  "buffer_inv (read_buffer ex_greeting)" "buffer_content (read_buffer ex_greeting) = [5]"
  "buffer_free (read_buffer ex_greeting) = 2047" "buf_limit (read_buffer ex_greeting) = 2048"
  by (simp_all add: ex_greeting_def)
    (simp_all add: buffer_inv_def buffer_content_def buffer_free_def ex_buffer_def buffer_init_def buffer_reset_def
      BUFFER_LENGTH_def take_Suc_conv_app_nth)

lemma ex_server_threads [simp]: "sv_threads (ex_server its d) = []"
  by (simp add: ex_server_def main_globals_def)

text \<open>A connection whose request names the host \<open>ab\<close>, port 80.\<close>

definition ex_resolving_request :: request where
  "ex_resolving_request = \<lparr>req_cmd = 1, req_atyp = 3, req_dest = Dest_fqdn [97, 98, 0] 2, req_port = [0, 80]\<rparr>"

definition ex_resolving_parser :: request_parser where
  "ex_resolving_parser = \<lparr>rp_request = Some ex_resolving_request, rp_state = request_done, rp_remaining = 2, rp_read = 2\<rparr>"

definition ex_resolving_st :: request_st where
  "ex_resolving_st = \<lparr>rs_parser = Ptr ex_resolving_parser, rs_addr_family = 3, rs_status = status_succeeded\<rparr>"

definition ex_resolving :: socks5 where "ex_resolving = ex_conn\<lparr>client := Client_request ex_resolving_st\<rparr>"

lemma ex_resolving_simps [simp]:
  "client ex_resolving = Client_request ex_resolving_st" "rs_parser ex_resolving_st = Ptr ex_resolving_parser"
  "rp_request ex_resolving_parser = Some ex_resolving_request" "req_dest ex_resolving_request = Dest_fqdn [97, 98, 0] 2"
  "origin_resolution ex_resolving = []" "read_buffer ex_resolving = ex_buffer" "write_buffer ex_resolving = ex_buffer"
  by (simp_all add: ex_resolving_def ex_resolving_st_def ex_resolving_parser_def ex_resolving_request_def)
    (simp add: ex_conn_def zero_socks5_def)

text \<open>A resolver that answers every name with one IPv4 address.\<close>

definition ex_resolver_key :: skey where
  "ex_resolver_key = (ex_key 5 [] 0)\<lparr>key_os := (ex_os [] 0)\<lparr>os_getaddrinfo :=
     (\<lambda>h p. [\<lparr>ai_family = 2, ai_addrlen = 16, ai_addr = zero_sockaddr\<lparr>sa_family := 2\<rparr>\<rparr>])\<rparr>\<rparr>"

lemma ex_resolver_key_simps [simp]:
  "key_data ex_resolver_key = 0" "key_fd ex_resolver_key = 5" "os_alloc (key_os ex_resolver_key) a"
  "os_getaddrinfo (key_os ex_resolver_key) h p =
     [\<lparr>ai_family = 2, ai_addrlen = 16, ai_addr = zero_sockaddr\<lparr>sa_family := 2\<rparr>\<rparr>]"
  by (simp_all add: ex_resolver_key_def)

text \<open>A connection that waits for its origin.\<close>

definition ex_connecting :: socks5 where
  "ex_connecting = ex_conn\<lparr>orig := Orig_conn \<lparr>cn_client_fd = 5, cn_origin_fd = -1, cn_status = status_succeeded\<rparr>\<rparr>"

lemma ex_connecting_simps [simp]:
  "orig ex_connecting = Orig_conn \<lparr>cn_client_fd = 5, cn_origin_fd = -1, cn_status = status_succeeded\<rparr>"
  "origin_resolution_current ex_connecting = []" "read_buffer ex_connecting = ex_buffer"
  "write_buffer ex_connecting = ex_buffer" "origin_fd ex_connecting = 7" "client_fd ex_connecting = 5"
  by (simp_all add: ex_connecting_def)

definition ex_address :: addrinfo where
  "ex_address = \<lparr>ai_family = AF_INET, ai_addrlen = 16, ai_addr = \<lparr>sa_family = AF_INET, sa_port = [0, 80], sa_addr = [10, 0, 0, 2]\<rparr>\<rparr>"

lemma ex_address_simps [simp]: "ai_family ex_address = AF_INET" "ai_addrlen ex_address = 16"
  by (simp_all add: ex_address_def)

lemma ex_pool_size: "sv_pool_size (ex_server its d) = 0"
  by (simp add: ex_server_def main_globals_def)

text \<open>A buffer that holds the bytes \<open>xs\<close> at its start.\<close>

definition ex_filled :: "byte list \<Rightarrow> buffer" where
  "ex_filled xs = \<lparr>buf_data = xs @ replicate (BUFFER_LENGTH - length xs) 0, buf_limit = BUFFER_LENGTH,
     buf_read = 0, buf_write = length xs\<rparr>"

lemma ex_filled_simps [simp]:
  assumes "length xs \<le> 2048"
  shows "buffer_inv (ex_filled xs)" and "sound_buffer (ex_filled xs)" and "buffer_content (ex_filled xs) = xs"
    and "buffer_free (ex_filled xs) = 2048 - length xs"
  using assms by (auto simp: ex_filled_def sound_buffer_def buffer_inv_def buffer_content_def buffer_free_def BUFFER_LENGTH_def)

text \<open>A management connection that reads the parameters of the request with the index \<open>i\<close>.\<close>

definition ex_mng :: "parser \<Rightarrow> byte \<Rightarrow> socks5" where
  "ex_mng p i = (fresh_conn False 5 zero_sockaddr)\<lparr>client := Client_mng
     \<lparr>ms_parser = Parser_ready p, ms_status = mng_status_succeeded, ms_index = i\<rparr>,
     read_buffer := ex_buffer, write_buffer := ex_buffer\<rparr>"

lemma ex_mng_fields [simp]:
  "client (ex_mng p i) = Client_mng \<lparr>ms_parser = Parser_ready p, ms_status = mng_status_succeeded, ms_index = i\<rparr>"
  "read_buffer (ex_mng p i) = ex_buffer" "write_buffer (ex_mng p i) = ex_buffer"
  by (simp_all add: ex_mng_def)

section \<open>A start\<close>

text \<open>Options \<open>-u a:b -p 9000 -N\<close>, one administrator, and sockets that can be opened.\<close>

definition ex_socket :: "int \<Rightarrow> socket_env" where
  "ex_socket fd = \<lparr>se_socket = fd, se_v6only = 0, se_bind = 0, se_listen = 0, se_getfd = 0, se_setfl = (\<lambda>m. 0)\<rparr>"

definition ex_inet :: inet where
  "ex_inet = \<lparr>inet_pton4 = (\<lambda>a. if 58 \<in> set a then None else Some [0, 0, 0, 0]),
     inet_pton6 = (\<lambda>a. Some (replicate 16 0)), inet_addr = (\<lambda>a. [0, 0, 0, 0])\<rparr>"

definition ex_options :: "(char \<times> byte list) list" where
  "ex_options = [(CHR ''u'', [97, 58, 98]), (CHR ''p'', [57, 48, 48, 48]), (CHR ''N'', [])]"

definition ex_main :: main_env where
  "ex_main = \<lparr>me_os = ex_os [] 0, me_inet = ex_inet, me_alloc = (\<lambda>i. True), me_options = ex_options, me_operands = 0,
     me_fopen = (\<lambda>f. Some (admin_line ([97], [98]))), me_admin_alloc = (\<lambda>i. True),
     me_socks4 = ex_socket 3, me_socks6 = ex_socket 4, me_mng4 = ex_socket 5, me_mng6 = ex_socket 6,
     me_sigprocmask = True, me_sigaction = True\<rparr>"

definition ex_args :: socks5args where
  "ex_args = default_args\<lparr>socks_port := 9000, disectors_enabled := 1,
     socks_addr_info := \<lparr>sa_family = AF_INET, sa_port = [35, 40], sa_addr = [0, 0, 0, 0]\<rparr>,
     socks_addr_info6 := \<lparr>sa_family = AF_INET6, sa_port = [35, 40], sa_addr = replicate 16 0\<rparr>,
     mng_addr_info := \<lparr>sa_family = AF_INET, sa_port = [31, 144], sa_addr = [0, 0, 0, 0]\<rparr>,
     mng_addr_info6 := \<lparr>sa_family = AF_INET6, sa_port = [31, 144], sa_addr = replicate 16 0\<rparr>\<rparr>"

lemma ex_strtol: "strtol [57, 48, 48, 48] = Some (9000, [])"
  by (simp add: strtol_def strtol_scan_def LONG_MIN_def LONG_MAX_def isspace_def isdigit_def digits_value_def)

lemma ex_port: "port_arg [57, 48, 48, 48] = 9000"
  by (simp add: port_arg_def ex_strtol LONG_MIN_def LONG_MAX_def)

lemma ex_inet_knows: "inet_knows_defaults ex_inet"
  by (simp add: inet_knows_defaults_def ex_inet_def any4_def any6_def loopback4_def loopback6_def)

lemma ex_parse: "parse_args ex_inet (\<lambda>i. True) ex_options 0 = Inr (Some (ex_args, [account ([97], [98])]))"
proof -
  have "process_options ex_inet (\<lambda>i. True) ex_options (default_args, []) =
      Inr (Some (default_args\<lparr>socks_port := 9000, socks_addr_info := zero_addr4\<lparr>sa_port := htons 9000\<rparr>,
        socks_addr_info6 := zero_addr6\<lparr>sa_port := htons 9000\<rparr>, disectors_enabled := 1\<rparr>, [account ([97], [98])]))"
    by (simp add: ex_options_def process_option_def ex_port user_arg_def split_at_def user_copy_def account_def cstr_def
        MAX_USERS_def default_args_def)
  then show ?thesis
    by (simp add: parse_args_def default_addresses_def address_processing_def ex_inet_def default_args_def ex_args_def
        any4_def any6_def loopback4_def loopback6_def htons_def)
qed

text \<open>Options \<open>-l ::1 -u a:b -p 9000\<close>.\<close>

definition ex_local_options :: "(char \<times> byte list) list" where
  "ex_local_options = [(CHR ''l'', [58, 58, 49]), (CHR ''u'', [97, 58, 98]), (CHR ''p'', [57, 48, 48, 48])]"

lemma ex_local_parse: "\<exists>a. parse_args ex_inet (\<lambda>i. True) ex_local_options 0 = Inr (Some (a, [account ([97], [98])]))"
proof -
  have l: "address_processing ex_inet [58, 58, 49] a4 a6 p =
      (AF_INET6, a4, \<lparr>sa_family = AF_INET6, sa_port = htons p, sa_addr = replicate 16 0\<rparr>)" for a4 a6 p
    by (simp add: address_processing_def ex_inet_def)
  have o1: "\<exists>a. process_option ex_inet (\<lambda>i. True) CHR ''l'' [58, 58, 49] (default_args, []) = Inr (Some (a, [])) \<and>
      socks_family a = AF_INET6 \<and> mng_family a = AF_UNSPEC"
    by (simp add: process_option_def l family_arg_def default_args_def AF_INET6_def)
  have o2: "process_option ex_inet (\<lambda>i. True) CHR ''u'' [97, 58, 98] (a, []) = Inr (Some (a, [account ([97], [98])]))" for a
    by (simp add: process_option_def user_arg_def split_at_def user_copy_def account_def cstr_def MAX_USERS_def)
  have o3: "\<exists>b. process_option ex_inet (\<lambda>i. True) CHR ''p'' [57, 48, 48, 48] (a, us) = Inr (Some (b, us)) \<and>
      socks_family b = socks_family a \<and> mng_family b = mng_family a" for a us
    by (simp add: process_option_def ex_port)
  obtain b where b: "process_option ex_inet (\<lambda>i. True) CHR ''l'' [58, 58, 49] (default_args, []) = Inr (Some (b, []))"
      "socks_family b = AF_INET6" "mng_family b = AF_UNSPEC"
    using o1 by blast
  obtain a where a: "process_option ex_inet (\<lambda>i. True) CHR ''p'' [57, 48, 48, 48] (b, [account ([97], [98])]) =
      Inr (Some (a, [account ([97], [98])]))" "socks_family a = AF_INET6" "mng_family a = AF_UNSPEC"
    using o3 [of b] b(2,3) by metis
  have p: "process_options ex_inet (\<lambda>i. True) ex_local_options (default_args, []) = Inr (Some (a, [account ([97], [98])]))"
    by (simp add: ex_local_options_def b(1) o2 a(1))
  have "\<exists>p. default_addresses ex_inet b c q r = Some p" for b c q r
    by (auto simp: default_addresses_def address_processing_def ex_inet_def AF_INET_def AF_INET6_def)
  then obtain q where "default_addresses ex_inet (mng_addr a) (mng_addr_6 a) (mng_port a) (mng_addr_info a, mng_addr_info6 a) = Some q"
    by blast
  then show ?thesis by (cases q) (simp add: parse_args_def p a AF_UNSPEC_def AF_INET6_def)
qed

lemma ex_socket_created [simp]: "create_socket AF_INET (ex_socket fd) = (if fd < 0 then -1 else fd)"
    "create_socket AF_INET6 (ex_socket fd) = (if fd < 0 then -1 else fd)"
  by (simp_all add: create_socket_def addr_process_def addr6_process_def ex_socket_def selector_fd_set_nio_def)

text \<open>The first turn of this server: a client is accepted as the descriptor 8.\<close>

definition ex_accepting :: os where
  "ex_accepting = (ex_os [] 0)\<lparr>os_accept := \<lambda>fd. Some (8, zero_sockaddr)\<rparr>"

lemma ex_start: "\<exists>w. server_main ex_main = Inr (Some w) \<and> server_inv w \<and> resolution_jobs (sv_selector w) = [] \<and>
    sv_heap w = Map.empty \<and> pooled w = {} \<and> sv_next w = 0 \<and>
    sel_lookup (sv_selector w) = listening Socks5_passive {4, 3} ++ listening Mng_passive {6, 5}"
proof -
  have load: "load_credentials (\<lambda>i. True) (admin_line ([97], [98])) [] = Inr [account ([97], [98])]"
    using load_credentials_lines [of "[([97], [98])]" "[]"] by (simp add: admin_ok_def MAX_USERS_def)
  have fields: "parse_args (me_inet ex_main) (me_alloc ex_main) (me_options ex_main) (me_operands ex_main) =
      Inr (Some (ex_args, [account ([97], [98])]))"
    "me_fopen ex_main (credentials ex_args) = Some (admin_line ([97], [98]))"
    "load_credentials (me_admin_alloc ex_main) (admin_line ([97], [98])) [] = Inr [account ([97], [98])]"
    "master_sockets (socks_family ex_args) (me_socks4 ex_main) (me_socks6 ex_main) = Some [4, 3]"
    "master_sockets (mng_family ex_args) (me_mng4 ex_main) (me_mng6 ex_main) = Some [6, 5]" "me_os ex_main = ex_os [] 0"
    "me_sigprocmask ex_main" "me_sigaction ex_main"
    using load ex_parse by (simp_all add: ex_main_def ex_args_def default_args_def master_sockets_def)
  obtain w where w: "server_main ex_main = Inr (Some w)" "server_inv w"
      "sel_lookup (sv_selector w) = listening Socks5_passive {4, 3} ++ listening Mng_passive {6, 5}"
    using server_main_ok [OF fields(1-5)] fields(6-8) by (auto simp: INVALID_FD_def ITEMS_MAX_SIZE_def)
  have "main_start (ex_os [] 0) [account ([97], [98])] [account ([97], [98])] (disectors_enabled ex_args) [4, 3] [6, 5] =
      Inr (Some w)"
    using w(1) fields by (simp add: server_main_def selector_init_def)
  from main_started [OF this] have "resolution_jobs (sv_selector w) = []"
    "sv_heap w = Map.empty \<and> pooled w = {} \<and> sv_next w = 0"
    by (simp_all add: pooled_def) (metis main_globals_def server.select_convs list.set(1) Un_empty)
  with w show ?thesis by blast
qed

lemma ready_single:
  assumes "int i \<le> mx"
  shows "ready_below mx {int i} {} = [i]"
proof -
  have "[0..<nat (mx + 1)] = [0..<i] @ i # [Suc i..<nat (mx + 1)]"
    using assms upt_add_eq_append [of 0 i "nat (mx + 1) - i"] by (simp add: upt_conv_Cons)
  then show ?thesis unfolding ready_below_def by (auto simp: filter_empty_conv)
qed

lemma ex_first_turn:
  assumes "server_inv w" and "resolution_jobs (sv_selector w) = []" and "pooled w = {}" and "sv_next w = 0"
    and "sel_lookup (sv_selector w) = listening Socks5_passive {4, 3} ++ listening Mng_passive {6, 5}"
  shows "\<exists>v. selector_select (Ready {3} {}) (\<lambda>i r. ex_accepting) b w = Inr (SELECTOR_SUCCESS, v) \<and>
    sv_heap v = (sv_heap w)(0 \<mapsto> fresh_conn True 8 zero_sockaddr) \<and> sel_full (sv_selector v) \<and> pooled v = {} \<and>
    sel_lookup (sv_selector v) = (sel_lookup (sv_selector w))(8 \<mapsto> accepted_item Socks5_handler 8 0)"
proof -
  let ?w = "begin_turn {3} {} w" and ?s = "sv_selector w"
  have full: "sel_full ?s" "blank_items ?s" "heap_ok w"
    using assms(1) by (auto simp: server_inv_def)
  have it: "sel_lookup ?s 3 = Some \<lparr>item_fd = 3, item_interest = OP_READ, item_handler = Some Socks5_passive, item_data = None\<rparr>"
    by (simp add: assms(5) listening_def map_add_def del: OP_values)
  have ready: "ready_below (max_fd ?s) {3} {} = [3]"
    using ready_single [of 3 "max_fd ?s"] sel_inv_lookup [OF sel_full_inv [OF full(1)] it] by simp
  have pool: "sv_pool w = []" "sv_mng_pool w = []" using assms(3) by (auto simp: pooled_def)
  have "pool_take ex_accepting ?w = Inr (Some 0, ?w\<lparr>sv_next := 1\<rparr>)"
    using pool assms(4) by (simp add: pool_take_def begin_turn_def ex_accepting_def)
  note take = this
  have ctx: "os_accept ex_accepting 3 = Some (8, zero_sockaddr)"
    "selector_fd_set_nio (os_getfd ex_accepting 8) (os_setfl ex_accepting 8) \<noteq> -1"
    "sel_full (sv_selector ?w)" "\<not> INVALID_FD 8" "sel_lookup (sv_selector ?w) 8 = None"
    using full(1) by (simp_all add: begin_turn_def ex_accepting_def INVALID_FD_def ITEMS_MAX_SIZE_def assms(5) listening_def)
  obtain s where
    s: "socksv5_passive_accept ex_accepting 3 ?w =
        Inr ((), ?w\<lparr>sv_next := 1, sv_heap := (sv_heap w)(0 \<mapsto> fresh_conn True 8 zero_sockaddr), sv_selector := s\<rparr>)"
      "sel_full s" "sel_lookup s = (sel_lookup ?s)(8 \<mapsto> accepted_item Socks5_handler 8 0)"
    using socks_accept_ok [OF ctx(1,2) take ctx(3-5)] by (auto simp: begin_turn_def)
  let ?v = "?w\<lparr>sv_next := 1, sv_heap := (sv_heap w)(0 \<mapsto> fresh_conn True 8 zero_sockaddr), sv_selector := s\<rparr>"
  have "polled.inv {3} {} [] ?w"
    using full assms(2) unfolding polled.inv_def by (simp add: polled_def begin_turn_def heap_ok_def)
  from keepsD [OF polled.keeps_call_handler [where tbl = handle_read and e = Assertion_failed and h = "Some Socks5_passive"
        and k = ex_accepting and fd = 3 and x = None] this] s(1)
  have "polled.inv {3} {} [] ?v" by (simp add: call_handler_def)
  then have jobs: "resolution_jobs s = []" using polled_inv [of "{3}" "{}" "[]" ?v] by (simp add: polled_def)
  have "serve (\<lambda>i r. ex_accepting) {3} {} 3 ?w = Inr ((), ?v)"
    using it s(1) by (simp add: serve_def serve_write_def bind_sv_def call_handler_def ret_sv_def begin_turn_def split: option.splits)
  then have "selector_select (Ready {3} {}) (\<lambda>i r. ex_accepting) b w =
      Inr (SELECTOR_SUCCESS, ?v\<lparr>sv_selector := s\<lparr>resolution_jobs := []\<rparr>\<rparr>)"
    unfolding turn_serves [OF full] ready
    using jobs by (simp add: bind_sv_def ret_sv_def handle_block_notifications_def get_sv_def modify_sv_def)
  then show ?thesis using s(2,3) pool by (auto simp: pooled_def begin_turn_def)
qed

section \<open>An administrator\<close>

definition ex_client :: client_env where
  "ex_client = \<lparr>ce_recv = (\<lambda>i. if i = 0 then Some [1, 2] else if i = 1 then Some [1, 0] else Some [0]),
     ce_sends = (\<lambda>i. True), ce_buffer = (\<lambda>i. replicate (if i = 0 then 510 else if i = 1 then 512 else 500) 7),
     ce_index = 10, ce_word1 = [99], ce_word2 = [100], ce_append = False\<rparr>"

definition ex_login :: client_user where
  "ex_login = \<lparr>cu_username = Some [97], cu_password = Some [98], cu_credentials = True\<rparr>"

lemma ex_client_dialogue:
  "client_dialogue ex_client ex_login = Inr ([[1, 2, 0, 2], [1, 1, 97, 1, 98], 10 # [1, 99, 1, 100]], [Done_line])"
proof -
  have "send_credentials (replicate 510 7) ex_login = Inr (userpass_message [97] [98])"
    using send_credentials_message [of "replicate 510 7" ex_login "[97]" "[98]"] by (simp add: ex_login_def cstr_def)
  moreover have "send_request 10 [99] [100] (replicate 512 7) = Inr (Some (10 # add_user_message [99] [100]))"
    using send_request_add [of "replicate 512 7" "[99]" "[100]"] by (simp add: cstr_def)
  moreover have "request_response False (Some [0]) (replicate 500 7) 10 = Inr (0, [Done_line])"
    by (simp add: request_response_def store_bytes_def)
  ultimately show ?thesis
    using dialogue_requests [of ex_client 1 1 ex_login]
    by (simp add: ex_client_def ex_login_def userpass_message_def add_user_message_def)
qed

definition ex_mng_items :: "(handler_id, nat) item list" where
  "ex_mng_items = [ex_client_item\<lparr>item_handler := Some Mng_handler\<rparr>]"

lemma ex_mng_items_simps [simp]:
  "ex_items_ok ex_mng_items"
  "List.find (\<lambda>it. item_fd it = 5) ex_mng_items = Some (ex_client_item\<lparr>item_handler := Some Mng_handler\<rparr>)"
  by (simp_all add: ex_items_ok_def ex_mng_items_def ex_client_item_def ITEMS_MAX_SIZE_def)

definition ex_admin :: socks5 where "ex_admin = fresh_conn False 5 zero_sockaddr"

lemma ex_admin_simps [simp]:
  "\<not> isSocks ex_admin" "client_fd ex_admin = 5" "references ex_admin = 1"
  "conn_stm ex_admin = \<lparr>stm_initial = 0, stm_max_state = 8, stm_current = None\<rparr>"
  "read_buffer ex_admin = ex_buffer" "write_buffer ex_admin = ex_buffer" "conn_ok ex_admin"
  by (simp_all add: ex_admin_def fresh_conn_def ex_buffer_def conn_ok_def terminals_ok_def)

text \<open>The same turn as a run of the loop.\<close>

definition ex_turn :: loop_event where
  "ex_turn = Turn (Ready {3} {}) (\<lambda>i r. ex_accepting) (\<lambda>fd. ex_accepting)"

lemma ex_turn_later [simp]: "connects_later ex_turn"
  by (simp add: ex_turn_def connects_later_def later_def ex_accepting_def EINPROGRESS_def)

lemma ex_turn_run:
  "\<exists>w v it. server_main ex_main = Inr (Some w) \<and> main_loop [ex_turn] w = Inr (SELECTOR_SUCCESS, ''closing'', v) \<and>
     sel_lookup (sv_selector v) 8 = Some it \<and> item_data it = Some 0"
proof -
  obtain w where w: "server_main ex_main = Inr (Some w)" "server_inv w" "resolution_jobs (sv_selector w) = []"
      "sv_heap w = Map.empty" "pooled w = {}" "sv_next w = 0"
      "sel_lookup (sv_selector w) = listening Socks5_passive {4, 3} ++ listening Mng_passive {6, 5}"
    using ex_start by blast
  obtain v where v: "selector_select (Ready {3} {}) (\<lambda>i r. ex_accepting) (\<lambda>fd. ex_accepting) w = Inr (SELECTOR_SUCCESS, v)"
      "sel_lookup (sv_selector v) = (sel_lookup (sv_selector w))(8 \<mapsto> accepted_item Socks5_handler 8 0)"
    using ex_first_turn [OF w(2,3,5-7)] by blast
  show ?thesis
    using w(1) v by (intro exI [of _ w] exI [of _ v]) (simp add: ex_turn_def accepted_item_def)
qed

lemma ex_socks:
  assumes "parse_args (me_inet ex_main) (me_alloc ex_main) (me_options ex_main) (me_operands ex_main) = Inr (Some (a, us))"
  shows "master_sockets (socks_family a) (me_socks4 ex_main) (me_socks6 ex_main) = Some [4, 3]"
proof -
  have "a = ex_args" using assms ex_parse by (simp add: ex_main_def)
  then show ?thesis by (simp add: ex_main_def ex_args_def default_args_def master_sockets_def)
qed

end
