(* ===== verification/Netutils.thy ===== *)
theory Netutils
  imports Resolving
begin

text \<open>
  \<open>src/src/netutils.c\<close>: the text of a socket address, which the log lines of the connecting stage
  and of the POP3 dissector print, and the two copies that block. A block of memory is the list of
  its bytes; an access behind its end, or \<open>strlen\<close> of a block without terminator, is
  \<open>Inl Undefined\<close>. \<open>inet_ntop\<close>, \<open>send\<close> and \<open>recv\<close> are arguments.
\<close>

section \<open>Strings in a block of memory\<close>

definition bytes_of :: "string \<Rightarrow> byte list" where
  "bytes_of s = map (\<lambda>c. of_nat (of_char c)) s"

definition strncpy :: "nat \<Rightarrow> byte list \<Rightarrow> byte list \<Rightarrow> byte list res" where
  "strncpy n s m = put_at 0 (take n (s @ replicate n 0)) m"

definition strlen :: "byte list \<Rightarrow> nat res" where
  "strlen m = (if 0 \<in> set m then Inr (length (cstr m)) else Inl Undefined)"

definition strncat :: "nat \<Rightarrow> byte list \<Rightarrow> byte list \<Rightarrow> byte list res" where
  "strncat n s m = bind_res (strlen m) (\<lambda>l. put_at l (take n s @ [0]) m)"

definition snprintf_at :: "nat \<Rightarrow> nat \<Rightarrow> byte list \<Rightarrow> byte list \<Rightarrow> byte list res" where
  "snprintf_at i n s m = (if n = 0 then Inr m else put_at i (take (n - 1) s @ [0]) m)"

text \<open>\<open>buff[buffsize - 1] = 0\<close>\<close>

definition end_at :: "nat \<Rightarrow> byte list \<Rightarrow> byte list res" where
  "end_at n m = (if 0 < n then put_at (n - 1) [0] m else Inl Undefined)"

section \<open>The text of an address\<close>

text \<open>\<open>ntop f a n\<close> is the text that \<open>inet_ntop\<close> writes into \<open>n\<close> bytes, \<open>None\<close> when it fails.\<close>

definition sockaddr_to_human ::
    "(int \<Rightarrow> byte list \<Rightarrow> nat \<Rightarrow> byte list option) \<Rightarrow> byte list \<Rightarrow> nat \<Rightarrow> sockaddr option \<Rightarrow> byte list res" where
  "sockaddr_to_human ntop buff buffsize addr =
     (case addr of
        None \<Rightarrow> strncpy buffsize (bytes_of ''null'') buff
      | Some a \<Rightarrow>
          (let handled = (sa_family a = AF_INET \<or> sa_family a = AF_INET6)
           in bind_res (if handled
                        then (case ntop (sa_family a) (sa_addr a) buffsize of
                                Some t \<Rightarrow> put_at 0 (t @ [0]) buff
                              | None \<Rightarrow> bind_res (strncpy buffsize (bytes_of ''unknown ip'') buff) (end_at buffsize))
                        else strncpy buffsize (bytes_of ''unknown'') buff) (\<lambda>m.
              bind_res (strncat buffsize (bytes_of '':'') m) (\<lambda>m.
              bind_res (end_at buffsize m) (\<lambda>m.
              bind_res (strlen m) (\<lambda>len.
              bind_res (if handled then snprintf_at len (buffsize - len) (decimal (ntohs (sa_port a))) m
                        else Inr m) (end_at buffsize)))))))"

definition SOCKADDR_TO_HUMAN_MIN :: nat where "SOCKADDR_TO_HUMAN_MIN = 46 + 5 + 1"
definition MAX_IP_LENGTH :: nat where "MAX_IP_LENGTH = 45"

text \<open>A block that holds a string behind which nothing is known.\<close>

definition text_at :: "byte list \<Rightarrow> byte list \<Rightarrow> bool" where
  "text_at s m \<longleftrightarrow> 0 \<notin> set s \<and> (\<exists>r. m = s @ 0 # r)"

lemma text_at_cstr:
  assumes "text_at s m"
  shows "cstr m = s" and "strlen m = Inr (length s)"
  using assms by (auto simp: text_at_def strlen_def)

lemma drop_store_bytes: "i + length xs \<le> n \<Longrightarrow> n \<le> length m \<Longrightarrow> drop n (store_bytes i xs m) = drop n m"
  by (simp add: store_bytes_def)

text \<open>A string stored behind the text that is there, over its terminator.\<close>

lemma put_text:
  assumes "s = [] \<or> text_at s m" and "length s + length t < n" and "n \<le> length m" and "0 \<notin> set t"
  shows "\<exists>m'. put_at (length s) (t @ [0]) m = Inr m' \<and> text_at (s @ t) m' \<and> length m' = length m \<and> drop n m' = drop n m"
proof -
  have "0 \<notin> set s \<and> take (length s) m = s" using assms(1) by (auto simp: text_at_def)
  then show ?thesis
    using assms(2-4) drop_store_bytes [of "length s" "t @ [0]" n m] by (auto simp: text_at_def store_bytes_def)
qed

text \<open>A second terminator behind the string, or at its own place.\<close>

lemma end_behind:
  assumes "text_at s m" and "length s < n" and "n \<le> length m"
  shows "\<exists>m'. end_at n m = Inr m' \<and> text_at s m' \<and> length m' = length m \<and> drop n m' = drop n m"
proof -
  obtain r where m: "m = s @ 0 # r" "0 \<notin> set s" using assms(1) by (auto simp: text_at_def)
  obtain k where k: "n = length s + 1 + k" using assms(2) by (metis Suc_eq_plus1 Suc_leI le_iff_add)
  have "store_bytes (n - 1) [0] m = s @ 0 # (if k = 0 then r else take (k - 1) r @ 0 # drop k r)"
    using m(1) k by (cases k) (auto simp: store_bytes_def)
  then show ?thesis using assms m k drop_store_bytes [of "n - 1" "[0]" n m] by (auto simp: end_at_def text_at_def)
qed

lemma zero_notin_decimal: "0 \<notin> set (decimal n)"
  using decimal_digits [of n] by force

lemma length_decimal: "n < 10 ^ k \<Longrightarrow> 0 < k \<Longrightarrow> length (decimal n) \<le> k"
proof (induction k arbitrary: n)
  case 0
  then show ?case by simp
next
  case (Suc k)
  show ?case
  proof (cases "n < 10")
    case True
    then show ?thesis by (subst decimal.simps) simp
  next
    case False
    then have "0 < k" using Suc.prems by (cases k) auto
    moreover have "n div 10 < 10 ^ k" using Suc.prems(1) by (simp add: div_less_iff_less_mult mult.commute)
    ultimately show ?thesis using Suc.IH False by (subst decimal.simps) simp
  qed
qed

lemma address_text:
  assumes "sa_family a = AF_INET \<or> sa_family a = AF_INET6" and "ntop (sa_family a) (sa_addr a) n = Some t"
    and "0 \<notin> set t" and "length t + 1 < n" and "n \<le> length buff"
  shows "\<exists>m. sockaddr_to_human ntop buff n (Some a) = Inr m \<and> length m = length buff \<and> drop n m = drop n buff \<and>
    cstr m = take (n - 1) (t @ 58 # decimal (ntohs (sa_port a)))"
proof -
  let ?d = "decimal (ntohs (sa_port a))"
  obtain m1 where 1: "put_at 0 (t @ [0]) buff = Inr m1" "text_at t m1" "length m1 = length buff" "drop n m1 = drop n buff"
    using put_text [of "[]" buff t n] assms(3-5) by auto
  have c: "take n (bytes_of '':'') = [58]" using assms(4) by (simp add: bytes_of_def)
  obtain m2 where 2: "put_at (length t) ([58] @ [0]) m1 = Inr m2" "text_at (t @ [58]) m2" "length m2 = length buff"
      "drop n m2 = drop n buff"
    using put_text [of t m1 "[58]" n] assms(4,5) 1(2-4) by auto
  obtain m3 where 3: "end_at n m2 = Inr m3" "text_at (t @ [58]) m3" "length m3 = length buff" "drop n m3 = drop n buff"
    using end_behind [OF 2(2), of n] assms(4,5) 2(3,4) by auto
  let ?l = "length t + 1" let ?u = "take (n - ?l - 1) ?d"
  have u: "0 \<notin> set ?u" using zero_notin_decimal [of "ntohs (sa_port a)"] by (metis in_set_takeD)
  have lu: "length (t @ [58]) + length ?u < n" using assms(4) by auto
  then obtain m4 where 4: "put_at ?l (?u @ [0]) m3 = Inr m4" "text_at ((t @ [58]) @ ?u) m4" "length m4 = length buff"
      "drop n m4 = drop n buff"
    using put_text [of "t @ [58]" m3 ?u n] assms(5) 3(2-4) u by auto
  obtain m5 where 5: "end_at n m4 = Inr m5" "text_at ((t @ [58]) @ ?u) m5" "length m5 = length buff" "drop n m5 = drop n buff"
    using end_behind [OF 4(2), of n] lu assms(5) 4(3,4) unfolding length_append by auto
  have "sockaddr_to_human ntop buff n (Some a) = Inr m5"
    using assms(1,2,4) 1(1) 2(1) 3(1) 4(1) 5(1) c text_at_cstr(2) [OF 1(2)] text_at_cstr(2) [OF 3(2)]
    by (auto simp: sockaddr_to_human_def strncat_def snprintf_at_def)
  moreover have "(t @ [58]) @ ?u = take (n - 1) (t @ 58 # ?d)" using assms(4) by (simp add: take_Cons')
  ultimately show ?thesis using 5 text_at_cstr(1) [OF 5(2)] by metis
qed

text \<open>
  A text that fills the block up to its terminator: the colon takes the place of the terminator,
  and the new one is stored behind the block.
\<close>

lemma address_overflow:
  assumes "sa_family a = AF_INET \<or> sa_family a = AF_INET6" and "ntop (sa_family a) (sa_addr a) n = Some t"
    and "0 \<notin> set t" and "length t + 1 = n" and "n = length buff"
  shows "sockaddr_to_human ntop buff n (Some a) = Inl Undefined"
proof -
  obtain m1 where 1: "put_at 0 (t @ [0]) buff = Inr m1" "text_at t m1" "length m1 = length buff"
    using put_text [of "[]" buff t n] assms(3-5) by auto
  have "take n (bytes_of '':'') = [58]" using assms(4) by (simp add: bytes_of_def)
  then have "strncat n (bytes_of '':'') m1 = Inl Undefined"
    using text_at_cstr(2) [OF 1(2)] 1(3) assms(4,5) by (simp add: strncat_def put_at_def)
  then show ?thesis using assms(1,2) 1(1) by (simp add: sockaddr_to_human_def)
qed

text \<open>With the length that the header asks for, nothing is cut off.\<close>

lemma address_fits:
  assumes "sa_family a = AF_INET \<or> sa_family a = AF_INET6"
    and "ntop (sa_family a) (sa_addr a) SOCKADDR_TO_HUMAN_MIN = Some t"
    and "0 \<notin> set t" and "length t \<le> 45" and "SOCKADDR_TO_HUMAN_MIN \<le> length buff"
  shows "\<exists>m. sockaddr_to_human ntop buff SOCKADDR_TO_HUMAN_MIN (Some a) = Inr m \<and>
    cstr m = t @ 58 # decimal (ntohs (sa_port a))"
proof -
  have "ntohs (sa_port a) < 65536"
    using unat_byte_less [of "sa_port a ! 0"] unat_byte_less [of "sa_port a ! 1"] unfolding ntohs_def by linarith
  then have "ntohs (sa_port a) < 10 ^ 5" by simp
  from length_decimal [OF this] have "length (decimal (ntohs (sa_port a))) \<le> 5" by simp
  moreover have "length t + 1 < SOCKADDR_TO_HUMAN_MIN" using assms(4) by (simp add: SOCKADDR_TO_HUMAN_MIN_def)
  ultimately show ?thesis
    using address_text [where ntop = ntop, OF assms(1-3) _ assms(5)] assms(4) by (auto simp: SOCKADDR_TO_HUMAN_MIN_def)
qed

section \<open>The copies that block\<close>

text \<open>
  \<open>snd i xs\<close> is what the \<open>i\<close>-th call of \<open>send\<close> answers for the bytes \<open>xs\<close>, and \<open>errno\<close> behind it.
  The result is the code, the buffer and the bytes that were sent.
\<close>

function blocking_write :: "(nat \<Rightarrow> byte list \<Rightarrow> int \<times> int) \<Rightarrow> nat \<Rightarrow> buffer \<Rightarrow> (int \<times> buffer \<times> byte list) res" where
  "blocking_write send i b =
     bind_res (buffer_pending b) (\<lambda>xs.
       let (nwritten, errno) = send i xs
       in if nwritten > 0
          then bind_res (buffer_read_adv b nwritten) (\<lambda>b'.
                 if buffer_can_read b'
                 then bind_res (blocking_write send (i + 1) b') (\<lambda>(ret, b'', ys).
                        Inr (ret, b'', take (nat nwritten) xs @ ys))
                 else Inr (0, b', take (nat nwritten) xs))
          else Inr (errno, b, []))"
  by pat_completeness auto
termination
  by (relation "measure (\<lambda>(send, i, b). buf_write b - buf_read b)")
    (auto simp: buffer_read_adv_def buffer_can_read_def buffer_compact_def Let_def split: if_splits)

declare blocking_write.simps [simp del]

definition sock_blocking_write :: "(nat \<Rightarrow> byte list \<Rightarrow> int \<times> int) \<Rightarrow> buffer \<Rightarrow> (int \<times> buffer \<times> byte list) res" where
  "sock_blocking_write send b = blocking_write send 0 b"

text \<open>\<open>send\<close> never takes more than it is given.\<close>

definition send_ok :: "(nat \<Rightarrow> byte list \<Rightarrow> int \<times> int) \<Rightarrow> bool" where
  "send_ok send \<longleftrightarrow> (\<forall>i xs. fst (send i xs) \<le> int (length xs))"

lemma blocking_write_ok:
  assumes "send_ok send" and "buffer_inv b"
  shows "\<exists>ret b' xs. blocking_write send i b = Inr (ret, b', xs) \<and> buffer_inv b' \<and>
    xs @ buffer_content b' = buffer_content b \<and>
    (ret = 0 \<and> buffer_content b' = [] \<or> (\<exists>j. send j (buffer_content b') = (fst (send j (buffer_content b')), ret) \<and>
       fst (send j (buffer_content b')) \<le> 0))"
  using assms
proof (induction send i b rule: blocking_write.induct)
  case (1 send i b)
  let ?c = "buffer_content b"
  obtain n e where n: "send i ?c = (n, e)" by fastforce
  have le: "n \<le> int (length ?c)" using 1(2) n by (simp add: send_ok_def) (metis fst_conv)
  show ?case
  proof (cases "n > 0")
    case False
    then show ?thesis using 1(3) n by (subst blocking_write.simps) (auto intro!: exI [of _ i])
  next
    case True
    then obtain b1 where b1: "buffer_read_adv b n = Inr b1" "buffer_inv b1" "buffer_content b1 = drop (nat n) ?c"
      using buffer_read_adv_spec [OF 1(3), of n] le by auto
    show ?thesis
    proof (cases "buffer_can_read b1")
      case False
      then show ?thesis
        using True n b1 1(3) buffer_can_read_iff [OF b1(2)] by (subst blocking_write.simps) simp
    next
      case more: True
      from 1(1) [OF buffer_pending_ok [OF 1(3)] n [symmetric] _ True b1(1) more 1(2) b1(2)] obtain ret b' xs where
        "blocking_write send (i + 1) b1 = Inr (ret, b', xs)" "buffer_inv b'" "xs @ buffer_content b' = buffer_content b1"
        "ret = 0 \<and> buffer_content b' = [] \<or> (\<exists>j. send j (buffer_content b') = (fst (send j (buffer_content b')), ret) \<and>
           fst (send j (buffer_content b')) \<le> 0)"
        by auto
      then show ?thesis using True more n b1(1,3) 1(3) by (subst blocking_write.simps) auto
    qed
  qed
qed

text \<open>
  \<open>sock_blocking_copy\<close>: \<open>rcv\<close> lists the answers of \<open>recv\<close>, at most 4096 bytes each, \<open>None\<close> for
  -1; the inner loop sends one of them. The result is the code and the bytes that were sent.
\<close>

function send_chunk :: "(nat \<Rightarrow> byte list \<Rightarrow> int \<times> int) \<Rightarrow> nat \<Rightarrow> byte list \<Rightarrow> int option \<times> nat \<times> byte list" where
  "send_chunk send i xs =
     (let (nwritten, errno) = send i xs
      in if nwritten > 0
         then (if int (length xs) - nwritten > 0
               then let (e, j, ys) = send_chunk send (i + 1) (drop (nat nwritten) xs)
                    in (e, j, take (nat nwritten) xs @ ys)
               else (None, i + 1, take (nat nwritten) xs))
         else (Some errno, i + 1, []))"
  by pat_completeness auto
termination
  by (relation "measure (\<lambda>(send, i, xs). length xs)") auto

declare send_chunk.simps [simp del]

fun copy_chunks :: "(nat \<Rightarrow> byte list \<Rightarrow> int \<times> int) \<Rightarrow> nat \<Rightarrow> byte list option list \<Rightarrow> int \<times> byte list" where
  "copy_chunks send i (Some (x # xs) # rcv) =
     (case send_chunk send i (x # xs) of
        (Some errno, j, ys) \<Rightarrow> (errno, ys)
      | (None, j, ys) \<Rightarrow> (let (ret, zs) = copy_chunks send j rcv in (ret, ys @ zs)))"
| "copy_chunks send i rcv = (0, [])"

definition sock_blocking_copy :: "(nat \<Rightarrow> byte list \<Rightarrow> int \<times> int) \<Rightarrow> byte list option list \<Rightarrow> int \<times> byte list" where
  "sock_blocking_copy send rcv = copy_chunks send 0 rcv"

text \<open>The stream behind a list of answers: up to its end or its first error.\<close>

fun stream :: "byte list option list \<Rightarrow> byte list" where
  "stream (Some (x # xs) # rcv) = x # xs @ stream rcv"
| "stream rcv = []"

lemma send_chunk_ok:
  assumes "xs \<noteq> []"
  shows "case send_chunk send i xs of (e, j, ys) \<Rightarrow> (\<exists>zs. xs = ys @ zs) \<and> (e = None \<longrightarrow> ys = xs)"
  using assms
proof (induction send i xs rule: send_chunk.induct)
  case (1 send i xs)
  obtain n e where n: "send i xs = (n, e)" by fastforce
  show ?case
  proof (cases "0 < n \<and> n < int (length xs)")
    case True
    then have ne: "drop (nat n) xs \<noteq> []" by (simp add: not_le nat_less_iff)
    obtain f j ys where c: "send_chunk send (i + 1) (drop (nat n) xs) = (f, j, ys)" by (metis prod_cases3)
    then obtain zs where zs: "drop (nat n) xs = ys @ zs" "f = None \<longrightarrow> zs = []"
      using 1(1) [OF n [symmetric]] True ne by auto
    have "xs = (take (nat n) xs @ ys) @ zs" using append_take_drop_id [of "nat n" xs] zs(1) by simp
    moreover have "send_chunk send i xs = (f, j, take (nat n) xs @ ys)"
      using True n c by (subst send_chunk.simps) simp
    ultimately show ?thesis using zs(2) by auto
  next
    case False
    then show ?thesis using n by (subst send_chunk.simps) (auto simp: append_take_drop_id [symmetric])
  qed
qed

text \<open>A \<open>send\<close> that never fails.\<close>

definition send_always :: "(nat \<Rightarrow> byte list \<Rightarrow> int \<times> int) \<Rightarrow> bool" where
  "send_always send \<longleftrightarrow> (\<forall>i xs. xs \<noteq> [] \<longrightarrow> 0 < fst (send i xs))"

lemma send_chunk_always:
  assumes "send_always send" and "xs \<noteq> []"
  shows "fst (send_chunk send i xs) = None"
  using assms
proof (induction send i xs rule: send_chunk.induct)
  case (1 send i xs)
  obtain n e where n: "send i xs = (n, e)" by fastforce
  then have pos: "0 < n" using 1(2,3) unfolding send_always_def by (metis fst_conv)
  show ?case
  proof (cases "n < int (length xs)")
    case True
    then have "drop (nat n) xs \<noteq> []" using pos by (simp add: not_le nat_less_iff)
    then have "fst (send_chunk send (i + 1) (drop (nat n) xs)) = None" using 1(1) [OF n [symmetric]] 1(2) pos True by simp
    then show ?thesis using pos n True by (subst send_chunk.simps) (auto split: prod.splits)
  next
    case False
    then show ?thesis using n pos by (subst send_chunk.simps) simp
  qed
qed

text \<open>What is sent is a beginning of the stream; all of it, and the code 0, when no \<open>send\<close> fails.\<close>

lemma copy_chunks_ok: "(\<exists>zs. stream rcv = snd (copy_chunks send i rcv) @ zs) \<and>
    (send_always send \<longrightarrow> copy_chunks send i rcv = (0, stream rcv))"
proof (induction send i rcv rule: copy_chunks.induct)
  case (1 send i x xs rcv)
  obtain e j ys where c: "send_chunk send i (x # xs) = (e, j, ys)" by (metis prod_cases3)
  then obtain zs where zs: "x # xs = ys @ zs" "e = None \<longrightarrow> ys = x # xs"
    using send_chunk_ok [of "x # xs" send i] by auto
  have a: "send_always send \<Longrightarrow> e = None" using send_chunk_always [of send "x # xs" i] c by simp
  show ?case
  proof (cases e)
    case None
    then show ?thesis using 1 [OF c [symmetric] None refl] c zs(2) by (auto split: prod.splits)
  next
    case (Some errno)
    have "stream (Some (x # xs) # rcv) = ys @ zs @ stream rcv" 
      by (metis append.assoc append_Cons stream.simps(1) zs(1))
    moreover have "copy_chunks send i (Some (x # xs) # rcv) = (errno, ys)" using Some c by simp
    moreover have "\<not> send_always send" using Some a by auto
    ultimately show ?thesis by (metis snd_conv)
  qed
qed simp_all

text \<open>A stream that \<open>recv\<close> breaks off is copied with the code 0.\<close>

lemma stream_broken_off: "stream (rcv @ None # rest) = stream rcv"
  by (induction rcv rule: stream.induct) auto

lemma copy_broken_off: "send_always send \<Longrightarrow> sock_blocking_copy send (rcv @ None # rest) = (0, stream rcv)"
  using copy_chunks_ok [of "rcv @ None # rest" send 0] by (simp add: sock_blocking_copy_def stream_broken_off)

end
