(* ===== verification/Unit_Tests.thy ===== *)
theory Unit_Tests
  imports Netutils Startup
begin

text \<open>
  The unit tests of the repository (\<open>src/src/tests\<close>) on the model: each test is a program over the
  modelled operations whose assertions fail with \<open>Assertion_failed\<close>, and each passes. The tests of
  \<open>parser.h\<close> and \<open>parser_utils.h\<close> are left out: no source implements these headers.
\<close>

definition ck_assert :: "bool \<Rightarrow> unit res" where
  "ck_assert b = (if b then Inr () else Inl Assertion_failed)"

lemma ck_assert_pass [simp]: "b \<Longrightarrow> ck_assert b = Inr ()" "bind_res (Inr x) f = f x"
  by (simp_all add: ck_assert_def)

section \<open>\<open>buffer_test.c\<close>\<close>

definition memcpy_to :: "nat \<Rightarrow> byte list \<Rightarrow> buffer \<Rightarrow> buffer res" where
  "memcpy_to p xs b = bind_res (put_at p xs (buf_data b)) (\<lambda>d. Inr (b\<lparr>buf_data := d\<rparr>))"

definition test_buffer_misc :: "byte list \<Rightarrow> unit res" where
  "test_buffer_misc direct_buff =
     (let b = buffer_init 6 direct_buff
      in bind_res (ck_assert (buffer_can_write b)) (\<lambda>_.
         bind_res (ck_assert (\<not> buffer_can_read b)) (\<lambda>_.
         bind_res (buffer_write_ptr b) (\<lambda>(p, wbytes).
         bind_res (ck_assert (wbytes = 6)) (\<lambda>_.
         bind_res (memcpy_to p [72, 79, 76, 65] b) (\<lambda>b.
         bind_res (buffer_write_adv b 4) (\<lambda>b.
         bind_res (buffer_write_ptr b) (\<lambda>(p, wbytes).
         bind_res (ck_assert (wbytes = 2)) (\<lambda>_.
         bind_res (buffer_read_ptr b) (\<lambda>(p, rbytes).
         bind_res (ck_assert (rbytes = 4)) (\<lambda>_.
         bind_res (buffer_read b) (\<lambda>(c, b).
         bind_res (ck_assert (c = 72)) (\<lambda>_.
         bind_res (buffer_read b) (\<lambda>(c, b).
         bind_res (ck_assert (c = 79)) (\<lambda>_.
         bind_res (buffer_read b) (\<lambda>(c, b).
         bind_res (ck_assert (c = 76)) (\<lambda>_.
         bind_res (buffer_read_ptr b) (\<lambda>(p, rbytes).
         bind_res (ck_assert (rbytes = 1)) (\<lambda>_.
         bind_res (buffer_write_ptr b) (\<lambda>(p, wbytes).
         bind_res (ck_assert (wbytes = 2)) (\<lambda>_.
         bind_res (memcpy_to p [32, 77] b) (\<lambda>b.
         bind_res (buffer_write_adv b 2) (\<lambda>b.
         bind_res (ck_assert (\<not> buffer_can_write b)) (\<lambda>_.
         bind_res (buffer_write_ptr b) (\<lambda>(p, wbytes).
         bind_res (ck_assert (wbytes = 0)) (\<lambda>_.
         bind_res (buffer_read_ptr b) (\<lambda>(ptr, rbytes).
         bind_res (ck_assert (rbytes = 3)) (\<lambda>_.
         bind_res (ck_assert (ptr \<noteq> 0)) (\<lambda>_.
         let b = buffer_compact b
         in bind_res (buffer_read_ptr b) (\<lambda>(p, rbytes).
            bind_res (ck_assert (p = 0 \<and> rbytes = 3)) (\<lambda>_.
            bind_res (buffer_write_ptr b) (\<lambda>(p, wbytes).
            bind_res (ck_assert (p = 3 \<and> wbytes = 3)) (\<lambda>_.
            bind_res (memcpy_to ptr [85, 78, 68] b) (\<lambda>b.
            bind_res (buffer_write_adv b 3) (\<lambda>b.
            bind_res (buffer_write_ptr b) (\<lambda>(p, wbytes).
            bind_res (ck_assert (wbytes = 0)) (\<lambda>_.
            bind_res (buffer_read_ptr b) (\<lambda>(p, rbytes).
            bind_res (ck_assert (p = 0)) (\<lambda>_.
            bind_res (buffer_read_adv b (int rbytes)) (\<lambda>b.
            bind_res (buffer_read_ptr b) (\<lambda>(p, rbytes).
            bind_res (ck_assert (rbytes = 0)) (\<lambda>_.
            bind_res (buffer_write_ptr b) (\<lambda>(p, wbytes).
            bind_res (ck_assert (p = 0 \<and> wbytes = 6)) (\<lambda>_.
            let b = buffer_compact b
            in bind_res (buffer_read_ptr b) (\<lambda>(p, rbytes).
               bind_res (ck_assert (rbytes = 0)) (\<lambda>_.
               bind_res (buffer_write_ptr b) (\<lambda>(p, wbytes).
                 ck_assert (wbytes = 6))))))))))))))))))))))))))))))))))))))))))))))))"

lemmas buffer_defs = buffer_init_def buffer_reset_def buffer_can_write_def buffer_can_read_def buffer_write_ptr_def
  buffer_read_ptr_def buffer_write_adv_def buffer_read_adv_def buffer_read_def buffer_compact_def memcpy_to_def
  put_at_def store_bytes_def

lemma buffer_test_passes:
  assumes "length xs = 6"
  shows "test_buffer_misc xs = Inr ()"
proof -
  obtain a b c d e f where "xs = [a, b, c, d, e, f]" using assms by (auto simp: numeral_eq_Suc length_Suc_conv)
  then show ?thesis by (simp add: test_buffer_misc_def buffer_defs Let_def)
qed

section \<open>\<open>stm_test.c\<close>\<close>

record stm_data =
  arrived :: "bool list"
  departed :: "bool list"
  stm_i :: nat

definition on_arrival_mark :: "nat \<Rightarrow> unit \<Rightarrow> stm_data \<Rightarrow> stm_data res" where
  "on_arrival_mark state key d = Inr (d\<lparr>arrived := (arrived d)[state := True]\<rparr>)"

definition on_departure_mark :: "nat \<Rightarrow> unit \<Rightarrow> stm_data \<Rightarrow> stm_data res" where
  "on_departure_mark state key d = Inr (d\<lparr>departed := (departed d)[state := True]\<rparr>)"

definition on_ready_next :: "unit \<Rightarrow> stm_data \<Rightarrow> (nat \<times> stm_data) res" where
  "on_ready_next key d =
     (if stm_i d < 2 then Inr (stm_i d + 1, d\<lparr>stm_i := stm_i d + 1\<rparr>) else Inr (2, d))"

definition test_statbl :: "(unit, stm_data) state_table" where
  "test_statbl = map (\<lambda>i. \<lparr>sd_state = i, on_arrival = Some on_arrival_mark, on_departure = Some on_departure_mark,
     on_read_ready = Some on_ready_next, on_write_ready = Some on_ready_next, on_block_ready = None\<rparr>) [0, 1, 2]"

definition test_stm :: "unit res" where
  "test_stm =
     (let d = \<lparr>arrived = [False, False, False], departed = [False, False, False], stm_i = 0\<rparr>
      in bind_res (stm_init test_statbl \<lparr>stm_initial = 0, stm_max_state = 2, stm_current = None\<rparr>) (\<lambda>m.
         bind_res (stm_state test_statbl m) (\<lambda>st.
         bind_res (ck_assert (st = 0 \<and> arrived d = [False, False, False] \<and> stm_current m = None)) (\<lambda>_.
         bind_res (stm_handler_read test_statbl m () d) (\<lambda>(ret, m, d).
         bind_res (stm_state test_statbl m) (\<lambda>st.
         bind_res (ck_assert (st = 1 \<and> arrived d = [True, True, False] \<and> departed d = [True, False, False])) (\<lambda>_.
         bind_res (stm_handler_write test_statbl m () d) (\<lambda>(ret, m, d).
         bind_res (stm_state test_statbl m) (\<lambda>st.
         bind_res (ck_assert (st = 2 \<and> arrived d = [True, True, True] \<and> departed d = [True, True, False])) (\<lambda>_.
         bind_res (stm_handler_read test_statbl m () d) (\<lambda>(ret, m, d).
         bind_res (stm_state test_statbl m) (\<lambda>st.
         bind_res (ck_assert (st = 2 \<and> arrived d = [True, True, True] \<and> departed d = [True, True, False])) (\<lambda>_.
         bind_res (stm_handler_close test_statbl m () d) (\<lambda>d. Inr ()))))))))))))))"

lemma stm_test_passes: "test_stm = Inr ()"
proof -
  have init: "stm_init test_statbl \<lparr>stm_initial = 0, stm_max_state = 2, stm_current = None\<rparr> =
      Inr \<lparr>stm_initial = 0, stm_max_state = 2, stm_current = None\<rparr>"
    by (simp add: stm_init_def stm_check_states.simps state_at_def test_statbl_def numeral_2_eq_2)
  show ?thesis
    unfolding test_stm_def Let_def init
    by (simp add: stm_handler_defs stm_dispatch_def stm_state_def stm_handler_close_def handle_first_def jump_def run_hook_def
        state_at_def test_statbl_def on_arrival_mark_def on_departure_mark_def on_ready_next_def numeral_2_eq_2)
qed

section \<open>\<open>selector_test.c\<close>\<close>

definition test_selector_error :: bool where
  "test_selector_error = (\<forall>st \<in> set [SELECTOR_SUCCESS, SELECTOR_ENOMEM, SELECTOR_MAXFD, SELECTOR_IARGS, SELECTOR_IO].
     selector_error st \<noteq> ''something failed'')"

definition test_next_capacity :: bool where
  "test_next_capacity = (\<forall>(n, c) \<in> set [(0, 1), (1, 2), (2, 4), (3, 4), (4, 8), (7, 8), (8, 16), (15, 16), (31, 32), (16, 32),
     (ITEMS_MAX_SIZE, ITEMS_MAX_SIZE), (ITEMS_MAX_SIZE + 1, ITEMS_MAX_SIZE)]. next_capacity n = Inr (c + 1))"

lemma simple_tests_pass: "test_selector_error" "test_next_capacity"
  by (simp_all add: test_selector_error_def test_next_capacity_def next_capacity_def count_bits.simps ITEMS_MAX_SIZE_def)

definition unused_items :: "('h, 'd) fdselector \<Rightarrow> bool" where
  "unused_items s = (\<forall>it \<in> set (fds s). item_fd it = FD_UNUSED)"

definition test_ensure_capacity :: "unit res" where
  "test_ensure_capacity =
     bind_res (selector_new True True 0) (\<lambda>x.
     case x of
       None \<Rightarrow> Inl Undefined
     | Some (s :: (unit, nat) fdselector) \<Rightarrow>
         bind_res (ck_assert (unused_items s)) (\<lambda>_.
         bind_res (ensure_capacity True s 1) (\<lambda>(st, s).
         bind_res (ck_assert (st = SELECTOR_SUCCESS \<and> 1 \<le> fd_size s)) (\<lambda>_.
         bind_res (ensure_capacity True s 10) (\<lambda>(st, s).
         bind_res (ck_assert (st = SELECTOR_SUCCESS \<and> 10 \<le> fd_size s)) (\<lambda>_.
         let last_size = fd_size s
         in bind_res (ensure_capacity True s (ITEMS_MAX_SIZE + 1)) (\<lambda>(st, s).
            bind_res (ck_assert (st = SELECTOR_MAXFD \<and> last_size = fd_size s \<and> unused_items s)) (\<lambda>_.
            bind_res (selector_destroy (\<lambda>_. None) s ()) (\<lambda>_.
            bind_res (selector_new True True (ITEMS_MAX_SIZE + 1)) (\<lambda>(y :: (unit, nat) fdselector option).
              ck_assert (y = None)))))))))))"

lemma unregister_unused:
  "\<forall>i \<in> set l. i < length (fds s) \<and> \<not> ITEM_USED (fds s ! i) \<Longrightarrow> unregister_used cb l s w = Inr (s, w)"
  by (induction l) auto

lemma destroy_unused:
  assumes "unused_items s" and "fd_size s = length (fds s)"
  shows "selector_destroy cb s w = Inr w"
proof -
  have "\<forall>i \<in> set [0..<fd_size s]. i < length (fds s) \<and> \<not> ITEM_USED (fds s ! i)"
    using assms by (simp add: unused_items_def ITEM_USED_def)
  then show ?thesis by (simp add: selector_destroy_def unregister_unused)
qed

lemma ensure_capacity_test_passes: "test_ensure_capacity = Inr ()"
proof -
  let ?b = "item_init zero_item :: (unit, nat) item"
  let ?s = "\<lambda>n. (empty_selector :: (unit, nat) fdselector)\<lparr>fds := replicate n ?b, fd_size := n\<rparr>"
  have b: "item_init ?b = ?b" "item_fd ?b = FD_UNUSED" by (simp_all add: item_init_def)
  have cap: "next_capacity 0 = Inr 2" "next_capacity 10 = Inr 17"
    by (simp_all add: next_capacity_def count_bits.simps ITEMS_MAX_SIZE_def)
  have 1: "selector_new True True 0 = Inr (Some (?s 2))"
    by (simp add: selector_new_def ensure_capacity_def cap items_init_def empty_selector_def ITEMS_MAX_SIZE_def)
  have 2: "ensure_capacity True (?s 2) 1 = Inr (SELECTOR_SUCCESS, ?s 2)" by (simp add: ensure_capacity_def)
  have 3: "ensure_capacity True (?s 2) 10 = Inr (SELECTOR_SUCCESS, ?s 17)"
    by (simp add: ensure_capacity_def cap items_init_def ITEMS_MAX_SIZE_def element_size_def SIZE_MAX_def
        replicate_add [symmetric])
  have 4: "ensure_capacity True (?s 17) (ITEMS_MAX_SIZE + 1) = Inr (SELECTOR_MAXFD, ?s 17)"
    by (simp add: ensure_capacity_def ITEMS_MAX_SIZE_def)
  have 5: "selector_new True True (ITEMS_MAX_SIZE + 1) = Inr (None :: (unit, nat) fdselector option)"
    by (simp add: selector_new_def ensure_capacity_def empty_selector_def ITEMS_MAX_SIZE_def)
  have un: "unused_items (?s n)" for n by (simp add: unused_items_def b)
  show ?thesis
    unfolding test_ensure_capacity_def Let_def
    by (simp add: 1 2 [simplified] 3 4 [simplified] 5 [simplified] un destroy_unused)
qed

text \<open>The registrations: the close callback counts, and asserts what it is given.\<close>

definition data_mark :: nat where "data_mark = 0x0FF1CE"

definition destroy_callback :: "unit \<Rightarrow> (int \<Rightarrow> nat option \<Rightarrow> nat \<Rightarrow> nat res) option" where
  "destroy_callback h = Some (\<lambda>fd x n.
     bind_res (ck_assert (0 \<le> fd \<and> fd < int ITEMS_MAX_SIZE \<and> x = Some data_mark)) (\<lambda>_. Inr (n + 1)))"

definition test_item :: "int \<Rightarrow> (unit, nat) item" where
  "test_item fd = \<lparr>item_fd = fd, item_interest = 0, item_handler = Some (), item_data = Some data_mark\<rparr>"

definition test_selector_register_fd :: "unit res" where
  "test_selector_register_fd =
     bind_res (selector_new True True 1024) (\<lambda>x.
     case x of
       None \<Rightarrow> Inl Assertion_failed
     | Some (s :: (unit, nat) fdselector) \<Rightarrow>
         bind_res (selector_register True s (-1) None 0 (Some data_mark)) (\<lambda>(st, _).
         bind_res (ck_assert (st = SELECTOR_IARGS)) (\<lambda>_.
         let fd = int ITEMS_MAX_SIZE - 1
         in bind_res (selector_register True s fd (Some ()) 0 (Some data_mark)) (\<lambda>(st, s).
            bind_res (ck_assert (st = SELECTOR_SUCCESS \<and> max_fd s = fd \<and> fds s ! nat fd = test_item fd)) (\<lambda>_.
            bind_res (selector_destroy destroy_callback s 0) (\<lambda>n. ck_assert (n = 1)))))))"

definition test_selector_register_unregister_register :: "unit res" where
  "test_selector_register_unregister_register =
     bind_res (selector_new True True 1024) (\<lambda>x.
     case x of
       None \<Rightarrow> Inl Assertion_failed
     | Some (s :: (unit, nat) fdselector) \<Rightarrow>
         let fd = int ITEMS_MAX_SIZE - 1
         in bind_res (selector_register True s fd (Some ()) 0 (Some data_mark)) (\<lambda>(st, s).
            bind_res (ck_assert (st = SELECTOR_SUCCESS)) (\<lambda>_.
            bind_res (selector_unregister_fd destroy_callback s fd 0) (\<lambda>(st, s, n).
            bind_res (ck_assert (st = SELECTOR_SUCCESS \<and> max_fd s = 0 \<and> fds s ! nat fd =
              \<lparr>item_fd = FD_UNUSED, item_interest = 0, item_handler = None, item_data = None\<rparr>)) (\<lambda>_.
            bind_res (selector_register True s fd (Some ()) 0 (Some data_mark)) (\<lambda>(st, s).
            bind_res (ck_assert (st = SELECTOR_SUCCESS \<and> max_fd s = fd \<and> fds s ! nat fd = test_item fd)) (\<lambda>_.
            bind_res (selector_destroy destroy_callback s n) (\<lambda>n. ck_assert (n = 2)))))))))"

text \<open>The table with one registration, and without.\<close>

definition one_item :: "(unit, nat) fdselector \<Rightarrow> (unit, nat) fdselector" where
  "one_item s = s\<lparr>fds := (replicate 1025 (item_init zero_item))[1023 := test_item 1023], max_fd := 1023\<rparr>"

definition no_item :: "(unit, nat) fdselector" where
  "no_item = empty_selector\<lparr>fds := replicate 1025 (item_init zero_item), fd_size := 1025\<rparr>"

lemma registered_once:
  "selector_new True True 1024 = Inr (Some no_item)"
  "selector_register True no_item 1023 (Some ()) 0 (Some data_mark) = Inr (SELECTOR_SUCCESS, one_item no_item)"
  "selector_unregister_fd destroy_callback (one_item no_item) 1023 n = Inr (SELECTOR_SUCCESS, no_item, n + 1)"
proof -
  have "next_capacity 1024 = Inr 1025"
    by (simp add: next_capacity_def count_bits.simps ITEMS_MAX_SIZE_def)
  then show "selector_new True True 1024 = Inr (Some no_item)"
    by (simp add: selector_new_def ensure_capacity_def items_init_def empty_selector_def no_item_def ITEMS_MAX_SIZE_def)
  show "selector_register True no_item 1023 (Some ()) 0 (Some data_mark) = Inr (SELECTOR_SUCCESS, one_item no_item)"
    by (simp add: selector_register_def INVALID_FD_def ITEMS_MAX_SIZE_def no_item_def one_item_def test_item_def
        items_update_fdset_for_fd_def empty_selector_def ITEM_USED_def FD_UNUSED_def item_init_def)
  have same: "(replicate 1025 x)[1023 := x] = replicate 1025 x" for x :: "(unit, nat) item"
    by (metis list_update_id nth_replicate length_replicate list_update_beyond not_le)
  have "fold (\<lambda>it mx. if ITEM_USED it then (if item_fd it > mx then item_fd it else mx) else mx)
      (replicate k (item_init zero_item :: (unit, nat) item)) 0 = 0" for k
    by (induction k) simp_all
  then show "selector_unregister_fd destroy_callback (one_item no_item) 1023 n = Inr (SELECTOR_SUCCESS, no_item, n + 1)"
    by (simp add: selector_unregister_fd_def INVALID_FD_def ITEMS_MAX_SIZE_def no_item_def one_item_def test_item_def
        items_update_fdset_for_fd_def empty_selector_def ITEM_USED_def FD_UNUSED_def destroy_callback_def items_max_fd_def
        same Let_def data_mark_def)
qed

lemma unregister_used_append:
  "unregister_used cb (l @ l') s w = bind_res (unregister_used cb l s w) (\<lambda>(s, w). unregister_used cb l' s w)"
proof (induction l arbitrary: s w)
  case (Cons i l)
  then show ?case by (auto simp: bind_res_def split: sum.split)
qed simp

lemma destroy_one: "selector_destroy destroy_callback (one_item no_item) n = Inr (n + 1)"
proof -
  have "[0..<m + 2] = [0..<m] @ [m] @ [m + 1]" for m by simp
  from this [of 1023] have split: "[0..<1025] = [0..<1023] @ [1023] @ [1024]" by (simp only: numeral_plus_numeral numeral_plus_one add_num_simps)
  have blank: "unregister_used destroy_callback [0..<1023] (one_item no_item) n = Inr (one_item no_item, n)"
    by (rule unregister_unused) (simp add: one_item_def)
  have "unregister_used destroy_callback [1023] (one_item no_item) n = Inr (no_item, n + 1)"
    using registered_once(3) [of n] by (simp add: one_item_def test_item_def ITEM_USED_def FD_UNUSED_def)
  then have "unregister_used destroy_callback [1023, 1024] (one_item no_item) n = Inr (no_item, n + 1)"
    using unregister_used_append [of destroy_callback "[1023]" "[1024]" "one_item no_item" n] by (simp add: no_item_def)
  moreover have "fds (one_item no_item) \<noteq> []" "fd_size (one_item no_item) = 1025"
    by (simp_all add: one_item_def no_item_def)
  ultimately show ?thesis
    unfolding selector_destroy_def by (simp add: split unregister_used_append blank del: upt_rec_numeral unregister_used.simps)
qed

lemma selector_tests_pass:
  "test_selector_register_fd = Inr ()" "test_selector_register_unregister_register = Inr ()"
proof -
  have fd: "int ITEMS_MAX_SIZE - 1 = 1023" by (simp add: ITEMS_MAX_SIZE_def)
  have one: "max_fd (one_item no_item) = 1023" "fds (one_item no_item) ! 1023 = test_item 1023"
    by (simp_all add: one_item_def)
  have no: "max_fd no_item = 0" "fds no_item ! 1023 = \<lparr>item_fd = FD_UNUSED, item_interest = 0, item_handler = None, item_data = None\<rparr>"
    by (simp_all add: no_item_def empty_selector_def item_init_def zero_item_def)
  show "test_selector_register_fd = Inr ()"
    unfolding test_selector_register_fd_def fd Let_def
    by (simp add: registered_once one destroy_one) (simp add: selector_register_def)
  show "test_selector_register_unregister_register = Inr ()"
    unfolding test_selector_register_unregister_register_def fd Let_def
    by (simp add: registered_once one no destroy_one)
qed

section \<open>\<open>netutils_test.c\<close>\<close>

text \<open>\<open>inet_ntop\<close> on one address: its text when it fits with its terminator.\<close>

definition ntop_fits :: "string \<Rightarrow> int \<Rightarrow> byte list \<Rightarrow> nat \<Rightarrow> byte list option" where
  "ntop_fits text family a n = (if length text < n then Some (bytes_of text) else None)"

text \<open>The calls \<open>sockaddr_to_human(buff, n, x)\<close> of a test into one array, with the expected texts.\<close>

fun check_texts :: "string \<Rightarrow> sockaddr \<Rightarrow> (nat \<times> string) list \<Rightarrow> byte list \<Rightarrow> unit res" where
  "check_texts text x [] buff = Inr ()"
| "check_texts text x ((n, s) # l) buff =
     bind_res (sockaddr_to_human (ntop_fits text) buff n (Some x)) (\<lambda>m.
     bind_res (ck_assert (cstr m = bytes_of s)) (\<lambda>_. check_texts text x l m))"

definition test_sockaddr_to_human_ipv4 :: "unit res" where
  "test_sockaddr_to_human_ipv4 = check_texts ''1.2.3.4''
       \<lparr>sa_family = AF_INET, sa_port = htons 9090, sa_addr = [1, 2, 3, 4]\<rparr>
     [(50, ''1.2.3.4:9090''), (5, ''unkn''), (8, ''1.2.3.4''), (9, ''1.2.3.4:''), (10, ''1.2.3.4:9''),
      (11, ''1.2.3.4:90''), (12, ''1.2.3.4:909''), (13, ''1.2.3.4:9090'')] (replicate 50 0)"

definition test_sockaddr_to_human_ipv6 :: "unit res" where
  "test_sockaddr_to_human_ipv6 = check_texts ''ffff:ffff:ffff:ffff:ffff:ffff:ffff:ffff''
       \<lparr>sa_family = AF_INET6, sa_port = htons 9090, sa_addr = replicate 16 255\<rparr>
     [(10, ''unknown i''), (39, ''unknown ip:9090''), (40, ''ffff:ffff:ffff:ffff:ffff:ffff:ffff:ffff''),
      (41, ''ffff:ffff:ffff:ffff:ffff:ffff:ffff:ffff:''), (42, ''ffff:ffff:ffff:ffff:ffff:ffff:ffff:ffff:9''),
      (43, ''ffff:ffff:ffff:ffff:ffff:ffff:ffff:ffff:90''), (44, ''ffff:ffff:ffff:ffff:ffff:ffff:ffff:ffff:909''),
      (45, ''ffff:ffff:ffff:ffff:ffff:ffff:ffff:ffff:9090'')] (replicate 50 0)"

lemma port_9090: "decimal (ntohs (htons 9090)) = [57, 48, 57, 48]"
  by (simp add: htons_def ntohs_def decimal.simps [of 9090] decimal.simps [of 909] decimal.simps [of 90] decimal.simps [of 9])

lemmas human_defs = sockaddr_to_human_def ntop_fits_def bytes_of_def strncpy_def strncat_def strlen_def snprintf_at_def
  end_at_def put_at_def store_bytes_def cstr_def port_9090

lemma netutils_tests_pass:
  "test_sockaddr_to_human_ipv4 = Inr ()" "test_sockaddr_to_human_ipv6 = Inr ()"
  by (simp_all add: test_sockaddr_to_human_ipv4_def test_sockaddr_to_human_ipv6_def human_defs)

end
