(* ===== verification/Spec2Isabelle.thy ===== *)
theory Spec2Isabelle
  imports Scenario Turns Main_Exit Client_Main Unit_Tests Mng_Session
begin

text \<open>
  A SOCKS5 proxy server with a management protocol, and its management client (\<open>src/src\<close>, in C).

  \<^bold>\<open>The program.\<close> One thread runs a loop around \<open>selector_select\<close> (\<open>selector.c\<close>): \<open>pselect\<close> over
  the descriptors of a table, one call of the read or write handler for every ready one, then one
  block event for every finished job of a resolver thread. A descriptor belongs to a master socket
  (\<open>main.c\<close>) or to a connection, a \<open>struct socks5\<close> taken from a pool (\<open>socks5nio.c\<close> for clients
  of the proxy, \<open>mng_nio.c\<close> for clients of the management). A connection holds a state machine
  (\<open>stm.c\<close>), two byte buffers (\<open>buffer.c\<close>) and the data of its current stage. The stages of both
  protocols are in \<open>Etapas\<close>: greeting (\<open>hello.c\<close>), user and password (\<open>authentication.c\<close>), then
  for the proxy the request (\<open>request.c\<close>, \<open>request_parser.c\<close>, \<open>resolv.c\<close>), the connection to the
  origin (\<open>connecting.c\<close>) and the copy in both directions (\<open>copy.c\<close>), which shows the bytes to a
  sniffer of POP3 passwords (\<open>dissec_parser.c\<close>); for the management the requests
  (\<open>mng_request.c\<close>), which read the counters and change the table of users and two switches.

  \<^bold>\<open>Theories and code.\<close>
  \<^item> \<open>Prelude\<close>: outcomes of C code (\<open>Inr\<close> of a result, \<open>Inl\<close> of an assertion, an \<open>abort\<close>, an
    \<open>exit\<close> or an access outside an object), C strings, byte stores, \<open>feed_bytes\<close>, and the locales
    \<open>byte_queue\<close> and \<open>consume_loop\<close>: every loop that feeds the bytes of a queue to a parser
    agrees with \<open>feed_bytes\<close>, keeps what a read keeps, and does not depend on segmentation. The locale
    \<open>segmented\<close> does the same for the events of a stage: a message in any number of segments, each the
    bytes of one read event.
  \<^item> \<open>Buffer\<close> (\<open>buffer.c\<close>; interprets \<open>byte_queue\<close>), \<open>Stm\<close> (\<open>stm.c\<close>), \<open>Selector\<close> (\<open>selector.c\<close>
    without the dispatch; the locale \<open>fd_registry\<close> and its interpretation), \<open>MyParser\<close>
    (\<open>myParser.c\<close>), \<open>Hello_Parser\<close> (first half of \<open>hello.c\<close>), \<open>Request_Parser\<close>
    (\<open>request_parser.c\<close>), all three interpreting \<open>consume_loop\<close>, and \<open>Dissector\<close>
    (\<open>dissec_parser.c\<close>, with the life of its heap blocks).
  \<^item> \<open>Connection\<close>: the structures of \<open>states.h\<close> and \<open>socks5nio.h\<close>, the globals of the server in one
    record (selector, heap of connections, pools, tables of accounts, counters, running threads, a
    log of sent, received and closed), the environment \<open>os\<close> with the answers of the system calls,
    and a state monad over the server.
  \<^item> \<open>Hello_Stage\<close>, \<open>Auth_Stage\<close>, \<open>Request_Stage\<close>, \<open>Connecting\<close>, \<open>Copy_Stage\<close>, \<open>Mng_Request\<close>: the
    hooks and handlers of the stages, each with its behaviour on every branch that a property uses;
    \<open>Hello_Stage\<close> and \<open>Request_Stage\<close> interpret \<open>segmented\<close> on their read handlers.
    \<open>Mng_Users\<close>: what the management requests do to the table of users as a list.
  \<^item> \<open>Pool\<close> and \<open>Server\<close>: creation, reuse and release of connections, the state tables, the handlers
    of both servers, accept, the dispatch of \<open>selector.c\<close>, the body of \<open>main\<close>; the step relation
    \<open>server_step\<close> (a turn of the loop, or a resolver thread that ends) and its runs.
  \<^item> \<open>Frame\<close> and \<open>Server_Invariant\<close>: the locales \<open>handlers_frame\<close> and \<open>server_frame\<close> carry a predicate
    through every hook, handler and turn; their interpretations give the invariant of the server, and
    in \<open>Turns\<close> that no handler touches the ready sets: a turn is what it does to the ready descriptors.
  \<^item> \<open>Stage_Typing\<close> and \<open>Typed_Server\<close>: which member of the unions \<open>client\<close> and \<open>orig\<close> is live in
    which state. The locale \<open>staged_machine\<close> proves it once for a table of states with the graph of
    its protocol; it is interpreted on both tables, and carried through pools, accept and turns.
  \<^item> \<open>Sessions\<close>, \<open>Protocol_Order\<close>, \<open>Lifecycle\<close>, \<open>Copy_Session\<close>, \<open>Resolving\<close>: start, the graphs of the
    two protocols, accept and close, copying sessions as an inductive relation, host names and
    refusals.
  \<^item> \<open>Login\<close>, \<open>Handshake\<close>, \<open>Mng_Session\<close>: whole sessions event by event. The locales
    \<open>machine_events\<close> and \<open>login_machine\<close> prove the four events of the login for any of the two
    tables; \<open>Handshake\<close> goes on to a connected SOCKS session, \<open>Mng_Session\<close> to an added user.
  \<^item> \<open>Startup\<close>: the command line (\<open>args.c\<close>, \<open>address_utils.c\<close>), the file of administrators and the
    choice of sockets (\<open>main.c\<close>), \<open>create_socket\<close> (\<open>socket_utils.c\<close>). \<open>Main_Loop\<close>: the loop of
    \<open>main\<close> over the list of the events of a run. \<open>References\<close>: in such a run the count of every connection
    is the number of its registrations, so nothing released is used and the end frees all. \<open>Main_Exit\<close>: all
    of \<open>main\<close> with its early exits and its label \<open>finally\<close>, the code and the descriptors that it closes.
  \<^item> \<open>Client\<close>: the messages and responses of the management client (\<open>client/clientUtils.c\<close>, the
    dialogue of \<open>client/client.c\<close>). \<open>Client_Main\<close>: its command line (\<open>client/clientArgs.c\<close>), its
    \<open>main\<close>, the debug messages (\<open>debug.c\<close>), \<open>client/tcpClientUtil.c\<close>. \<open>Netutils\<close>: the text of an
    address and the blocking copies (\<open>netutils.c\<close>).
  \<^item> \<open>Unit_Tests\<close>: the unit tests of the repository (\<open>src/src/tests\<close>) as programs over the model, and
    that they pass.
  \<^item> \<open>Scenario\<close>: concrete servers, connections and environments for the example runs.

  \<^bold>\<open>Reading the model.\<close> A pointer that owns memory is a datatype of NULL, freed, and the object; the
  connections live in a heap indexed by numbers. Bytes, counters and sizes with a wrap-around in
  the code are words. An array access out of range and a use of NULL or freed memory are \<open>Inl
  Undefined\<close>; so a theorem that a handler returns \<open>Inr\<close> also says that it has no such access.
  Definitions that model code keep its names; names that start with \<open>ex_\<close> are examples.

  \<^bold>\<open>Loops.\<close> Every loop of the code is a total function: the consume loops by the bytes in the
  buffer, \<open>next_capacity\<close> by the number, the loops over tables by the index, the file of
  administrators by its length. No fuel is used. The loop of \<open>main\<close> is the relation \<open>server_run\<close>, and
  \<open>main_loop\<close> over the finite list of the events until a signal ends it; each such run is a \<open>server_run\<close>.
  The loop of \<open>sock_blocking_copy\<close> runs over the list of what \<open>recv\<close> answers, that of
  \<open>sock_blocking_write\<close> ends because every round sends a byte or stops.

  \<^bold>\<open>What the theorems show.\<close> The properties below are, in order: the invariant of all runs; the
  start; the types of the unions in all runs, what a turn serves, the references of the connections in
  all runs, the end of the program; the order
  of the two protocols, in particular that no request is read before the login succeeded; a whole
  session; that copying loses and invents no byte, and that only an untested NULL makes it fail; the decision of the login;
  greeting, requests, host names and refusals on the level of handlers; faults that the code has;
  accept and close; the building blocks as refinements of a map and of a queue; segmentation; the
  dissector; the management requests; the client against the server, from the options to the
  changed table; the text of an address.

  \<^bold>\<open>Not modelled.\<close> The calls of \<open>debug\<close> inside handlers: the function is a unit of its own, and the
  program's state does not depend on it. An access is logged with its addresses, not with the text that
  \<open>sockaddr_to_human\<close> makes of them. The resolver thread runs as one step between two turns, as the
  mutex of the jobs allows; its reads of the connection during a turn are not interleaved. The lists
  of \<open>getaddrinfo\<close> are values, so their release is not tracked. Signals, the alarm and the mask of
  \<open>pselect\<close> are answers of the environment or events of a run. Within one event an allocator gives the
  dissector the same answer for the same size. The lines that \<open>connecting_write\<close> and the dissector
  print are not made: so the untested \<open>malloc\<close> of their texts and the name \<open>users[userIndex]\<close> in them are
  left out. The array of variable length of \<open>list_users_mng_request_marshall\<close> has no elements for an empty
  table, which is undefined in the standard; the model takes it as GCC does. The theorems on
  references and on the end leave out runs in which a \<open>connect\<close> succeeds at once: that branch counts a
  reference before a registration that may fail. Of the unit tests, those of \<open>parser.h\<close> and \<open>parser_utils.h\<close> are left
  out: no source implements these headers.
\<close>

section \<open>The server as a whole\<close>

text \<open>C1: every run of the server (turns of the event loop with any answers of the kernel, and
  resolver threads that end between two turns) keeps its invariant: the selector is a sound
  full table, the pools are bounded, the tables of users and administrators are well formed,
  and every connection has sound buffers and its own terminal states.\<close>

theorem server_invariant:
  assumes "server_run w w'" and "server_inv w"
  shows "server_inv w'"
  using server_inv_run assms .

theorem server_invariant_witness:
  "\<exists>w'. server_run (ex_server ex_items ex_conn) w' \<and> server_inv w' \<and>
     slave_w (sv_selector w') = {7} \<and> server_inv (ex_server ex_items ex_conn)"
proof -
  let ?w = "ex_server ex_items ex_conn" and ?s = "ex_selector ex_items"
  let ?v = "?w\<lparr>sv_selector := ?s\<lparr>slave_r := master_r ?s, slave_w := master_w ?s, resolution_jobs := []\<rparr>\<rparr>"
  have "selector_select (Failed EINTR) e b ?w = Inr (SELECTOR_SUCCESS, ?v)" for e b
    by (simp add: selector_select_def handle_block_notifications_def bind_sv_def modify_sv_def get_sv_def
        ret_sv_def ex_selector_def empty_selector_def)
  then have "server_step ?w ?v" by (rule server_step.turn)
  then have run: "server_run ?w ?v" by (rule server_run.step [OF server_run.start])
  have inv: "server_inv ?w" by simp
  have "slave_w (sv_selector ?v) = {7}"
    by simp
  with server_invariant [OF run inv] run inv show ?thesis by blast
qed

section \<open>The start\<close>

text \<open>C2: a start whose command line, file of administrators and sockets are accepted gives a server in
  its invariant that serves exactly the users of the options \<open>-u\<close>, has the dissector as \<open>-N\<close> says, and
  listens on exactly the opened sockets, each with the handler of its service.\<close>

theorem startup:
  assumes "parse_args (me_inet e) (me_alloc e) (me_options e) (me_operands e) = Inr (Some (a, us))"
    and "me_fopen e (credentials a) = Some file" and "load_credentials (me_admin_alloc e) file [] = Inr ads"
    and "master_sockets (socks_family a) (me_socks4 e) (me_socks6 e) = Some socks"
    and "master_sockets (mng_family a) (me_mng4 e) (me_mng6 e) = Some mng"
    and "distinct (socks @ mng)" and "\<forall>fd \<in> set (socks @ mng). \<not> INVALID_FD fd"
    and "os_alloc (me_os e) Alloc_selector" and "os_alloc (me_os e) Alloc_items"
    and "me_sigprocmask e" and "me_sigaction e"
  shows "\<exists>w. server_main e = Inr (Some w) \<and> server_inv w \<and> user_table w = option_users (me_options e) \<and>
    password_dissectors w = disectors_enabled a \<and>
    (\<forall>fd. sel_lookup (sv_selector w) fd =
       (if fd \<in> set mng then Some \<lparr>item_fd = fd, item_interest = OP_READ, item_handler = Some Mng_passive, item_data = None\<rparr>
        else if fd \<in> set socks then Some \<lparr>item_fd = fd, item_interest = OP_READ, item_handler = Some Socks5_passive, item_data = None\<rparr>
        else None))"
  using server_main_ok [OF assms] by (auto simp: listening_def map_add_def simp del: OP_values)

theorem startup_witness:
  "\<exists>w. server_main ex_main = Inr (Some w) \<and> server_inv w \<and> user_table w = [account ([97], [98])] \<and>
     password_dissectors w = 1"
proof -
  have load: "load_credentials (\<lambda>i. True) (admin_line ([97], [98])) [] = Inr [account ([97], [98])]"
    using load_credentials_lines [of "[([97], [98])]" "[]"] by (simp add: admin_ok_def MAX_USERS_def)
  have users: "option_users ex_options = [account ([97], [98])]"
    by (simp add: option_users_def ex_options_def split_at_def cstr_def)
  show ?thesis
    using startup [of ex_main ex_args "[account ([97], [98])]" "admin_line ([97], [98])" "[account ([97], [98])]" "[4, 3]" "[6, 5]"]
      load users ex_parse
    by (auto simp: ex_main_def ex_args_def default_args_def master_sockets_def INVALID_FD_def ITEMS_MAX_SIZE_def)
qed

text \<open>C3: an accepted command line is read as it is written, wherever its options stand. The users are those of the
  options \<open>-u\<close> in their order, at most as many as the table holds. The port of a service is the number that
  the text of its last option \<open>-p\<close> (\<open>-P\<close>) is, from 0 to 65535, or 1080 (8080) without one. Its address
  is what the text of its last option \<open>-l\<close> (\<open>-L\<close>) stands for, IPv4 when it is such a notation and IPv6
  otherwise, with this port in network order; without the option it is both of the default addresses,
  \<open>0.0.0.0\<close> and \<open>::\<close> (\<open>127.0.0.1\<close> and \<open>::1\<close>). \<open>-N\<close> and the last \<open>-f\<close> are taken over. Of \<open>inet_pton\<close>
  it is used that the default notations with dots are IPv4 and those with colons are not.\<close>

theorem command_line:
  assumes "parse_args n alloc opts operands = Inr (Some (a, us))" and "inet_knows_defaults n"
  shows "us = option_users opts \<and> length us \<le> MAX_USERS \<and> users_wf us \<and>
    port_chosen (option_values CHR ''p'' opts) 1080 (socks_port a) \<and>
    port_chosen (option_values CHR ''P'' opts) 8080 (mng_port a) \<and>
    service_address n any4 any6 (option_values CHR ''l'' opts) (socks_port a) (socks_family a)
      (socks_addr_info a) (socks_addr_info6 a) \<and>
    service_address n loopback4 loopback6 (option_values CHR ''L'' opts) (mng_port a) (mng_family a)
      (mng_addr_info a) (mng_addr_info6 a) \<and>
    disectors_enabled a = (if option_values CHR ''N'' opts = [] then 0 else 1) \<and>
    credentials a = (if option_values CHR ''f'' opts = [] then None else Some (last (option_values CHR ''f'' opts)))"
  using parse_args_result [OF assms(1)] parse_args_chosen [OF assms] by simp

theorem command_line_witness:
  "\<exists>a. parse_args ex_inet (\<lambda>i. True) ex_local_options 0 =
       Inr (Some (a, [account ([97], [98])])) \<and> socks_port a = 9000 \<and> socks_family a = AF_INET6 \<and>
     socks_addr_info6 a = \<lparr>sa_family = AF_INET6, sa_port = [35, 40], sa_addr = replicate 16 0\<rparr> \<and>
     mng_port a = 8080 \<and> mng_family a = AF_UNSPEC \<and>
     mng_addr_info a = \<lparr>sa_family = AF_INET, sa_port = [31, 144], sa_addr = [0, 0, 0, 0]\<rparr>"
proof -
  obtain a where a: "parse_args ex_inet (\<lambda>i. True) ex_local_options 0 = Inr (Some (a, [account ([97], [98])]))"
    using ex_local_parse by blast
  have pton: "inet_pton4 ex_inet [58, 58, 49] = None" "inet_pton6 ex_inet [58, 58, 49] = Some (replicate 16 0)"
    "inet_pton4 ex_inet loopback4 = Some [0, 0, 0, 0]" "inet_addr ex_inet loopback4 = [0, 0, 0, 0]"
    by (simp_all add: ex_inet_def loopback4_def)
  have opts: "option_values CHR ''p'' ex_local_options = [[57, 48, 48, 48]]" "option_values CHR ''P'' ex_local_options = []"
    "option_values CHR ''l'' ex_local_options = [[58, 58, 49]]" "option_values CHR ''L'' ex_local_options = []"
    by (simp_all add: option_values_def ex_local_options_def)
  have port_bytes: "htons 9000 = [35, 40]" "htons 8080 = [31, 144]" by (simp_all add: htons_def)
  note r = command_line [OF a ex_inet_knows, unfolded opts]
  have p: "socks_port a = 9000" "mng_port a = 8080" using r by (simp_all add: port_chosen_def ex_strtol)
  have "address_chosen ex_inet [[58, 58, 49]] 9000 (socks_family a) (socks_addr_info a) (socks_addr_info6 a)"
    "mng_family a = AF_UNSPEC" "text_address ex_inet loopback4 8080 = Some (mng_addr_info a)"
    using r by (simp_all add: service_address_def p)
  then show ?thesis
    by (auto simp: a p address_chosen_def text_address_def pton port_bytes AF_INET_def AF_INET6_def
        dest: arg_cong [of _ _ sa_family])
qed

text \<open>C4: a file of administrators written as one line \<open>name password\<close> each gives exactly these accounts in order;
  more lines than the table holds are written behind its end.\<close>

theorem administrators_loaded:
  assumes "\<forall>x \<in> set accounts. admin_ok x"
  shows "load_credentials (\<lambda>i. True) (concat (map admin_line accounts)) [] =
    (if length accounts \<le> MAX_USERS then Inr (map account accounts) else Inl Undefined)"
  using load_credentials_lines [OF assms, of "[]"] by simp

theorem administrators_loaded_witness:
  "load_credentials (\<lambda>i. True) [97, 32, 98, 10, 99, 32, 100, 32, 10] [] =
     Inr [account ([97], [98]), account ([99], [100, 32])] \<and>
   load_credentials (\<lambda>i. True) (concat (map admin_line (replicate 256 ([97], [98])))) [] = Inl Undefined"
proof -
  have "\<forall>x \<in> set [([97], [98]), ([99], [100, 32])]. admin_ok x" "\<forall>x \<in> set (replicate 256 ([97], [98])). admin_ok x"
    by (simp_all add: admin_ok_def)
  from administrators_loaded [OF this(1)] administrators_loaded [OF this(2)] show ?thesis
    by (simp add: admin_line_def MAX_USERS_def)
qed

text \<open>C5: the two unions of a connection (\<open>client\<close> and \<open>orig\<close>) hold at every moment what the state of its machine
  says: from the start of \<open>main\<close> on, in every run, no stage is read as another one, and the parser
  of a stage that reads has not been freed.\<close>

theorem stages_typed:
  assumes "server_main e = Inr (Some w)" and "server_run w w'" and "sv_heap w' i = Some d"
  shows "stage_typed d"
proof -
  obtain k us ads pd socks mng where "main_start k us ads pd socks mng = Inr (Some w)"
    using server_main_start [OF assms(1)] by blast
  from server_typedD [OF server_typed_run [OF assms(2) main_start_typed [OF this]] assms(3)] show ?thesis .
qed

theorem stages_typed_witness:
  "\<exists>w v. server_main ex_main = Inr (Some w) \<and> server_run w v \<and> sv_heap v 0 = Some (fresh_conn True 8 zero_sockaddr) \<and>
     stage_typed (fresh_conn True 8 zero_sockaddr)"
proof -
  obtain w v where w: "server_main ex_main = Inr (Some w)" "sv_heap v 0 = Some (fresh_conn True 8 zero_sockaddr)"
      "selector_select (Ready {3} {}) (\<lambda>i r. ex_accepting) (\<lambda>fd. ex_accepting) w = Inr (SELECTOR_SUCCESS, v)"
    using ex_start ex_first_turn by (metis fun_upd_same)
  from server_run.step [OF server_run.start server_step.turn [OF w(3)]] have run: "server_run w v" .
  from stages_typed [OF w(1) run w(2)] w run show ?thesis by blast
qed

text \<open>C6: a turn of the loop serves exactly the ready descriptors of the table, in ascending order, each as the
  map of the selector has it at that moment: the read handler of its registration if it wants to read,
  then the write handler of the registration that is left if this one wants to write; then the
  finished resolutions. The walk of the code over the whole table, with its stale copies of entries, does
  nothing else.\<close>

theorem turn_serves_ready:
  assumes "server_inv w"
  shows "selector_select (Ready R W) env env_block w =
    bind_sv (serve_all env R W (ready_below (max_fd (sv_selector w)) R W)) (\<lambda>_.
    bind_sv (handle_block_notifications env_block) (\<lambda>_. ret_sv SELECTOR_SUCCESS)) (begin_turn R W w)"
  using assms by (intro turn_serves) (auto simp: server_inv_def)

theorem turn_serves_ready_witness:
  "\<exists>w. server_main ex_main = Inr (Some w) \<and>
    selector_select (Ready {3} {}) (\<lambda>i r. ex_accepting) (\<lambda>fd. ex_accepting) w =
    bind_sv (bind_sv (serve (\<lambda>i r. ex_accepting) {3} {} 3) (\<lambda>_. ret_sv ())) (\<lambda>_.
    bind_sv (handle_block_notifications (\<lambda>fd. ex_accepting)) (\<lambda>_. ret_sv SELECTOR_SUCCESS)) (begin_turn {3} {} w)"
proof -
  obtain w where w: "server_main ex_main = Inr (Some w)" "server_inv w"
      "sel_lookup (sv_selector w) = listening Socks5_passive {4, 3} ++ listening Mng_passive {6, 5}"
    using ex_start by blast
  have full: "sel_inv (sv_selector w)" using w(2) by (auto simp: server_inv_def sel_full_def)
  have "3 \<le> max_fd (sv_selector w)"
    using sel_inv_lookup [OF full, of 3] w(3) by (simp add: listening_def map_add_def)
  then have "ready_below (max_fd (sv_selector w)) {3} {} = [3]" using ready_single [of 3] by simp
  with turn_serves_ready [OF w(2), of "{3}" "{}"] w(1) show ?thesis by auto
qed

text \<open>C7: no connection is used after its release and none is lost. In every run from the start of
  \<open>main\<close>, as long as no \<open>connect\<close> succeeds at once, a registration holds a connection that is in memory
  and in no pool, whose count of references is the number of its registrations; every other connection
  in memory is in exactly one pool, once.\<close>

theorem no_dangling:
  assumes "server_main e = Inr (Some w)" and "\<forall>ev \<in> set l. connects_later ev" and "main_loop l w = Inr (ss, err, v)"
  shows "(\<forall>fd it i. sel_lookup (sv_selector v) fd = Some it \<longrightarrow> item_data it = Some i \<longrightarrow>
      (\<exists>d. sv_heap v i = Some d \<and> references d = of_nat (card (holders (sv_selector v) i))) \<and> i \<notin> pooled v) \<and>
    (\<forall>i d. sv_heap v i = Some d \<longrightarrow> holders (sv_selector v) i = {} \<longrightarrow> i \<in> pooled v) \<and>
    distinct (sv_pool v @ sv_mng_pool v)"
proof -
  have "counted_in (sv_selector v) v" using run_counted [OF assms] by (simp add: counted_def)
  note c = counted_inD(1-3) [OF this]
  show ?thesis using c(1) c(2) c(3) by blast
qed

theorem no_dangling_witness:
  "\<exists>w v. server_main ex_main = Inr (Some w) \<and> main_loop [ex_turn] w = Inr (SELECTOR_SUCCESS, ''closing'', v) \<and>
     (\<exists>it. sel_lookup (sv_selector v) 8 = Some it \<and> item_data it = Some 0) \<and>
     (\<exists>d. sv_heap v 0 = Some d \<and> references d = of_nat (card (holders (sv_selector v) 0))) \<and> 0 \<notin> pooled v"
proof -
  obtain w v it where w: "server_main ex_main = Inr (Some w)" "main_loop [ex_turn] w = Inr (SELECTOR_SUCCESS, ''closing'', v)"
      "sel_lookup (sv_selector v) 8 = Some it" "item_data it = Some 0" using ex_turn_run by blast
  have "\<forall>ev \<in> set [ex_turn]. connects_later ev" by simp
  with no_dangling [OF w(1) this w(2)] w show ?thesis by blast
qed

text \<open>C8: the ends of \<open>main\<close>, for every finite list of events before a signal in which no \<open>connect\<close> succeeds at
  once. It ends with a fault only when its start or an event of its loop has that fault;
  otherwise it returns, and never 0. A start that fails returns 1 or 2. A run that was started returns
  2 when \<open>pselect\<close> failed and 1 otherwise, also when a signal ended it; it closes exactly the master
  sockets of the proxy. In every case the connections in use and those of the two pools have been freed.\<close>

theorem main_ends:
  assumes "\<forall>ev \<in> set l. connects_later ev"
  shows "case server_main e of
      Inl f \<Rightarrow> main_run e l = Inl f
    | Inr None \<Rightarrow> \<exists>code closed u. main_run e l = Inr (Some code, closed, u) \<and> code \<in> {1, 2} \<and>
        (\<forall>v. u = Some v \<longrightarrow> sv_heap v = Map.empty)
    | Inr (Some w) \<Rightarrow> (case main_loop l w of
        Inl f \<Rightarrow> main_run e l = Inl f
      | Inr r \<Rightarrow> \<exists>closed v a us.
          main_run e l = Inr (Some (if \<exists>ev \<in> set l. pselect_fails ev then 2 else 1), closed, Some v) \<and>
          sv_heap v = Map.empty \<and> parse_args (me_inet e) (me_alloc e) (me_options e) (me_operands e) = Inr (Some (a, us)) \<and>
          master_sockets (socks_family a) (me_socks4 e) (me_socks6 e) = Some (rev closed))"
proof (cases "server_main e" rule: res_option_cases)
  case (1 f)
  then show ?thesis using main_run_start_fault [OF 1, of l] by simp
next
  case 2
  then show ?thesis using main_run_fails [OF 2, of l] by simp
next
  case (3 w)
  show ?thesis
  proof (cases "main_loop l w")
    case (Inl f)
    then show ?thesis using main_run_loop_fault [OF 3 Inl] 3 by simp
  next
    case (Inr r)
    obtain ss err v where "r = (ss, err, v)" by (cases r)
    with Inr have "main_loop l w = Inr (ss, err, v)" by simp
    from main_run_started [OF 3 assms this] obtain u a us socks where
      "main_run e l = Inr (Some (if \<exists>ev \<in> set l. pselect_fails ev then 2 else 1), rev socks, Some u)" "sv_heap u = Map.empty"
      "parse_args (me_inet e) (me_alloc e) (me_options e) (me_operands e) = Inr (Some (a, us))"
      "master_sockets (socks_family a) (me_socks4 e) (me_socks6 e) = Some (rev (rev socks))" by auto
    then show ?thesis unfolding 3 Inr sum.case option.case by blast
  qed
qed

theorem main_ends_witness:
  "\<exists>u. main_run ex_main [ex_turn] = Inr (Some 1, [3, 4], Some u) \<and> sv_heap u = Map.empty"
proof -
  obtain w v where w: "server_main ex_main = Inr (Some w)" "main_loop [ex_turn] w = Inr (SELECTOR_SUCCESS, ''closing'', v)"
    using ex_turn_run by blast
  have "\<forall>ev \<in> set [ex_turn]. connects_later ev" by simp
  from main_ends [OF this, of ex_main] w obtain closed u a us where r: "main_run ex_main [ex_turn] = Inr (Some 1, closed, Some u)"
      "sv_heap u = Map.empty" "parse_args (me_inet ex_main) (me_alloc ex_main) (me_options ex_main) (me_operands ex_main) = Inr (Some (a, us))"
      "master_sockets (socks_family a) (me_socks4 ex_main) (me_socks6 ex_main) = Some (rev closed)"
    by (auto simp: ex_turn_def pselect_fails_def)
  have "rev closed = [4, 3]" using r(3,4) ex_socks by simp
  then have "closed = rev [4, 3]" by (metis rev_rev_ident)
  then show ?thesis using r(1,2) by auto
qed

section \<open>The order of the protocol\<close>

text \<open>C9: every event of a SOCKS connection moves its machine along an edge of the protocol graph;
  in particular the state that reads requests is entered only from a greeting that chose no
  authentication or from an authentication that succeeded.\<close>

theorem socks_order:
  assumes "server_inv w" and "sv_heap w (key_data k) = Some d" and "isSocks d"
    and "stm_inv client_statbl (conn_stm d)" and "in_state d (socks_code s)"
    and "stm_current (conn_stm d) = None \<longrightarrow> s = HELLO_READ"
    and "handler \<in> {stm_handler_read, stm_handler_write, stm_handler_block}"
    and "run_machine handler client_statbl k w = Inr (ret, w')"
  shows "\<exists>t d'. ret = socks_code t \<and> socks_edge d s t \<and> sv_heap w' (key_data k) = Some d' \<and>
    stm_current (conn_stm d') = Some (socks_code t) \<and>
    (t = REQUEST_READ \<and> s \<noteq> REQUEST_READ \<longrightarrow>
      (s = HELLO_WRITE \<and> (\<exists>h. client d = Client_hello h \<and> hs_method h = METHOD_NO_AUTHENTICATION_REQUIRED)) \<or>
      (s = USERPASS_WRITE \<and> authentication d = 0))"
proof -
  have "terminals_ok d" using assms(1,2) by (auto simp: server_inv_def heap_ok_def conn_ok_def)
  from socks_event_edge [OF assms(7,8,2) this assms(3-6)] obtain t d' where
    t: "ret = socks_code t" "socks_edge d s t" "sv_heap w' (key_data k) = Some d'"
      "stm_current (conn_stm d') = Some ret" by (auto simp: along_def)
  have "(s = HELLO_WRITE \<and> (\<exists>h. client d = Client_hello h \<and> hs_method h = METHOD_NO_AUTHENTICATION_REQUIRED)) \<or>
      (s = USERPASS_WRITE \<and> authentication d = 0)" if "t = REQUEST_READ" "s \<noteq> REQUEST_READ"
    using t(2) that by (auto elim: socks_edge.cases)
  with t show ?thesis by blast
qed

theorem socks_order_witness:
  "\<exists>ret w'. run_machine stm_handler_read client_statbl (ex_key 5 [5, 1, 2] 0) (ex_server ex_single ex_fresh) =
       Inr (ret, w') \<and> (\<exists>t d'. ret = socks_code t \<and> socks_edge ex_fresh HELLO_READ t \<and> sv_heap w' 0 = Some d')"
proof -
  let ?k = "ex_key 5 [5, 1, 2] 0" and ?w = "ex_server ex_single ex_fresh"
  obtain v where "socksv5_read ?k ?w = Inr ((), v)"
    using socks_events.greeting [of ?w ?k ex_fresh ex_client_item "[2]"] by (auto simp: socksv5_read_def hello_constants)
  then obtain ret w' where run: "run_machine stm_handler_read client_statbl ?k ?w = Inr (ret, w')"
    by (auto simp: socksv5_read_def bind_sv_def bind_res_eq_Inr)
  have "stm_inv client_statbl (conn_stm ex_fresh)"
    using socks_events.machine_inv [of 0] by (simp add: stm_inv_def)
  from socks_order [OF _ _ _ this _ _ _ run, of HELLO_READ] run show ?thesis
    by (simp add: in_state_def) blast
qed

text \<open>C10: every event of a management connection moves its machine along an edge of the protocol
  graph; in particular the states that read requests are entered only from an authentication
  that succeeded, or from the state before.\<close>

theorem mng_order:
  assumes "server_inv w" and "sv_heap w (key_data k) = Some d" and "\<not> isSocks d"
    and "stm_inv client_mng (conn_stm d)" and "stm_current (conn_stm d) = Some (mng_code s)"
    and "handler \<in> {stm_handler_read, stm_handler_write, stm_handler_block}"
    and "run_machine handler client_mng k w = Inr (ret, w')"
  shows "\<exists>t d'. ret = mng_code t \<and> mng_edge d s t \<and> sv_heap w' (key_data k) = Some d' \<and>
    stm_current (conn_stm d') = Some (mng_code t) \<and>
    (t = MNG_REQUEST_READ_INDEX \<and> s \<noteq> MNG_REQUEST_READ_INDEX \<longrightarrow>
      (s = MNG_HELLO_WRITE \<and> (\<exists>h. client d = Client_hello h \<and> hs_method h = METHOD_NO_AUTHENTICATION_REQUIRED)) \<or>
      (s = MNG_USERPASS_WRITE \<and> authentication d = 0))"
proof -
  have "terminals_ok d" using assms(1,2) by (auto simp: server_inv_def heap_ok_def conn_ok_def)
  from mng_event_edge [OF assms(6,7,2) this assms(3-5)] obtain t d' where
    t: "ret = mng_code t" "mng_edge d s t" "sv_heap w' (key_data k) = Some d'"
      "stm_current (conn_stm d') = Some ret" by (auto simp: along_def)
  have "(s = MNG_HELLO_WRITE \<and> (\<exists>h. client d = Client_hello h \<and> hs_method h = METHOD_NO_AUTHENTICATION_REQUIRED)) \<or>
      (s = MNG_USERPASS_WRITE \<and> authentication d = 0)"
    if "t = MNG_REQUEST_READ_INDEX" "s \<noteq> MNG_REQUEST_READ_INDEX"
    using t(2) that by (auto elim: mng_edge.cases)
  with t show ?thesis by blast
qed

theorem mng_order_witness:
  "\<exists>ret w'. run_machine stm_handler_write client_mng (ex_key 5 [] 1) ex_mng_server = Inr (ret, w') \<and>
     (\<exists>t d'. ret = mng_code t \<and> mng_edge ex_mng_hello MNG_HELLO_WRITE t \<and> sv_heap w' 0 = Some d')"
proof -
  let ?k = "ex_key 5 [] 1"
  obtain ret w' where run: "run_machine stm_handler_write client_mng ?k ex_mng_server = Inr (ret, w')"
    using ex_mng_event by blast
  from mng_order [OF _ _ _ _ _ _ run, of ex_mng_hello MNG_HELLO_WRITE] run show ?thesis
    by (auto simp: ex_mng_server_def simp del: mng_code.simps)
qed

section \<open>Sessions\<close>

text \<open>C11: a client that offers user and password, sends the credentials of an entry of the table and
  asks for an IPv4 address gets the replies of RFC 1928 and RFC 1929 in order, its access is logged
  under this user, and after seven events the two descriptors are connected in the state COPY with
  empty buffers; this holds for every server in a sound state and every allocation and kernel answer
  that does not fail.\<close>

theorem session_established:
  assumes "sv_heap w i = Some d" and "server_inv w" and "isSocks d"
    and "conn_stm d = \<lparr>stm_initial = 0, stm_max_state = 10, stm_current = None\<rparr>"
    and "buffer_content (read_buffer d) = []" and "buffer_content (write_buffer d) = []"
    and "registered w c it" and "client_fd d = c" and "c \<noteq> -1" and "dissec_inv (conn_dissec d)"
    and "auth_method w = METHOD_USERNAME_PASSWORD"
    and o1: "os_alloc o1 Alloc_hello_parser" "os_recv o1 c 2048 = Some (5 # of_nat (length ms) # ms)"
      "METHOD_USERNAME_PASSWORD \<in> set ms" "length ms < 256"
    and o2: "plentiful o2" "os_send o2 c [5, METHOD_USERNAME_PASSWORD] = 2"
    and o3: "plentiful o3" "os_recv o3 c 2048 = Some (userpass_message u p)" "length u < 256" "length p < 256"
      "x \<in> set (login_table d w)" "login_matches u p x"
    and o4: "plentiful o4" "os_send o4 c [1, 0] = 2"
    and o5: "os_recv o5 c 2048 = Some (5 # 1 # rsv # 1 # a4 @ [y, z])" "length a4 = 4"
      "os_socket o5 AF_INET = fd" "selector_fd_set_nio (os_getfd o5 fd) (os_setfl o5 fd) \<noteq> -1"
      "os_connect o5 fd \<lparr>sa_family = AF_INET, sa_port = [y, z], sa_addr = a4\<rparr> 16 = EINPROGRESS"
    and fd: "\<not> INVALID_FD fd" "fd \<noteq> c" "sel_lookup (sv_selector w) fd = None"
    and o6: "os_sockopt o6 fd = Some 0"
    and o7: "os_send o7 c [5, 0, 0, 1, 0, 0, 0, 0, 0, 0] = 10"
  shows "\<exists>w' d' n. events_in_order [socksv5_read (event_key i c o1), socksv5_write (event_key i c o2),
        socksv5_read (event_key i c o3), socksv5_write (event_key i c o4),
        socksv5_read (event_key i c o5), socksv5_write (event_key i fd o6),
        socksv5_write (event_key i c o7)] w = Inr ((), w') \<and>
    copy_world (event_key i c o7) w' d' \<and> stm_current (conn_stm d') = Some (socks_code COPY) \<and>
    client_fd d' = c \<and> origin_fd d' = fd \<and>
    buffer_content (read_buffer d') = [] \<and> buffer_content (write_buffer d') = [] \<and>
    login_matches u p (sv_users w ! n) \<and>
    sv_log w' = sv_log w @ [Sent c [5, METHOD_USERNAME_PASSWORD], Sent c [1, 0],
      Access n \<lparr>sa_family = AF_INET, sa_port = [y, z], sa_addr = a4\<rparr> (client_addr d) status_succeeded,
      Sent c [5, 0, 0, 1, 0, 0, 0, 0, 0, 0]]"
proof -
  have inv: "selector.inv w" "tables_ok w"
    using assms(2)
    by (auto simp: server_inv_def selector.inv_def accounts_ok_def tables_ok_def users_ok_def user_table_def)
  obtain w1 d1 b where 1: "events_in_order [socksv5_read (event_key i c o1), socksv5_write (event_key i c o2),
        socksv5_read (event_key i c o3), socksv5_write (event_key i c o4)] w = Inr ((), w1)"
      "conn_at (event_key i c o5) w1 d1 REQUEST_READ" "kept d d1" "client d1 = request_ready b"
      "buffer_content (read_buffer d1) = []" "buffer_content (write_buffer d1) = []"
      "login_matches u p (sv_users w ! userIndex d1)"
      "moved (event_key i c o5) w ((sel_lookup (sv_selector w))(c \<mapsto> it\<lparr>item_interest := OP_READ\<rparr>)) d1
        [Sent c [5, METHOD_USERNAME_PASSWORD], Sent c [1, 0]] w1"
    using socks_login_phase [OF assms(1) inv assms(3-7,11) o1 o2 o3 o4] by blast
  have reg: "registered w1 c (it\<lparr>item_interest := OP_READ\<rparr>)" by (rule moved_registered [OF 1(8)]) simp
  have free: "sel_lookup (sv_selector w1) fd = None" using moved_tables(5) [OF 1(8)] fd by simp
  have keep: "client_fd d1 = c" "dissec_inv (conn_dissec d1)" "client_addr d1 = client_addr d"
    using 1(3) assms(8,10) by (auto simp: kept_def)
  from connect_phase [OF 1(2,4-6) reg keep(1) assms(9) keep(2) o5 fd(1,2) free o6 o7]
  obtain w2 d2 where 2: "events_in_order [socksv5_read (event_key i c o5), socksv5_write (event_key i fd o6),
        socksv5_write (event_key i c o7)] w1 = Inr ((), w2)"
      "copy_world (event_key i c o5) w2 d2" "conn_at (event_key i c o5) w2 d2 COPY"
      "client_fd d2 = c" "origin_fd d2 = fd" "buffer_content (read_buffer d2) = []"
      "buffer_content (write_buffer d2) = []"
      "sv_log w2 = sv_log w1 @ [Access (userIndex d1) \<lparr>sa_family = AF_INET, sa_port = [y, z], sa_addr = a4\<rparr>
        (client_addr d1) status_succeeded, Sent c [5, 0, 0, 1, 0, 0, 0, 0, 0, 0]]" by blast
  have "copy_world (event_key i c o7) w2 d2" "stm_current (conn_stm d2) = Some (socks_code COPY)"
    using copy_world_key [OF 2(2)] 2(3) by (simp_all add: conn_at_def session_at_def)
  then show ?thesis
    using events_append [OF 1(1)] 2 1(7) keep(3) moved_tables(6) [OF 1(8)]
    by (intro exI [of _ w2] exI [of _ d2] exI [of _ "userIndex d1"]) (simp del: events_in_order.simps socks_code.simps)
qed

theorem session_established_witness:
  "\<exists>w' d' n. copy_world (ex_key 5 [] 10) w' d' \<and> client_fd d' = 5 \<and> origin_fd d' = 7 \<and>
     sv_log w' = [Sent 5 [5, 2], Sent 5 [1, 0],
       Access n \<lparr>sa_family = AF_INET, sa_port = [0, 80], sa_addr = [10, 0, 0, 1]\<rparr> zero_sockaddr status_succeeded,
       Sent 5 [5, 0, 0, 1, 0, 0, 0, 0, 0, 0]]"
proof -
  let ?u = "\<lparr>user_name = Some [97, 0], user_pass = Some [98, 0]\<rparr>"
  have login: "?u \<in> set (login_table ex_fresh (ex_server ex_single ex_fresh))" "login_matches [97] [98] ?u"
    by (simp_all add: login_table_def ex_users_def user_array_def login_matches_def cstr_def)
  obtain w' d' n where "copy_world (ex_key 5 [] 10) w' d'" "client_fd d' = 5" "origin_fd d' = 7"
     "sv_log w' = [Sent 5 [5, 2], Sent 5 [1, 0],
       Access n \<lparr>sa_family = AF_INET, sa_port = [0, 80], sa_addr = [10, 0, 0, 1]\<rparr> zero_sockaddr status_succeeded,
       Sent 5 [5, 0, 0, 1, 0, 0, 0, 0, 0, 0]]"
    using session_established [where w = "ex_server ex_single ex_fresh" and i = 0 and d = ex_fresh and c = 5
        and it = ex_client_item and ms = "[2]" and u = "[97]" and p = "[98]" and x = ?u and rsv = 0
        and ?a4.0 = "[10, 0, 0, 1]" and y = 0 and z = 80 and fd = 7
        and ?o1.0 = "ex_os [5, 1, 2] 0" and ?o2.0 = "ex_os [] 2" and ?o3.0 = "ex_os [1, 1, 97, 1, 98] 0"
        and ?o4.0 = "ex_os [] 2" and ?o5.0 = "ex_os [5, 1, 0, 1, 10, 0, 0, 1, 0, 80] 0" and ?o6.0 = "ex_os [] 0"
        and ?o7.0 = "ex_os [] 10"] login
    by (auto simp: METHOD_USERNAME_PASSWORD_def userpass_message_def ex_key_def event_key_def INVALID_FD_def
        ITEMS_MAX_SIZE_def ex_selector_lookup ex_auth_method simp del: events_in_order.simps)
  then show ?thesis by blast
qed

text \<open>C12: no copying session loses, invents, reorders or duplicates bytes: after any sequence of read
  and write events on the two descriptors, for each direction, what was buffered before followed by
  what was received is what was sent to the other side followed by what still is buffered.\<close>

theorem copy_streams:
  assumes "copy_world k w d" and "copy_events (key_data k) w v"
  shows "\<exists>d' l. copy_world k v d' \<and> sv_log v = sv_log w @ l \<and>
    client_fd d' = client_fd d \<and> origin_fd d' = origin_fd d \<and>
    buffer_content (read_buffer d) @ received (client_fd d) l =
      sent (origin_fd d) l @ buffer_content (read_buffer d') \<and>
    buffer_content (write_buffer d) @ received (origin_fd d) l =
      sent (client_fd d) l @ buffer_content (write_buffer d')"
proof -
  from copy_events_flow [OF assms(2) copied_start [OF assms(1) refl]] obtain d' l where
    "copy_world k v d'" "sv_log v = sv_log w @ l" "flow d l d'" by (auto simp: copied_def)
  moreover from this(3) have "\<forall>sd. buffer_content (get_buffer (side_rb sd) d) @ received (side_fd sd d) l =
      sent (side_fd (other_side sd) d) l @ buffer_content (get_buffer (side_rb sd) d')"
    "client_fd d' = client_fd d" "origin_fd d' = origin_fd d" by (auto simp: flow_def)
  ultimately show ?thesis unfolding side_cases by (auto simp: get_buffer_def)
qed

theorem copy_streams_witness:
  "\<exists>ret v d'. copy_read (ex_key 5 [1, 2] 0) (ex_server ex_items ex_copy) = Inr (ret, v) \<and>
     copy_events 0 (ex_server ex_items ex_copy) v \<and> sv_heap v 0 = Some d' \<and>
     received 5 (sv_log v) = sent 7 (sv_log v) @ buffer_content (read_buffer d')"
proof -
  let ?w = "ex_server ex_items ex_copy" and ?k = "ex_key 5 [1, 2] 0"
  have "copied 0 ?w ex_copy ?w" by (rule copied_start [of ?k]) simp_all
  from copied_no_fault(1) [OF this, of ex_copy ?k Client_side] obtain ret v where
    v: "copy_read ?k ?w = Inr (ret, v)" by auto
  have ev: "copy_events 0 ?w v"
    by (rule copy_events.read_event [OF copy_events.no_event _ _ _ _ _ v, of _ ex_copy Client_side]) simp_all
  from copy_streams [of ?k ?w ex_copy v] ev obtain d' where
    "copy_world ?k v d'" "received 5 (sv_log v) = sent 7 (sv_log v) @ buffer_content (read_buffer d')" by auto
  then show ?thesis using v ev by (auto simp: copy_world_def)
qed

text \<open>C13: an event of a copying session fails only where the dissector uses a NULL. In every state such a session
  reaches, a write event on either descriptor returns COPY or DONE, whatever the kernel answers, and so
  does a read event; except that, with the dissector on, the code does not test \<open>malloc\<close> and
  \<open>realloc\<close>: when one of these answers NULL for a block of at most 255 bytes, a read may write through it.\<close>

theorem copy_event_returns:
  assumes "copy_world k w d" and "copy_events (key_data k) w v" and "sv_heap v (key_data k) = Some e"
    and "key_fd k = side_fd sd e" and "os_ok (key_os k)" and "dissec_alloc_sized (os_sniff (key_os k))"
  shows "(\<exists>ret w'. copy_write k v = Inr (ret, w') \<and> ret \<in> {socks_code COPY, socks_code DONE}) \<and>
    ((\<exists>ret w'. copy_read k v = Inr (ret, w') \<and> ret \<in> {socks_code COPY, socks_code DONE}) \<or>
     copy_read k v = Inl Undefined \<and> password_dissectors v = 0 \<and> (\<exists>n \<le> 255. os_sniff (key_os k) n = None))"
proof -
  have "copied (key_data k) w d v" using copy_events_flow [OF assms(2) copied_start [OF assms(1) refl]] .
  from copied_results [OF this assms(3) refl assms(4,5)] assms(6) show ?thesis
    by (auto simp: copy_result_def sniff_refused_def refuses_block_def simp del: socks_code.simps)
qed

theorem copy_event_returns_witness:
  "\<exists>ret w'. copy_read (ex_key 5 [1, 2] 0) (ex_server ex_items ex_copy) = Inr (ret, w') \<and> ret \<in> {socks_code COPY, socks_code DONE}"
  using copy_event_returns [of "ex_key 5 [1, 2] 0" "ex_server ex_items ex_copy" ex_copy
      "ex_server ex_items ex_copy" ex_copy Client_side] copy_events.no_event [of 0 "ex_server ex_items ex_copy"]
  by (auto simp: ex_alloc_def simp del: socks_code.simps)

text \<open>C14: a client whose credentials were refused gets the refusal and nothing else: its descriptor
  leaves the selector and is closed, the table of users stays as it is.\<close>

theorem login_refused:
  assumes "conn_at k w d USERPASS_WRITE" and "client d = Client_userpass up" and "authentication d \<noteq> 0"
    and "buffer_content (write_buffer d) = []" and "owned_by w (key_data k) (key_fd k)"
    and "client_fd d = key_fd k" and "key_fd k \<noteq> -1" and "origin_fd d = -1" and "references d = 1"
    and "os_send (key_os k) (key_fd k) [1, authentication d] = 2"
  shows "\<exists>w'. socksv5_write k w = Inr ((), w') \<and> sel_full (sv_selector w') \<and>
    sel_lookup (sv_selector w') = (sel_lookup (sv_selector w))(key_fd k := None) \<and>
    sv_log w' = sv_log w @ [Sent (key_fd k) [1, authentication d], Closed (key_fd k)] \<and>
    user_table w' = user_table w"
  using login_refused_event [OF assms] .

theorem login_refused_witness:
  "\<exists>w'. socksv5_write (ex_key 5 [] 2) (ex_server ex_single ex_denied) = Inr ((), w') \<and>
     sv_log w' = [Sent 5 [1, 1], Closed 5]"
proof -
  have "client ex_denied = Client_userpass \<lparr>up_parser = Parser_freed, up_status = AUTH_SUCCESS\<rparr>"
    "authentication ex_denied = 1" "write_buffer ex_denied = ex_buffer" "client_fd ex_denied = 5"
    "origin_fd ex_denied = -1" "references ex_denied = 1" by (simp_all add: ex_denied_def)
  moreover have "owned_by (ex_server ex_single ex_denied) 0 5"
    by (simp add: owned_by_def ex_selector_lookup) (simp add: ex_client_item_def)
  ultimately show ?thesis
    using login_refused [of "ex_key 5 [] 2" "ex_server ex_single ex_denied" ex_denied] by auto
qed

section \<open>Authentication\<close>

text \<open>C15: the credentials of a complete RFC 1929 message are accepted exactly when the table of
  the server (the users for SOCKS5, the administrators for the management protocol) holds an
  entry with this name and this password; the attempt is counted, the bytes after the message
  stay in the read buffer and the connection waits to write the answer.\<close>

theorem auth_decides:
  assumes "at_conn k w d" and "client d = Client_userpass up" and "up_parser up = Parser_ready (userpass_parser m)"
    and "up_status up = AUTH_SUCCESS" and "length m = 2"
    and "os_recv (key_os k) (key_fd k) (buffer_free (read_buffer d)) = Some xs" and "xs \<noteq> []"
    and "length xs \<le> buffer_free (read_buffer d)" and "registered w (key_fd k) it" and "tables_ok w"
    and "buffer_content (read_buffer d) @ xs = userpass_message u p @ rest"
    and "allocator_ok (os_block (key_os k))" and "length u < 256" and "length p < 256"
    and "os_block (key_os k) 2 (length u + 1) \<noteq> None" and "os_block (key_os k) 4 (length p + 1) \<noteq> None"
  shows "\<exists>w' d'. auth_read k w = Inr (socks_code USERPASS_WRITE, w') \<and> at_conn k w' d' \<and>
    (authentication d' = 0 \<longleftrightarrow> (\<exists>x \<in> set (login_table d w). login_matches u p x)) \<and>
    (isSocks d \<and> authentication d' = 0 \<longrightarrow> login_matches u p (sv_users w ! userIndex d')) \<and>
    metrics_historic_auth_attempts (sv_metrics w') = metrics_historic_auth_attempts (sv_metrics w) + 1 \<and>
    buffer_content (read_buffer d') = rest \<and> sel_lookup (sv_selector w') =
      (sel_lookup (sv_selector w))(key_fd k \<mapsto> it\<lparr>item_interest := OP_WRITE\<rparr>)"
  using auth_read_message [OF assms] moved_tables(5) by metis

theorem auth_decides_witness:
  "\<exists>w' d'. auth_read (ex_key 5 [1, 1, 97, 1, 98] 0)
       (ex_server ex_items (ex_conn\<lparr>client := Client_userpass \<lparr>up_parser = Parser_ready (userpass_parser [0, 0]),
          up_status = AUTH_SUCCESS\<rparr>\<rparr>)) = Inr (socks_code USERPASS_WRITE, w') \<and>
     sv_heap w' 0 = Some d' \<and> authentication d' = 0"
proof -
  let ?up = "\<lparr>up_parser = Parser_ready (userpass_parser [0, 0]), up_status = AUTH_SUCCESS\<rparr>"
  let ?d = "ex_conn\<lparr>client := Client_userpass ?up\<rparr>"
  let ?k = "ex_key 5 [1, 1, 97, 1, 98] 0" and ?w = "ex_server ex_items ?d"
  have "\<exists>x \<in> set (login_table ?d ?w). login_matches [97] [98] x"
    by (simp add: login_table_def ex_users_def user_array_def login_matches_def cstr_def)
  then show ?thesis
    using auth_decides [of ?k ?w ?d ?up "[0, 0]" "[1, 1, 97, 1, 98]" ex_client_item "[97]" "[98]" "[]"]
    by (simp add: userpass_message_def at_conn_def) blast
qed



section \<open>The greeting\<close>

text \<open>C16: a greeting may arrive in any number of segments, each in an event of its own: as long as it is not
  complete the server only reads on, and at the segment with its last byte it answers with its version
  and the method it wants if the client offers it, 0xFF otherwise; it keeps the bytes behind the greeting
  and waits for the socket to take the answer.\<close>

theorem greeting_answered:
  assumes "sv_heap w i = Some d" and "buffer_inv (read_buffer d)" and "buffer_inv (write_buffer d)"
    and "client d = Client_hello h" and "hs_parser h = Ptr (hello_ready v m)"
    and "hs_method h = 0xFF" and "hs_status h = HELLO_SUCCESS"
    and "registered w fd it" and "2 \<le> buffer_free (write_buffer d)"
    and "list_all2 (arrives_at i fd) xss ks" and "arrives_at i fd xs k"
    and "length (hd (xss @ [xs])) \<le> buffer_free (read_buffer d)"
    and "\<forall>ys \<in> set (xss @ [xs]). length ys \<le> buf_limit (read_buffer d)"
    and "buffer_content (read_buffer d) @ concat xss @ xs = v # of_nat (length ms) # ms @ rest"
    and "length rest < length xs" and "length ms < 256"
  shows "\<exists>w' d'. event_results hello_read (ks @ [k]) w =
      Inr (replicate (length xss) (socks_code HELLO_READ) @ [socks_code HELLO_WRITE], w') \<and>
    at_conn k w' d' \<and> buffer_content (read_buffer d') = rest \<and>
    buffer_content (write_buffer d') = buffer_content (write_buffer d) @
      [if isSocks d then 5 else 1, if m \<in> set ms then m else 0xFF] \<and>
    sel_lookup (sv_selector w') = (sel_lookup (sv_selector w))(fd \<mapsto> it\<lparr>item_interest := OP_WRITE\<rparr>)"
proof -
  let ?p = "(hello_ready v m, hs_method h, hp_state (hello_ready v m), False)" and ?c = "(w, i, fd, d, h)"
  let ?done = "((hello_ready v m)\<lparr>hp_state := hello_done\<rparr>, choose_method m ms 0xFF, hello_done, False)"
  have feed: "feed_bytes hello_feed hello_stop (buffer_content (read_buffer d) @ concat xss @ xs) ?p = Inr (?done, rest)"
    using hello_feed_message [OF assms(16), of v rest m "0xFF" _ False] assms(6,14) by simp
  have "h\<lparr>hs_parser := Ptr (hello_ready v m), hs_method := hs_method h\<rparr> = h" using assms(5) by simp
  then have "w\<lparr>sv_heap := (sv_heap w)(i \<mapsto> d\<lparr>client := Client_hello (h\<lparr>hs_parser := Ptr (hello_ready v m), hs_method := hs_method h\<rparr>),
      read_buffer := read_buffer d\<rparr>)\<rparr> = w"
    using assms(1,4) by (cases d) (simp add: fun_upd_idem)
  then have "hello_waits ?c w ?p (buffer_content (read_buffer d)) (buffer_free (read_buffer d))"
    using assms(2,3,7) by (auto simp: hello_waits_def intro!: exI [of _ "read_buffer d"])
  from hello_segments.before_last [of ?c xss ks w ?p, OF _ this _ assms(12) feed assms(15)] assms(10,13)
  obtain w1 p1 m1 st1 e1 q n where 1: "event_results hello_read ks w = Inr (replicate (length xss) (socks_code HELLO_READ), w1)"
      "hello_waits ?c w1 (p1, m1, st1, e1) q n" "length xs \<le> n"
      "feed_bytes hello_feed hello_stop (q @ xs) (p1, m1, st1, e1) = Inr (?done, rest)" by auto
  then obtain rb where rb: "buffer_inv rb" "buffer_content rb = q" "buffer_free rb = n" "st1 = hp_state p1" "\<not> e1"
      "w1 = w\<lparr>sv_heap := (sv_heap w)(i \<mapsto> d\<lparr>client := Client_hello (h\<lparr>hs_parser := Ptr p1, hs_method := m1\<rparr>),
        read_buffer := rb\<rparr>)\<rparr>"
    by (auto simp: hello_waits_def)
  let ?d = "d\<lparr>client := Client_hello (h\<lparr>hs_parser := Ptr p1, hs_method := m1\<rparr>), read_buffer := rb\<rparr>"
  have k: "key_data k = i" "key_fd k = fd" "xs \<noteq> []" "os_recv (key_os k) fd n = Some xs"
    using assms(11) 1(3) by (auto simp: arrives_at_def)
  have at: "at_conn k w1 ?d" and reg: "registered w1 (key_fd k) it"
    using rb assms(3,8) k(1,2) by (simp_all add: at_conn_def)
  have "feed_bytes hello_feed hello_stop (buffer_content (read_buffer ?d) @ xs)
      (p1, hs_method (h\<lparr>hs_parser := Ptr p1, hs_method := m1\<rparr>), hp_state p1, False) = Inr (?done, rest)"
    using 1(4) rb(2,4,5) by simp
  from hello_read_feeds [OF at _ _ _ _ k(3) _ reg this] 1(3) rb(3) k assms(7,9) arg_cong [OF rb(6), of sv_selector]
  obtain rb' wb s where r: "hello_read k w1 = Inr (socks_code HELLO_WRITE, conn_update k (?d\<lparr>client := Client_hello
        (h\<lparr>hs_parser := Ptr ((hello_ready v m)\<lparr>hp_state := hello_done\<rparr>), hs_method := choose_method m ms 0xFF\<rparr>),
          read_buffer := rb', write_buffer := wb\<rparr>) s w1)"
      "buffer_inv rb'" "buffer_content rb' = rest" "buffer_inv wb"
      "buffer_content wb = buffer_content (write_buffer d) @
        [if isSocks d then SOCKS_VERSION else MNG_VERSION, choose_method m ms 0xFF]"
      "sel_lookup s = (sel_lookup (sv_selector w))(fd \<mapsto> it\<lparr>item_interest := OP_WRITE\<rparr>)"
    by (auto simp: hello_is_done_def simp del: socks_code.simps)
  from event_results_snoc [OF 1(1) r(1)] r(2-6) show ?thesis
    by (intro exI conjI) (auto simp: at_conn_def hello_constants choose_method_def simp del: socks_code.simps)
qed

theorem greeting_answered_witness:
  "\<exists>w' d'. event_results hello_read [ex_key 5 [2] 0, ex_key 5 [0, 2] 0] (ex_server ex_items ex_greeting) =
       Inr ([socks_code HELLO_READ, socks_code HELLO_WRITE], w') \<and>
     sv_heap w' 0 = Some d' \<and> buffer_content (write_buffer d') = [5, 2]"
proof -
  let ?h = "\<lparr>hs_parser = Ptr (hello_ready 5 2), hs_method = 0xFF, hs_status = HELLO_SUCCESS\<rparr>"
  have "arrives_at 0 5 [2] (ex_key 5 [2] 0)" "arrives_at 0 5 [0, 2] (ex_key 5 [0, 2] 0)" by (simp_all add: arrives_at_def)
  then show ?thesis
    using greeting_answered [of "ex_server ex_items ex_greeting" 0 ex_greeting ?h 5 2 5 ex_client_item
        "[[2]]" "[ex_key 5 [2] 0]" "[0, 2]" "ex_key 5 [0, 2] 0" "[0, 2]" "[]"]
    by (auto simp: at_conn_def simp del: socks_code.simps event_results.simps)
qed

section \<open>The request\<close>

text \<open>C17: a CONNECT request for an IPv4 or an IPv6 address may arrive in any number of segments, each in an event
  of its own: as long as it is not complete the server only reads on, and the segment with its last byte
  makes the connection go to REQUEST_CONNECTING with exactly this address, port and address length.\<close>

theorem request_for_address:
  assumes "sv_heap w i = Some d" and "buffer_inv (read_buffer d)" and "buffer_inv (write_buffer d)"
    and "client d = request_ready b"
    and "list_all2 (arrives_at i fd) xss ks" and "arrives_at i fd xs k"
    and "length (hd (xss @ [xs])) \<le> buffer_free (read_buffer d)"
    and "\<forall>ys \<in> set (xss @ [xs]). length ys \<le> buf_limit (read_buffer d)"
    and "buffer_content (read_buffer d) @ concat xss @ xs = 5 # 1 # rsv # t # addr @ port_hi # port_lo # rest"
    and "length rest < length xs"
    and "t = 1 \<and> length addr = 4 \<and> fam = AF_INET \<and> len = 16 \<or> t = 4 \<and> length addr = 16 \<and> fam = AF_INET6 \<and> len = 28"
  shows "\<exists>w' d'. event_results request_read (ks @ [k]) w =
      Inr (replicate (length xss) (socks_code REQUEST_READ) @ [socks_code REQUEST_CONNECTING], w') \<and> at_conn k w' d' \<and>
    origin_addr d' = \<lparr>sa_family = fam, sa_port = [port_hi, port_lo], sa_addr = addr\<rparr> \<and>
    origin_domain d' = fam \<and> origin_addr_len d' = len \<and> buffer_content (read_buffer d') = rest \<and>
    sv_selector w' = sv_selector w \<and> sv_log w' = sv_log w"
proof -
  let ?a = "\<lparr>sa_family = fam, sa_port = [port_hi, port_lo], sa_addr = addr\<rparr>"
  let ?q = "\<lparr>req_cmd = 1, req_atyp = t, req_dest = Dest_addr ?a, req_port = [port_hi, port_lo]\<rparr>"
  let ?r = "\<lparr>rs_parser = Ptr (request_fresh b), rs_addr_family = 0, rs_status = status_succeeded\<rparr>"
  let ?c = "(w, i, fd, d, ?r)"
  have stage: "client d = Client_request ?r" using assms(4) by (simp add: request_ready_def)
  obtain p where p: "feed_bytes request_feed (request_stop False)
        (5 # 1 # rsv # t # addr @ port_hi # port_lo # rest) (request_fresh b, rp_state (request_fresh b)) =
        Inr ((p, request_done), rest)" "rp_request p = Some ?q"
    using request_feed_address [of t addr fam] assms(11) by blast
  have "w\<lparr>sv_heap := (sv_heap w)(i \<mapsto> d\<lparr>client := Client_request (?r\<lparr>rs_parser := Ptr (request_fresh b)\<rparr>),
      read_buffer := read_buffer d\<rparr>)\<rparr> = w"
    using assms(1) stage by (cases d) (simp add: fun_upd_idem)
  then have "request_waits ?c w (request_fresh b, rp_state (request_fresh b)) (buffer_content (read_buffer d))
      (buffer_free (read_buffer d))"
    using assms(2,3) by (auto simp: request_waits_def intro!: exI [of _ "read_buffer d"])
  from request_segments.before_last [of ?c xss ks w, OF _ this _ assms(7) _ assms(10)] assms(5,8,9) p(1)
  obtain w1 p1 st1 q n where 1: "event_results request_read ks w = Inr (replicate (length xss) (socks_code REQUEST_READ), w1)"
      "request_waits ?c w1 (p1, st1) q n" "length xs \<le> n"
      "feed_bytes request_feed (request_stop False) (q @ xs) (p1, st1) = Inr ((p, request_done), rest)" by auto
  then obtain rb1 where rb1: "buffer_inv rb1" "buffer_content rb1 = q" "buffer_free rb1 = n" "st1 = rp_state p1"
      "w1 = w\<lparr>sv_heap := (sv_heap w)(i \<mapsto> d\<lparr>client := Client_request (?r\<lparr>rs_parser := Ptr p1\<rparr>), read_buffer := rb1\<rparr>)\<rparr>"
    by (auto simp: request_waits_def)
  let ?d = "d\<lparr>client := Client_request (?r\<lparr>rs_parser := Ptr p1\<rparr>), read_buffer := rb1\<rparr>"
  have k: "key_data k = i" "key_fd k = fd" "xs \<noteq> []" "os_recv (key_os k) fd n = Some xs"
    using assms(6) 1(3) by (auto simp: arrives_at_def)
  have at: "at_conn k w1 ?d" using rb1 assms(3) k(1) by (simp add: at_conn_def)
  obtain rb where rb: "buffer_inv rb" "buffer_content rb = rest"
    "let d' = ?d\<lparr>client := Client_request (?r\<lparr>rs_parser := Ptr p\<rparr>), read_buffer := rb\<rparr>;
         w' = w1\<lparr>sv_heap := (sv_heap w1)(key_data k \<mapsto> d')\<rparr>
     in at_conn k w' d' \<and> request_read k w1 = (if request_is_done request_done False then request_process k w'
                            else Inr (socks_code REQUEST_READ, w'))"
    using request_read_feeds [OF at, of "?r\<lparr>rs_parser := Ptr p1\<rparr>" p1 xs p request_done rest] 1(3,4) rb1 k by auto
  let ?d1 = "?d\<lparr>client := Client_request (?r\<lparr>rs_parser := Ptr p\<rparr>), read_buffer := rb\<rparr>"
  let ?w1 = "w1\<lparr>sv_heap := (sv_heap w1)(key_data k \<mapsto> ?d1)\<rparr>"
  let ?d2 = "?d1\<lparr>client := Client_request (?r\<lparr>rs_parser := Ptr p, rs_addr_family := t\<rparr>), origin_domain := fam,
      origin_addr_len := len, origin_addr := ?a\<rparr>"
  have kind: "t = socks_req_addrtype_ipv4 \<and> fam = AF_INET \<and> len = 16 \<or>
      t = socks_req_addrtype_ipv6 \<and> fam = AF_INET6 \<and> len = 28"
    using assms(11) by (auto simp: request_constants)
  have "request_process k ?w1 = Inr (socks_code REQUEST_CONNECTING, ?w1\<lparr>sv_heap := (sv_heap ?w1)(key_data k \<mapsto> ?d2)\<rparr>)"
    by (rule request_process_address [where p = p and q = ?q, OF _ _ _ _ _ _ _ kind])
      (simp_all add: p(2) request_constants)
  then have "request_read k w1 = Inr (socks_code REQUEST_CONNECTING, ?w1\<lparr>sv_heap := (sv_heap ?w1)(key_data k \<mapsto> ?d2)\<rparr>)"
    using rb(3) by (simp add: Let_def request_is_done_def)
  from event_results_snoc [OF 1(1) this] have
    "event_results request_read (ks @ [k]) w = Inr (replicate (length xss) (socks_code REQUEST_READ) @
      [socks_code REQUEST_CONNECTING], ?w1\<lparr>sv_heap := (sv_heap ?w1)(key_data k \<mapsto> ?d2)\<rparr>)" .
  moreover have "at_conn k (?w1\<lparr>sv_heap := (sv_heap ?w1)(key_data k \<mapsto> ?d2)\<rparr>) ?d2"
    using at rb(1) by (simp add: at_conn_def)
  ultimately show ?thesis
    using rb(2) rb1(5)
    by (intro exI [of _ "?w1\<lparr>sv_heap := (sv_heap ?w1)(key_data k \<mapsto> ?d2)\<rparr>"] exI [of _ ?d2] conjI) simp_all
qed

theorem request_for_address_witness:
  "\<exists>w' d'. event_results request_read [ex_key 5 [5, 1] 0, ex_key 5 [0, 1, 10, 0] 0, ex_key 5 [0, 1, 0, 80] 0]
       (ex_server ex_items (ex_conn\<lparr>client := request_ready ex_request\<rparr>)) =
       Inr ([socks_code REQUEST_READ, socks_code REQUEST_READ, socks_code REQUEST_CONNECTING], w') \<and>
     sv_heap w' 0 = Some d' \<and> sa_addr (origin_addr d') = [10, 0, 0, 1]"
proof -
  have "arrives_at 0 5 [5, 1] (ex_key 5 [5, 1] 0)" "arrives_at 0 5 [0, 1, 10, 0] (ex_key 5 [0, 1, 10, 0] 0)"
    "arrives_at 0 5 [0, 1, 0, 80] (ex_key 5 [0, 1, 0, 80] 0)" by (simp_all add: arrives_at_def)
  then show ?thesis
    using request_for_address [of "ex_server ex_items (ex_conn\<lparr>client := request_ready ex_request\<rparr>)" 0
        "ex_conn\<lparr>client := request_ready ex_request\<rparr>" ex_request 5 "[[5, 1], [0, 1, 10, 0]]"
        "[ex_key 5 [5, 1] 0, ex_key 5 [0, 1, 10, 0] 0]" "[0, 1, 0, 80]" "ex_key 5 [0, 1, 0, 80] 0"
        0 1 "[10, 0, 0, 1]" 0 80 "[]" AF_INET 16]
    by (auto simp: at_conn_def eval_nat_numeral simp del: socks_code.simps event_results.simps)
qed

text \<open>C18: a complete CONNECT request for a host name of 1 to 254 bytes starts a resolver thread for this
  connection and takes its descriptor out of the selection until the thread is done; the name the
  thread will read is the name the client sent.\<close>

theorem request_for_name:
  assumes "at_conn k w d" and "client d = request_ready b" and "length (fqdn_host (req_dest b)) = 255"
    and "os_recv (key_os k) (key_fd k) (buffer_free (read_buffer d)) = Some xs" and "xs \<noteq> []"
    and "length xs \<le> buffer_free (read_buffer d)" and "registered w (key_fd k) it"
    and "buffer_content (read_buffer d) @ xs =
      5 # 1 # rsv # 3 # of_nat (length host) # host @ port_hi # port_lo # rest"
    and "host \<noteq> []" and "length host \<le> 254"
    and "os_alloc (key_os k) Alloc_key" and "os_pthread_create (key_os k) = 0"
  shows "\<exists>w' d' r p q h. request_read k w = Inr (socks_code REQUEST_RESOLV, w') \<and>
    sv_threads w' = sv_threads w @ [(key_fd k, key_data k)] \<and>
    sel_lookup (sv_selector w') = (sel_lookup (sv_selector w))(key_fd k \<mapsto> it\<lparr>item_interest := OP_NOOP\<rparr>) \<and>
    sv_heap w' (key_data k) = Some d' \<and> client d' = Client_request r \<and> rs_parser r = Ptr p \<and>
    rp_request p = Some q \<and> req_port q = [port_hi, port_lo] \<and>
    req_dest q = Dest_fqdn h (int (length host)) \<and> take (length host) h = host \<and>
    buffer_content (read_buffer d') = rest"
proof -
  let ?r = "\<lparr>rs_parser = Ptr (request_fresh b), rs_addr_family = 0, rs_status = status_succeeded\<rparr>"
  have stage: "client d = Client_request ?r" using assms(2) by (simp add: request_ready_def)
  obtain p h where p: "feed_bytes request_feed (request_stop False)
        (5 # 1 # rsv # 3 # of_nat (length host) # host @ port_hi # port_lo # rest)
        (request_fresh b, rp_state (request_fresh b)) = Inr ((p, request_done), rest)"
      "rp_request p = Some \<lparr>req_cmd = 1, req_atyp = 3, req_dest = Dest_fqdn h (int (length host)),
         req_port = [port_hi, port_lo]\<rparr>" "take (length host) h = host"
    using request_feed_fqdn [OF assms(9,10,3), of rsv port_hi port_lo rest] by blast
  let ?q = "\<lparr>req_cmd = 1, req_atyp = 3, req_dest = Dest_fqdn h (int (length host)), req_port = [port_hi, port_lo]\<rparr>"
  obtain rb where rb: "buffer_inv rb" "buffer_content rb = rest"
    "let d' = d\<lparr>client := Client_request (?r\<lparr>rs_parser := Ptr p\<rparr>), read_buffer := rb\<rparr>;
         w' = w\<lparr>sv_heap := (sv_heap w)(key_data k \<mapsto> d')\<rparr>
     in at_conn k w' d' \<and> request_read k w = (if request_is_done request_done False then request_process k w'
                            else Inr (socks_code REQUEST_READ, w'))"
    using request_read_feeds [OF assms(1) stage _ _ assms(4-6), of "request_fresh b" p request_done rest] p(1) assms(8)
    by auto
  let ?d1 = "d\<lparr>client := Client_request (?r\<lparr>rs_parser := Ptr p\<rparr>), read_buffer := rb\<rparr>"
  let ?w1 = "w\<lparr>sv_heap := (sv_heap w)(key_data k \<mapsto> ?d1)\<rparr>"
  have at: "at_conn k ?w1 ?d1" using rb(3) by (simp add: Let_def)
  have reg: "registered ?w1 (key_fd k) it" using assms(7) by (simp add: registered_def)
  obtain s where s: "request_process k ?w1 = Inr (socks_code REQUEST_RESOLV,
      ?w1\<lparr>sv_heap := (sv_heap ?w1)(key_data k \<mapsto> ?d1\<lparr>client := Client_request
           (?r\<lparr>rs_parser := Ptr p, rs_addr_family := socks_req_addrtype_domain\<rparr>)\<rparr>),
        sv_threads := sv_threads ?w1 @ [(key_fd k, key_data k)], sv_selector := s\<rparr>)"
      "sel_lookup s = (sel_lookup (sv_selector w))(key_fd k \<mapsto> it\<lparr>item_interest := OP_NOOP\<rparr>)"
    using request_process_fqdn [OF at _ _ p(2) _ _ assms(11,12) reg, of "?r\<lparr>rs_parser := Ptr p\<rparr>"]
    by (auto simp: request_constants)
  have "request_read k w = request_process k ?w1" using rb(3) by (simp add: Let_def request_is_done_def)
  with s rb(2) p(2,3) show ?thesis by auto
qed

theorem request_for_name_witness:
  "\<exists>w'. request_read (ex_key 5 [5, 1, 0, 3, 2, 97, 98, 0, 80] 0)
       (ex_server ex_items (ex_conn\<lparr>client := request_ready ex_request\<rparr>)) = Inr (socks_code REQUEST_RESOLV, w') \<and>
     sv_threads w' = [(5, 0)]"
  using request_for_name [of "ex_key 5 [5, 1, 0, 3, 2, 97, 98, 0, 80] 0"
      "ex_server ex_items (ex_conn\<lparr>client := request_ready ex_request\<rparr>)" "ex_conn\<lparr>client := request_ready ex_request\<rparr>"
      ex_request "[5, 1, 0, 3, 2, 97, 98, 0, 80]" ex_client_item 0 "[97, 98]" 0 80 "[]"]
  by (auto simp: at_conn_def ex_request_def fqdn_host_def ex_server_threads simp del: socks_code.simps)

text \<open>C19: a name that resolves: the thread looks up exactly the name and the port of the request and
  queues its descriptor; the block event then connects to the first address of the list, and keeps the
  whole list for retries.\<close>

theorem name_resolved:
  assumes "sv_heap w (key_data k) = Some d" and "client d = Client_request r" and "rs_parser r = Ptr p"
    and "rp_request p = Some q" and "req_dest q = Dest_fqdn h (int n)" and "n \<le> length h"
    and "os_alloc (key_os k) (Alloc_result 0)" and "os_alloc (key_os k) Alloc_job"
    and "os_getaddrinfo (key_os k) (cstr (take n h)) (decimal (ntohs (req_port q))) = a # rest"
    and "ai_family a = AF_INET \<and> len = 16 \<or> ai_family a = AF_INET6 \<and> len = 28"
  shows "\<exists>w1 w2 d2. request_resolv_blocking k w = Inr ((), w1) \<and>
    resolution_jobs (sv_selector w1) = key_fd k # resolution_jobs (sv_selector w) \<and>
    request_resolv_done k w1 = Inr (socks_code REQUEST_CONNECTING, w2) \<and> sv_heap w2 (key_data k) = Some d2 \<and>
    origin_addr d2 = ai_addr a \<and> origin_domain d2 = ai_family a \<and> origin_addr_len d2 = len \<and>
    origin_resolution_current d2 = a # rest"
proof -
  let ?w1 = "w\<lparr>sv_heap := (sv_heap w)(key_data k \<mapsto> d\<lparr>origin_resolution := a # rest\<rparr>),
    sv_selector := (sv_selector w)\<lparr>resolution_jobs := key_fd k # resolution_jobs (sv_selector w)\<rparr>,
    sv_threads := remove1 (key_fd k, key_data k) (sv_threads w)\<rparr>"
  have "sv_heap ?w1 (key_data k) = Some (d\<lparr>origin_resolution := a # rest\<rparr>)" by simp
  from resolved_address [OF this _ assms(10)] resolver_thread [OF assms(1-9)] show ?thesis
    by (auto simp del: socks_code.simps)
qed

theorem name_resolved_witness:
  "\<exists>w1 w2 d2. request_resolv_blocking ex_resolver_key (ex_server ex_items ex_resolving) = Inr ((), w1) \<and>
     request_resolv_done ex_resolver_key w1 = Inr (socks_code REQUEST_CONNECTING, w2) \<and>
     sv_heap w2 0 = Some d2 \<and> origin_addr d2 = zero_sockaddr\<lparr>sa_family := 2\<rparr>"
  using name_resolved [of "ex_server ex_items ex_resolving" ex_resolver_key ex_resolving ex_resolving_st
      ex_resolving_parser ex_resolving_request "[97, 98, 0]" 2 "\<lparr>ai_family = 2, ai_addrlen = 16,
        ai_addr = zero_sockaddr\<lparr>sa_family := 2\<rparr>\<rparr>" "[]" 16]
  by (auto simp: AF_INET_def simp del: socks_code.simps)

text \<open>C20: a name that does not resolve: the client gets the general failure, and the connection
  remembers it, so that it is closed after the reply.\<close>

theorem name_unresolved:
  assumes "at_conn k w d" and "client d = Client_request r" and "origin_resolution d = []"
    and "10 \<le> buffer_free (write_buffer d)" and "registered w (key_fd k) it"
  shows "\<exists>w' d'. request_resolv_done k w = Inr (socks_code REQUEST_WRITE, w') \<and> at_conn k w' d' \<and>
    orig_status d' = Inr status_general_socks_server_failure \<and>
    buffer_content (write_buffer d') = buffer_content (write_buffer d) @ [5, 1, 0, 1, 0, 0, 0, 0, 0, 0] \<and>
    sel_lookup (sv_selector w') = (sel_lookup (sv_selector w))(key_fd k \<mapsto> it\<lparr>item_interest := OP_WRITE\<rparr>)"
  using unresolved_name [OF assms] .

theorem name_unresolved_witness:
  "\<exists>w' d'. request_resolv_done (ex_key 5 [] 0) (ex_server ex_items ex_resolving) = Inr (7, w') \<and>
     sv_heap w' 0 = Some d' \<and> buffer_content (write_buffer d') = [5, 1, 0, 1, 0, 0, 0, 0, 0, 0]"
  using name_unresolved [of "ex_key 5 [] 0" "ex_server ex_items ex_resolving" ex_resolving ex_resolving_st ex_client_item]
  by (auto simp: at_conn_def)

text \<open>C21: an origin that refuses, with no other address to try: the client gets the reply code that
  belongs to the error of the kernel, the access is logged with it, and no connection is counted.\<close>

theorem origin_refused:
  assumes "at_conn k w d" and "orig d = Orig_conn c" and "cn_status c = status_succeeded"
    and "os_sockopt (key_os k) (key_fd k) = Some e" and "e \<noteq> 0" and "length (origin_resolution_current d) < 2"
    and "10 \<le> buffer_free (write_buffer d)" and "sel_full (sv_selector w)"
  shows "\<exists>w' d'. connecting_write k w = Inr (socks_code REQUEST_WRITE, w') \<and> at_conn k w' d' \<and>
    orig_status d' = Inr (errno_to_socks e) \<and>
    buffer_content (write_buffer d') = buffer_content (write_buffer d) @
      [5, reply_code (errno_to_socks e), 0, 1, 0, 0, 0, 0, 0, 0] \<and>
    sv_log w' = sv_log w @ [Access (userIndex d) (origin_addr d) (client_addr d) (errno_to_socks e)] \<and>
    sv_metrics w' = sv_metrics w"
proof -
  have "orig_status (d\<lparr>orig := Orig_conn (c\<lparr>cn_status := st\<rparr>), write_buffer := wb\<rparr>) = Inr st" for st wb
    by (simp add: orig_status_def)
  moreover have "write_buffer (d\<lparr>orig := x, write_buffer := wb\<rparr>) = wb" for x wb by simp
  ultimately show ?thesis using connecting_refused [OF assms] by metis
qed

theorem origin_refused_witness:
  "\<exists>w' d'. connecting_write (ex_key 7 [] 0\<lparr>key_os := (ex_os [] 0)\<lparr>os_sockopt := \<lambda>fd. Some 111\<rparr>\<rparr>)
       (ex_server ex_items ex_connecting) = Inr (7, w') \<and>
     sv_heap w' 0 = Some d' \<and> buffer_content (write_buffer d') = [5, 5, 0, 1, 0, 0, 0, 0, 0, 0]"
  using origin_refused [of "ex_key 7 [] 0\<lparr>key_os := (ex_os [] 0)\<lparr>os_sockopt := \<lambda>fd. Some 111\<rparr>\<rparr>"
      "ex_server ex_items ex_connecting" ex_connecting
      "\<lparr>cn_client_fd = 5, cn_origin_fd = -1, cn_status = status_succeeded\<rparr>" 111]
  by (auto simp: at_conn_def errno_to_socks_def ECONNREFUSED_def ex_selector_full)

section \<open>What goes wrong\<close>

text \<open>C22: a sub-negotiation message with another version byte makes the server compare a NULL name:
  any client that gets to this state can crash the process, if the table has a user.\<close>

theorem bad_login_version_crashes:
  assumes "at_conn k w d" and "client d = userpass_ready m" and "length m = 2"
    and "os_recv (key_os k) (key_fd k) (buffer_free (read_buffer d)) = Some (v # ys)"
    and "length (v # ys) \<le> buffer_free (read_buffer d)" and "registered w (key_fd k) it" and "tables_ok w"
    and "buffer_content (read_buffer d) = []" and "v \<noteq> 1" and "login_table d w \<noteq> []"
  shows "auth_read k w = Inl Undefined"
  using auth_read_bad_version [OF assms(1) _ _ _ assms(3-10),
    of "\<lparr>up_parser = Parser_ready (userpass_parser m), up_status = AUTH_SUCCESS\<rparr>"] assms(2)
  by (simp add: userpass_ready_def)

theorem bad_login_version_crashes_witness:
  "auth_read (ex_key 5 [5] 0) (ex_server ex_items (ex_conn\<lparr>client := userpass_ready [0, 0]\<rparr>)) = Inl Undefined"
  using bad_login_version_crashes [of "ex_key 5 [5] 0" "ex_server ex_items (ex_conn\<lparr>client := userpass_ready [0, 0]\<rparr>)"
      "ex_conn\<lparr>client := userpass_ready [0, 0]\<rparr>" "[0, 0]" 5 "[]" ex_client_item]
  by (simp add: login_table_def ex_users_def user_array_def)

text \<open>C23: a request that was rejected (bad version, command other than CONNECT, unknown address type) is
  never answered: every further segment is swallowed, nothing is sent, the state does not change.\<close>

theorem rejected_request_unanswered:
  assumes "at_conn k w d" and "client d = Client_request r" and "rs_parser r = Ptr p"
    and "rs_status r = status_succeeded" and "request_rejected (rp_state p)"
    and "os_recv (key_os k) (key_fd k) (buffer_free (read_buffer d)) = Some xs" and "xs \<noteq> []"
    and "length xs \<le> buffer_free (read_buffer d)"
  shows "\<exists>w' d'. request_read k w = Inr (socks_code REQUEST_READ, w') \<and> at_conn k w' d' \<and>
    client d' = client d \<and> buffer_content (read_buffer d') = [] \<and> write_buffer d' = write_buffer d \<and>
    sv_log w' = sv_log w \<and> sv_selector w' = sv_selector w"
  using request_read_rejected [OF assms] .

theorem rejected_request_unanswered_witness:
  "\<exists>w'. request_read (ex_key 5 [5, 1, 0] 0) (ex_server ex_items (ex_conn\<lparr>client := Client_request
       \<lparr>rs_parser = Ptr ((request_fresh ex_request)\<lparr>rp_state := request_error_unsupported_version\<rparr>),
        rs_addr_family = 0, rs_status = status_succeeded\<rparr>\<rparr>)) = Inr (4, w') \<and> sv_log w' = []"
proof -
  let ?p = "(request_fresh ex_request)\<lparr>rp_state := request_error_unsupported_version\<rparr>"
  let ?r = "\<lparr>rs_parser = Ptr ?p, rs_addr_family = 0, rs_status = status_succeeded\<rparr>"
  let ?d = "ex_conn\<lparr>client := Client_request ?r\<rparr>"
  show ?thesis
    using rejected_request_unanswered [of "ex_key 5 [5, 1, 0] 0" "ex_server ex_items ?d" ?d ?r ?p "[5, 1, 0]"]
    by (auto simp: request_rejected_def)
qed

text \<open>C24: when the attempt with the first address of a list has failed, the write event of the origin's descriptor
  takes the next address and connects the same descriptor again. It is still registered, so its
  registration is refused: the client gets the general failure in its buffer, the descriptor is closed, and the
  selector keeps its entry, though the connection forgets the descriptor.\<close>

theorem retry_closes_descriptor:
  assumes "at_conn k w d" and "orig d = Orig_conn c" and "cn_status c = status_succeeded"
    and "os_sockopt (key_os k) (key_fd k) = Some e" and "e \<noteq> 0" and "origin_resolution_current d = a # b # rest"
    and "ai_family b = AF_INET \<or> ai_family b = AF_INET6"
    and "os_connect (key_os k) (key_fd k) (ai_addr b) (origin_addr_len d) = EINPROGRESS"
    and "origin_fd d = key_fd k" and "registered w (key_fd k) it" and "10 \<le> buffer_free (write_buffer d)"
    and "registered w (client_fd d) jt" and "client_fd d \<noteq> key_fd k" and "key_fd k \<noteq> -1"
  shows "\<exists>w' d'. connecting_write k w = Inr (socks_code REQUEST_CONNECTING, w') \<and>
    sv_heap w' (key_data k) = Some d' \<and> origin_fd d' = -1 \<and> origin_addr d' = ai_addr b \<and>
    origin_resolution_current d' = b # rest \<and> references d' = references d \<and>
    sv_log w' = sv_log w @ [Closed (key_fd k)] \<and>
    sel_lookup (sv_selector w') = (sel_lookup (sv_selector w))
      (client_fd d \<mapsto> jt\<lparr>item_interest := OP_WRITE\<rparr>, key_fd k \<mapsto> it\<lparr>item_interest := OP_NOOP\<rparr>) \<and>
    buffer_content (write_buffer d') = buffer_content (write_buffer d) @ [5, 1, 0, 1, 0, 0, 0, 0, 0, 0]"
  using connecting_write_retry [OF assms] unfolding moved_def by fastforce

theorem retry_closes_descriptor_witness:
  "\<exists>w'. connecting_write ((ex_key 7 [] 0)\<lparr>key_os := (ex_os [] 0)\<lparr>os_sockopt := \<lambda>fd. Some 111\<rparr>\<rparr>)
       (ex_server ex_items (ex_connecting\<lparr>origin_resolution_current := [ex_address, ex_address]\<rparr>)) =
       Inr (socks_code REQUEST_CONNECTING, w') \<and> sv_log w' = [Closed 7] \<and>
     sel_lookup (sv_selector w') 7 = Some (ex_origin_item\<lparr>item_interest := OP_NOOP\<rparr>)"
  using retry_closes_descriptor [of "(ex_key 7 [] 0)\<lparr>key_os := (ex_os [] 0)\<lparr>os_sockopt := \<lambda>fd. Some 111\<rparr>\<rparr>"
      "ex_server ex_items (ex_connecting\<lparr>origin_resolution_current := [ex_address, ex_address]\<rparr>)"
      "ex_connecting\<lparr>origin_resolution_current := [ex_address, ex_address]\<rparr>"
      "\<lparr>cn_client_fd = 5, cn_origin_fd = -1, cn_status = status_succeeded\<rparr>" 111 ex_address ex_address "[]"
      ex_origin_item ex_client_item]
  by (auto simp: at_conn_def simp del: socks_code.simps OP_values)

section \<open>Accept and close\<close>

text \<open>C25: an accepted client gets a fresh connection (its own buffers, one reference, no origin, the
  machine before its first state) and is watched for reading; nothing else in the table changes.\<close>

theorem client_accepted:
  assumes "os_accept k fd = Some (c, addr)" and "selector_fd_set_nio (os_getfd k c) (os_setfl k c) \<noteq> -1"
    and "pool_take k w = Inr (Some i, w1)" and "sel_full (sv_selector w)" and "\<not> INVALID_FD c"
    and "sel_lookup (sv_selector w) c = None"
  shows "\<exists>w'. socksv5_passive_accept k fd w = Inr ((), w') \<and>
    sv_heap w' = (sv_heap w1)(i \<mapsto> fresh_conn True c addr) \<and> sel_full (sv_selector w') \<and>
    sel_lookup (sv_selector w') = (sel_lookup (sv_selector w))(c \<mapsto>
      \<lparr>item_fd = c, item_interest = OP_READ, item_handler = Some Socks5_handler, item_data = Some i\<rparr>)"
  using socks_accept_ok [OF assms] by (auto simp: accepted_item_def simp del: OP_values)

theorem client_accepted_witness:
  "\<exists>w'. socksv5_passive_accept (ex_os [] 0) 3 (ex_server ex_items ex_conn) = Inr ((), w') \<and>
     sel_lookup (sv_selector w') 6 \<noteq> None"
proof -
  let ?w = "ex_server ex_items ex_conn"
  have "pool_take (ex_os [] 0) ?w = Inr (Some (sv_next ?w), ?w\<lparr>sv_next := sv_next ?w + 1\<rparr>)"
    by (simp add: pool_take_def)
  from client_accepted [OF _ _ this, of 3 6 zero_sockaddr] show ?thesis
    by (auto simp: ex_selector_full ex_selector_lookup INVALID_FD_def ITEMS_MAX_SIZE_def)
qed

text \<open>C26: the end of a session with both references: both descriptors leave the selector and are closed,
  in this order, and the last reference gives the structure back: to the pool while the pool counts
  fewer than its maximum, to the allocator otherwise.\<close>

theorem session_closed:
  assumes "sel_full (sv_selector w)" and "sv_heap w (key_data k) = Some d" and "references d = 2"
    and "owned_by w (key_data k) (client_fd d)" and "owned_by w (key_data k) (origin_fd d)"
    and "client_fd d \<noteq> origin_fd d" and "client_fd d \<noteq> -1" and "origin_fd d \<noteq> -1"
  shows "\<exists>w'. socksv5_done k w = Inr ((), w') \<and> sel_full (sv_selector w') \<and>
    sel_lookup (sv_selector w') = (sel_lookup (sv_selector w))(client_fd d := None, origin_fd d := None) \<and>
    sv_log w' = sv_log w @ [Closed (client_fd d), Closed (origin_fd d)] \<and>
    (if sv_pool_size w < max_pool
     then sv_pool w' = key_data k # sv_pool w \<and> sv_pool_size w' = sv_pool_size w + 1
     else sv_heap w' (key_data k) = None \<and> sv_pool w' = sv_pool w)"
  using socksv5_done_ok [OF assms] by (auto simp: released_def socks5_free_def)

theorem session_closed_witness:
  "\<exists>w'. socksv5_done (ex_key 5 [] 0) (ex_server ex_items (ex_copy\<lparr>references := 2\<rparr>)) = Inr ((), w') \<and>
     sv_log w' = [Closed 5, Closed 7] \<and> sv_pool w' = [0]"
proof -
  let ?w = "ex_server ex_items (ex_copy\<lparr>references := 2\<rparr>)"
  have "owned_by ?w 0 5" "owned_by ?w 0 7"
    by (simp_all add: owned_by_def ex_selector_lookup) (simp_all add: ex_client_item_def ex_origin_item_def)
  then show ?thesis
    using session_closed [of ?w "ex_key 5 [] 0" "ex_copy\<lparr>references := 2\<rparr>"]
    by (auto simp: ex_selector_full ex_pool_size max_pool_def)
qed

section \<open>The building blocks\<close>

text \<open>C27: the selector is a map from descriptors to interest, handler and data: any sequence of
  registrations, changes of interest and removals gives the statuses and the entries that it gives on the
  map, and the two sets given to \<open>pselect\<close> are exactly those of the interests of the map.\<close>

theorem selector_is_a_map:
  assumes "sel_full s"
  shows "\<exists>s'. selector_run s ps = Inr (fst (map_run (sel_entries s) ps), s') \<and> sel_full s' \<and>
    sel_entries s' = snd (map_run (sel_entries s) ps) \<and>
    master_r s' = {fd. \<exists>i e. snd (map_run (sel_entries s) ps) fd = Some (i, e) \<and> wants_read i} \<and>
    master_w s' = {fd. \<exists>i e. snd (map_run (sel_entries s) ps) fd = Some (i, e) \<and> wants_write i}"
proof -
  obtain s' where s': "selector_run s ps = Inr (fst (map_run (sel_entries s) ps), s')" "sel_full s'"
      "sel_entries s' = snd (map_run (sel_entries s) ps)"
    using selector_run_refines [OF assms] by blast
  with sel_masters [OF s'(2)] show ?thesis by auto
qed

theorem selector_is_a_map_witness:
  "\<exists>s'. selector_run (ex_selector ex_items)
      [Reg 6 (OP_READ, Socks5_handler, Some 0), Interest 5 OP_WRITE, Unreg 7, Unreg 7, Reg 5 (OP_READ, Mng_handler, None)] =
    Inr ([SELECTOR_SUCCESS, SELECTOR_SUCCESS, SELECTOR_SUCCESS, SELECTOR_IARGS, SELECTOR_FDINUSE], s') \<and>
    sel_entries s' 5 = Some (OP_WRITE, Socks5_handler, Some 0) \<and> sel_entries s' 7 = None"
proof -
  let ?ps = "[Reg 6 (OP_READ, Socks5_handler, Some 0), Interest 5 OP_WRITE, Unreg 7, Unreg 7, Reg 5 (OP_READ, Mng_handler, None)]"
  let ?m = "sel_entries (ex_selector ex_items)"
  have m: "?m 5 = Some (OP_READ, Socks5_handler, Some 0)" "?m 7 = Some (OP_WRITE, Socks5_handler, Some 0)" "?m 6 = None"
    by (simp_all add: sel_entries_def ex_selector_lookup ex_client_item_def ex_origin_item_def del: OP_values sel_entries_None)
  have "map_run ?m ?ps = ([SELECTOR_SUCCESS, SELECTOR_SUCCESS, SELECTOR_SUCCESS, SELECTOR_IARGS, SELECTOR_FDINUSE],
      ?m(6 \<mapsto> (OP_READ, Socks5_handler, Some 0), 5 \<mapsto> (OP_WRITE, Socks5_handler, Some 0), 7 := None))"
    using m by (simp add: INVALID_FD_def ITEMS_MAX_SIZE_def del: OP_values sel_entries_None)
  then show ?thesis
    using selector_is_a_map [OF ex_selector_full [OF ex_items_ok], of ?ps]
    by (auto simp del: OP_values sel_entries_None selector_run.simps)
qed

text \<open>C28: the byte buffer is a bounded queue: any sequence of its operations (single bytes, blocks of bytes through
  the two pointers with any advance, what the pointers and the tests show, skips, compactions and resets)
  returns the same bytes, sizes and answers, and leaves the same contents and room, as the queue, with the
  same fault when more is skipped than there is, advanced beyond the limit, or stored past the memory. Of
  an advance it is asked that it does not show bytes that have not been stored.\<close>

theorem buffer_is_a_queue:
  assumes "buffer_inv b" and "\<forall>p \<in> set ps. stored p"
  shows "same_queue (buf_limit b) (length (buf_data b)) (buffer_run ps b)
    (queue_run (buf_limit b) (length (buf_data b)) ps (buffer_view b))"
  using buffer_run_refines [OF assms] .

theorem buffer_is_a_queue_witness:
  "\<exists>b. buffer_run [Put_byte 1, Put_bytes [2, 3, 4] 2, Put_bytes [9] (-1), Get_byte, Peek, Skip 1, Room, Get_byte, Get_byte]
       ex_buffer = Inr ([Out_byte 1, Out_bytes [2, 3], Out_size 2045, Out_byte 3, Out_byte 0], b) \<and>
     buffer_content b = [] \<and> buffer_free b = 2048"
  using buffer_is_a_queue [of ex_buffer "[Put_byte 1, Put_bytes [2, 3, 4] 2, Put_bytes [9] (-1), Get_byte, Peek, Skip 1, Room,
      Get_byte, Get_byte]"]
  by (auto simp: same_queue_def buffer_view_def stored_def split: sum.splits)

section \<open>Segmentation\<close>

text \<open>C29: a request may arrive in any segments: when the first run of the loop does not finish it, that run has
  consumed all its bytes, and the run on the next segment ends as one run on both segments would
  (the same parser, the same state, the same bytes left over, the same fault).\<close>

theorem request_in_segments:
  assumes "buffer_inv b" and "request_consume b p False = Inr ((p1, st1), b1)" and "st1 \<noteq> request_done"
    and "buffer_inv b2" and "buffer_inv b3" and "buffer_content b3 = buffer_content b @ buffer_content b2"
  shows "buffer_content b1 = [] \<and>
    (case request_consume b2 p1 False of
       Inl e \<Rightarrow> request_consume b3 p False = Inl e
     | Inr (c, b4) \<Rightarrow> \<exists>b5. request_consume b3 p False = Inr (c, b5) \<and> buffer_inv b5 \<and>
         buffer_content b5 = buffer_content b4)"
  using rp.loop_segments [OF assms(1) assms(2) [unfolded request_consume_def] _ assms(4-6)]
    request_consume_state [OF assms(1,2)] assms(3)
  by (simp add: request_consume_def request_stop_def request_is_done_def cong: sum.case_cong)

theorem request_in_segments_witness:
  "\<exists>p1 b1 b5. request_consume (ex_filled [5, 1]) (request_fresh ex_request) False = Inr ((p1, request_rsv), b1) \<and>
    request_consume (ex_filled [5, 1, 0, 1]) (request_fresh ex_request) False =
      Inr ((\<lparr>rp_request = Some (ex_request\<lparr>req_cmd := 1, req_atyp := 1, req_dest := Dest_addr ipv4_address_init\<rparr>),
        rp_state = request_dest_addr, rp_remaining = 4, rp_read = 0\<rparr>, request_dest_addr), b5)"
proof -
  let ?p1 = "\<lparr>rp_request = Some (ex_request\<lparr>req_cmd := 1\<rparr>), rp_state = request_rsv, rp_remaining = 0, rp_read = 0\<rparr>"
  let ?p2 = "\<lparr>rp_request = Some (ex_request\<lparr>req_cmd := 1, req_atyp := 1, req_dest := Dest_addr ipv4_address_init\<rparr>),
        rp_state = request_dest_addr, rp_remaining = 4, rp_read = 0\<rparr>"
  obtain b1 where b1: "request_consume (ex_filled [5, 1]) (request_fresh ex_request) False = Inr ((?p1, request_rsv), b1)"
    using rp.loop_Inr [of "ex_filled [5, 1]" False "(request_fresh ex_request, request_version)"]
    by (auto simp: request_consume_def request_fresh_def request_feed_simps request_constants)
  obtain b4 where b4: "request_consume (ex_filled [0, 1]) ?p1 False = Inr ((?p2, request_dest_addr), b4)"
    using rp.loop_Inr [of "ex_filled [0, 1]" False "(?p1, request_rsv)"]
    by (auto simp: request_consume_def request_feed_simps request_constants)
  show ?thesis
    using request_in_segments [of "ex_filled [5, 1]", OF _ b1, of "ex_filled [0, 1]" "ex_filled [5, 1, 0, 1]"] b1 b4 by auto
qed

text \<open>C30: a request that names a host of no bytes makes the parser write before the array of the name; a
  name of 255 bytes is rejected.\<close>

theorem host_length_limits:
  "feed_bytes request_feed (request_stop False) (5 # 1 # rsv # 3 # 0 # ys) (request_fresh block, st) = Inl Undefined \<and>
   (\<exists>p. feed_bytes request_feed (request_stop False) (5 # 1 # rsv # 3 # 255 # ys) (request_fresh block, st) =
     Inr ((p, request_error), []) \<and> rp_state p = request_error)"
  by (intro conjI request_feed_fqdn_length)

section \<open>The dissector of POP3 credentials\<close>



text \<open>C32: a POP3 login whose name and password are plain text of at most 254 bytes is reported once, with
  exactly this name and password, however it is cut into segments, and the dissector looks for the next one,
  while its allocations succeed.\<close>

theorem pop3_login_reported:
  assumes "dissec_alloc_ok alloc" and "dissec_inv p" and "dp_current p = user_word_search"
    and "plain_text u" and "length u \<le> 254" and "plain_text w" and "length w \<le> 254"
    and "concat bss = pop3_login u w"
  shows "\<exists>p'. dissec_segments alloc bss p = Inr (p', [(u, w)]) \<and> dp_current p' = user_word_search \<and> dissec_inv p'"
  unfolding dissec_segments_concat assms(8) by (rule pop3_login_found [OF assms(1-7)])

theorem pop3_login_reported_witness:
  "\<exists>p'. dissec_segments ex_alloc
      [[0x75, 0x73, 0x65], [0x72, 0x20, 97, 13], [10, 0x2B, 0x4F, 0x4B, 13, 10], [0x70, 0x61, 0x73, 0x73, 0x20, 98, 13, 10]]
      (dissec_parser_init (conn_dissec ex_fresh)) = Inr (p', [([97], [98])]) \<and> dp_current p' = user_word_search"
  using pop3_login_reported [of ex_alloc "dissec_parser_init (conn_dissec ex_fresh)" "[97]" "[98]"
      "[[0x75, 0x73, 0x65], [0x72, 0x20, 97, 13], [10, 0x2B, 0x4F, 0x4B, 13, 10], [0x70, 0x61, 0x73, 0x73, 0x20, 98, 13, 10]]"]
  by (auto simp: dissec_inv_def dissec_parser_init_def plain_text_def isascii2_def pop3_login_def crlf_def dissec_constants)

section \<open>The management requests\<close>

text \<open>C33: an index that asks for a value is answered at once with the status byte 0 and the value (the list of
  indexes, the list of users, the counters as the low 32 bits), an index that needs parameters waits for
  them, an unknown index is answered with its status; the tables and counters stay. The response has to fit
  the room of the write buffer.\<close>

theorem index_answered:
  assumes "at_conn k w d" and "client d = Client_mng m" and "ms_parser m = Parser_ready (index_parser blk)"
    and "ms_status m = mng_status_succeeded" and "length blk = 2"
    and "os_recv (key_os k) (key_fd k) 1 = Some [v]" and "buffer_content (read_buffer d) = []"
    and "1 \<le> buffer_free (read_buffer d)" and "registered w (key_fd k) it" and "users_ok w"
    and "index_outcome w v = (st, r)" and "length r \<le> buffer_free (write_buffer d)"
    and "buffer_free (write_buffer d) < 2 ^ 64" and "18 \<le> buffer_free (write_buffer d)"
  shows "\<exists>w' d'. mng_request_index_read k w = Inr (mng_code st, w') \<and> at_conn k w' d' \<and>
    buffer_content (write_buffer d') = buffer_content (write_buffer d) @ r \<and>
    user_table w' = user_table w \<and> sv_metrics w' = sv_metrics w \<and> sel_lookup (sv_selector w') =
      (sel_lookup (sv_selector w))(key_fd k \<mapsto> it\<lparr>item_interest :=
         if st = MNG_REQUEST_READ then OP_READ else OP_WRITE\<rparr>)"
proof -
  obtain w' d' wb where r: "mng_request_index_read k w = Inr (mng_code st, w')" "at_conn k w' d'"
      "write_buffer d' = wb" "buffer_content wb = buffer_content (write_buffer d) @ r" "sv_metrics w' = sv_metrics w"
      "moved k w ((sel_lookup (sv_selector w))(key_fd k \<mapsto> it\<lparr>item_interest :=
         if st = MNG_REQUEST_READ then OP_READ else OP_WRITE\<rparr>)) d' [] w'"
    using mng_index_request [OF assms] by fastforce
  moreover from r(6) have "user_table w' = user_table w" by (rule moved_users_ok)
  ultimately show ?thesis using moved_tables(5) [OF r(6)] by (intro exI [of _ w'] exI [of _ d'] conjI) simp_all
qed

theorem index_answered_witness:
  "\<exists>w' d'. mng_request_index_read (ex_key 5 [1] 0) (ex_server ex_single (ex_mng (index_parser [0, 0]) 0)) =
      Inr (mng_code MNG_REQUEST_WRITE, w') \<and> sv_heap w' 0 = Some d' \<and>
    buffer_content (write_buffer d') = [0, 1, 1, 97]"
proof -
  let ?w = "ex_server ex_single (ex_mng (index_parser [0, 0]) 0)"
  have out: "index_outcome ?w 1 = (MNG_REQUEST_WRITE, [0, 1, 1, 97])"
    by (simp add: index_outcome_def mng_index_of_def mng_indexes_def index_response_def table_names_def
        encode_names_def) (simp add: ex_users_def cstr_def)
  show ?thesis
    using index_answered [OF _ ex_mng_fields(1) [of "index_parser [0, 0]" 0] _ _ _ _ _ _ _ _ out, where k = "ex_key 5 [1] 0" and blk = "[0, 0]" and it = ex_client_item]
    by (auto simp: at_conn_def)
qed

text \<open>C34: a request that deletes a user removes the first entry of this name, keeps the order of the
  others, and is answered with success, also for a name that is not in the table.\<close>

theorem user_deleted:
  assumes "at_conn k w d" and "client d = Client_mng m" and "ms_parser m = Parser_ready delete_user_parser"
    and "ms_status m = mng_status_succeeded" and "ms_index m = 11"
    and "os_recv (key_os k) (key_fd k) (buffer_free (read_buffer d)) = Some xs" and "xs \<noteq> []"
    and "length xs \<le> buffer_free (read_buffer d)" and "registered w (key_fd k) it" and "users_ok w"
    and "buffer_content (read_buffer d) @ xs = delete_user_message u @ rest"
    and "allocator_ok (os_block (key_os k))" and "length u < 256"
    and "os_block (key_os k) 1 (length u + 1) \<noteq> None" and "1 \<le> buffer_free (write_buffer d)"
  shows "\<exists>w' d'. mng_request_read k w = Inr (mng_code MNG_REQUEST_WRITE, w') \<and>
    sv_heap w' (key_data k) = Some d' \<and> users_ok w' \<and> user_table w' = remove_user u (user_table w) \<and>
    buffer_content (write_buffer d') = buffer_content (write_buffer d) @ [0]"
proof -
  obtain w' v where r: "mng_request_read k w = Inr (mng_code MNG_REQUEST_WRITE, w')" "mng_answered k v d m it rest 0 w'"
      "users_ok w'" "user_table w' = remove_user u (user_table w)"
    using delete_user_done [OF assms] by blast
  then show ?thesis using mng_answered_content [OF r(2)] by blast
qed

theorem user_deleted_witness:
  "\<exists>w' d'. mng_request_read (ex_key 5 [1, 97] 0) (ex_server ex_single (ex_mng delete_user_parser 11)) =
      Inr (mng_code MNG_REQUEST_WRITE, w') \<and> sv_heap w' 0 = Some d' \<and> user_table w' = [] \<and>
    buffer_content (write_buffer d') = [0]"
  using user_deleted [OF _ ex_mng_fields(1), of "ex_key 5 [1, 97] 0" "ex_server ex_single (ex_mng delete_user_parser 11)"
      delete_user_parser 11 "[1, 97]" ex_client_item "[97]" "[]"]
  by (auto simp: delete_user_message_def ex_users_def cstr_def)

text \<open>C35: the check of the free space forgets the length bytes: when the names fit but the names with
  their lengths do not, the list is written past the end of the buffer.\<close>

theorem users_written_past_end:
  assumes "buffer_inv b" and "users_ok w" and "2 \<le> buffer_free b" and "buffer_free b < 2 ^ 64"
    and "2 + sum_list (map length (table_names w)) \<le> buffer_free b"
    and "buffer_free b < 2 + length (encode_names (table_names w))" and "buf_limit b = length (buf_data b)"
  shows "list_users_mng_request_marshall (sv_users w) (nusers w) b = Inl Undefined"
  by (rule list_users_overflow) (rule assms)+

theorem users_written_past_end_witness:
  "list_users_mng_request_marshall (user_array ex_users) 1 (buffer_init 3 [0, 0, 0]) = Inl Undefined"
proof -
  have n: "table_names (ex_server ex_items ex_conn) = [[97]]"
    by (simp add: table_names_def) (simp add: ex_users_def cstr_def)
  show ?thesis
    using users_written_past_end [of "buffer_init 3 [0, 0, 0]" "ex_server ex_items ex_conn"]
    by (simp add: n encode_names_def buffer_init_def buffer_reset_def buffer_inv_def buffer_free_def)
qed

text \<open>C36: the two switches take one byte and change nothing else of the server: 0 makes the server ask later clients for
  user and password again, every other value lets them in without; the dissector of passwords is set to
  the byte. The users, the administrators, the counters, the pools, the log and the other connections
  stay as they are; the connection has consumed the byte, answers with success and waits to send it.\<close>

theorem switch_set:
  assumes "at_conn k w d" and "client d = Client_mng m" and "ms_parser m = Parser_ready (yes_no_parser blk)"
    and "length blk = 2" and "ms_status m = mng_status_succeeded" and "ms_index m = 12 \<or> ms_index m = 13"
    and "os_recv (key_os k) (key_fd k) (buffer_free (read_buffer d)) = Some xs" and "xs \<noteq> []"
    and "length xs \<le> buffer_free (read_buffer d)" and "registered w (key_fd k) it"
    and "buffer_content (read_buffer d) @ xs = v # rest" and "1 \<le> buffer_free (write_buffer d)"
  shows "\<exists>d' q s. mng_request_read k w = Inr (mng_code MNG_REQUEST_WRITE,
      w\<lparr>sv_heap := (sv_heap w)(key_data k \<mapsto> d'), sv_selector := s,
        auth_method := (if ms_index m = 13 then auth_method w
          else if v = 0 then METHOD_USERNAME_PASSWORD else METHOD_NO_AUTHENTICATION_REQUIRED),
        password_dissectors := (if ms_index m = 13 then v else password_dissectors w)\<rparr>) \<and>
    sel_lookup s = (sel_lookup (sv_selector w))(key_fd k \<mapsto> it\<lparr>item_interest := OP_WRITE\<rparr>) \<and>
    d' = d\<lparr>client := Client_mng (m\<lparr>ms_parser := Parser_ready q\<rparr>), read_buffer := read_buffer d',
      write_buffer := write_buffer d'\<rparr> \<and>
    buffer_content (read_buffer d') = rest \<and>
    buffer_content (write_buffer d') = buffer_content (write_buffer d) @ [0]"
  using switch_only [OF assms] .

theorem switch_set_witness:
  "\<exists>w'. mng_request_read (ex_key 5 [1] 0) (ex_server ex_single (ex_mng (yes_no_parser [0, 0]) 12)) =
      Inr (mng_code MNG_REQUEST_WRITE, w') \<and> auth_method w' = METHOD_NO_AUTHENTICATION_REQUIRED \<and>
      sv_users w' = sv_users (ex_server ex_single (ex_mng (yes_no_parser [0, 0]) 12)) \<and> sv_log w' = []"
  using switch_set [OF _ ex_mng_fields(1), of "ex_key 5 [1] 0" "ex_server ex_single (ex_mng (yes_no_parser [0, 0]) 12)"
      "yes_no_parser [0, 0]" 12 "[0, 0]" "[1]" ex_client_item 1 "[]"]
  by auto

section \<open>The management client\<close>

text \<open>C37: the list of users and the client. When the names, each of at most 255 bytes, and their lengths fit the buffer of the
  server, it writes them behind a status and their number; a client without a file of statistics that
  receives this response as a whole prints exactly the names of the table, in order, if the response
  has at most the 500 bytes of its array. A longer one makes it read behind the end of the array: the names
  of 255 users, or a few long ones, do.\<close>

theorem users_read_back:
  assumes "buffer_inv b" and "users_ok w" and "buffer_free b < 2 ^ 64" and "length g = 500"
    and "2 + length (encode_names (table_names w)) \<le> buffer_free b"
    and "\<forall>n \<in> set (table_names w). length n < 256"
  shows "\<exists>b' r. list_users_mng_request_marshall (sv_users w) (nusers w) b = Inr b' \<and> buffer_inv b' \<and>
    buffer_content b' = buffer_content b @ r \<and> length r = 2 + length (encode_names (table_names w)) \<and>
    request_response False (Some r) g 1 =
      (if length r \<le> 500 then Inr (0, map User_line (table_names w)) else Inl Undefined)"
proof -
  let ?r = "0 # of_nat (nusers w) # encode_names (table_names w)"
  have n: "length (table_names w) = nusers w" "nusers w < 256"
    using assms(2) by (simp_all add: table_names_def user_table_def users_ok_def MAX_USERS_def)
  have names: "\<forall>n \<in> set (table_names w). length n < 256 \<and> 0 \<notin> set n"
    using assms(6) by (auto simp: table_names_def)
  have "request_response False (Some ?r) g 1 =
      (if length ?r \<le> 500 then Inr (0, map User_line (table_names w)) else Inl Undefined)"
    using client_lists_users [OF assms(4) names] client_lists_users_cut [OF assms(4) names] n by auto
  moreover obtain b' where "list_users_mng_request_marshall (sv_users w) (nusers w) b = Inr b'" "buffer_inv b'"
      "buffer_content b' = buffer_content b @ ?r"
    using list_users_content [OF assms(1,2) _ assms(3)] assms(5) by auto
  ultimately show ?thesis by (intro exI [of _ b'] exI [of _ ?r]) simp
qed

theorem users_read_back_witness:
  "\<exists>b' r. list_users_mng_request_marshall (user_array ex_users) 1 ex_buffer = Inr b' \<and> buffer_content b' = r \<and>
    request_response False (Some r) (replicate 500 0) 1 = Inr (0, [User_line [97]])"
proof -
  have n: "table_names (ex_server ex_items ex_conn) = [[97]]"
    by (simp add: table_names_def) (simp add: ex_users_def cstr_def)
  show ?thesis
    using users_read_back [of ex_buffer "ex_server ex_items ex_conn" "replicate 500 0"]
    by (auto simp: n encode_names_def)
qed

text \<open>C38: the client and the server together: a client with the credentials of an administrator that asks to add a user
  makes the server, over seven events, log it in, append the user below the limit of the table, send the three
  replies that the client receives and close the descriptor; the client reports what the server
  did. The bytes that the server receives are those that the client sends.\<close>

theorem client_adds_user:
  assumes dialogue: "client_dialogue e user = Inr ([m1, m2, q # m3], lines)" "\<forall>i. ce_sends e i" "\<not> ce_append e"
      "cu_credentials user" "cu_username user = Some a" "cu_password user = Some b" "ce_index e = 10"
      "length (cstr a) < 256" "length (cstr b) < 256" "length (cstr a) + length (cstr b) \<le> 506"
      "length (ce_word1 e) < 255" "length (ce_word2 e) < 255"
      "length (ce_buffer e 0) = 510" "length (ce_buffer e 1) = 512" "length (ce_buffer e 2) = 500"
    and received: "ce_recv e 0 = Some [MNG_VERSION, METHOD_USERNAME_PASSWORD]" "ce_recv e 1 = Some [1, 0]"
      "ce_recv e 2 = Some [st]"
    and server: "sv_heap w i = Some d" "server_inv w" "\<not> isSocks d"
      "conn_stm d = \<lparr>stm_initial = 0, stm_max_state = 8, stm_current = None\<rparr>"
      "buffer_content (read_buffer d) = []" "buffer_content (write_buffer d) = []"
      "registered w c it" "item_handler it = Some Mng_handler" "item_data it = Some i"
      "client_fd d = c" "c \<noteq> -1" "references d = 1"
      "x \<in> set (login_table d w)" "login_matches (cstr a) (cstr b) x"
    and kernel: "plentiful o1" "os_recv o1 c 2048 = Some m1"
      "plentiful o2" "os_send o2 c [MNG_VERSION, METHOD_USERNAME_PASSWORD] = 2"
      "plentiful o3" "os_recv o3 c 2048 = Some m2" "plentiful o4" "os_send o4 c [1, 0] = 2"
      "plentiful o5" "os_recv o5 c 1 = Some [q]" "plentiful o6" "os_recv o6 c 2048 = Some m3" "os_send o7 c [st] = 1"
    and st: "st = mng_reply_code (if nusers w < MAX_USERS then mng_status_succeeded else mng_status_max_users_reached)"
  shows "\<exists>w'. events_in_order [mng_read (event_key i c o1), mng_write (event_key i c o2),
        mng_read (event_key i c o3), mng_write (event_key i c o4), mng_read (event_key i c o5),
        mng_read (event_key i c o6), mng_write (event_key i c o7)] w = Inr ((), w') \<and>
    user_table w' = (if nusers w < MAX_USERS then user_table w @ [new_user (cstr (ce_word1 e)) (cstr (ce_word2 e))]
      else user_table w) \<and>
    lines = (if nusers w < MAX_USERS then [Done_line] else [Refused st]) \<and>
    sv_log w' = sv_log w @ [Sent c (the (ce_recv e 0)), Sent c (the (ce_recv e 1)), Sent c (the (ce_recv e 2)), Closed c] \<and>
    sel_lookup (sv_selector w') = (sel_lookup (sv_selector w))(c := None)"
proof -
  have resp: "request_response (ce_append e) (ce_recv e 2) (ce_buffer e 2) 10 =
      Inr (if st = 0 then 0 else -1, if nusers w < MAX_USERS then [Done_line] else [Refused st])"
    using received(3) dialogue(3,15) st by (auto simp: request_response_def store_bytes_def)
  have req: "send_request (ce_index e) (ce_word1 e) (ce_word2 e) (ce_buffer e 1) =
      Inr (Some (10 # add_user_message (cstr (ce_word1 e)) (cstr (ce_word2 e))))"
    using send_request_add [OF dialogue(14,11,12)] dialogue(7) by simp
  have m: "m1 = [1, 2, 0, 2]" "m2 = userpass_message (cstr a) (cstr b)" "q = 10"
      "m3 = add_user_message (cstr (ce_word1 e)) (cstr (ce_word2 e))"
      "lines = (if nusers w < MAX_USERS then [Done_line] else [Refused st])"
    using dialogue_requests [OF dialogue(2) _ received(2) dialogue(4) send_credentials_message [OF dialogue(13,5,6,10)] req]
      resp received(1) dialogue(1,7) by (auto simp: hello_constants)
  have short: "length (cstr v) < 256" if "length v < 255" for v :: "byte list"
    using that length_takeWhile_le [of "\<lambda>z. z \<noteq> 0" v] by (simp add: cstr_def)
  have inv: "selector.inv w" "tables_ok w" "users_ok w"
    using server(2)
    by (auto simp: server_inv_def selector.inv_def accounts_ok_def tables_ok_def users_ok_def user_table_def)
  have greeting: "os_recv o1 c 2048 = Some (MNG_VERSION # of_nat (length [0, METHOD_USERNAME_PASSWORD]) # [0, METHOD_USERNAME_PASSWORD])"
    using kernel(2) m(1) by (simp add: hello_constants)
  show ?thesis
    using add_user_session [OF server(1) inv server(3-12) _ greeting _ _ kernel(3,4,5) _ dialogue(8,9) server(13,14)
        kernel(7-9) _ kernel(11) _ short short st kernel(13), of "ce_word1 e" "ce_word2 e"]
      kernel(1,6,10,12) m dialogue(11,12) received
    by (auto simp: plentiful_def simp del: events_in_order.simps)
qed

theorem client_adds_user_witness:
  "\<exists>w'. user_table w' = ex_users @ [\<lparr>user_name = Some [99], user_pass = Some [100]\<rparr>] \<and>
     sv_log w' = [Sent 5 [1, 2], Sent 5 [1, 0], Sent 5 [0], Closed 5]"
proof -
  let ?u = "\<lparr>user_name = Some [97, 0], user_pass = Some [98, 0]\<rparr>"
  have login: "?u \<in> set (login_table ex_admin (ex_server ex_mng_items ex_admin))" "login_matches [97] [98] ?u"
    by (simp_all add: login_table_def ex_users_def user_array_def login_matches_def cstr_def)
  have item: "item_data ex_client_item = Some 0" by (simp add: ex_client_item_def)
  show ?thesis
    using client_adds_user [OF ex_client_dialogue, where w = "ex_server ex_mng_items ex_admin" and i = 0 and d = ex_admin
        and c = 5 and it = "ex_client_item\<lparr>item_handler := Some Mng_handler\<rparr>" and a = "[97]" and b = "[98]" and st = 0
        and x = ?u and ?o1.0 = "ex_os [1, 2, 0, 2] 0" and ?o2.0 = "ex_os [] 2" and ?o3.0 = "ex_os [1, 1, 97, 1, 98] 0"
        and ?o4.0 = "ex_os [] 2" and ?o5.0 = "ex_os [10] 0" and ?o6.0 = "ex_os [1, 99, 1, 100] 0"
        and ?o7.0 = "ex_os [] 1"] login item
    by (auto simp: ex_client_def ex_login_def new_user_def cstr_def hello_constants MAX_USERS_def
        simp del: events_in_order.simps)
qed

text \<open>C39: a client and a server that are given the same options \<open>-L\<close> and \<open>-P\<close>, in any place among their other
  options, agree: the client connects to the address and port of a master socket of the management, with the
  family of the socket that the server opens for it.\<close>

theorem same_address:
  assumes "client_parse_args n opts k = Some a" and "parse_args n alloc opts' k' = Inr (Some (s, us))"
    and "of_endpoint opts = of_endpoint opts'"
  shows "client_peer a = Some (if mng_family s = AF_INET6 then (AF_INET6, mng_addr_info6 s) else (AF_INET, mng_addr_info s))"
  by (rule peer_is_master) (rule assms)+

theorem same_address_witness:
  "\<exists>a s. client_parse_args ex_inet [(CHR ''P'', [57, 48, 48, 48]), (CHR ''d'', [])] 0 = Some a \<and>
     parse_args ex_inet (\<lambda>i. True) [(CHR ''N'', []), (CHR ''P'', [57, 48, 48, 48])] 0 = Inr (Some (s, [])) \<and>
     client_peer a = Some (AF_INET, mng_addr_info s) \<and> sa_port (mng_addr_info s) = [35, 40]"
proof -
  let ?c = "[(CHR ''P'', [57, 48, 48, 48 :: byte]), (CHR ''d'', [])]"
  let ?s = "[(CHR ''N'', []), (CHR ''P'', [57, 48, 48, 48 :: byte])]"
  obtain a where a: "client_parse_args ex_inet ?c 0 = Some a"
    by (simp add: client_parse_args_def client_option_def client_port_eq ex_port m16_defaults_def address_processing_def
        ex_inet_def loopback4_def loopback6_def)
  obtain s where s: "parse_args ex_inet (\<lambda>i. True) ?s 0 = Inr (Some (s, []))" "mng_family s = AF_UNSPEC"
      "sa_port (mng_addr_info s) = [35, 40]"
    by (simp add: parse_args_def process_option_def ex_port default_args_def default_addresses_def address_processing_def
        ex_inet_def any4_def any6_def loopback4_def loopback6_def htons_def)
  have "of_endpoint ?c = of_endpoint ?s" by (simp add: of_endpoint_def)
  from same_address [OF a s(1) this] a s show ?thesis by (auto simp: AF_UNSPEC_def AF_INET6_def)
qed

text \<open>C40: the text of an address is its notation, a colon and its port, cut to the buffer, as long as the notation
  and the colon leave a byte; when they fill the buffer exactly, the colon is written with its
  terminator one byte behind the end.\<close>

theorem address_printed:
  assumes "sa_family a = AF_INET \<or> sa_family a = AF_INET6" and "ntop (sa_family a) (sa_addr a) n = Some t"
    and "0 \<notin> set t" and "length t < n" and "length buff = n"
  shows "if length t + 1 < n
    then \<exists>m. sockaddr_to_human ntop buff n (Some a) = Inr m \<and> length m = n \<and>
      cstr m = take (n - 1) (t @ 58 # decimal (256 * unat (sa_port a ! 0) + unat (sa_port a ! 1)))
    else sockaddr_to_human ntop buff n (Some a) = Inl Undefined"
proof (cases "length t + 1 < n")
  case True
  from address_text [where ntop = ntop and buff = buff, OF assms(1-3) True] assms(5) True show ?thesis
    by (auto simp: ntohs_def mult.commute)
next
  case False
  then have "length t + 1 = n" using assms(4) by simp
  from address_overflow [where ntop = ntop and buff = buff, OF assms(1-3) this] assms(5) this show ?thesis by simp
qed

theorem address_printed_witness:
  "(\<exists>m. sockaddr_to_human (\<lambda>f a n. Some [49, 46, 50]) (replicate 9 7) 9
       (Some \<lparr>sa_family = AF_INET, sa_port = [31, 144], sa_addr = [1, 0, 0, 2]\<rparr>) = Inr m \<and>
     cstr m = [49, 46, 50, 58, 56, 48, 56, 48]) \<and>
   sockaddr_to_human (\<lambda>f a n. Some [49, 46, 50]) (replicate 4 7) 4
       (Some \<lparr>sa_family = AF_INET, sa_port = [31, 144], sa_addr = [1, 0, 0, 2]\<rparr>) = Inl Undefined"
proof -
  let ?a = "\<lparr>sa_family = AF_INET, sa_port = [31, 144], sa_addr = [1, 0, 0, 2]\<rparr>"
  have port: "decimal 8080 = [56, 48, 56, 48]"
    by (simp add: decimal.simps [of 8080] decimal.simps [of 808] decimal.simps [of 80] decimal.simps [of 8])
  show ?thesis
    using address_printed [of ?a "\<lambda>f a n. Some [49, 46, 50]" 9 "[49, 46, 50]" "replicate 9 7"]
      address_printed [of ?a "\<lambda>f a n. Some [49, 46, 50]" 4 "[49, 46, 50]" "replicate 4 7"]
    by (auto simp: port)
qed

end
